(* ===== verification/CS_Prelude.thy ===== *)
theory CS_Prelude
  imports Main "HOL-Library.Word"
begin

unbundle bit_operations_syntax

section \<open>Shared vocabulary of the development\<close>

text \<open>
  What every component theory uses: the Rust types the code is written in, the few operations of
  the Rust standard library it calls, and the lemmas about them.

  \<^item> Machine words are \<^typ>\<open>'a word\<close> where the code packs or masks bits. Sample numbers, counters
    and millisecond values are \<^typ>\<open>nat\<close>, with every saturating operation written out.
  \<^item> A Rust \<open>str\<close> is its list of Unicode scalar values (\<open>rstr\<close>), so that \<open>trim\<close> sees the Unicode
    white space the library trims and the byte length (\<open>utf8_len\<close>) is computed, not assumed.
  \<^item> An \<open>Instant\<close> is a number of nanoseconds on the monotonic clock, a \<open>Duration\<close> is a number of
    nanoseconds.
  \<^item> A \<open>Result\<close> is the sum type, the error on the left.
\<close>

subsection \<open>Collections used by the component proofs\<close>

named_theorems rust_std \<open>definitions of the Rust standard library operations\<close>
named_theorems frame_simps \<open>fields an operation leaves alone\<close>

subsection \<open>Integers\<close>

type_synonym u8 = "8 word"
type_synonym u16 = "16 word"
type_synonym u32 = "32 word"
type_synonym u64 = nat

definition i64_min :: int where "i64_min = - (2 ^ 63)"
definition i64_max :: int where "i64_max = 2 ^ 63 - 1"
definition u64_max :: nat where "u64_max = 2 ^ 64 - 1"

definition saturating_add_i64 :: "int \<Rightarrow> int \<Rightarrow> int" where
  [rust_std]: "saturating_add_i64 a b = max i64_min (min i64_max (a + b))"

text \<open>Rust's \<open>/\<close> on signed integers rounds towards zero.\<close>

definition div_trunc :: "int \<Rightarrow> int \<Rightarrow> int" where
  [rust_std]: "div_trunc a b = sgn a * sgn b * (\<bar>a\<bar> div \<bar>b\<bar>)"

definition clamp :: "'a::linorder \<Rightarrow> 'a \<Rightarrow> 'a \<Rightarrow> 'a" where
  [rust_std]: "clamp x lo hi = (if x < lo then lo else if hi < x then hi else x)"

lemma clamp_bounds: "lo \<le> hi \<Longrightarrow> lo \<le> clamp x lo hi \<and> clamp x lo hi \<le> hi"
  by (auto simp: clamp_def not_less)

lemma clamp_id [simp]: "lo \<le> x \<Longrightarrow> x \<le> hi \<Longrightarrow> clamp x lo hi = x"
  by (auto simp: clamp_def)

lemma clamp_idem [simp]: "lo \<le> hi \<Longrightarrow> clamp (clamp x lo hi) lo hi = clamp x lo hi"
  by (auto simp: clamp_def)

text \<open>Truncating division leaves a remainder smaller than the divisor, whatever the signs.\<close>

lemma div_trunc_remainder:
  assumes "0 < b"
  shows "\<bar>a - div_trunc a b * b\<bar> < b"
proof -
  have m: "\<bar>a\<bar> - (\<bar>a\<bar> div b) * b = \<bar>a\<bar> mod b" by (simp add: minus_div_mult_eq_mod)
  have "a - div_trunc a b * b = sgn a * (\<bar>a\<bar> - (\<bar>a\<bar> div b) * b)"
    using assms by (simp add: div_trunc_def algebra_simps abs_sgn sgn_mult_abs)
  then have "a - div_trunc a b * b = sgn a * (\<bar>a\<bar> mod b)" by (simp add: m)
  moreover have "0 \<le> \<bar>a\<bar> mod b" "\<bar>a\<bar> mod b < b" using assms by simp_all
  ultimately show ?thesis by (cases a "0::int" rule: linorder_cases) auto
qed

lemma div_trunc_zero [simp]: "div_trunc 0 b = 0"
  by (simp add: div_trunc_def)

subsection \<open>Time\<close>

type_synonym instant = nat
type_synonym duration = nat

definition from_millis :: "nat \<Rightarrow> duration" where
  [rust_std]: "from_millis ms = ms * 1000000"

text \<open>\<open>Instant::checked_duration_since\<close>: nothing when the argument lies in the future.\<close>

definition checked_duration_since :: "instant \<Rightarrow> instant \<Rightarrow> duration option" where
  [rust_std]: "checked_duration_since now earlier = (if earlier \<le> now then Some (now - earlier) else None)"

definition unwrap_or :: "'a \<Rightarrow> 'a option \<Rightarrow> 'a" where
  [rust_std]: "unwrap_or d x = (case x of None \<Rightarrow> d | Some v \<Rightarrow> v)"

lemma unwrap_or_simps [simp]: "unwrap_or d None = d" "unwrap_or d (Some v) = v"
  by (simp_all add: unwrap_or_def)

text \<open>\<open>Option::or\<close>: the first value wins.\<close>

definition option_or :: "'a option \<Rightarrow> 'a option \<Rightarrow> 'a option" where
  [rust_std]: "option_or x y = (case x of None \<Rightarrow> y | Some v \<Rightarrow> Some v)"

lemma option_or_simps [simp]:
  "option_or None y = y" "option_or (Some v) y = Some v" "option_or x None = x"
  by (simp_all add: option_or_def split: option.split)

lemma option_or_eq_Some: "option_or x y = Some v \<longleftrightarrow> x = Some v \<or> (x = None \<and> y = Some v)"
  by (cases x) simp_all

subsection \<open>Strings\<close>

type_synonym rstr = "nat list"

definition lit :: "string \<Rightarrow> rstr" where
  "lit s = map of_char s"

text \<open>UTF-8 width of one scalar value, and the byte length \<open>str::len\<close> returns.\<close>

definition utf8_width :: "nat \<Rightarrow> nat" where
  "utf8_width c = (if c < 128 then 1 else if c < 2048 then 2 else if c < 65536 then 3 else 4)"

definition utf8_len :: "rstr \<Rightarrow> nat" where
  "utf8_len s = sum_list (map utf8_width s)"

text \<open>\<open>char::is_whitespace\<close>: the Unicode \<open>White_Space\<close> property.\<close>

definition is_whitespace :: "nat \<Rightarrow> bool" where
  "is_whitespace c \<longleftrightarrow> (9 \<le> c \<and> c \<le> 13) \<or> c = 32 \<or> c = 133 \<or> c = 160 \<or> c = 5760
     \<or> (8192 \<le> c \<and> c \<le> 8202) \<or> c = 8232 \<or> c = 8233 \<or> c = 8239 \<or> c = 8287 \<or> c = 12288"

definition trim :: "rstr \<Rightarrow> rstr" where
  "trim s = rev (dropWhile is_whitespace (rev (dropWhile is_whitespace s)))"

definition ascii_lower :: "nat \<Rightarrow> nat" where
  "ascii_lower c = (if 65 \<le> c \<and> c \<le> 90 then c + 32 else c)"

definition to_ascii_lowercase :: "rstr \<Rightarrow> rstr" where
  "to_ascii_lowercase = map ascii_lower"

text \<open>\<open>str::split\<close> on one character: the separators vanish, empty pieces stay.\<close>

fun split_on :: "nat \<Rightarrow> rstr \<Rightarrow> rstr list" where
  "split_on d [] = [[]]"
| "split_on d (c # cs) =
     (if c = d then [] # split_on d cs
      else case split_on d cs of [] \<Rightarrow> [[c]] | p # ps \<Rightarrow> (c # p) # ps)"

text \<open>\<open>[String]::join\<close>.\<close>

fun join_with :: "rstr \<Rightarrow> rstr list \<Rightarrow> rstr" where
  "join_with sep [] = []"
| "join_with sep [p] = p"
| "join_with sep (p # q # ps) = p @ sep @ join_with sep (q # ps)"

lemma split_on_not_Nil [simp]: "split_on d s \<noteq> []"
  by (induction s) (auto split: list.splits)

lemma split_on_piece: "d \<notin> set p \<Longrightarrow> split_on d p = [p]"
  by (induction p) auto

lemma split_on_append_sep: "d \<notin> set p \<Longrightarrow> split_on d (p @ d # s) = p # split_on d s"
  by (induction p) (auto split: list.splits)

text \<open>Splitting undoes joining when no piece holds the separator.\<close>

lemma split_on_join_with:
  assumes "ps \<noteq> []" and "\<forall>p \<in> set ps. d \<notin> set p"
  shows "split_on d (join_with [d] ps) = ps"
  using assms
proof (induction "[d]" ps rule: join_with.induct)
  case (3 p q ps)
  then show ?case by (simp add: split_on_append_sep)
qed (auto simp: split_on_piece)

lemma trim_no_whitespace:
  assumes "\<forall>c \<in> set s. \<not> is_whitespace c"
  shows "trim s = s"
proof -
  have *: "dropWhile is_whitespace t = t" if "\<forall>c \<in> set t. \<not> is_whitespace c" for t
    using that by (cases t) auto
  show ?thesis using assms by (simp add: trim_def *)
qed

lemma to_ascii_lowercase_id: "\<forall>c \<in> set s. \<not> (65 \<le> c \<and> c \<le> 90) \<Longrightarrow> to_ascii_lowercase s = s"
  by (induction s) (auto simp: to_ascii_lowercase_def ascii_lower_def)

end
