(* ===== verification/Hotkey_Types.thy ===== *)
theory Hotkey_Types
  imports CS_Prelude
begin

section \<open>Gesture settings\<close>

text \<open>
  The setting types a gesture is configured with (\<open>core/config/types.rs\<close>): work modes, shortcut
  bindings, the deferred-insert chord, the widget chord with its parser and printer, the arm and
  channel modifiers, and the one-key-one-role rule of \<open>RecordingKeys\<close>.
\<close>

subsection \<open>Work modes and bindings\<close>

datatype WorkMode = Dictation | Formatting | Assistive

datatype ShortcutBinding =
    Binding_Disabled
  | HoldFn
  | HoldCtrl
  | HoldCtrlAlt
  | HoldCtrlShift
  | HoldCtrlCmd
  | DoubleCtrl
  | DoubleLeftOption
  | DoubleRightOption

definition shortcut_binding_as_str :: "ShortcutBinding \<Rightarrow> rstr" where
  "shortcut_binding_as_str b = (case b of
      Binding_Disabled \<Rightarrow> lit ''disabled''
    | HoldFn \<Rightarrow> lit ''hold_fn''
    | HoldCtrl \<Rightarrow> lit ''hold_ctrl''
    | HoldCtrlAlt \<Rightarrow> lit ''hold_ctrl_alt''
    | HoldCtrlShift \<Rightarrow> lit ''hold_ctrl_shift''
    | HoldCtrlCmd \<Rightarrow> lit ''hold_ctrl_cmd''
    | DoubleCtrl \<Rightarrow> lit ''double_ctrl''
    | DoubleLeftOption \<Rightarrow> lit ''double_left_option''
    | DoubleRightOption \<Rightarrow> lit ''double_right_option'')"

record ModeBinding =
  mb_mode :: WorkMode
  mb_binding :: ShortcutBinding

definition mode_binding_reachable :: "WorkMode \<Rightarrow> ShortcutBinding \<Rightarrow> bool" where
  "mode_binding_reachable mode b = (case b of
      Binding_Disabled \<Rightarrow> True
    | HoldFn \<Rightarrow> mode = Dictation
    | HoldCtrl \<Rightarrow> mode = Dictation
    | HoldCtrlAlt \<Rightarrow> mode = Dictation
    | HoldCtrlShift \<Rightarrow> mode = Dictation
    | HoldCtrlCmd \<Rightarrow> mode = Dictation
    | DoubleCtrl \<Rightarrow> mode = Dictation
    | DoubleLeftOption \<Rightarrow> mode = Formatting
    | DoubleRightOption \<Rightarrow> mode = Assistive)"

definition default_mode_bindings :: "ModeBinding list" where
  "default_mode_bindings =
     [\<lparr>mb_mode = Dictation, mb_binding = HoldFn\<rparr>,
      \<lparr>mb_mode = Formatting, mb_binding = DoubleLeftOption\<rparr>,
      \<lparr>mb_mode = Assistive, mb_binding = DoubleRightOption\<rparr>]"

subsection \<open>The deferred-insert chord\<close>

datatype DeferredInsertShortcut =
  Insert_Disabled | CommandOptionV | CommandShiftV | CommandControlV

definition deferred_is_enabled :: "DeferredInsertShortcut \<Rightarrow> bool" where
  "deferred_is_enabled s \<longleftrightarrow> s \<noteq> Insert_Disabled"

definition deferred_wire_id :: "DeferredInsertShortcut \<Rightarrow> rstr" where
  "deferred_wire_id s = (case s of
      Insert_Disabled \<Rightarrow> lit ''disabled''
    | CommandOptionV \<Rightarrow> lit ''command_option_v''
    | CommandShiftV \<Rightarrow> lit ''command_shift_v''
    | CommandControlV \<Rightarrow> lit ''command_control_v'')"

datatype parse_error =
    Unknown_DeferredInsertShortcut rstr
  | Unknown_widget_token rstr
  | Widget_names_no_key rstr
  | Widget_needs_modifier
  | Widget_is_agent_summon

definition deferred_from_str :: "rstr \<Rightarrow> parse_error + DeferredInsertShortcut" where
  "deferred_from_str value =
     (let v = to_ascii_lowercase (trim value)
      in if v = lit ''disabled'' then Inr Insert_Disabled
         else if v \<in> {lit ''command_option_v'', lit ''cmd_option_v'', lit ''cmd_alt_v''} then Inr CommandOptionV
         else if v \<in> {lit ''command_shift_v'', lit ''cmd_shift_v''} then Inr CommandShiftV
         else if v \<in> {lit ''command_control_v'', lit ''cmd_control_v'', lit ''cmd_ctrl_v''} then Inr CommandControlV
         else Inl (Unknown_DeferredInsertShortcut value))"

subsection \<open>The widget chord\<close>

text \<open>A letter is the ASCII code of an upper-case letter, as in the source (\<open>b'A'..=b'Z'\<close>).\<close>

datatype WidgetShortcutKey = Key_Letter u8 | Key_Space

definition keycode :: "WidgetShortcutKey \<Rightarrow> int" where
  "keycode k = (case k of
      Key_Space \<Rightarrow> 49
    | Key_Letter c \<Rightarrow>
        (if c = 65 then 0 else if c = 83 then 1 else if c = 68 then 2 else if c = 70 then 3
         else if c = 72 then 4 else if c = 71 then 5 else if c = 90 then 6 else if c = 88 then 7
         else if c = 67 then 8 else if c = 86 then 9 else if c = 66 then 11 else if c = 81 then 12
         else if c = 87 then 13 else if c = 69 then 14 else if c = 82 then 15 else if c = 89 then 16
         else if c = 84 then 17 else if c = 79 then 31 else if c = 85 then 32 else if c = 73 then 34
         else if c = 80 then 35 else if c = 76 then 37 else if c = 74 then 38 else if c = 75 then 40
         else if c = 78 then 45 else if c = 77 then 46 else - 1))"

text \<open>The range \<open>(b'A'..=b'Z')\<close> the search of \<open>from_keycode\<close> walks through.\<close>

definition ascii_uppercase :: "u8 list" where
  "ascii_uppercase = map word_of_nat [65..<91]"

definition from_keycode :: "int \<Rightarrow> WidgetShortcutKey option" where
  "from_keycode code =
     (if code = 49 then Some Key_Space
      else find (\<lambda>key. keycode key = code) (map Key_Letter ascii_uppercase))"

text \<open>\<open>(letter as char).to_ascii_lowercase()\<close>: a byte is the scalar value of the same number.\<close>

definition wire_token :: "WidgetShortcutKey \<Rightarrow> rstr" where
  "wire_token k = (case k of
      Key_Space \<Rightarrow> lit ''space''
    | Key_Letter c \<Rightarrow> [ascii_lower (unat c)])"

record WidgetShortcut =
  ws_ctrl :: bool
  ws_option :: bool
  ws_cmd :: bool
  ws_shift :: bool
  ws_key :: WidgetShortcutKey

definition default_widget_shortcut :: WidgetShortcut where
  "default_widget_shortcut =
     \<lparr>ws_ctrl = True, ws_option = False, ws_cmd = False, ws_shift = True, ws_key = Key_Letter 66\<rparr>"

definition wire_id_parts :: "WidgetShortcut \<Rightarrow> rstr list" where
  "wire_id_parts s =
     (if ws_ctrl s then [lit ''ctrl''] else [])
   @ (if ws_option s then [lit ''option''] else [])
   @ (if ws_cmd s then [lit ''cmd''] else [])
   @ (if ws_shift s then [lit ''shift''] else [])
   @ [wire_token (ws_key s)]"

definition wire_id :: "WidgetShortcut \<Rightarrow> rstr" where
  "wire_id s = join_with (lit ''+'') (wire_id_parts s)"

definition validate :: "WidgetShortcut \<Rightarrow> parse_error + WidgetShortcut" where
  "validate s =
     (if \<not> (ws_ctrl s \<or> ws_option s \<or> ws_cmd s) then Inl Widget_needs_modifier
      else if ws_cmd s \<and> ws_shift s \<and> \<not> ws_ctrl s \<and> \<not> ws_option s \<and> ws_key s = Key_Space
        then Inl Widget_is_agent_summon
      else Inr s)"

text \<open>One token of the chord: the shortcut and the key found so far go in, the next ones come out.\<close>

definition is_ascii_lowercase_byte :: "nat \<Rightarrow> bool" where
  "is_ascii_lowercase_byte c \<longleftrightarrow> 97 \<le> c \<and> c \<le> 122"

definition widget_token ::
  "WidgetShortcut \<Rightarrow> WidgetShortcutKey option \<Rightarrow> rstr
   \<Rightarrow> parse_error + (WidgetShortcut \<times> WidgetShortcutKey option)" where
  "widget_token s key token =
     (if token = lit ''ctrl'' \<or> token = lit ''control'' then Inr (s\<lparr>ws_ctrl := True\<rparr>, key)
      else if token = lit ''option'' \<or> token = lit ''alt'' \<or> token = lit ''opt''
        then Inr (s\<lparr>ws_option := True\<rparr>, key)
      else if token = lit ''cmd'' \<or> token = lit ''command'' then Inr (s\<lparr>ws_cmd := True\<rparr>, key)
      else if token = lit ''shift'' then Inr (s\<lparr>ws_shift := True\<rparr>, key)
      else if token = lit ''space'' then Inr (s, Some Key_Space)
      else if utf8_len token = 1 \<and> is_ascii_lowercase_byte (hd token)
        then Inr (s, Some (Key_Letter (word_of_nat (hd token - 32))))
      else Inl (Unknown_widget_token token))"

fun widget_tokens ::
  "WidgetShortcut \<Rightarrow> WidgetShortcutKey option \<Rightarrow> rstr list
   \<Rightarrow> parse_error + (WidgetShortcut \<times> WidgetShortcutKey option)" where
  "widget_tokens s key [] = Inr (s, key)"
| "widget_tokens s key (t # ts) =
     (case widget_token s key t of
        Inl e \<Rightarrow> Inl e
      | Inr (s', key') \<Rightarrow> widget_tokens s' key' ts)"

definition widget_from_str :: "rstr \<Rightarrow> parse_error + WidgetShortcut" where
  "widget_from_str value =
     (let start = \<lparr>ws_ctrl = False, ws_option = False, ws_cmd = False, ws_shift = False, ws_key = Key_Space\<rparr>
      in case widget_tokens start None (map (\<lambda>t. to_ascii_lowercase (trim t)) (split_on 43 value)) of
           Inl e \<Rightarrow> Inl e
         | Inr (s, None) \<Rightarrow> Inl (Widget_names_no_key value)
         | Inr (s, Some key) \<Rightarrow> validate (s\<lparr>ws_key := key\<rparr>))"

subsection \<open>Arm and channel modifiers\<close>

datatype HoldArmModifier = Arm_Shift | Arm_Cmd

datatype ChannelModifier = Channel_Ctrl | Channel_Fn | Channel_Off

definition records_with_fn :: "ShortcutBinding \<Rightarrow> bool" where
  "records_with_fn b \<longleftrightarrow> b = HoldFn"

definition records_with_ctrl :: "ShortcutBinding \<Rightarrow> bool" where
  "records_with_ctrl b \<longleftrightarrow> b \<in> {HoldCtrl, HoldCtrlAlt, HoldCtrlShift, HoldCtrlCmd, DoubleCtrl}"

record RecordingKeys =
  rk_fn_key :: bool
  rk_fn_binding :: bool
  rk_ctrl :: bool

definition recording_keys_from_bindings :: "ShortcutBinding list \<Rightarrow> bool \<Rightarrow> RecordingKeys" where
  "recording_keys_from_bindings bindings fn_tap =
     (let fn_binding = list_ex records_with_fn bindings
      in \<lparr>rk_fn_key = (fn_binding \<or> fn_tap), rk_fn_binding = fn_binding,
          rk_ctrl = list_ex records_with_ctrl bindings\<rparr>)"

definition effective_channel_modifier :: "RecordingKeys \<Rightarrow> ChannelModifier \<Rightarrow> ChannelModifier" where
  "effective_channel_modifier keys requested =
     (if requested = Channel_Fn \<and> rk_fn_key keys
        then (if rk_ctrl keys then Channel_Off else Channel_Ctrl)
      else if requested = Channel_Ctrl \<and> rk_ctrl keys
        then (if rk_fn_key keys then Channel_Off else Channel_Fn)
      else requested)"

subsection \<open>Properties of the settings\<close>

lemma lit_simps [simp]: "lit [] = []" "lit (c # cs) = of_char c # lit cs"
  by (simp_all add: lit_def)

text \<open>A wire identifier is made of tokens without separator, white space or upper-case letters.\<close>

definition clean_token :: "rstr \<Rightarrow> bool" where
  "clean_token t \<longleftrightarrow> (\<forall>c \<in> set t. c \<noteq> 43 \<and> \<not> is_whitespace c \<and> \<not> (65 \<le> c \<and> c \<le> 90))"

lemma clean_token_stable: "clean_token t \<Longrightarrow> to_ascii_lowercase (trim t) = t"
  by (simp add: clean_token_def trim_no_whitespace to_ascii_lowercase_id)

definition valid_key :: "WidgetShortcutKey \<Rightarrow> bool" where
  "valid_key k \<longleftrightarrow> (case k of Key_Space \<Rightarrow> True | Key_Letter c \<Rightarrow> 65 \<le> unat c \<and> unat c \<le> 90)"

lemma clean_modifier_tokens:
  "clean_token (lit ''ctrl'')" "clean_token (lit ''option'')" "clean_token (lit ''cmd'')"
  "clean_token (lit ''shift'')" "clean_token (lit ''space'')"
  by (simp_all add: clean_token_def is_whitespace_def)

lemma clean_wire_token: "valid_key k \<Longrightarrow> clean_token (wire_token k)"
  by (cases k) (auto simp: valid_key_def wire_token_def clean_modifier_tokens clean_token_def
      ascii_lower_def is_whitespace_def)

lemma clean_wire_id_parts: "valid_key (ws_key s) \<Longrightarrow> t \<in> set (wire_id_parts s) \<Longrightarrow> clean_token t"
  by (auto simp: wire_id_parts_def clean_modifier_tokens clean_wire_token simp del: lit_simps
      split: if_splits)

lemma widget_token_modifiers:
  "widget_token s key (lit ''ctrl'') = Inr (s\<lparr>ws_ctrl := True\<rparr>, key)"
  "widget_token s key (lit ''option'') = Inr (s\<lparr>ws_option := True\<rparr>, key)"
  "widget_token s key (lit ''cmd'') = Inr (s\<lparr>ws_cmd := True\<rparr>, key)"
  "widget_token s key (lit ''shift'') = Inr (s\<lparr>ws_shift := True\<rparr>, key)"
  by (simp_all add: widget_token_def)

lemma widget_token_key:
  assumes "valid_key k"
  shows "widget_token s key (wire_token k) = Inr (s, Some k)"
proof (cases k)
  case Key_Space
  then show ?thesis by (simp add: widget_token_def wire_token_def)
next
  case (Key_Letter c)
  with assms have c: "65 \<le> unat c" "unat c \<le> 90" by (simp_all add: valid_key_def)
  then have "wire_token k = [unat c + 32]" by (simp add: Key_Letter wire_token_def ascii_lower_def)
  moreover have "utf8_len [unat c + 32] = 1" using c by (simp add: utf8_len_def utf8_width_def)
  ultimately show ?thesis using c
    by (simp add: widget_token_def Key_Letter is_ascii_lowercase_byte_def)
qed

lemma widget_tokens_wire_id_parts:
  assumes "valid_key (ws_key s)"
  shows "widget_tokens \<lparr>ws_ctrl = False, ws_option = False, ws_cmd = False, ws_shift = False, ws_key = k\<rparr>
           None (wire_id_parts s)
         = Inr (s\<lparr>ws_key := k\<rparr>, Some (ws_key s))"
  using assms by (cases s) (simp add: wire_id_parts_def widget_token_modifiers widget_token_key del: lit_simps)

lemma split_wire_id:
  assumes "valid_key (ws_key s)"
  shows "map (\<lambda>t. to_ascii_lowercase (trim t)) (split_on 43 (wire_id s)) = wire_id_parts s"
proof -
  have "split_on 43 (join_with [43] (wire_id_parts s)) = wire_id_parts s"
    using assms clean_wire_id_parts by (intro split_on_join_with) (auto simp: wire_id_parts_def clean_token_def)
  moreover have "map (\<lambda>t. to_ascii_lowercase (trim t)) (wire_id_parts s) = wire_id_parts s"
    using assms by (intro map_idI) (simp add: clean_token_stable clean_wire_id_parts)
  ultimately show ?thesis by (simp add: wire_id_def)
qed

lemma clean_deferred_wire_id: "clean_token (deferred_wire_id s)"
  by (cases s) (simp_all add: deferred_wire_id_def clean_token_def is_whitespace_def)

lemma ascii_uppercase_complete:
  assumes "65 \<le> unat c" and "unat c \<le> 90"
  shows "c \<in> set ascii_uppercase"
proof -
  from assms have "unat c \<in> {65..<91}" unfolding atLeastLessThan_iff by linarith
  then have "word_of_nat (unat c) \<in> (word_of_nat ` {65..<91} :: u8 set)" by (rule imageI)
  moreover have "word_of_nat (unat c) = c" by simp
  ultimately show ?thesis unfolding ascii_uppercase_def set_map set_upt by (simp only:)
qed

text \<open>Printing a widget chord and parsing it back gives the chord: for every chord the validator
accepts whose key is a letter A to Z or Space, \<open>from_str (wire_id s) = Ok s\<close>.\<close>

theorem widget_wire_id_roundtrip:
  assumes "valid_key (ws_key s)" and "validate s = Inr s"
  shows "widget_from_str (wire_id s) = Inr s"
  using assms by (simp add: widget_from_str_def Let_def split_wire_id widget_tokens_wire_id_parts)

theorem widget_wire_id_roundtrip_witness:
  "widget_from_str (wire_id default_widget_shortcut) = Inr default_widget_shortcut"
  by (rule widget_wire_id_roundtrip) (simp_all add: default_widget_shortcut_def valid_key_def validate_def)

lemma deferred_wire_id_roundtrip: "deferred_from_str (deferred_wire_id s) = Inr s"
proof -
  have "to_ascii_lowercase (trim (deferred_wire_id s)) = deferred_wire_id s"
    by (rule clean_token_stable) (rule clean_deferred_wire_id)
  then show ?thesis by (cases s) (simp_all add: deferred_from_str_def deferred_wire_id_def)
qed

text \<open>Every chord the parser accepts can be armed without shadowing typing or the Agent summon.\<close>

lemma widget_from_str_valid:
  assumes "widget_from_str v = Inr s"
  shows "validate s = Inr s"
  using assms
  by (auto simp: widget_from_str_def validate_def Let_def split: sum.splits option.splits if_splits)

lemma keycode_roundtrip: "valid_key k \<Longrightarrow> from_keycode (keycode k) = Some k"
proof (cases k)
  case Key_Space
  then show ?thesis by (simp add: keycode_def from_keycode_def)
next
  case (Key_Letter c)
  assume "valid_key k"
  with Key_Letter have "c \<in> set ascii_uppercase"
    by (simp add: valid_key_def ascii_uppercase_complete)
  then show ?thesis
    by (auto simp: Key_Letter ascii_uppercase_def upt_rec keycode_def from_keycode_def)
qed

text \<open>One key, one role: the channel modifier the loader resolves is never a key that records
dictation, and it is switched off only if it was requested off or both keys record.\<close>

theorem channel_modifier_never_records:
  "\<not> (effective_channel_modifier keys requested = Channel_Ctrl \<and> rk_ctrl keys)
 \<and> \<not> (effective_channel_modifier keys requested = Channel_Fn \<and> rk_fn_key keys)
 \<and> (effective_channel_modifier keys requested = Channel_Off
      \<longleftrightarrow> requested = Channel_Off \<or> (rk_ctrl keys \<and> rk_fn_key keys))"
  by (cases requested) (auto simp: effective_channel_modifier_def)

end
