(* ===== verification/Hotkey_Config.thy ===== *)
theory Hotkey_Config
  imports Hotkey_Types
begin

section \<open>The runtime mirror of the hotkey settings\<close>

text \<open>
  \<open>app/os/hotkeys/config.rs\<close> keeps every hotkey setting in a process-global atomic. The mode
  bindings, the channel modifier and the Fn-tap flag share one 16-bit word. The atomics are the
  fields of \<open>hotkey_atomics\<close>; each setter and getter is a function of that record, and
  \<open>apply_hotkey_runtime_config\<close> is the single write entry point. The main results: packing is
  lossless, and reading back an applied snapshot gives the normalised snapshot.
\<close>

subsection \<open>Packing\<close>

definition encode_shortcut_binding :: "ShortcutBinding \<Rightarrow> u16" where
  "encode_shortcut_binding b = (case b of
      Binding_Disabled \<Rightarrow> 0
    | HoldFn \<Rightarrow> 1
    | HoldCtrl \<Rightarrow> 2
    | HoldCtrlAlt \<Rightarrow> 3
    | HoldCtrlShift \<Rightarrow> 4
    | HoldCtrlCmd \<Rightarrow> 5
    | DoubleCtrl \<Rightarrow> 6
    | DoubleLeftOption \<Rightarrow> 7
    | DoubleRightOption \<Rightarrow> 8)"

definition decode_shortcut_binding :: "u16 \<Rightarrow> ShortcutBinding" where
  "decode_shortcut_binding v =
     (if v = 0 then Binding_Disabled
      else if v = 1 then HoldFn
      else if v = 2 then HoldCtrl
      else if v = 3 then HoldCtrlAlt
      else if v = 4 then HoldCtrlShift
      else if v = 5 then HoldCtrlCmd
      else if v = 6 then DoubleCtrl
      else if v = 7 then DoubleLeftOption
      else if v = 8 then DoubleRightOption
      else Binding_Disabled)"

record ModeHotkeyBindings =
  dictation :: ShortcutBinding
  formatting :: ShortcutBinding
  assistive :: ShortcutBinding

definition encode_mode_hotkey_bindings :: "ModeHotkeyBindings \<Rightarrow> u16" where
  "encode_mode_hotkey_bindings b =
     encode_shortcut_binding (dictation b)
       OR push_bit 4 (encode_shortcut_binding (formatting b))
       OR push_bit 8 (encode_shortcut_binding (assistive b))"

definition decode_mode_hotkey_bindings :: "u16 \<Rightarrow> ModeHotkeyBindings" where
  "decode_mode_hotkey_bindings raw =
     \<lparr>dictation = decode_shortcut_binding (raw AND 0x0F),
      formatting = decode_shortcut_binding (drop_bit 4 raw AND 0x0F),
      assistive = decode_shortcut_binding (drop_bit 8 raw AND 0x0F)\<rparr>"

definition MODE_BINDINGS_MASK :: u16 where "MODE_BINDINGS_MASK = 0x0FFF"
definition CHANNEL_MODIFIER_MASK :: u16 where "CHANNEL_MODIFIER_MASK = 0x3000"
definition FN_TAP_MASK :: u16 where "FN_TAP_MASK = 0x4000"

definition DEFAULT_MODE_BINDINGS_ENCODED :: u16 where
  "DEFAULT_MODE_BINDINGS_ENCODED = 1 OR push_bit 4 7 OR push_bit 8 8"

definition encode_hold_arm_modifier :: "HoldArmModifier \<Rightarrow> u8" where
  "encode_hold_arm_modifier arm = (case arm of Arm_Shift \<Rightarrow> 0 | Arm_Cmd \<Rightarrow> 1)"

definition decode_hold_arm_modifier :: "u8 \<Rightarrow> HoldArmModifier" where
  "decode_hold_arm_modifier v = (if v = 1 then Arm_Cmd else Arm_Shift)"

definition encode_deferred_insert_shortcut :: "DeferredInsertShortcut \<Rightarrow> u8" where
  "encode_deferred_insert_shortcut s = (case s of
      Insert_Disabled \<Rightarrow> 0 | CommandOptionV \<Rightarrow> 1 | CommandShiftV \<Rightarrow> 2 | CommandControlV \<Rightarrow> 3)"

definition decode_deferred_insert_shortcut :: "u8 \<Rightarrow> DeferredInsertShortcut" where
  "decode_deferred_insert_shortcut v =
     (if v = 1 then CommandOptionV else if v = 2 then CommandShiftV
      else if v = 3 then CommandControlV else Insert_Disabled)"

definition encode_channel_modifier :: "ChannelModifier \<Rightarrow> u8" where
  "encode_channel_modifier m = (case m of Channel_Ctrl \<Rightarrow> 0 | Channel_Fn \<Rightarrow> 1 | Channel_Off \<Rightarrow> 2)"

definition decode_channel_modifier :: "u8 \<Rightarrow> ChannelModifier" where
  "decode_channel_modifier v = (if v = 1 then Channel_Fn else if v = 2 then Channel_Off else Channel_Ctrl)"

text \<open>\<open>bool as u32\<close> is 0 or 1.\<close>

definition encode_widget_shortcut :: "WidgetShortcut \<Rightarrow> u32" where
  "encode_widget_shortcut s =
     push_bit 8 (of_bool (ws_ctrl s)) OR push_bit 9 (of_bool (ws_option s))
       OR push_bit 10 (of_bool (ws_cmd s)) OR push_bit 11 (of_bool (ws_shift s))
       OR (case ws_key s of Key_Space \<Rightarrow> 0 | Key_Letter letter \<Rightarrow> ucast letter)"

definition decode_widget_shortcut :: "u32 \<Rightarrow> WidgetShortcut" where
  "decode_widget_shortcut value =
     (let key = (ucast (value AND 0xFF) :: u8);
          with_key = (\<lambda>k. \<lparr>ws_ctrl = (value AND push_bit 8 1 \<noteq> 0),
             ws_option = (value AND push_bit 9 1 \<noteq> 0),
             ws_cmd = (value AND push_bit 10 1 \<noteq> 0),
             ws_shift = (value AND push_bit 11 1 \<noteq> 0),
             ws_key = k\<rparr>)
      in if key = 0 then with_key Key_Space
         else if 65 \<le> key \<and> key \<le> 90 then with_key (Key_Letter key)
         else default_widget_shortcut)"

definition WIDGET_SHORTCUT_DEFAULT :: u32 where
  "WIDGET_SHORTCUT_DEFAULT = push_bit 8 1 OR push_bit 11 1 OR 66"

subsection \<open>The atomics\<close>

record hotkey_atomics =
  HOTKEY_GESTURES :: u16
  EXCLUSIVE_MODE :: bool
  HOLD_ARM_MODIFIER :: u8
  HOLD_START_DELAY_MS :: u64
  DOUBLE_TAP_INTERVAL_MS :: u64
  DEFERRED_INSERT_SHORTCUT :: u8
  WIDGET_SHORTCUT :: u32
  MIDDLE_MOUSE_ACTS_AS_FN :: bool
  MIDDLE_MOUSE_AGENT_GESTURE :: bool
  AGENT_GESTURE_CAPTURE_UNTIL_MS :: u64

definition boot_atomics :: hotkey_atomics where
  "boot_atomics = \<lparr>HOTKEY_GESTURES = DEFAULT_MODE_BINDINGS_ENCODED, EXCLUSIVE_MODE = False,
     HOLD_ARM_MODIFIER = 0, HOLD_START_DELAY_MS = 800, DOUBLE_TAP_INTERVAL_MS = 200,
     DEFERRED_INSERT_SHORTCUT = 0, WIDGET_SHORTCUT = WIDGET_SHORTCUT_DEFAULT,
     MIDDLE_MOUSE_ACTS_AS_FN = False, MIDDLE_MOUSE_AGENT_GESTURE = False,
     AGENT_GESTURE_CAPTURE_UNTIL_MS = 0\<rparr>"

text \<open>
  The compare-exchange loop. \<open>interference\<close> lists the values other threads stored between a load and
  its exchange: each failed exchange reloads the value it met and tries again. The loop installs the
  masked update of the last value it saw.
\<close>

fun update_gesture_bits_loop :: "u16 \<Rightarrow> u16 \<Rightarrow> u16 \<Rightarrow> u16 list \<Rightarrow> u16" where
  "update_gesture_bits_loop msk value current [] = (current AND NOT msk) OR value"
| "update_gesture_bits_loop msk value current (actual # rest) =
     update_gesture_bits_loop msk value actual rest"

definition update_gesture_bits :: "u16 \<Rightarrow> u16 \<Rightarrow> hotkey_atomics \<Rightarrow> hotkey_atomics" where
  "update_gesture_bits msk value st =
     st\<lparr>HOTKEY_GESTURES := update_gesture_bits_loop msk value (HOTKEY_GESTURES st) []\<rparr>"

definition set_mode_hotkey_bindings :: "ModeHotkeyBindings \<Rightarrow> hotkey_atomics \<Rightarrow> hotkey_atomics" where
  "set_mode_hotkey_bindings b = update_gesture_bits MODE_BINDINGS_MASK (encode_mode_hotkey_bindings b)"

definition get_mode_hotkey_bindings :: "hotkey_atomics \<Rightarrow> ModeHotkeyBindings" where
  "get_mode_hotkey_bindings st = decode_mode_hotkey_bindings (HOTKEY_GESTURES st)"

definition set_channel_modifier :: "ChannelModifier \<Rightarrow> hotkey_atomics \<Rightarrow> hotkey_atomics" where
  "set_channel_modifier m =
     update_gesture_bits CHANNEL_MODIFIER_MASK (push_bit 12 (ucast (encode_channel_modifier m)))"

definition channel_modifier_of_bits :: "u16 \<Rightarrow> ChannelModifier" where
  "channel_modifier_of_bits g = decode_channel_modifier (ucast (drop_bit 12 (g AND CHANNEL_MODIFIER_MASK)))"

definition get_channel_modifier :: "hotkey_atomics \<Rightarrow> ChannelModifier" where
  "get_channel_modifier st = channel_modifier_of_bits (HOTKEY_GESTURES st)"

definition set_double_tap_interval_ms :: "u64 \<Rightarrow> hotkey_atomics \<Rightarrow> hotkey_atomics" where
  "set_double_tap_interval_ms ms st = st\<lparr>DOUBLE_TAP_INTERVAL_MS := clamp ms 100 450\<rparr>"

definition set_exclusive_mode :: "bool \<Rightarrow> hotkey_atomics \<Rightarrow> hotkey_atomics" where
  "set_exclusive_mode enabled st = st\<lparr>EXCLUSIVE_MODE := enabled\<rparr>"

definition set_hold_arm_modifier :: "HoldArmModifier \<Rightarrow> hotkey_atomics \<Rightarrow> hotkey_atomics" where
  "set_hold_arm_modifier arm st = st\<lparr>HOLD_ARM_MODIFIER := encode_hold_arm_modifier arm\<rparr>"

definition set_hold_start_delay_ms :: "u64 \<Rightarrow> hotkey_atomics \<Rightarrow> hotkey_atomics" where
  "set_hold_start_delay_ms ms st = st\<lparr>HOLD_START_DELAY_MS := ms\<rparr>"

definition set_deferred_insert_shortcut :: "DeferredInsertShortcut \<Rightarrow> hotkey_atomics \<Rightarrow> hotkey_atomics" where
  "set_deferred_insert_shortcut s st =
     st\<lparr>DEFERRED_INSERT_SHORTCUT := encode_deferred_insert_shortcut s\<rparr>"

definition set_widget_shortcut :: "WidgetShortcut \<Rightarrow> hotkey_atomics \<Rightarrow> hotkey_atomics" where
  "set_widget_shortcut s st = st\<lparr>WIDGET_SHORTCUT := encode_widget_shortcut s\<rparr>"

definition set_middle_mouse_acts_as_fn :: "bool \<Rightarrow> hotkey_atomics \<Rightarrow> hotkey_atomics" where
  "set_middle_mouse_acts_as_fn enabled st = st\<lparr>MIDDLE_MOUSE_ACTS_AS_FN := enabled\<rparr>"

definition set_middle_mouse_agent_gesture :: "bool \<Rightarrow> hotkey_atomics \<Rightarrow> hotkey_atomics" where
  "set_middle_mouse_agent_gesture enabled st = st\<lparr>MIDDLE_MOUSE_AGENT_GESTURE := enabled\<rparr>"

subsection \<open>The chooser capture lease\<close>

text \<open>30 seconds; instants are nanoseconds since the process-local \<open>capture_epoch\<close>.\<close>

definition AGENT_GESTURE_CAPTURE_LEASE :: duration where
  "AGENT_GESTURE_CAPTURE_LEASE = from_millis 30000"

definition capture_millis :: "instant \<Rightarrow> u64" where
  "capture_millis at = min u64_max (at div 1000000)"

definition set_agent_gesture_capture :: "instant \<Rightarrow> bool \<Rightarrow> hotkey_atomics \<Rightarrow> hotkey_atomics" where
  "set_agent_gesture_capture now active st =
     st\<lparr>AGENT_GESTURE_CAPTURE_UNTIL_MS :=
        (if active then max (capture_millis (now + AGENT_GESTURE_CAPTURE_LEASE)) 1 else 0)\<rparr>"

definition agent_gesture_capture_active :: "instant \<Rightarrow> hotkey_atomics \<Rightarrow> bool" where
  "agent_gesture_capture_active now st \<longleftrightarrow>
     AGENT_GESTURE_CAPTURE_UNTIL_MS st \<noteq> 0 \<and> capture_millis now < AGENT_GESTURE_CAPTURE_UNTIL_MS st"

subsection \<open>The snapshot\<close>

record HotkeyRuntimeConfig =
  mode_bindings :: ModeHotkeyBindings
  hold_exclusive :: bool
  hold_arm_modifier :: HoldArmModifier
  hold_start_delay_ms :: u64
  double_tap_interval_ms :: u64
  deferred_insert_shortcut :: DeferredInsertShortcut
  channel_modifier :: ChannelModifier
  widget_shortcut :: WidgetShortcut
  fn_tap_toggles_dictation :: bool
  middle_mouse_acts_as_fn :: bool
  middle_mouse_agent_gesture :: bool

definition mode_bindings_from_bindings :: "ModeBinding list \<Rightarrow> ModeHotkeyBindings" where
  "mode_bindings_from_bindings bindings =
     (let binding_for = (\<lambda>mode. case find (\<lambda>entry. mb_mode entry = mode) bindings of
            None \<Rightarrow> Binding_Disabled | Some entry \<Rightarrow> mb_binding entry)
      in \<lparr>dictation = binding_for Dictation, formatting = binding_for Formatting,
          assistive = binding_for Assistive\<rparr>)"

definition get_hotkey_runtime_config :: "hotkey_atomics \<Rightarrow> HotkeyRuntimeConfig" where
  "get_hotkey_runtime_config st =
     (let gestures = HOTKEY_GESTURES st
      in \<lparr>mode_bindings = decode_mode_hotkey_bindings gestures,
          hold_exclusive = EXCLUSIVE_MODE st,
          hold_arm_modifier = decode_hold_arm_modifier (HOLD_ARM_MODIFIER st),
          hold_start_delay_ms = HOLD_START_DELAY_MS st,
          double_tap_interval_ms = DOUBLE_TAP_INTERVAL_MS st,
          deferred_insert_shortcut = decode_deferred_insert_shortcut (DEFERRED_INSERT_SHORTCUT st),
          channel_modifier = channel_modifier_of_bits gestures,
          widget_shortcut = decode_widget_shortcut (WIDGET_SHORTCUT st),
          fn_tap_toggles_dictation = (gestures AND FN_TAP_MASK \<noteq> 0),
          middle_mouse_acts_as_fn = MIDDLE_MOUSE_ACTS_AS_FN st,
          middle_mouse_agent_gesture = MIDDLE_MOUSE_AGENT_GESTURE st\<rparr>)"

definition normalized_config :: "HotkeyRuntimeConfig \<Rightarrow> HotkeyRuntimeConfig" where
  "normalized_config c = c\<lparr>double_tap_interval_ms := clamp (double_tap_interval_ms c) 100 450\<rparr>"

definition gesture_bits_of :: "HotkeyRuntimeConfig \<Rightarrow> u16" where
  "gesture_bits_of c =
     encode_mode_hotkey_bindings (mode_bindings c)
       OR push_bit 12 (ucast (encode_channel_modifier (channel_modifier c)))
       OR (if fn_tap_toggles_dictation c then FN_TAP_MASK else 0)"

definition apply_hotkey_runtime_config :: "HotkeyRuntimeConfig \<Rightarrow> hotkey_atomics \<Rightarrow> hotkey_atomics" where
  "apply_hotkey_runtime_config config st =
     (let n = normalized_config config
      in if get_hotkey_runtime_config st = n then st
         else
           (set_middle_mouse_agent_gesture (middle_mouse_agent_gesture n)
           (set_middle_mouse_acts_as_fn (middle_mouse_acts_as_fn n)
           (set_widget_shortcut (widget_shortcut n)
           (set_deferred_insert_shortcut (deferred_insert_shortcut n)
           (set_double_tap_interval_ms (double_tap_interval_ms n)
           (set_hold_start_delay_ms (hold_start_delay_ms n)
           (set_hold_arm_modifier (hold_arm_modifier n)
           (set_exclusive_mode (hold_exclusive n)
           (st\<lparr>HOTKEY_GESTURES := gesture_bits_of n\<rparr>))))))))))"

subsection \<open>Packing is lossless\<close>

lemma take_bit_bits: "take_bit k a = a \<Longrightarrow> bit (a::'a::len word) n \<Longrightarrow> n < k"
  by (metis bit_take_bit_iff)

lemma nibble_and: "(w::u16) AND 15 = take_bit 4 w"
  by (simp add: take_bit_eq_mask mask_eq_exp_minus_1)

lemma pack_fields:
  fixes a b c d f :: u16
  assumes "take_bit 4 a = a" "take_bit 4 b = b" "take_bit 4 c = c" "take_bit 2 d = d"
   and f: "\<And>n. bit f n \<Longrightarrow> n = 14"
  defines "w \<equiv> a OR push_bit 4 b OR push_bit 8 c OR push_bit 12 d OR f"
  shows "w AND 15 = a" "drop_bit 4 w AND 15 = b" "drop_bit 8 w AND 15 = c"
    "drop_bit 12 (w AND CHANNEL_MODIFIER_MASK) = d" "(w AND FN_TAP_MASK \<noteq> 0) = bit f 14"
proof -
  note b = assms(1-4)[THEN take_bit_bits]
  show "w AND 15 = a"
    unfolding nibble_and w_def by (rule bit_eqI) (auto simp: bit_simps dest: b f)
  show "drop_bit 4 w AND 15 = b"
    unfolding nibble_and w_def by (rule bit_eqI) (auto simp: bit_simps dest: b f)
  show "drop_bit 8 w AND 15 = c"
    unfolding nibble_and w_def by (rule bit_eqI) (auto simp: bit_simps dest: b f)
  have m: "CHANNEL_MODIFIER_MASK = push_bit 12 (mask 2)" by (simp add: CHANNEL_MODIFIER_MASK_def mask_eq_exp_minus_1)
  show "drop_bit 12 (w AND CHANNEL_MODIFIER_MASK) = d"
    unfolding m w_def by (rule bit_eqI) (auto simp: bit_simps dest: b f)
  have m2: "FN_TAP_MASK = 2 ^ 14" by (simp add: FN_TAP_MASK_def)
  have "bit w 14 = bit f 14" unfolding w_def by (auto simp: bit_simps dest: b)
  then show "(w AND FN_TAP_MASK \<noteq> 0) = bit f 14"
    by (simp add: m2 and_exp_eq_0_iff_not_bit del: power_numeral)
qed

lemma encode_shortcut_nibble: "take_bit 4 (encode_shortcut_binding b) = encode_shortcut_binding b"
  by (cases b) (simp_all add: encode_shortcut_binding_def)

lemma decode_encode_shortcut_binding [simp]: "decode_shortcut_binding (encode_shortcut_binding b) = b"
  by (cases b) (simp_all add: encode_shortcut_binding_def decode_shortcut_binding_def)

lemma decode_encode_channel_modifier:
  "decode_channel_modifier (ucast (ucast (encode_channel_modifier m) :: u16)) = m"
  by (cases m) (simp_all add: encode_channel_modifier_def decode_channel_modifier_def)

lemma encode_channel_modifier_bits: "take_bit 2 (ucast (encode_channel_modifier m) :: u16) = ucast (encode_channel_modifier m)"
  by (cases m) (simp_all add: encode_channel_modifier_def)

lemma fn_tap_only_bit_14:
  assumes "bit (if p then FN_TAP_MASK else 0) n"
  shows "n = 14"
proof -
  have "FN_TAP_MASK = 2 ^ 14" by (simp add: FN_TAP_MASK_def)
  moreover have "bit FN_TAP_MASK n" using assms by (cases p) simp_all
  ultimately have "bit (2 ^ 14 :: u16) n" by (simp only:)
  then show ?thesis by (auto simp only: bit_exp_iff)
qed

lemma fn_tap_bit_14: "bit (if p then FN_TAP_MASK else 0) 14 = p"
  by (simp add: FN_TAP_MASK_def bit_numeral_rec)

lemma gesture_bits_decode:
  "decode_mode_hotkey_bindings (gesture_bits_of c) = mode_bindings c"
  "channel_modifier_of_bits (gesture_bits_of c) = channel_modifier c"
  "(gesture_bits_of c AND FN_TAP_MASK \<noteq> 0) = fn_tap_toggles_dictation c"
proof -
  let ?f = "if fn_tap_toggles_dictation c then FN_TAP_MASK else 0"
  note p = pack_fields [OF encode_shortcut_nibble encode_shortcut_nibble encode_shortcut_nibble
      encode_channel_modifier_bits fn_tap_only_bit_14]
  have g: "gesture_bits_of c = encode_shortcut_binding (dictation (mode_bindings c)) OR
     push_bit 4 (encode_shortcut_binding (formatting (mode_bindings c))) OR
     push_bit 8 (encode_shortcut_binding (assistive (mode_bindings c))) OR
     push_bit 12 (ucast (encode_channel_modifier (channel_modifier c))) OR ?f"
    by (simp add: gesture_bits_of_def encode_mode_hotkey_bindings_def or.assoc)
  show "decode_mode_hotkey_bindings (gesture_bits_of c) = mode_bindings c"
    unfolding g decode_mode_hotkey_bindings_def by (simp only: p) simp
  show "channel_modifier_of_bits (gesture_bits_of c) = channel_modifier c"
    unfolding g channel_modifier_of_bits_def by (simp only: p decode_encode_channel_modifier)
  show "(gesture_bits_of c AND FN_TAP_MASK \<noteq> 0) = fn_tap_toggles_dictation c"
    unfolding g by (simp only: p fn_tap_bit_14)
qed

lemma arm_deferred_roundtrip [simp]:
  "decode_hold_arm_modifier (encode_hold_arm_modifier a) = a"
  "decode_deferred_insert_shortcut (encode_deferred_insert_shortcut s) = s"
  by (cases a; simp add: encode_hold_arm_modifier_def decode_hold_arm_modifier_def)
     (cases s; simp add: encode_deferred_insert_shortcut_def decode_deferred_insert_shortcut_def)

definition widget_key_byte :: "WidgetShortcutKey \<Rightarrow> u32" where
  "widget_key_byte k = (case k of Key_Space \<Rightarrow> 0 | Key_Letter letter \<Rightarrow> ucast letter)"

lemma widget_key_byte_bits: "bit (widget_key_byte k) n \<Longrightarrow> n < 8"
  by (cases k) (auto simp: widget_key_byte_def bit_simps dest: bit_imp_le_length)

lemma widget_fields:
  fixes s :: WidgetShortcut
  defines "w \<equiv> encode_widget_shortcut s"
  shows "w AND 0xFF = widget_key_byte (ws_key s)"
    "(w AND push_bit 8 1 \<noteq> 0) = ws_ctrl s" "(w AND push_bit 9 1 \<noteq> 0) = ws_option s"
    "(w AND push_bit 10 1 \<noteq> 0) = ws_cmd s" "(w AND push_bit 11 1 \<noteq> 0) = ws_shift s"
proof -
  have w: "w = push_bit 8 (of_bool (ws_ctrl s)) OR push_bit 9 (of_bool (ws_option s))
       OR push_bit 10 (of_bool (ws_cmd s)) OR push_bit 11 (of_bool (ws_shift s)) OR widget_key_byte (ws_key s)"
    by (simp add: w_def encode_widget_shortcut_def widget_key_byte_def)
  have m: "(0xFF :: u32) = mask 8" by (simp add: mask_eq_exp_minus_1)
  show "w AND 0xFF = widget_key_byte (ws_key s)"
    unfolding m w by (rule bit_eqI) (auto simp: bit_simps dest: widget_key_byte_bits)
  have t: "(v AND push_bit k 1 \<noteq> 0) = bit v k" for v :: u32 and k
    using and_exp_eq_0_iff_not_bit [of v k] by (simp add: push_bit_of_1)
  show "(w AND push_bit 8 1 \<noteq> 0) = ws_ctrl s" "(w AND push_bit 9 1 \<noteq> 0) = ws_option s"
    "(w AND push_bit 10 1 \<noteq> 0) = ws_cmd s" "(w AND push_bit 11 1 \<noteq> 0) = ws_shift s"
    unfolding t unfolding w by (auto simp: bit_simps dest: widget_key_byte_bits)
qed

lemma decode_encode_widget_shortcut:
  assumes "valid_key (ws_key s)"
  shows "decode_widget_shortcut (encode_widget_shortcut s) = s"
proof -
  have k: "(ucast (widget_key_byte (Key_Letter c)) :: u8) = c" for c
    by (simp add: widget_key_byte_def unsigned_ucast_eq take_bit_word_eq_self)
  show ?thesis
  proof (cases "ws_key s")
    case Key_Space
    then show ?thesis
      by (simp add: widget_key_byte_def decode_widget_shortcut_def widget_fields [simplified] k Let_def)
  next
    case (Key_Letter c)
    with assms have "65 \<le> c" "c \<le> 90" "c \<noteq> 0"
      by (auto simp: valid_key_def word_le_nat_alt)
    with Key_Letter show ?thesis
      by (simp add: decode_widget_shortcut_def widget_fields [simplified] k Let_def)
  qed
qed

lemma load_applied_config:
  assumes "valid_key (ws_key (widget_shortcut c))"
  shows "get_hotkey_runtime_config (apply_hotkey_runtime_config c st) = normalized_config c"
proof (cases "get_hotkey_runtime_config st = normalized_config c")
  case True
  then show ?thesis by (simp add: apply_hotkey_runtime_config_def Let_def)
next
  case False
  have v: "widget_shortcut (normalized_config c) = widget_shortcut c" by (simp add: normalized_config_def)
  from False assms show ?thesis
    by (simp add: apply_hotkey_runtime_config_def Let_def set_middle_mouse_agent_gesture_def set_middle_mouse_acts_as_fn_def
       set_widget_shortcut_def set_deferred_insert_shortcut_def set_double_tap_interval_ms_def set_hold_start_delay_ms_def
       set_hold_arm_modifier_def set_exclusive_mode_def get_hotkey_runtime_config_def gesture_bits_decode decode_encode_widget_shortcut v)
     (simp add: normalized_config_def)
qed

text \<open>The loop keeps every bit outside its mask as the last interfering writer left it.\<close>

lemma update_gesture_bits_loop_last:
  "update_gesture_bits_loop msk v cur seen = (last (cur # seen) AND NOT msk) OR v"
  by (induction seen arbitrary: cur) simp_all

lemma masked_update_reads:
  fixes w v :: u16
  assumes "\<And>n. bit v n \<Longrightarrow> n < 12"
  defines "u \<equiv> (w AND NOT MODE_BINDINGS_MASK) OR v"
  shows "decode_mode_hotkey_bindings u = decode_mode_hotkey_bindings v"
    "channel_modifier_of_bits u = channel_modifier_of_bits w"
    "u AND FN_TAP_MASK = w AND FN_TAP_MASK"
proof -
  have m: "MODE_BINDINGS_MASK = mask 12" "CHANNEL_MODIFIER_MASK = push_bit 12 (mask 2)"
    by (simp_all add: MODE_BINDINGS_MASK_def CHANNEL_MODIFIER_MASK_def mask_eq_exp_minus_1)
  have "u AND 15 = v AND 15" "drop_bit 4 u AND 15 = drop_bit 4 v AND 15"
    "drop_bit 8 u AND 15 = drop_bit 8 v AND 15"
    unfolding nibble_and u_def m by (auto simp: bit_eq_iff bit_simps)
  then show "decode_mode_hotkey_bindings u = decode_mode_hotkey_bindings v"
    by (simp add: decode_mode_hotkey_bindings_def)
  have "u AND CHANNEL_MODIFIER_MASK = w AND CHANNEL_MODIFIER_MASK"
    unfolding u_def m by (rule bit_eqI) (auto simp: bit_simps dest: assms(1))
  then show "channel_modifier_of_bits u = channel_modifier_of_bits w"
    by (simp add: channel_modifier_of_bits_def)
  show "u AND FN_TAP_MASK = w AND FN_TAP_MASK"
    unfolding u_def m
    by (rule bit_eqI) (auto simp: bit_simps fn_tap_bit_14 [where p = True, simplified]
        dest!: assms(1) fn_tap_only_bit_14 [where p = True, simplified])
qed

lemma encode_mode_bindings_bits: "bit (encode_mode_hotkey_bindings b) n \<Longrightarrow> n < 12"
  using encode_shortcut_nibble [THEN take_bit_bits]
  by (fastforce simp: encode_mode_hotkey_bindings_def bit_simps)

lemma decode_encode_mode_bindings: "decode_mode_hotkey_bindings (encode_mode_hotkey_bindings b) = b"
proof -
  have e: "encode_mode_hotkey_bindings b = encode_shortcut_binding (dictation b) OR
     push_bit 4 (encode_shortcut_binding (formatting b)) OR
     push_bit 8 (encode_shortcut_binding (assistive b)) OR push_bit 12 0 OR 0"
    by (simp add: encode_mode_hotkey_bindings_def or.assoc)
  have z: "take_bit 2 (0 :: u16) = 0" "\<And>n. bit (0 :: u16) n \<Longrightarrow> n = 14" by simp_all
  note p = pack_fields [OF encode_shortcut_nibble encode_shortcut_nibble encode_shortcut_nibble z]
  show ?thesis unfolding e decode_mode_hotkey_bindings_def by (simp only: p) simp
qed

subsection \<open>The contract of a settings mirror\<close>

text \<open>
  What the readers of the mirror rely on: a write installs the normalised snapshot, a write that
  changes nothing leaves the store alone.
\<close>

locale settings_mirror =
  fixes load :: "'s \<Rightarrow> 'c" and apply_cfg :: "'c \<Rightarrow> 's \<Rightarrow> 's"
    and norm :: "'c \<Rightarrow> 'c" and ok :: "'c \<Rightarrow> bool"
  assumes load_apply: "ok c \<Longrightarrow> load (apply_cfg c s) = norm c"
    and apply_noop: "load s = norm c \<Longrightarrow> apply_cfg c s = s"
    and norm_idem: "norm (norm c) = norm c"
begin

lemma apply_twice: "ok c \<Longrightarrow> apply_cfg c (apply_cfg c s) = apply_cfg c s"
  by (rule apply_noop) (rule load_apply)

lemma apply_loaded: "ok c \<Longrightarrow> apply_cfg (load (apply_cfg c s)) (apply_cfg c s) = apply_cfg c s"
  by (rule apply_noop) (simp add: load_apply norm_idem)

lemma load_after_run: "ok (last cs) \<Longrightarrow> cs \<noteq> [] \<Longrightarrow> load (fold apply_cfg cs s) = norm (last cs)"
  by (induction cs rule: rev_induct) (simp_all add: load_apply)

end

interpretation mirror: settings_mirror get_hotkey_runtime_config apply_hotkey_runtime_config
  normalized_config "\<lambda>c. valid_key (ws_key (widget_shortcut c))"
proof unfold_locales
  fix s c
  assume "get_hotkey_runtime_config s = normalized_config c"
  then show "apply_hotkey_runtime_config c s = s"
    by (simp add: apply_hotkey_runtime_config_def Let_def)
qed (simp_all add: load_applied_config, simp add: normalized_config_def)

subsection \<open>Properties of the mirror\<close>

definition default_config :: HotkeyRuntimeConfig where
  "default_config = get_hotkey_runtime_config boot_atomics"

lemma default_config_valid: "valid_key (ws_key (widget_shortcut default_config))"
  by (simp add: default_config_def get_hotkey_runtime_config_def boot_atomics_def
      decode_widget_shortcut_def WIDGET_SHORTCUT_DEFAULT_def valid_key_def default_widget_shortcut_def
      Let_def)

text \<open>After any non-empty sequence of applied snapshots the detector reads exactly the last one,
with its double-tap interval clamped to 100..450 ms: no field is lost or torn by the packing, and
earlier snapshots leave nothing behind. (The widget key must be a letter A to Z or Space, which the
parser guarantees.)\<close>

theorem applied_config_is_read_back:
  assumes "cs \<noteq> []" and "valid_key (ws_key (widget_shortcut (last cs)))"
  shows "get_hotkey_runtime_config (fold apply_hotkey_runtime_config cs st) = normalized_config (last cs)"
  using mirror.load_after_run [OF assms(2,1)] .

theorem applied_config_is_read_back_witness:
  "get_hotkey_runtime_config
     (fold apply_hotkey_runtime_config [default_config\<lparr>double_tap_interval_ms := 9000\<rparr>] boot_atomics)
   = default_config\<lparr>double_tap_interval_ms := 450\<rparr>"
proof -
  have "get_hotkey_runtime_config
     (fold apply_hotkey_runtime_config [default_config\<lparr>double_tap_interval_ms := 9000\<rparr>] boot_atomics)
     = normalized_config (last [default_config\<lparr>double_tap_interval_ms := 9000\<rparr>])"
    by (rule applied_config_is_read_back) (simp_all add: default_config_valid)
  then show ?thesis by (simp add: normalized_config_def clamp_def)
qed

text \<open>Publishing mode bindings through the compare-exchange loop, whatever other threads store
between its load and its exchange, installs exactly those bindings and leaves the channel modifier
and the Fn-tap flag as the last interfering writer left them.\<close>

theorem mode_bindings_update_is_masked:
  "let w = update_gesture_bits_loop MODE_BINDINGS_MASK (encode_mode_hotkey_bindings b) cur seen;
       before = last (cur # seen)
   in decode_mode_hotkey_bindings w = b
    \<and> channel_modifier_of_bits w = channel_modifier_of_bits before
    \<and> w AND FN_TAP_MASK = before AND FN_TAP_MASK"
  unfolding update_gesture_bits_loop_last Let_def
  using masked_update_reads [OF encode_mode_bindings_bits] by (simp add: decode_encode_mode_bindings)

text \<open>The chooser lease ends: a capture taken or renewed at \<open>t\<close> is no longer active once 30 seconds
have passed, and releasing it takes effect at once.\<close>

theorem capture_lease_expires:
  assumes "t + AGENT_GESTURE_CAPTURE_LEASE \<le> now"
  shows "\<not> agent_gesture_capture_active now (set_agent_gesture_capture t active st)"
proof -
  have "capture_millis (t + AGENT_GESTURE_CAPTURE_LEASE) \<le> capture_millis now"
    using assms by (simp add: capture_millis_def div_le_mono min.coboundedI2)
  moreover have "1 \<le> capture_millis (t + AGENT_GESTURE_CAPTURE_LEASE)"
    by (simp add: capture_millis_def AGENT_GESTURE_CAPTURE_LEASE_def from_millis_def u64_max_def)
  ultimately show ?thesis
    by (simp add: agent_gesture_capture_active_def set_agent_gesture_capture_def)
qed

theorem capture_lease_expires_witness:
  "\<not> agent_gesture_capture_active (from_millis 30005)
       (set_agent_gesture_capture (from_millis 5) True boot_atomics)
   \<and> agent_gesture_capture_active (from_millis 30004)
       (set_agent_gesture_capture (from_millis 5) True boot_atomics)"
proof
  show "\<not> agent_gesture_capture_active (from_millis 30005)
       (set_agent_gesture_capture (from_millis 5) True boot_atomics)"
    by (rule capture_lease_expires) (simp add: AGENT_GESTURE_CAPTURE_LEASE_def from_millis_def)
  show "agent_gesture_capture_active (from_millis 30004)
       (set_agent_gesture_capture (from_millis 5) True boot_atomics)"
    by (simp add: agent_gesture_capture_active_def set_agent_gesture_capture_def capture_millis_def
        AGENT_GESTURE_CAPTURE_LEASE_def from_millis_def u64_max_def)
qed

end
