(* ===== verification/Hotkey_Detector.thy ===== *)
theory Hotkey_Detector
  imports Hotkey_Config
begin

section \<open>The gesture detector\<close>

text \<open>
  The state machine of \<open>app/os/hotkeys/detector.rs\<close>: decoded keyboard and pointer inputs go in, at most
  one \<open>HotkeyEvent\<close> per input comes out. A detector is the record \<open>HotkeyDetector\<close> with the source's
  fields; every handler is a function from the state to the next state and the optional event.
  \<open>handle_flags_changed\<close> is one function in the source; here it is the composition, in the source's
  order, of the phases its comments name. Log lines are not modelled (they change no state).
\<close>

subsection \<open>Events and inputs\<close>

datatype HoldAction = Down | Up

datatype HoldMode = Raw | Chat | Selection

datatype DoubleTapGesture = LeftOptionTap | RightOptionTap

datatype DoubleTapBlockReason = BindingDisabled | ModifierComboActive

datatype AgentGestureInput = MiddleClick | Scroll int | LeftClick | Cancel

datatype HotkeyEvent =
    ShowAgent
  | ToggleWidget
  | InsertHere
  | Hold HoldAction HoldMode
  | HoldUpdate HoldMode
  | AttachSelection
  | ToggleNormal
  | ToggleRaw
  | ToggleAssistive
  | AgentChannel u8
  | DoubleTapBlocked DoubleTapGesture DoubleTapBlockReason
  | AgentGesture AgentGestureInput

record HotkeyModifierSnapshot =
  m_ctrl :: bool
  m_option :: bool
  m_shift :: bool
  m_cmd :: bool
  m_fn_key :: bool

datatype HotkeyPhysicalKey =
    LeftOption | RightOption | LeftControl | RightControl | Fn | Space | V
  | Letter u8
  | Digit u8
  | Other

fun is_option_key :: "HotkeyPhysicalKey \<Rightarrow> bool" where
  "is_option_key LeftOption = True"
| "is_option_key RightOption = True"
| "is_option_key _ = False"

definition is_right_option :: "HotkeyPhysicalKey \<Rightarrow> bool" where
  "is_right_option k \<longleftrightarrow> k = RightOption"

fun is_ctrl_key :: "HotkeyPhysicalKey \<Rightarrow> bool" where
  "is_ctrl_key LeftControl = True"
| "is_ctrl_key RightControl = True"
| "is_ctrl_key _ = False"

datatype HotkeyDetectorInput =
    KeyDown instant HotkeyPhysicalKey HotkeyModifierSnapshot
  | KeyUp HotkeyPhysicalKey HotkeyModifierSnapshot
  | FlagsChanged instant HotkeyPhysicalKey HotkeyModifierSnapshot
  | MiddleButton instant bool HotkeyModifierSnapshot
  | ScrollWheel int int bool bool

definition digit_from_virtual_keycode :: "int \<Rightarrow> u8 option" where
  "digit_from_virtual_keycode code =
     (if code = 29 then Some 0 else if code = 18 then Some 1 else if code = 19 then Some 2
      else if code = 20 then Some 3 else if code = 21 then Some 4 else if code = 23 then Some 5
      else if code = 22 then Some 6 else if code = 26 then Some 7 else if code = 28 then Some 8
      else if code = 25 then Some 9 else if code = 82 then Some 0 else if code = 83 then Some 1
      else if code = 84 then Some 2 else if code = 85 then Some 3 else if code = 86 then Some 4
      else if code = 87 then Some 5 else if code = 88 then Some 6 else if code = 89 then Some 7
      else if code = 91 then Some 8 else if code = 92 then Some 9 else None)"

subsection \<open>State\<close>

record HotkeyDetector =
  hold_active :: bool
  hold_active_ts :: "instant option"
  hold_mode :: HoldMode
  hold_event_sent :: bool
  last_left_tap_ts :: "instant option"
  last_right_tap_ts :: "instant option"
  last_ctrl_tap_ts :: "instant option"
  ctrl_down :: bool
  ctrl_down_ts :: "instant option"
  option_down :: bool
  option_side :: "bool option"
  option_down_ts :: "instant option"
  last_hid_key_down :: "instant option"
  key_pressed_during_modifier :: bool
  show_agent_space_down :: bool
  toggle_widget_key_down :: bool
  insert_here_v_down :: bool
  wrong_arm_logged :: bool
  arm_modifier_down :: bool
  agent_channel_digit_down :: "u8 option"
  fn_press_pending :: bool
  fn_press_started :: "instant option"
  hold_up_owed :: bool
  middle_press_started :: "instant option"
  middle_hold_promoted :: bool
  scroll_points :: int

definition default_detector :: HotkeyDetector where
  "default_detector = \<lparr>hold_active = False, hold_active_ts = None, hold_mode = Raw,
     hold_event_sent = False, last_left_tap_ts = None, last_right_tap_ts = None,
     last_ctrl_tap_ts = None, ctrl_down = False, ctrl_down_ts = None, option_down = False,
     option_side = None, option_down_ts = None, last_hid_key_down = None,
     key_pressed_during_modifier = False, show_agent_space_down = False,
     toggle_widget_key_down = False, insert_here_v_down = False, wrong_arm_logged = False,
     arm_modifier_down = False, agent_channel_digit_down = None, fn_press_pending = False,
     fn_press_started = None, hold_up_owed = False, middle_press_started = None,
     middle_hold_promoted = False, scroll_points = 0\<rparr>"

definition TAP_MAX_MS :: u64 where "TAP_MAX_MS = 220"
definition SCROLL_POINTS_PER_STEP :: int where "SCROLL_POINTS_PER_STEP = 30"
definition SCROLL_MAX_STEPS :: int where "SCROLL_MAX_STEPS = 5"

subsection \<open>Pure helpers\<close>

definition elapsed_between :: "instant \<Rightarrow> instant \<Rightarrow> duration" where
  "elapsed_between now previous = unwrap_or 0 (checked_duration_since now previous)"

definition middle_button_dictates :: "HotkeyRuntimeConfig \<Rightarrow> bool" where
  "middle_button_dictates c \<longleftrightarrow> middle_mouse_acts_as_fn c \<and> dictation (mode_bindings c) = HoldFn"

definition channel_chord_matches :: "ChannelModifier \<Rightarrow> HotkeyModifierSnapshot \<Rightarrow> bool" where
  "channel_chord_matches modifier m =
     (if m_cmd m then False
      else case modifier of
          Channel_Ctrl \<Rightarrow> m_ctrl m \<and> \<not> m_fn_key m
        | Channel_Fn \<Rightarrow> m_fn_key m \<and> \<not> m_ctrl m
        | Channel_Off \<Rightarrow> False)"

definition widget_shortcut_key_matches :: "WidgetShortcutKey \<Rightarrow> HotkeyPhysicalKey \<Rightarrow> bool" where
  "widget_shortcut_key_matches wanted key = (case (wanted, key) of
      (Key_Space, Space) \<Rightarrow> True
    | (Key_Letter w, V) \<Rightarrow> w = 86
    | (Key_Letter w, Letter pressed) \<Rightarrow> w = pressed
    | _ \<Rightarrow> False)"

definition widget_shortcut_matches ::
  "WidgetShortcut \<Rightarrow> HotkeyPhysicalKey \<Rightarrow> HotkeyModifierSnapshot \<Rightarrow> bool" where
  "widget_shortcut_matches s key m \<longleftrightarrow>
     widget_shortcut_key_matches (ws_key s) key
   \<and> m_ctrl m = ws_ctrl s \<and> m_option m = ws_option s \<and> m_cmd m = ws_cmd s \<and> m_shift m = ws_shift s
   \<and> \<not> m_fn_key m"

definition deferred_insert_modifiers_match ::
  "DeferredInsertShortcut \<Rightarrow> HotkeyModifierSnapshot \<Rightarrow> bool" where
  "deferred_insert_modifiers_match s m = (case s of
      Insert_Disabled \<Rightarrow> False
    | CommandOptionV \<Rightarrow> m_cmd m \<and> m_option m \<and> \<not> m_ctrl m \<and> \<not> m_shift m \<and> \<not> m_fn_key m
    | CommandShiftV \<Rightarrow> m_cmd m \<and> m_shift m \<and> \<not> m_ctrl m \<and> \<not> m_option m \<and> \<not> m_fn_key m
    | CommandControlV \<Rightarrow> m_cmd m \<and> m_ctrl m \<and> \<not> m_option m \<and> \<not> m_shift m \<and> \<not> m_fn_key m)"

text \<open>The tap slot goes in and comes out; the flag says whether this tap closed a pair.\<close>

definition consume_double_tap :: "instant option \<Rightarrow> instant \<Rightarrow> u64 \<Rightarrow> instant option \<times> bool" where
  "consume_double_tap last_tap now interval_ms =
     (case last_tap of
        Some previous \<Rightarrow>
          if elapsed_between now previous \<le> from_millis interval_ms then (None, True)
          else (Some now, False)
      | None \<Rightarrow> (Some now, False))"

definition register_double_tap ::
  "instant option \<Rightarrow> instant \<Rightarrow> u64 \<Rightarrow> HotkeyEvent \<Rightarrow> instant option \<times> HotkeyEvent option" where
  "register_double_tap last_tap now interval_ms event =
     (case consume_double_tap last_tap now interval_ms of
        (last_tap', closed) \<Rightarrow> (last_tap', if closed then Some event else None))"

definition register_blocked_option_double_tap ::
  "HotkeyDetector \<Rightarrow> bool \<Rightarrow> instant \<Rightarrow> u64 \<Rightarrow> DoubleTapBlockReason
   \<Rightarrow> HotkeyDetector \<times> HotkeyEvent option" where
  "register_blocked_option_double_tap d released_right now interval_ms reason =
     (if released_right then
        (case consume_double_tap (last_right_tap_ts d) now interval_ms of
           (ts, closed) \<Rightarrow> (d\<lparr>last_left_tap_ts := None, last_right_tap_ts := ts\<rparr>,
              if closed then Some (DoubleTapBlocked RightOptionTap reason) else None))
      else
        (case consume_double_tap (last_left_tap_ts d) now interval_ms of
           (ts, closed) \<Rightarrow> (d\<lparr>last_right_tap_ts := None, last_left_tap_ts := ts\<rparr>,
              if closed then Some (DoubleTapBlocked LeftOptionTap reason) else None)))"

definition arm_modifier_is_down :: "HotkeyModifierSnapshot \<Rightarrow> HoldArmModifier \<Rightarrow> bool" where
  "arm_modifier_is_down m arm = (case arm of Arm_Shift \<Rightarrow> m_shift m | Arm_Cmd \<Rightarrow> m_cmd m)"

definition hold_base_pressed :: "HotkeyModifierSnapshot \<Rightarrow> ShortcutBinding \<Rightarrow> bool" where
  "hold_base_pressed m b = (case b of
      HoldFn \<Rightarrow> m_fn_key m
    | HoldCtrl \<Rightarrow> m_ctrl m
    | HoldCtrlAlt \<Rightarrow> m_ctrl m \<and> m_option m
    | HoldCtrlShift \<Rightarrow> m_ctrl m \<and> m_shift m
    | HoldCtrlCmd \<Rightarrow> m_ctrl m \<and> m_cmd m
    | _ \<Rightarrow> False)"

definition check_hold_combo :: "HotkeyModifierSnapshot \<Rightarrow> ShortcutBinding \<Rightarrow> bool" where
  "check_hold_combo m b =
     (if m_option m \<and> \<not> (b = HoldCtrlAlt \<or> b = HoldFn) then False
      else case b of
          HoldFn \<Rightarrow> m_fn_key m
        | HoldCtrl \<Rightarrow> m_ctrl m
        | HoldCtrlAlt \<Rightarrow> m_ctrl m \<and> m_option m
        | HoldCtrlShift \<Rightarrow> m_ctrl m \<and> m_shift m
        | HoldCtrlCmd \<Rightarrow> m_ctrl m \<and> m_cmd m
        | _ \<Rightarrow> False)"

definition assistive_hold_binding :: "ShortcutBinding \<Rightarrow> ShortcutBinding option" where
  "assistive_hold_binding b = None"

definition compute_hold_mode ::
  "bool \<Rightarrow> bool \<Rightarrow> ShortcutBinding \<Rightarrow> bool \<Rightarrow> HoldArmModifier \<Rightarrow> HoldMode" where
  "compute_hold_mode shift cmd b exclusive arm = Raw"

subsection \<open>Middle button and wheel\<close>

definition begin_middle_hold :: "instant \<Rightarrow> HotkeyDetector \<Rightarrow> HotkeyDetector" where
  "begin_middle_hold started d =
     d\<lparr>hold_active := True, hold_active_ts := Some started, hold_mode := Raw,
       hold_event_sent := True, arm_modifier_down := False\<rparr>"

definition end_middle_hold :: "HotkeyDetector \<Rightarrow> HotkeyDetector \<times> HotkeyEvent option" where
  "end_middle_hold d =
     (if \<not> hold_active d then (d, None)
      else (d\<lparr>hold_active := False, hold_active_ts := None, arm_modifier_down := False\<rparr>,
            if hold_event_sent d then Some (Hold Up (hold_mode d)) else None))"

definition handle_agent_middle_button ::
  "instant \<Rightarrow> bool \<Rightarrow> HotkeyRuntimeConfig \<Rightarrow> HotkeyDetector \<Rightarrow> HotkeyDetector \<times> HotkeyEvent option" where
  "handle_agent_middle_button now pressed c d =
     (if pressed then
        (if middle_press_started d = None \<and> \<not> middle_hold_promoted d
         then (d\<lparr>middle_press_started := Some now\<rparr>, None) else (d, None))
      else if middle_hold_promoted d then
        end_middle_hold (d\<lparr>middle_hold_promoted := False, middle_press_started := None\<rparr>)
      else (case middle_press_started d of
          None \<Rightarrow> (d, None)
        | Some started \<Rightarrow>
            (let d' = d\<lparr>middle_press_started := None\<rparr>
             in if middle_button_dictates c \<and> \<not> hold_active d'
                   \<and> from_millis (hold_start_delay_ms c) \<le> elapsed_between now started
                then ((begin_middle_hold started d')\<lparr>hold_up_owed := True\<rparr>, Some (Hold Down Raw))
                else (d', Some (AgentGesture MiddleClick)))))"

definition handle_scroll ::
  "int \<Rightarrow> int \<Rightarrow> bool \<Rightarrow> bool \<Rightarrow> HotkeyDetector \<Rightarrow> HotkeyDetector \<times> HotkeyEvent option" where
  "handle_scroll lines points continuous momentum d =
     (if continuous \<and> momentum then (d, None)
      else
        (let (d', steps) =
           (if continuous then
              (let total = saturating_add_i64 (scroll_points d) points;
                   steps = div_trunc total SCROLL_POINTS_PER_STEP
               in (d\<lparr>scroll_points := total - steps * SCROLL_POINTS_PER_STEP\<rparr>, steps))
            else (d\<lparr>scroll_points := 0\<rparr>, sgn lines))
         in if steps = 0 then (d', None)
            else
              (let s = - clamp steps (- SCROLL_MAX_STEPS) SCROLL_MAX_STEPS
               in (d', if - (2 ^ 31) \<le> s \<and> s < 2 ^ 31 then Some (AgentGesture (Scroll s)) else None))))"

subsection \<open>The hold timer\<close>

text \<open>The Fn half of \<open>poll\<close>, after the owed release and the middle button.\<close>

definition poll_fn ::
  "instant \<Rightarrow> HotkeyRuntimeConfig \<Rightarrow> HotkeyDetector \<Rightarrow> HotkeyDetector \<times> HotkeyEvent option" where
  "poll_fn now c d =
     (if \<not> fn_tap_toggles_dictation c \<or> \<not> fn_press_pending d then (d, None)
      else (case fn_press_started d of
          None \<Rightarrow> (d, None)
        | Some started \<Rightarrow>
            if elapsed_between now started < from_millis (hold_start_delay_ms c) then (d, None)
            else
              (let d1 = d\<lparr>fn_press_pending := False, fn_press_started := None\<rparr>
               in if dictation (mode_bindings c) \<noteq> HoldFn then (d1, None)
                  else (d1\<lparr>hold_active := True, hold_active_ts := Some started, hold_mode := Raw,
                           hold_event_sent := True, arm_modifier_down := False\<rparr>,
                        Some (Hold Down Raw)))))"

definition poll ::
  "instant \<Rightarrow> HotkeyRuntimeConfig \<Rightarrow> HotkeyDetector \<Rightarrow> HotkeyDetector \<times> HotkeyEvent option" where
  "poll now c d =
     (if hold_up_owed d then
        (d\<lparr>hold_up_owed := False, hold_active := False, hold_active_ts := None,
           arm_modifier_down := False\<rparr>, Some (Hold Up (hold_mode d)))
      else
        (case middle_press_started d of
           Some started \<Rightarrow>
             if middle_mouse_agent_gesture c \<and> middle_button_dictates c \<and> \<not> middle_hold_promoted d
                \<and> \<not> hold_active d \<and> from_millis (hold_start_delay_ms c) \<le> elapsed_between now started
             then (begin_middle_hold started (d\<lparr>middle_hold_promoted := True\<rparr>), Some (Hold Down Raw))
             else poll_fn now c d
         | None \<Rightarrow> poll_fn now c d))"

definition observe_hid_key_down :: "instant \<Rightarrow> HotkeyDetector \<Rightarrow> HotkeyDetector" where
  "observe_hid_key_down at d = d\<lparr>last_hid_key_down := Some at\<rparr>"

subsection \<open>Key presses\<close>

text \<open>The tail of \<open>handle_key_down\<close>, after the one-shot chords: cancel a hold that has just started,
and mark the modifiers that were used for typing.\<close>

definition key_down_cancel_hold ::
  "instant \<Rightarrow> HotkeyModifierSnapshot \<Rightarrow> HotkeyRuntimeConfig \<Rightarrow> HotkeyDetector
   \<Rightarrow> HotkeyDetector \<times> HotkeyEvent option" where
  "key_down_cancel_hold now m c d =
     (let base_held = (hold_base_pressed m (dictation (mode_bindings c))
            \<or> (case assistive_hold_binding (assistive (mode_bindings c)) of
                 None \<Rightarrow> False | Some b \<Rightarrow> hold_base_pressed m b));
          in_delay_window = (case hold_active_ts d of
             None \<Rightarrow> False
           | Some ts \<Rightarrow> elapsed_between now ts < from_millis (hold_start_delay_ms c))
      in if base_held \<and> hold_active d \<and> in_delay_window
         then (d\<lparr>hold_active := False, hold_active_ts := None, hold_event_sent := False,
                 arm_modifier_down := False, key_pressed_during_modifier := True\<rparr>,
               Some (Hold Up (hold_mode d)))
         else (d, None))"

definition key_down_mark_ctrl :: "HotkeyModifierSnapshot \<Rightarrow> HotkeyDetector \<Rightarrow> HotkeyDetector" where
  "key_down_mark_ctrl m d =
     (if m_ctrl m \<and> (ctrl_down d \<or> hold_active d)
      then d\<lparr>key_pressed_during_modifier := True, last_ctrl_tap_ts := None\<rparr> else d)"

definition key_down_mark_option :: "HotkeyModifierSnapshot \<Rightarrow> HotkeyDetector \<Rightarrow> HotkeyDetector" where
  "key_down_mark_option m d =
     (if m_option m \<and> option_down d
      then d\<lparr>key_pressed_during_modifier := True, last_left_tap_ts := None, last_right_tap_ts := None\<rparr>
      else d)"

definition key_down_tail ::
  "instant \<Rightarrow> HotkeyModifierSnapshot \<Rightarrow> HotkeyRuntimeConfig \<Rightarrow> HotkeyDetector
   \<Rightarrow> HotkeyDetector \<times> HotkeyEvent option" where
  "key_down_tail now m c d =
     (case key_down_cancel_hold now m c d of
        (d1, emitted) \<Rightarrow> (key_down_mark_option m (key_down_mark_ctrl m d1), emitted))"

definition key_down_digit :: "HotkeyPhysicalKey \<Rightarrow> HotkeyModifierSnapshot \<Rightarrow> HotkeyRuntimeConfig \<Rightarrow> u8 option" where
  "key_down_digit key m c =
     (case key of Digit digit \<Rightarrow> if channel_chord_matches (channel_modifier c) m then Some digit else None
      | _ \<Rightarrow> None)"

text \<open>The one-shot chords, in the source's order, then the tail.\<close>

definition key_down_chords ::
  "instant \<Rightarrow> HotkeyPhysicalKey \<Rightarrow> HotkeyModifierSnapshot \<Rightarrow> HotkeyRuntimeConfig \<Rightarrow> HotkeyDetector
   \<Rightarrow> HotkeyDetector \<times> HotkeyEvent option" where
  "key_down_chords now key m c d =
     (if key = V \<and> deferred_insert_modifiers_match (deferred_insert_shortcut c) m then
        (if insert_here_v_down d then (d, None)
         else (d\<lparr>insert_here_v_down := True\<rparr>, Some InsertHere))
      else if key = Space \<and> m_cmd m \<and> m_shift m \<and> \<not> m_ctrl m \<and> \<not> m_option m \<and> \<not> m_fn_key m then
        (if show_agent_space_down d then (d, None)
         else (d\<lparr>show_agent_space_down := True\<rparr>, Some ShowAgent))
      else if widget_shortcut_matches (widget_shortcut c) key m then
        (if toggle_widget_key_down d then (d, None)
         else (d\<lparr>toggle_widget_key_down := True\<rparr>, Some ToggleWidget))
      else key_down_tail now m c d)"

definition key_down_settle_fn :: "HotkeyDetector \<Rightarrow> HotkeyDetector" where
  "key_down_settle_fn d =
     (if fn_press_pending d
      then d\<lparr>fn_press_pending := False, fn_press_started := None, key_pressed_during_modifier := True\<rparr>
      else d)"

definition handle_key_down ::
  "instant \<Rightarrow> HotkeyPhysicalKey \<Rightarrow> HotkeyModifierSnapshot \<Rightarrow> HotkeyRuntimeConfig \<Rightarrow> HotkeyDetector
   \<Rightarrow> HotkeyDetector \<times> HotkeyEvent option" where
  "handle_key_down now key m c d =
     (case key_down_digit key m c of
        Some digit \<Rightarrow>
          if agent_channel_digit_down d = Some digit then (d, None)
          else (d\<lparr>agent_channel_digit_down := Some digit, key_pressed_during_modifier := True\<rparr>,
                Some (AgentChannel digit))
      | None \<Rightarrow> key_down_chords now key m c (key_down_settle_fn d))"

definition handle_key_up ::
  "HotkeyPhysicalKey \<Rightarrow> HotkeyModifierSnapshot \<Rightarrow> HotkeyRuntimeConfig \<Rightarrow> HotkeyDetector \<Rightarrow> HotkeyDetector" where
  "handle_key_up key m c d =
     (let d1 = (case key of
            Digit digit \<Rightarrow> if agent_channel_digit_down d = Some digit
              then d\<lparr>agent_channel_digit_down := None\<rparr> else d
          | _ \<Rightarrow> d);
          d2 = (if key = Space then d1\<lparr>show_agent_space_down := False\<rparr> else d1);
          d3 = (if widget_shortcut_key_matches (ws_key (widget_shortcut c)) key
                then d2\<lparr>toggle_widget_key_down := False\<rparr> else d2);
          d4 = (if key = V then d3\<lparr>insert_here_v_down := False\<rparr> else d3)
      in if \<not> m_ctrl m \<and> \<not> m_option m \<and> \<not> m_cmd m \<and> \<not> m_fn_key m
         then d4\<lparr>key_pressed_during_modifier := False\<rparr> else d4)"

subsection \<open>Modifier changes\<close>

text \<open>Phase 1: the edge trigger of the wrong-arm diagnostic.\<close>

definition fc_wrong_arm ::
  "HotkeyModifierSnapshot \<Rightarrow> HotkeyRuntimeConfig \<Rightarrow> HotkeyDetector \<Rightarrow> HotkeyDetector" where
  "fc_wrong_arm m c d =
     (let base_for_arm = hold_base_pressed m (dictation (mode_bindings c));
          wrong_arm = (case hold_arm_modifier c of
             Arm_Shift \<Rightarrow> m_cmd m \<and> \<not> m_shift m
           | Arm_Cmd \<Rightarrow> m_shift m \<and> \<not> m_cmd m)
      in if base_for_arm \<and> wrong_arm \<and> \<not> wrong_arm_logged d then d\<lparr>wrong_arm_logged := True\<rparr>
         else if \<not> wrong_arm then d\<lparr>wrong_arm_logged := False\<rparr> else d)"

definition only_fn :: "HotkeyModifierSnapshot \<Rightarrow> bool" where
  "only_fn m \<longleftrightarrow> m_fn_key m \<and> \<not> m_ctrl m \<and> \<not> m_option m \<and> \<not> m_shift m \<and> \<not> m_cmd m"

text \<open>Phase 2: a clean Fn press opens the tap-or-hold question.\<close>

definition fc_fn_press ::
  "instant \<Rightarrow> HotkeyPhysicalKey \<Rightarrow> HotkeyModifierSnapshot \<Rightarrow> HotkeyRuntimeConfig \<Rightarrow> HotkeyDetector
   \<Rightarrow> HotkeyDetector" where
  "fc_fn_press now key m c d =
     (if fn_tap_toggles_dictation c \<and> (key = Fn \<and> only_fn m) \<and> \<not> hold_active d
         \<and> \<not> fn_press_pending d \<and> \<not> hold_up_owed d
      then d\<lparr>fn_press_pending := True, fn_press_started := Some now\<rparr> else d)"

definition assistive_combo :: "HotkeyModifierSnapshot \<Rightarrow> HotkeyRuntimeConfig \<Rightarrow> bool" where
  "assistive_combo m c = (case assistive_hold_binding (assistive (mode_bindings c)) of
      None \<Rightarrow> False | Some b \<Rightarrow> check_hold_combo m b)"

definition mode_now :: "HotkeyModifierSnapshot \<Rightarrow> HotkeyRuntimeConfig \<Rightarrow> HoldMode" where
  "mode_now m c =
     (if assistive_combo m c then Selection
      else compute_hold_mode (m_shift m) (m_cmd m) (dictation (mode_bindings c)) (hold_exclusive c)
             (hold_arm_modifier c))"

text \<open>Phase 3: hold transitions.\<close>

definition fc_hold ::
  "instant \<Rightarrow> HotkeyModifierSnapshot \<Rightarrow> HotkeyRuntimeConfig \<Rightarrow> HotkeyDetector
   \<Rightarrow> HotkeyDetector \<times> HotkeyEvent option" where
  "fc_hold now m c d =
     (let combo_active = (assistive_combo m c \<or> check_hold_combo m (dictation (mode_bindings c)));
          arm_now = arm_modifier_is_down m (hold_arm_modifier c);
          suppress_hold_down = (fn_press_pending d \<and> only_fn m \<and> \<not> hold_active d);
          d1 = (if fn_press_pending d \<and> m_fn_key m \<and> \<not> only_fn m
                then d\<lparr>fn_press_pending := False, fn_press_started := None\<rparr> else d)
      in if combo_active \<and> \<not> hold_active d1 \<and> \<not> suppress_hold_down then
           (d1\<lparr>hold_active := True, hold_active_ts := Some now, hold_mode := mode_now m c,
               hold_event_sent := True, arm_modifier_down := arm_now\<rparr>,
            Some (Hold Down (mode_now m c)))
         else if combo_active \<and> hold_active d1 then
           (d1\<lparr>arm_modifier_down := arm_now\<rparr>,
            if arm_now \<and> \<not> arm_modifier_down d1 then Some AttachSelection else None)
         else if \<not> combo_active \<and> hold_active d1 then
           (d1\<lparr>hold_active := False, arm_modifier_down := False, hold_active_ts := None\<rparr>,
            if hold_event_sent d1 then Some (Hold Up (hold_mode d1)) else None)
         else (d1, None))"

text \<open>Phase 4: the release of a pending Fn press decides tap or hold.\<close>

definition fc_fn_release ::
  "instant \<Rightarrow> HotkeyModifierSnapshot \<Rightarrow> HotkeyRuntimeConfig \<Rightarrow> HotkeyDetector \<Rightarrow> HotkeyEvent option
   \<Rightarrow> HotkeyDetector \<times> HotkeyEvent option" where
  "fc_fn_release now m c d emitted =
     (if \<not> m_fn_key m \<and> fn_press_pending d then
        (let held_for = (case fn_press_started d of None \<Rightarrow> 0 | Some ts \<Rightarrow> elapsed_between now ts);
             d1 = d\<lparr>fn_press_started := None, fn_press_pending := False\<rparr>
         in if fn_tap_toggles_dictation c \<and> held_for < from_millis (hold_start_delay_ms c)
            then (d1, option_or emitted (Some ToggleRaw))
            else if dictation (mode_bindings c) = HoldFn \<and> from_millis (hold_start_delay_ms c) \<le> held_for
            then (d1\<lparr>hold_active := True, hold_active_ts := Some now, hold_mode := Raw,
                     hold_event_sent := True, hold_up_owed := True\<rparr>,
                  option_or emitted (Some (Hold Down Raw)))
            else (d1, emitted))
      else (d, emitted))"

text \<open>Phase 5, with double-tap Ctrl bound to dictation.\<close>

definition fc_raw_toggle ::
  "instant \<Rightarrow> HotkeyPhysicalKey \<Rightarrow> HotkeyModifierSnapshot \<Rightarrow> HotkeyRuntimeConfig \<Rightarrow> HotkeyDetector
   \<Rightarrow> HotkeyDetector \<times> HotkeyEvent option" where
  "fc_raw_toggle now key m c d =
     (let (d1, toggle_event) =
        (if is_ctrl_key key \<and> m_ctrl m \<and> \<not> ctrl_down d then
           (d\<lparr>ctrl_down := True, ctrl_down_ts := Some now\<rparr>, None)
         else if is_ctrl_key key \<and> \<not> m_ctrl m \<and> ctrl_down d then
           (let held_for = (case ctrl_down_ts d of None \<Rightarrow> 0 | Some ts \<Rightarrow> elapsed_between now ts);
                d' = d\<lparr>ctrl_down := False, ctrl_down_ts := None\<rparr>
            in if held_for \<le> from_millis TAP_MAX_MS \<and> \<not> m_shift m \<and> \<not> m_option m \<and> \<not> m_cmd m
                  \<and> \<not> key_pressed_during_modifier d'
               then (case register_double_tap (last_ctrl_tap_ts d') now (double_tap_interval_ms c) ToggleRaw of
                       (ts, ev) \<Rightarrow> (d'\<lparr>last_ctrl_tap_ts := ts\<rparr>, ev))
               else (d'\<lparr>last_ctrl_tap_ts := None, key_pressed_during_modifier := False\<rparr>, None))
         else (d, None))
      in (if \<not> m_ctrl m \<and> \<not> m_option m \<and> \<not> m_cmd m
          then d1\<lparr>key_pressed_during_modifier := False\<rparr> else d1, toggle_event))"

text \<open>Phase 5, with neither Option gesture bound: only track the key.\<close>

definition fc_option_untracked ::
  "instant \<Rightarrow> HotkeyPhysicalKey \<Rightarrow> HotkeyModifierSnapshot \<Rightarrow> HotkeyDetector \<Rightarrow> HotkeyDetector" where
  "fc_option_untracked now key m d =
     (if is_option_key key then
        (if m_option m
         then d\<lparr>option_down := True, option_side := Some (is_right_option key), option_down_ts := Some now\<rparr>
         else d\<lparr>option_down := False, option_side := None, option_down_ts := None\<rparr>)
      else if \<not> m_option m then d\<lparr>option_down := False, option_side := None, option_down_ts := None\<rparr>
      else d)"

text \<open>Which toggle an Option tap makes, once it counts as a tap.\<close>

definition fc_option_toggle ::
  "instant \<Rightarrow> bool \<Rightarrow> HotkeyModifierSnapshot \<Rightarrow> HotkeyRuntimeConfig \<Rightarrow> HotkeyDetector
   \<Rightarrow> HotkeyDetector \<times> HotkeyEvent option" where
  "fc_option_toggle now released_right m c d =
     (let normal_toggle_enabled = (formatting (mode_bindings c) = DoubleLeftOption);
          assistive_toggle_enabled = (assistive (mode_bindings c) = DoubleRightOption);
          hold_binding_blocks_toggle = (if dictation (mode_bindings c) = HoldCtrlAlt
             then m_ctrl m \<or> hold_active d else m_ctrl m \<or> m_cmd m \<or> hold_active d)
      in if hold_binding_blocks_toggle then
           register_blocked_option_double_tap d released_right now (double_tap_interval_ms c) ModifierComboActive
         else if released_right then
           (let d1 = d\<lparr>last_left_tap_ts := None\<rparr>
            in if assistive_toggle_enabled then
                 (case register_double_tap (last_right_tap_ts d1) now (double_tap_interval_ms c) ToggleAssistive of
                    (ts, ev) \<Rightarrow> (d1\<lparr>last_right_tap_ts := ts\<rparr>, ev))
               else register_blocked_option_double_tap d1 released_right now (double_tap_interval_ms c) BindingDisabled)
         else if normal_toggle_enabled then
           (let d1 = d\<lparr>last_right_tap_ts := None\<rparr>
            in case register_double_tap (last_left_tap_ts d1) now (double_tap_interval_ms c) ToggleNormal of
                 (ts, ev) \<Rightarrow> (d1\<lparr>last_left_tap_ts := ts\<rparr>, ev))
         else register_blocked_option_double_tap d released_right now (double_tap_interval_ms c) BindingDisabled)"

text \<open>
  The release of Option. The last component says whether the source falls through to the closing
  statements of the handler (\<open>True\<close>) or returns (\<open>False\<close>).
\<close>

definition fc_option_release ::
  "instant \<Rightarrow> HotkeyPhysicalKey \<Rightarrow> HotkeyModifierSnapshot \<Rightarrow> HotkeyRuntimeConfig \<Rightarrow> HotkeyDetector
   \<Rightarrow> HotkeyDetector \<times> HotkeyEvent option \<times> bool" where
  "fc_option_release now key m c d =
     (let released_right = is_right_option key;
          pressed_side = option_side d;
          down_ts = option_down_ts d;
          d1 = d\<lparr>option_down := False, option_side := None, option_down_ts := None\<rparr>;
          held_for = (case down_ts of None \<Rightarrow> 0 | Some ts \<Rightarrow> elapsed_between now ts);
          typed_meanwhile = (case (down_ts, last_hid_key_down d1) of
             (Some down, Some at) \<Rightarrow> down \<le> at \<and> at \<le> now
           | _ \<Rightarrow> False);
          forget = d1\<lparr>last_left_tap_ts := None, last_right_tap_ts := None\<rparr>
      in if \<not> is_option_key key then (forget\<lparr>key_pressed_during_modifier := False\<rparr>, None, False)
         else if pressed_side \<noteq> None \<and> pressed_side \<noteq> Some released_right then (forget, None, False)
         else if key_pressed_during_modifier d1 then
           (d1\<lparr>key_pressed_during_modifier := False\<rparr>, None, False)
         else if typed_meanwhile \<or> from_millis TAP_MAX_MS < held_for then (forget, None, False)
         else (case fc_option_toggle now released_right m c d1 of (d2, ev) \<Rightarrow> (d2, ev, True)))"

definition fc_clear_used ::
  "HotkeyModifierSnapshot \<Rightarrow> HotkeyDetector \<Rightarrow> HotkeyDetector" where
  "fc_clear_used m d =
     (if \<not> m_ctrl m \<and> \<not> m_option m \<and> \<not> m_cmd m \<and> \<not> m_fn_key m
      then d\<lparr>key_pressed_during_modifier := False\<rparr> else d)"

text \<open>Phase 5, with an Option gesture bound.\<close>

definition fc_option_tracked ::
  "instant \<Rightarrow> HotkeyPhysicalKey \<Rightarrow> HotkeyModifierSnapshot \<Rightarrow> HotkeyRuntimeConfig \<Rightarrow> HotkeyDetector
   \<Rightarrow> HotkeyDetector \<times> HotkeyEvent option" where
  "fc_option_tracked now key m c d =
     (if is_option_key key \<and> m_option m \<and> \<not> option_down d then
        (fc_clear_used m (d\<lparr>option_down := True, option_side := Some (is_right_option key),
            option_down_ts := Some now\<rparr>), None)
      else if \<not> m_option m \<and> option_down d then
        (case fc_option_release now key m c d of
           (d1, ev, falls_through) \<Rightarrow> (if falls_through then fc_clear_used m d1 else d1, ev))
      else (fc_clear_used m d, None))"

text \<open>The double-tap half of the handler: which of the three bodies runs.\<close>

definition fc_taps ::
  "instant \<Rightarrow> HotkeyPhysicalKey \<Rightarrow> HotkeyModifierSnapshot \<Rightarrow> HotkeyRuntimeConfig \<Rightarrow> HotkeyDetector
   \<Rightarrow> HotkeyDetector \<times> HotkeyEvent option" where
  "fc_taps now key m c d =
     (if dictation (mode_bindings c) = DoubleCtrl then fc_raw_toggle now key m c d
      else if formatting (mode_bindings c) \<noteq> DoubleLeftOption \<and> assistive (mode_bindings c) \<noteq> DoubleRightOption
        then (fc_option_untracked now key m d, None)
      else fc_option_tracked now key m c d)"

definition handle_flags_changed ::
  "instant \<Rightarrow> HotkeyPhysicalKey \<Rightarrow> HotkeyModifierSnapshot \<Rightarrow> HotkeyRuntimeConfig \<Rightarrow> HotkeyDetector
   \<Rightarrow> HotkeyDetector \<times> HotkeyEvent option" where
  "handle_flags_changed now key m c d =
     (let d1 = fc_fn_press now key m c (fc_wrong_arm m c d);
          (d2, held) = fc_hold now m c d1;
          (d3, emitted) = fc_fn_release now m c d2 held;
          (d4, toggled) = fc_taps now key m c d3
      in (d4, option_or emitted toggled))"

subsection \<open>One input\<close>

definition feed ::
  "HotkeyDetectorInput \<Rightarrow> HotkeyRuntimeConfig \<Rightarrow> HotkeyDetector \<Rightarrow> HotkeyDetector \<times> HotkeyEvent option" where
  "feed input c d = (case input of
      KeyDown now key m \<Rightarrow> handle_key_down now key m c d
    | KeyUp key m \<Rightarrow> (handle_key_up key m c d, None)
    | FlagsChanged now key m \<Rightarrow> handle_flags_changed now key m c d
    | MiddleButton now pressed m \<Rightarrow>
        (if middle_mouse_agent_gesture c then handle_agent_middle_button now pressed c d
         else if \<not> middle_mouse_acts_as_fn c then (d, None)
         else handle_flags_changed now Fn (m\<lparr>m_fn_key := pressed \<or> m_fn_key m\<rparr>) c d)
    | ScrollWheel lines points continuous momentum \<Rightarrow> handle_scroll lines points continuous momentum d)"

end
