(* ===== verification/Machines.thy ===== *)
theory Machines
  imports CS_Prelude
begin

section \<open>Machines that emit events\<close>

text \<open>
  Several components of codescribe have one shape: a state, inputs fed one at a time, at most one
  event per input. This theory holds the run of such a machine and the two contracts under which
  facts about one step become facts about every run:
  \<^item> \<open>monitored_machine\<close>: the events are accepted by an abstract protocol automaton, which a
    simulation relation ties to the concrete state (a refinement);
  \<^item> \<open>invariant_machine\<close>: an invariant is kept and every event satisfies a predicate. It is the
    special case of a one-state automaton, shown as a sublocale.
\<close>

fun run_machine :: "('i \<Rightarrow> 's \<Rightarrow> 's \<times> 'e option) \<Rightarrow> 's \<Rightarrow> 'i list \<Rightarrow> 's \<times> 'e list" where
  "run_machine step s [] = (s, [])"
| "run_machine step s (i # is) =
     (case step i s of
        (s', out) \<Rightarrow> (case run_machine step s' is of
           (s'', es) \<Rightarrow> (s'', (case out of None \<Rightarrow> es | Some e \<Rightarrow> e # es))))"

definition final_state :: "('i \<Rightarrow> 's \<Rightarrow> 's \<times> 'e option) \<Rightarrow> 's \<Rightarrow> 'i list \<Rightarrow> 's" where
  "final_state step s is = fst (run_machine step s is)"

definition events_of :: "('i \<Rightarrow> 's \<Rightarrow> 's \<times> 'e option) \<Rightarrow> 's \<Rightarrow> 'i list \<Rightarrow> 'e list" where
  "events_of step s is = snd (run_machine step s is)"

text \<open>An automaton reads the events; \<open>None\<close> is a violation of its protocol.\<close>

fun accept :: "('m \<Rightarrow> 'e \<Rightarrow> 'm option) \<Rightarrow> 'm \<Rightarrow> 'e list \<Rightarrow> 'm option" where
  "accept mon m [] = Some m"
| "accept mon m (e # es) = (case mon m e of None \<Rightarrow> None | Some m' \<Rightarrow> accept mon m' es)"

locale monitored_machine =
  fixes step :: "'i \<Rightarrow> 's \<Rightarrow> 's \<times> 'e option" and ok :: "'i \<Rightarrow> bool"
    and sim :: "'s \<Rightarrow> 'm \<Rightarrow> bool" and mon :: "'m \<Rightarrow> 'e \<Rightarrow> 'm option"
  assumes step_silent: "ok i \<Longrightarrow> sim s m \<Longrightarrow> step i s = (s', None) \<Longrightarrow> sim s' m"
    and step_event: "ok i \<Longrightarrow> sim s m \<Longrightarrow> step i s = (s', Some e) \<Longrightarrow> \<exists>m'. mon m e = Some m' \<and> sim s' m'"
begin

lemma run_simulates:
  assumes "list_all ok is" and "sim s m" and "run_machine step s is = (s', es)"
  shows "\<exists>m'. accept mon m es = Some m' \<and> sim s' m'"
  using assms
proof (induction "is" arbitrary: s m es)
  case Nil
  then show ?case by simp
next
  case (Cons i "is")
  obtain s1 out where st: "step i s = (s1, out)" by fastforce
  obtain s2 es' where run: "run_machine step s1 is = (s2, es')" by fastforce
  have s2: "s2 = s'" and es: "es = (case out of None \<Rightarrow> es' | Some e \<Rightarrow> e # es')"
    using Cons.prems(3) st run by auto
  show ?case
  proof (cases out)
    case None
    with Cons.prems st have "sim s1 m" by (auto intro: step_silent)
    with Cons.IH [of s1 m es'] Cons.prems(1) run s2 show ?thesis by (simp add: es None)
  next
    case (Some e)
    with Cons.prems st obtain m1 where m1: "mon m e = Some m1" "sim s1 m1"
      by (auto dest: step_event)
    with Cons.IH [of s1 m1 es'] Cons.prems(1) run s2 show ?thesis by (simp add: es Some)
  qed
qed

lemma events_accepted:
  assumes "list_all ok is" and "sim s m"
  shows "\<exists>m'. accept mon m (events_of step s is) = Some m' \<and> sim (final_state step s is) m'"
  using run_simulates [OF assms] by (simp add: events_of_def final_state_def)

end

locale invariant_machine =
  fixes step :: "'i \<Rightarrow> 's \<Rightarrow> 's \<times> 'e option" and ok :: "'i \<Rightarrow> bool"
    and inv :: "'s \<Rightarrow> bool" and good :: "'e \<Rightarrow> bool"
  assumes step_inv: "ok i \<Longrightarrow> inv s \<Longrightarrow> step i s = (s', out) \<Longrightarrow> inv s'"
    and step_good: "ok i \<Longrightarrow> inv s \<Longrightarrow> step i s = (s', Some e) \<Longrightarrow> good e"

sublocale invariant_machine \<subseteq> monitored_machine step ok "\<lambda>s (_ :: unit). inv s"
  "\<lambda>_ e. if good e then Some () else None"
  by unfold_locales (auto intro: step_inv step_good)

lemma accept_good: "accept (\<lambda>_ e. if good e then Some () else None) u es \<noteq> None \<longleftrightarrow> list_all good es"
  by (induction es arbitrary: u) auto

context invariant_machine begin

lemma invariant_run: "list_all ok is \<Longrightarrow> inv s \<Longrightarrow> inv (final_state step s is)"
  using events_accepted [of "is" s "()"] by blast

lemma good_events: "list_all ok is \<Longrightarrow> inv s \<Longrightarrow> list_all good (events_of step s is)"
  using events_accepted [of "is" s "()"] accept_good [of good "()" "events_of step s is"] by force

end

lemma events_of_Nil [simp]: "events_of step s [] = []" "final_state step s [] = s"
  by (simp_all add: events_of_def final_state_def)

lemma events_of_Cons [simp]:
  "events_of step s (i # is) =
     (case snd (step i s) of None \<Rightarrow> [] | Some e \<Rightarrow> [e]) @ events_of step (fst (step i s)) is"
  "final_state step s (i # is) = final_state step (fst (step i s)) is"
  by (simp_all add: events_of_def final_state_def case_prod_beta split: option.split)

lemma final_state_append:
  "final_state step s (is @ js) = final_state step (final_state step s is) js"
  by (induction "is" arbitrary: s) simp_all

end
