(* ===== verification/Hotkey_Gestures.thy ===== *)
theory Hotkey_Gestures
  imports Hotkey_Detector Machines
begin

section \<open>What the detector promises\<close>

text \<open>
  Properties of the gesture detector of \<open>Hotkey_Detector\<close> over whole runs: the hold protocol its
  listeners rely on (a refinement to a small automaton), wheel bounds, one-shot chords, the
  channel chord against recording gestures, double taps, and how a press of Fn resolves.
\<close>

subsection \<open>Runs and specifications\<close>

datatype detector_action =
    Feed HotkeyDetectorInput HotkeyRuntimeConfig
  | Poll instant HotkeyRuntimeConfig
  | ObserveHid instant

fun detector_step :: "detector_action \<Rightarrow> HotkeyDetector \<Rightarrow> HotkeyDetector \<times> HotkeyEvent option" where
  "detector_step (Feed input c) d = feed input c d"
| "detector_step (Poll now c) d = poll now c d"
| "detector_step (ObserveHid at) d = (observe_hid_key_down at d, None)"

fun tap_event :: "HotkeyEvent \<Rightarrow> bool" where
  "tap_event ToggleNormal = True"
| "tap_event ToggleRaw = True"
| "tap_event ToggleAssistive = True"
| "tap_event (DoubleTapBlocked g r) = True"
| "tap_event _ = False"

definition hold_core ::
  "HotkeyDetector \<Rightarrow> bool \<times> HoldMode \<times> bool \<times> bool \<times> instant option \<times> bool \<times> int" where
  "hold_core d = (hold_active d, hold_mode d, hold_event_sent d, fn_press_pending d,
     fn_press_started d, hold_up_owed d, scroll_points d)"

text \<open>
  The hold protocol, read over the calls and the events they answered. Its state is whether a hold runs
  and whether the timer still owes a hold end. A hold starts only when none runs, and is a dictation
  hold (\<open>Raw\<close>); a start decided by the release of Fn is owed its end by the timer. A hold end comes
  from a running hold, or from the timer paying what it owes, and then it must pay. A modifier change
  that leaves the dictation combination must end the running hold. A selection is attached only while a
  hold runs, and the legacy mid-hold mode flip is never emitted.
\<close>

fun is_poll :: "detector_action \<Rightarrow> bool" where
  "is_poll (Poll now c) = True"
| "is_poll _ = False"

text \<open>The modifiers a call reports, with the settings it reports them under; the middle button acts as Fn.\<close>

fun modifier_change :: "detector_action \<Rightarrow> (HotkeyModifierSnapshot \<times> HotkeyRuntimeConfig) option" where
  "modifier_change (Feed (FlagsChanged now key m) c) = Some (m, c)"
| "modifier_change (Feed (MiddleButton now pressed m) c) =
     (if middle_mouse_acts_as_fn c then Some (m\<lparr>m_fn_key := pressed \<or> m_fn_key m\<rparr>, c) else None)"
| "modifier_change _ = None"

definition combo_released :: "detector_action \<Rightarrow> bool" where
  "combo_released a = (case modifier_change a of None \<Rightarrow> False
     | Some (m, c) \<Rightarrow> \<not> check_hold_combo m (dictation (mode_bindings c)))"

definition starts_at_release :: "detector_action \<Rightarrow> bool" where
  "starts_at_release a = (case modifier_change a of None \<Rightarrow> False
     | Some (m, c) \<Rightarrow> dictation (mode_bindings c) = HoldFn \<and> \<not> m_fn_key m)"

fun hold_protocol ::
  "bool \<times> bool \<Rightarrow> detector_action \<times> HotkeyEvent option \<Rightarrow> (bool \<times> bool) option" where
  "hold_protocol (active, owed) (a, Some (Hold Down mode)) =
     (if \<not> active \<and> \<not> (is_poll a \<and> owed) \<and> mode = Raw then Some (True, owed \<or> starts_at_release a) else None)"
| "hold_protocol (active, owed) (a, Some (Hold Up mode)) =
     (if (if is_poll a then owed else active) \<and> mode = Raw then Some (False, \<not> is_poll a \<and> owed) else None)"
| "hold_protocol (active, owed) (a, Some (HoldUpdate mode)) = None"
| "hold_protocol (active, owed) (a, Some AttachSelection) =
     (if active \<and> \<not> is_poll a \<and> \<not> combo_released a then Some (True, owed) else None)"
| "hold_protocol (active, owed) (a, _) =
     (if is_poll a \<and> owed \<or> combo_released a \<and> active then None else Some (active, owed))"

lemma is_poll_modifier_change: "modifier_change a = Some mc \<Longrightarrow> \<not> is_poll a"
  by (cases a) auto

lemma modifier_change_reads:
  "modifier_change a = Some (m, c) \<Longrightarrow> combo_released a = (\<not> check_hold_combo m (dictation (mode_bindings c)))"
  "modifier_change a = Some (m, c) \<Longrightarrow> starts_at_release a = (dictation (mode_bindings c) = HoldFn \<and> \<not> m_fn_key m)"
  "modifier_change a = None \<Longrightarrow> \<not> combo_released a \<and> \<not> starts_at_release a"
  by (simp_all add: combo_released_def starts_at_release_def)

definition protocol_state :: "HotkeyDetector \<Rightarrow> bool \<times> bool" where
  "protocol_state d = (hold_active d, hold_up_owed d)"

text \<open>The step that answers its call together with the event.\<close>

definition logged_step ::
  "detector_action \<Rightarrow> HotkeyDetector \<Rightarrow> HotkeyDetector \<times> (detector_action \<times> HotkeyEvent option) option" where
  "logged_step a d = (fst (detector_step a d), Some (a, snd (detector_step a d)))"

definition hold_inv :: "HotkeyDetector \<Rightarrow> bool" where
  "hold_inv d \<longleftrightarrow> (hold_active d \<longrightarrow> hold_event_sent d)
     \<and> (fn_press_pending d \<longrightarrow> \<not> hold_active d \<and> \<not> hold_up_owed d) \<and> hold_mode d = Raw"

text \<open>What one handler call does to the protocol state.\<close>

definition follows :: "detector_action \<Rightarrow> HotkeyDetector \<Rightarrow> HotkeyDetector \<times> HotkeyEvent option \<Rightarrow> bool" where
  "follows a d r \<longleftrightarrow> hold_inv (fst r)
     \<and> hold_protocol (protocol_state d) (a, snd r) = Some (protocol_state (fst r))"

lemmas follows_defs = follows_def protocol_state_def hold_inv_def

fun gesture_off :: "detector_action \<Rightarrow> bool" where
  "gesture_off (Feed input c) = (\<not> middle_mouse_agent_gesture c)"
| "gesture_off (Poll now c) = (\<not> middle_mouse_agent_gesture c)"
| "gesture_off (ObserveHid at) = True"

fun scroll_ok :: "HotkeyEvent \<Rightarrow> bool" where
  "scroll_ok (AgentGesture (Scroll s)) = (1 \<le> \<bar>s\<bar> \<and> \<bar>s\<bar> \<le> SCROLL_MAX_STEPS)"
| "scroll_ok _ = True"

fun one_shot :: "HotkeyEvent \<Rightarrow> bool" where
  "one_shot (AgentChannel n) = True"
| "one_shot InsertHere = True"
| "one_shot ShowAgent = True"
| "one_shot ToggleWidget = True"
| "one_shot _ = False"

text \<open>The completed pairs in a list of taps on one slot.\<close>

fun tap_pairs :: "u64 \<Rightarrow> instant option \<Rightarrow> instant list \<Rightarrow> nat" where
  "tap_pairs ms slot [] = 0"
| "tap_pairs ms slot (t # ts) =
     (case consume_double_tap slot t ms of (slot', closed) \<Rightarrow> of_bool closed + tap_pairs ms slot' ts)"

definition no_modifiers :: HotkeyModifierSnapshot where
  "no_modifiers = \<lparr>m_ctrl = False, m_option = False, m_shift = False, m_cmd = False, m_fn_key = False\<rparr>"

definition fn_only :: HotkeyModifierSnapshot where
  "fn_only = no_modifiers\<lparr>m_fn_key := True\<rparr>"

definition tap_config :: HotkeyRuntimeConfig where
  "tap_config = \<lparr>mode_bindings = \<lparr>dictation = HoldFn, formatting = DoubleLeftOption, assistive = DoubleRightOption\<rparr>,
     hold_exclusive = False, hold_arm_modifier = Arm_Shift, hold_start_delay_ms = 800,
     double_tap_interval_ms = 200, deferred_insert_shortcut = Insert_Disabled,
     channel_modifier = Channel_Ctrl, widget_shortcut = default_widget_shortcut,
     fn_tap_toggles_dictation = True, middle_mouse_acts_as_fn = True, middle_mouse_agent_gesture = False\<rparr>"

fun hold_event :: "HotkeyEvent \<Rightarrow> bool" where
  "hold_event (Hold a mo) = True"
| "hold_event AttachSelection = True"
| "hold_event ToggleRaw = True"
| "hold_event _ = False"

definition fn_pressed :: "instant \<Rightarrow> HotkeyDetector \<Rightarrow> bool" where
  "fn_pressed t d \<longleftrightarrow> \<not> hold_active d \<and> fn_press_pending d \<and> fn_press_started d = Some t \<and> \<not> hold_up_owed d"

definition settled :: "HotkeyDetector \<Rightarrow> bool" where
  "settled d \<longleftrightarrow> \<not> hold_active d \<and> \<not> fn_press_pending d \<and> \<not> hold_up_owed d"

subsection \<open>Frame and protocol lemmas\<close>


lemma hold_core_option_keys [simp]:
  "hold_core (d\<lparr>option_down := a, option_side := b, option_down_ts := t\<rparr>) = hold_core d"
  by (simp add: hold_core_def)

lemma register_double_tap_event:
  "register_double_tap ts now ms e = (ts', Some e') \<Longrightarrow> e' = e"
  by (auto simp: register_double_tap_def split: prod.splits if_splits)

lemma blocked_tap_frame [frame_simps]:
  "hold_core (fst (register_blocked_option_double_tap d r now ms reason)) = hold_core d"
  by (auto simp: register_blocked_option_double_tap_def hold_core_def split: prod.splits)

lemma blocked_tap_event:
  "snd (register_blocked_option_double_tap d r now ms reason) = Some e \<Longrightarrow> tap_event e"
  by (auto simp: register_blocked_option_double_tap_def split: prod.splits if_splits)

lemma raw_toggle_frame [frame_simps]: "hold_core (fst (fc_raw_toggle now key m c d)) = hold_core d"
  by (auto simp: fc_raw_toggle_def hold_core_def Let_def split: prod.splits if_splits)

lemma raw_toggle_event: "snd (fc_raw_toggle now key m c d) = Some e \<Longrightarrow> tap_event e"
  by (auto simp: fc_raw_toggle_def Let_def dest!: register_double_tap_event split: prod.splits if_splits)

lemma option_untracked_frame [frame_simps]: "hold_core (fc_option_untracked now key m d) = hold_core d"
  by (auto simp: fc_option_untracked_def hold_core_def)

lemma option_toggle_frame [frame_simps]: "hold_core (fst (fc_option_toggle now r m c d)) = hold_core d"
  using blocked_tap_frame [of d r now "double_tap_interval_ms c"]
    blocked_tap_frame [of "d\<lparr>last_left_tap_ts := None\<rparr>" r now "double_tap_interval_ms c"]
  by (auto simp: fc_option_toggle_def hold_core_def Let_def split: prod.splits if_splits)

lemma option_toggle_event: "snd (fc_option_toggle now r m c d) = Some e \<Longrightarrow> tap_event e"
  by (auto simp: fc_option_toggle_def Let_def dest!: blocked_tap_event register_double_tap_event split: prod.splits if_splits)

lemma option_release_frame [frame_simps]: "hold_core (fst (fc_option_release now key m c d)) = hold_core d"
  using option_toggle_frame [of now "is_right_option key" m c "d\<lparr>option_down := False, option_side := None, option_down_ts := None\<rparr>"]
  by (auto simp: fc_option_release_def hold_core_def Let_def split: prod.splits)

lemma option_release_event: "fst (snd (fc_option_release now key m c d)) = Some e \<Longrightarrow> tap_event e"
  using option_toggle_event [of now "is_right_option key" m c "d\<lparr>option_down := False, option_side := None, option_down_ts := None\<rparr>" e]
  by (auto simp: fc_option_release_def Let_def split: prod.splits if_splits)

lemma clear_used_frame [frame_simps]: "hold_core (fc_clear_used m d) = hold_core d"
  by (simp add: fc_clear_used_def hold_core_def)

lemma option_tracked_frame [frame_simps]: "hold_core (fst (fc_option_tracked now key m c d)) = hold_core d"
  using option_release_frame [of now key m c d]
  by (auto simp: fc_option_tracked_def clear_used_frame split: prod.splits)

lemma option_tracked_event: "snd (fc_option_tracked now key m c d) = Some e \<Longrightarrow> tap_event e"
  using option_release_event [of now key m c d e]
  by (auto simp: fc_option_tracked_def split: prod.splits if_splits)

lemma taps_frame: "hold_core (fst (fc_taps now key m c d)) = hold_core d"
  by (simp add: fc_taps_def frame_simps)

lemma taps_event: "snd (fc_taps now key m c d) = Some e \<Longrightarrow> tap_event e"
  by (auto simp: fc_taps_def dest: raw_toggle_event option_tracked_event split: if_splits)


lemma assistive_combo_False [simp]: "assistive_combo m c = False"
  by (simp add: assistive_combo_def assistive_hold_binding_def)

lemma mode_now_Raw [simp]: "mode_now m c = Raw"
  by (simp add: mode_now_def compute_hold_mode_def)

lemma tap_event_protocol: "tap_event e \<Longrightarrow> hold_protocol s (a, Some e) = hold_protocol s (a, None)"
  by (cases s; cases e) auto

lemma hold_core_eqD:
  assumes "hold_core d = hold_core d'"
  shows "hold_active d = hold_active d'" "hold_inv d = hold_inv d'" "hold_up_owed d = hold_up_owed d'"
    "scroll_points d = scroll_points d'" "protocol_state d = protocol_state d'"
  using assms by (simp_all add: hold_core_def hold_inv_def protocol_state_def)

lemma follows_cong: "follows a d1 r \<Longrightarrow> protocol_state d1 = protocol_state d \<Longrightarrow> follows a d r"
  by (simp add: follows_def)

lemma fn_press_phase:
  assumes "hold_inv d"
  shows "hold_inv (fc_fn_press now key m c (fc_wrong_arm m c d))"
    "protocol_state (fc_fn_press now key m c (fc_wrong_arm m c d)) = protocol_state d"
  using assms by (auto simp: fc_fn_press_def fc_wrong_arm_def hold_inv_def protocol_state_def Let_def)

lemma no_fn_no_combo: "\<not> m_fn_key m \<Longrightarrow> \<not> check_hold_combo m HoldFn"
  by (simp add: check_hold_combo_def)

lemma hold_phase_settled:
  assumes "modifier_change a = Some (m, c)" and "hold_inv d" and "\<not> fn_press_pending d"
  shows "follows a d (fc_hold now m c d)"
    "\<not> fn_press_pending (fst (fc_hold now m c d))"
  using assms no_fn_no_combo [of m] modifier_change_reads(1,2) [OF assms(1)] is_poll_modifier_change [OF assms(1)]
  by (auto simp: fc_hold_def follows_defs Let_def)

lemma hold_phase_pending:
  assumes "modifier_change a = Some (m, c)" and "hold_inv d" and "fn_press_pending d" and "m_fn_key m"
  shows "follows a d (fc_hold now m c d)"
  using assms modifier_change_reads(1,2) [OF assms(1)] is_poll_modifier_change [OF assms(1)]
  by (cases "only_fn m"; cases "check_hold_combo m (dictation (mode_bindings c))")
     (simp_all add: fc_hold_def follows_defs Let_def)

lemma fn_release_phase:
  assumes "modifier_change a = Some (m, c)" and "hold_inv d" and "fn_press_pending d" and "\<not> m_fn_key m"
  shows "follows a d
    (case fc_hold now m c d of (d2, held) \<Rightarrow> fc_fn_release now m c d2 held)"
proof -
  have inactive: "\<not> hold_active d" "\<not> hold_up_owed d" and raw: "hold_mode d = Raw"
    using assms by (simp_all add: hold_inv_def)
  have "\<not> only_fn m" using assms(4) by (simp add: only_fn_def)
  show ?thesis
  proof (cases "check_hold_combo m (dictation (mode_bindings c))")
    case True
    then have "dictation (mode_bindings c) \<noteq> HoldFn" using assms(4) no_fn_no_combo by auto
    with True inactive assms(3,4) modifier_change_reads(1,2) [OF assms(1)] is_poll_modifier_change [OF assms(1)] \<open>\<not> only_fn m\<close> show ?thesis
      by (simp add: fc_hold_def fc_fn_release_def follows_defs Let_def)
  next
    case False
    with inactive raw assms(3,4) modifier_change_reads(1,2) [OF assms(1)] is_poll_modifier_change [OF assms(1)] \<open>\<not> only_fn m\<close> show ?thesis
      by (simp add: fc_hold_def fc_fn_release_def follows_defs Let_def)
  qed
qed

lemma hold_phases:
  assumes "modifier_change a = Some (m, c)" and "hold_inv d"
  shows "follows a d
    (case fc_hold now m c d of (d2, held) \<Rightarrow> fc_fn_release now m c d2 held)"
proof (cases "fn_press_pending d \<and> \<not> m_fn_key m")
  case True
  with assms show ?thesis by (simp add: fn_release_phase)
next
  case False
  have "fc_fn_release now m c (fst (fc_hold now m c d)) held = (fst (fc_hold now m c d), held)" for held
    using False hold_phase_settled(2) [OF assms, of now] by (auto simp: fc_fn_release_def)
  moreover have "follows a d (fc_hold now m c d)"
    using False assms hold_phase_settled(1) hold_phase_pending by blast
  ultimately show ?thesis by (cases "fc_hold now m c d") simp
qed

lemma follows_taps:
  assumes "follows a d (d3, emitted)" and "fc_taps now key m c d3 = (d4, toggled)"
  shows "follows a d (d4, option_or emitted toggled)"
proof -
  from assms(2) have core: "hold_core d4 = hold_core d3" and ev: "\<And>e. toggled = Some e \<Longrightarrow> tap_event e"
    using taps_frame [of now key m c d3] taps_event [of now key m c d3] by simp_all
  show ?thesis
  proof (cases emitted)
    case None
    then show ?thesis
      using assms(1) hold_core_eqD [OF core] ev by (cases toggled) (simp_all add: follows_def tap_event_protocol)
  next
    case (Some e)
    then show ?thesis using assms(1) hold_core_eqD [OF core] by (simp add: follows_def)
  qed
qed

lemma flags_changed_follows:
  assumes "modifier_change a = Some (m, c)" and "hold_inv d"
  shows "follows a d (handle_flags_changed now key m c d)"
proof -
  let ?d1 = "fc_fn_press now key m c (fc_wrong_arm m c d)"
  obtain d2 held where h: "fc_hold now m c ?d1 = (d2, held)" by fastforce
  obtain d3 em where r: "fc_fn_release now m c d2 held = (d3, em)" by fastforce
  obtain d4 tg where t: "fc_taps now key m c d3 = (d4, tg)" by fastforce
  have "follows a ?d1 (d3, em)"
    using hold_phases [OF assms(1) fn_press_phase(1) [OF assms(2), of now key m c], of now] h r by simp
  then have "follows a d (d3, em)" using fn_press_phase(2) [OF assms(2)] by (rule follows_cong)
  then have "follows a d (d4, option_or em tg)" using t by (rule follows_taps)
  then show ?thesis by (simp add: handle_flags_changed_def Let_def h r t)
qed

lemma key_down_tail_follows:
  assumes "hold_inv d"
  shows "follows (Feed (KeyDown now key m) c) d (key_down_tail now m c d)"
  using assms
  by (auto simp: key_down_tail_def key_down_cancel_hold_def key_down_mark_ctrl_def key_down_mark_option_def
      follows_defs combo_released_def starts_at_release_def Let_def split: if_splits)

lemma key_down_chords_follows:
  assumes "hold_inv d"
  shows "follows (Feed (KeyDown now key m) c) d (key_down_chords now key m c d)"
proof -
  note t = key_down_tail_follows [OF assms, of now key m c]
  show ?thesis using assms t by (simp add: key_down_chords_def follows_defs combo_released_def starts_at_release_def)
qed

lemma key_down_follows:
  assumes "hold_inv d"
  shows "follows (Feed (KeyDown now key m) c) d (handle_key_down now key m c d)"
proof (cases "key_down_digit key m c")
  case None
  have s: "hold_inv (key_down_settle_fn d)" "protocol_state (key_down_settle_fn d) = protocol_state d"
    using assms by (simp_all add: key_down_settle_fn_def hold_inv_def protocol_state_def)
  from key_down_chords_follows [OF s(1)] s(2)
  have "follows (Feed (KeyDown now key m) c) d (key_down_chords now key m c (key_down_settle_fn d))"
    by (rule follows_cong)
  then show ?thesis by (simp add: handle_key_down_def None)
next
  case (Some digit)
  with assms show ?thesis by (simp add: handle_key_down_def follows_defs combo_released_def starts_at_release_def)
qed

lemma poll_follows:
  assumes "hold_inv d" and "\<not> middle_mouse_agent_gesture c"
  shows "follows (Poll now c) d (poll now c d)"
  using assms by (auto simp: poll_def poll_fn_def follows_defs combo_released_def starts_at_release_def Let_def split: option.splits)

lemma key_up_follows: "hold_inv d \<Longrightarrow> follows (Feed (KeyUp key m) c) d (handle_key_up key m c d, None)"
  by (auto simp: handle_key_up_def follows_defs combo_released_def starts_at_release_def Let_def split: HotkeyPhysicalKey.splits)

lemma scroll_follows:
  "hold_inv d \<Longrightarrow> follows (Feed (ScrollWheel l p co mo) c) d (handle_scroll l p co mo d)"
  by (auto simp: handle_scroll_def follows_defs combo_released_def starts_at_release_def Let_def)

lemma step_follows: "gesture_off a \<Longrightarrow> hold_inv d \<Longrightarrow> follows a d (detector_step a d)"
proof (cases a)
  case (Feed input c)
  assume "gesture_off a" "hold_inv d"
  with Feed show ?thesis
    by (cases input) (simp_all add: feed_def key_down_follows key_up_follows flags_changed_follows scroll_follows,
       simp add: follows_defs combo_released_def starts_at_release_def)
qed (auto simp: poll_follows, simp add: follows_defs combo_released_def starts_at_release_def observe_hid_key_down_def)

interpretation hold_run: monitored_machine logged_step gesture_off
  "\<lambda>d s. hold_inv d \<and> s = protocol_state d" hold_protocol
proof (unfold_locales, goal_cases)
  case (2 a d s d' e)
  then show ?case
    using step_follows [of a d] by (intro exI [of _ "protocol_state d'"]) (auto simp: follows_def logged_step_def)
qed (simp add: logged_step_def)

text \<open>C9. The hold protocol. With the middle-button agent gesture off, whatever the inputs, the settings
(which may change at every call) and the timing, the calls and the events they answer follow the
protocol from its idle state, and the protocol's state at the end is exactly the detector's own: whether
a hold runs and whether the timer owes a hold end. So a hold is started only when none is running and
is a dictation hold; a hold end comes only from a running hold or from the timer that owes one, and the
timer that owes one pays at its next tick; a modifier change that leaves the dictation combination ends
the running hold; selections are attached only during a hold; and no mid-hold mode flip occurs.\<close>

theorem hold_protocol_respected:
  assumes "list_all gesture_off acts"
  shows "accept hold_protocol (False, False) (events_of logged_step default_detector acts)
         = Some (hold_active (final_state logged_step default_detector acts),
                 hold_up_owed (final_state logged_step default_detector acts))"
proof -
  have "hold_inv default_detector \<and> (False, False) = protocol_state default_detector"
    by (simp add: default_detector_def hold_inv_def protocol_state_def)
  from hold_run.events_accepted [OF assms this] show ?thesis by (auto simp: protocol_state_def)
qed

theorem hold_protocol_respected_witness:
  "accept hold_protocol (False, False)
     (events_of logged_step default_detector
        [Feed (FlagsChanged 0 Fn fn_only) tap_config, Poll (from_millis 900) tap_config,
         Feed (FlagsChanged (from_millis 1000) Fn no_modifiers) tap_config])
   = Some (hold_active (final_state logged_step default_detector
        [Feed (FlagsChanged 0 Fn fn_only) tap_config, Poll (from_millis 900) tap_config,
         Feed (FlagsChanged (from_millis 1000) Fn no_modifiers) tap_config]),
       hold_up_owed (final_state logged_step default_detector
        [Feed (FlagsChanged 0 Fn fn_only) tap_config, Poll (from_millis 900) tap_config,
         Feed (FlagsChanged (from_millis 1000) Fn no_modifiers) tap_config]))"
  by (rule hold_protocol_respected) (simp add: tap_config_def)

lemma scroll_points_frame:
  "scroll_points (fst (handle_key_down now key m c d)) = scroll_points d"
  "scroll_points (handle_key_up key m c d) = scroll_points d"
  "scroll_points (fst (poll now c d)) = scroll_points d"
  "scroll_points (fst (handle_agent_middle_button now b c d)) = scroll_points d"
  by (auto simp: handle_key_down_def key_down_chords_def key_down_tail_def key_down_cancel_hold_def
      key_down_mark_ctrl_def key_down_mark_option_def key_down_settle_fn_def handle_key_up_def
      poll_def poll_fn_def begin_middle_hold_def end_middle_hold_def handle_agent_middle_button_def Let_def
      split: option.splits HotkeyPhysicalKey.splits)

lemma flags_changed_split:
  obtains d3 em d4 tg where "fc_taps now key m c d3 = (d4, tg)"
    "handle_flags_changed now key m c d = (d4, option_or em tg)"
    "(d3, em) = (case fc_hold now m c (fc_fn_press now key m c (fc_wrong_arm m c d)) of
       (d2, held) \<Rightarrow> fc_fn_release now m c d2 held)"
proof -
  obtain d2 held where h: "fc_hold now m c (fc_fn_press now key m c (fc_wrong_arm m c d)) = (d2, held)" by fastforce
  obtain d3 em where r: "fc_fn_release now m c d2 held = (d3, em)" by fastforce
  obtain d4 tg where t: "fc_taps now key m c d3 = (d4, tg)" by fastforce
  show thesis by (rule that [OF t]) (simp_all add: handle_flags_changed_def Let_def h r t)
qed

lemma hold_phases_frame:
  assumes "(d3, em) = (case fc_hold now m c (fc_fn_press now key m c (fc_wrong_arm m c d)) of
       (d2, held) \<Rightarrow> fc_fn_release now m c d2 held)"
  shows "scroll_points d3 = scroll_points d" "em = Some e \<Longrightarrow> hold_event e"
proof -
  have 1: "scroll_points (fc_fn_press now key m c (fc_wrong_arm m c d)) = scroll_points d"
    by (simp add: fc_fn_press_def fc_wrong_arm_def Let_def)
  have 2: "scroll_points (fst (fc_hold now m c x)) = scroll_points x"
    "snd (fc_hold now m c x) = Some e \<Longrightarrow> hold_event e" for x e
    by (auto simp: fc_hold_def Let_def split: if_splits)
  have 3: "scroll_points (fst (fc_fn_release now m c x h)) = scroll_points x"
    "snd (fc_fn_release now m c x h) = Some e \<Longrightarrow> (h = Some e \<or> hold_event e)" for x h e
    by (auto simp: fc_fn_release_def option_or_eq_Some Let_def split: if_splits)
  obtain d2 held where h: "fc_hold now m c (fc_fn_press now key m c (fc_wrong_arm m c d)) = (d2, held)" by fastforce
  then have r: "(d3, em) = fc_fn_release now m c d2 held" using assms by simp
  show "scroll_points d3 = scroll_points d"
    using 1 2(1) [of "fc_fn_press now key m c (fc_wrong_arm m c d)"] 3(1) [of d2 held] h r by (metis fst_conv)
  show "em = Some e \<Longrightarrow> hold_event e"
    using 2(2) [of "fc_fn_press now key m c (fc_wrong_arm m c d)"] 3(2) [of d2 held] h r by (metis snd_conv)
qed

lemma flags_changed_scroll: "scroll_points (fst (handle_flags_changed now key m c d)) = scroll_points d"
  by (rule flags_changed_split [of now key m c d])
     (metis fst_conv hold_core_eqD(4) hold_phases_frame(1) taps_frame)

lemma flags_changed_event:
  assumes "snd (handle_flags_changed now key m c d) = Some e"
  shows "hold_event e \<or> tap_event e"
proof (rule flags_changed_split [of now key m c d])
  fix d3 em d4 tg
  assume a: "fc_taps now key m c d3 = (d4, tg)" "handle_flags_changed now key m c d = (d4, option_or em tg)"
    "(d3, em) = (case fc_hold now m c (fc_fn_press now key m c (fc_wrong_arm m c d)) of
       (d2, held) \<Rightarrow> fc_fn_release now m c d2 held)"
  from assms a(2) have "em = Some e \<or> tg = Some e" by (auto simp: option_or_eq_Some)
  then show ?thesis using hold_phases_frame(2) [OF a(3)] taps_event [of now key m c d3 e] a(1) by auto
qed

lemma non_scroll_events:
  "snd (handle_key_down now key m c d) = Some e \<Longrightarrow> scroll_ok e"
  "snd (poll now c d) = Some e \<Longrightarrow> scroll_ok e"
  "snd (handle_agent_middle_button now b c d) = Some e \<Longrightarrow> scroll_ok e"
  "snd (handle_flags_changed now key m c d) = Some e \<Longrightarrow> scroll_ok e"
  subgoal by (auto simp: handle_key_down_def key_down_chords_def key_down_tail_def key_down_cancel_hold_def Let_def
      split: option.splits if_splits)
  subgoal by (auto simp: poll_def poll_fn_def Let_def split: option.splits if_splits)
  subgoal by (auto simp: end_middle_hold_def handle_agent_middle_button_def Let_def split: option.splits if_splits)
  subgoal by (drule flags_changed_event) (cases e; auto)
  done

lemma handle_scroll_bound:
  assumes "\<bar>scroll_points d\<bar> < SCROLL_POINTS_PER_STEP"
  shows "\<bar>scroll_points (fst (handle_scroll l p co mo d))\<bar> < SCROLL_POINTS_PER_STEP"
proof -
  have pos: "0 < SCROLL_POINTS_PER_STEP" by (simp add: SCROLL_POINTS_PER_STEP_def)
  note rem = div_trunc_remainder [OF pos, of "saturating_add_i64 (scroll_points d) p"]
  show ?thesis using assms rem pos by (auto simp: handle_scroll_def Let_def)
qed

lemma handle_scroll_event:
  assumes "snd (handle_scroll l p co mo d) = Some e"
  shows "scroll_ok e"
proof -
  have c: "1 \<le> \<bar>clamp s (- SCROLL_MAX_STEPS) SCROLL_MAX_STEPS\<bar>
      \<and> \<bar>clamp s (- SCROLL_MAX_STEPS) SCROLL_MAX_STEPS\<bar> \<le> SCROLL_MAX_STEPS"
    if "s \<noteq> 0" for s :: int using that by (auto simp: clamp_def SCROLL_MAX_STEPS_def)
  show ?thesis using assms c by (auto simp: handle_scroll_def Let_def split: if_splits)
qed

lemma step_scroll_bounds:
  assumes "\<bar>scroll_points d\<bar> < SCROLL_POINTS_PER_STEP"
  shows "\<bar>scroll_points (fst (detector_step a d))\<bar> < SCROLL_POINTS_PER_STEP"
    "snd (detector_step a d) = Some e \<Longrightarrow> scroll_ok e"
  using assms
  by (cases a; auto simp: feed_def scroll_points_frame flags_changed_scroll handle_scroll_bound
       observe_hid_key_down_def split: HotkeyDetectorInput.splits)
     (cases a; auto simp: feed_def dest: non_scroll_events handle_scroll_event
       split: HotkeyDetectorInput.splits if_splits)

interpretation wheel: invariant_machine detector_step "\<lambda>_. True"
  "\<lambda>d. \<bar>scroll_points d\<bar> < SCROLL_POINTS_PER_STEP" scroll_ok
  by unfold_locales (metis step_scroll_bounds fst_conv snd_conv)+

text \<open>Wheel movement is bounded: in every run the unspent scroll distance stays below one step (30
points) and every scroll event moves between one and five steps in either direction.\<close>

theorem wheel_steps_bounded:
  "\<bar>scroll_points (final_state detector_step default_detector acts)\<bar> < 30
   \<and> list_all scroll_ok (events_of detector_step default_detector acts)"
proof -
  have "\<bar>scroll_points default_detector\<bar> < SCROLL_POINTS_PER_STEP"
    by (simp add: default_detector_def SCROLL_POINTS_PER_STEP_def)
  then show ?thesis
    using wheel.invariant_run [of acts default_detector] wheel.good_events [of acts default_detector]
    by (simp add: SCROLL_POINTS_PER_STEP_def list_all_iff)
qed


lemma key_down_tail_event: "snd (key_down_tail now m c d) = Some e \<Longrightarrow> \<not> one_shot e"
  by (auto simp: key_down_tail_def key_down_cancel_hold_def Let_def split: if_splits)

lemma key_down_chords_one_shot:
  assumes "key_down_chords now key m c d = (d', Some e)" and "one_shot e"
  shows "snd (key_down_chords now' key m c d') = None" "fn_press_pending d' = fn_press_pending d"
  using assms key_down_tail_event [of now m c d e]
  by (auto simp: key_down_chords_def split: if_splits)

lemma key_down_one_shot:
  assumes "handle_key_down now key m c d = (d', Some e)" and "one_shot e"
  shows "snd (handle_key_down now' key m c d') = None"
proof (cases "key_down_digit key m c")
  case None
  with assms have k: "key_down_chords now key m c (key_down_settle_fn d) = (d', Some e)"
    by (simp add: handle_key_down_def)
  have "\<not> fn_press_pending (key_down_settle_fn d)" by (simp add: key_down_settle_fn_def)
  then have "key_down_settle_fn d' = d'"
    using key_down_chords_one_shot(2) [OF k assms(2)] by (simp add: key_down_settle_fn_def)
  then show ?thesis using None key_down_chords_one_shot(1) [OF k assms(2)] by (simp add: handle_key_down_def)
next
  case (Some digit)
  with assms show ?thesis by (auto simp: handle_key_down_def split: if_splits)
qed

text \<open>Key repeat is silent: a key-down that fired a one-shot chord (agent channel, insert here, show
agent, toggle widget) fires nothing when the same key-down arrives again before its key-up.\<close>

theorem chord_repeat_is_silent:
  assumes "feed (KeyDown now key m) c d = (d', Some e)" and "one_shot e"
  shows "snd (feed (KeyDown now' key m) c d') = None"
  using assms key_down_one_shot by (simp add: feed_def)

theorem chord_repeat_is_silent_witness:
  "snd (feed (KeyDown 7 (Digit 3) (no_modifiers\<lparr>m_ctrl := True\<rparr>)) tap_config
     (fst (feed (KeyDown 5 (Digit 3) (no_modifiers\<lparr>m_ctrl := True\<rparr>)) tap_config default_detector))) = None"
proof (rule chord_repeat_is_silent)
  show "feed (KeyDown 5 (Digit 3) (no_modifiers\<lparr>m_ctrl := True\<rparr>)) tap_config default_detector
    = (fst (feed (KeyDown 5 (Digit 3) (no_modifiers\<lparr>m_ctrl := True\<rparr>)) tap_config default_detector), Some (AgentChannel 3))"
    by (simp add: feed_def handle_key_down_def key_down_digit_def channel_chord_matches_def tap_config_def
        no_modifiers_def default_detector_def)
  show "one_shot (AgentChannel 3)" by simp
qed

text \<open>With the channel modifier resolved by the one-key-one-role rule, the modifiers of a channel chord
never hold Command, never activate the dictation hold and never open an Fn tap: a digit chord cannot
be read as the start of a take.\<close>

theorem channel_chord_never_records:
  assumes "channel_modifier c = effective_channel_modifier
      (recording_keys_from_bindings [dictation (mode_bindings c), formatting (mode_bindings c), assistive (mode_bindings c)]
        (fn_tap_toggles_dictation c)) requested"
    and "channel_chord_matches (channel_modifier c) m"
  shows "\<not> m_cmd m \<and> \<not> check_hold_combo m (dictation (mode_bindings c)) \<and> \<not> (fn_tap_toggles_dictation c \<and> only_fn m)"
proof -
  let ?k = "recording_keys_from_bindings [dictation (mode_bindings c), formatting (mode_bindings c), assistive (mode_bindings c)]
        (fn_tap_toggles_dictation c)"
  have r: "\<not> (channel_modifier c = Channel_Ctrl \<and> rk_ctrl ?k)" "\<not> (channel_modifier c = Channel_Fn \<and> rk_fn_key ?k)"
    unfolding assms(1) by (auto simp: effective_channel_modifier_def)
  have k: "rk_ctrl ?k = (records_with_ctrl (dictation (mode_bindings c)) \<or> records_with_ctrl (formatting (mode_bindings c))
       \<or> records_with_ctrl (assistive (mode_bindings c)))"
    "rk_fn_key ?k = (records_with_fn (dictation (mode_bindings c)) \<or> records_with_fn (formatting (mode_bindings c))
       \<or> records_with_fn (assistive (mode_bindings c)) \<or> fn_tap_toggles_dictation c)"
    by (auto simp: recording_keys_from_bindings_def Let_def)
  show ?thesis
    using assms(2) r unfolding k
    by (cases "channel_modifier c"; cases "dictation (mode_bindings c)")
       (auto simp: channel_chord_matches_def check_hold_combo_def only_fn_def records_with_ctrl_def records_with_fn_def
         split: if_splits)
qed

theorem channel_chord_never_records_witness:
  "\<not> m_cmd (no_modifiers\<lparr>m_ctrl := True\<rparr>)
   \<and> \<not> check_hold_combo (no_modifiers\<lparr>m_ctrl := True\<rparr>) (dictation (mode_bindings tap_config))
   \<and> \<not> (fn_tap_toggles_dictation tap_config \<and> only_fn (no_modifiers\<lparr>m_ctrl := True\<rparr>))"
  by (rule channel_chord_never_records [where requested = Channel_Fn])
     (simp_all add: tap_config_def effective_channel_modifier_def recording_keys_from_bindings_def
       records_with_ctrl_def records_with_fn_def channel_chord_matches_def no_modifiers_def Let_def)

lemma tap_pairs_slot: "2 * tap_pairs ms slot ts \<le> length ts + of_bool (slot \<noteq> None)"
proof (induction ts arbitrary: slot)
  case Nil
  then show ?case by simp
next
  case (Cons t ts)
  show ?case
    using Cons.IH [of None] Cons.IH [of "Some t"]
    by (auto simp: consume_double_tap_def split: option.splits)
qed

text \<open>Double taps never overlap: \<open>n\<close> taps on one slot complete at most \<open>n / 2\<close> pairs, whatever their
times, because a completed pair empties the slot.\<close>

theorem double_taps_never_overlap: "2 * tap_pairs ms None ts \<le> length ts"
  using tap_pairs_slot [of ms None ts] by simp

lemma option_release_typed:
  assumes "option_down_ts d = Some down" and "last_hid_key_down d = Some at" and "down \<le> at" and "at \<le> now"
  shows "fst (snd (fc_option_release now key m c d)) = None"
  using assms by (simp add: fc_option_release_def Let_def)

lemma tap_clock_frame:
  "option_down_ts (fc_fn_press now key m c (fc_wrong_arm m c d)) = option_down_ts d"
  "last_hid_key_down (fc_fn_press now key m c (fc_wrong_arm m c d)) = last_hid_key_down d"
  "option_down_ts (fst (fc_hold now m c d)) = option_down_ts d"
  "last_hid_key_down (fst (fc_hold now m c d)) = last_hid_key_down d"
  "option_down_ts (fst (fc_fn_release now m c d h)) = option_down_ts d"
  "last_hid_key_down (fst (fc_fn_release now m c d h)) = last_hid_key_down d"
  by (simp_all add: fc_fn_release_def fc_hold_def fc_fn_press_def fc_wrong_arm_def Let_def)

lemma phases_tap_clock:
  assumes "(d3, em) = (case fc_hold now m c (fc_fn_press now key m c (fc_wrong_arm m c d)) of
       (d2, held) \<Rightarrow> fc_fn_release now m c d2 held)"
  shows "option_down_ts d3 = option_down_ts d" "last_hid_key_down d3 = last_hid_key_down d"
proof -
  have "d3 = fst (fc_fn_release now m c (fst (fc_hold now m c (fc_fn_press now key m c (fc_wrong_arm m c d))))
      (snd (fc_hold now m c (fc_fn_press now key m c (fc_wrong_arm m c d)))))"
    using assms by (simp add: case_prod_beta) (metis fst_conv)
  then show "option_down_ts d3 = option_down_ts d" "last_hid_key_down d3 = last_hid_key_down d"
    by (simp_all only: tap_clock_frame)
qed

text \<open>Typing with Option is never a gesture: when the HID system saw a key-down while Option was down,
its release emits no Option toggle and no blocked-tap notice, even if the key event itself never
reached the tap.\<close>

theorem typing_with_option_never_toggles:
  assumes "option_down_ts d = Some down" and "last_hid_key_down d = Some at" and "down \<le> at" and "at \<le> now"
    and "\<not> m_option m" and "dictation (mode_bindings c) \<noteq> DoubleCtrl"
  shows "snd (feed (FlagsChanged now key m) c d) \<noteq> Some ToggleNormal
    \<and> snd (feed (FlagsChanged now key m) c d) \<noteq> Some ToggleAssistive
    \<and> (\<forall>g r. snd (feed (FlagsChanged now key m) c d) \<noteq> Some (DoubleTapBlocked g r))"
proof -
  obtain d3 em d4 tg where f: "fc_taps now key m c d3 = (d4, tg)"
    "handle_flags_changed now key m c d = (d4, option_or em tg)"
    "(d3, em) = (case fc_hold now m c (fc_fn_press now key m c (fc_wrong_arm m c d)) of
       (d2, held) \<Rightarrow> fc_fn_release now m c d2 held)"
    by (rule flags_changed_split)
  have d3: "option_down_ts d3 = Some down" "last_hid_key_down d3 = Some at"
    using phases_tap_clock [OF f(3)] assms(1,2) by simp_all
  have "fst (snd (fc_option_release now key m c d3)) = None"
    by (rule option_release_typed [OF d3 assms(3,4)])
  then have "tg = None"
    using f(1) assms(5,6) by (auto simp: fc_taps_def fc_option_tracked_def split: if_splits prod.splits)
  then have "snd (feed (FlagsChanged now key m) c d) = em" using f(2) by (simp add: feed_def)
  moreover have "hold_event e" if "em = Some e" for e
    by (rule hold_phases_frame(2) [OF f(3) that])
  ultimately show ?thesis by fastforce
qed

theorem typing_with_option_never_toggles_witness:
  "snd (feed (FlagsChanged (from_millis 100) LeftOption no_modifiers) tap_config
     (default_detector\<lparr>option_down := True, option_side := Some False, option_down_ts := Some 0,
        last_hid_key_down := Some 5, last_left_tap_ts := Some 0\<rparr>)) \<noteq> Some ToggleNormal"
  using typing_with_option_never_toggles
    [of "default_detector\<lparr>option_down := True, option_side := Some False, option_down_ts := Some 0,
        last_hid_key_down := Some 5, last_left_tap_ts := Some 0\<rparr>" 0 5 "from_millis 100" no_modifiers tap_config LeftOption]
  by (simp add: no_modifiers_def tap_config_def from_millis_def)

lemma taps_Fn_silent: "dictation (mode_bindings c) \<noteq> DoubleCtrl \<Longrightarrow> snd (fc_taps now Fn m c d) = None"
  by (simp add: fc_taps_def fc_option_tracked_def fc_option_release_def Let_def split: prod.split)

lemma only_fn_fn_only [simp]: "only_fn fn_only" "\<not> only_fn no_modifiers" "m_fn_key fn_only" "\<not> m_fn_key no_modifiers"
  by (simp_all add: only_fn_def fn_only_def no_modifiers_def)

lemma flags_Fn:
  assumes "dictation (mode_bindings c) = HoldFn"
    and "fc_hold now m c (fc_fn_press now Fn m c (fc_wrong_arm m c d)) = (d2, held)"
    and "fc_fn_release now m c d2 held = (d3, em)"
  shows "snd (feed (FlagsChanged now Fn m) c d) = em"
    "hold_core (fst (feed (FlagsChanged now Fn m) c d)) = hold_core d3"
  using assms taps_Fn_silent [of c now m d3] taps_frame [of now Fn m c d3]
  by (cases "fc_taps now Fn m c d3"; simp add: feed_def handle_flags_changed_def Let_def)+

lemma hold_core_fields:
  "hold_core d = hold_core d' \<Longrightarrow> hold_active d = hold_active d' \<and> hold_mode d = hold_mode d'
     \<and> hold_event_sent d = hold_event_sent d' \<and> fn_press_pending d = fn_press_pending d'
     \<and> fn_press_started d = fn_press_started d' \<and> hold_up_owed d = hold_up_owed d'"
  by (simp add: hold_core_def)

lemma fn_combo: "check_hold_combo fn_only HoldFn" "\<not> check_hold_combo no_modifiers HoldFn"
  by (simp_all add: check_hold_combo_def fn_only_def no_modifiers_def)

lemma press_Fn:
  assumes "dictation (mode_bindings c) = HoldFn" and "fn_tap_toggles_dictation c" and "settled d"
  shows "snd (feed (FlagsChanged t Fn fn_only) c d) = None"
    "fn_pressed t (fst (feed (FlagsChanged t Fn fn_only) c d))"
proof -
  let ?d1 = "(fc_wrong_arm fn_only c d)\<lparr>fn_press_pending := True, fn_press_started := Some t\<rparr>"
  have w: "hold_active (fc_wrong_arm fn_only c d) = hold_active d"
    "fn_press_pending (fc_wrong_arm fn_only c d) = fn_press_pending d"
    "hold_up_owed (fc_wrong_arm fn_only c d) = hold_up_owed d"
    by (simp_all add: fc_wrong_arm_def Let_def)
  have p: "fc_fn_press t Fn fn_only c (fc_wrong_arm fn_only c d) = ?d1"
    using assms w by (simp add: fc_fn_press_def settled_def)
  have h: "fc_hold t fn_only c ?d1 = (?d1, None)"
    using assms w by (simp add: fc_hold_def settled_def Let_def)
  have r: "fc_fn_release t fn_only c ?d1 None = (?d1, None)" by (simp add: fc_fn_release_def)
  note f = flags_Fn [OF assms(1), of t fn_only d, unfolded p, OF h r]
  show "snd (feed (FlagsChanged t Fn fn_only) c d) = None" by (rule f(1))
  show "fn_pressed t (fst (feed (FlagsChanged t Fn fn_only) c d))"
    using hold_core_fields [OF f(2)] w assms(3) by (simp add: fn_pressed_def settled_def)
qed

text \<open>The release of a pending Fn press, tap or late hold.\<close>

lemma release_Fn_pending:
  fixes t' :: instant
  assumes "dictation (mode_bindings c) = HoldFn" and "fn_tap_toggles_dictation c" and "fn_pressed t d"
  defines "r \<equiv> feed (FlagsChanged t' Fn no_modifiers) c d"
  shows "elapsed_between t' t < from_millis (hold_start_delay_ms c) \<Longrightarrow> snd r = Some ToggleRaw \<and> settled (fst r)"
    "\<not> elapsed_between t' t < from_millis (hold_start_delay_ms c) \<Longrightarrow>
       snd r = Some (Hold Down Raw) \<and> hold_up_owed (fst r) \<and> \<not> fn_press_pending (fst r) \<and> hold_mode (fst r) = Raw"
proof -
  let ?d1 = "fc_wrong_arm no_modifiers c d"
  have w: "hold_active ?d1 = hold_active d" "fn_press_pending ?d1 = fn_press_pending d"
    "fn_press_started ?d1 = fn_press_started d" "hold_up_owed ?d1 = hold_up_owed d"
    by (simp_all add: fc_wrong_arm_def Let_def)
  have p: "fc_fn_press t' Fn no_modifiers c ?d1 = ?d1" by (simp add: fc_fn_press_def)
  have h: "fc_hold t' no_modifiers c ?d1 = (?d1, None)"
    using assms(1,3) w by (simp add: fc_hold_def fn_pressed_def fn_combo Let_def)
  obtain d3 em where e: "fc_fn_release t' no_modifiers c ?d1 None = (d3, em)" by fastforce
  note f = flags_Fn [OF assms(1), of t' no_modifiers d, unfolded p, OF h e, folded r_def]
  show "snd r = Some ToggleRaw \<and> settled (fst r)" if "elapsed_between t' t < from_millis (hold_start_delay_ms c)"
    using that e f(1) hold_core_fields [OF f(2)] w assms(1-3)
    by (auto simp: fc_fn_release_def fn_pressed_def settled_def)
  show "snd r = Some (Hold Down Raw) \<and> hold_up_owed (fst r) \<and> \<not> fn_press_pending (fst r) \<and> hold_mode (fst r) = Raw"
    if "\<not> elapsed_between t' t < from_millis (hold_start_delay_ms c)"
    using that e f(1) hold_core_fields [OF f(2)] w assms(1-3)
    by (auto simp: fc_fn_release_def fn_pressed_def)
qed

lemma release_Fn_held:
  fixes t' :: instant
  assumes "dictation (mode_bindings c) = HoldFn" and "hold_active d" and "\<not> fn_press_pending d"
    and "hold_event_sent d" and "hold_mode d = Raw" and "\<not> hold_up_owed d"
  defines "r \<equiv> feed (FlagsChanged t' Fn no_modifiers) c d"
  shows "snd r = Some (Hold Up Raw) \<and> settled (fst r)"
proof -
  let ?d1 = "fc_wrong_arm no_modifiers c d"
  have w: "hold_active ?d1 = hold_active d" "fn_press_pending ?d1 = fn_press_pending d"
    "hold_event_sent ?d1 = hold_event_sent d" "hold_mode ?d1 = hold_mode d" "hold_up_owed ?d1 = hold_up_owed d"
    by (simp_all add: fc_wrong_arm_def Let_def)
  have p: "fc_fn_press t' Fn no_modifiers c ?d1 = ?d1" by (simp add: fc_fn_press_def)
  obtain d2 held where h: "fc_hold t' no_modifiers c ?d1 = (d2, held)" by fastforce
  then have h': "held = Some (Hold Up Raw)" "\<not> hold_active d2" "\<not> fn_press_pending d2" "\<not> hold_up_owed d2"
    using assms(1-6) w by (auto simp: fc_hold_def fn_combo Let_def split: if_splits)
  have e: "fc_fn_release t' no_modifiers c d2 held = (d2, held)" using h'(3) by (simp add: fc_fn_release_def)
  note f = flags_Fn [OF assms(1), of t' no_modifiers d, unfolded p, OF h e, folded r_def]
  show ?thesis using f(1) hold_core_fields [OF f(2)] h' by (simp add: settled_def)
qed

lemma poll_settled: "settled d \<Longrightarrow> \<not> middle_mouse_agent_gesture c \<Longrightarrow> poll p c d = (d, None)"
  by (simp add: poll_def poll_fn_def settled_def split: option.split)

lemma poll_owed: "hold_up_owed d \<Longrightarrow> hold_mode d = Raw \<Longrightarrow> snd (poll p c d) = Some (Hold Up Raw)"
  by (simp add: poll_def)

lemma poll_pressed:
  assumes "fn_pressed t d" and "\<not> middle_mouse_agent_gesture c" and "dictation (mode_bindings c) = HoldFn"
    and "fn_tap_toggles_dictation c"
  shows "elapsed_between p t < from_millis (hold_start_delay_ms c) \<Longrightarrow> poll p c d = (d, None)"
    "\<not> elapsed_between p t < from_millis (hold_start_delay_ms c) \<Longrightarrow>
       snd (poll p c d) = Some (Hold Down Raw) \<and> hold_active (fst (poll p c d)) \<and> \<not> fn_press_pending (fst (poll p c d))
       \<and> hold_event_sent (fst (poll p c d)) \<and> hold_mode (fst (poll p c d)) = Raw \<and> \<not> hold_up_owed (fst (poll p c d))"
  using assms by (auto simp: poll_def poll_fn_def fn_pressed_def Let_def split: option.split)

text \<open>How a press of Fn resolves, with Fn bound to dictation and the Fn tap on: a release before the
hold delay is exactly one toggle; a later release is exactly one hold start and one hold end, whether
or not the timer ran in time to start the hold itself.\<close>

theorem fn_press_resolves:
  assumes "dictation (mode_bindings c) = HoldFn" and "fn_tap_toggles_dictation c"
    and "\<not> middle_mouse_agent_gesture c" and "settled d" and "t \<le> p" and "p \<le> t'"
  shows "events_of detector_step d
      [Feed (FlagsChanged t Fn fn_only) c, Poll p c, Feed (FlagsChanged t' Fn no_modifiers) c, Poll p' c]
    = (if t' - t < from_millis (hold_start_delay_ms c) then [ToggleRaw] else [Hold Down Raw, Hold Up Raw])"
proof -
  note press = press_Fn [OF assms(1,2,4), of t]
  let ?d = "fst (feed (FlagsChanged t Fn fn_only) c d)"
  have el: "elapsed_between p t = p - t" "elapsed_between t' t = t' - t"
    using assms(5,6) by (simp_all add: elapsed_between_def checked_duration_since_def)
  note poll1 = poll_pressed [OF press(2) assms(3,1,2), of p, unfolded el]
  show ?thesis
  proof (cases "p - t < from_millis (hold_start_delay_ms c)")
    case True
    note poll1(1) [OF True, simp]
    note rel = release_Fn_pending [OF assms(1,2) press(2), of t', unfolded el]
    show ?thesis
    proof (cases "t' - t < from_millis (hold_start_delay_ms c)")
      case True
      with rel(1) poll_settled [OF _ assms(3)] press(1) show ?thesis by simp
    next
      case False
      with rel(2) poll_owed press(1) show ?thesis by simp
    qed
  next
    case False
    then have late: "\<not> t' - t < from_millis (hold_start_delay_ms c)" using assms(5,6) by linarith
    from poll1(2) [OF False] release_Fn_held [OF assms(1), of "fst (poll p c ?d)" t'] poll_settled [OF _ assms(3)] press(1) late
    show ?thesis by simp
  qed
qed

theorem fn_press_resolves_witness:
  "events_of detector_step default_detector
      [Feed (FlagsChanged 0 Fn fn_only) tap_config, Poll (from_millis 10) tap_config,
       Feed (FlagsChanged (from_millis 900) Fn no_modifiers) tap_config, Poll (from_millis 910) tap_config]
    = [Hold Down Raw, Hold Up Raw]"
  using fn_press_resolves [of tap_config default_detector 0 "from_millis 10" "from_millis 900" "from_millis 910"]
  by (simp add: tap_config_def settled_def default_detector_def from_millis_def)

lemmas detector_eval = feed_def handle_flags_changed_def fc_wrong_arm_def fc_fn_press_def fc_hold_def fc_fn_release_def
  fc_taps_def fc_option_tracked_def fc_clear_used_def poll_def poll_fn_def handle_agent_middle_button_def begin_middle_hold_def
  middle_button_dictates_def elapsed_between_def checked_duration_since_def from_millis_def check_hold_combo_def
  hold_base_pressed_def arm_modifier_is_down_def default_detector_def tap_config_def no_modifiers_def fn_only_def only_fn_def

text \<open>A limit of the detector: when the release owes a hold end to the timer and another modifier
changes before the timer runs, the hold end is emitted twice.\<close>

theorem owed_release_repeats:
  "events_of detector_step default_detector
      [Feed (FlagsChanged 0 Fn fn_only) tap_config,
       Feed (FlagsChanged (from_millis 900) Fn no_modifiers) tap_config,
       Feed (FlagsChanged (from_millis 901) Other (no_modifiers\<lparr>m_shift := True\<rparr>)) tap_config,
       Poll (from_millis 910) tap_config]
    = [Hold Down Raw, Hold Up Raw, Hold Up Raw]"
  by (simp add: detector_eval)

text \<open>A second limit: with the agent gesture on, holding the middle button and Fn together starts two
holds with no end between them, because promoting the Fn press does not check for a running hold.\<close>

theorem middle_and_fn_start_twice:
  "events_of detector_step default_detector
      [Feed (MiddleButton 0 True no_modifiers) (tap_config\<lparr>middle_mouse_agent_gesture := True\<rparr>),
       Feed (FlagsChanged (from_millis 50) Fn fn_only) (tap_config\<lparr>middle_mouse_agent_gesture := True\<rparr>),
       Poll (from_millis 800) (tap_config\<lparr>middle_mouse_agent_gesture := True\<rparr>),
       Poll (from_millis 850) (tap_config\<lparr>middle_mouse_agent_gesture := True\<rparr>)]
    = [Hold Down Raw, Hold Down Raw]"
  by (simp add: detector_eval)

end
