(* ===== verification/Rust_Text.thy ===== *)
theory Rust_Text
  imports CS_Prelude
begin

section \<open>Text and JSON values\<close>

text \<open>
  The operations of \<open>str\<close> the agent runtime calls, on the scalar lists of the prelude, and the shape
  of a \<open>serde_json::Value\<close>. An object is its list of fields in iteration order; the map type of
  \<open>serde_json\<close> keeps the keys distinct, which \<open>json_wf\<close> says. The library's parser and printer
  are not defined here: the components that call them take them as arguments.
\<close>

subsection \<open>Searching and cutting\<close>

definition starts_with :: "rstr \<Rightarrow> rstr \<Rightarrow> bool" where
  "starts_with p s \<longleftrightarrow> take (length p) s = p"

definition ends_with :: "rstr \<Rightarrow> rstr \<Rightarrow> bool" where
  "ends_with p s \<longleftrightarrow> starts_with (rev p) (rev s)"

definition strip_prefix :: "rstr \<Rightarrow> rstr \<Rightarrow> rstr option" where
  "strip_prefix p s = (if starts_with p s then Some (drop (length p) s) else None)"

text \<open>\<open>str::lines\<close>: the final line ending is optional; a carriage return goes with its line feed only.\<close>

definition lines :: "rstr \<Rightarrow> rstr list" where
  "lines s =
     (let ps = split_on 10 s
      in map (\<lambda>l. if ends_with [13] l then butlast l else l) (butlast ps) @ (if last ps = [] then [] else [last ps]))"

fun contains :: "rstr \<Rightarrow> rstr \<Rightarrow> bool" where
  "contains p [] \<longleftrightarrow> p = []"
| "contains p (c # cs) \<longleftrightarrow> starts_with p (c # cs) \<or> contains p cs"

definition trim_start :: "rstr \<Rightarrow> rstr" where
  "trim_start s = dropWhile is_whitespace s"

definition trim_end_matches :: "(nat \<Rightarrow> bool) \<Rightarrow> rstr \<Rightarrow> rstr" where
  "trim_end_matches P s = rev (dropWhile P (rev s))"

definition trim_matches :: "(nat \<Rightarrow> bool) \<Rightarrow> rstr \<Rightarrow> rstr" where
  "trim_matches P s = trim_end_matches P (dropWhile P s)"

definition split_once :: "nat \<Rightarrow> rstr \<Rightarrow> (rstr \<times> rstr) option" where
  "split_once d s =
     (case dropWhile (\<lambda>c. c \<noteq> d) s of [] \<Rightarrow> None | _ # r \<Rightarrow> Some (takeWhile (\<lambda>c. c \<noteq> d) s, r))"

definition eq_ignore_ascii_case :: "rstr \<Rightarrow> rstr \<Rightarrow> bool" where
  "eq_ignore_ascii_case a b \<longleftrightarrow> to_ascii_lowercase a = to_ascii_lowercase b"

definition is_ascii_alphanumeric :: "nat \<Rightarrow> bool" where
  "is_ascii_alphanumeric c \<longleftrightarrow> (48 \<le> c \<and> c \<le> 57) \<or> (65 \<le> c \<and> c \<le> 90) \<or> (97 \<le> c \<and> c \<le> 122)"

text \<open>Decimal rendering of an unsigned number, as \<open>format!\<close> writes it.\<close>

fun show_nat :: "nat \<Rightarrow> rstr" where
  "show_nat n = (if n < 10 then [48 + n] else show_nat (n div 10) @ [48 + n mod 10])"

declare show_nat.simps [simp del]

text \<open>\<open>str::parse::<usize>\<close>: an optional plus sign, then decimal digits, within 64 bits.\<close>

fun digits_value :: "nat \<Rightarrow> rstr \<Rightarrow> nat option" where
  "digits_value acc [] = Some acc"
| "digits_value acc (c # cs) = (if 48 \<le> c \<and> c \<le> 57 then digits_value (10 * acc + (c - 48)) cs else None)"

definition parse_usize :: "rstr \<Rightarrow> nat option" where
  "parse_usize s =
     (let body = (case s of c # cs \<Rightarrow> if c = 43 then cs else s | [] \<Rightarrow> [])
      in if body = [] then None
         else case digits_value 0 body of
           Some n \<Rightarrow> if n \<le> u64_max then Some n else None
         | None \<Rightarrow> None)"

lemma digits_value_append:
  "digits_value acc (xs @ ys) = (case digits_value acc xs of None \<Rightarrow> None | Some n \<Rightarrow> digits_value n ys)"
  by (induction xs arbitrary: acc) auto

lemma digits_value_show [simp]: "digits_value 0 (show_nat n) = Some n"
  by (induction n rule: show_nat.induct) (subst show_nat.simps, auto simp: digits_value_append)

lemma show_nat_digits: "set (show_nat n) \<subseteq> {48..57}"
proof (induction n rule: show_nat.induct)
  case (1 n)
  have "n mod 10 < 10" by simp
  then have "48 + n mod 10 \<le> 57" by linarith
  with 1 show ?case by (subst show_nat.simps) auto
qed

lemma show_nat_not_Nil [simp]: "show_nat n \<noteq> []"
  by (subst show_nat.simps) simp

text \<open>Printing and parsing: a number that fits is read back.\<close>

lemma parse_usize_show: "n \<le> u64_max \<Longrightarrow> parse_usize (show_nat n) = Some n"
proof -
  assume "n \<le> u64_max"
  moreover obtain c cs where s: "show_nat n = c # cs" by (cases "show_nat n") auto
  moreover have "c \<noteq> 43" using show_nat_digits [of n] by (auto simp: s)
  ultimately show ?thesis using digits_value_show [of n] by (simp add: parse_usize_def)
qed

text \<open>\<open>str::split_whitespace\<close>: the maximal runs of characters that are not white space.\<close>

lemma shorter_after_word:
  assumes "dropWhile is_whitespace s = c # cs"
  shows "length (dropWhile (\<lambda>c. \<not> is_whitespace c) (c # cs)) < length s"
proof -
  have "\<not> is_whitespace c" using assms by (metis hd_dropWhile list.distinct(1) list.sel(1))
  then have "length (dropWhile (\<lambda>c. \<not> is_whitespace c) (c # cs)) \<le> length cs"
    by (simp add: length_dropWhile_le)
  also have "\<dots> < length (dropWhile is_whitespace s)" using assms by simp
  also have "\<dots> \<le> length s" by (rule length_dropWhile_le)
  finally show ?thesis .
qed

function split_whitespace :: "rstr \<Rightarrow> rstr list" where
  "split_whitespace s =
     (case dropWhile is_whitespace s of
        [] \<Rightarrow> []
      | c # cs \<Rightarrow> takeWhile (\<lambda>c. \<not> is_whitespace c) (c # cs)
                  # split_whitespace (dropWhile (\<lambda>c. \<not> is_whitespace c) (c # cs)))"
  by pat_completeness auto
termination
  by (relation "measure length") (auto dest: shorter_after_word)

declare split_whitespace.simps [simp del]

lemma starts_with_Nil [simp]: "starts_with [] s"
  by (simp add: starts_with_def)

lemma starts_with_Cons: "starts_with (p # ps) s \<longleftrightarrow> (\<exists>cs. s = p # cs \<and> starts_with ps cs)"
  by (cases s) (auto simp: starts_with_def)

lemma starts_with_Cons_simps [simp]:
  "\<not> starts_with (p # ps) []"
  "starts_with (p # ps) (c # cs) \<longleftrightarrow> p = c \<and> starts_with ps cs"
  by (auto simp: starts_with_Cons)

lemma ends_with_snoc [simp]: "ends_with [q] (s @ [c]) \<longleftrightarrow> q = c" "\<not> ends_with [q] []"
  by (auto simp: ends_with_def)

lemma starts_with_iff: "starts_with p s \<longleftrightarrow> (\<exists>r. s = p @ r)"
  by (auto simp: starts_with_def) (metis append_take_drop_id)

lemma contains_iff: "contains p s \<longleftrightarrow> (\<exists>a r. s = a @ p @ r)"
proof (induction s)
  case (Cons c cs)
  show ?case
  proof
    assume "contains p (c # cs)"
    then consider "starts_with p (c # cs)" | "contains p cs" by auto
    then show "\<exists>a r. c # cs = a @ p @ r"
    proof cases
      case 1
      then show ?thesis by (auto simp: starts_with_iff intro: exI [of _ "[]"])
    next
      case 2
      with Cons.IH obtain a r where "cs = a @ p @ r" by blast
      then show ?thesis by (intro exI [of _ "c # a"] exI [of _ r]) simp
    qed
  next
    assume "\<exists>a r. c # cs = a @ p @ r"
    then obtain a r where ar: "c # cs = a @ p @ r" by blast
    show "contains p (c # cs)"
    proof (cases a)
      case Nil
      with ar have "starts_with p (c # cs)" by (auto simp: starts_with_iff)
      then show ?thesis by simp
    next
      case (Cons x xs)
      with ar have "cs = xs @ p @ r" by simp
      with Cons.IH show ?thesis by auto
    qed
  qed
qed simp

lemma split_once_Some_iff: "split_once d s = Some (a, b) \<longleftrightarrow> s = a @ d # b \<and> d \<notin> set a"
proof
  assume "split_once d s = Some (a, b)"
  then obtain x where x: "dropWhile (\<lambda>c. c \<noteq> d) s = x # b" and a: "a = takeWhile (\<lambda>c. c \<noteq> d) s"
    by (auto simp: split_once_def split: list.splits)
  have "x = d" using x by (metis (mono_tags, lifting) hd_dropWhile list.distinct(1) list.sel(1))
  then show "s = a @ d # b \<and> d \<notin> set a"
    using x a takeWhile_dropWhile_id [of "\<lambda>c. c \<noteq> d" s] by (auto dest: set_takeWhileD)
next
  assume "s = a @ d # b \<and> d \<notin> set a"
  moreover from this have "dropWhile (\<lambda>c. c \<noteq> d) s = d # b" "takeWhile (\<lambda>c. c \<noteq> d) s = a"
    by (auto simp: dropWhile_append takeWhile_append)
  ultimately show "split_once d s = Some (a, b)" by (simp add: split_once_def)
qed

lemma split_once_None_iff: "split_once d s = None \<longleftrightarrow> d \<notin> set s"
proof -
  have "split_once d s = None \<longleftrightarrow> dropWhile (\<lambda>c. c \<noteq> d) s = []"
    by (cases "dropWhile (\<lambda>c. c \<noteq> d) s") (simp_all add: split_once_def del: dropWhile_eq_Nil_conv)
  then show ?thesis by (simp only: dropWhile_eq_Nil_conv) blast
qed

lemma set_trim_end_matches: "set (trim_end_matches P s) \<subseteq> set s"
  unfolding trim_end_matches_def by (metis set_dropWhileD set_rev subsetI)

lemma set_trim_matches: "set (trim_matches P s) \<subseteq> set s"
  unfolding trim_matches_def using set_trim_end_matches [of P "dropWhile P s"]
  by (meson set_dropWhileD subset_iff)

subsection \<open>Bytes\<close>

text \<open>The text a byte slice \<open>&s[..n]\<close> keeps, for an \<open>n\<close> on a character boundary.\<close>

fun byte_prefix :: "nat \<Rightarrow> rstr \<Rightarrow> rstr" where
  "byte_prefix n [] = []"
| "byte_prefix n (c # cs) =
     (if utf8_width c \<le> n then c # byte_prefix (n - utf8_width c) cs else [])"

fun is_char_boundary :: "rstr \<Rightarrow> nat \<Rightarrow> bool" where
  "is_char_boundary [] n \<longleftrightarrow> n = 0"
| "is_char_boundary (c # cs) n \<longleftrightarrow> n = 0 \<or> utf8_width c \<le> n \<and> is_char_boundary cs (n - utf8_width c)"

lemma utf8_len_simps [simp]:
  "utf8_len [] = 0" "utf8_len (c # cs) = utf8_width c + utf8_len cs"
  "utf8_len (s @ t) = utf8_len s + utf8_len t"
  by (simp_all add: utf8_len_def)

lemma utf8_width_bounds: "1 \<le> utf8_width c" "utf8_width c \<le> 4"
  by (simp_all add: utf8_width_def)

lemma utf8_width_pos [simp]: "0 < utf8_width c"
  by (simp add: utf8_width_def)

lemma is_char_boundary_0 [simp]: "is_char_boundary s 0"
  by (cases s) simp_all

lemma byte_prefix_boundary: "is_char_boundary s n \<Longrightarrow> utf8_len (byte_prefix n s) = n"
proof (induction s arbitrary: n)
  case (Cons c cs)
  then show ?case using utf8_width_pos [of c] by auto
qed simp

lemma byte_prefix_prefix: "\<exists>r. s = byte_prefix n s @ r"
  by (induction s arbitrary: n) auto

text \<open>A boundary is never more than three bytes away.\<close>

lemma boundary_near: "n \<le> utf8_len s \<Longrightarrow> \<exists>k \<le> 3. k \<le> n \<and> is_char_boundary s (n - k)"
proof (induction s arbitrary: n)
  case (Cons c cs)
  show ?case
  proof (cases "utf8_width c \<le> n")
    case True
    with Cons.prems have "n - utf8_width c \<le> utf8_len cs" by simp
    from Cons.IH [OF this] obtain k where
      k: "k \<le> 3" "k \<le> n - utf8_width c" "is_char_boundary cs (n - utf8_width c - k)" by blast
    then have "is_char_boundary (c # cs) (n - k)"
      using True by (simp add: add.commute) linarith
    with k True show ?thesis by (intro exI [of _ k]) simp
  next
    case False
    then have "n \<le> 3" using utf8_width_bounds(2) [of c] by simp
    then show ?thesis by (intro exI [of _ n]) simp
  qed
qed simp

subsection \<open>JSON values\<close>

text \<open>\<open>serde_json::Value\<close>; a number is kept as the text it prints as.\<close>

datatype json =
    JNull
  | JBool bool
  | JNumber rstr
  | JString rstr
  | JArray "json list"
  | JObject "(rstr \<times> json) list"

text \<open>\<open>Map::insert\<close> on a present key keeps its place; the place of a new key is of no consequence
  to the code modelled here.\<close>

fun json_insert :: "rstr \<Rightarrow> json \<Rightarrow> (rstr \<times> json) list \<Rightarrow> (rstr \<times> json) list" where
  "json_insert k v [] = [(k, v)]"
| "json_insert k v ((k', v') # fs) = (if k = k' then (k, v) # fs else (k', v') # json_insert k v fs)"

definition as_str :: "json \<Rightarrow> rstr option" where
  "as_str v = (case v of JString s \<Rightarrow> Some s | _ \<Rightarrow> None)"

definition json_get :: "json \<Rightarrow> rstr \<Rightarrow> json option" where
  "json_get v k = (case v of JObject fs \<Rightarrow> map_of fs k | _ \<Rightarrow> None)"

definition as_u64 :: "json \<Rightarrow> nat option" where
  "as_u64 v =
     (case v of
        JNumber text \<Rightarrow>
          (case (if text = [] then None else digits_value 0 text) of
             Some n \<Rightarrow> if n \<le> u64_max then Some n else None | None \<Rightarrow> None)
      | _ \<Rightarrow> None)"

definition as_bool :: "json \<Rightarrow> bool option" where
  "as_bool v = (case v of JBool b \<Rightarrow> Some b | _ \<Rightarrow> None)"

definition get_str :: "json \<Rightarrow> rstr \<Rightarrow> rstr option" where
  "get_str input k = Option.bind (json_get input k) as_str"

lemma map_of_json_insert: "map_of (json_insert k v fs) k' = (if k' = k then Some v else map_of fs k')"
  by (induction k v fs rule: json_insert.induct) auto

subsection \<open>Ordered maps\<close>

text \<open>A \<open>BTreeMap<String, _>\<close> is its list of entries in key order. Strings are compared by scalar
  values, which is the byte order of their encodings.\<close>

fun str_less :: "rstr \<Rightarrow> rstr \<Rightarrow> bool" where
  "str_less _ [] \<longleftrightarrow> False"
| "str_less [] (_ # _) \<longleftrightarrow> True"
| "str_less (a # s) (b # t) \<longleftrightarrow> a < b \<or> a = b \<and> str_less s t"

type_synonym 'v btree = "(rstr \<times> 'v) list"

fun bt_insert :: "rstr \<Rightarrow> 'v \<Rightarrow> 'v btree \<Rightarrow> 'v btree" where
  "bt_insert k v [] = [(k, v)]"
| "bt_insert k v ((k', v') # m) =
     (if k = k' then (k, v) # m else if str_less k k' then (k, v) # (k', v') # m else (k', v') # bt_insert k v m)"

definition bt_remove :: "rstr \<Rightarrow> 'v btree \<Rightarrow> 'v btree" where
  "bt_remove k m = filter (\<lambda>(k', _). k' \<noteq> k) m"

text \<open>\<open>entry(k).or_insert(v)\<close>\<close>

definition bt_or_insert :: "rstr \<Rightarrow> 'v \<Rightarrow> 'v btree \<Rightarrow> 'v btree" where
  "bt_or_insert k v m = (if map_of m k = None then bt_insert k v m else m)"

lemma str_less_irrefl [simp]: "\<not> str_less s s"
  by (induction s) auto

lemma str_less_trans: "str_less a b \<Longrightarrow> str_less b c \<Longrightarrow> str_less a c"
proof (induction a b arbitrary: c rule: str_less.induct)
  case (3 a s b t)
  then show ?case by (cases c) auto
qed (auto elim: str_less.elims)

lemma str_less_linear: "a \<noteq> b \<Longrightarrow> str_less a b \<or> str_less b a"
  by (induction a b rule: str_less.induct) (auto elim: str_less.elims simp: neq_Nil_conv)

definition bt_sorted :: "'v btree \<Rightarrow> bool" where
  "bt_sorted m = sorted_wrt str_less (map fst m)"

lemma map_of_bt_insert [simp]: "map_of (bt_insert k v m) k' = (if k' = k then Some v else map_of m k')"
  by (induction k v m rule: bt_insert.induct) auto

lemma keys_bt_insert: "set (map fst (bt_insert k v m)) = insert k (set (map fst m))"
  by (induction k v m rule: bt_insert.induct) auto

lemma bt_sorted_insert [simp]: "bt_sorted m \<Longrightarrow> bt_sorted (bt_insert k v m)"
proof (induction k v m rule: bt_insert.induct)
  case (2 k v k' v' m)
  then show ?case
    using keys_bt_insert [of k v m] str_less_linear [of k k']
    by (auto simp: bt_sorted_def image_iff intro: str_less_trans)
qed (simp add: bt_sorted_def)

lemma map_of_bt_remove [simp]: "map_of (bt_remove k m) k' = (if k' = k then None else map_of m k')"
  by (induction m) (auto simp: bt_remove_def)

lemma bt_sorted_remove [simp]: "bt_sorted m \<Longrightarrow> bt_sorted (bt_remove k m)"
  by (induction m) (auto simp: bt_sorted_def bt_remove_def)

lemma bt_or_insert_simps [simp]:
  "bt_sorted m \<Longrightarrow> bt_sorted (bt_or_insert k v m)"
  "map_of (bt_or_insert k v m) k' = (if k' = k then Some (unwrap_or v (map_of m k)) else map_of m k')"
  by (auto simp: bt_or_insert_def)

lemma bt_sorted_Nil [simp]: "bt_sorted []"
  by (simp add: bt_sorted_def)

end
