(* ===== verification/Tool_Permissions.thy ===== *)
theory Tool_Permissions
  imports Rust_Text
begin

section \<open>The tool permission policy\<close>

text \<open>
  \<open>core/agent/permissions.rs\<close> (levels, the durable policy and its resolution), \<open>core/agent/tool_grants.rs\<close>
  (the legacy always-allow file), \<open>core/agent/secret_paths.rs\<close> and the name rule of
  \<open>core/mcp/config_store.rs\<close>.

  The two files the policy lives in are one record, \<open>agent_disk\<close>: the permissions section of
  \<open>settings.json\<close>, the grants file (missing, unreadable, unparsable or parsed), and whether a write to
  either succeeds. Every setter is a function on the disk that returns the new disk and a result, so a
  failed write and the ignored results of the source are visible.
\<close>

subsection \<open>Risk, origin and levels\<close>

datatype tool_risk = ReadOnly | Mutating | ProcessControl | Network | Destructive | UnknownRisk

datatype tool_origin = Native | Mcp (mcp_server: rstr) (upstream_tool: rstr)

datatype permission_level = Allow | Ask | Deny

datatype permission_source = ThreadRule | ToolRule | ServerRule | DefaultRule

definition level_as_str :: "permission_level \<Rightarrow> rstr" where
  "level_as_str l = (case l of Allow \<Rightarrow> lit ''allow'' | Ask \<Rightarrow> lit ''ask'' | Deny \<Rightarrow> lit ''deny'')"

datatype perm_error =
    UnknownLevel rstr
  | EmptyIdentity
  | EmptyServer
  | SettingsSaveFailed
  | GrantsNotParsable
  | GrantsReadFailed
  | GrantsWriteFailed

definition parse_level :: "rstr \<Rightarrow> perm_error + permission_level" where
  "parse_level raw =
     (let other = to_ascii_lowercase (trim raw)
      in if other = lit ''allow'' then Inr Allow
         else if other = lit ''ask'' then Inr Ask
         else if other = lit ''deny'' then Inr Deny
         else Inl (UnknownLevel other))"

definition source_as_str :: "permission_source \<Rightarrow> rstr" where
  "source_as_str s = (case s of ThreadRule \<Rightarrow> lit ''thread'' | ToolRule \<Rightarrow> lit ''tool''
     | ServerRule \<Rightarrow> lit ''server'' | DefaultRule \<Rightarrow> lit ''default'')"

definition risk_as_str :: "tool_risk \<Rightarrow> rstr" where
  "risk_as_str r = (case r of ReadOnly \<Rightarrow> lit ''read_only'' | Mutating \<Rightarrow> lit ''mutating''
     | ProcessControl \<Rightarrow> lit ''process_control'' | Network \<Rightarrow> lit ''network''
     | Destructive \<Rightarrow> lit ''destructive'' | UnknownRisk \<Rightarrow> lit ''unknown'')"

subsection \<open>The policy\<close>

record agent_permissions =
  default_level :: permission_level
  read_only_default :: permission_level
  side_effect_default :: permission_level
  tools :: "permission_level btree"
  servers :: "permission_level btree"

definition default_permissions :: agent_permissions where
  "default_permissions = \<lparr>default_level = Ask, read_only_default = Allow, side_effect_default = Ask,
     tools = [], servers = []\<rparr>"

definition with_legacy_grants :: "rstr list \<Rightarrow> agent_permissions \<Rightarrow> agent_permissions" where
  "with_legacy_grants granted p =
     p\<lparr>tools := fold (\<lambda>key m. bt_or_insert key Allow m) granted (tools p)\<rparr>"

definition server_level :: "agent_permissions \<Rightarrow> rstr \<Rightarrow> permission_level option" where
  "server_level p server =
     option_or (map_of (servers p) (to_ascii_lowercase server))
       (map_option snd (List.find (\<lambda>(name, _). eq_ignore_ascii_case name server) (servers p)))"

definition resolve_with_source ::
  "agent_permissions \<Rightarrow> rstr \<Rightarrow> rstr option \<Rightarrow> tool_risk \<Rightarrow> permission_level option
     \<Rightarrow> permission_level \<times> permission_source" where
  "resolve_with_source p identity server risk thread_override =
     (case thread_override of
        Some level \<Rightarrow> (level, ThreadRule)
      | None \<Rightarrow>
          (case map_of (tools p) identity of
             Some level \<Rightarrow> (level, ToolRule)
           | None \<Rightarrow>
               (case (case server of None \<Rightarrow> None | Some s \<Rightarrow> server_level p s) of
                  Some level \<Rightarrow>
                    (if level = Allow \<and> risk = UnknownRisk then Ask else level, ServerRule)
                | None \<Rightarrow>
                    ((case risk of
                        ReadOnly \<Rightarrow> read_only_default p
                      | Destructive \<Rightarrow> Deny
                      | Mutating \<Rightarrow> side_effect_default p
                      | ProcessControl \<Rightarrow> side_effect_default p
                      | Network \<Rightarrow> side_effect_default p
                      | UnknownRisk \<Rightarrow> default_level p), DefaultRule))))"

definition resolve_level ::
  "agent_permissions \<Rightarrow> rstr \<Rightarrow> rstr option \<Rightarrow> tool_risk \<Rightarrow> permission_level option \<Rightarrow> permission_level" where
  "resolve_level p identity server risk thread_override =
     fst (resolve_with_source p identity server risk thread_override)"

definition grant_key :: "rstr \<Rightarrow> rstr \<Rightarrow> rstr" where
  "grant_key server tool = to_ascii_lowercase server @ lit '':'' @ tool"

definition tool_identity :: "tool_origin \<Rightarrow> rstr \<Rightarrow> rstr" where
  "tool_identity origin tool_name =
     (case origin of Mcp server upstream \<Rightarrow> grant_key server upstream
      | Native \<Rightarrow> lit ''native:'' @ tool_name)"

definition origin_server :: "tool_origin \<Rightarrow> rstr option" where
  "origin_server origin = (case origin of Mcp server _ \<Rightarrow> Some server | Native \<Rightarrow> None)"

definition resolve_for_origin_with_source ::
  "agent_permissions \<Rightarrow> rstr \<Rightarrow> tool_origin \<Rightarrow> tool_risk \<Rightarrow> (rstr \<rightharpoonup> permission_level)
     \<Rightarrow> permission_level \<times> permission_source" where
  "resolve_for_origin_with_source p tool_name origin risk thread_overrides =
     (let identity = tool_identity origin tool_name
      in resolve_with_source p identity (origin_server origin) risk (thread_overrides identity))"

definition resolve_for_origin ::
  "agent_permissions \<Rightarrow> rstr \<Rightarrow> tool_origin \<Rightarrow> tool_risk \<Rightarrow> (rstr \<rightharpoonup> permission_level) \<Rightarrow> permission_level" where
  "resolve_for_origin p tool_name origin risk thread_overrides =
     fst (resolve_for_origin_with_source p tool_name origin risk thread_overrides)"

subsection \<open>The files\<close>

record grant_entry =
  granted_at :: rstr

record grants_file =
  file_version :: u32
  always_allow :: "grant_entry btree"

datatype grants_disk = GrantsMissing | GrantsUnreadable | GrantsUnparsable | GrantsParsed grants_file

record agent_disk =
  settings_permissions :: "agent_permissions option"
  settings_writable :: bool
  grants_on_disk :: grants_disk
  grants_writable :: bool

definition default_grants_file :: grants_file where
  "default_grants_file = \<lparr>file_version = 1, always_allow = []\<rparr>"

definition load_granted :: "agent_disk \<Rightarrow> rstr list" where
  "load_granted d = (case grants_on_disk d of GrantsParsed f \<Rightarrow> map fst (always_allow f) | _ \<Rightarrow> [])"

definition read_for_mutation :: "agent_disk \<Rightarrow> perm_error + grants_file" where
  "read_for_mutation d =
     (case grants_on_disk d of
        GrantsParsed f \<Rightarrow> Inr f
      | GrantsUnparsable \<Rightarrow> Inl GrantsNotParsable
      | GrantsMissing \<Rightarrow> Inr default_grants_file
      | GrantsUnreadable \<Rightarrow> Inl GrantsReadFailed)"

text \<open>The rename is atomic: a failed write leaves the previous file.\<close>

definition write_atomic :: "grants_file \<Rightarrow> agent_disk \<Rightarrow> agent_disk \<times> (perm_error + unit)" where
  "write_atomic f d =
     (if grants_writable d then (d\<lparr>grants_on_disk := GrantsParsed f\<rparr>, Inr ()) else (d, Inl GrantsWriteFailed))"

definition grant :: "rstr \<Rightarrow> rstr \<Rightarrow> rstr \<Rightarrow> agent_disk \<Rightarrow> agent_disk \<times> (perm_error + unit)" where
  "grant now server tool d =
     (case read_for_mutation d of
        Inl e \<Rightarrow> (d, Inl e)
      | Inr f \<Rightarrow> write_atomic (f\<lparr>always_allow := bt_insert (grant_key server tool) \<lparr>granted_at = now\<rparr> (always_allow f)\<rparr>) d)"

definition revoke :: "rstr \<Rightarrow> agent_disk \<Rightarrow> agent_disk \<times> (perm_error + unit)" where
  "revoke key d =
     (case read_for_mutation d of
        Inl e \<Rightarrow> (d, Inl e)
      | Inr f \<Rightarrow> write_atomic (f\<lparr>always_allow := bt_remove key (always_allow f)\<rparr>) d)"

definition list_grants :: "agent_disk \<Rightarrow> perm_error + (rstr \<times> rstr) list" where
  "list_grants d =
     (case read_for_mutation d of
        Inl e \<Rightarrow> Inl e
      | Inr f \<Rightarrow> Inr (map (\<lambda>(key, entry). (key, granted_at entry)) (always_allow f)))"

definition load_permissions :: "agent_disk \<Rightarrow> agent_permissions" where
  "load_permissions d = unwrap_or default_permissions (settings_permissions d)"

definition save_permissions :: "agent_permissions \<Rightarrow> agent_disk \<Rightarrow> agent_disk \<times> (perm_error + unit)" where
  "save_permissions p d =
     (if settings_writable d then (d\<lparr>settings_permissions := Some p\<rparr>, Inr ()) else (d, Inl SettingsSaveFailed))"

definition remember_allow :: "rstr \<Rightarrow> rstr \<Rightarrow> rstr \<Rightarrow> agent_disk \<Rightarrow> agent_disk \<times> (perm_error + unit)" where
  "remember_allow now server tool d =
     (let policy = load_permissions d;
          policy' = policy\<lparr>tools := bt_insert (grant_key server tool) Allow (tools policy)\<rparr>
      in case save_permissions policy' d of
           (d', Inl e) \<Rightarrow> (d', Inl e)
         | (d', Inr _) \<Rightarrow> grant now server tool d')"

definition set_tool_level :: "rstr \<Rightarrow> rstr \<Rightarrow> permission_level \<Rightarrow> agent_disk \<Rightarrow> agent_disk \<times> (perm_error + unit)" where
  "set_tool_level now identity0 level d =
     (let identity = trim identity0; policy = load_permissions d
      in if identity = [] then (d, Inl EmptyIdentity)
         else case save_permissions (policy\<lparr>tools := bt_insert identity level (tools policy)\<rparr>) d of
           (d', Inl e) \<Rightarrow> (d', Inl e)
         | (d', Inr _) \<Rightarrow>
             (case split_once 58 identity of
                Some (server, tool) \<Rightarrow>
                  if server \<noteq> lit ''native''
                  then (case level of
                          Allow \<Rightarrow> (fst (grant now server tool d'), Inr ())
                        | _ \<Rightarrow> (fst (revoke identity d'), Inr ()))
                  else (d', Inr ())
              | None \<Rightarrow> (d', Inr ())))"

definition clear_tool_level :: "rstr \<Rightarrow> agent_disk \<Rightarrow> agent_disk \<times> (perm_error + unit)" where
  "clear_tool_level identity0 d =
     (let identity = trim identity0; policy = load_permissions d
      in if identity = [] then (d, Inl EmptyIdentity)
         else case save_permissions (policy\<lparr>tools := bt_remove identity (tools policy)\<rparr>) d of
           (d', Inl e) \<Rightarrow> (d', Inl e)
         | (d', Inr _) \<Rightarrow>
             (case split_once 58 identity of
                Some (server, _) \<Rightarrow>
                  if server \<noteq> lit ''native'' then (fst (revoke identity d'), Inr ()) else (d', Inr ())
              | None \<Rightarrow> (d', Inr ())))"

definition set_server_level :: "rstr \<Rightarrow> permission_level \<Rightarrow> agent_disk \<Rightarrow> agent_disk \<times> (perm_error + unit)" where
  "set_server_level server0 level d =
     (let server = trim server0; policy = load_permissions d
      in if server = [] then (d, Inl EmptyServer)
         else save_permissions (policy\<lparr>servers := bt_insert (to_ascii_lowercase server) level (servers policy)\<rparr>) d)"

definition set_defaults ::
  "permission_level \<Rightarrow> permission_level \<Rightarrow> permission_level \<Rightarrow> agent_disk \<Rightarrow> agent_disk \<times> (perm_error + unit)" where
  "set_defaults dflt ro se d =
     save_permissions ((load_permissions d)\<lparr>default_level := dflt, read_only_default := ro, side_effect_default := se\<rparr>) d"

text \<open>What \<open>enable_policy_hot_reload\<close> reads before every decision.\<close>

definition live_policy :: "agent_disk \<Rightarrow> agent_permissions" where
  "live_policy d = with_legacy_grants (load_granted d) (load_permissions d)"

subsection \<open>Server names\<close>

datatype name_error = NameEmpty | NameSurroundingWhitespace | NameUnsupported rstr

definition validate_name :: "rstr \<Rightarrow> name_error + unit" where
  "validate_name name =
     (let trimmed = trim name
      in if trimmed = [] then Inl NameEmpty
         else if trimmed \<noteq> name then Inl NameSurroundingWhitespace
         else if \<not> list_all (\<lambda>b. is_ascii_alphanumeric b \<or> b = 95 \<or> b = 45) name then Inl (NameUnsupported name)
         else Inr ())"

subsection \<open>Secret-bearing paths\<close>

definition is_secret_basename :: "rstr \<Rightarrow> bool" where
  "is_secret_basename name \<longleftrightarrow>
     starts_with (lit ''.env'') name
     \<or> name = lit ''mcp.json'' \<or> starts_with (lit ''mcp.json.'') name
     \<or> name = lit ''tool_grants.json''
     \<or> name = lit ''.netrc'' \<or> name = lit ''.npmrc'' \<or> name = lit ''.pgpass''
     \<or> list_ex (\<lambda>suffix. ends_with suffix name)
          (map lit [''.pem'', ''.p12'', ''.pfx'', ''.key'', ''.keychain-db'', ''.keystore''])
     \<or> list_ex (\<lambda>stem. name = stem \<or> starts_with (stem @ lit ''.'') name)
          (map lit [''id_rsa'', ''id_ed25519'', ''id_ecdsa'', ''id_dsa''])"

definition classify_secret :: "rstr \<Rightarrow> bool" where
  "classify_secret text =
     (let trimmed = trim text; lower = to_ascii_lowercase trimmed;
          no_trailing = trim_end_matches (\<lambda>c. c = 47) lower
      in if trimmed = [] \<or> \<not> (47 \<in> set trimmed \<or> starts_with (lit ''~'') trimmed) then False
         else if list_ex (\<lambda>d. ends_with d no_trailing \<or> contains (d @ lit ''/'') lower)
                   (map lit [''/.ssh'', ''/.aws'', ''/.gnupg'', ''/.kube''])
         then True
         else is_secret_basename (last (split_on 47 lower)))"

fun find_secret_path :: "json \<Rightarrow> rstr option"
  and find_secret_items :: "json list \<Rightarrow> rstr option"
  and find_secret_fields :: "(rstr \<times> json) list \<Rightarrow> rstr option" where
  "find_secret_path (JString text) = (if classify_secret text then Some text else None)"
| "find_secret_path (JArray items) = find_secret_items items"
| "find_secret_path (JObject flds) = find_secret_fields flds"
| "find_secret_path _ = None"
| "find_secret_items [] = None"
| "find_secret_items (v # vs) = (case find_secret_path v of Some s \<Rightarrow> Some s | None \<Rightarrow> find_secret_items vs)"
| "find_secret_fields [] = None"
| "find_secret_fields ((k, v) # fs) = (case find_secret_path v of Some s \<Rightarrow> Some s | None \<Rightarrow> find_secret_fields fs)"

definition find_secret_target :: "json \<Rightarrow> rstr list \<Rightarrow> rstr option" where
  "find_secret_target input targets =
     option_or (find_secret_path input) (find_secret_items (map JString targets))"

subsection \<open>Durable rules\<close>

lemma map_of_with_legacy_grants:
  "map_of (tools (with_legacy_grants granted p)) k =
     (case map_of (tools p) k of Some l \<Rightarrow> Some l | None \<Rightarrow> if k \<in> set granted then Some Allow else None)"
proof -
  have "map_of (fold (\<lambda>key m. bt_or_insert key Allow m) granted m) k =
      (case map_of m k of Some l \<Rightarrow> Some l | None \<Rightarrow> if k \<in> set granted then Some Allow else None)" for m
    by (induction granted arbitrary: m) (auto split: option.splits)
  then show ?thesis by (simp add: with_legacy_grants_def)
qed

lemma save_permissions_Inr:
  "save_permissions p d = (d', Inr u) \<longleftrightarrow> settings_writable d \<and> d' = d\<lparr>settings_permissions := Some p\<rparr>"
  by (auto simp: save_permissions_def)

lemma grant_frame [simp]:
  "settings_permissions (fst (grant now server tool d)) = settings_permissions d"
  "settings_permissions (fst (revoke key d)) = settings_permissions d"
  by (auto simp: grant_def revoke_def write_atomic_def split: sum.split)

lemma set_tool_level_stores:
  assumes "set_tool_level now identity level d = (d', Inr ())"
  shows "map_of (tools (load_permissions d')) (trim identity) = Some level"
  using assms
  by (auto simp: set_tool_level_def load_permissions_def save_permissions_def Let_def
      split: if_splits option.splits permission_level.splits)

text \<open>C37. A saved per-tool level is what the next call gets: when setting the level reports success, the
  policy the gate reloads from disk resolves the tool to exactly that level, by its own rule, whatever
  the server rule, the risk class and the legacy grants file say.\<close>

theorem saved_level_is_enforced:
  assumes "set_tool_level now identity level d = (d', Inr ())"
  shows "resolve_with_source (live_policy d') (trim identity) server risk None = (level, ToolRule)"
  using set_tool_level_stores [OF assms]
  by (simp add: resolve_with_source_def live_policy_def map_of_with_legacy_grants)

definition disk0 :: agent_disk where
  "disk0 = \<lparr>settings_permissions = None, settings_writable = True,
     grants_on_disk = GrantsParsed \<lparr>file_version = 1, always_allow = [(lit ''srv:run'', \<lparr>granted_at = lit ''t0''\<rparr>)]\<rparr>,
     grants_writable = True\<rparr>"

theorem saved_level_is_enforced_witness:
  "resolve_with_source (live_policy (fst (set_tool_level (lit ''t1'') (lit '' srv:run'') Deny disk0)))
     (trim (lit '' srv:run'')) (Some (lit ''srv'')) ReadOnly None = (Deny, ToolRule)"
proof (rule saved_level_is_enforced)
  have "snd (set_tool_level (lit ''t1'') (lit '' srv:run'') Deny disk0) = Inr ()"
    by (simp add: set_tool_level_def disk0_def save_permissions_def trim_def lit_def is_whitespace_def
        split_once_def Let_def)
  then show "set_tool_level (lit ''t1'') (lit '' srv:run'') Deny disk0 =
      (fst (set_tool_level (lit ''t1'') (lit '' srv:run'') Deny disk0), Inr ())"
    by (simp add: prod_eq_iff)
qed

definition grants_healthy :: "agent_disk \<Rightarrow> bool" where
  "grants_healthy d \<longleftrightarrow> grants_writable d \<and> (case read_for_mutation d of Inr _ \<Rightarrow> True | Inl _ \<Rightarrow> False)"

lemma revoke_removes: "grants_healthy d \<Longrightarrow> key \<notin> set (load_granted (fst (revoke key d)))"
  by (auto simp: grants_healthy_def revoke_def write_atomic_def load_granted_def bt_remove_def split: sum.splits)

text \<open>Clearing a tool's rule returns it to inheritance: for an external tool and a healthy grants file,
  the reloaded policy has no tool-level rule left for it, so the level comes from the server rule or
  the category default.\<close>

theorem cleared_level_inherits:
  assumes "clear_tool_level identity d = (d', Inr ())" and "grants_healthy d"
    and "split_once 58 (trim identity) = Some (server, tool)" and "server \<noteq> lit ''native''"
  shows "snd (resolve_with_source (live_policy d') (trim identity) origin risk None) \<in> {ServerRule, DefaultRule}"
proof -
  obtain e where d': "d' = fst (revoke (trim identity) e)"
    and e: "e = d\<lparr>settings_permissions := Some ((load_permissions d)\<lparr>tools := bt_remove (trim identity) (tools (load_permissions d))\<rparr>)\<rparr>"
    using assms by (auto simp: clear_tool_level_def save_permissions_def Let_def split: if_splits)
  have "grants_healthy e" using assms(2) by (simp add: e grants_healthy_def read_for_mutation_def)
  then have "trim identity \<notin> set (load_granted d')" by (simp add: d' revoke_removes)
  moreover have "map_of (tools (load_permissions d')) (trim identity) = None"
    by (simp add: d' load_permissions_def e)
  ultimately have "map_of (tools (live_policy d')) (trim identity) = None"
    by (simp add: live_policy_def map_of_with_legacy_grants)
  then show ?thesis by (simp add: resolve_with_source_def split: option.split)
qed

theorem cleared_level_inherits_witness:
  "snd (resolve_with_source (live_policy (fst (clear_tool_level (lit ''srv:run'') disk0)))
     (trim (lit ''srv:run'')) (Some (lit ''srv'')) Mutating None) \<in> {ServerRule, DefaultRule}"
proof (rule cleared_level_inherits)
  have "snd (clear_tool_level (lit ''srv:run'') disk0) = Inr ()"
    by (simp add: clear_tool_level_def disk0_def save_permissions_def trim_def lit_def is_whitespace_def
        split_once_def Let_def)
  then show "clear_tool_level (lit ''srv:run'') disk0 = (fst (clear_tool_level (lit ''srv:run'') disk0), Inr ())"
    by (simp add: prod_eq_iff)
  show "grants_healthy disk0" by (simp add: grants_healthy_def disk0_def read_for_mutation_def)
  show "split_once 58 (trim (lit ''srv:run'')) = Some (lit ''srv'', lit ''run'')" "lit ''srv'' \<noteq> lit ''native''"
    by (simp_all add: split_once_def trim_def lit_def is_whitespace_def)
qed

text \<open>Clearing reports success even when the legacy grant could not be revoked, and then the grant is
  merged back: on a disk whose grants file cannot be written, the tool the operator cleared stays
  allowed.\<close>

theorem failed_revoke_stays_allowed:
  "snd (clear_tool_level (lit ''srv:run'') (disk0\<lparr>grants_writable := False\<rparr>)) = Inr ()
   \<and> resolve_with_source (live_policy (fst (clear_tool_level (lit ''srv:run'') (disk0\<lparr>grants_writable := False\<rparr>))))
       (lit ''srv:run'') (Some (lit ''srv'')) Mutating None = (Allow, ToolRule)"
proof -
  have t: "trim (lit ''srv:run'') = lit ''srv:run''" by (simp add: trim_def lit_def is_whitespace_def)
  have c: "clear_tool_level (lit ''srv:run'') (disk0\<lparr>grants_writable := False\<rparr>) =
      (disk0\<lparr>grants_writable := False, settings_permissions := Some default_permissions\<rparr>, Inr ())"
    by (simp add: clear_tool_level_def t) (simp add: disk0_def save_permissions_def lit_def split_once_def
        revoke_def read_for_mutation_def write_atomic_def load_permissions_def default_permissions_def bt_remove_def)
  show ?thesis
    by (simp add: c) (simp add: disk0_def live_policy_def map_of_with_legacy_grants resolve_with_source_def
        load_permissions_def load_granted_def default_permissions_def)
qed

text \<open>A grants file that does not parse is never overwritten: every operation that can touch it
  leaves it as it is, whatever its arguments.\<close>

theorem unparsable_grants_are_kept:
  assumes "grants_on_disk d \<in> {GrantsUnparsable, GrantsUnreadable}"
  shows "grants_on_disk (fst (grant now server tool d)) = grants_on_disk d
    \<and> grants_on_disk (fst (revoke key d)) = grants_on_disk d
    \<and> grants_on_disk (fst (remember_allow now server tool d)) = grants_on_disk d
    \<and> grants_on_disk (fst (set_tool_level now identity level d)) = grants_on_disk d
    \<and> grants_on_disk (fst (clear_tool_level identity d)) = grants_on_disk d"
proof -
  have g: "fst (grant now s t (d\<lparr>settings_permissions := p\<rparr>)) = d\<lparr>settings_permissions := p\<rparr>"
      "fst (revoke k (d\<lparr>settings_permissions := p\<rparr>)) = d\<lparr>settings_permissions := p\<rparr>"
      "fst (grant now s t d) = d" "fst (revoke k d) = d" for s t k p
    using assms by (auto simp: grant_def revoke_def read_for_mutation_def)
  have "grants_on_disk (fst (remember_allow now server tool d)) = grants_on_disk d"
    by (simp add: remember_allow_def save_permissions_def Let_def g)
  moreover have "grants_on_disk (fst (set_tool_level now identity level d)) = grants_on_disk d"
    by (simp add: set_tool_level_def save_permissions_def Let_def g split: option.split permission_level.split)
  moreover have "grants_on_disk (fst (clear_tool_level identity d)) = grants_on_disk d"
    by (simp add: clear_tool_level_def save_permissions_def Let_def g split: option.split)
  ultimately show ?thesis by (simp add: g)
qed

theorem unparsable_grants_are_kept_witness:
  "\<exists>d. grants_on_disk d = GrantsUnparsable
     \<and> grants_on_disk (fst (set_tool_level (lit ''t1'') (lit ''srv:run'') Allow d)) = grants_on_disk d"
  using unparsable_grants_are_kept [of "disk0\<lparr>grants_on_disk := GrantsUnparsable\<rparr>" "lit ''t1''" _ _ _ "lit ''srv:run''" Allow]
  by (intro exI [of _ "disk0\<lparr>grants_on_disk := GrantsUnparsable\<rparr>"]) simp

subsection \<open>Identities\<close>

lemma valid_name_chars:
  assumes "validate_name s = Inr ()"
  shows "58 \<notin> set (to_ascii_lowercase s)"
  using assms
  by (auto simp: validate_name_def Let_def list_all_iff to_ascii_lowercase_def ascii_lower_def
      is_ascii_alphanumeric_def split: if_splits)

lemma append_colon_eq:
  fixes a b s t :: rstr
  assumes "58 \<notin> set a" and "58 \<notin> set b"
  shows "a @ 58 # s = b @ 58 # t \<longleftrightarrow> a = b \<and> s = t"
proof
  assume eq: "a @ 58 # s = b @ 58 # t"
  have "split_once 58 (a @ 58 # s) = Some (a, s)" and "split_once 58 (b @ 58 # t) = Some (b, t)"
    using assms by (simp_all add: split_once_Some_iff)
  then have "Some (a, s) = Some (b, t)" unfolding eq by (rule trans [OF sym])
  then show "a = b \<and> s = t" by simp
qed simp

text \<open>The servers an operator can configure without shadowing the native tools.\<close>

definition ordinary_origin :: "tool_origin \<Rightarrow> bool" where
  "ordinary_origin origin = (case origin of Native \<Rightarrow> True
     | Mcp server _ \<Rightarrow> validate_name server = Inr () \<and> to_ascii_lowercase server \<noteq> lit ''native'')"

text \<open>The identity key separates tools: for origins whose server name passes the configuration check
  and is not \<open>native\<close>, two tools share a policy key exactly when both are native tools of one name,
  or tools of one name on one server, server names compared without case.\<close>

theorem tool_identity_separates:
  assumes "ordinary_origin o1" and "ordinary_origin o2"
  shows "tool_identity o1 n1 = tool_identity o2 n2 \<longleftrightarrow>
    (case (o1, o2) of
       (Native, Native) \<Rightarrow> n1 = n2
     | (Mcp s1 t1, Mcp s2 t2) \<Rightarrow> eq_ignore_ascii_case s1 s2 \<and> t1 = t2
     | _ \<Rightarrow> False)"
proof -
  have nat: "lit ''native:'' @ n = lit ''native'' @ 58 # n" "58 \<notin> set (lit ''native'')" for n
    by (simp_all add: lit_def)
  have grant: "grant_key s t = to_ascii_lowercase s @ 58 # t" for s t
    by (simp add: grant_key_def lit_def)
  show ?thesis
    using assms
    by (auto simp: tool_identity_def ordinary_origin_def grant nat append_colon_eq valid_name_chars
        eq_ignore_ascii_case_def split: tool_origin.splits)
qed

theorem tool_identity_separates_witness:
  "tool_identity (Mcp (lit ''Srv'') (lit ''run'')) (lit ''x'') = tool_identity (Mcp (lit ''srv'') (lit ''run'')) (lit ''y'')
   \<longleftrightarrow> eq_ignore_ascii_case (lit ''Srv'') (lit ''srv'') \<and> lit ''run'' = lit ''run''"
  using tool_identity_separates [of "Mcp (lit ''Srv'') (lit ''run'')" "Mcp (lit ''srv'') (lit ''run'')" "lit ''x''" "lit ''y''"]
  by (simp add: ordinary_origin_def validate_name_def trim_def lit_def is_whitespace_def is_ascii_alphanumeric_def
      to_ascii_lowercase_def ascii_lower_def)

text \<open>A server called \<open>native\<close> passes the name check, and each of its tools has the policy key of the
  native tool of the same name: a rule or a remembered approval for one governs the other.\<close>

theorem native_server_shares_identities:
  "validate_name (lit ''native'') = Inr ()
   \<and> tool_identity (Mcp (lit ''native'') tool) registered = tool_identity Native tool"
  by (simp add: validate_name_def trim_def lit_def is_whitespace_def is_ascii_alphanumeric_def
      tool_identity_def grant_key_def to_ascii_lowercase_def ascii_lower_def)

subsection \<open>Secrets\<close>

fun json_strings :: "json \<Rightarrow> rstr list" and items_strings :: "json list \<Rightarrow> rstr list"
  and fields_strings :: "(rstr \<times> json) list \<Rightarrow> rstr list" where
  "json_strings (JString s) = [s]"
| "json_strings (JArray items) = items_strings items"
| "json_strings (JObject fs) = fields_strings fs"
| "json_strings _ = []"
| "items_strings [] = []"
| "items_strings (v # vs) = json_strings v @ items_strings vs"
| "fields_strings [] = []"
| "fields_strings ((k, v) # fs) = json_strings v @ fields_strings fs"

lemma find_append: "List.find P (xs @ ys) = option_or (List.find P xs) (List.find P ys)"
  by (induction xs) auto

lemma find_secret_strings:
  "find_secret_path v = List.find classify_secret (json_strings v)"
  "find_secret_items vs = List.find classify_secret (items_strings vs)"
  "find_secret_fields fs = List.find classify_secret (fields_strings fs)"
  by (induction v and vs and fs rule: find_secret_path_find_secret_items_find_secret_fields.induct)
     (auto simp: find_append split: option.split)

lemma items_strings_targets: "items_strings (map JString ts) = ts"
  by (induction ts) auto

text \<open>No string of the input, at any depth, and no resolved target names a secret.\<close>

definition secret_free :: "json \<Rightarrow> rstr list \<Rightarrow> bool" where
  "secret_free input targets \<longleftrightarrow> (\<forall>s \<in> set (json_strings input) \<union> set targets. \<not> classify_secret s)"

lemma find_secret_target_None: "find_secret_target input targets = None \<longleftrightarrow> secret_free input targets"
proof -
  have "find_secret_target input targets = List.find classify_secret (json_strings input @ targets)"
    by (simp add: find_secret_target_def find_secret_strings items_strings_targets find_append)
  then show ?thesis by (auto simp: secret_free_def find_None_iff)
qed

end
