(* ===== verification/Redaction.thy ===== *)
theory Redaction
  imports Rust_Text
begin

section \<open>Redaction of operator-visible text\<close>

text \<open>
  \<open>core/agent/redaction.rs\<close>: the predicate on JSON keys, the command-line redactor with its marker
  state, and the argument snapshot an approval card shows.

  The lemmas first reduce \<open>redact\<close>, which walks a text, to \<open>redact_words\<close>, which walks its words
  (\<open>split_whitespace_redact\<close>). The properties are about what the operator sees: the layout of the
  line and every option survive, the word after a secret-naming option has no influence on the
  output, nor has any value under a sensitive key, and the snapshot stays within its byte budget.
\<close>

subsection \<open>Sensitive keys\<close>

definition REDACTED :: rstr where
  "REDACTED = lit ''[REDACTED]''"

definition MAX_PREVIEW_STRING_CHARS :: nat where "MAX_PREVIEW_STRING_CHARS = 200"
definition MAX_PREVIEW_ARGUMENTS_BYTES :: nat where "MAX_PREVIEW_ARGUMENTS_BYTES = 4096"

definition SENSITIVE_KEYS :: "rstr list" where
  "SENSITIVE_KEYS = map lit [''token'', ''password'', ''passwd'', ''secret'', ''apikey'', ''accesskey'',
     ''privatekey'', ''authorization'', ''cookie'', ''credential'', ''bearer'', ''environment'']"

definition contains_sensitive_key :: "rstr \<Rightarrow> bool" where
  "contains_sensitive_key key =
     (let normalized = to_ascii_lowercase (filter is_ascii_alphanumeric key)
      in list_ex (\<lambda>sensitive. contains sensitive normalized) SENSITIVE_KEYS)"

subsection \<open>The command-line redactor\<close>

text \<open>\<open>CommandRedactor\<close>: how many further values the last marker governs, and the quote of a secret
  value still running.\<close>

record command_redactor =
  pending :: nat
  quoted :: "nat option"

definition new_redactor :: command_redactor where
  "new_redactor = \<lparr>pending = 0, quoted = None\<rparr>"

definition reset_redactor :: "command_redactor \<Rightarrow> command_redactor" where
  "reset_redactor r = r\<lparr>pending := 0, quoted := None\<rparr>"

definition is_quote :: "nat \<Rightarrow> bool" where
  "is_quote c \<longleftrightarrow> c = 39 \<or> c = 34"

definition opening_quote :: "rstr \<Rightarrow> nat option" where
  "opening_quote token =
     (case token of [] \<Rightarrow> None
      | first # _ \<Rightarrow>
          if \<not> is_quote first then None
          else if utf8_width first < utf8_len token \<and> ends_with [first] token then None
          else Some first)"

fun mask_words_from :: "bool \<Rightarrow> rstr \<Rightarrow> rstr" where
  "mask_words_from in_word [] = []"
| "mask_words_from in_word (c # cs) =
     (if is_whitespace c then c # mask_words_from False cs
      else if \<not> in_word then REDACTED @ mask_words_from True cs
      else mask_words_from True cs)"

definition mask_words :: "rstr \<Rightarrow> rstr" where
  "mask_words text = mask_words_from False text"

definition redact_owned_value :: "rstr \<Rightarrow> rstr option" where
  "redact_owned_value element =
     (let start = takeWhile is_whitespace element; body = trim_start element;
          stop = (\<lambda>c. c = 61 \<or> c = 58 \<or> is_whitespace c); name = takeWhile (\<lambda>c. \<not> stop c) body
      in case dropWhile (\<lambda>c. \<not> stop c) body of
           [] \<Rightarrow> None
         | separator # rest \<Rightarrow>
             if is_whitespace separator then None
             else if trim rest = [] \<or> \<not> contains_sensitive_key (trim_matches is_quote name) then None
             else Some (start @ name @ [separator] @ mask_words rest))"

text \<open>\<open>redact_token\<close> once the running and the pending value have been dealt with: does the token name
  a secret by a header, an option or a scheme (\<open>redact_header\<close>), or before that by an assignment
  (\<open>redact_marker\<close>)?\<close>

definition redact_header :: "rstr \<Rightarrow> rstr \<Rightarrow> command_redactor \<Rightarrow> rstr \<times> command_redactor" where
  "redact_header token trimmed r =
     (case split_once 58 trimmed of
        Some (name, val) \<Rightarrow>
          if \<not> contains_sensitive_key name then (token, r)
          else (case opening_quote token of
                  Some q \<Rightarrow> (if val = [] then token else q # name @ [58] @ REDACTED, r\<lparr>quoted := Some q\<rparr>)
                | None \<Rightarrow>
                    if val = []
                    then (token, r\<lparr>pending := if contains (lit ''authorization'') (to_ascii_lowercase name)
                                               then 2 else 1\<rparr>)
                    else (name @ [58] @ REDACTED,
                          if eq_ignore_ascii_case val (lit ''bearer'') \<or> eq_ignore_ascii_case val (lit ''basic'')
                          then r\<lparr>pending := 1\<rparr> else r))
      | None \<Rightarrow>
          (token,
           if starts_with (lit ''-'') trimmed \<and> contains_sensitive_key trimmed
              \<or> eq_ignore_ascii_case trimmed (lit ''bearer'') \<or> eq_ignore_ascii_case trimmed (lit ''basic'')
           then r\<lparr>pending := 1\<rparr> else r))"

definition redact_marker :: "rstr \<Rightarrow> rstr \<Rightarrow> command_redactor \<Rightarrow> rstr \<times> command_redactor" where
  "redact_marker token trimmed r =
     (case split_once 61 trimmed of
        Some (name, val) \<Rightarrow>
          if contains_sensitive_key name
          then (name @ [61] @ REDACTED,
                case opening_quote val of Some q \<Rightarrow> r\<lparr>quoted := Some q\<rparr> | None \<Rightarrow> r)
          else redact_header token trimmed r
      | None \<Rightarrow> redact_header token trimmed r)"

definition redact_token :: "rstr \<Rightarrow> command_redactor \<Rightarrow> rstr \<times> command_redactor" where
  "redact_token token r =
     (case quoted r of
        Some q \<Rightarrow> if ends_with [q] token then (REDACTED @ [q], r\<lparr>quoted := None\<rparr>) else (REDACTED, r)
      | None \<Rightarrow>
          let trimmed = trim_matches is_quote token
          in if 0 < pending r \<and> \<not> starts_with (lit ''-'') trimmed
             then (case opening_quote token of
                     Some q \<Rightarrow> (q # REDACTED, r\<lparr>pending := 0, quoted := Some q\<rparr>)
                   | None \<Rightarrow> (REDACTED, r\<lparr>pending := pending r - 1\<rparr>))
             else redact_marker token trimmed (r\<lparr>pending := 0\<rparr>))"

text \<open>The text is walked gap by gap and token by token; every gap is copied.\<close>

function redact :: "rstr \<Rightarrow> command_redactor \<Rightarrow> rstr \<times> command_redactor" where
  "redact rest r =
     (case dropWhile is_whitespace rest of
        [] \<Rightarrow> (takeWhile is_whitespace rest, r)
      | c # cs \<Rightarrow>
          (case redact_token (takeWhile (\<lambda>c. \<not> is_whitespace c) (c # cs)) r of
             (out, r') \<Rightarrow>
               (case redact (dropWhile (\<lambda>c. \<not> is_whitespace c) (c # cs)) r' of
                  (out', r'') \<Rightarrow> (takeWhile is_whitespace rest @ out @ out', r''))))"
  by pat_completeness auto
termination
  by (relation "measure (\<lambda>(s, _). length s)") (auto dest: shorter_after_word)

declare redact.simps [simp del]

definition redact_command_line :: "rstr \<Rightarrow> rstr" where
  "redact_command_line text = fst (redact text new_redactor)"

definition redact_argument :: "rstr \<Rightarrow> command_redactor \<Rightarrow> rstr \<times> command_redactor" where
  "redact_argument element r =
     (let val = trim_start element
      in if 0 < pending r \<and> val \<noteq> [] \<and> \<not> starts_with (lit ''-'') val
         then (REDACTED, r\<lparr>pending := pending r - 1\<rparr>)
         else (case redact_owned_value element of
                 Some owned \<Rightarrow> (owned, r\<lparr>pending := 0, quoted := None\<rparr>)
               | None \<Rightarrow> (case redact element r of (out, r') \<Rightarrow> (out, r'\<lparr>quoted := None\<rparr>))))"

subsection \<open>The argument snapshot\<close>

text \<open>\<open>\\u2026\<close> in the source's literals is the scalar 8230, \<open>\\n\<close> is 10.\<close>

definition bound_string :: "rstr \<Rightarrow> rstr" where
  "bound_string text =
     (let total = length text
      in if total \<le> MAX_PREVIEW_STRING_CHARS then text
         else take MAX_PREVIEW_STRING_CHARS text @ [8230] @ lit '' ['' @
              show_nat (total - MAX_PREVIEW_STRING_CHARS) @ lit '' more characters]'')"

definition NAME_FIELDS :: "rstr list" where
  "NAME_FIELDS = map lit [''key'', ''name'', ''header'', ''field'', ''variable'', ''env'', ''setting'']"

definition VALUE_FIELDS :: "rstr list" where
  "VALUE_FIELDS = map lit [''value'', ''val'', ''values'', ''data'', ''content'', ''secret'']"

definition names_a_sensitive_sibling :: "(rstr \<times> json) list \<Rightarrow> bool" where
  "names_a_sensitive_sibling flds =
     list_ex (\<lambda>(key, val). to_ascii_lowercase key \<in> set NAME_FIELDS
                             \<and> (case as_str val of None \<Rightarrow> False | Some s \<Rightarrow> contains_sensitive_key s)) flds"

definition is_value_field :: "rstr \<Rightarrow> bool" where
  "is_value_field key \<longleftrightarrow> to_ascii_lowercase key \<in> set VALUE_FIELDS"

fun redact_argument_value :: "json \<Rightarrow> bool \<Rightarrow> json"
  and redact_argument_fields :: "bool \<Rightarrow> (rstr \<times> json) list \<Rightarrow> (rstr \<times> json) list"
  and redact_argument_array :: "command_redactor \<Rightarrow> json list \<Rightarrow> json list" where
  "redact_argument_value val under_sensitive_key =
     (if under_sensitive_key then JString REDACTED
      else case val of
        JObject flds \<Rightarrow> JObject (redact_argument_fields (names_a_sensitive_sibling flds) flds)
      | JArray items \<Rightarrow> JArray (redact_argument_array new_redactor items)
      | JString text \<Rightarrow> JString (bound_string (redact_command_line text))
      | other \<Rightarrow> other)"
| "redact_argument_fields governed [] = []"
| "redact_argument_fields governed ((key, val) # fs) =
     (key, redact_argument_value val (contains_sensitive_key key \<or> governed \<and> is_value_field key))
     # redact_argument_fields governed fs"
| "redact_argument_array r [] = []"
| "redact_argument_array r (item # items) =
     (case item of
        JString text \<Rightarrow>
          (case redact_argument text r of
             (out, r') \<Rightarrow> JString (bound_string out) # redact_argument_array r' items)
      | other \<Rightarrow> redact_argument_value other False # redact_argument_array (reset_redactor r) items)"

text \<open>The loop that walks back to a character boundary; it runs at most three times
  (\<open>snapshot_cut_range\<close>).\<close>

fun snapshot_cut :: "rstr \<Rightarrow> nat \<Rightarrow> nat" where
  "snapshot_cut s pos = (if 0 < pos \<and> \<not> is_char_boundary s pos then snapshot_cut s (pos - 1) else pos)"

declare snapshot_cut.simps [simp del]

definition bound_snapshot :: "rstr \<Rightarrow> rstr" where
  "bound_snapshot snapshot =
     (if utf8_len snapshot \<le> MAX_PREVIEW_ARGUMENTS_BYTES then snapshot
      else let pos = snapshot_cut snapshot MAX_PREVIEW_ARGUMENTS_BYTES
           in byte_prefix pos snapshot @ [10, 8230] @ lit '' [truncated, '' @
              show_nat (utf8_len snapshot - pos) @ lit '' more bytes]'')"

text \<open>\<open>to_string_pretty\<close> is the printer of \<open>serde_json\<close>, which may fail.\<close>

definition redacted_arguments :: "(json \<Rightarrow> rstr option) \<Rightarrow> json \<Rightarrow> rstr option" where
  "redacted_arguments to_string_pretty input =
     (if input = JNull \<or> input = JObject [] then None
      else Some (bound_snapshot (unwrap_or REDACTED (to_string_pretty (redact_argument_value input False)))))"

subsection \<open>Words\<close>

text \<open>The redactor on the words of a text, without the gaps.\<close>

fun redact_words :: "rstr list \<Rightarrow> command_redactor \<Rightarrow> rstr list \<times> command_redactor" where
  "redact_words [] r = ([], r)"
| "redact_words (w # ws) r =
     (case redact_token w r of (out, r') \<Rightarrow>
        (case redact_words ws r' of (outs, r'') \<Rightarrow> (out # outs, r'')))"

definition no_space :: "rstr \<Rightarrow> bool" where
  "no_space w \<longleftrightarrow> (\<forall>c \<in> set w. \<not> is_whitespace c)"

definition quote_state :: "command_redactor \<Rightarrow> bool" where
  "quote_state r \<longleftrightarrow> (\<forall>q. quoted r = Some q \<longrightarrow> is_quote q)"

lemma no_space_simps [simp]:
  "no_space []" "no_space (c # cs) \<longleftrightarrow> \<not> is_whitespace c \<and> no_space cs"
  "no_space (v @ w) \<longleftrightarrow> no_space v \<and> no_space w"
  by (auto simp: no_space_def)

lemma separators_not_space [simp]: "\<not> is_whitespace 61" "\<not> is_whitespace 58"
  by (simp_all add: is_whitespace_def)

lemma REDACTED_word [simp]: "no_space REDACTED" "REDACTED \<noteq> []"
  by (simp_all add: no_space_def REDACTED_def lit_def is_whitespace_def)

lemma quote_not_space [simp]: "is_quote c \<Longrightarrow> \<not> is_whitespace c"
  by (auto simp: is_quote_def is_whitespace_def)

lemma opening_quote_Some: "opening_quote w = Some q \<Longrightarrow> is_quote q"
  by (auto simp: opening_quote_def split: list.splits if_splits)

lemma opening_quote_not_space [simp]: "opening_quote w = Some q \<Longrightarrow> \<not> is_whitespace q"
  by (auto dest: opening_quote_Some)

lemma no_space_split_once:
  "no_space w \<Longrightarrow> split_once d (trim_matches is_quote w) = Some (a, b) \<Longrightarrow> no_space a"
  using set_trim_matches [of is_quote w] by (auto simp: split_once_Some_iff no_space_def)

lemma redact_header_word:
  assumes "no_space w" and "w \<noteq> []"
  shows "no_space (fst (redact_header w (trim_matches is_quote w) r))"
    and "fst (redact_header w (trim_matches is_quote w) r) \<noteq> []"
    and "quote_state r \<Longrightarrow> quote_state (snd (redact_header w (trim_matches is_quote w) r))"
  using assms
  by (auto simp: redact_header_def quote_state_def intro: no_space_split_once opening_quote_Some
      split: option.splits prod.splits)

lemma redact_marker_word:
  assumes "no_space w" and "w \<noteq> []"
  shows "no_space (fst (redact_marker w (trim_matches is_quote w) r))"
    and "fst (redact_marker w (trim_matches is_quote w) r) \<noteq> []"
    and "quote_state r \<Longrightarrow> quote_state (snd (redact_marker w (trim_matches is_quote w) r))"
  using assms redact_header_word [OF assms, of r]
  by (auto simp: redact_marker_def intro: no_space_split_once split: option.splits prod.splits)
     (auto simp: quote_state_def intro: opening_quote_Some)

text \<open>A word stays one word, whatever the state.\<close>

lemma redact_token_word:
  assumes "no_space w" and "w \<noteq> []" and "quote_state r"
  shows "no_space (fst (redact_token w r))" and "fst (redact_token w r) \<noteq> []"
    and "quote_state (snd (redact_token w r))"
  using assms redact_marker_word [OF assms(1,2), of "r\<lparr>pending := 0\<rparr>"]
  by (auto simp: redact_token_def Let_def quote_state_def intro: opening_quote_Some
      split: option.splits)

lemma word_decomposition:
  assumes "dropWhile is_whitespace s = c # cs"
  defines "w \<equiv> takeWhile (\<lambda>c. \<not> is_whitespace c) (c # cs)"
    and "rest \<equiv> dropWhile (\<lambda>c. \<not> is_whitespace c) (c # cs)"
  shows "no_space w" and "w \<noteq> []" and "rest = [] \<or> is_whitespace (hd rest)"
    and "s = takeWhile is_whitespace s @ w @ rest"
proof -
  have c: "\<not> is_whitespace c" using assms(1) by (metis hd_dropWhile list.distinct(1) list.sel(1))
  show "no_space w" by (auto simp: w_def no_space_def dest: set_takeWhileD)
  show "w \<noteq> []" using c by (simp add: w_def)
  show "rest = [] \<or> is_whitespace (hd rest)"
    unfolding rest_def using hd_dropWhile [of "\<lambda>c. \<not> is_whitespace c" "c # cs"] by blast
  show "s = takeWhile is_whitespace s @ w @ rest"
    unfolding w_def rest_def takeWhile_dropWhile_id using assms(1) takeWhile_dropWhile_id [of is_whitespace s]
    by simp
qed

lemma dropWhile_hd: "s = [] \<or> P (hd s) \<Longrightarrow> dropWhile (\<lambda>c. \<not> P c) s = s \<and> takeWhile (\<lambda>c. \<not> P c) s = []"
  by (cases s) auto

lemma split_whitespace_gap_word:
  assumes "\<forall>c \<in> set g. is_whitespace c" and "no_space w" and "w \<noteq> []"
    and "rest = [] \<or> is_whitespace (hd rest)"
  shows "split_whitespace (g @ w @ rest) = w # split_whitespace rest"
proof -
  obtain c cs where w: "w = c # cs" using assms(3) by (cases w) auto
  have d: "dropWhile is_whitespace (g @ w @ rest) = c # cs @ rest"
    using assms(1,2) by (simp add: w dropWhile_append)
  have nw: "\<forall>x \<in> set w. \<not> is_whitespace x" using assms(2) by (simp add: no_space_def)
  have t: "takeWhile (\<lambda>c. \<not> is_whitespace c) (w @ rest) = w"
    "dropWhile (\<lambda>c. \<not> is_whitespace c) (w @ rest) = rest"
    using nw dropWhile_hd [of rest is_whitespace, OF assms(4)] by (simp_all add: takeWhile_append dropWhile_append)
  show ?thesis
    by (subst split_whitespace.simps) (use d t in \<open>simp add: w del: takeWhile.simps dropWhile.simps\<close>)
qed

lemma split_whitespace_space: "\<forall>c \<in> set g. is_whitespace c \<Longrightarrow> split_whitespace g = []"
  by (subst split_whitespace.simps) (simp add: dropWhile_eq_Nil_conv [THEN iffD2] split: list.split)

lemma redact_gap_word:
  assumes "\<forall>c \<in> set g. is_whitespace c" and "no_space w" and "w \<noteq> []"
    and "rest = [] \<or> is_whitespace (hd rest)"
  shows "redact (g @ w @ rest) r =
           (g @ fst (redact_token w r) @ fst (redact rest (snd (redact_token w r))),
            snd (redact rest (snd (redact_token w r))))"
proof -
  obtain c cs where w: "w = c # cs" using assms(3) by (cases w) auto
  have nw: "\<forall>x \<in> set w. \<not> is_whitespace x" using assms(2) by (simp add: no_space_def)
  have d: "dropWhile is_whitespace (g @ w @ rest) = c # cs @ rest"
    "takeWhile is_whitespace (g @ w @ rest) = g"
    using assms(1) nw by (simp_all add: w dropWhile_append takeWhile_append)
  have t: "takeWhile (\<lambda>c. \<not> is_whitespace c) (w @ rest) = w"
    "dropWhile (\<lambda>c. \<not> is_whitespace c) (w @ rest) = rest"
    using nw dropWhile_hd [of rest is_whitespace, OF assms(4)]
    by (simp_all add: takeWhile_append dropWhile_append)
  show ?thesis
    by (subst redact.simps)
       (use d t in \<open>simp add: w case_prod_beta del: takeWhile.simps dropWhile.simps\<close>)
qed

lemma redact_space: "\<forall>c \<in> set g. is_whitespace c \<Longrightarrow> redact g r = (g, r)"
  by (subst redact.simps) (simp add: dropWhile_eq_Nil_conv [THEN iffD2] takeWhile_eq_all_conv [THEN iffD2])

text \<open>Induction over a text as a gap, or a gap and a word and the rest.\<close>

lemma text_words_induct [case_names space word]:
  assumes space: "\<And>g. \<forall>c \<in> set g. is_whitespace c \<Longrightarrow> P g"
    and word: "\<And>g w rest. \<forall>c \<in> set g. is_whitespace c \<Longrightarrow> no_space w \<Longrightarrow> w \<noteq> [] \<Longrightarrow>
                 rest = [] \<or> is_whitespace (hd rest) \<Longrightarrow> P rest \<Longrightarrow> P (g @ w @ rest)"
  shows "P s"
proof (induction "length s" arbitrary: s rule: less_induct)
  case less
  show ?case
  proof (cases "dropWhile is_whitespace s")
    case Nil
    then show ?thesis by (auto simp: dropWhile_eq_Nil_conv intro: space)
  next
    case (Cons c cs)
    let ?g = "takeWhile is_whitespace s" and ?w = "takeWhile (\<lambda>c. \<not> is_whitespace c) (c # cs)"
      and ?rest = "dropWhile (\<lambda>c. \<not> is_whitespace c) (c # cs)"
    note d = word_decomposition [OF Cons]
    have "P ?rest" using shorter_after_word [OF Cons] less.hyps by blast
    moreover have "\<forall>c \<in> set ?g. is_whitespace c" by (auto dest: set_takeWhileD)
    ultimately have "P (?g @ ?w @ ?rest)" using d(1-3) by (intro word)
    then show ?thesis using d(4) by simp
  qed
qed

lemma redact_boundary:
  assumes "s = [] \<or> is_whitespace (hd s)"
  shows "fst (redact s r) = [] \<or> is_whitespace (hd (fst (redact s r)))"
  using assms
proof (induction s rule: text_words_induct)
  case (space g)
  then show ?case by (simp add: redact_space)
next
  case (word g w rest)
  then have "g \<noteq> []" by (cases w) auto
  with word show ?case by (simp add: redact_gap_word)
qed

lemma split_whitespace_redact:
  "quote_state r \<Longrightarrow> split_whitespace (fst (redact s r)) = fst (redact_words (split_whitespace s) r)"
proof (induction s arbitrary: r rule: text_words_induct)
  case (space g)
  then show ?case by (simp add: redact_space split_whitespace_space)
next
  case (word g w rest)
  note t = redact_token_word [OF word(2,3) word.prems]
  have "split_whitespace (fst (redact (g @ w @ rest) r))
          = fst (redact_token w r) # split_whitespace (fst (redact rest (snd (redact_token w r))))"
    using word(1) t(1,2) redact_boundary [OF word(4)]
    by (simp add: redact_gap_word [OF word(1-4)] split_whitespace_gap_word)
  with word(1-4) word.IH [OF t(3)] show ?case
    by (simp add: split_whitespace_gap_word case_prod_beta)
qed

lemma mask_words_in_word: "no_space w \<Longrightarrow> mask_words_from True (w @ rest) = mask_words_from True rest"
  by (induction w) auto

lemma mask_words_gap_word:
  assumes "\<forall>c \<in> set g. is_whitespace c" and "no_space w" and "w \<noteq> []"
    and "rest = [] \<or> is_whitespace (hd rest)"
  shows "mask_words (g @ w @ rest) = g @ REDACTED @ mask_words rest"
proof -
  have g: "mask_words_from False (g @ t) = g @ mask_words_from False t" for t
    using assms(1) by (induction g) auto
  have "mask_words_from True rest = mask_words_from False rest" using assms(4) by (cases rest) auto
  then show ?thesis
    using assms(2,3) by (cases w) (auto simp: mask_words_def g mask_words_in_word)
qed

lemma mask_words_redact: "quote_state r \<Longrightarrow> mask_words (fst (redact s r)) = mask_words s"
proof (induction s arbitrary: r rule: text_words_induct)
  case (space g)
  then show ?case by (simp add: redact_space)
next
  case (word g w rest)
  note t = redact_token_word [OF word(2,3) word.prems]
  show ?case
    using word.IH [OF t(3)] word(1) t(1,2) redact_boundary [OF word(4)]
    by (simp add: redact_gap_word [OF word(1-4)] mask_words_gap_word mask_words_gap_word [OF word(1-4)])
qed

lemma redact_append:
  assumes "b = [] \<or> is_whitespace (hd b)"
  shows "redact (a @ b) r =
           (fst (redact a r) @ fst (redact b (snd (redact a r))), snd (redact b (snd (redact a r))))"
proof (induction a arbitrary: r rule: text_words_induct)
  case (space g)
  show ?case
  proof (induction b rule: text_words_induct)
    case (space g')
    with \<open>\<forall>c \<in> set g. is_whitespace c\<close> show ?case by (simp add: redact_space ball_Un)
  next
    case (word g' w rest)
    then show ?case
      using redact_gap_word [of "g @ g'" w rest r] \<open>\<forall>c \<in> set g. is_whitespace c\<close>
      by (auto simp: redact_gap_word redact_space)
  qed
next
  case (word g w rest)
  have "rest @ b = [] \<or> is_whitespace (hd (rest @ b))" using assms word(4) by (cases rest) auto
  from redact_gap_word [OF word(1-3) this] show ?case
    by (simp add: redact_gap_word [OF word(1-4)] word.IH)
qed

lemma new_redactor_quote_state [simp]: "quote_state new_redactor"
  by (simp add: quote_state_def new_redactor_def)

subsection \<open>What the operator sees of a command line\<close>

text \<open>Redaction keeps the layout of a command line: hiding every word of the redacted line gives
  the same text as hiding every word of the original, so the white space is preserved exactly and no
  word is added, split or dropped.\<close>

theorem redaction_keeps_layout: "mask_words (redact_command_line text) = mask_words text"
  by (simp add: redact_command_line_def mask_words_redact)

text \<open>Without quote characters no value runs over several words.\<close>

definition unquoted :: "rstr \<Rightarrow> bool" where
  "unquoted s \<longleftrightarrow> (\<forall>c \<in> set s. \<not> is_quote c)"

lemma unquoted_append [simp]: "unquoted (a @ b) \<longleftrightarrow> unquoted a \<and> unquoted b"
  by (auto simp: unquoted_def)

lemma unquoted_trim: "unquoted w \<Longrightarrow> trim_matches is_quote w = w"
proof -
  have *: "dropWhile is_quote t = t" if "unquoted t" for t
    using that by (cases t) (auto simp: unquoted_def)
  assume "unquoted w"
  then show ?thesis by (simp add: trim_matches_def trim_end_matches_def * unquoted_def)
qed

lemma unquoted_opening: "unquoted w \<Longrightarrow> opening_quote w = None"
  by (auto simp: opening_quote_def unquoted_def split: list.split)

lemma unquoted_split_once: "unquoted w \<Longrightarrow> split_once d w = Some (a, b) \<Longrightarrow> unquoted a \<and> unquoted b"
  by (auto simp: split_once_Some_iff unquoted_def)

lemma unquoted_token_state:
  assumes "unquoted w" and "quoted r = None"
  shows "quoted (snd (redact_token w r)) = None"
proof -
  have h: "quoted (snd (redact_header w w (r\<lparr>pending := 0\<rparr>))) = None"
    using assms by (auto simp: redact_header_def unquoted_opening split: option.split)
  have "opening_quote b = None" if "split_once 61 w = Some (a, b)" for a b
    using unquoted_split_once [OF assms(1) that] by (simp add: unquoted_opening)
  with h have "quoted (snd (redact_marker w w (r\<lparr>pending := 0\<rparr>))) = None"
    using assms(2) by (auto simp: redact_marker_def split: option.split)
  with assms show ?thesis
    by (simp add: redact_token_def Let_def unquoted_trim unquoted_opening)
qed

lemma unquoted_redact_state:
  "unquoted s \<Longrightarrow> quoted r = None \<Longrightarrow> quoted (snd (redact s r)) = None"
proof (induction s arbitrary: r rule: text_words_induct)
  case (space g)
  then show ?case by (simp add: redact_space)
next
  case (word g w rest)
  then show ?case by (simp add: redact_gap_word [OF word(1-4)] unquoted_token_state)
qed

definition is_option_word :: "rstr \<Rightarrow> bool" where
  "is_option_word w \<longleftrightarrow> starts_with (lit ''-'') w \<and> 61 \<notin> set w \<and> 58 \<notin> set w \<and> unquoted w"

lemma option_word_token:
  assumes "is_option_word w" and "quoted r = None"
  shows "redact_token w r = (w, r\<lparr>pending := if contains_sensitive_key w
      \<or> eq_ignore_ascii_case w (lit ''bearer'') \<or> eq_ignore_ascii_case w (lit ''basic'') then 1 else 0\<rparr>)"
  using assms
  by (auto simp: is_option_word_def redact_token_def redact_marker_def redact_header_def unquoted_trim
      split_once_None_iff [THEN iffD2] Let_def split: option.splits)

lemma option_words_kept:
  "list_all unquoted ws \<Longrightarrow> quoted r = None \<Longrightarrow>
   list_all2 (\<lambda>w out. is_option_word w \<longrightarrow> out = w) ws (fst (redact_words ws r))"
proof (induction ws arbitrary: r)
  case (Cons w ws)
  then have "quoted (snd (redact_token w r)) = None" by (simp add: unquoted_token_state)
  with Cons show ?case by (auto simp: case_prod_beta option_word_token)
qed simp

lemma unquoted_words: "unquoted s \<Longrightarrow> list_all unquoted (split_whitespace s)"
proof (induction s rule: text_words_induct)
  case (space g)
  then show ?case by (simp add: split_whitespace_space)
next
  case (word g w rest)
  then show ?case by (simp add: split_whitespace_gap_word [OF word(1-4)])
qed

text \<open>On a line without quote characters redaction never hides an option: at every position where
  the operator's line has a word that begins with a dash and holds neither an equals sign nor a
  colon, the redacted line has that word, whatever marker precedes it.\<close>

theorem options_stay_visible:
  assumes "unquoted text"
  shows "list_all2 (\<lambda>w out. is_option_word w \<longrightarrow> out = w)
           (split_whitespace text) (split_whitespace (redact_command_line text))"
proof -
  have "quoted new_redactor = None" by (simp add: new_redactor_def)
  from option_words_kept [OF unquoted_words [OF assms] this] show ?thesis
    by (simp add: redact_command_line_def split_whitespace_redact)
qed

text \<open>What may follow a secret-naming option as its value.\<close>

definition is_value_word :: "rstr \<Rightarrow> bool" where
  "is_value_word w \<longleftrightarrow> w \<noteq> [] \<and> no_space w \<and> unquoted w \<and> \<not> starts_with (lit ''-'') w"

text \<open>The definitions a concrete command line needs.\<close>

lemmas redaction_eval = lit_def is_whitespace_def is_quote_def unquoted_def no_space_def is_option_word_def
  is_value_word_def contains_sensitive_key_def SENSITIVE_KEYS_def to_ascii_lowercase_def ascii_lower_def
  is_ascii_alphanumeric_def

lemma value_word_token:
  assumes "is_value_word w" and "quoted r = None" and "0 < pending r"
  shows "redact_token w r = (REDACTED, r\<lparr>pending := pending r - 1\<rparr>)"
  using assms by (simp add: is_value_word_def redact_token_def unquoted_trim unquoted_opening)

lemma redact_option_value:
  assumes "is_option_word opt" and "no_space opt" and "contains_sensitive_key opt"
    and "\<forall>c \<in> set g. is_whitespace c" and "\<forall>c \<in> set g'. is_whitespace c" and "g' \<noteq> []"
    and "is_value_word w" and "rest = [] \<or> is_whitespace (hd rest)" and "quoted r = None"
  shows "redact (g @ opt @ g' @ w @ rest) r =
           (g @ opt @ g' @ REDACTED @ fst (redact rest (r\<lparr>pending := 0\<rparr>)), snd (redact rest (r\<lparr>pending := 0\<rparr>)))"
proof -
  have "opt \<noteq> []" using assms(1) by (auto simp: is_option_word_def lit_def)
  moreover have "g' @ w @ rest = [] \<or> is_whitespace (hd (g' @ w @ rest))"
    using assms(5,6) by (cases g') auto
  ultimately have "redact (g @ opt @ (g' @ w @ rest)) r =
      (g @ opt @ fst (redact (g' @ w @ rest) (r\<lparr>pending := 1\<rparr>)), snd (redact (g' @ w @ rest) (r\<lparr>pending := 1\<rparr>)))"
    using assms by (subst redact_gap_word) (simp_all add: option_word_token)
  moreover have "redact_token w (r\<lparr>pending := 1\<rparr>) = (REDACTED, r\<lparr>pending := 0\<rparr>)"
    using value_word_token [OF assms(7), of "r\<lparr>pending := 1\<rparr>"] assms(9) by simp
  ultimately show ?thesis
    using assms by (simp add: redact_gap_word is_value_word_def)
qed

text \<open>The word after a secret-naming option has no influence on what is shown: two command lines
  that differ only in the value that follows such an option, wherever on the line it stands, are
  redacted to the same text.\<close>

theorem option_value_has_no_influence:
  assumes "unquoted pre" and "\<forall>c \<in> set g. is_whitespace c" and "pre = [] \<or> g \<noteq> []"
    and "is_option_word opt" and "no_space opt" and "contains_sensitive_key opt"
    and "\<forall>c \<in> set g'. is_whitespace c" and "g' \<noteq> []"
    and "is_value_word v" and "is_value_word w" and "rest = [] \<or> is_whitespace (hd rest)"
  shows "redact_command_line (pre @ g @ opt @ g' @ v @ rest)
       = redact_command_line (pre @ g @ opt @ g' @ w @ rest)"
proof -
  have *: "redact_command_line (pre @ g @ opt @ g' @ x @ rest) =
      fst (redact pre new_redactor) @ g @ opt @ g' @ REDACTED
        @ fst (redact rest ((snd (redact pre new_redactor))\<lparr>pending := 0\<rparr>))"
    if "is_value_word x" for x
  proof (cases "pre = []")
    case True
    have "fst (redact [] new_redactor) = []" "snd (redact [] new_redactor) = new_redactor"
      by (simp_all add: redact_space)
    then show ?thesis
      using assms that True by (simp add: redact_command_line_def redact_option_value new_redactor_def)
  next
    case False
    then have "is_whitespace (hd (g @ opt @ g' @ x @ rest))" using assms(2,3) by (cases g) auto
    moreover have "quoted (snd (redact pre new_redactor)) = None"
      using assms(1) by (simp add: unquoted_redact_state new_redactor_def)
    ultimately show ?thesis
      using assms that by (simp add: redact_command_line_def redact_append redact_option_value)
  qed
  show ?thesis using assms(9,10) by (simp add: *)
qed

theorem option_value_has_no_influence_witness:
  "redact_command_line (lit ''curl'' @ lit '' '' @ lit ''--api-key'' @ lit '' '' @ lit ''s3cr3t'' @ lit '' -v'')
   = redact_command_line (lit ''curl'' @ lit '' '' @ lit ''--api-key'' @ lit '' '' @ lit ''other'' @ lit '' -v'')"
  by (rule option_value_has_no_influence) (simp_all add: redaction_eval)

theorem options_stay_visible_witness:
  "list_all2 (\<lambda>w out. is_option_word w \<longrightarrow> out = w) (split_whitespace (lit ''rm --token -rf x''))
     (split_whitespace (redact_command_line (lit ''rm --token -rf x'')))"
  by (rule options_stay_visible) (simp add: redaction_eval)


subsection \<open>Argument vectors and objects\<close>

fun array_state :: "command_redactor \<Rightarrow> json list \<Rightarrow> command_redactor" where
  "array_state r [] = r"
| "array_state r (item # items) =
     array_state (case item of JString text \<Rightarrow> snd (redact_argument text r) | _ \<Rightarrow> reset_redactor r) items"

lemma redact_argument_array_append:
  "redact_argument_array r (xs @ ys) = redact_argument_array r xs @ redact_argument_array (array_state r xs) ys"
  by (induction xs arbitrary: r) (auto simp: case_prod_beta split: json.split)

lemma redact_argument_quoted: "quoted r = None \<Longrightarrow> quoted (snd (redact_argument text r)) = None"
  by (auto simp: redact_argument_def Let_def split: option.split prod.split)

lemma array_state_quoted: "quoted r = None \<Longrightarrow> quoted (array_state r xs) = None"
proof (induction xs arbitrary: r)
  case (Cons x xs)
  then show ?case by (cases x) (simp_all add: redact_argument_quoted reset_redactor_def)
qed simp

text \<open>An option standing alone as one argument owns no value of its own.\<close>

lemma option_argument:
  assumes "is_option_word opt" and "no_space opt" and "contains_sensitive_key opt" and "quoted r = None"
  shows "redact_argument opt r = (opt, r\<lparr>pending := 1\<rparr>)"
proof -
  have ne: "opt \<noteq> []" and dash: "starts_with (lit ''-'') opt"
    using assms(1) by (auto simp: is_option_word_def lit_def)
  have start: "trim_start opt = opt"
    using assms(2) by (cases opt) (simp_all add: trim_start_def)
  have "\<forall>c \<in> set opt. \<not> (c = 61 \<or> c = 58 \<or> is_whitespace c)"
    using assms(1,2) by (auto simp: is_option_word_def no_space_def)
  then have "dropWhile (\<lambda>c. \<not> (c = 61 \<or> c = 58 \<or> is_whitespace c)) opt = []"
    by (simp only: dropWhile_eq_Nil_conv)
  then have "redact_owned_value opt = None"
    unfolding redact_owned_value_def Let_def start by (simp del: dropWhile_eq_Nil_conv)
  moreover have "redact opt r = (opt, r\<lparr>pending := 1\<rparr>)"
    using redact_gap_word [of "[]" opt "[]" r] assms ne by (simp add: option_word_token redact_space)
  ultimately show ?thesis
    using dash assms(4) by (simp add: redact_argument_def start)
qed

text \<open>In an argument vector the element after a secret-naming option has no influence on the
  snapshot, wherever in the array the option stands and whatever the elements before it left
  pending; the value may hold spaces, quotes and separators of its own.\<close>

theorem argv_value_has_no_influence:
  assumes "is_option_word opt" and "no_space opt" and "contains_sensitive_key opt"
    and "trim_start v \<noteq> []" and "\<not> starts_with (lit ''-'') (trim_start v)"
    and "trim_start w \<noteq> []" and "\<not> starts_with (lit ''-'') (trim_start w)"
  shows "redact_argument_value (JArray (pre @ JString opt # JString v # post)) False
       = redact_argument_value (JArray (pre @ JString opt # JString w # post)) False"
proof -
  have q: "quoted (array_state new_redactor pre) = None"
    by (simp add: array_state_quoted new_redactor_def)
  have "redact_argument x (r\<lparr>pending := 1\<rparr>) = (REDACTED, r\<lparr>pending := 0\<rparr>)"
    if "trim_start x \<noteq> []" "\<not> starts_with (lit ''-'') (trim_start x)" for x and r :: command_redactor
    using that by (simp add: redact_argument_def)
  then show ?thesis
    using assms q by (simp add: redact_argument_array_append option_argument)
qed

theorem argv_value_has_no_influence_witness:
  "redact_argument_value (JArray ([JNull] @ JString (lit ''--password'') # JString (lit ''two words'') # [])) False
   = redact_argument_value (JArray ([JNull] @ JString (lit ''--password'') # JString (lit ''x=y'') # [])) False"
  by (rule argv_value_has_no_influence) (simp_all add: redaction_eval trim_start_def)

text \<open>Two argument values that differ at most in what sits under a sensitive key, or in the value
  field of an object one of whose name fields names a secret.\<close>

fun same_but_secrets :: "json \<Rightarrow> json \<Rightarrow> bool"
  and same_fields :: "bool \<Rightarrow> (rstr \<times> json) list \<Rightarrow> (rstr \<times> json) list \<Rightarrow> bool"
  and same_items :: "json list \<Rightarrow> json list \<Rightarrow> bool" where
  "same_but_secrets (JObject fs) (JObject gs) \<longleftrightarrow> same_fields (names_a_sensitive_sibling fs) fs gs"
| "same_but_secrets (JArray xs) (JArray ys) \<longleftrightarrow> same_items xs ys"
| "same_but_secrets v w \<longleftrightarrow> v = w"
| "same_fields governed [] gs \<longleftrightarrow> gs = []"
| "same_fields governed ((k, v) # fs) [] \<longleftrightarrow> False"
| "same_fields governed ((k, v) # fs) ((k', w) # gs) \<longleftrightarrow>
     k = k' \<and> same_fields governed fs gs \<and>
     (if contains_sensitive_key k \<or> governed \<and> is_value_field k then True else same_but_secrets v w)"
| "same_items [] ys \<longleftrightarrow> ys = []"
| "same_items (x # xs) [] \<longleftrightarrow> False"
| "same_items (x # xs) (y # ys) \<longleftrightarrow> same_but_secrets x y \<and> same_items xs ys"

text \<open>A field that names a setting is never itself hidden.\<close>

lemma name_field_not_sensitive:
  assumes "to_ascii_lowercase k \<in> set NAME_FIELDS"
  shows "\<not> contains_sensitive_key k" and "\<not> is_value_field k"
proof -
  have low: "to_ascii_lowercase (filter is_ascii_alphanumeric k)
               = filter is_ascii_alphanumeric (to_ascii_lowercase k)"
    unfolding to_ascii_lowercase_def filter_map
    by (rule arg_cong [where f = "map ascii_lower"], rule filter_cong [OF refl])
       (auto simp: is_ascii_alphanumeric_def ascii_lower_def)
  show "\<not> contains_sensitive_key k"
    using assms unfolding contains_sensitive_key_def low Let_def
    by (auto simp: NAME_FIELDS_def SENSITIVE_KEYS_def lit_def is_ascii_alphanumeric_def)
  show "\<not> is_value_field k"
    using assms by (auto simp: NAME_FIELDS_def VALUE_FIELDS_def is_value_field_def lit_def)
qed

lemma same_but_secrets_as_str: "same_but_secrets v w \<Longrightarrow> as_str v = as_str w"
  by (cases v; cases w) (simp_all add: as_str_def)

lemma same_fields_governed:
  "same_fields b fs gs \<Longrightarrow> names_a_sensitive_sibling fs = names_a_sensitive_sibling gs"
proof (induction fs arbitrary: gs)
  case (Cons f fs)
  then show ?case
    by (cases gs; cases f)
       (auto simp: names_a_sensitive_sibling_def name_field_not_sensitive same_but_secrets_as_str)
qed simp

lemma same_redacted:
  "same_but_secrets v w \<Longrightarrow> redact_argument_value v False = redact_argument_value w False"
  "same_fields b fs gs \<Longrightarrow> redact_argument_fields b fs = redact_argument_fields b gs"
  "same_items xs ys \<Longrightarrow> redact_argument_array r xs = redact_argument_array r ys"
proof (induction v w and b fs gs and xs ys arbitrary: and and r
       rule: same_but_secrets_same_fields_same_items.induct)
  case (1 fs gs)
  moreover from this have "names_a_sensitive_sibling gs = names_a_sensitive_sibling fs"
    by (auto dest: same_fields_governed)
  ultimately show ?case by simp
qed (auto split: json.split)

text \<open>C31. The values under sensitive keys have no influence on an approval card: two calls whose
  arguments differ only below keys that name a secret, at any depth of objects and arrays, or in the
  value field of an object whose name field names one, get the same snapshot from any JSON
  printer.\<close>

theorem secret_values_have_no_influence:
  assumes "same_but_secrets v w"
  shows "redacted_arguments to_string_pretty v = redacted_arguments to_string_pretty w"
proof -
  have empty: "same_fields b fs gs \<Longrightarrow> fs = [] \<longleftrightarrow> gs = []" for b fs gs
    by (cases fs; cases gs) auto
  have "v = JNull \<longleftrightarrow> w = JNull" using assms by (cases v; cases w) auto
  moreover have "v = JObject [] \<longleftrightarrow> w = JObject []"
    using assms by (cases v; cases w) (auto dest: empty)
  ultimately show ?thesis
    using same_redacted(1) [OF assms] by (simp add: redacted_arguments_def)
qed

theorem secret_values_have_no_influence_witness:
  "redacted_arguments (\<lambda>_. None)
     (JObject [(lit ''headers'', JArray [JObject [(lit ''X-Api-Key'', JString (lit ''abc''))],
        JObject [(lit ''name'', JString (lit ''auth_token'')), (lit ''value'', JNumber (lit ''7''))]])])
   = redacted_arguments (\<lambda>_. None)
     (JObject [(lit ''headers'', JArray [JObject [(lit ''X-Api-Key'', JNull)],
        JObject [(lit ''name'', JString (lit ''auth_token'')), (lit ''value'', JString (lit ''q''))]])])"
  by (rule secret_values_have_no_influence)
     (simp add: redaction_eval names_a_sensitive_sibling_def is_value_field_def NAME_FIELDS_def VALUE_FIELDS_def
        as_str_def)

subsection \<open>The size of the card\<close>

lemma snapshot_cut_range:
  assumes "n \<le> utf8_len s"
  shows "is_char_boundary s (snapshot_cut s n)" and "snapshot_cut s n \<le> n" and "n \<le> snapshot_cut s n + 3"
proof -
  obtain k where k: "k \<le> 3" "k \<le> n" "is_char_boundary s (n - k)" using boundary_near [OF assms] by blast
  have *: "k \<le> n \<Longrightarrow> is_char_boundary s (n - k) \<Longrightarrow>
      is_char_boundary s (snapshot_cut s n) \<and> snapshot_cut s n \<le> n \<and> n \<le> snapshot_cut s n + k" for n k
  proof (induction s n arbitrary: k rule: snapshot_cut.induct)
    case (1 s n)
    show ?case
    proof (cases "0 < n \<and> \<not> is_char_boundary s n")
      case True
      then obtain j where j: "k = Suc j" using 1(3) by (cases k) auto
      have "snapshot_cut s n = snapshot_cut s (n - 1)" using True by (subst snapshot_cut.simps) simp
      moreover have "is_char_boundary s (snapshot_cut s (n - 1)) \<and> snapshot_cut s (n - 1) \<le> n - 1
          \<and> n - 1 \<le> snapshot_cut s (n - 1) + j"
        using 1 True j by (intro 1(1)) auto
      ultimately show ?thesis using True j by auto
    next
      case False
      then have "snapshot_cut s n = n" by (subst snapshot_cut.simps) auto
      with False show ?thesis by auto
    qed
  qed
  from * [OF k(2,3)] k(1)
  show "is_char_boundary s (snapshot_cut s n)" "snapshot_cut s n \<le> n" "n \<le> snapshot_cut s n + 3"
    by auto
qed

text \<open>A snapshot within the byte budget is shown whole. A longer one is shown as a prefix of itself
  that ends on a character boundary, fills the budget of 4096 bytes up to at most three bytes, and is
  followed by a marker with the exact number of bytes left out.\<close>

theorem snapshot_is_bounded:
  "bound_snapshot s = s \<and> utf8_len s \<le> MAX_PREVIEW_ARGUMENTS_BYTES \<or>
   (\<exists>kept rest. s = kept @ rest \<and> rest \<noteq> []
      \<and> utf8_len kept \<le> MAX_PREVIEW_ARGUMENTS_BYTES \<and> MAX_PREVIEW_ARGUMENTS_BYTES \<le> utf8_len kept + 3
      \<and> bound_snapshot s = kept @ [10, 8230] @ lit '' [truncated, '' @ show_nat (utf8_len rest) @ lit '' more bytes]'')"
proof (cases "utf8_len s \<le> MAX_PREVIEW_ARGUMENTS_BYTES")
  case True
  then show ?thesis by (simp add: bound_snapshot_def)
next
  case False
  let ?cut = "snapshot_cut s MAX_PREVIEW_ARGUMENTS_BYTES"
  let ?kept = "byte_prefix ?cut s"
  from False have c: "is_char_boundary s ?cut" "?cut \<le> MAX_PREVIEW_ARGUMENTS_BYTES"
    "MAX_PREVIEW_ARGUMENTS_BYTES \<le> ?cut + 3" using snapshot_cut_range [of MAX_PREVIEW_ARGUMENTS_BYTES s] by auto
  obtain rest where r: "s = ?kept @ rest" using byte_prefix_prefix by blast
  have len: "utf8_len ?kept = ?cut" using byte_prefix_boundary [OF c(1)] .
  have tot: "utf8_len s = ?cut + utf8_len rest" using len r by (metis utf8_len_simps(3))
  have "rest \<noteq> []" using False tot c(2) by (cases rest) auto
  moreover have "bound_snapshot s = ?kept @ [10, 8230] @ lit '' [truncated, '' @ show_nat (utf8_len rest) @ lit '' more bytes]''"
    using False tot by (simp add: bound_snapshot_def Let_def)
  ultimately show ?thesis using r len c(2,3) by (intro disjI2 exI [of _ ?kept] exI [of _ rest]) simp
qed

end
