(* ===== verification/Tool_Registry.thy ===== *)
theory Tool_Registry
  imports Tool_Permissions Redaction
begin

section \<open>The tool registry and its gate\<close>

text \<open>
  \<open>core/agent/registry.rs\<close>. A registered tool is its definition, its handler, its execution policy and
  its input validator. Handlers and validators are closures of other modules: fields of the record, of
  arbitrary behaviour. They read a world that changes under them (files, symbolic links, the settings
  on disk), so a validator is a function of the world and of the input, and the policy loader is a
  function of the world. The world is a type parameter of the registry.

  The gate is \<open>decide_with_targets\<close>. What it promises its client, the session loop, is the locale
  \<open>tool_gate\<close> of the theory \<open>Agent_Session\<close>; the facts that discharge it are proved here.
\<close>

record image_asset =
  asset_id :: rstr
  asset_path :: rstr
  asset_media_type :: rstr
  asset_size_bytes :: u64

datatype tool_result_content =
    ResultText rstr
  | ResultImage "nat list" rstr
  | ResultImageAsset image_asset
  | ResultError rstr

record tool_definition =
  tool_name :: rstr
  description :: rstr
  input_schema :: json

record tool_execution_policy =
  tool_origin :: tool_origin
  tool_risk :: tool_risk
  requires_approval :: bool

record tool_call_preview =
  preview_summary :: rstr
  preview_command :: "rstr option"
  preview_cwd :: "rstr option"
  preview_paths :: "rstr list"

record tool_approval_request =
  req_call_id :: rstr
  req_session_id :: rstr
  req_thread_id :: rstr
  req_tool :: rstr
  req_origin :: tool_origin
  req_risk :: tool_risk
  req_summary :: rstr
  req_command :: "rstr option"
  req_cwd :: "rstr option"
  req_paths :: "rstr list"
  req_arguments :: "rstr option"

datatype tool_decision = DecAllow | RequireApproval tool_approval_request | DecDeny rstr

record 'w registered_tool =
  definition_of :: tool_definition
  handler :: "'w \<Rightarrow> json \<Rightarrow> 'w \<times> tool_result_content list"
  policy_of :: tool_execution_policy
  validator :: "('w \<Rightarrow> json \<Rightarrow> rstr + tool_call_preview) option"

record 'w tool_registry =
  registered :: "rstr \<rightharpoonup> 'w registered_tool"
  policy :: agent_permissions
  policy_loader :: "('w \<Rightarrow> agent_permissions) option"
  thread_overrides :: "rstr \<rightharpoonup> permission_level"
  thread_context_tools :: "rstr set"

subsection \<open>Construction\<close>

definition native_policy :: "tool_risk \<Rightarrow> tool_execution_policy" where
  "native_policy risk = \<lparr>tool_origin = Native, tool_risk = risk, requires_approval = False\<rparr>"

definition native_unclassified :: tool_execution_policy where
  "native_unclassified = native_policy UnknownRisk"

definition default_preview :: tool_call_preview where
  "default_preview = \<lparr>preview_summary = [], preview_command = None, preview_cwd = None, preview_paths = []\<rparr>"

definition new_registry :: "'w tool_registry" where
  "new_registry = \<lparr>registered = Map.empty, policy = default_permissions, policy_loader = None,
     thread_overrides = Map.empty, thread_context_tools = {}\<rparr>"

definition enable_thread_context :: "rstr \<Rightarrow> 'w tool_registry \<Rightarrow> 'w tool_registry" where
  "enable_thread_context name reg = reg\<lparr>thread_context_tools := insert name (thread_context_tools reg)\<rparr>"

definition set_policy :: "agent_permissions \<Rightarrow> 'w tool_registry \<Rightarrow> 'w tool_registry" where
  "set_policy p reg = reg\<lparr>policy := p\<rparr>"

text \<open>\<open>disk_of\<close> is the part of the world the policy is loaded from.\<close>

definition enable_policy_hot_reload :: "('w \<Rightarrow> agent_disk) \<Rightarrow> 'w tool_registry \<Rightarrow> 'w tool_registry" where
  "enable_policy_hot_reload disk_of reg = reg\<lparr>policy_loader := Some (\<lambda>w. live_policy (disk_of w))\<rparr>"

definition set_granted :: "rstr list \<Rightarrow> 'w tool_registry \<Rightarrow> 'w tool_registry" where
  "set_granted granted reg = reg\<lparr>policy := with_legacy_grants granted (policy reg)\<rparr>"

definition set_thread_override :: "rstr \<Rightarrow> permission_level \<Rightarrow> 'w tool_registry \<Rightarrow> 'w tool_registry" where
  "set_thread_override identity level reg = reg\<lparr>thread_overrides := (thread_overrides reg)(identity \<mapsto> level)\<rparr>"

definition register_with_policy ::
  "tool_definition \<Rightarrow> ('w \<Rightarrow> json \<Rightarrow> 'w \<times> tool_result_content list) \<Rightarrow> tool_execution_policy
     \<Rightarrow> ('w \<Rightarrow> json \<Rightarrow> rstr + tool_call_preview) option \<Rightarrow> 'w tool_registry \<Rightarrow> rstr + 'w tool_registry" where
  "register_with_policy def h pol val reg =
     (let name = tool_name def
      in if registered reg name \<noteq> None then Inl (lit ''Tool '' @ [39] @ name @ [39] @ lit '' is already registered'')
         else Inr (reg\<lparr>registered := (registered reg)(name \<mapsto>
                \<lparr>definition_of = def, handler = h, policy_of = pol, validator = val\<rparr>)\<rparr>))"

definition register_native ::
  "tool_definition \<Rightarrow> ('w \<Rightarrow> json \<Rightarrow> 'w \<times> tool_result_content list) \<Rightarrow> tool_risk \<Rightarrow> 'w tool_registry
     \<Rightarrow> rstr + 'w tool_registry" where
  "register_native def h risk reg = register_with_policy def h (native_policy risk) None reg"

definition register_tool ::
  "tool_definition \<Rightarrow> ('w \<Rightarrow> json \<Rightarrow> 'w \<times> tool_result_content list) \<Rightarrow> 'w tool_registry \<Rightarrow> rstr + 'w tool_registry" where
  "register_tool def h reg = register_with_policy def h native_unclassified None reg"

text \<open>\<open>definitions\<close> walks the hash map; \<open>names\<close> is the order of the walk.\<close>

definition definitions :: "'w tool_registry \<Rightarrow> rstr list \<Rightarrow> tool_definition list" where
  "definitions reg names = map definition_of (List.map_filter (registered reg) names)"

definition policy_for :: "'w tool_registry \<Rightarrow> rstr \<Rightarrow> tool_execution_policy option" where
  "policy_for reg name = map_option policy_of (registered reg name)"

subsection \<open>The gate\<close>

definition effective_level ::
  "'w tool_registry \<Rightarrow> agent_permissions \<Rightarrow> rstr \<Rightarrow> 'w registered_tool \<Rightarrow> permission_level \<times> permission_source" where
  "effective_level reg p name tool =
     (case resolve_for_origin_with_source p name (tool_origin (policy_of tool)) (tool_risk (policy_of tool))
             (thread_overrides reg) of
        (level, source) \<Rightarrow>
          (if requires_approval (policy_of tool) \<and> source = DefaultRule \<and> level = Allow then Ask else level,
           source))"

definition validated_preview :: "'w registered_tool \<Rightarrow> 'w \<Rightarrow> json \<Rightarrow> rstr + tool_call_preview" where
  "validated_preview tool w input =
     (case validator tool of Some validate \<Rightarrow> validate w input | None \<Rightarrow> Inr default_preview)"

definition current_policy :: "'w tool_registry \<Rightarrow> 'w \<Rightarrow> agent_permissions" where
  "current_policy reg w = (case policy_loader reg of Some loader \<Rightarrow> loader w | None \<Rightarrow> policy reg)"

text \<open>The secret-path escalation: an \<open>Allow\<close> becomes an \<open>Ask\<close> whose preview names the path.\<close>

definition escalate_secret ::
  "json \<Rightarrow> rstr list \<Rightarrow> permission_level \<Rightarrow> tool_call_preview \<Rightarrow> permission_level \<times> tool_call_preview" where
  "escalate_secret input targets level preview =
     (case (if level = Allow then find_secret_target input targets else None) of
        Some secret \<Rightarrow>
          (let note = lit ''Touches secret-bearing path: '' @ secret
           in (Ask, preview\<lparr>
                preview_summary := if preview_summary preview = [] then note
                                   else preview_summary preview @ lit '' '' @ [8212] @ lit '' '' @ note,
                preview_paths := if secret \<in> set (preview_paths preview) then preview_paths preview
                                 else preview_paths preview @ [secret]\<rparr>))
      | None \<Rightarrow> (level, preview))"

definition approval_request ::
  "(json \<Rightarrow> rstr option) \<Rightarrow> rstr \<Rightarrow> 'w registered_tool \<Rightarrow> json \<Rightarrow> rstr \<Rightarrow> rstr \<Rightarrow> rstr
     \<Rightarrow> tool_call_preview \<Rightarrow> tool_approval_request" where
  "approval_request to_string_pretty name tool input call_id session_id thread_id preview =
     \<lparr>req_call_id = call_id, req_session_id = session_id, req_thread_id = thread_id, req_tool = name,
      req_origin = tool_origin (policy_of tool), req_risk = tool_risk (policy_of tool),
      req_summary = redact_command_line (preview_summary preview),
      req_command = map_option redact_command_line (preview_command preview),
      req_cwd = preview_cwd preview, req_paths = preview_paths preview,
      req_arguments = redacted_arguments to_string_pretty input\<rparr>"

definition is_mcp :: "tool_origin \<Rightarrow> bool" where
  "is_mcp origin = (case origin of Mcp _ _ \<Rightarrow> True | Native \<Rightarrow> False)"

definition decide_with_targets ::
  "(json \<Rightarrow> rstr option) \<Rightarrow> 'w tool_registry \<Rightarrow> 'w \<Rightarrow> rstr \<Rightarrow> json \<Rightarrow> rstr \<Rightarrow> rstr \<Rightarrow> rstr
     \<Rightarrow> tool_decision \<times> rstr list" where
  "decide_with_targets to_string_pretty reg w name input call_id session_id thread_id =
     (case registered reg name of
        None \<Rightarrow> (DecDeny (lit ''Tool '' @ [39] @ name @ [39] @ lit '' is not registered''), [])
      | Some tool \<Rightarrow>
          (case validated_preview tool w input of
             Inl err \<Rightarrow> (DecDeny err, [])
           | Inr preview \<Rightarrow>
               (let targets = preview_paths preview
                in if is_mcp (tool_origin (policy_of tool)) \<and> tool_risk (policy_of tool) = Destructive
                   then (DecDeny (lit ''External tool '' @ [39] @ name @ [39] @ lit '' is denied by policy (''
                                  @ risk_as_str (tool_risk (policy_of tool)) @ lit '')''), targets)
                   else (case escalate_secret input targets
                                (fst (effective_level reg (current_policy reg w) name tool)) preview of
                           (Allow, _) \<Rightarrow> (DecAllow, targets)
                         | (Deny, _) \<Rightarrow> (DecDeny (lit ''Tool '' @ [39] @ name @ [39]
                                                     @ lit '' is denied by operator policy''), targets)
                         | (Ask, preview') \<Rightarrow>
                             (RequireApproval (approval_request to_string_pretty name tool input call_id
                                session_id thread_id preview'), targets)))))"

definition decide ::
  "(json \<Rightarrow> rstr option) \<Rightarrow> 'w tool_registry \<Rightarrow> 'w \<Rightarrow> rstr \<Rightarrow> json \<Rightarrow> rstr \<Rightarrow> rstr \<Rightarrow> rstr \<Rightarrow> tool_decision" where
  "decide to_string_pretty reg w name input call_id session_id thread_id =
     fst (decide_with_targets to_string_pretty reg w name input call_id session_id thread_id)"

definition confirm_targets :: "'w tool_registry \<Rightarrow> 'w \<Rightarrow> rstr \<Rightarrow> json \<Rightarrow> rstr list \<Rightarrow> rstr + unit" where
  "confirm_targets reg w name input decided =
     (case registered reg name of
        None \<Rightarrow> Inl (lit ''Tool '' @ [39] @ name @ [39] @ lit '' is not registered'')
      | Some tool \<Rightarrow>
          (case validated_preview tool w input of
             Inl err \<Rightarrow> Inl err
           | Inr preview \<Rightarrow>
               if preview_paths preview \<noteq> decided
               then Inl (lit ''Tool '' @ [39] @ name @ [39] @ lit '' call target changed after authorization'')
               else Inr ()))"

subsection \<open>Capabilities\<close>

record tool_capability =
  cap_name :: rstr
  cap_identity :: rstr
  cap_origin :: rstr
  cap_server :: "rstr option"
  cap_risk :: rstr
  cap_effective :: permission_level
  cap_source :: permission_source
  cap_requires_approval_flag :: bool

definition capability_of :: "'w tool_registry \<Rightarrow> rstr \<Rightarrow> 'w registered_tool \<Rightarrow> tool_capability" where
  "capability_of reg name tool =
     (let origin = tool_origin (policy_of tool);
          lev = effective_level reg (policy reg) name tool
      in \<lparr>cap_name = name, cap_identity = tool_identity origin name,
          cap_origin = (case origin of Native \<Rightarrow> lit ''native'' | Mcp server _ \<Rightarrow> lit ''mcp:'' @ server),
          cap_server = origin_server origin, cap_risk = risk_as_str (tool_risk (policy_of tool)),
          cap_effective = fst lev, cap_source = snd lev,
          cap_requires_approval_flag = requires_approval (policy_of tool)\<rparr>)"

text \<open>\<open>sort_by\<close> on the identities is stable; \<open>names\<close> is the order in which the hash map is walked.\<close>

fun insert_capability :: "tool_capability \<Rightarrow> tool_capability list \<Rightarrow> tool_capability list" where
  "insert_capability c [] = [c]"
| "insert_capability c (c' # cs) =
     (if str_less (cap_identity c') (cap_identity c) then c' # insert_capability c cs else c # c' # cs)"

definition capabilities :: "'w tool_registry \<Rightarrow> rstr list \<Rightarrow> tool_capability list" where
  "capabilities reg names =
     foldr insert_capability
       (List.map_filter (\<lambda>name. map_option (capability_of reg name) (registered reg name)) names) []"

subsection \<open>Dispatch\<close>

definition dispatch ::
  "'w tool_registry \<Rightarrow> 'w \<Rightarrow> rstr \<Rightarrow> json \<Rightarrow> rstr + 'w \<times> tool_result_content list" where
  "dispatch reg w name input =
     (case registered reg name of
        None \<Rightarrow> Inl (lit ''Tool '' @ [39] @ name @ [39] @ lit '' is not registered'')
      | Some tool \<Rightarrow> Inr (handler tool w input))"

definition thread_input :: "'w tool_registry \<Rightarrow> rstr \<Rightarrow> json \<Rightarrow> rstr \<Rightarrow> json" where
  "thread_input reg name input thread_id =
     (case input of
        JObject flds \<Rightarrow>
          if name \<in> thread_context_tools reg
          then JObject (json_insert (lit ''_thread_id'') (JString thread_id) flds) else input
      | _ \<Rightarrow> input)"

definition dispatch_in_thread ::
  "'w tool_registry \<Rightarrow> 'w \<Rightarrow> rstr \<Rightarrow> json \<Rightarrow> rstr \<Rightarrow> rstr + 'w \<times> tool_result_content list" where
  "dispatch_in_thread reg w name input thread_id = dispatch reg w name (thread_input reg name input thread_id)"

subsection \<open>Registration\<close>

text \<open>Registration never shadows: a successful registration keeps every tool already there, so the
  gate's verdict on every call of another name is what it was, and it adds exactly the one name; a
  taken name is refused.\<close>

theorem registration_never_shadows:
  assumes "register_with_policy def h pol val reg = Inr reg'"
  shows "registered reg (tool_name def) = None \<and> registered reg \<subseteq>\<^sub>m registered reg'
    \<and> dom (registered reg') = insert (tool_name def) (dom (registered reg))
    \<and> (\<forall>name w input. name = tool_name def \<or>
         decide_with_targets pp reg' w name input c s t = decide_with_targets pp reg w name input c s t)"
proof -
  obtain tool where free: "registered reg (tool_name def) = None"
    and reg': "reg' = reg\<lparr>registered := (registered reg)(tool_name def \<mapsto> tool)\<rparr>"
    using assms by (auto simp: register_with_policy_def Let_def split: if_splits)
  have frame: "effective_level reg' = effective_level reg" "current_policy reg' = current_policy reg"
    by (simp_all add: reg' fun_eq_iff effective_level_def current_policy_def split: option.split)
  have "decide_with_targets pp reg' w name input c s t = decide_with_targets pp reg w name input c s t"
    if "name \<noteq> tool_name def" for name w input
    using that unfolding decide_with_targets_def frame by (simp add: reg')
  with free show ?thesis by (auto simp: reg' map_le_def)
qed

subsection \<open>Verdicts\<close>

text \<open>An external tool declared destructive is denied before the policy is consulted.\<close>

definition hard_denied :: "'w registered_tool \<Rightarrow> bool" where
  "hard_denied tool \<longleftrightarrow> is_mcp (tool_origin (policy_of tool)) \<and> tool_risk (policy_of tool) = Destructive"

definition gate_level :: "'w tool_registry \<Rightarrow> 'w \<Rightarrow> rstr \<Rightarrow> 'w registered_tool \<Rightarrow> permission_level" where
  "gate_level reg w name tool = fst (effective_level reg (current_policy reg w) name tool)"

lemma escalate_secret_kept:
  "level \<noteq> Allow \<or> secret_free input targets \<Longrightarrow> escalate_secret input targets level preview = (level, preview)"
  by (auto simp: escalate_secret_def find_secret_target_None [symmetric])

lemma escalate_secret_asked:
  "\<not> secret_free input targets \<Longrightarrow> fst (escalate_secret input targets Allow preview) = Ask"
  by (auto simp: escalate_secret_def Let_def find_secret_target_None [symmetric])

lemma escalate_secret_shows:
  assumes "\<not> secret_free input targets"
  shows "\<exists>s \<in> set (preview_paths (snd (escalate_secret input targets Allow preview))).
           classify_secret s \<and> s \<in> set (json_strings input) \<union> set targets"
proof -
  obtain s where s: "find_secret_target input targets = Some s"
    using assms by (auto simp: find_secret_target_None [symmetric])
  then have "List.find classify_secret (json_strings input @ targets) = Some s"
    by (simp add: find_secret_target_def find_secret_strings items_strings_targets find_append)
  then obtain i where "i < length (json_strings input @ targets)" "s = (json_strings input @ targets) ! i"
    and "classify_secret s" unfolding find_Some_iff by metis
  then have "classify_secret s" and "s \<in> set (json_strings input) \<union> set targets"
    by (simp, metis nth_mem set_append)
  with s show ?thesis by (auto simp: escalate_secret_def Let_def intro!: bexI [of _ s])
qed

text \<open>The gate in one equation: what the registered tool, its validator and the level in force decide.\<close>

lemma decide_cases:
  assumes "registered reg name = Some tool" and "validated_preview tool w input = Inr preview"
  shows "decide_with_targets pp reg w name input c s t =
    ((if hard_denied tool then fst (decide_with_targets pp reg w name input c s t)
      else case (if gate_level reg w name tool = Allow \<and> \<not> secret_free input (preview_paths preview)
                 then Ask else gate_level reg w name tool) of
             Allow \<Rightarrow> DecAllow
           | Deny \<Rightarrow> DecDeny (lit ''Tool '' @ [39] @ name @ [39] @ lit '' is denied by operator policy'')
           | Ask \<Rightarrow> RequireApproval (approval_request pp name tool input c s t
               (snd (escalate_secret input (preview_paths preview) (gate_level reg w name tool) preview)))),
     preview_paths preview)"
proof (cases "hard_denied tool")
  case True
  then show ?thesis using assms by (simp add: decide_with_targets_def hard_denied_def Let_def)
next
  case False
  let ?lvl = "gate_level reg w name tool" and ?paths = "preview_paths preview"
  have d: "decide_with_targets pp reg w name input c s t =
      (case escalate_secret input ?paths ?lvl preview of
         (Allow, _) \<Rightarrow> (DecAllow, ?paths)
       | (Deny, _) \<Rightarrow> (DecDeny (lit ''Tool '' @ [39] @ name @ [39] @ lit '' is denied by operator policy''), ?paths)
       | (Ask, p) \<Rightarrow> (RequireApproval (approval_request pp name tool input c s t p), ?paths))"
    using assms False by (auto simp: decide_with_targets_def hard_denied_def gate_level_def Let_def)
  show ?thesis
  proof (cases "?lvl = Allow \<and> \<not> secret_free input ?paths")
    case True
    then have "fst (escalate_secret input ?paths ?lvl preview) = Ask" by (simp add: escalate_secret_asked)
    then obtain p where "escalate_secret input ?paths ?lvl preview = (Ask, p)" by (metis prod.collapse)
    with False True show ?thesis unfolding d by simp
  next
    case kept: False
    then have "escalate_secret input ?paths ?lvl preview = (?lvl, preview)" by (intro escalate_secret_kept) auto
    with False kept show ?thesis unfolding d by (cases ?lvl) simp_all
  qed
qed

definition silently_permitted :: "'w tool_registry \<Rightarrow> 'w \<Rightarrow> rstr \<Rightarrow> json \<Rightarrow> bool" where
  "silently_permitted reg w name input \<longleftrightarrow>
     (\<exists>tool preview. registered reg name = Some tool \<and> validated_preview tool w input = Inr preview
        \<and> \<not> hard_denied tool \<and> gate_level reg w name tool = Allow
        \<and> secret_free input (preview_paths preview))"

lemma decide_allow_iff: "decide pp reg w name input c s t = DecAllow \<longleftrightarrow> silently_permitted reg w name input"
proof (cases "registered reg name")
  case None
  then show ?thesis by (simp add: decide_def decide_with_targets_def silently_permitted_def)
next
  case (Some tool)
  show ?thesis
  proof (cases "validated_preview tool w input")
    case (Inl e)
    with Some show ?thesis by (simp add: decide_def decide_with_targets_def silently_permitted_def)
  next
    case (Inr preview)
    have "decide pp reg w name input c s t \<noteq> DecAllow" if "hard_denied tool"
      using that Some Inr by (simp add: decide_def decide_with_targets_def hard_denied_def Let_def)
    then show ?thesis
      using Some Inr decide_cases [OF Some Inr, of pp c s t]
      by (auto simp: decide_def silently_permitted_def split: permission_level.splits if_splits)
  qed
qed

text \<open>C8. Silence has exactly one reason: the gate lets a call run without asking if and only if the tool
  is registered, its validator accepts the input, it is not a destructive external tool, the policy in
  force resolves to allow, and neither a string anywhere in the input nor a resolved target names a
  secret-bearing path.\<close>

theorem silent_allow_iff:
  "decide pp reg w name input c s t = DecAllow \<longleftrightarrow>
     (\<exists>tool preview. registered reg name = Some tool \<and> validated_preview tool w input = Inr preview
        \<and> \<not> (is_mcp (tool_origin (policy_of tool)) \<and> tool_risk (policy_of tool) = Destructive)
        \<and> fst (effective_level reg (current_policy reg w) name tool) = Allow
        \<and> secret_free input (preview_paths preview))"
  by (simp add: decide_allow_iff silently_permitted_def hard_denied_def gate_level_def)

text \<open>The names no call of which can run: nothing registered, or a destructive external tool.\<close>

definition barred_tool :: "'w tool_registry \<Rightarrow> rstr \<Rightarrow> bool" where
  "barred_tool reg name \<longleftrightarrow> (case registered reg name of None \<Rightarrow> True | Some tool \<Rightarrow> hard_denied tool)"

lemma barred_tool_denied:
  "barred_tool reg name \<Longrightarrow> \<exists>reason. decide pp reg w name input c s t = DecDeny reason"
  by (auto simp: barred_tool_def decide_def decide_with_targets_def hard_denied_def Let_def
      split: sum.split option.splits)

lemma confirm_targets_gate:
  assumes "confirm_targets reg w name input targets = Inr u"
  shows "snd (decide_with_targets pp reg w name input c s t) = targets"
  using assms
  by (auto simp: confirm_targets_def decide_with_targets_def Let_def
      split: option.splits sum.splits if_splits permission_level.splits prod.splits)

text \<open>No rule lifts the denial of a destructive external tool: whatever the policy, the thread
  overrides, the world and the input, the verdict is a denial.\<close>

theorem destructive_external_is_denied:
  assumes "registered reg name = Some tool" and "hard_denied tool"
  shows "\<exists>reason. decide pp reg w name input c s t = DecDeny reason"
  using assms by (simp add: barred_tool_denied barred_tool_def)

text \<open>A secret is always asked about and always shown: when the policy would allow a call silently and
  some string of the input or some target names a secret-bearing path, the verdict is a request for
  approval whose paths include such a path.\<close>

theorem secret_is_asked_and_shown:
  assumes "registered reg name = Some tool" and "validated_preview tool w input = Inr preview"
    and "\<not> hard_denied tool" and "gate_level reg w name tool = Allow"
    and "\<not> secret_free input (preview_paths preview)"
  shows "\<exists>req secret. decide pp reg w name input c s t = RequireApproval req
           \<and> secret \<in> set (req_paths req) \<and> classify_secret secret
           \<and> secret \<in> set (json_strings input) \<union> set (preview_paths preview)"
  using decide_cases [OF assms(1,2), of pp c s t] assms(3-5) escalate_secret_shows [OF assms(5), of preview]
  by (auto simp: decide_def approval_request_def)

text \<open>The level a Settings row shows is the level of the next call: for a registry that decides on its
  own policy and a tool that is not a destructive external one, a call whose input validates and names
  no secret runs, asks or is denied as the row says.\<close>

theorem capability_row_predicts_gate:
  assumes "registered reg name = Some tool" and "policy_loader reg = None" and "\<not> hard_denied tool"
    and "validated_preview tool w input = Inr preview" and "secret_free input (preview_paths preview)"
  shows "case cap_effective (capability_of reg name tool) of
           Allow \<Rightarrow> decide pp reg w name input c s t = DecAllow
         | Ask \<Rightarrow> (\<exists>req. decide pp reg w name input c s t = RequireApproval req)
         | Deny \<Rightarrow> (\<exists>reason. decide pp reg w name input c s t = DecDeny reason)"
proof -
  have "cap_effective (capability_of reg name tool) = gate_level reg w name tool"
    using assms(2) by (simp add: capability_of_def Let_def gate_level_def current_policy_def)
  then show ?thesis
    using decide_cases [OF assms(1,4), of pp c s t] assms(3,5)
    by (cases "gate_level reg w name tool") (simp_all add: decide_def)
qed

subsection \<open>A concrete registry\<close>

text \<open>Two tools on a world that is the target of one symbolic link: a file reader, which resolves its
  path through the link, and an external tool that wipes a disk, which the operator has allowed.\<close>

definition read_file_tool :: "rstr registered_tool" where
  "read_file_tool = \<lparr>definition_of = \<lparr>tool_name = lit ''read_file'', description = [], input_schema = JNull\<rparr>,
     handler = (\<lambda>w input. (w, [ResultText w])), policy_of = native_policy ReadOnly,
     validator = Some (\<lambda>w input. Inr (default_preview\<lparr>preview_paths := [w]\<rparr>))\<rparr>"

definition wipe_tool :: "rstr registered_tool" where
  "wipe_tool = \<lparr>definition_of = \<lparr>tool_name = lit ''wipe'', description = [], input_schema = JNull\<rparr>,
     handler = (\<lambda>w input. ([], [])),
     policy_of = \<lparr>tool_origin = Mcp (lit ''srv'') (lit ''wipe''), tool_risk = Destructive, requires_approval = True\<rparr>,
     validator = None\<rparr>"

definition demo_registry :: "rstr tool_registry" where
  "demo_registry = new_registry\<lparr>
     registered := [lit ''read_file'' \<mapsto> read_file_tool, lit ''wipe'' \<mapsto> wipe_tool],
     policy := default_permissions\<lparr>tools := [(lit ''srv:wipe'', Allow)]\<rparr>\<rparr>"

lemma demo_read_file:
  "registered demo_registry (lit ''read_file'') = Some read_file_tool"
  "validated_preview read_file_tool w input = Inr (default_preview\<lparr>preview_paths := [w]\<rparr>)"
  "\<not> hard_denied read_file_tool"
  "gate_level demo_registry w (lit ''read_file'') read_file_tool = Allow"
  by (simp_all add: demo_registry_def read_file_tool_def validated_preview_def hard_denied_def native_policy_def
      is_mcp_def gate_level_def effective_level_def current_policy_def new_registry_def
      resolve_for_origin_with_source_def resolve_with_source_def default_permissions_def tool_identity_def
      origin_server_def Let_def lit_def)

lemma demo_wipe:
  "registered demo_registry (lit ''wipe'') = Some wipe_tool" "hard_denied wipe_tool"
  by (simp_all add: demo_registry_def wipe_tool_def hard_denied_def is_mcp_def lit_def)

lemmas secret_eval = secret_free_def classify_secret_def is_secret_basename_def trim_def lit_def is_whitespace_def
  to_ascii_lowercase_def ascii_lower_def trim_end_matches_def ends_with_def

theorem destructive_external_is_denied_witness:
  "\<exists>reason. decide (\<lambda>_. None) demo_registry [] (lit ''wipe'') JNull [] [] [] = DecDeny reason"
  by (rule destructive_external_is_denied) (rule demo_wipe)+

theorem secret_is_asked_and_shown_witness:
  "\<exists>req secret. decide (\<lambda>_. None) demo_registry (lit ''/home/op/.ssh'') (lit ''read_file'')
       (JString (lit ''docs/info.txt'')) [] [] [] = RequireApproval req
     \<and> secret \<in> set (req_paths req) \<and> classify_secret secret
     \<and> secret \<in> set (json_strings (JString (lit ''docs/info.txt'')))
          \<union> set (preview_paths (default_preview\<lparr>preview_paths := [lit ''/home/op/.ssh'']\<rparr>))"
  by (rule secret_is_asked_and_shown [OF demo_read_file]) (simp add: secret_eval)

theorem capability_row_predicts_gate_witness:
  "case cap_effective (capability_of demo_registry (lit ''read_file'') read_file_tool) of
     Allow \<Rightarrow> decide (\<lambda>_. None) demo_registry (lit ''/x/y'') (lit ''read_file'') JNull [] [] [] = DecAllow
   | Ask \<Rightarrow> (\<exists>req. decide (\<lambda>_. None) demo_registry (lit ''/x/y'') (lit ''read_file'') JNull [] [] [] = RequireApproval req)
   | Deny \<Rightarrow> (\<exists>reason. decide (\<lambda>_. None) demo_registry (lit ''/x/y'') (lit ''read_file'') JNull [] [] [] = DecDeny reason)"
  by (rule capability_row_predicts_gate [OF demo_read_file(1) _ demo_read_file(3,2)])
     (simp_all add: demo_registry_def new_registry_def secret_eval)

theorem registration_never_shadows_witness:
  "\<exists>reg'. register_native \<lparr>tool_name = lit ''write'', description = [], input_schema = JNull\<rparr>
        (\<lambda>w _. (w, [])) Mutating demo_registry = Inr reg' \<and> registered demo_registry \<subseteq>\<^sub>m registered reg'"
proof -
  let ?def = "\<lparr>tool_name = lit ''write'', description = [], input_schema = JNull\<rparr>"
  have "registered demo_registry (lit ''write'') = None" by (simp add: demo_registry_def lit_def)
  then obtain reg' where "register_with_policy ?def (\<lambda>w _. (w, [])) (native_policy Mutating) None demo_registry = Inr reg'"
    by (simp add: register_with_policy_def Let_def)
  with registration_never_shadows [OF this] show ?thesis by (auto simp: register_native_def)
qed

text \<open>The row of a destructive external tool does not show what the gate does: with an operator's
  tool-level allow the capability list shows the level allow, and the gate denies every call.\<close>

theorem destructive_row_shows_allow:
  "cap_effective (capability_of demo_registry (lit ''wipe'') wipe_tool) = Allow
   \<and> (\<exists>reason. decide pp demo_registry w (lit ''wipe'') input c s t = DecDeny reason)"
proof
  show "cap_effective (capability_of demo_registry (lit ''wipe'') wipe_tool) = Allow"
    by (simp add: capability_of_def demo_registry_def wipe_tool_def effective_level_def new_registry_def
        resolve_for_origin_with_source_def resolve_with_source_def default_permissions_def tool_identity_def
        grant_key_def to_ascii_lowercase_def ascii_lower_def Let_def lit_def)
  show "\<exists>reason. decide pp demo_registry w (lit ''wipe'') input c s t = DecDeny reason"
    using demo_wipe by (auto simp: decide_def decide_with_targets_def hard_denied_def Let_def split: sum.split)
qed

end
