(* ===== verification/Approval_Broker.thy ===== *)
theory Approval_Broker
  imports Tool_Registry Machines
begin

section \<open>The approval broker\<close>

text \<open>
  \<open>core/agent/approval.rs\<close>: the suspension point between the tool gate and the approval card.

  A parked call is an entry of the pending map (its list of entries, in the order of insertion) under
  its exact key, with a token that tells this
  registration from a later one under the same key. The token also names the one-shot channel of the
  registration, whose two ends are modelled as the \<open>tokio\<close> documentation states them: a send fails
  once the receiver is gone, an awaited receiver sees the value sent or the loss of the sender. Every
  operation holds the mutex around its use of the map, so operations are atomic on it; an operation
  is one function on the state.

  The history theorem \<open>approval_needs_exact_answer\<close> ranges over every sequence of operations: a
  future yields true only if, while this very registration was pending, the operator approved its
  exact session, thread and call.
\<close>

record approval_key =
  key_session_id :: rstr
  key_thread_id :: rstr
  key_call_id :: rstr

datatype grant_target = GrantMcp rstr rstr | GrantNative rstr

record pending_approval =
  pa_request :: tool_approval_request
  pa_token :: nat
  pa_grant_target :: grant_target

datatype channel = ChanOpen | ChanSent bool | ChanClosed

record approval_broker =
  pending_calls :: "(approval_key \<times> pending_approval) list"
  changed :: "64 word"
  channels :: "nat \<Rightarrow> channel"
  receivers :: "nat set"
  next_token :: nat

datatype approval_future = ReadyFalse | Awaiting approval_key nat

definition default_broker :: approval_broker where
  "default_broker = \<lparr>pending_calls = [], changed = 0, channels = (\<lambda>_. ChanClosed), receivers = {},
     next_token = 0\<rparr>"

definition notify_changed :: "approval_broker \<Rightarrow> approval_broker" where
  "notify_changed b = b\<lparr>changed := changed b + 1\<rparr>"

definition persist_grant :: "rstr \<Rightarrow> grant_target \<Rightarrow> agent_disk \<Rightarrow> agent_disk \<times> (perm_error + unit)" where
  "persist_grant now target d =
     (case target of
        GrantMcp server tool \<Rightarrow> remember_allow now server tool d
      | GrantNative identity \<Rightarrow> set_tool_level now identity Allow d)"

definition grant_label :: "grant_target \<Rightarrow> rstr" where
  "grant_label target =
     (case target of GrantMcp server tool \<Rightarrow> server @ lit '':'' @ tool | GrantNative identity \<Rightarrow> identity)"

definition target_of_request :: "tool_approval_request \<Rightarrow> grant_target" where
  "target_of_request req =
     (case req_origin req of
        Mcp server tool \<Rightarrow> GrantMcp server tool
      | Native \<Rightarrow> GrantNative (tool_identity (req_origin req) (req_tool req)))"

definition key_of_request :: "tool_approval_request \<Rightarrow> approval_key" where
  "key_of_request req =
     \<lparr>key_session_id = req_session_id req, key_thread_id = req_thread_id req, key_call_id = req_call_id req\<rparr>"

definition begin_approval :: "tool_approval_request \<Rightarrow> approval_broker \<Rightarrow> approval_broker \<times> approval_future" where
  "begin_approval req b =
     (let key = key_of_request req; tok = next_token b; b1 = b\<lparr>next_token := Suc tok\<rparr>
      in if map_of (pending_calls b) key \<noteq> None then (b1, ReadyFalse)
         else (notify_changed (b1\<lparr>
                 pending_calls := (key, \<lparr>pa_request = req, pa_token = tok,
                   pa_grant_target = target_of_request req\<rparr>) # pending_calls b,
                 channels := (channels b)(tok := ChanOpen), receivers := insert tok (receivers b)\<rparr>),
               Awaiting key tok))"

definition remove_key :: "approval_key \<Rightarrow> (approval_key \<times> pending_approval) list \<Rightarrow> (approval_key \<times> pending_approval) list" where
  "remove_key key m = filter (\<lambda>(k, _). k \<noteq> key) m"

text \<open>Dropping an entry drops its sender: an open channel closes.\<close>

definition drop_sender :: "nat \<Rightarrow> approval_broker \<Rightarrow> approval_broker" where
  "drop_sender tok b =
     (if channels b tok = ChanOpen then b\<lparr>channels := (channels b)(tok := ChanClosed)\<rparr> else b)"

definition resolve_approval ::
  "rstr \<Rightarrow> rstr \<Rightarrow> rstr \<Rightarrow> rstr \<Rightarrow> bool \<Rightarrow> bool \<Rightarrow> approval_broker \<Rightarrow> agent_disk
     \<Rightarrow> (approval_broker \<times> agent_disk) \<times> bool" where
  "resolve_approval now session_id thread_id call_id approved remember b d =
     (let key = \<lparr>key_session_id = session_id, key_thread_id = thread_id, key_call_id = call_id\<rparr>
      in case map_of (pending_calls b) key of
           None \<Rightarrow> ((b, d), False)
         | Some entry \<Rightarrow>
             (let b1 = notify_changed (b\<lparr>pending_calls := remove_key key (pending_calls b)\<rparr>);
                  d1 = (if approved \<and> remember then fst (persist_grant now (pa_grant_target entry) d) else d)
              in if pa_token entry \<in> receivers b
                 then ((b1\<lparr>channels := (channels b)(pa_token entry := ChanSent approved)\<rparr>, d1), True)
                 else ((drop_sender (pa_token entry) b1, d1), False)))"

text \<open>\<open>cancel_thread\<close> removes the keys of one thread, and with each entry its sender.\<close>

definition cancel_thread :: "rstr \<Rightarrow> approval_broker \<Rightarrow> approval_broker" where
  "cancel_thread thread_id b =
     (let keys = filter (\<lambda>(key, _). key_thread_id key = thread_id) (pending_calls b)
      in notify_changed (fold (\<lambda>(key, entry) b. drop_sender (pa_token entry)
             (b\<lparr>pending_calls := remove_key key (pending_calls b)\<rparr>)) keys b))"

text \<open>\<open>PendingApprovalGuard::drop\<close>: evict the entry, if it is still this registration's.\<close>

definition drop_guard :: "approval_key \<Rightarrow> nat \<Rightarrow> approval_broker \<Rightarrow> approval_broker" where
  "drop_guard key tok b =
     (case map_of (pending_calls b) key of
        Some entry \<Rightarrow>
          if pa_token entry = tok
          then drop_sender tok (notify_changed (b\<lparr>pending_calls := remove_key key (pending_calls b)\<rparr>))
          else b
      | None \<Rightarrow> b)"

definition drop_future :: "approval_future \<Rightarrow> approval_broker \<Rightarrow> approval_broker" where
  "drop_future fut b =
     (case fut of
        ReadyFalse \<Rightarrow> b
      | Awaiting key tok \<Rightarrow> (drop_guard key tok b)\<lparr>receivers := receivers (drop_guard key tok b) - {tok}\<rparr>)"

text \<open>One poll of the future: its value when it is ready, which also ends it.\<close>

definition future_value :: "approval_future \<Rightarrow> approval_broker \<Rightarrow> bool option" where
  "future_value fut b =
     (case fut of
        ReadyFalse \<Rightarrow> Some False
      | Awaiting key tok \<Rightarrow>
          (case channels b tok of ChanOpen \<Rightarrow> None | ChanSent v \<Rightarrow> Some v | ChanClosed \<Rightarrow> Some False))"

definition poll_approval :: "approval_future \<Rightarrow> approval_broker \<Rightarrow> approval_broker \<times> bool option" where
  "poll_approval fut b =
     (case future_value fut b of
        None \<Rightarrow> (b, None)
      | Some v \<Rightarrow> (drop_future fut b, Some v))"

text \<open>The snapshot of one conversation, sorted by session and call.\<close>

definition request_before :: "tool_approval_request \<Rightarrow> tool_approval_request \<Rightarrow> bool" where
  "request_before a b \<longleftrightarrow> str_less (req_session_id a) (req_session_id b)
     \<or> req_session_id a = req_session_id b \<and> str_less (req_call_id a) (req_call_id b)"

fun insert_request :: "tool_approval_request \<Rightarrow> tool_approval_request list \<Rightarrow> tool_approval_request list" where
  "insert_request r [] = [r]"
| "insert_request r (q # qs) = (if request_before q r then q # insert_request r qs else r # q # qs)"

definition pending_for_thread :: "rstr \<Rightarrow> approval_broker \<Rightarrow> tool_approval_request list" where
  "pending_for_thread thread_id b =
     foldr insert_request
       (filter (\<lambda>req. req_thread_id req = thread_id) (map (pa_request \<circ> snd) (pending_calls b))) []"

subsection \<open>Runs\<close>

text \<open>What the hosts do to the broker, in any order: park a call, answer a key, cancel a thread, poll or
  drop a future they hold.\<close>

datatype broker_action =
    ABegin tool_approval_request
  | AResolve rstr rstr rstr bool bool
  | ACancel rstr
  | APoll approval_key nat
  | ADrop approval_key nat

definition broker_step ::
  "rstr \<Rightarrow> broker_action \<Rightarrow> approval_broker \<times> agent_disk
     \<Rightarrow> (approval_broker \<times> agent_disk) \<times> (approval_key \<times> nat \<times> bool) option" where
  "broker_step now a s =
     (case s of (b, d) \<Rightarrow>
        case a of
          ABegin req \<Rightarrow> ((fst (begin_approval req b), d), None)
        | AResolve sid tid cid approved remember \<Rightarrow>
            (fst (resolve_approval now sid tid cid approved remember b d), None)
        | ACancel tid \<Rightarrow> ((cancel_thread tid b, d), None)
        | APoll key tok \<Rightarrow>
            (case poll_approval (Awaiting key tok) b of
               (b', v) \<Rightarrow> ((b', d), map_option (\<lambda>v. (key, tok, v)) v))
        | ADrop key tok \<Rightarrow> ((drop_future (Awaiting key tok) b, d), None))"

definition broker_run :: "rstr \<Rightarrow> agent_disk \<Rightarrow> broker_action list \<Rightarrow> approval_broker" where
  "broker_run now d acts = fst (final_state (broker_step now) (default_broker, d) acts)"

subsection \<open>What each operation does to the map and the channels\<close>

lemma remove_key_simps [simp]:
  "set (remove_key k m) = {(k', e) \<in> set m. k' \<noteq> k}"
  "map_of (remove_key k m) k' = (if k' = k then None else map_of m k')"
  by (auto simp: remove_key_def) (induction m; auto)+

lemma remove_key_distinct:
  "distinct (map fst m) \<Longrightarrow> distinct (map fst (remove_key k m))"
  "distinct (map (pa_token \<circ> snd) m) \<Longrightarrow> distinct (map (pa_token \<circ> snd) (remove_key k m))"
  by (auto simp: remove_key_def distinct_map_filter)

lemma drop_sender_simps [simp]:
  "pending_calls (drop_sender t b) = pending_calls b" "receivers (drop_sender t b) = receivers b"
  "next_token (drop_sender t b) = next_token b"
  "channels (drop_sender t b) t' = (if t' = t \<and> channels b t = ChanOpen then ChanClosed else channels b t')"
  by (auto simp: drop_sender_def)

lemma notify_changed_simps [simp]:
  "pending_calls (notify_changed b) = pending_calls b" "receivers (notify_changed b) = receivers b"
  "next_token (notify_changed b) = next_token b" "channels (notify_changed b) = channels b"
  by (simp_all add: notify_changed_def)

abbreviation cancel_entries :: "(approval_key \<times> pending_approval) list \<Rightarrow> approval_broker \<Rightarrow> approval_broker" where
  "cancel_entries es \<equiv> fold (\<lambda>(key, entry) b. drop_sender (pa_token entry)
     (b\<lparr>pending_calls := remove_key key (pending_calls b)\<rparr>)) es"

lemma cancel_entries_pending:
  "pending_calls (cancel_entries es b) = filter (\<lambda>(k, _). k \<notin> fst ` set es) (pending_calls b)"
proof (induction es arbitrary: b)
  case (Cons x es)
  then show ?case by (cases x) (auto simp: remove_key_def intro!: filter_cong)
qed simp

lemma cancel_entries_rest:
  "receivers (cancel_entries es b) = receivers b" "next_token (cancel_entries es b) = next_token b"
  by (induction es arbitrary: b) auto

lemma cancel_entries_channels:
  "channels (cancel_entries es b) t =
     (if channels b t = ChanOpen \<and> t \<in> pa_token ` snd ` set es then ChanClosed else channels b t)"
proof (induction es arbitrary: b)
  case (Cons x es)
  show ?case by (cases x, simp only: fold_simps prod.case o_apply Cons.IH) auto
qed simp

lemmas cancel_fold = cancel_entries_pending cancel_entries_rest cancel_entries_channels

lemma cancel_thread_simps:
  "pending_calls (cancel_thread th b) = filter (\<lambda>(k, _). key_thread_id k \<noteq> th) (pending_calls b)"
  "receivers (cancel_thread th b) = receivers b" "next_token (cancel_thread th b) = next_token b"
  "channels (cancel_thread th b) t =
     (if channels b t = ChanOpen \<and> (\<exists>(k, e) \<in> set (pending_calls b). key_thread_id k = th \<and> pa_token e = t)
      then ChanClosed else channels b t)"
  by (auto simp: cancel_thread_def cancel_fold intro!: filter_cong) force+

lemma drop_guard_simps:
  "next_token (drop_guard k t b) = next_token b" "receivers (drop_guard k t b) = receivers b"
  "pending_calls (drop_guard k t b) =
     (if \<exists>e. map_of (pending_calls b) k = Some e \<and> pa_token e = t then remove_key k (pending_calls b)
      else pending_calls b)"
  "channels (drop_guard k t b) t' =
     (if t' = t \<and> channels b t = ChanOpen \<and> (\<exists>e. map_of (pending_calls b) k = Some e \<and> pa_token e = t)
      then ChanClosed else channels b t')"
  by (auto simp: drop_guard_def split: option.split)

subsection \<open>The invariant\<close>

definition entry_ok :: "approval_broker \<Rightarrow> approval_key \<times> pending_approval \<Rightarrow> bool" where
  "entry_ok b = (\<lambda>(k, e). k = key_of_request (pa_request e) \<and> pa_grant_target e = target_of_request (pa_request e)
     \<and> pa_token e < next_token b \<and> channels b (pa_token e) = ChanOpen)"

definition broker_ok :: "approval_broker \<Rightarrow> bool" where
  "broker_ok b \<longleftrightarrow> list_all (entry_ok b) (pending_calls b)
     \<and> distinct (map fst (pending_calls b)) \<and> distinct (map (pa_token \<circ> snd) (pending_calls b))
     \<and> (\<forall>t. channels b t = ChanOpen \<longrightarrow> t \<in> (pa_token \<circ> snd) ` set (pending_calls b))"

lemma broker_okD:
  assumes "broker_ok b" and "map_of (pending_calls b) k = Some e"
  shows "k = key_of_request (pa_request e)" and "pa_grant_target e = target_of_request (pa_request e)"
    and "pa_token e < next_token b" and "channels b (pa_token e) = ChanOpen"
    and "(k', e') \<in> set (pending_calls b) \<Longrightarrow> pa_token e' = pa_token e \<longleftrightarrow> k' = k \<and> e' = e"
proof -
  have m: "(k, e) \<in> set (pending_calls b)" using assms(2) by (rule map_of_SomeD)
  then have "entry_ok b (k, e)" using assms(1) by (auto simp: broker_ok_def list_all_iff)
  then show "k = key_of_request (pa_request e)" "pa_grant_target e = target_of_request (pa_request e)"
    "pa_token e < next_token b" "channels b (pa_token e) = ChanOpen" by (auto simp: entry_ok_def)
  assume "(k', e') \<in> set (pending_calls b)"
  then show "pa_token e' = pa_token e \<longleftrightarrow> k' = k \<and> e' = e"
    using m assms(1) inj_onD [of "pa_token \<circ> snd" "set (pending_calls b)" "(k', e')" "(k, e)"]
    by (auto simp: broker_ok_def distinct_map)
qed

lemma broker_ok_remove:
  assumes ok: "broker_ok b" and e: "map_of (pending_calls b) k = Some e" and c: "c \<noteq> ChanOpen"
    and p: "pending_calls b' = remove_key k (pending_calls b)"
    and ch: "channels b' = (channels b)(pa_token e := c)" and n: "next_token b' = next_token b"
  shows "broker_ok b'"
proof -
  have tok: "pa_token e' \<noteq> pa_token e" if "(k', e') \<in> set (pending_calls b)" "k' \<noteq> k" for k' e'
    using broker_okD(5) [OF ok e that(1)] that(2) by simp
  have "list_all (entry_ok b') (pending_calls b')"
    using ok tok by (auto simp: broker_ok_def p list_all_iff entry_ok_def ch n)
  moreover have "t \<in> (pa_token \<circ> snd) ` set (pending_calls b')" if o: "channels b' t = ChanOpen" for t
  proof -
    from o c have "t \<noteq> pa_token e" "channels b t = ChanOpen" by (auto simp: ch split: if_splits)
    then obtain k' e' where "(k', e') \<in> set (pending_calls b)" "pa_token e' = t"
      using ok by (fastforce simp: broker_ok_def)
    moreover from this have "k' \<noteq> k"
      using \<open>t \<noteq> pa_token e\<close> e ok by (auto simp: broker_ok_def dest: eq_key_imp_eq_value map_of_SomeD)
    ultimately show ?thesis by (force simp: p)
  qed
  ultimately show ?thesis
    using ok by (simp add: broker_ok_def p remove_key_distinct)
qed

lemma broker_ok_cong:
  assumes "broker_ok b" and "pending_calls b' = pending_calls b" and "channels b' = channels b"
    and "next_token b \<le> next_token b'"
  shows "broker_ok b'"
  using assms by (fastforce simp: broker_ok_def list_all_iff entry_ok_def)

lemma begin_approval_ok: "broker_ok b \<Longrightarrow> broker_ok (fst (begin_approval req b))"
proof (cases "map_of (pending_calls b) (key_of_request req)")
  case (Some e)
  assume "broker_ok b"
  then show ?thesis by (rule broker_ok_cong) (simp_all add: begin_approval_def Let_def Some)
next
  case None
  assume ok: "broker_ok b"
  then have "pa_token (snd x) < next_token b" if "x \<in> set (pending_calls b)" for x
    using that by (auto simp: broker_ok_def list_all_iff entry_ok_def)
  then have new: "next_token b \<notin> (pa_token \<circ> snd) ` set (pending_calls b)" by fastforce
  have key: "key_of_request req \<notin> fst ` set (pending_calls b)" using None by (simp add: map_of_eq_None_iff)
  show ?thesis
    using ok new key None
    by (fastforce simp: begin_approval_def Let_def broker_ok_def list_all_iff entry_ok_def)
qed

lemma resolve_approval_ok: "broker_ok b \<Longrightarrow> broker_ok (fst (fst (resolve_approval now s t c ap re b d)))"
proof (cases "map_of (pending_calls b) \<lparr>key_session_id = s, key_thread_id = t, key_call_id = c\<rparr>")
  case (Some e)
  assume ok: "broker_ok b"
  show ?thesis
  proof (cases "pa_token e \<in> receivers b")
    case True
    show ?thesis
      by (rule broker_ok_remove [OF ok Some, of "ChanSent ap"])
         (simp_all add: resolve_approval_def Let_def Some True)
  next
    case False
    show ?thesis
      by (rule broker_ok_remove [OF ok Some, of ChanClosed])
         (simp_all add: resolve_approval_def Let_def Some False fun_eq_iff broker_okD(4) [OF ok Some])
  qed
qed (simp add: resolve_approval_def Let_def)

lemma cancel_thread_ok:
  assumes ok: "broker_ok b"
  shows "broker_ok (cancel_thread th b)"
proof -
  let ?p = "pending_calls b"
  have inj: "x = y" if "x \<in> set ?p" "y \<in> set ?p" "pa_token (snd x) = pa_token (snd y)" for x y
    using ok that inj_onD [of "pa_token \<circ> snd" "set ?p" x y] by (auto simp: broker_ok_def distinct_map)
  have "list_all (entry_ok (cancel_thread th b)) (pending_calls (cancel_thread th b))"
    using ok inj by (fastforce simp: broker_ok_def list_all_iff entry_ok_def cancel_thread_simps)
  moreover have "t \<in> (pa_token \<circ> snd) ` set (pending_calls (cancel_thread th b))"
    if o: "channels (cancel_thread th b) t = ChanOpen" for t
  proof -
    have "channels b t = ChanOpen" using o by (auto simp: cancel_thread_simps split: if_splits)
    then obtain k e where ke: "(k, e) \<in> set ?p" "t = pa_token e" using ok by (fastforce simp: broker_ok_def)
    with o have "key_thread_id k \<noteq> th" by (fastforce simp: cancel_thread_simps split: if_splits)
    with ke show ?thesis by (force simp: cancel_thread_simps)
  qed
  ultimately show ?thesis
    using ok by (simp add: broker_ok_def cancel_thread_simps distinct_map_filter)
qed

lemma drop_future_ok: "broker_ok b \<Longrightarrow> broker_ok (drop_future (Awaiting k t) b)"
proof -
  assume ok: "broker_ok b"
  have "broker_ok (drop_guard k t b)"
  proof (cases "\<exists>e. map_of (pending_calls b) k = Some e \<and> pa_token e = t")
    case True
    then obtain e where e: "map_of (pending_calls b) k = Some e" "pa_token e = t" by blast
    show ?thesis
      by (rule broker_ok_remove [OF ok e(1), of ChanClosed])
         (use e in \<open>simp_all add: drop_guard_simps fun_eq_iff broker_okD(4) [OF ok e(1)] flip: e(2)\<close>)
  next
    case False
    then have "drop_guard k t b = b" by (auto simp: drop_guard_def split: option.split)
    with ok show ?thesis by simp
  qed
  then show ?thesis by (rule broker_ok_cong) (simp_all add: drop_future_def)
qed

interpretation broker: invariant_machine "broker_step now" "\<lambda>_. True" "\<lambda>(b, d). broker_ok b" "\<lambda>_. True"
proof
  fix i s s' out
  assume "case s of (b, d) \<Rightarrow> broker_ok b" and "broker_step now i s = (s', out)"
  then show "case s' of (b, d) \<Rightarrow> broker_ok b"
    using resolve_approval_ok [of "fst s" now]
    by (cases s; cases i)
       (auto simp: broker_step_def begin_approval_ok cancel_thread_ok drop_future_ok poll_approval_def
         split: option.splits prod.splits, metis fst_conv)
qed simp

lemma broker_run_ok: "broker_ok (broker_run now d acts)"
proof -
  have "broker_ok default_broker" by (simp add: default_broker_def broker_ok_def)
  then show ?thesis
    using broker.invariant_run [of acts "(default_broker, d)" now]
    by (auto simp: broker_run_def list_all_iff split: prod.splits)
qed

subsection \<open>No call is lost\<close>

text \<open>A call that still waits can still be answered: after any sequence of operations, a future that
  is not ready belongs to a pending entry, under the key of the request it was parked for, and no two
  entries share a token.\<close>

theorem waiting_call_is_pending:
  "case future_value (Awaiting key tok) (broker_run now d acts) of
     Some _ \<Rightarrow> True
   | None \<Rightarrow> \<exists>!entry. entry \<in> set (pending_calls (broker_run now d acts))
        \<and> pa_token (snd entry) = tok \<and> fst entry = key_of_request (pa_request (snd entry))"
proof (cases "channels (broker_run now d acts) tok = ChanOpen")
  case True
  let ?b = "broker_run now d acts"
  have ok: "broker_ok ?b" by (rule broker_run_ok)
  with True obtain k e where ke: "(k, e) \<in> set (pending_calls ?b)" "pa_token e = tok"
    by (fastforce simp: broker_ok_def)
  then have m: "map_of (pending_calls ?b) k = Some e" using ok by (simp add: broker_ok_def)
  have "\<exists>!entry. entry \<in> set (pending_calls ?b) \<and> pa_token (snd entry) = tok
      \<and> fst entry = key_of_request (pa_request (snd entry))"
  proof (rule ex1I [of _ "(k, e)"])
    show "(k, e) \<in> set (pending_calls ?b) \<and> pa_token (snd (k, e)) = tok
        \<and> fst (k, e) = key_of_request (pa_request (snd (k, e)))"
      using ke broker_okD(1) [OF ok m] by simp
    fix x
    assume "x \<in> set (pending_calls ?b) \<and> pa_token (snd x) = tok \<and> fst x = key_of_request (pa_request (snd x))"
    then show "x = (k, e)" using broker_okD(5) [OF ok m, of "fst x" "snd x"] ke(2) by (cases x) auto
  qed
  then show ?thesis by (simp split: option.split)
next
  case False
  then show ?thesis by (auto simp: future_value_def split: channel.split)
qed

text \<open>Cancelling a thread answers exactly that thread's calls with no: after it, no entry of the thread
  is pending, every call that was pending on the thread resolves to not approved, and every call
  pending on another thread is still pending and still waits.\<close>

theorem cancel_refuses_the_thread:
  assumes "(key, entry) \<in> set (pending_calls (broker_run now d acts))"
  shows "if key_thread_id key = th
    then future_value (Awaiting key (pa_token entry)) (cancel_thread th (broker_run now d acts)) = Some False
       \<and> (\<forall>e. (key, e) \<notin> set (pending_calls (cancel_thread th (broker_run now d acts))))
    else future_value (Awaiting key (pa_token entry)) (cancel_thread th (broker_run now d acts)) = None
       \<and> (key, entry) \<in> set (pending_calls (cancel_thread th (broker_run now d acts)))"
proof -
  let ?b = "broker_run now d acts"
  have ok: "broker_ok ?b" by (rule broker_run_ok)
  then have m: "map_of (pending_calls ?b) key = Some entry" using assms by (simp add: broker_ok_def)
  show ?thesis
    using assms broker_okD(4,5) [OF ok m]
    by (auto simp: future_value_def cancel_thread_simps broker_okD(4) [OF ok m] split: channel.splits)
qed

subsection \<open>Only an exact answer approves\<close>

text \<open>What one operation can do to the channel of a registration that is pending under \<open>key\<close>.\<close>

definition pending_as :: "approval_key \<Rightarrow> nat \<Rightarrow> approval_broker \<Rightarrow> bool" where
  "pending_as key tok b \<longleftrightarrow> tok < next_token b
     \<and> (\<forall>k e. (k, e) \<in> set (pending_calls b) \<longrightarrow> pa_token e = tok \<longrightarrow> k = key)"

lemma step_pending_as:
  assumes "pending_as key tok b"
  shows "pending_as key tok (fst (fst (broker_step now a (b, d))))"
  using assms
  by (cases a)
     (auto simp: pending_as_def broker_step_def begin_approval_def resolve_approval_def poll_approval_def
        drop_future_def drop_guard_simps cancel_thread_simps Let_def split: option.splits if_splits)

definition exact_answer :: "approval_key \<Rightarrow> broker_action \<Rightarrow> bool" where
  "exact_answer key a =
     (case a of AResolve sid tid cid approved _ \<Rightarrow>
        approved \<and> key = \<lparr>key_session_id = sid, key_thread_id = tid, key_call_id = cid\<rparr> | _ \<Rightarrow> False)"

lemma step_sent_true:
  assumes "pending_as key tok b" and "channels (fst (fst (broker_step now a (b, d)))) tok = ChanSent True"
  shows "channels b tok = ChanSent True \<or> exact_answer key a \<and> (\<exists>k e. (k, e) \<in> set (pending_calls b) \<and> pa_token e = tok)"
  using assms
  by (cases a)
     (auto simp: pending_as_def exact_answer_def broker_step_def begin_approval_def resolve_approval_def
        poll_approval_def drop_future_def drop_guard_simps cancel_thread_simps Let_def
        split: option.splits if_splits dest!: map_of_SomeD)

lemma final_pending_as:
  "pending_as key tok (fst s) \<Longrightarrow> pending_as key tok (fst (final_state (broker_step now) s acts))"
proof (induction acts arbitrary: s)
  case (Cons a acts)
  then have "pending_as key tok (fst (fst (broker_step now a (fst s, snd s))))" by (simp only: step_pending_as)
  from Cons.IH [OF this] show ?case by simp
qed simp

lemma sent_true_history:
  assumes "pending_as key tok (fst s)" and "channels (fst s) tok \<noteq> ChanSent True"
    and "channels (fst (final_state (broker_step now) s acts)) tok = ChanSent True"
  shows "\<exists>p a q k e. acts = p @ a # q \<and> exact_answer key a
           \<and> (k, e) \<in> set (pending_calls (fst (final_state (broker_step now) s p))) \<and> pa_token e = tok"
  using assms(3)
proof (induction acts rule: rev_induct)
  case Nil
  with assms(2) show ?case by simp
next
  case (snoc a acts)
  let ?s = "final_state (broker_step now) s acts"
  have "channels (fst (fst (broker_step now a (fst ?s, snd ?s)))) tok = ChanSent True"
    using snoc.prems by (simp add: final_state_append)
  with final_pending_as [OF assms(1), of now acts]
  consider "channels (fst ?s) tok = ChanSent True"
    | k e where "exact_answer key a" "(k, e) \<in> set (pending_calls (fst ?s))" "pa_token e = tok"
    using step_sent_true by blast
  then show ?case
  proof cases
    case 1
    from snoc.IH [OF this] obtain p x q k e where "acts = p @ x # q" "exact_answer key x"
      "(k, e) \<in> set (pending_calls (fst (final_state (broker_step now) s p)))" "pa_token e = tok" by blast
    then show ?thesis by (intro exI [of _ p] exI [of _ x] exI [of _ "q @ [a]"] exI [of _ k] exI [of _ e]) simp
  next
    case 2
    then show ?thesis by blast
  qed
qed

lemma begin_pending_as:
  assumes ok: "broker_ok b" and fut: "snd (begin_approval req b) = Awaiting key tok"
  shows "key = key_of_request req" and "pending_as key tok (fst (begin_approval req b))"
    and "channels (fst (begin_approval req b)) tok = ChanOpen"
  using fut ok
  by (fastforce simp: begin_approval_def Let_def pending_as_def broker_ok_def list_all_iff entry_ok_def
      split: if_splits)+

text \<open>C7. Only an exact answer approves: if a call was parked at some point of a history and its future
  yields true at the end, then after that point, while this very registration was still pending, the
  operator answered the same session, thread and call with an approval. A timeout, a cancellation, a
  dropped card, or an answer to another call never yields true.\<close>

theorem approval_needs_exact_answer:
  assumes "future_value (snd (begin_approval req (broker_run now d pre)))
             (broker_run now d (pre @ ABegin req # post)) = Some True"
  shows "\<exists>p q remember. post = p @ AResolve (req_session_id req) (req_thread_id req) (req_call_id req) True remember # q
    \<and> (\<exists>entry \<in> set (pending_calls (broker_run now d (pre @ ABegin req # p))).
          Awaiting (key_of_request req) (pa_token (snd entry)) = snd (begin_approval req (broker_run now d pre)))"
proof -
  let ?s = "final_state (broker_step now) (default_broker, d) pre"
  let ?b = "broker_run now d pre"
  have b: "?b = fst ?s" by (simp add: broker_run_def)
  obtain key tok where fut: "snd (begin_approval req ?b) = Awaiting key tok"
    using assms by (cases "snd (begin_approval req ?b)") (simp_all add: future_value_def)
  note start = begin_pending_as [OF broker_run_ok fut]
  have step: "fst (broker_step now (ABegin req) ?s) = (fst (begin_approval req ?b), snd ?s)"
    by (cases ?s) (simp add: broker_step_def b)
  have run: "broker_run now d (pre @ ABegin req # p)
      = fst (final_state (broker_step now) (fst (begin_approval req ?b), snd ?s) p)" for p
    by (simp add: broker_run_def final_state_append step [unfolded broker_run_def])
  have "channels (broker_run now d (pre @ ABegin req # post)) tok = ChanSent True"
    using assms by (simp add: fut future_value_def split: channel.splits)
  then obtain p a q k e where
    h: "post = p @ a # q" "exact_answer key a"
       "(k, e) \<in> set (pending_calls (broker_run now d (pre @ ABegin req # p)))" "pa_token e = tok"
    using sent_true_history [of key tok "(fst (begin_approval req ?b), snd ?s)" now post] start(2,3)
    by (auto simp: run)
  from h(2) start(1) obtain remember where
    "a = AResolve (req_session_id req) (req_thread_id req) (req_call_id req) True remember"
    by (cases a) (auto simp: exact_answer_def key_of_request_def)
  with h(1) have "post = p @ AResolve (req_session_id req) (req_thread_id req) (req_call_id req) True remember # q"
    by simp
  moreover have "Awaiting (key_of_request req) (pa_token (snd (k, e))) = snd (begin_approval req ?b)"
    using h(4) fut start(1) by simp
  ultimately show ?thesis using h(3) by blast
qed

definition demo_request :: tool_approval_request where
  "demo_request = \<lparr>req_call_id = lit ''call'', req_session_id = lit ''session'', req_thread_id = lit ''thread'',
     req_tool = lit ''write_file'', req_origin = Native, req_risk = Mutating, req_summary = [], req_command = None,
     req_cwd = None, req_paths = [], req_arguments = None\<rparr>"

lemmas broker_eval = broker_run_def broker_step_def begin_approval_def resolve_approval_def default_broker_def
  notify_changed_def key_of_request_def demo_request_def future_value_def

theorem approval_needs_exact_answer_witness:
  "\<exists>p q remember. [ACancel (lit ''other''), AResolve (lit ''session'') (lit ''thread'') (lit ''call'') True False]
     = p @ AResolve (req_session_id demo_request) (req_thread_id demo_request) (req_call_id demo_request) True remember # q
   \<and> (\<exists>entry \<in> set (pending_calls (broker_run [] disk0 ([] @ ABegin demo_request # p))).
        Awaiting (key_of_request demo_request) (pa_token (snd entry))
          = snd (begin_approval demo_request (broker_run [] disk0 [])))"
  by (rule approval_needs_exact_answer)
     (simp add: broker_eval cancel_thread_def drop_sender_def lit_def Let_def)

theorem cancel_refuses_the_thread_witness:
  "future_value (Awaiting (key_of_request demo_request) 0)
      (cancel_thread (lit ''thread'') (broker_run [] disk0 [ABegin demo_request])) = Some False"
proof -
  have "(key_of_request demo_request, \<lparr>pa_request = demo_request, pa_token = 0, pa_grant_target = target_of_request demo_request\<rparr>)
      \<in> set (pending_calls (broker_run [] disk0 [ABegin demo_request]))"
    by (simp add: broker_eval Let_def)
  from cancel_refuses_the_thread [OF this, of "lit ''thread''"] show ?thesis
    by (simp add: key_of_request_def demo_request_def)
qed

subsection \<open>Remembered approvals\<close>

text \<open>A remembered approval opens the gate: when the operator approves a pending call and asks to
  remember it, and the settings can be saved, the policy the gate reloads resolves the tool of that
  call to allow by its own rule, before the suspended call resumes. A native tool's name must not end
  in white space.\<close>

theorem remembered_approval_is_allowed:
  assumes "map_of (pending_calls (broker_run now d0 acts)) (key_of_request req) = Some entry"
    and "pa_request entry = req" and "settings_writable d"
    and "trim (tool_identity Native (req_tool req)) = tool_identity Native (req_tool req)"
  shows "resolve_with_source
      (live_policy (snd (fst (resolve_approval now (req_session_id req) (req_thread_id req) (req_call_id req)
         True True (broker_run now d0 acts) d))))
      (tool_identity (req_origin req) (req_tool req)) (origin_server (req_origin req)) risk None = (Allow, ToolRule)"
proof -
  let ?b = "broker_run now d0 acts"
  have target: "pa_grant_target entry = target_of_request req"
    using broker_okD(2) [OF broker_run_ok assms(1)] assms(2) by simp
  have disk: "snd (fst (resolve_approval now (req_session_id req) (req_thread_id req) (req_call_id req) True True ?b d))
      = fst (persist_grant now (target_of_request req) d)"
    using assms(1) by (simp add: resolve_approval_def key_of_request_def Let_def target)
  have "map_of (tools (load_permissions (fst (persist_grant now (target_of_request req) d))))
      (tool_identity (req_origin req) (req_tool req)) = Some Allow"
  proof (cases "req_origin req")
    case Native
    have "tool_identity Native (req_tool req) \<noteq> []" by (simp add: tool_identity_def lit_def)
    then have "snd (set_tool_level now (tool_identity Native (req_tool req)) Allow d) = Inr ()"
      using assms(3,4) by (simp add: set_tool_level_def save_permissions_def Let_def split: option.split)
    then obtain d' where "set_tool_level now (tool_identity Native (req_tool req)) Allow d = (d', Inr ())"
      by (metis prod.collapse)
    with set_tool_level_stores [OF this] show ?thesis
      using assms(4) by (simp add: persist_grant_def target_of_request_def Native)
  next
    case (Mcp server tool)
    then show ?thesis
      using assms(3)
      by (simp add: persist_grant_def target_of_request_def remember_allow_def save_permissions_def Let_def
          load_permissions_def tool_identity_def)
  qed
  then show ?thesis
    by (simp add: disk resolve_with_source_def live_policy_def map_of_with_legacy_grants)
qed

theorem remembered_approval_is_allowed_witness:
  "resolve_with_source
      (live_policy (snd (fst (resolve_approval [] (req_session_id demo_request) (req_thread_id demo_request)
         (req_call_id demo_request) True True (broker_run [] disk0 [ABegin demo_request]) disk0))))
      (tool_identity (req_origin demo_request) (req_tool demo_request)) (origin_server (req_origin demo_request))
      Mutating None = (Allow, ToolRule)"
  by (rule remembered_approval_is_allowed [where entry = "\<lparr>pa_request = demo_request, pa_token = 0,
        pa_grant_target = target_of_request demo_request\<rparr>"])
     (simp_all add: broker_eval Let_def disk0_def tool_identity_def trim_def lit_def is_whitespace_def)

end
