(* ===== verification/Ordered_Maps.thy ===== *)
theory Ordered_Maps
  imports CS_Prelude "HOL-Library.List_Lexorder" "HOL-Library.Product_Lexorder"
begin

section \<open>Ordered maps and sets\<close>

text \<open>
  A \<open>BTreeMap\<close> is the list of its entries in strictly increasing key order, a \<open>BTreeSet\<close> the sorted
  list of its elements; iteration is the list itself and \<open>get\<close> is \<^const>\<open>map_of\<close>. The locale
  \<open>ordered_map\<close> is the contract the ledger relies on: an update is seen by lookups of its key only,
  keeps the entries in order, and changes the set of keys by that key.
\<close>

type_synonym ('k, 'v) omap = "('k \<times> 'v) list"

definition om_keys :: "('k, 'v) omap \<Rightarrow> 'k list" where
  "om_keys m = map fst m"

definition om_ok :: "('k::linorder, 'v) omap \<Rightarrow> bool" where
  "om_ok m \<longleftrightarrow> sorted_wrt (<) (om_keys m)"

definition om_insert :: "'k::linorder \<Rightarrow> 'v \<Rightarrow> ('k, 'v) omap \<Rightarrow> ('k, 'v) omap" where
  "om_insert k v m = takeWhile (\<lambda>e. fst e < k) m @ (k, v) # dropWhile (\<lambda>e. fst e \<le> k) m"

definition om_remove :: "'k \<Rightarrow> ('k, 'v) omap \<Rightarrow> ('k, 'v) omap" where
  "om_remove k m = filter (\<lambda>e. fst e \<noteq> k) m"

text \<open>\<open>entry(k).or_default()\<close> followed by an update of the value.\<close>

definition om_adjust :: "'k::linorder \<Rightarrow> 'v \<Rightarrow> ('v \<Rightarrow> 'v) \<Rightarrow> ('k, 'v) omap \<Rightarrow> ('k, 'v) omap" where
  "om_adjust k d f m = om_insert k (f (unwrap_or d (map_of m k))) m"

locale ordered_map =
  fixes ok :: "'m \<Rightarrow> bool" and keys :: "'m \<Rightarrow> 'k::linorder list" and get :: "'m \<Rightarrow> 'k \<Rightarrow> 'v option"
    and ins :: "'k \<Rightarrow> 'v \<Rightarrow> 'm \<Rightarrow> 'm" and del :: "'k \<Rightarrow> 'm \<Rightarrow> 'm"
  assumes get_ins: "ok m \<Longrightarrow> get (ins k v m) k' = (if k' = k then Some v else get m k')"
    and get_del: "get (del k m) k' = (if k' = k then None else get m k')"
    and keys_ins: "ok m \<Longrightarrow> set (keys (ins k v m)) = insert k (set (keys m))"
    and keys_get: "k \<in> set (keys m) \<longleftrightarrow> get m k \<noteq> None"
    and ok_ins: "ok m \<Longrightarrow> ok (ins k v m)" and ok_del: "ok m \<Longrightarrow> ok (del k m)"
    and keys_sorted: "ok m \<Longrightarrow> sorted_wrt (<) (keys m)"
begin

lemma keys_distinct: "ok m \<Longrightarrow> distinct (keys m)"
  using keys_sorted strict_sorted_iff by blast

text \<open>Inserting under a present key leaves the number of entries as it was.\<close>

lemma size_ins:
  assumes "ok m"
  shows "length (keys (ins k v m)) = (if get m k = None then Suc (length (keys m)) else length (keys m))"
  using keys_ins [OF assms, of k v] keys_distinct [OF assms] keys_distinct [OF ok_ins [OF assms], of k v]
    keys_get [of k m] distinct_card [of "keys m"] distinct_card [of "keys (ins k v m)"]
  by (auto simp: insert_absorb)

end

lemma om_ok_simps [simp]:
  "om_ok []" "om_ok (e # m) \<longleftrightarrow> (\<forall>e' \<in> set m. fst e < fst e') \<and> om_ok m"
  by (auto simp: om_ok_def om_keys_def)

lemma om_ok_append:
  "om_ok (m @ n) \<longleftrightarrow> om_ok m \<and> om_ok n \<and> (\<forall>e \<in> set m. \<forall>e' \<in> set n. fst e < fst e')"
  by (auto simp: om_ok_def om_keys_def sorted_wrt_append)

lemma om_insert_Nil [simp]: "om_insert k v [] = [(k, v)]"
  by (simp add: om_insert_def)

lemma om_insert_Cons:
  assumes "om_ok (e # m)"
  shows "om_insert k v (e # m) = (if fst e < k then e # om_insert k v m
    else if fst e = k then (k, v) # m else (k, v) # e # m)"
proof -
  have "dropWhile (\<lambda>e. fst e \<le> k) m = m" if "fst e = k" using assms that by (cases m) auto
  then show ?thesis by (auto simp: om_insert_def)
qed

lemma set_om_insert: "om_ok m \<Longrightarrow> set (om_insert k v m) = insert (k, v) {e \<in> set m. fst e \<noteq> k}"
  by (induction m) (auto simp: om_insert_Cons)

lemma om_ok_insert [simp]: "om_ok m \<Longrightarrow> om_ok (om_insert k v m)"
  by (induction m) (auto simp: om_insert_Cons set_om_insert)

lemma map_of_om_insert [simp]: "om_ok m \<Longrightarrow> map_of (om_insert k v m) = (map_of m)(k \<mapsto> v)"
proof (induction m)
  case (Cons e m)
  have "map_of m k = None" if "fst e = k" using Cons.prems that by (auto simp: map_of_eq_None_iff)
  with Cons show ?case by (cases e) (auto simp: om_insert_Cons fun_eq_iff)
qed simp

lemma map_of_om_remove [simp]: "map_of (om_remove k m) = (map_of m)(k := None)"
  by (induction m) (auto simp: om_remove_def fun_eq_iff)

lemma om_ok_filter [simp]: "om_ok m \<Longrightarrow> om_ok (filter P m)"
  by (induction m) auto

lemma om_ok_remove [simp]: "om_ok m \<Longrightarrow> om_ok (om_remove k m)"
  by (simp add: om_remove_def)

lemma om_keys_iff: "k \<in> set (om_keys m) \<longleftrightarrow> map_of m k \<noteq> None"
  by (simp add: om_keys_def map_of_eq_None_iff)

interpretation om: ordered_map om_ok om_keys map_of om_insert om_remove
  by unfold_locales
    (auto simp: om_keys_iff om_ok_def [symmetric] set_om_insert om_keys_def [symmetric] simp del: om_ok_simps split: if_splits)

lemma om_ok_adjust [simp]: "om_ok m \<Longrightarrow> om_ok (om_adjust k d f m)"
  by (simp add: om_adjust_def)

lemma map_of_om_adjust [simp]:
  "om_ok m \<Longrightarrow> map_of (om_adjust k d f m) = (map_of m)(k \<mapsto> f (unwrap_or d (map_of m k)))"
  by (simp add: om_adjust_def)

text \<open>Entries under distinct keys: membership and lookup agree.\<close>

lemma om_entry_iff: "om_ok m \<Longrightarrow> (k, v) \<in> set m \<longleftrightarrow> map_of m k = Some v"
  using om.keys_distinct [of m] by (metis map_of_is_SomeI map_of_SomeD om_keys_def)

subsection \<open>Sets\<close>

text \<open>\<open>BTreeSet::insert\<close> and \<open>remove\<close>; the first answers whether the element was new.\<close>

abbreviation os_insert :: "'a::linorder \<Rightarrow> 'a list \<Rightarrow> 'a list" where
  "os_insert \<equiv> insort_insert"

definition os_remove :: "'a \<Rightarrow> 'a list \<Rightarrow> 'a list" where
  "os_remove x xs = filter (\<lambda>y. y \<noteq> x) xs"

definition os_ok :: "'a::linorder list \<Rightarrow> bool" where
  "os_ok xs \<longleftrightarrow> sorted xs \<and> distinct xs"

lemma os_ok_insert [simp]: "os_ok xs \<Longrightarrow> os_ok (os_insert x xs)"
  by (simp add: os_ok_def sorted_insort_insert distinct_insort_insert)

lemma os_ok_remove [simp]: "os_ok xs \<Longrightarrow> os_ok (os_remove x xs)"
  by (simp add: os_ok_def os_remove_def sorted_wrt_filter)

lemma set_os_insert [simp]: "set (os_insert x xs) = insert x (set xs)"
  by (simp add: set_insort_insert)

lemma set_os_remove [simp]: "set (os_remove x xs) = set xs - {x}"
  by (auto simp: os_remove_def)

lemma os_ok_Nil [simp]: "os_ok []"
  by (simp add: os_ok_def)

end
