(* ===== verification/Sample_Ranges.thy ===== *)
theory Sample_Ranges
  imports CS_Prelude "HOL-Library.Product_Lexorder"
begin

section \<open>Sample ranges on the capture clock\<close>

text \<open>
  The interval arithmetic of \<open>core/pipeline/acoustic_ledger.rs\<close> and of the complete-decode index of
  \<open>core/pipeline/acoustic_ledger/slot_ops.rs\<close>. A range is a pair of sample numbers, the end
  exclusive; \<open>samples\<close> gives a list of ranges its meaning as a set of samples. The theory shows that
  the routines compute with those sets: \<open>merged_ranges\<close> keeps the union, \<open>punch_out\<close> subtracts,
  \<open>uncovered_ranges\<close> is a set difference whose lengths add up to its size, and the merged
  complete-decode spans answer a coverage question by one lookup.
\<close>

type_synonym srange = "nat \<times> nat"

definition samples :: "srange list \<Rightarrow> nat set" where
  "samples rs = (\<Union>(s, e) \<in> set rs. {s..<e})"

lemma samples_simps [simp]:
  "samples [] = {}"
  "samples (r # rs) = {fst r..<snd r} \<union> samples rs"
  "samples (rs @ qs) = samples rs \<union> samples qs"
  by (auto simp: samples_def split: prod.splits)

lemma samples_Union: "samples rs = (\<Union>r \<in> set rs. {fst r..<snd r})"
  by (auto simp: samples_def)

lemma samples_concat_map: "samples (concat (map f rs)) = (\<Union>r \<in> set rs. samples (f r))"
  by (induction rs) auto

lemma samples_cong_set: "set rs = set qs \<Longrightarrow> samples rs = samples qs"
  by (simp add: samples_def)

lemma finite_samples [simp]: "finite (samples rs)"
  by (auto simp: samples_def)

text \<open>Ranges in capture order: none empty, none reaching into the next. \<open>apart\<close> asks for a gap
  between neighbours, \<open>in_order\<close> lets them touch.\<close>

definition in_order :: "srange list \<Rightarrow> bool" where
  "in_order rs \<longleftrightarrow> sorted_wrt (\<lambda>p q. snd p \<le> fst q) rs \<and> list_all (\<lambda>p. fst p < snd p) rs"

definition apart :: "srange list \<Rightarrow> bool" where
  "apart rs \<longleftrightarrow> sorted_wrt (\<lambda>p q. snd p < fst q) rs \<and> list_all (\<lambda>p. fst p < snd p) rs"

lemma in_order_simps [simp]:
  "in_order []"
  "in_order (r # rs) \<longleftrightarrow> fst r < snd r \<and> (\<forall>q \<in> set rs. snd r \<le> fst q) \<and> in_order rs"
  by (auto simp: in_order_def)

lemma apart_simps [simp]:
  "apart []"
  "apart (r # rs) \<longleftrightarrow> fst r < snd r \<and> (\<forall>q \<in> set rs. snd r < fst q) \<and> apart rs"
  by (auto simp: apart_def)

lemma apart_in_order: "apart rs \<Longrightarrow> in_order rs"
  by (induction rs) auto

lemma in_order_append:
  "in_order (rs @ qs) \<longleftrightarrow> in_order rs \<and> in_order qs \<and> (\<forall>r \<in> set rs. \<forall>q \<in> set qs. snd r \<le> fst q)"
  by (auto simp: in_order_def sorted_wrt_append)

lemma apart_append:
  "apart (rs @ qs) \<longleftrightarrow> apart rs \<and> apart qs \<and> (\<forall>r \<in> set rs. \<forall>q \<in> set qs. snd r < fst q)"
  by (auto simp: apart_def sorted_wrt_append)

text \<open>The lengths of ordered ranges add up to the number of samples they name.\<close>

definition total_len :: "srange list \<Rightarrow> nat" where
  "total_len rs = sum_list (map (\<lambda>(s, e). e - s) rs)"

lemma total_len_card: "in_order rs \<Longrightarrow> total_len rs = card (samples rs)"
proof (induction rs)
  case (Cons r rs)
  have "{fst r..<snd r} \<inter> samples rs = {}"
    using Cons.prems by (fastforce simp: samples_def)
  then have "card (samples (r # rs)) = (snd r - fst r) + card (samples rs)"
    by (simp add: card_Un_disjoint)
  with Cons show ?case by (simp add: total_len_def case_prod_beta)
qed (simp add: total_len_def)

subsection \<open>Union: \<open>merged_ranges\<close>\<close>

text \<open>The loop body of \<open>merged_ranges\<close>; the merged ranges are kept newest first.\<close>

fun merge_step :: "srange \<Rightarrow> srange list \<Rightarrow> srange list" where
  "merge_step (s, e) ((a, b) # ms) = (if s \<le> b then (a, max b e) # ms else (s, e) # (a, b) # ms)"
| "merge_step (s, e) [] = [(s, e)]"

definition merged_ranges :: "srange list \<Rightarrow> srange list" where
  "merged_ranges ranges = rev (fold merge_step (sort (filter (\<lambda>(start, end'). end' > start) ranges)) [])"

lemma merge_step_samples:
  assumes "\<forall>m \<in> set ms. fst m \<le> s" and "s < e" and "\<forall>m \<in> set ms. fst m < snd m"
  shows "samples (merge_step (s, e) ms) = {s..<e} \<union> samples ms"
  using assms by (cases ms) (auto simp: max_def split: if_splits)

lemma merge_step_starts:
  "\<forall>m \<in> set ms. fst m \<le> s \<Longrightarrow> \<forall>m \<in> set (merge_step (s, e) ms). fst m \<le> s"
  by (cases ms) (auto split: if_splits)

lemma merge_step_apart:
  assumes "apart (rev ms)" and "\<forall>m \<in> set ms. fst m \<le> s" and "s < e"
  shows "apart (rev (merge_step (s, e) ms))"
proof (cases ms)
  case (Cons m ms')
  obtain a b where m: "m = (a, b)" by fastforce
  have ends: "apart (rev ms')" "a < b" "\<forall>r \<in> set ms'. snd r < a"
    using assms(1) by (simp_all add: Cons m apart_append)
  show ?thesis
  proof (cases "s \<le> b")
    case True
    with ends show ?thesis by (simp add: Cons m apart_append less_max_iff_disj)
  next
    case False
    then have "snd r < s" if "r \<in> set ms'" for r using that ends by fastforce
    with False ends assms(3) show ?thesis by (auto simp: Cons m apart_append)
  qed
qed (use assms in simp)

lemma fold_merge_step:
  assumes "sorted rs" and "\<forall>r \<in> set rs. fst r < snd r" and "apart (rev ms)"
    and "\<forall>m \<in> set ms. \<forall>r \<in> set rs. fst m \<le> fst r"
  shows "apart (rev (fold merge_step rs ms)) \<and> samples (fold merge_step rs ms) = samples rs \<union> samples ms"
  using assms
proof (induction rs arbitrary: ms)
  case (Cons r rs)
  obtain s e where r: "r = (s, e)" by fastforce
  have below: "\<forall>m \<in> set ms. fst m \<le> s" and se: "s < e" using Cons.prems by (auto simp: r)
  have ne: "\<forall>m \<in> set ms. fst m < snd m" using Cons.prems(3) by (auto simp: apart_def list_all_iff)
  have later: "\<forall>q \<in> set rs. s \<le> fst q" using Cons.prems(1) by (auto simp: r less_eq_prod_def)
  note step = merge_step_apart [OF Cons.prems(3) below se] merge_step_starts [OF below, of e]
  have "apart (rev (fold merge_step rs (merge_step (s, e) ms)))
      \<and> samples (fold merge_step rs (merge_step (s, e) ms)) = samples rs \<union> samples (merge_step (s, e) ms)"
  proof (rule Cons.IH)
    show "sorted rs" "\<forall>r \<in> set rs. fst r < snd r" using Cons.prems(1,2) by simp_all
    show "\<forall>m \<in> set (merge_step (s, e) ms). \<forall>r \<in> set rs. fst m \<le> fst r"
      using step(2) later by (blast intro: order_trans)
  qed (rule step(1))
  then show ?case using merge_step_samples [OF below se ne] by (auto simp: r)
qed simp

lemma samples_rev [simp]: "samples (rev rs) = samples rs"
  by (simp add: samples_def)

lemma samples_nonempty_filter: "samples (filter (\<lambda>(s, e). e > s) rs) = samples rs"
proof -
  have "{s..<e} = {}" if "\<not> s < e" for s e :: nat using that by simp
  then show ?thesis unfolding samples_def set_filter by (intro equalityI) fastforce+
qed

lemma merged_ranges_props: "apart (merged_ranges rs) \<and> samples (merged_ranges rs) = samples rs"
proof -
  let ?f = "filter (\<lambda>(s, e). e > s) rs"
  have ne: "\<forall>r \<in> set (sort ?f). fst r < snd r" by auto
  have "apart (rev (fold merge_step (sort ?f) [])) \<and> samples (fold merge_step (sort ?f) []) = samples (sort ?f) \<union> samples []"
    by (rule fold_merge_step) (use ne in simp_all)
  moreover have "samples (sort ?f) = samples rs"
    using samples_nonempty_filter [of rs] by (simp add: samples_def)
  ultimately show ?thesis by (simp add: merged_ranges_def)
qed

lemmas merged_ranges_apart = merged_ranges_props [THEN conjunct1]
lemmas merged_ranges_samples [simp] = merged_ranges_props [THEN conjunct2]

subsection \<open>Difference: the debt subtraction and the uncovered walk\<close>

text \<open>One debt range leaves up to two pieces of a range it meets.\<close>

definition punch_piece :: "srange \<Rightarrow> srange \<Rightarrow> srange list" where
  "punch_piece d r = (case r of (start, end') \<Rightarrow>
     if snd d \<le> start \<or> fst d \<ge> end' then [(start, end')]
     else (if start < fst d then [(start, fst d)] else []) @ (if end' > snd d then [(snd d, end')] else []))"

definition punch_out :: "srange list \<Rightarrow> srange \<Rightarrow> srange list" where
  "punch_out debt r = fold (\<lambda>d pieces. concat (map (punch_piece d) pieces)) debt [r]"

text \<open>The walk over the committed ranges inside one speech range: the ranges it pushes and the
  cursor it ends with.\<close>

fun cover_walk :: "nat \<Rightarrow> nat \<Rightarrow> srange list \<Rightarrow> srange list \<times> nat" where
  "cover_walk speech_end cursor [] = ([], cursor)"
| "cover_walk speech_end cursor ((covered_start, covered_end) # cs) =
     (if covered_end \<le> cursor \<or> covered_start \<ge> speech_end then cover_walk speech_end cursor cs
      else let gap = (if covered_start > cursor then [(cursor, min covered_start speech_end)] else []);
               cursor' = min (max cursor covered_end) speech_end
           in if cursor' \<ge> speech_end then (gap, cursor')
              else case cover_walk speech_end cursor' cs of (gaps, c) \<Rightarrow> (gap @ gaps, c))"

definition uncovered_in :: "srange list \<Rightarrow> srange \<Rightarrow> srange list" where
  "uncovered_in committed r = (case r of (speech_start, speech_end) \<Rightarrow>
     case cover_walk speech_end speech_start committed of (gaps, cursor) \<Rightarrow>
       gaps @ (if cursor < speech_end then [(cursor, speech_end)] else []))"

definition uncovered_ranges :: "srange list \<Rightarrow> srange list \<Rightarrow> srange list" where
  "uncovered_ranges committed speech = concat (map (uncovered_in committed) speech)"

lemma punch_piece_samples:
  "fst d \<le> snd d \<Longrightarrow> samples (punch_piece d r) = {fst r..<snd r} - {fst d..<snd d}"
  by (cases r) (auto simp: punch_piece_def)

lemma punch_piece_inside:
  "q \<in> set (punch_piece d r) \<Longrightarrow> fst r < snd r \<Longrightarrow> fst r \<le> fst q \<and> fst q < snd q \<and> snd q \<le> snd r"
  by (cases r) (auto simp: punch_piece_def split: if_splits)

lemma punch_piece_in_order: "fst d \<le> snd d \<Longrightarrow> fst r < snd r \<Longrightarrow> in_order (punch_piece d r)"
  by (cases r) (auto simp: punch_piece_def)

lemma concat_pieces_in_order:
  assumes "in_order rs" and "\<And>r. r \<in> set rs \<Longrightarrow> in_order (f r)"
    and "\<And>r q. r \<in> set rs \<Longrightarrow> q \<in> set (f r) \<Longrightarrow> fst r \<le> fst q \<and> snd q \<le> snd r"
  shows "in_order (concat (map f rs))"
  using assms
proof (induction rs)
  case (Cons r rs)
  have "in_order (concat (map f rs))" using Cons.prems by (intro Cons.IH) auto
  moreover have "snd p \<le> fst q" if "p \<in> set (f r)" "r' \<in> set rs" "q \<in> set (f r')" for p q r'
  proof -
    have "snd p \<le> snd r" "fst r' \<le> fst q" "snd r \<le> fst r'"
      using Cons.prems that by auto
    then show ?thesis by simp
  qed
  ultimately show ?case using Cons.prems(2) by (auto simp: in_order_append)
qed simp

lemma in_order_bounds: "in_order rs \<Longrightarrow> r \<in> set rs \<Longrightarrow> fst r < snd r"
  by (auto simp: in_order_def list_all_iff)

lemma fold_punch:
  assumes "in_order pieces" and "\<forall>d \<in> set debt. fst d \<le> snd d"
  defines "out \<equiv> fold (\<lambda>d pieces. concat (map (punch_piece d) pieces)) debt pieces"
  shows "in_order out \<and> samples out = samples pieces - samples debt"
  using assms(1,2) unfolding out_def
proof (induction debt arbitrary: pieces)
  case (Cons d debt)
  let ?p = "concat (map (punch_piece d) pieces)"
  have "in_order ?p"
    using Cons.prems punch_piece_inside [of _ d] punch_piece_in_order [of d] in_order_bounds
    by (intro concat_pieces_in_order) (auto; blast)+
  moreover have "samples ?p = samples pieces - {fst d..<snd d}"
    using Cons.prems(2) by (simp add: samples_concat_map punch_piece_samples flip: samples_Union)
  ultimately show ?case using Cons.IH [of ?p] Cons.prems(2) by auto
qed simp

lemma fold_punch_inside:
  assumes "\<forall>p \<in> set pieces. lo \<le> fst p \<and> snd p \<le> hi \<and> fst p < snd p"
  shows "\<forall>p \<in> set (fold (\<lambda>d pieces. concat (map (punch_piece d) pieces)) debt pieces).
    lo \<le> fst p \<and> snd p \<le> hi \<and> fst p < snd p"
  using assms
proof (induction debt arbitrary: pieces)
  case (Cons d debt)
  have "\<forall>p \<in> set (concat (map (punch_piece d) pieces)). lo \<le> fst p \<and> snd p \<le> hi \<and> fst p < snd p"
  proof
    fix p assume "p \<in> set (concat (map (punch_piece d) pieces))"
    then obtain r where r: "r \<in> set pieces" "p \<in> set (punch_piece d r)" by auto
    then have "lo \<le> fst r" "snd r \<le> hi" "fst r < snd r" using Cons.prems by auto
    with punch_piece_inside [OF r(2)] show "lo \<le> fst p \<and> snd p \<le> hi \<and> fst p < snd p" by auto
  qed
  from Cons.IH [OF this] show ?case by simp
qed simp

text \<open>Every range with the debt punched out: the committed samples minus the debt.\<close>

lemma punch_all:
  assumes "in_order rs" and "\<forall>d \<in> set debt. fst d \<le> snd d"
  shows "in_order (concat (map (punch_out debt) rs))"
    and "samples (concat (map (punch_out debt) rs)) = samples rs - samples debt"
proof -
  have one: "in_order (punch_out debt r)" "samples (punch_out debt r) = {fst r..<snd r} - samples debt"
      "\<forall>p \<in> set (punch_out debt r). fst r \<le> fst p \<and> snd p \<le> snd r"
    if "r \<in> set rs" for r
    using fold_punch [of "[r]" debt] fold_punch_inside [of "[r]" "fst r" "snd r" debt]
      in_order_bounds [OF assms(1) that] assms(2) by (simp_all add: punch_out_def)
  show "in_order (concat (map (punch_out debt) rs))"
    using one by (intro concat_pieces_in_order [OF assms(1)]) blast+
  have "(\<Union>r \<in> set rs. samples (punch_out debt r)) = (\<Union>r \<in> set rs. {fst r..<snd r} - samples debt)"
    using one(2) by (rule SUP_cong [OF refl])
  then show "samples (concat (map (punch_out debt) rs)) = samples rs - samples debt"
    by (simp add: samples_concat_map flip: samples_Union)
qed


lemma cover_walk_spec:
  assumes "in_order cs" and "cursor \<le> speech_end" and "cover_walk speech_end cursor cs = (gaps, c)"
  shows "cursor \<le> c \<and> c \<le> speech_end \<and> in_order gaps
    \<and> samples gaps \<union> {c..<speech_end} = {cursor..<speech_end} - samples cs
    \<and> (\<forall>g \<in> set gaps. cursor \<le> fst g \<and> snd g \<le> c)"
  using assms
proof (induction speech_end cursor cs arbitrary: gaps c rule: cover_walk.induct)
  case (2 speech_end cursor a b cs)
  have ab: "a < b" and later: "\<forall>q \<in> set cs. b \<le> fst q" and cs: "in_order cs" using "2.prems"(1) by auto
  have tail: "x \<notin> samples cs" if "x < b" for x
    using that later by (fastforce simp: samples_Union)
  show ?case
  proof (cases "b \<le> cursor \<or> speech_end \<le> a")
    case True
    have "{cursor..<speech_end} - samples ((a, b) # cs) = {cursor..<speech_end} - samples cs"
      using True by auto
    with "2.IH"(1) [OF True cs "2.prems"(2)] "2.prems"(3) True show ?thesis by simp
  next
    case False
    define gap where "gap = (if a > cursor then [(cursor, min a speech_end)] else [])"
    define cursor' where "cursor' = min (max cursor b) speech_end"
    have gap: "in_order gap" "samples gap = {cursor..<a}" "\<forall>g \<in> set gap. fst g = cursor \<and> snd g = a"
      using False by (auto simp: gap_def)
    show ?thesis
    proof (cases "cursor' \<ge> speech_end")
      case True
      then have out: "gaps = gap" "c = cursor'" and e: "cursor' = speech_end" "speech_end \<le> b"
        using "2.prems"(3) False by (auto simp: gap_def [symmetric] cursor'_def Let_def)
      have "{cursor..<a} = {cursor..<speech_end} - samples ((a, b) # cs)"
        using False e tail by auto
      with gap out e "2.prems"(2) False show ?thesis by auto
    next
      case ne: False
      then have c': "cursor' = b" "b < speech_end" "cursor < b" using False by (auto simp: cursor'_def)
      obtain gs where rec: "cover_walk speech_end b cs = (gs, c)" and out: "gaps = gap @ gs"
        using "2.prems"(3) False c' by (auto simp: gap_def Let_def split: prod.splits)
      have ih: "b \<le> c \<and> c \<le> speech_end \<and> in_order gs
          \<and> samples gs \<union> {c..<speech_end} = {b..<speech_end} - samples cs
          \<and> (\<forall>g \<in> set gs. b \<le> fst g \<and> snd g \<le> c)"
        using "2.IH"(2) [OF False refl refl] ne cs c' rec by (simp add: cursor'_def)
      have "samples gaps \<union> {c..<speech_end} = {cursor..<a} \<union> ({b..<speech_end} - samples cs)"
        using ih by (simp add: out gap Un_assoc)
      also have "\<dots> = {cursor..<speech_end} - samples ((a, b) # cs)"
        using tail c' ab by fastforce
      finally have "samples gaps \<union> {c..<speech_end} = {cursor..<speech_end} - samples ((a, b) # cs)" .
      moreover have "in_order gaps" using gap ih ab by (auto simp: out in_order_append)
      moreover have "\<forall>g \<in> set gaps. cursor \<le> fst g \<and> snd g \<le> c"
        using gap ih ab c' by (fastforce simp: out)
      ultimately show ?thesis using ih c' by simp
    qed
  qed
qed simp

lemma uncovered_in_spec:
  assumes "in_order committed" and "fst r < snd r"
  shows "in_order (uncovered_in committed r)"
    and "samples (uncovered_in committed r) = {fst r..<snd r} - samples committed"
    and "\<forall>g \<in> set (uncovered_in committed r). fst r \<le> fst g \<and> snd g \<le> snd r"
proof -
  obtain s e where r: "r = (s, e)" by fastforce
  obtain gaps c where w: "cover_walk e s committed = (gaps, c)" by fastforce
  note spec = cover_walk_spec [OF assms(1) _ w]
  have le: "s \<le> e" using assms(2) by (simp add: r)
  have u: "uncovered_in committed r = gaps @ (if c < e then [(c, e)] else [])"
    by (simp add: uncovered_in_def r w)
  show "in_order (uncovered_in committed r)" using spec [OF le] unfolding u by (simp add: in_order_append)
  show "samples (uncovered_in committed r) = {fst r..<snd r} - samples committed"
    using spec [OF le] unfolding u by (auto simp: r)
  show "\<forall>g \<in> set (uncovered_in committed r). fst r \<le> fst g \<and> snd g \<le> snd r"
    using spec [OF le] unfolding u by (auto simp: r)
qed

lemma uncovered_ranges_spec:
  assumes "in_order committed" and "in_order speech"
  shows "in_order (uncovered_ranges committed speech)"
    and "samples (uncovered_ranges committed speech) = samples speech - samples committed"
proof -
  note one = uncovered_in_spec [OF assms(1) in_order_bounds [OF assms(2)]]
  show "in_order (uncovered_ranges committed speech)"
    unfolding uncovered_ranges_def using one by (intro concat_pieces_in_order [OF assms(2)]) blast+
  have "(\<Union>r \<in> set speech. samples (uncovered_in committed r)) = (\<Union>r \<in> set speech. {fst r..<snd r} - samples committed)"
    using one(2) by (rule SUP_cong [OF refl])
  then show "samples (uncovered_ranges committed speech) = samples speech - samples committed"
    by (simp add: uncovered_ranges_def samples_concat_map flip: samples_Union)
qed

subsection \<open>The complete-decode index\<close>

text \<open>\<open>slice::partition_point\<close> on a slice that is partitioned by the predicate.\<close>

definition partition_point :: "('a \<Rightarrow> bool) \<Rightarrow> 'a list \<Rightarrow> nat" where
  "partition_point P xs = length (takeWhile P xs)"

definition join_decode_span :: "srange \<Rightarrow> srange list \<Rightarrow> srange list" where
  "join_decode_span span spans = (case span of (start, end') \<Rightarrow>
     let first = partition_point (\<lambda>(_, span_end). span_end < start) spans;
         last' = partition_point (\<lambda>(span_start, _). span_start \<le> end') spans;
         merged = fold (\<lambda>(span_start, span_end) (lo, hi). (min lo span_start, max hi span_end))
                    (take (last' - first) (drop first spans)) (start, end')
     in take first spans @ [merged] @ drop last' spans)"

definition decode_spans_cover :: "srange list \<Rightarrow> srange \<Rightarrow> bool" where
  "decode_spans_cover spans owner =
     (let index = partition_point (\<lambda>(start, _). start \<le> fst owner) spans
      in index > 0 \<and> snd (spans ! (index - 1)) \<ge> snd owner)"

lemma join_parts:
  assumes "apart spans" and "s < e"
  defines "A \<equiv> takeWhile (\<lambda>(_, b). b < s) spans"
  defines "R \<equiv> dropWhile (\<lambda>(_, b). b < s) spans"
  defines "M \<equiv> takeWhile (\<lambda>(a, _). a \<le> e) R"
  defines "C \<equiv> dropWhile (\<lambda>(a, _). a \<le> e) R"
  shows "spans = A @ M @ C"
    and "join_decode_span (s, e) spans
      = A @ [fold (\<lambda>(a, b) (lo, hi). (min lo a, max hi b)) M (s, e)] @ C"
    and "\<forall>p \<in> set A. snd p < s" and "\<forall>p \<in> set M. fst p \<le> e \<and> s \<le> snd p" and "\<forall>p \<in> set C. e < fst p"
proof -
  show parts: "spans = A @ M @ C" by (simp add: A_def R_def M_def C_def)
  show A: "\<forall>p \<in> set A. snd p < s" by (auto simp: A_def dest: set_takeWhileD)
  have ne: "fst p < snd p" if "p \<in> set spans" for p
    using assms(1) that by (auto simp: apart_def list_all_iff)
  have R: "s \<le> snd p" if "p \<in> set R" for p
  proof (cases R)
    case (Cons q qs)
    then have "\<not> snd q < s" using hd_dropWhile [of "\<lambda>(_, b). b < s" spans] by (auto simp: R_def)
    moreover have "apart R" using assms(1) parts by (simp add: apart_append M_def C_def)
    moreover have "fst p < snd p" using ne that parts by (auto simp: R_def dest: set_dropWhileD)
    ultimately show ?thesis using that Cons by fastforce
  qed (use that in simp)
  have C: "e < fst p" if "p \<in> set C" for p
  proof (cases C)
    case (Cons q qs)
    then have "\<not> fst q \<le> e" using hd_dropWhile [of "\<lambda>(a, _). a \<le> e" R] by (auto simp: C_def)
    moreover have "apart C" using assms(1) parts by (metis apart_append)
    ultimately show ?thesis using that Cons by fastforce
  qed (use that in simp)
  show "\<forall>p \<in> set M. fst p \<le> e \<and> s \<le> snd p"
    using R by (auto simp: M_def dest!: set_takeWhileD)
  show "\<forall>p \<in> set C. e < fst p" using C by blast
  have "takeWhile (\<lambda>(a, _). a \<le> e) spans = A @ M"
  proof -
    have "\<forall>p \<in> set A. (\<lambda>(a, _). a \<le> e) p" using A ne parts assms(2) by fastforce
    then have "takeWhile (\<lambda>(a, _). a \<le> e) (A @ R) = A @ takeWhile (\<lambda>(a, _). a \<le> e) R"
      by (intro takeWhile_append2) blast
    then show ?thesis by (simp add: A_def R_def M_def)
  qed
  moreover have "takeWhile (\<lambda>(_, b). b < s) spans = A" by (simp add: A_def)
  ultimately show "join_decode_span (s, e) spans = A @ [fold (\<lambda>(a, b) (lo, hi). (min lo a, max hi b)) M (s, e)] @ C"
    by (simp add: join_decode_span_def partition_point_def Let_def) (simp add: parts)
qed

lemma fold_span_hull:
  assumes "\<forall>p \<in> set M. fst p \<le> hi \<and> lo \<le> snd p" and "apart M" and "lo < hi"
  defines "h \<equiv> fold (\<lambda>(a, b) (lo, hi). (min lo a, max hi b)) M (lo, hi)"
  shows "{fst h..<snd h} = {lo..<hi} \<union> samples M \<and> fst h < snd h
    \<and> (\<forall>x. x < lo \<longrightarrow> (\<forall>p \<in> set M. x < fst p) \<longrightarrow> x < fst h)
    \<and> (\<forall>x > hi. (\<forall>p \<in> set M. snd p < x) \<longrightarrow> snd h < x)"
  using assms(1-3) unfolding h_def
proof (induction M arbitrary: lo hi)
  case (Cons m M)
  obtain a b where m: "m = (a, b)" by fastforce
  have ab: "a < b" "a \<le> hi" "lo \<le> b" using Cons.prems by (auto simp: m)
  have prems: "\<forall>p \<in> set M. fst p \<le> max hi b \<and> min lo a \<le> snd p" "apart M" "min lo a < max hi b"
    using Cons.prems by (fastforce simp: m)+
  have "{min lo a..<max hi b} = {lo..<hi} \<union> {a..<b}"
    using ab Cons.prems(3) by (auto simp: min_def max_def)
  with Cons.IH [OF prems] show ?case by (auto simp: m)
qed simp

text \<open>Joining a span keeps the spans apart and adds exactly its samples.\<close>

lemma join_decode_span_spec:
  assumes "apart spans" and "s < e"
  shows "apart (join_decode_span (s, e) spans)"
    and "samples (join_decode_span (s, e) spans) = {s..<e} \<union> samples spans"
proof -
  define A where "A = takeWhile (\<lambda>(_, b). b < s) spans"
  define R where "R = dropWhile (\<lambda>(_, b). b < s) spans"
  define M where "M = takeWhile (\<lambda>(a, _). a \<le> e) R"
  define C where "C = dropWhile (\<lambda>(a, _). a \<le> e) R"
  note parts = join_parts [OF assms, folded A_def R_def, folded M_def C_def]
  define h where "h = fold (\<lambda>(a, b) (lo, hi). (min lo a, max hi b)) M (s, e)"
  have sub: "apart A" "apart M" "apart C"
      "\<forall>p \<in> set A. \<forall>q \<in> set M. snd p < fst q" "\<forall>p \<in> set A. \<forall>q \<in> set C. snd p < fst q"
      "\<forall>p \<in> set M. \<forall>q \<in> set C. snd p < fst q"
    using assms(1) parts(1) by (auto simp: apart_append)
  note hull = fold_span_hull [OF parts(4) sub(2) assms(2), folded h_def]
  have j: "join_decode_span (s, e) spans = A @ [h] @ C" using parts(2) by (simp add: h_def)
  have "snd p < fst h" if "p \<in> set A" for p using hull parts(3) sub(4) that by blast
  moreover have "snd h < fst p" if "p \<in> set C" for p using hull parts(5) sub(6) that by blast
  ultimately show "apart (join_decode_span (s, e) spans)"
    using sub hull unfolding j by (simp add: apart_append)
  show "samples (join_decode_span (s, e) spans) = {s..<e} \<union> samples spans"
    unfolding j by (subst parts(1)) (use hull in auto)
qed

text \<open>One lookup decides whether spans that are apart name every sample of a range.\<close>

lemma decode_spans_cover_iff:
  assumes "apart spans" and "fst owner < snd owner"
  shows "decode_spans_cover spans owner \<longleftrightarrow> {fst owner..<snd owner} \<subseteq> samples spans"
  using assms
proof (induction spans)
  case Nil
  then show ?case by (simp add: decode_spans_cover_def partition_point_def)
next
  case (Cons p spans)
  have later: "\<forall>q \<in> set spans. snd p < fst q" "fst p < snd p" and ap: "apart spans" using Cons.prems by auto
  have tail: "x \<notin> samples spans" if "x \<le> snd p" for x
    using that later(1) by (fastforce simp: samples_Union)
  consider (after) "fst owner < fst p" | (only) "fst p \<le> fst owner" "\<forall>q \<in> set spans. fst owner < fst q"
    | (more) q where "fst p \<le> fst owner" "q \<in> set spans" "fst q \<le> fst owner" by (meson not_le)
  then show ?case
  proof cases
    case after
    then have "fst owner \<notin> samples (p # spans)" using tail later by auto
    moreover have "takeWhile (\<lambda>(start, _). start \<le> fst owner) (p # spans) = []" using after by (auto split: prod.splits)
    ultimately show ?thesis using Cons.prems(2) by (auto simp: decode_spans_cover_def partition_point_def)
  next
    case only
    have "takeWhile (\<lambda>(start, _). start \<le> fst owner) spans = []"
      using only(2) by (cases spans) (auto split: prod.splits)
    then have "decode_spans_cover (p # spans) owner \<longleftrightarrow> snd owner \<le> snd p"
      using only(1) by (auto simp: decode_spans_cover_def partition_point_def split: prod.splits)
    moreover have "\<not> {fst owner..<snd owner} \<subseteq> samples (p # spans)" if "snd p < snd owner"
    proof (cases "fst owner \<le> snd p")
      case True
      then have "snd p \<in> {fst owner..<snd owner}" using that by simp
      moreover have "snd p \<notin> samples (p # spans)" using tail [of "snd p"] by simp
      ultimately show ?thesis by blast
    next
      case False
      then have "fst owner \<notin> samples (p # spans)" using only(2) by (fastforce simp: samples_Union)
      moreover have "fst owner \<in> {fst owner..<snd owner}" using Cons.prems(2) by simp
      ultimately show ?thesis by blast
    qed
    moreover have "{fst owner..<snd owner} \<subseteq> samples (p # spans)" if "snd owner \<le> snd p"
      using that only(1) by auto
    ultimately show ?thesis by (meson not_le)
  next
    case more
    have ne: "takeWhile (\<lambda>(start, _). start \<le> fst owner) spans \<noteq> []"
      using more ap by (cases spans) (fastforce split: prod.splits)+
    then have "decode_spans_cover (p # spans) owner \<longleftrightarrow> decode_spans_cover spans owner"
      using more(1) by (auto simp: decode_spans_cover_def partition_point_def split: prod.splits)
    moreover have "snd p < fst owner" using more later by fastforce
    then have "{fst owner..<snd owner} \<subseteq> samples (p # spans) \<longleftrightarrow> {fst owner..<snd owner} \<subseteq> samples spans" by fastforce
    ultimately show ?thesis using Cons.IH [OF ap Cons.prems(2)] by simp
  qed
qed

end
