(* ===== verification/Occurrence.thy ===== *)
theory Occurrence
  imports Ordered_Maps Rust_Text Sample_Ranges
begin

section \<open>Occurrences, observations and receipts\<close>

text \<open>
  The vocabulary of \<open>core/pipeline/acoustic_ledger.rs\<close>: the physical occurrence that is the only key
  of the transcript, the relation between two occurrences, the producers and their authority, the
  observation identity, the receipts and reasons, the word slots, and the decision that bounds how
  much of the canvas a cumulative final may restate.

  Sample numbers are \<open>u64\<close> in the code; every subtraction it makes is saturating or guarded, as
  subtraction on \<^typ>\<open>nat\<close> is, and no sum of two sample numbers is formed but a midpoint, which
  stays below the larger of them.
\<close>

subsection \<open>Occurrence identity\<close>

datatype occurrence = Occurrence (session: rstr) (capture_epoch: nat) (sample_start: nat) (sample_end: nat)

text \<open>The derived order: field by field.\<close>

definition occ_key :: "occurrence \<Rightarrow> rstr \<times> nat \<times> nat \<times> nat" where
  "occ_key x = (session x, capture_epoch x, sample_start x, sample_end x)"

lemma occ_key_inject [simp]: "occ_key x = occ_key y \<longleftrightarrow> x = y"
  by (cases x; cases y) (simp add: occ_key_def)

instantiation occurrence :: linorder
begin

definition less_eq_occurrence :: "occurrence \<Rightarrow> occurrence \<Rightarrow> bool" where
  "less_eq_occurrence x y \<longleftrightarrow> occ_key x \<le> occ_key y"

definition less_occurrence :: "occurrence \<Rightarrow> occurrence \<Rightarrow> bool" where
  "less_occurrence x y \<longleftrightarrow> occ_key x < occ_key y"

instance
  by standard (auto simp: less_eq_occurrence_def less_occurrence_def less_le)

end

definition sample_len :: "occurrence \<Rightarrow> nat" where
  "sample_len x = sample_end x - sample_start x"

definition is_anchored :: "occurrence \<Rightarrow> bool" where
  "is_anchored x \<longleftrightarrow> sample_end x > sample_start x"

definition same_capture :: "occurrence \<Rightarrow> occurrence \<Rightarrow> bool" where
  "same_capture x y \<longleftrightarrow> session x = session y \<and> capture_epoch x = capture_epoch y"

datatype occurrence_relation =
    Same
  | Overlapping (overlap_samples: nat)
  | Disjoint
  | Unanchored
  | DifferentCapture

definition relate :: "occurrence \<Rightarrow> occurrence \<Rightarrow> occurrence_relation" where
  "relate x committed =
     (if \<not> same_capture x committed then DifferentCapture
      else if \<not> is_anchored x \<or> \<not> is_anchored committed then Unanchored
      else if sample_start x = sample_start committed \<and> sample_end x = sample_end committed then Same
      else let overlap_start = max (sample_start x) (sample_start committed);
               overlap_end = min (sample_end x) (sample_end committed)
           in if overlap_end > overlap_start then Overlapping (overlap_end - overlap_start) else Disjoint)"

text \<open>The samples an occurrence names.\<close>

definition pcm :: "occurrence \<Rightarrow> nat set" where
  "pcm x = {sample_start x..<sample_end x}"

lemma pcm_Int: "pcm x \<inter> pcm y = {max (sample_start x) (sample_start y)..<min (sample_end x) (sample_end y)}"
  by (auto simp: pcm_def)

subsection \<open>Producers and observations\<close>

datatype observation_producer =
    Apple | CloudLive | AppleDictation | Whisper | Lexicon | Formatter | ManualHuman

primrec authority_rank :: "observation_producer \<Rightarrow> nat" where
  "authority_rank Apple = 0"
| "authority_rank CloudLive = 1"
| "authority_rank AppleDictation = 2"
| "authority_rank Whisper = 3"
| "authority_rank Lexicon = 4"
| "authority_rank Formatter = 5"
| "authority_rank ManualHuman = 6"

lemma authority_rank_inject [simp]: "authority_rank p = authority_rank q \<longleftrightarrow> p = q"
  by (cases p; cases q) simp_all

text \<open>The derived order follows the declaration, which is the order of the ranks.\<close>

instantiation observation_producer :: linorder
begin

definition less_eq_observation_producer :: "observation_producer \<Rightarrow> observation_producer \<Rightarrow> bool" where
  "less_eq_observation_producer p q \<longleftrightarrow> authority_rank p \<le> authority_rank q"

definition less_observation_producer :: "observation_producer \<Rightarrow> observation_producer \<Rightarrow> bool" where
  "less_observation_producer p q \<longleftrightarrow> authority_rank p < authority_rank q"

instance
  by standard (auto simp: less_eq_observation_producer_def less_observation_producer_def)

end

primrec layer_label :: "observation_producer \<Rightarrow> rstr" where
  "layer_label Apple = lit ''apple''"
| "layer_label CloudLive = lit ''cloud_live''"
| "layer_label AppleDictation = lit ''apple_dictation''"
| "layer_label Whisper = lit ''whisper''"
| "layer_label Lexicon = lit ''retained_text''"
| "layer_label Formatter = lit ''retained_text''"
| "layer_label ManualHuman = lit ''manual_human''"

datatype observation = Observation
  (producer: observation_producer) (request: nat) (generation: nat) (occurrence: occurrence)

subsection \<open>Reasons and receipts\<close>

datatype no_authority_reason =
    ZeroWidth | NoRange | OverlapWithoutWordPins | ExclusiveTailAwaitingWholeSpan
  | LateWhisperWordSealedOwner | LateCloudLiveWordSealedOwner | LateAppleWordSealedOwner
  | LateAppleWordNotCurrent | NoMeasuredSpeech

primrec no_authority_str :: "no_authority_reason \<Rightarrow> rstr" where
  "no_authority_str LateWhisperWordSealedOwner = lit ''late_whisper_word_sealed_owner''"
| "no_authority_str LateCloudLiveWordSealedOwner = lit ''late_cloud_live_word_sealed_owner''"
| "no_authority_str LateAppleWordSealedOwner = lit ''late_apple_word_sealed_owner''"
| "no_authority_str LateAppleWordNotCurrent = lit ''late_apple_word_not_current''"
| "no_authority_str ZeroWidth = lit ''zero_width''"
| "no_authority_str NoRange = lit ''no_range''"
| "no_authority_str OverlapWithoutWordPins = lit ''overlap_without_word_pins''"
| "no_authority_str ExclusiveTailAwaitingWholeSpan = lit ''exclusive_tail_awaiting_whole_span''"
| "no_authority_str NoMeasuredSpeech = lit ''no_measured_speech''"

datatype silence_under_span = DigitalZero | BelowFloor | SoundWithoutSpeech | EnergyUnmeasured

datatype refuse_reason =
    SealedReplay | SlotAdmissionRejected | AuthorityConflict | BatchDuplicate | EmptyLabel
  | ReplayedRangeIdentity | IntersectingPinNotExclusive | ReplacedByWhisper | ReplacedByCloudLive
  | ClockLie | UnrecoveredSpeech | NoVoicedHopInPin | SpanWithoutOwnSpeech
  | SpanExceedsSyllableCeiling | IdenticalRepeatWithoutOwnVoicedSegment | ConfirmedNoSpeech
  | NoSpeechNearSpan (silence: silence_under_span) (distance_ms: "nat option")

primrec refuse_str :: "refuse_reason \<Rightarrow> rstr" where
  "refuse_str SealedReplay = lit ''sealed_replay''"
| "refuse_str SlotAdmissionRejected = lit ''slot_admission_rejected''"
| "refuse_str AuthorityConflict = lit ''authority_conflict''"
| "refuse_str BatchDuplicate = lit ''batch_duplicate''"
| "refuse_str EmptyLabel = lit ''empty_label''"
| "refuse_str ReplayedRangeIdentity = lit ''replayed_range_identity''"
| "refuse_str IntersectingPinNotExclusive = lit ''intersecting_pin_not_exclusive''"
| "refuse_str ReplacedByWhisper = lit ''replaced_by_whisper''"
| "refuse_str ReplacedByCloudLive = lit ''replaced_by_cloud_live''"
| "refuse_str ClockLie = lit ''clock_lie''"
| "refuse_str UnrecoveredSpeech = lit ''unrecovered_speech''"
| "refuse_str NoVoicedHopInPin = lit ''no_voiced_hop_in_pin''"
| "refuse_str SpanWithoutOwnSpeech = lit ''span_without_own_speech''"
| "refuse_str SpanExceedsSyllableCeiling = lit ''span_exceeds_syllable_ceiling''"
| "refuse_str IdenticalRepeatWithoutOwnVoicedSegment = lit ''identical_repeat_without_own_voiced_segment''"
| "refuse_str ConfirmedNoSpeech = lit ''confirmed_no_speech''"
| "refuse_str (NoSpeechNearSpan _ _) = lit ''no_speech_near_span''"

datatype mutation_receipt =
    Preserve (about: occurrence) (held_by: observation_producer)
  | Correct (about: occurrence) (corrected_from: observation_producer) (corrected_to: observation_producer)
  | Insert (about: occurrence)
  | KeepVisibleUnanchored (about: occurrence) (visible_label: rstr) (no_authority: no_authority_reason)
  | Refuse (about: occurrence) (reason: refuse_reason)

definition grants_mutation :: "mutation_receipt \<Rightarrow> bool" where
  "grants_mutation d \<longleftrightarrow> is_Insert d \<or> is_Correct d"

lemma grants_mutation_simps [simp]:
  "grants_mutation (Insert x)" "grants_mutation (Correct x f t)"
  "\<not> grants_mutation (Preserve x h)" "\<not> grants_mutation (KeepVisibleUnanchored x l n)" "\<not> grants_mutation (Refuse x r)"
  by (simp_all add: grants_mutation_def)

datatype overlap_pin_class =
    ExclusiveTail (member_index: nat)
  | Replay
  | UnanchoredPin no_authority_reason

subsection \<open>Word slots\<close>

datatype slot_witness =
    Unwitnessed
  | Confirmed
  | Contested (witness_label: rstr) (contested_range: occurrence)
  | Absent (absent_range: occurrence)

text \<open>Confidence is a value the ledger only copies; its type is left open.\<close>

record 'c word_slot =
  ws_start :: nat
  ws_end :: nat
  ws_text :: rstr
  ws_producer :: observation_producer
  ws_observation :: observation
  ws_witness :: slot_witness
  ws_confidence :: "'c option"
  ws_rewritten :: bool

definition compose_label :: "'c word_slot list \<Rightarrow> rstr" where
  "compose_label slots = join_with (lit '' '') (map ws_text slots)"

record 'c slot_alternative =
  sa_observation :: observation
  sa_candidate :: rstr
  sa_sources :: "'c word_slot list"
  sa_reason :: rstr

datatype slot_operation_kind = SlotCorrect | SlotInsert | SlotMerge | SlotSplit | SlotDelete

record 'c slot_operation =
  so_observation :: observation
  so_kind :: slot_operation_kind
  so_sources :: "'c word_slot list"
  so_outputs :: "'c word_slot list"
  so_ranges :: "occurrence list"
  so_rule :: rstr

subsection \<open>Declared ranges\<close>

definition declared_range_contains_midpoint :: "nat \<Rightarrow> nat \<Rightarrow> nat \<Rightarrow> nat \<Rightarrow> bool" where
  "declared_range_contains_midpoint host_start host_end subject_start subject_end =
     (let len = subject_end - subject_start
      in len \<noteq> 0 \<and> (let centre = subject_start + len div 2 in host_start \<le> centre \<and> centre < host_end))"

definition declared_ranges_share_word :: "nat \<Rightarrow> nat \<Rightarrow> nat \<Rightarrow> nat \<Rightarrow> bool" where
  "declared_ranges_share_word left_start left_end right_start right_end =
     (let left_len = left_end - left_start; right_len = right_end - right_start
      in if left_len = 0 \<or> right_len = 0 then False
         else let overlap = min left_end right_end - max left_start right_start;
                  shorter = min left_len right_len
              in if overlap < (shorter + 1) div 2 then False
                 else declared_range_contains_midpoint left_start left_end right_start right_end
                   \<or> declared_range_contains_midpoint right_start right_end left_start left_end)"

subsection \<open>Cumulative finals\<close>

datatype cumulative_final_admission =
    WhollyNovel
  | AlignInside (canvas_words_under_authority: nat)
  | NoAnchor (anchor_reason: no_authority_reason)

text \<open>The newest-first walk: the words counted so far and whether anything was touched.\<close>

fun words_under_authority :: "occurrence \<Rightarrow> (occurrence \<times> nat) list \<Rightarrow> nat \<times> bool \<Rightarrow> nat \<times> bool" where
  "words_under_authority window [] acc = acc"
| "words_under_authority window ((x, words) # older) (n, touched) =
     (case relate window x of
        Same \<Rightarrow> words_under_authority window older (n + words, True)
      | Overlapping _ \<Rightarrow> words_under_authority window older (n + words, True)
      | Disjoint \<Rightarrow> (n, touched)
      | _ \<Rightarrow> words_under_authority window older (n, touched))"

definition decide_cumulative :: "occurrence \<Rightarrow> (occurrence \<times> nat) list \<Rightarrow> cumulative_final_admission" where
  "decide_cumulative window committed =
     (if \<not> is_anchored window then NoAnchor ZeroWidth
      else let comparable = filter (\<lambda>(x, _). is_anchored x \<and> same_capture x window) committed
           in if comparable = [] then NoAnchor NoRange
              else case words_under_authority window (rev comparable) (0, False) of
                (words, touched) \<Rightarrow> if \<not> touched then WhollyNovel else AlignInside words)"

definition for_cumulative_restatement :: "(occurrence \<times> nat) list \<Rightarrow> cumulative_final_admission" where
  "for_cumulative_restatement open_occurrences =
     (let words = sum_list (map snd open_occurrences)
      in if words = 0 then NoAnchor NoRange else AlignInside words)"

definition authorized_canvas :: "cumulative_final_admission \<Rightarrow> rstr list \<Rightarrow> rstr list" where
  "authorized_canvas a canvas =
     (case a of WhollyNovel \<Rightarrow> []
      | AlignInside words \<Rightarrow> (let take' = min words (length canvas) in drop (length canvas - take') canvas)
      | NoAnchor _ \<Rightarrow> canvas)"

definition clamp_known_prefix :: "cumulative_final_admission \<Rightarrow> nat \<Rightarrow> nat" where
  "clamp_known_prefix a matcher_known_words =
     (case a of WhollyNovel \<Rightarrow> 0 | AlignInside words \<Rightarrow> min matcher_known_words words | NoAnchor _ \<Rightarrow> matcher_known_words)"

subsection \<open>What the vocabulary guarantees\<close>

lemma same_capture_sym: "same_capture x y \<longleftrightarrow> same_capture y x"
  by (auto simp: same_capture_def)

lemma relate_overlapping_iff:
  "(case relate x y of Same \<Rightarrow> True | Overlapping _ \<Rightarrow> True | _ \<Rightarrow> False)
     \<longleftrightarrow> same_capture x y \<and> pcm x \<inter> pcm y \<noteq> {}"
  by (auto simp: relate_def pcm_Int is_anchored_def Let_def)

text \<open>How two occurrences relate is decided by the samples they share: on different clocks nothing
  is compared; on one clock they are the same exactly when both name the same non-empty audio, overlap by
  the number of common samples, and are disjoint when both name audio and share none. The relation is
  symmetric.\<close>

theorem relation_is_shared_audio:
  "relate y x = relate x y \<and>
   (case relate x y of
      DifferentCapture \<Rightarrow> session x \<noteq> session y \<or> capture_epoch x \<noteq> capture_epoch y
    | Unanchored \<Rightarrow> same_capture x y \<and> (pcm x = {} \<or> pcm y = {})
    | Same \<Rightarrow> x = y \<and> pcm x \<noteq> {}
    | Overlapping n \<Rightarrow> same_capture x y \<and> x \<noteq> y \<and> n = card (pcm x \<inter> pcm y) \<and> 0 < n
    | Disjoint \<Rightarrow> same_capture x y \<and> pcm x \<noteq> {} \<and> pcm y \<noteq> {} \<and> pcm x \<inter> pcm y = {})"
proof -
  have "relate y x = relate x y"
    by (auto simp: relate_def same_capture_sym [of y x] Let_def max.commute min.commute)
  moreover have "x = y" if "same_capture x y" "sample_start x = sample_start y" "sample_end x = sample_end y"
    using that by (cases x; cases y) (auto simp: same_capture_def)
  ultimately show ?thesis
    by (auto simp: relate_def pcm_Int Let_def is_anchored_def pcm_def same_capture_def)
qed

text \<open>Whether two declared ranges name one word does not depend on their order.\<close>

theorem shared_word_is_symmetric:
  "declared_ranges_share_word c d a b = declared_ranges_share_word a b c d"
  by (auto simp: declared_ranges_share_word_def Let_def min.commute max.commute)

text \<open>On a comparable clock the walk counts the newest occurrences up to the first that shares no audio.\<close>

definition newest_touching :: "occurrence \<Rightarrow> (occurrence \<times> nat) list \<Rightarrow> (occurrence \<times> nat) list" where
  "newest_touching window committed = takeWhile (\<lambda>(x, _). pcm window \<inter> pcm x \<noteq> {})
     (rev (filter (\<lambda>(x, _). is_anchored x \<and> same_capture x window) committed))"

lemma words_under_authority_walk:
  assumes "is_anchored w" and "list_all (\<lambda>(x, _). is_anchored x \<and> same_capture x w) xs"
  shows "words_under_authority w xs (n, t)
    = (n + sum_list (map snd (takeWhile (\<lambda>(x, _). pcm w \<inter> pcm x \<noteq> {}) xs)),
       t \<or> takeWhile (\<lambda>(x, _). pcm w \<inter> pcm x \<noteq> {}) xs \<noteq> [])"
  using assms(2)
proof (induction xs arbitrary: n t)
  case (Cons e xs)
  obtain x k where e: "e = (x, k)" by fastforce
  have x: "is_anchored x" "same_capture w x" using Cons.prems by (simp_all add: e same_capture_sym)
  show ?case
  proof (cases "pcm w \<inter> pcm x \<noteq> {}")
    case True
    then have "words_under_authority w (e # xs) (n, t) = words_under_authority w xs (n + k, True)"
      using relate_overlapping_iff [of w x] x by (auto simp: e split: occurrence_relation.splits)
    with Cons True show ?thesis by (simp add: e)
  next
    case False
    then have "relate w x = Disjoint" using x assms(1) by (auto simp: relate_def pcm_Int is_anchored_def Let_def)
    with False show ?thesis by (simp add: e)
  qed
qed simp

text \<open>A restatement is placed by the newest shared audio. Exactly: a window without audio, or without any committed
  occurrence on its clock, decides nothing and leaves the canvas to the matcher; otherwise the committed
  occurrences on the window's clock are read from the newest backwards up to the first one that shares no audio
  with the window, and the matcher is given just the last words they contributed, none at all when already the
  newest shares nothing, and its answer is cut to that count.
\<close>

theorem restatement_is_placed_by_newest_audio:
  "let comparable = filter (\<lambda>(x, _). is_anchored x \<and> same_capture x window) committed;
       touching = newest_touching window committed;
       words = sum_list (map snd touching)
   in decide_cumulative window committed
        = (if \<not> is_anchored window then NoAnchor ZeroWidth else if comparable = [] then NoAnchor NoRange
           else if touching = [] then WhollyNovel else AlignInside words)
      \<and> (if is_anchored window \<and> comparable \<noteq> []
         then authorized_canvas (decide_cumulative window committed) canvas = drop (length canvas - words) canvas
           \<and> clamp_known_prefix (decide_cumulative window committed) k = min k words
         else authorized_canvas (decide_cumulative window committed) canvas = canvas
           \<and> clamp_known_prefix (decide_cumulative window committed) k = k)"
proof (cases "is_anchored window \<and> filter (\<lambda>(x, _). is_anchored x \<and> same_capture x window) committed \<noteq> []")
  case True
  have "list_all (\<lambda>(x, _). is_anchored x \<and> same_capture x window)
      (rev (filter (\<lambda>(x, _). is_anchored x \<and> same_capture x window) committed))"
    by (auto simp: list_all_iff)
  from words_under_authority_walk [OF _ this, of 0 False, folded newest_touching_def] True
  have d: "decide_cumulative window committed = (if newest_touching window committed = [] then WhollyNovel
      else AlignInside (sum_list (map snd (newest_touching window committed))))"
    by (simp add: decide_cumulative_def Let_def)
  show ?thesis
    unfolding d Let_def using True
    by (auto simp: authorized_canvas_def clamp_known_prefix_def Let_def min_def)
next
  case False
  then show ?thesis by (auto simp: decide_cumulative_def authorized_canvas_def clamp_known_prefix_def Let_def)
qed

end
