(* ===== verification/Group_Content.thy ===== *)
theory Group_Content
  imports Rust_Text
begin

section \<open>Group alignment\<close>

text \<open>
  \<open>preserve_group_content\<close> of \<open>core/pipeline/acoustic_ledger/slot_ops.rs\<close>: a whole-label revision of
  one group slot is aligned with the held label and either replaces it or leaves it alone. The
  theory holds the tokenizer, the similarity test with its one-row edit distance, the recursive gap
  rule and the walk along a longest common subsequence.

  Two tables of the code are functions here: \<open>lengths[i][j]\<close> is \<open>common_len\<close> of the key suffixes,
  \<open>prefixes[i][j]\<close> is \<open>common_len\<close> of the reversed key prefixes; both satisfy the recurrence the
  code fills its tables by. The Unicode tables behind \<open>char::is_alphanumeric\<close> and
  \<open>str::to_lowercase\<close> are the parameter \<open>unicode\<close>.
\<close>

record unicode =
  is_alphanumeric :: "nat \<Rightarrow> bool"
  to_lowercase :: "rstr \<Rightarrow> rstr"

definition AMBIGUOUS :: rstr where
  "AMBIGUOUS = lit ''group_alignment_ambiguous''"

abbreviation open_bracket :: nat where "open_bracket \<equiv> 91"
abbreviation close_bracket :: nat where "close_bracket \<equiv> 93"

text \<open>Tokens split at white space outside square brackets; the token being read is kept in reverse.\<close>

fun group_tokens_from :: "rstr \<Rightarrow> bool \<Rightarrow> rstr \<Rightarrow> rstr list" where
  "group_tokens_from cur in_tag [] = (if cur = [] then [] else [rev cur])"
| "group_tokens_from cur in_tag (ch # cs) =
     (if is_whitespace ch \<and> \<not> in_tag
      then (if cur = [] then group_tokens_from [] in_tag cs else rev cur # group_tokens_from [] in_tag cs)
      else group_tokens_from (ch # cur)
             (if ch = close_bracket then False else if ch = open_bracket then True else in_tag) cs)"

definition group_tokens :: "rstr \<Rightarrow> rstr list" where
  "group_tokens text = group_tokens_from [] False text"

definition group_normalize :: "unicode \<Rightarrow> rstr \<Rightarrow> rstr" where
  "group_normalize u token = to_lowercase u
     (trim_matches (\<lambda>ch. \<not> is_alphanumeric u ch \<and> ch \<noteq> open_bracket \<and> ch \<noteq> close_bracket) token)"

definition group_event :: "unicode \<Rightarrow> rstr \<Rightarrow> bool" where
  "group_event u token =
     (let token = group_normalize u token
      in token = lit ''yyy'' \<or> (starts_with [open_bracket] token \<and> ends_with [close_bracket] token))"

subsection \<open>Edit distance in one row\<close>

fun edit_row :: "'a \<Rightarrow> nat \<Rightarrow> nat \<Rightarrow> 'a list \<Rightarrow> nat list \<Rightarrow> nat list" where
  "edit_row a diagonal left (b # bs) (previous # row) =
     (let v = min (min (diagonal + (if a \<noteq> b then 1 else 0)) (left + 1)) (previous + 1)
      in v # edit_row a previous v bs row)"
| "edit_row a diagonal left _ _ = []"

fun edit_rows :: "nat \<Rightarrow> 'a list \<Rightarrow> 'a list \<Rightarrow> nat list \<Rightarrow> nat list" where
  "edit_rows i [] right row = row"
| "edit_rows i (a # left) right row =
     edit_rows (i + 1) left right ((i + 1) # edit_row a (hd row) (i + 1) right (tl row))"

definition edit_distance :: "'a list \<Rightarrow> 'a list \<Rightarrow> nat" where
  "edit_distance left right = edit_rows 0 left right [0..<length right + 1] ! length right"

definition group_similar :: "unicode \<Rightarrow> rstr \<Rightarrow> rstr \<Rightarrow> bool" where
  "group_similar u left right =
     (if group_event u left \<or> group_event u right then False
      else let left = group_normalize u left; right = group_normalize u right;
               longest = max (length left) (length right)
           in if longest = 0 \<or> longest > 128 then False
              else let budget = longest div 3
                   in if max (length left) (length right) - min (length left) (length right) > budget then False
                      else edit_distance left right \<le> budget)"

text \<open>The specification: edit distance of two words, read from their last letters.\<close>

fun edit_spec :: "'a list \<Rightarrow> 'a list \<Rightarrow> nat" where
  "edit_spec [] ys = length ys"
| "edit_spec xs [] = length xs"
| "edit_spec (x # xs) (y # ys) =
     min (min (edit_spec xs ys + (if x \<noteq> y then 1 else 0)) (edit_spec (x # xs) ys + 1)) (edit_spec xs (y # ys) + 1)"

lemma edit_spec_Nil2 [simp]: "edit_spec xs [] = length xs"
  by (cases xs) simp_all

text \<open>One step of the row: from the distances of \<open>p\<close> to every prefix of the right word, to those of
  \<open>p\<close> with one more letter.\<close>

lemma edit_row_spec:
  assumes "right = done @ bs"
  shows "edit_row a (edit_spec p (rev done)) (edit_spec (a # p) (rev done)) bs
      (map (\<lambda>j. edit_spec p (rev (take j right))) [length done + 1..<length right + 1])
    = map (\<lambda>j. edit_spec (a # p) (rev (take j right))) [length done + 1..<length right + 1]"
  using assms
proof (induction bs arbitrary: "done")
  case (Cons b bs)
  have u: "[length done + 1..<length right + 1] = (length done + 1) # [length (done @ [b]) + 1..<length right + 1]"
    using Cons.prems upt_conv_Cons [of "length done + 1" "length right + 1"] by simp
  have t: "take (length done + 1) right = done @ [b]" using Cons.prems by simp
  have ih: "edit_row a (edit_spec p (rev (done @ [b]))) (edit_spec (a # p) (rev (done @ [b]))) bs
      (map (\<lambda>j. edit_spec p (rev (take j right))) [length (done @ [b]) + 1..<length right + 1])
    = map (\<lambda>j. edit_spec (a # p) (rev (take j right))) [length (done @ [b]) + 1..<length right + 1]"
    by (rule Cons.IH) (simp add: Cons.prems)
  show ?case unfolding u list.map t edit_row.simps Let_def using ih by (simp add: min.assoc)
qed simp

lemma edit_rows_spec:
  "edit_rows (length p) left right (map (\<lambda>j. edit_spec p (rev (take j right))) [0..<length right + 1])
     = map (\<lambda>j. edit_spec (rev left @ p) (rev (take j right))) [0..<length right + 1]"
proof (induction left arbitrary: p)
  case (Cons a left)
  let ?row = "\<lambda>p. map (\<lambda>j. edit_spec p (rev (take j right))) [0..<length right + 1]"
  have split: "[0..<length right + 1] = 0 # [0 + 1..<length right + 1]" using upt_conv_Cons [of 0 "length right + 1"] by simp
  have "(length p + 1) # edit_row a (hd (?row p)) (length p + 1) right (tl (?row p)) = ?row (a # p)"
    using edit_row_spec [of right "[]" right a p] unfolding split by simp
  with Cons [of "a # p"] show ?case by simp
qed simp

text \<open>The one-row loop computes the edit distance.\<close>

theorem one_row_is_edit_distance: "edit_distance left right = edit_spec (rev left) (rev right)"
proof -
  have "map (\<lambda>j. edit_spec [] (rev (take j right))) [0..<length right + 1] = [0..<length right + 1]"
    by (intro map_idI) auto
  then show ?thesis using edit_rows_spec [of "[]" left right]
    by (simp add: edit_distance_def nth_append)
qed

subsection \<open>The gap rule\<close>

text \<open>The mutual, unique spelling matches between held tokens and the lexical candidates.\<close>

definition lexical_tokens :: "unicode \<Rightarrow> rstr list \<Rightarrow> (nat \<times> rstr) list" where
  "lexical_tokens u candidate = filter (\<lambda>(_, token). \<not> group_event u token) (enumerate 0 candidate)"

definition gap_pairs :: "unicode \<Rightarrow> rstr list \<Rightarrow> rstr list \<Rightarrow> (nat \<times> nat) list" where
  "gap_pairs u held candidate = concat (map (\<lambda>(i, token).
     case filter (\<lambda>(_, other). group_similar u token other) (lexical_tokens u candidate) of
       [(j, other)] \<Rightarrow> if length (filter (\<lambda>prior. group_similar u prior other) held) = 1 then [(i, j)] else []
     | _ \<Rightarrow> []) (enumerate 0 held))"

lemma lexical_tokens_index: "(j, t) \<in> set (lexical_tokens u candidate) \<Longrightarrow> j < length candidate"
  by (auto simp: lexical_tokens_def in_set_enumerate_eq)

lemma gap_pairs_index:
  assumes "(i, j) \<in> set (gap_pairs u held candidate)"
  shows "i < length held \<and> j < length candidate"
proof -
  let ?hits = "\<lambda>token. filter (\<lambda>(_, other). group_similar u token other) (lexical_tokens u candidate)"
  obtain token other where "(i, token) \<in> set (enumerate 0 held)" and "[(j, other)] = ?hits token"
    using assms by (auto simp: gap_pairs_def split: list.splits if_splits)
  moreover have "(j, other) \<in> set (lexical_tokens u candidate)"
  proof -
    have "(j, other) \<in> set (?hits token)" using calculation(2) by (metis list.set_intros(1))
    then show ?thesis by simp
  qed
  ultimately show ?thesis by (auto simp: in_set_enumerate_eq dest: lexical_tokens_index)
qed

text \<open>The output it appends and whether it set \<open>retained\<close>; \<open>None\<close> is the ambiguity error.\<close>

function gap :: "unicode \<Rightarrow> rstr list \<Rightarrow> rstr list \<Rightarrow> (rstr list \<times> bool) option" where
  "gap u held candidate =
     (if held = [] then Some (candidate, False)
      else if candidate = [] \<or> list_all (group_event u) candidate then Some (held @ candidate, True)
      else if length held = 1 \<and> \<not> group_event u (held ! 0) \<and> length (lexical_tokens u candidate) = 1
      then Some (candidate, False)
      else if \<exists>k < length (gap_pairs u held candidate) - 1.
                snd (gap_pairs u held candidate ! k) \<ge> snd (gap_pairs u held candidate ! (k + 1))
      then None
      else case gap_pairs u held candidate of
             (i, j) # _ \<Rightarrow>
               (case gap u (take i held) (take j candidate) of
                  None \<Rightarrow> None
                | Some (before, r1) \<Rightarrow>
                    (case gap u (drop (i + 1) held) (drop (j + 1) candidate) of
                       None \<Rightarrow> None
                     | Some (after, r2) \<Rightarrow> Some (before @ [candidate ! j] @ after, r1 \<or> r2)))
           | [] \<Rightarrow> None)"
  by pat_completeness auto

termination
proof (relation "measure (\<lambda>(u, held, candidate). length held)", goal_cases)
  case (2 u held candidate x21 x22 i j)
  then have "(i, j) \<in> set (gap_pairs u held candidate)" by simp
  then show ?case using gap_pairs_index by fastforce
next
  case (3 u held candidate)
  then show ?case by simp
qed simp

declare gap.simps [simp del]

lemma gap_takes_candidate:
  assumes "gap u held candidate = Some (out, False)"
  shows "out = candidate \<and> length held \<le> length candidate"
  using assms
proof (induction u held candidate arbitrary: out rule: gap.induct)
  case (1 u held candidate)
  show ?case
  proof (cases "held = [] \<or> length held = 1 \<and> \<not> group_event u (held ! 0) \<and> length (lexical_tokens u candidate) = 1")
    case True
    have "candidate \<noteq> []" if "length (lexical_tokens u candidate) = 1"
      using that by (auto simp: lexical_tokens_def)
    with True "1.prems" show ?thesis
      by (subst (asm) gap.simps) (auto split: if_splits simp: Suc_le_eq)
  next
    case False
    let ?reversed = "\<exists>k < length (gap_pairs u held candidate) - 1.
      snd (gap_pairs u held candidate ! k) \<ge> snd (gap_pairs u held candidate ! (k + 1))"
    note unfold = "1.prems" [unfolded gap.simps [of u held candidate]]
    have c1: "held \<noteq> []" using False by simp
    have c2: "\<not> (candidate = [] \<or> list_all (group_event u) candidate)"
    proof
      assume "candidate = [] \<or> list_all (group_event u) candidate"
      with unfold c1 show False by simp
    qed
    have c3: "\<not> (length held = 1 \<and> \<not> group_event u (held ! 0) \<and> length (lexical_tokens u candidate) = 1)"
      using False by simp
    have c4: "\<not> ?reversed"
    proof
      assume ?reversed
      with unfold c1 c2 c3 show False by (simp only: if_False if_True option.distinct)
    qed
    note c = c1 c2 c3 c4
    have run: "(case gap_pairs u held candidate of
        (i, j) # _ \<Rightarrow>
          (case gap u (take i held) (take j candidate) of None \<Rightarrow> None
           | Some (before, r1) \<Rightarrow>
               (case gap u (drop (i + 1) held) (drop (j + 1) candidate) of None \<Rightarrow> None
                | Some (after, r2) \<Rightarrow> Some (before @ [candidate ! j] @ after, r1 \<or> r2)))
      | [] \<Rightarrow> None) = Some (out, False)"
      using unfold c by (simp only: if_False)
    obtain i j rest where p: "gap_pairs u held candidate = (i, j) # rest"
      using run by (cases "gap_pairs u held candidate") auto
    obtain before after where
      g1: "gap u (take i held) (take j candidate) = Some (before, False)"
      and g2: "gap u (drop (i + 1) held) (drop (j + 1) candidate) = Some (after, False)"
      and out: "out = before @ [candidate ! j] @ after"
      using run by (simp add: p split: option.splits prod.splits)
    have ij: "i < length held" "j < length candidate"
      using gap_pairs_index [of i j u held candidate] p by auto
    have "before = take j candidate \<and> length (take i held) \<le> length (take j candidate)"
      using "1.IH"(1) [OF c p refl g1] by simp
    moreover have "after = drop (j + 1) candidate \<and> length (drop (i + 1) held) \<le> length (drop (j + 1) candidate)"
      using "1.IH"(2) [OF c p refl g1 refl g2] by simp
    ultimately show ?thesis using ij id_take_nth_drop [OF ij(2)] by (auto simp: out)
  qed
qed

subsection \<open>The alignment\<close>

text \<open>Length of the longest common subsequence of non-empty keys.\<close>

fun common_len :: "rstr list \<Rightarrow> rstr list \<Rightarrow> nat" where
  "common_len (h # hs) (c # cs) =
     (if h \<noteq> [] \<and> h = c then common_len hs cs + 1 else max (common_len hs (c # cs)) (common_len (h # hs) cs))"
| "common_len _ _ = 0"

definition group_lengths :: "rstr list \<Rightarrow> rstr list \<Rightarrow> nat \<Rightarrow> nat \<Rightarrow> nat" where
  "group_lengths hk ck i j = common_len (drop i hk) (drop j ck)"

definition group_prefixes :: "rstr list \<Rightarrow> rstr list \<Rightarrow> nat \<Rightarrow> nat \<Rightarrow> nat" where
  "group_prefixes hk ck i j = common_len (rev (take i hk)) (rev (take j ck))"

definition uniform_repetition :: "rstr list \<Rightarrow> rstr list \<Rightarrow> bool" where
  "uniform_repetition hk ck =
     (case hk of [] \<Rightarrow> False | key # _ \<Rightarrow> key \<noteq> [] \<and> list_all (\<lambda>other. other = key) (hk @ ck))"

text \<open>Whether some candidate key may stem from more than one held word on a longest alignment.\<close>

definition ambiguous_anchor :: "rstr list \<Rightarrow> rstr list \<Rightarrow> bool" where
  "ambiguous_anchor hk ck =
     list_ex (\<lambda>(j, key).
       1 < length (filter (\<lambda>(i, held_key). key \<noteq> [] \<and> held_key = key
              \<and> group_prefixes hk ck i j + 1 + group_lengths hk ck (i + 1) (j + 1) = group_lengths hk ck 0 0)
            (enumerate 0 hk))) (enumerate 0 ck)"

text \<open>The walk along the alignment. It returns what it appended to the output and whether a gap
  retained held words; \<open>None\<close> is the ambiguity error.\<close>

function align_walk :: "unicode \<Rightarrow> rstr list \<Rightarrow> rstr list \<Rightarrow> rstr list \<Rightarrow> rstr list
    \<Rightarrow> nat \<Rightarrow> nat \<Rightarrow> nat \<Rightarrow> nat \<Rightarrow> (rstr list \<times> bool) option" where
  "align_walk u held candidate hk ck i j held_start candidate_start =
     (if i < length held \<and> j < length candidate
      then if hk ! i \<noteq> [] \<and> hk ! i = ck ! j
           then (case gap u (take (i - held_start) (drop held_start held))
                            (take (j - candidate_start) (drop candidate_start candidate)) of
                   None \<Rightarrow> None
                 | Some (out, r) \<Rightarrow>
                     (case align_walk u held candidate hk ck (i + 1) (j + 1) (i + 1) (j + 1) of
                        None \<Rightarrow> None
                      | Some (out', r') \<Rightarrow> Some (out @ [candidate ! j] @ out', r \<or> r')))
           else if group_lengths hk ck (i + 1) j \<ge> group_lengths hk ck i (j + 1)
           then align_walk u held candidate hk ck (i + 1) j held_start candidate_start
           else align_walk u held candidate hk ck i (j + 1) held_start candidate_start
      else gap u (drop held_start held) (drop candidate_start candidate))"
  by pat_completeness auto

termination
  by (relation "measure (\<lambda>(u, held, candidate, hk, ck, i, j, hs, cs). (length held - i) + (length candidate - j))") auto

declare align_walk.simps [simp del]

definition preserve_group_content :: "unicode \<Rightarrow> rstr \<Rightarrow> rstr \<Rightarrow> rstr + rstr \<times> bool" where
  "preserve_group_content u held_label candidate_label =
     (let held = group_tokens held_label; candidate = group_tokens candidate_label
      in if length held > 256 \<or> length candidate > 256 then Inl AMBIGUOUS
         else let hk = map (group_normalize u) held; ck = map (group_normalize u) candidate
              in if \<not> uniform_repetition hk ck \<and> ambiguous_anchor hk ck then Inl AMBIGUOUS
                 else case align_walk u held candidate hk ck 0 0 0 0 of
                   None \<Rightarrow> Inl AMBIGUOUS
                 | Some (output, retained) \<Rightarrow>
                     Inr (if retained then held_label else join_with (lit '' '') output, retained))"

lemma align_walk_takes_candidate:
  assumes "align_walk u held candidate hk ck i j hs cs = Some (out, False)" and "hs \<le> i" and "cs \<le> j"
  shows "out = drop cs candidate \<and> length held - hs \<le> length candidate - cs"
  using assms
proof (induction u held candidate hk ck i j hs cs arbitrary: out rule: align_walk.induct)
  case (1 u held candidate hk ck i j hs cs)
  consider (match) o1 o2 where "i < length held" "j < length candidate"
      "gap u (take (i - hs) (drop hs held)) (take (j - cs) (drop cs candidate)) = Some (o1, False)"
      "align_walk u held candidate hk ck (i + 1) (j + 1) (i + 1) (j + 1) = Some (o2, False)"
      "out = o1 @ [candidate ! j] @ o2" "hk ! i \<noteq> [] \<and> hk ! i = ck ! j"
    | (skip_held) "i < length held \<and> j < length candidate" "\<not> (hk ! i \<noteq> [] \<and> hk ! i = ck ! j)"
      "group_lengths hk ck (i + 1) j \<ge> group_lengths hk ck i (j + 1)"
      "align_walk u held candidate hk ck (i + 1) j hs cs = Some (out, False)"
    | (skip_candidate) "i < length held \<and> j < length candidate" "\<not> (hk ! i \<noteq> [] \<and> hk ! i = ck ! j)"
      "\<not> group_lengths hk ck (i + 1) j \<ge> group_lengths hk ck i (j + 1)"
      "align_walk u held candidate hk ck i (j + 1) hs cs = Some (out, False)"
    | (tail) "gap u (drop hs held) (drop cs candidate) = Some (out, False)"
    using "1.prems"(1) by (subst (asm) align_walk.simps) (auto split: if_splits option.splits prod.splits)
  then show ?case
  proof cases
    case match
    have o1: "o1 = take (j - cs) (drop cs candidate)"
        "length (take (i - hs) (drop hs held)) \<le> length (take (j - cs) (drop cs candidate))"
      using gap_takes_candidate [OF match(3)] by simp_all
    have o2: "o2 = drop (j + 1) candidate" "length held - (i + 1) \<le> length candidate - (j + 1)"
      using "1.IH"(1) match by (fastforce)+
    have "drop cs candidate = take (j - cs) (drop cs candidate) @ drop j candidate"
      using "1.prems"(3) append_take_drop_id [of "j - cs" "drop cs candidate"] by simp
    then show ?thesis
      using o1 o2 match(1,2,5) "1.prems"(2,3) Cons_nth_drop_Suc [OF match(2)] by auto
  next
    case skip_held
    with "1.IH"(2) "1.prems" show ?thesis by auto
  next
    case skip_candidate
    with "1.IH"(3) "1.prems" show ?thesis by auto
  next
    case tail
    from gap_takes_candidate [OF this] show ?thesis by simp
  qed
qed

text \<open>A whole-label revision of a group is all or nothing. When the alignment keeps any held word
  the result is the held label verbatim; otherwise it is the candidate's tokens, and there are at least
  as many of them as held tokens, so that no held word is dropped without a counterpart.\<close>

theorem group_revision_is_all_or_nothing:
  assumes "preserve_group_content u held candidate = Inr (label, retained)"
  shows "if retained then label = held
    else label = join_with (lit '' '') (group_tokens candidate)
      \<and> length (group_tokens held) \<le> length (group_tokens candidate)"
  using assms align_walk_takes_candidate [of u "group_tokens held" "group_tokens candidate" _ _ 0 0 0 0]
  by (fastforce simp: preserve_group_content_def Let_def split: if_splits option.splits)

definition ascii_unicode :: unicode where
  "ascii_unicode = \<lparr>is_alphanumeric = (\<lambda>c. 48 \<le> c \<and> c \<le> 57 \<or> 65 \<le> c \<and> c \<le> 90 \<or> 97 \<le> c \<and> c \<le> 122),
     to_lowercase = to_ascii_lowercase\<rparr>"

theorem group_revision_is_all_or_nothing_witness:
  "preserve_group_content ascii_unicode [97] [98] = Inr ([98], False)
   \<and> [98] = join_with (lit '' '') (group_tokens [98]) \<and> length (group_tokens [97]) \<le> length (group_tokens [98])"
proof -
  have run: "preserve_group_content ascii_unicode [97] [98] = Inr ([98], False)"
    by (simp add: preserve_group_content_def group_tokens_def is_whitespace_def group_normalize_def
      trim_matches_def trim_end_matches_def ascii_unicode_def to_ascii_lowercase_def ascii_lower_def uniform_repetition_def
      ambiguous_anchor_def align_walk.simps gap.simps group_lengths_def lexical_tokens_def group_event_def
      starts_with_def ends_with_def lit_def)
  with group_revision_is_all_or_nothing [OF run] show ?thesis by simp
qed

end
