(* ===== verification/Ledger_State.thy ===== *)
theory Ledger_State
  imports Complex_Main "HOL-Library.Log_Nat" Occurrence Group_Content
begin

section \<open>The state of the acoustic ledger\<close>

text \<open>
  The fields of \<open>AcousticLedger\<close> (\<open>core/pipeline/acoustic_ledger.rs\<close>) and the types they hold, the
  bookkeeping every admission goes through (\<open>note_answered\<close>, \<open>record_layer_decision\<close>,
  \<open>note_clock_lie\<close>, \<open>retain_slot_alternative\<close>, \<open>record_slot_operation\<close>), and the read accessors.

  The word layer (\<open>speech_anchor.rs\<close>, \<open>word_adjudication.rs\<close> and the decoder-window tables of
  \<open>slot_ops.rs\<close>) appears as one opaque field \<open>words\<close> and as the record \<open>word_layer\<close> of the questions
  the ledger asks it; the development holds for every such layer. The disk trail and the log lines
  are output only and are left out. A floating-point number the ledger compares or prints is its bit
  pattern; the single-precision quotient of the clock-lie test is computed with the rounding of the
  format.
\<close>

subsection \<open>Floating point\<close>

type_synonym f64 = "64 word"

definition f64_magnitude :: "f64 \<Rightarrow> nat" where
  "f64_magnitude x = unat x mod 2 ^ 63"

definition f64_is_nan :: "f64 \<Rightarrow> bool" where
  "f64_is_nan x \<longleftrightarrow> 2047 * 2 ^ 52 < f64_magnitude x"

text \<open>The value of a number that is not \<open>NaN\<close>, up to an order isomorphism: sign and magnitude.\<close>

definition f64_order :: "f64 \<Rightarrow> int" where
  "f64_order x = (if 2 ^ 63 \<le> unat x then - int (f64_magnitude x) else int (f64_magnitude x))"

definition f64_less :: "f64 \<Rightarrow> f64 \<Rightarrow> bool" where
  "f64_less x y \<longleftrightarrow> \<not> f64_is_nan x \<and> \<not> f64_is_nan y \<and> f64_order x < f64_order y"

text \<open>Rounding of a positive rational to 24 significant bits, ties to even. The quotients formed
  below stay far from the range where single precision overflows or loses bits.\<close>

definition f32_round :: "rat \<Rightarrow> rat" where
  "f32_round x = (if x \<le> 0 then 0 else
     case quotient_of x of (p, q) \<Rightarrow>
       let e0 = int (floorlog 2 (nat p)) - int (floorlog 2 (nat q)) - 24;
           e = (if x / (2 powi e0) \<ge> 2 ^ 24 then e0 + 1 else e0);
           m = x / (2 powi e); f = \<lfloor>m\<rfloor>; d = m - of_int f
       in of_int (if d < 1 / 2 \<or> d = 1 / 2 \<and> even f then f else f + 1) * 2 powi e)"

definition CLOCK_LIE_CHARS_PER_SEC :: rat where
  "CLOCK_LIE_CHARS_PER_SEC = 30"

definition is_clock_lie :: "nat \<Rightarrow> rat \<Rightarrow> bool" where
  "is_clock_lie chars duration_secs \<longleftrightarrow>
     duration_secs > 0 \<and> f32_round (f32_round (of_nat chars) / duration_secs) > CLOCK_LIE_CHARS_PER_SEC"

definition declared_seconds :: "occurrence \<Rightarrow> nat \<Rightarrow> rat" where
  "declared_seconds x rate = f32_round (f32_round (of_nat (sample_len x)) / f32_round (of_nat rate))"

subsection \<open>Evidence and serials\<close>

record energy_calibration =
  version :: rstr
  min_energy_integral :: f64
  min_valley_samples :: nat

record acoustic_evidence =
  ae_occurrence :: occurrence
  ae_duration_ms :: f64
  ae_energy_integral :: f64
  ae_mean_rms_dbfs :: f64
  ae_peak_dbfs :: f64
  ae_vad_open :: "nat option"
  ae_vad_close :: "nat option"
  ae_calibration :: rstr

record acoustic_serial =
  as_version :: nat
  as_digest :: rstr
  as_occurrence :: occurrence
  as_duration_ms :: f64
  as_energy_integral :: f64
  as_mean_rms_dbfs :: f64
  as_peak_dbfs :: f64
  as_vad_open :: "nat option"
  as_vad_close :: "nat option"
  as_calibration :: rstr

definition vad_closed :: "acoustic_serial \<Rightarrow> bool" where
  "vad_closed s = (case as_vad_close s of None \<Rightarrow> False | Some close \<Rightarrow> close \<ge> sample_end (as_occurrence s))"

datatype acoustic_availability =
    Observed (observed: nat) | NotObserved | IdentityMismatch | InvalidMeasurement (valid_samples: nat)
  | Discontinuous (seen_samples: nat)

definition observed_samples :: "acoustic_availability \<Rightarrow> nat option" where
  "observed_samples a = (case a of Observed n \<Rightarrow> Some n | _ \<Rightarrow> None)"

primrec availability_str :: "acoustic_availability \<Rightarrow> rstr" where
  "availability_str (Observed _) = lit ''observed''"
| "availability_str NotObserved = lit ''not_observed''"
| "availability_str IdentityMismatch = lit ''identity_mismatch''"
| "availability_str (InvalidMeasurement _) = lit ''invalid_measurement''"
| "availability_str (Discontinuous _) = lit ''discontinuous''"

record speech_evidence =
  se_session :: rstr
  se_epoch :: nat
  se_producer :: rstr
  se_availability :: acoustic_availability
  se_ranges :: "occurrence list"

definition identity_matches :: "speech_evidence \<Rightarrow> rstr \<Rightarrow> nat \<Rightarrow> bool" where
  "identity_matches e s epoch \<longleftrightarrow> se_session e = s \<and> se_epoch e = epoch"

subsection \<open>Frontiers and seals\<close>

record observation_frontier =
  fr_coverage :: occurrence
  fr_scheduled :: "observation_producer set"
  fr_returned :: "observation_producer set"

datatype seal_scope = OccurrenceScope | TerminalScope

record 'f seal_receipt =
  lr_word_finality :: "'f list"
  lr_scope :: seal_scope
  lr_receipt_id :: rstr
  lr_coverage :: occurrence
  lr_sealed :: "occurrence list"
  lr_serials :: "acoustic_serial list"
  lr_vad_close :: nat
  lr_frontier :: observation_frontier
  lr_ordinals :: "nat list"

datatype acoustic_evidence_gap =
  GapNotObserved | GapIdentityMismatch | GapInvalidMeasurement | GapPartialObservation

datatype seal_coverage_status = Complete | Incomplete | Unavailable acoustic_evidence_gap

record seal_coverage_receipt =
  sc_session :: rstr
  sc_epoch :: nat
  sc_sample_rate :: "nat option"
  sc_speech_samples :: nat
  sc_covered_samples :: nat
  sc_uncovered :: "occurrence list"
  sc_max_uncovered :: nat
  sc_threshold :: nat
  sc_status :: seal_coverage_status
  sc_producer :: rstr
  sc_availability :: rstr
  sc_observed :: "nat option"

datatype occurrence_derivation =
    Split occurrence "occurrence list"
  | Merge "occurrence list" occurrence
  | Refine occurrence occurrence

subsection \<open>History\<close>

record producer_history =
  latest_answered :: "(nat \<times> nat) option"
  highest_generation :: "nat option"

record owner_history =
  oh_answered :: nat
  oh_producers :: "(observation_producer, producer_history) omap"
  oh_ordinals :: "nat list"

definition empty_history :: producer_history where
  "empty_history = \<lparr>latest_answered = None, highest_generation = None\<rparr>"

definition empty_owner :: owner_history where
  "empty_owner = \<lparr>oh_answered = 0, oh_producers = [], oh_ordinals = []\<rparr>"

record layer_decision =
  ld_ordinal :: nat
  ld_receipt_id :: rstr
  ld_observation :: observation
  ld_label :: rstr
  ld_tokens :: "rstr list"
  ld_serials :: "acoustic_serial list"
  ld_decision :: mutation_receipt
  ld_predecessor :: "nat option"
  ld_clock_lie :: bool
  ld_blocker :: "occurrence option"

record manual_edit =
  me_receipt_id :: rstr
  me_occurrence :: occurrence
  me_supersedes_seal :: rstr
  me_superseded_label :: rstr
  me_label :: rstr
  me_observation :: observation

record conservation_tally =
  observations_in :: nat
  receipts_out :: nat
  occurrences_held :: nat
  observations_delivered :: nat
  kept_visible_unanchored :: nat
  refusals_by_reason :: "(rstr, nat) omap"

definition residue :: "conservation_tally \<Rightarrow> int" where
  "residue t = int (observations_in t) - int (observations_delivered t)
     - int (sum_list (map snd (refusals_by_reason t)))"

subsection \<open>Committed observations\<close>

record 'c committed_observation =
  co_producer :: observation_producer
  co_generation :: nat
  co_slots :: "'c word_slot list"
  co_label :: rstr

definition co_empty :: "observation \<Rightarrow> 'c committed_observation" where
  "co_empty obs = \<lparr>co_producer = producer obs, co_generation = generation obs, co_slots = [], co_label = []\<rparr>"

definition recompose :: "'c committed_observation \<Rightarrow> 'c committed_observation" where
  "recompose held =
     (let slots = sort_key (\<lambda>s. (ws_start s, ws_end s, ws_text s)) (co_slots held)
      in held\<lparr>co_slots := slots, co_label := compose_label slots\<rparr>)"

definition from_label :: "observation \<Rightarrow> rstr \<Rightarrow> 'c committed_observation" where
  "from_label obs text = recompose \<lparr>co_producer = producer obs, co_generation = generation obs,
     co_slots = [\<lparr>ws_start = sample_start (occurrence obs), ws_end = sample_end (occurrence obs), ws_text = text,
       ws_producer = producer obs, ws_observation = obs, ws_witness = Unwitnessed, ws_confidence = None,
       ws_rewritten = False\<rparr>], co_label = []\<rparr>"

lemma from_label_simps [simp]:
  "co_producer (from_label obs text) = producer obs" "co_generation (from_label obs text) = generation obs"
  "co_label (from_label obs text) = text"
  by (simp_all add: from_label_def recompose_def compose_label_def)

subsection \<open>Document receipts\<close>

record document_revision =
  dr_receipt_id :: rstr
  dr_provenance :: rstr
  dr_session :: rstr
  dr_source_revision :: nat
  dr_revision :: nat
  dr_occurrences :: "occurrence list"
  dr_seals :: "rstr list"
  dr_text :: rstr
  dr_capture_epoch :: "nat option"
  dr_capture_receipt :: "rstr option"

record document_capture =
  dc_receipt_id :: rstr
  dc_session :: rstr
  dc_epoch :: nat
  dc_source_revision :: "nat option"

record presentation_member =
  pm_occurrence :: occurrence
  pm_label :: rstr
  pm_seal :: rstr

record consultation_presentation =
  cp_receipt_id :: rstr
  cp_consultation :: rstr
  cp_turn :: rstr
  cp_source_revision :: nat
  cp_revision :: nat
  cp_members :: "presentation_member list"
  cp_text :: rstr

record incremental_shaping =
  is_receipt_id :: rstr
  is_provenance :: rstr
  is_session :: rstr
  is_source_revision :: nat
  is_revision :: nat
  is_occurrence :: occurrence
  is_source_seal :: "rstr option"
  is_sentence_break :: bool
  is_source_label :: rstr
  is_left_context :: rstr
  is_left_sha256 :: rstr
  is_shaped_text :: rstr

subsection \<open>The ledger\<close>

record ('c, 'w, 'f) ledger =
  committed :: "(occurrence, 'c committed_observation) omap"
  slot_alternatives :: "'c slot_alternative list"
  rejected_word_pins :: "(occurrence, 'c word_slot list) omap"
  slot_operations :: "'c slot_operation list"
  slot_operation_index :: "(occurrence, nat list) omap"
  ledger_speech :: "speech_evidence option"
  word_deletions :: "'c slot_operation list"
  word_pin_observations :: "observation set"
  complete_decode_spans :: "(rstr \<times> nat, srange list) omap"
  answered :: "observation set"
  owner_histories :: "(occurrence, owner_history) omap"
  kept_visible :: nat
  evidence :: "(occurrence, acoustic_serial) omap"
  qualified_by_end :: "(nat, occurrence list) omap"
  unsealed_qualified :: "occurrence list"
  frontiers :: "(occurrence, observation_frontier) omap"
  seals :: "(occurrence, 'f seal_receipt) omap"
  terminal_seals :: "'f seal_receipt list"
  trail :: "layer_decision list"
  manual_edits :: "manual_edit list"
  manual_document_revisions :: "document_revision list"
  manual_document_capture :: "document_capture option"
  incremental_shapings :: "incremental_shaping list"
  latest_incremental_shaping :: "(occurrence, nat) omap"
  consultation_presentations :: "consultation_presentation list"
  derivations :: "occurrence_derivation list"
  latest_seal_coverage :: "seal_coverage_receipt option"
  pending_text_recovery :: "occurrence list"
  offered_observations :: nat
  issued_receipts :: nat
  delivered_observations :: nat
  named_refusals :: "(rstr, nat) omap"
  capture_rate_hz :: "nat option"
  clock_lie_occurrences :: "occurrence list"
  first_covered_sample :: "nat option"
  last_covered_sample :: "nat option"
  transcript_seal_timestamp_ms :: "nat option"
  words :: 'w

text \<open>A fresh ledger; the word layer starts in its own default.\<close>

definition new_ledger :: "'w \<Rightarrow> ('c, 'w, 'f) ledger" where
  "new_ledger w = \<lparr>committed = [], slot_alternatives = [], rejected_word_pins = [], slot_operations = [],
     slot_operation_index = [], ledger_speech = None, word_deletions = [], word_pin_observations = {},
     complete_decode_spans = [], answered = {}, owner_histories = [], kept_visible = 0, evidence = [],
     qualified_by_end = [], unsealed_qualified = [], frontiers = [], seals = [], terminal_seals = [],
     trail = [], manual_edits = [], manual_document_revisions = [], manual_document_capture = None,
     incremental_shapings = [], latest_incremental_shaping = [], consultation_presentations = [],
     derivations = [], latest_seal_coverage = None, pending_text_recovery = [], offered_observations = 0,
     issued_receipts = 0, delivered_observations = 0, named_refusals = [], capture_rate_hz = None,
     clock_lie_occurrences = [], first_covered_sample = None, last_covered_sample = None,
     transcript_seal_timestamp_ms = None, words = w\<rparr>"

text \<open>What the ledger asks of the word layer and of libraries it calls: \<open>sha256_hex\<close> is the lowercase
  hexadecimal digest of a text's bytes, \<open>unicode_tables\<close> the standard library's character tables.\<close>

record ('c, 'w, 'f) word_layer =
  unicode_tables :: unicode
  sha256_hex :: "rstr \<Rightarrow> rstr"
  same_anchored_word :: "('c, 'w, 'f) ledger \<Rightarrow> 'c word_slot \<Rightarrow> 'c word_slot \<Rightarrow> bool"
  retirement_covered :: "('c, 'w, 'f) ledger \<Rightarrow> observation \<Rightarrow> 'c word_slot \<Rightarrow> 'c word_slot list \<Rightarrow> 'c word_slot list \<Rightarrow> bool"
  assigned_word_pin_ranges :: "'w \<Rightarrow> observation \<Rightarrow> (occurrence \<times> occurrence) list"
  remember_word_outputs :: "('c, 'w, 'f) ledger \<Rightarrow> observation \<Rightarrow> 'w"
  unresolved_pins :: "('c, 'w, 'f) ledger \<Rightarrow> occurrence \<Rightarrow> 'c word_slot list"
  recovery_source_is_pending :: "('c, 'w, 'f) ledger \<Rightarrow> 'c slot_alternative \<Rightarrow> 'c word_slot \<Rightarrow> bool"
  returned_word_scope_accounted :: "('c, 'w, 'f) ledger \<Rightarrow> observation \<Rightarrow> bool"
  word_trials_pending :: "'w \<Rightarrow> occurrence \<Rightarrow> bool"
  has_deferred_anchor_words :: "'w \<Rightarrow> occurrence \<Rightarrow> bool"
  word_labels_settled :: "'w \<Rightarrow> occurrence \<Rightarrow> bool"
  word_finality :: "'w \<Rightarrow> occurrence \<Rightarrow> 'f list"
  close_word_components :: "'w \<Rightarrow> occurrence \<Rightarrow> 'w"

end
