(* ===== verification/Ledger_Records.thy ===== *)
theory Ledger_Records
  imports Ledger_State
begin

section \<open>Bookkeeping of the acoustic ledger\<close>

text \<open>
  The operations every admission goes through: answering an observation (\<open>note_answered\<close>), recording
  the decision (\<open>record_layer_decision\<close>), the clock-lie flags, retained alternatives, the slot-operation
  history and its index, and the read accessors of \<open>core/pipeline/acoustic_ledger.rs\<close>.
\<close>

subsection \<open>Accessors\<close>

definition text_of :: "('c, 'w, 'f) ledger \<Rightarrow> occurrence \<Rightarrow> rstr option" where
  "text_of L x = map_option co_label (map_of (committed L) x)"

definition slots_of :: "('c, 'w, 'f) ledger \<Rightarrow> occurrence \<Rightarrow> 'c word_slot list option" where
  "slots_of L x = map_option co_slots (map_of (committed L) x)"

definition is_qualified :: "('c, 'w, 'f) ledger \<Rightarrow> occurrence \<Rightarrow> bool" where
  "is_qualified L x \<longleftrightarrow> map_of (evidence L) x \<noteq> None"

definition is_sealed :: "('c, 'w, 'f) ledger \<Rightarrow> occurrence \<Rightarrow> bool" where
  "is_sealed L x \<longleftrightarrow> map_of (seals L) x \<noteq> None"

definition rendered_text :: "('c, 'w, 'f) ledger \<Rightarrow> rstr" where
  "rendered_text L = join_with (lit '' '') (filter (\<lambda>t. t \<noteq> []) (map (\<lambda>(_, held). trim (co_label held)) (committed L)))"

definition complete_decode_covers :: "('c, 'w, 'f) ledger \<Rightarrow> occurrence \<Rightarrow> bool" where
  "complete_decode_covers L owner =
     (if sample_start owner \<ge> sample_end owner then False
      else case map_of (complete_decode_spans L) (session owner, capture_epoch owner) of
             None \<Rightarrow> False
           | Some spans \<Rightarrow> decode_spans_cover spans (sample_start owner, sample_end owner))"

definition record_complete_decode_span :: "observation \<Rightarrow> srange \<Rightarrow> ('c, 'w, 'f) ledger \<Rightarrow> ('c, 'w, 'f) ledger" where
  "record_complete_decode_span obs window L =
     (if fst window \<ge> snd window \<or> producer obs \<notin> {Whisper, CloudLive} then L
      else L\<lparr>complete_decode_spans := om_adjust (session (occurrence obs), capture_epoch (occurrence obs)) []
                (join_decode_span window) (complete_decode_spans L)\<rparr>)"

definition text_recovery_pending :: "('c, 'w, 'f) ledger \<Rightarrow> occurrence \<Rightarrow> bool" where
  "text_recovery_pending L x \<longleftrightarrow> x \<in> set (pending_text_recovery L) \<and> \<not> complete_decode_covers L x"

definition pending_text_recoveries :: "('c, 'w, 'f) ledger \<Rightarrow> rstr \<Rightarrow> nat \<Rightarrow> occurrence list" where
  "pending_text_recoveries L s epoch =
     filter (\<lambda>x. session x = s \<and> capture_epoch x = epoch \<and> \<not> complete_decode_covers L x) (pending_text_recovery L)"

definition require_text_recovery :: "occurrence \<Rightarrow> ('c, 'w, 'f) ledger \<Rightarrow> ('c, 'w, 'f) ledger \<times> bool" where
  "require_text_recovery x L =
     (if \<not> is_qualified L x \<or> is_sealed L x \<or> complete_decode_covers L x then (L, False)
      else (L\<lparr>pending_text_recovery := os_insert x (pending_text_recovery L)\<rparr>, True))"

definition conservation :: "('c, 'w, 'f) ledger \<Rightarrow> conservation_tally" where
  "conservation L = \<lparr>observations_in = offered_observations L, receipts_out = issued_receipts L,
     occurrences_held = length (committed L), observations_delivered = delivered_observations L,
     kept_visible_unanchored = kept_visible L, refusals_by_reason = named_refusals L\<rparr>"

definition bind_capture_rate :: "nat \<Rightarrow> ('c, 'w, 'f) ledger \<Rightarrow> ('c, 'w, 'f) ledger" where
  "bind_capture_rate hz L = (if hz > 0 then L\<lparr>capture_rate_hz := Some hz\<rparr> else L)"

subsection \<open>Answers\<close>

definition reserve_generation :: "nat \<Rightarrow> producer_history \<Rightarrow> producer_history" where
  "reserve_generation g h = h\<lparr>highest_generation := Some
     (case highest_generation h of None \<Rightarrow> g | Some held \<Rightarrow> max held g)\<rparr>"

definition note_history :: "observation \<Rightarrow> producer_history \<Rightarrow> producer_history" where
  "note_history obs h = reserve_generation (generation obs)
     (if (case latest_answered h of None \<Rightarrow> True | Some (g, _) \<Rightarrow> g \<le> generation obs)
      then h\<lparr>latest_answered := Some (generation obs, request obs)\<rparr> else h)"

definition note_answered :: "observation \<Rightarrow> ('c, 'w, 'f) ledger \<Rightarrow> ('c, 'w, 'f) ledger" where
  "note_answered obs L = L\<lparr>answered := insert obs (answered L),
     owner_histories := om_adjust (occurrence obs) empty_owner
       (\<lambda>owner. owner\<lparr>oh_answered := oh_answered owner + 1,
          oh_producers := om_adjust (producer obs) empty_history (note_history obs) (oh_producers owner)\<rparr>)
       (owner_histories L)\<rparr>"

definition next_word_observation ::
    "('c, 'w, 'f) ledger \<Rightarrow> observation_producer \<Rightarrow> nat \<Rightarrow> occurrence \<Rightarrow> observation" where
  "next_word_observation L p req x =
     (let history = Option.bind (map_of (owner_histories L) x) (\<lambda>owner. map_of (oh_producers owner) p);
          prior = Option.bind history latest_answered;
          g = (case Option.bind history highest_generation of None \<Rightarrow> 0 | Some g \<Rightarrow> g + 1)
      in Observation p (case prior of None \<Rightarrow> req | Some (_, r) \<Rightarrow> r) g x)"

subsection \<open>Slots\<close>

definition retain_slot_alternative ::
    "observation \<Rightarrow> rstr \<Rightarrow> 'c word_slot list \<Rightarrow> rstr \<Rightarrow> ('c, 'w, 'f) ledger \<Rightarrow> ('c, 'w, 'f) ledger" where
  "retain_slot_alternative obs candidate sources why L =
     (let alternative = \<lparr>sa_observation = obs, sa_candidate = candidate, sa_sources = sources, sa_reason = why\<rparr>
      in if alternative \<in> set (slot_alternatives L) then L
         else L\<lparr>slot_alternatives := slot_alternatives L @ [alternative]\<rparr>)"

definition record_slot_operation :: "'c slot_operation \<Rightarrow> ('c, 'w, 'f) ledger \<Rightarrow> ('c, 'w, 'f) ledger" where
  "record_slot_operation receipt L =
     (let index = length (slot_operations L);
          occurrences = rev (remdups (rev (map (\<lambda>output. occurrence (ws_observation output)) (so_outputs receipt))))
      in L\<lparr>slot_operation_index := fold (\<lambda>x. om_adjust x [] (\<lambda>positions. positions @ [index])) occurrences (slot_operation_index L),
           slot_operations := slot_operations L @ [receipt]\<rparr>)"

definition slot_own_range :: "'c word_slot \<Rightarrow> occurrence" where
  "slot_own_range slot = Occurrence (session (occurrence (ws_observation slot)))
     (capture_epoch (occurrence (ws_observation slot))) (ws_start slot) (ws_end slot)"

definition receipt_source_ranges :: "'c slot_operation \<Rightarrow> 'c word_slot \<Rightarrow> occurrence list option" where
  "receipt_source_ranges receipt slot =
     (if slot \<in> set (so_outputs receipt)
      then Some (if so_kind receipt = SlotSplit \<or> length (so_outputs receipt) > 1
                 then [slot_own_range slot] else so_ranges receipt)
      else None)"

fun find_map :: "('a \<Rightarrow> 'b option) \<Rightarrow> 'a list \<Rightarrow> 'b option" where
  "find_map f [] = None"
| "find_map f (x # xs) = (case f x of None \<Rightarrow> find_map f xs | Some y \<Rightarrow> Some y)"

definition slot_source_ranges_indexed :: "('c, 'w, 'f) ledger \<Rightarrow> 'c word_slot \<Rightarrow> occurrence list" where
  "slot_source_ranges_indexed L slot =
     unwrap_or [slot_own_range slot]
       (find_map (\<lambda>position. receipt_source_ranges (slot_operations L ! position) slot)
         (rev (unwrap_or [] (map_of (slot_operation_index L) (occurrence (ws_observation slot))))))"

definition slot_source_ranges_by_scan :: "('c, 'w, 'f) ledger \<Rightarrow> 'c word_slot \<Rightarrow> occurrence list" where
  "slot_source_ranges_by_scan L slot =
     unwrap_or [slot_own_range slot] (find_map (\<lambda>receipt. receipt_source_ranges receipt slot) (rev (slot_operations L)))"

definition slot_source_ranges :: "('c, 'w, 'f) ledger \<Rightarrow> 'c word_slot \<Rightarrow> occurrence list" where
  "slot_source_ranges L slot = slot_source_ranges_indexed L slot"

subsection \<open>Clock lies and covered samples\<close>

definition replace_neighbour :: "('c, 'w, 'f) ledger \<Rightarrow> occurrence \<Rightarrow> 'c word_slot list \<Rightarrow> occurrence option" where
  "replace_neighbour L authorizer sources =
     find (\<lambda>flagged.
       (case relate authorizer flagged of Same \<Rightarrow> True | Overlapping _ \<Rightarrow> True | _ \<Rightarrow> False)
       \<and> list_ex (\<lambda>source. occurrence (ws_observation source) \<noteq> flagged
                   \<and> same_capture (occurrence (ws_observation source)) flagged) sources)
       (clock_lie_occurrences L)"

definition note_covered_span :: "occurrence \<Rightarrow> ('c, 'w, 'f) ledger \<Rightarrow> ('c, 'w, 'f) ledger" where
  "note_covered_span x L =
     (if \<not> is_anchored x then L
      else L\<lparr>first_covered_sample := Some (case first_covered_sample L of Some c \<Rightarrow> min c (sample_start x) | None \<Rightarrow> sample_start x),
             last_covered_sample := Some (case last_covered_sample L of Some c \<Rightarrow> max c (sample_end x) | None \<Rightarrow> sample_end x)\<rparr>)"

definition note_clock_lie :: "observation \<Rightarrow> mutation_receipt \<Rightarrow> ('c, 'w, 'f) ledger \<Rightarrow> ('c, 'w, 'f) ledger \<times> bool" where
  "note_clock_lie obs decision L =
     (case capture_rate_hz L of
        None \<Rightarrow> (L, False)
      | Some rate \<Rightarrow>
          if rate = 0 then (L, False)
          else
            let L = L\<lparr>clock_lie_occurrences := filter (\<lambda>x. case map_of (committed L) x of
                        None \<Rightarrow> False | Some held \<Rightarrow> is_clock_lie (length (co_label held)) (declared_seconds x rate))
                      (clock_lie_occurrences L)\<rparr>
            in if \<not> (is_Insert decision \<or> is_Correct decision \<or> is_Preserve decision) then (L, False)
               else case map_of (committed L) (occurrence obs) of
                      None \<Rightarrow> (L, False)
                    | Some held \<Rightarrow>
                        let flagged = is_anchored (occurrence obs)
                              \<and> is_clock_lie (length (co_label held)) (declared_seconds (occurrence obs) rate)
                        in (if flagged then L\<lparr>clock_lie_occurrences := os_insert (occurrence obs) (clock_lie_occurrences L)\<rparr> else L,
                            flagged))"

subsection \<open>The decision trail\<close>

definition decision_receipt_id :: "observation \<Rightarrow> nat \<Rightarrow> rstr" where
  "decision_receipt_id obs ordinal = join_with (lit ''-'')
     [layer_label (producer obs), show_nat (request obs), show_nat (generation obs), show_nat ordinal]"

text \<open>The reason name a decision is counted under; a delivered observation has none.\<close>

definition refusal_name :: "mutation_receipt \<Rightarrow> rstr option" where
  "refusal_name d = (case d of Refuse _ r \<Rightarrow> Some (refuse_str r)
     | KeepVisibleUnanchored _ _ r \<Rightarrow> Some (no_authority_str r) | _ \<Rightarrow> None)"

definition count_decision :: "mutation_receipt \<Rightarrow> ('c, 'w, 'f) ledger \<Rightarrow> ('c, 'w, 'f) ledger" where
  "count_decision d L =
     (let L = L\<lparr>issued_receipts := issued_receipts L + 1\<rparr>
      in case refusal_name d of
           None \<Rightarrow> L\<lparr>delivered_observations := delivered_observations L + 1\<rparr>
         | Some name \<Rightarrow> L\<lparr>named_refusals := om_adjust name 0 Suc (named_refusals L)\<rparr>)"

definition record_layer_decision ::
    "observation \<Rightarrow> rstr \<Rightarrow> mutation_receipt \<Rightarrow> occurrence option \<Rightarrow> ('c, 'w, 'f) ledger \<Rightarrow> ('c, 'w, 'f) ledger" where
  "record_layer_decision obs text decision blocker L =
     (let ordinal = length (trail L);
          owner = map_of (owner_histories L) (occurrence obs);
          predecessor = (case owner of None \<Rightarrow> None
                         | Some h \<Rightarrow> if oh_ordinals h = [] then None else Some (last (oh_ordinals h)));
          serials = (case map_of (evidence L) (occurrence obs) of None \<Rightarrow> [] | Some s \<Rightarrow> [s]);
          blocker = option_or blocker
            (case decision of Refuse _ ClockLie \<Rightarrow>
               replace_neighbour L (occurrence obs) (unwrap_or [] (slots_of L (occurrence obs))) | _ \<Rightarrow> None)
      in case note_clock_lie obs decision L of (L, lie) \<Rightarrow>
           count_decision decision
             (L\<lparr>trail := trail L @ [\<lparr>ld_ordinal = ordinal, ld_receipt_id = decision_receipt_id obs ordinal,
                   ld_observation = obs, ld_label = text, ld_tokens = split_whitespace text, ld_serials = serials,
                   ld_decision = decision, ld_predecessor = predecessor, ld_clock_lie = lie, ld_blocker = blocker\<rparr>],
                owner_histories := om_adjust (occurrence obs) empty_owner
                  (\<lambda>h. h\<lparr>oh_ordinals := oh_ordinals h @ [ordinal]\<rparr>) (owner_histories L)\<rparr>))"

subsection \<open>What the bookkeeping leaves alone\<close>

text \<open>Three groups of fields: what was physically established (evidence, frontiers, seals, coverage),
  the accounts (offers, receipts, the trail), and the history of answers.\<close>

definition physical where
  "physical L = (evidence L, frontiers L, seals L, terminal_seals L, qualified_by_end L, unsealed_qualified L,
     derivations L, latest_seal_coverage L, complete_decode_spans L, transcript_seal_timestamp_ms L)"

definition accounts where
  "accounts L = (offered_observations L, issued_receipts L, delivered_observations L, named_refusals L, trail L)"

definition answers where
  "answers L = (answered L, owner_histories L)"

definition documents where
  "documents L = (manual_document_revisions L, manual_document_capture L, incremental_shapings L,
     latest_incremental_shaping L, consultation_presentations L)"

lemmas group_defs = physical_def accounts_def answers_def documents_def

lemma retain_slot_alternative_frame [frame_simps]:
  "committed (retain_slot_alternative obs t s y L) = committed L"
  "physical (retain_slot_alternative obs t s y L) = physical L"
  "accounts (retain_slot_alternative obs t s y L) = accounts L"
  "answers (retain_slot_alternative obs t s y L) = answers L"
  "manual_edits (retain_slot_alternative obs t s y L) = manual_edits L"
  "slot_operations (retain_slot_alternative obs t s y L) = slot_operations L"
  "slot_operation_index (retain_slot_alternative obs t s y L) = slot_operation_index L"
  "word_pin_observations (retain_slot_alternative obs t s y L) = word_pin_observations L"
  by (simp_all add: retain_slot_alternative_def Let_def group_defs)

lemma record_slot_operation_frame [frame_simps]:
  "committed (record_slot_operation r L) = committed L"
  "physical (record_slot_operation r L) = physical L"
  "accounts (record_slot_operation r L) = accounts L"
  "answers (record_slot_operation r L) = answers L"
  "manual_edits (record_slot_operation r L) = manual_edits L"
  by (simp_all add: record_slot_operation_def Let_def group_defs)

lemma note_covered_span_frame [frame_simps]:
  "committed (note_covered_span x L) = committed L"
  "physical (note_covered_span x L) = physical L"
  "accounts (note_covered_span x L) = accounts L"
  "answers (note_covered_span x L) = answers L"
  "manual_edits (note_covered_span x L) = manual_edits L"
  "slot_operations (note_covered_span x L) = slot_operations L"
  "slot_operation_index (note_covered_span x L) = slot_operation_index L"
  by (simp_all add: note_covered_span_def group_defs)

lemma note_answered_frame [frame_simps]:
  "committed (note_answered obs L) = committed L"
  "physical (note_answered obs L) = physical L"
  "accounts (note_answered obs L) = accounts L"
  "manual_edits (note_answered obs L) = manual_edits L"
  "seals (note_answered obs L) = seals L"
  "answered (note_answered obs L) = insert obs (answered L)"
  "slot_operations (note_answered obs L) = slot_operations L"
  "slot_operation_index (note_answered obs L) = slot_operation_index L"
  by (simp_all add: note_answered_def group_defs)

lemma note_clock_lie_frame [frame_simps]:
  "committed (fst (note_clock_lie obs d L)) = committed L"
  "physical (fst (note_clock_lie obs d L)) = physical L"
  "accounts (fst (note_clock_lie obs d L)) = accounts L"
  "answers (fst (note_clock_lie obs d L)) = answers L"
  "trail (fst (note_clock_lie obs d L)) = trail L"
  "offered_observations (fst (note_clock_lie obs d L)) = offered_observations L"
  "issued_receipts (fst (note_clock_lie obs d L)) = issued_receipts L"
  "delivered_observations (fst (note_clock_lie obs d L)) = delivered_observations L"
  "named_refusals (fst (note_clock_lie obs d L)) = named_refusals L"
  "owner_histories (fst (note_clock_lie obs d L)) = owner_histories L"
  "answered (fst (note_clock_lie obs d L)) = answered L"
  "manual_edits (fst (note_clock_lie obs d L)) = manual_edits L"
  "slot_operations (fst (note_clock_lie obs d L)) = slot_operations L"
  "slot_operation_index (fst (note_clock_lie obs d L)) = slot_operation_index L"
  by (simp_all add: note_clock_lie_def Let_def group_defs split: option.split)

lemma count_decision_frame [frame_simps]:
  "committed (count_decision d L) = committed L"
  "physical (count_decision d L) = physical L"
  "answers (count_decision d L) = answers L"
  "trail (count_decision d L) = trail L"
  "owner_histories (count_decision d L) = owner_histories L"
  "answered (count_decision d L) = answered L"
  "offered_observations (count_decision d L) = offered_observations L"
  "manual_edits (count_decision d L) = manual_edits L"
  "slot_operations (count_decision d L) = slot_operations L"
  "slot_operation_index (count_decision d L) = slot_operation_index L"
  by (simp_all add: count_decision_def Let_def group_defs split: option.split)

lemma physical_trail [simp]:
  "physical (L\<lparr>trail := t\<rparr>) = physical L" "physical (L\<lparr>owner_histories := h\<rparr>) = physical L"
  "physical (L\<lparr>kept_visible := k\<rparr>) = physical L" "physical (L\<lparr>committed := c\<rparr>) = physical L"
  "physical (L\<lparr>manual_edits := m\<rparr>) = physical L" "physical (L\<lparr>words := w\<rparr>) = physical L"
  "physical (L\<lparr>word_pin_observations := o\<^sub>1\<rparr>) = physical L" "physical (L\<lparr>offered_observations := n\<rparr>) = physical L"
  "physical (L\<lparr>rejected_word_pins := p\<rparr>) = physical L" "physical (L\<lparr>pending_text_recovery := q\<rparr>) = physical L"
  by (simp_all add: physical_def)

lemma record_layer_decision_frame [frame_simps]:
  "committed (record_layer_decision obs t d b L) = committed L"
  "physical (record_layer_decision obs t d b L) = physical L"
  "answered (record_layer_decision obs t d b L) = answered L"
  "offered_observations (record_layer_decision obs t d b L) = offered_observations L"
  "manual_edits (record_layer_decision obs t d b L) = manual_edits L"
  "slot_operations (record_layer_decision obs t d b L) = slot_operations L"
  "slot_operation_index (record_layer_decision obs t d b L) = slot_operation_index L"
  by (simp_all add: record_layer_decision_def Let_def case_prod_beta frame_simps)

lemma record_layer_decision_trail:
  "\<exists>e. trail (record_layer_decision obs t d b L) = trail L @ [e] \<and> ld_ordinal e = length (trail L)
     \<and> ld_observation e = obs \<and> ld_decision e = d \<and> ld_label e = t"
  by (simp add: record_layer_decision_def Let_def case_prod_beta frame_simps)

lemma om_adjust_sum:
  assumes "om_ok m"
  shows "sum_list (map snd (om_adjust k 0 Suc m)) = Suc (sum_list (map snd m))"
  using assms
proof (induction m)
  case Nil
  then show ?case by (simp add: om_adjust_def)
next
  case (Cons e m)
  obtain k' n where e: "e = (k', n)" by fastforce
  have "map_of m k = None" if "k < k'" using Cons.prems that by (fastforce simp: e map_of_eq_None_iff)
  with Cons show ?case
    by (cases k k' rule: linorder_cases) (auto simp: e om_adjust_def om_insert_Cons)
qed

lemma count_decision_sum:
  assumes "om_ok (named_refusals L)"
  shows "om_ok (named_refusals (count_decision d L))"
    and "issued_receipts (count_decision d L) = issued_receipts L + 1"
    and "delivered_observations (count_decision d L) + sum_list (map snd (named_refusals (count_decision d L)))
      = delivered_observations L + sum_list (map snd (named_refusals L)) + 1"
  using om_adjust_sum [OF assms] assms by (simp_all add: count_decision_def Let_def split: option.split)

lemma record_layer_decision_sum:
  assumes "om_ok (named_refusals L)"
  shows "om_ok (named_refusals (record_layer_decision obs t d b L))"
    and "issued_receipts (record_layer_decision obs t d b L) = issued_receipts L + 1"
    and "delivered_observations (record_layer_decision obs t d b L) + sum_list (map snd (named_refusals (record_layer_decision obs t d b L)))
      = delivered_observations L + sum_list (map snd (named_refusals L)) + 1"
  using assms
  by (simp_all add: record_layer_decision_def Let_def case_prod_beta count_decision_sum note_clock_lie_frame)

subsection \<open>The slot-operation index\<close>

text \<open>Every occurrence has, in increasing order, the positions of the receipts with an output on it.\<close>

definition output_occurrences :: "'c slot_operation \<Rightarrow> occurrence set" where
  "output_occurrences r = (\<lambda>output. occurrence (ws_observation output)) ` set (so_outputs r)"

definition index_ok :: "('c, 'w, 'f) ledger \<Rightarrow> bool" where
  "index_ok L \<longleftrightarrow> om_ok (slot_operation_index L)
     \<and> (\<forall>x. unwrap_or [] (map_of (slot_operation_index L) x)
            = filter (\<lambda>i. x \<in> output_occurrences (slot_operations L ! i)) [0..<length (slot_operations L)])"

lemma fold_om_adjust:
  assumes "om_ok m" and "distinct xs"
  shows "om_ok (fold (\<lambda>x. om_adjust x [] (\<lambda>ps. ps @ [i])) xs m)"
    and "unwrap_or [] (map_of (fold (\<lambda>x. om_adjust x [] (\<lambda>ps. ps @ [i])) xs m) y)
      = unwrap_or [] (map_of m y) @ (if y \<in> set xs then [i] else [])"
  using assms
proof (induction xs arbitrary: m)
  case (Cons x xs)
  { case 1 with Cons.IH(1) [of "om_adjust x [] (\<lambda>ps. ps @ [i]) m"] show ?case by simp }
  { case 2 with Cons.IH(2) [of "om_adjust x [] (\<lambda>ps. ps @ [i]) m"] show ?case by auto }
qed simp_all

lemma index_ok_new: "index_ok (new_ledger w)"
  by (simp add: index_ok_def new_ledger_def)

lemma index_ok_record:
  assumes "index_ok L"
  shows "index_ok (record_slot_operation r L)"
proof -
  let ?xs = "rev (remdups (rev (map (\<lambda>output. occurrence (ws_observation output)) (so_outputs r))))"
  have xs: "distinct ?xs" "set ?xs = output_occurrences r" by (simp_all add: output_occurrences_def)
  have old: "filter (\<lambda>i. x \<in> output_occurrences ((slot_operations L @ [r]) ! i)) [0..<length (slot_operations L)]
      = filter (\<lambda>i. x \<in> output_occurrences (slot_operations L ! i)) [0..<length (slot_operations L)]" for x
    by (rule filter_cong) (auto simp: nth_append)
  show ?thesis
    using assms xs(2) unfolding index_ok_def record_slot_operation_def Let_def
    by (auto simp: fold_om_adjust [OF _ xs(1)] old simp del: set_rev set_remdups)
qed

lemma find_map_filter:
  "(\<And>x. x \<in> set xs \<Longrightarrow> \<not> P x \<Longrightarrow> f x = None) \<Longrightarrow> find_map f (filter P xs) = find_map f xs"
  by (induction xs) (auto split: option.split)

lemma find_map_map: "find_map f (map g xs) = find_map (\<lambda>x. f (g x)) xs"
  by (induction xs) (auto split: option.split)

lemma indexed_is_scan:
  assumes "index_ok L"
  shows "slot_source_ranges_indexed L slot = slot_source_ranges_by_scan L slot"
proof -
  let ?x = "occurrence (ws_observation slot)" and ?ops = "slot_operations L"
  let ?f = "\<lambda>i. receipt_source_ranges (?ops ! i) slot"
  have "find_map ?f (rev (filter (\<lambda>i. ?x \<in> output_occurrences (?ops ! i)) [0..<length ?ops]))
      = find_map ?f (rev [0..<length ?ops])"
    unfolding rev_filter
    by (rule find_map_filter) (auto simp: receipt_source_ranges_def output_occurrences_def)
  also have "\<dots> = find_map (\<lambda>r. receipt_source_ranges r slot) (map ((!) ?ops) (rev [0..<length ?ops]))"
    by (simp add: find_map_map)
  also have "map ((!) ?ops) (rev [0..<length ?ops]) = rev ?ops" by (simp add: rev_map [symmetric] map_nth)
  finally show ?thesis using assms
    by (simp add: slot_source_ranges_indexed_def slot_source_ranges_by_scan_def index_ok_def)
qed

lemma index_ok_frame:
  "slot_operations L' = slot_operations L \<Longrightarrow> slot_operation_index L' = slot_operation_index L \<Longrightarrow> index_ok L' = index_ok L"
  by (simp add: index_ok_def)

subsection \<open>Decode coverage\<close>

definition spans_ok :: "('c, 'w, 'f) ledger \<Rightarrow> bool" where
  "spans_ok L \<longleftrightarrow> om_ok (complete_decode_spans L) \<and> (\<forall>k spans. map_of (complete_decode_spans L) k = Some spans \<longrightarrow> apart spans)"

definition heard_samples :: "('c, 'w, 'f) ledger \<Rightarrow> rstr \<Rightarrow> nat \<Rightarrow> nat set" where
  "heard_samples L s epoch = samples (unwrap_or [] (map_of (complete_decode_spans L) (s, epoch)))"

lemma complete_decode_covers_iff:
  assumes "spans_ok L"
  shows "complete_decode_covers L x \<longleftrightarrow> is_anchored x \<and> pcm x \<subseteq> heard_samples L (session x) (capture_epoch x)"
  using assms decode_spans_cover_iff
  by (auto simp: complete_decode_covers_def spans_ok_def heard_samples_def is_anchored_def pcm_def
    split: option.split)

lemma record_complete_decode_span_spec:
  assumes "spans_ok L"
  shows "spans_ok (record_complete_decode_span obs w L)"
    and "heard_samples (record_complete_decode_span obs w L) s e = heard_samples L s e
      \<union> (if producer obs \<in> {Whisper, CloudLive} \<and> session (occurrence obs) = s \<and> capture_epoch (occurrence obs) = e
         then {fst w..<snd w} else {})"
proof -
  let ?k = "(session (occurrence obs), capture_epoch (occurrence obs))"
  have ap: "apart (unwrap_or [] (map_of (complete_decode_spans L) ?k))"
    using assms by (auto simp: spans_ok_def unwrap_or_def split: option.split)
  note j = join_decode_span_spec [OF ap]
  show "spans_ok (record_complete_decode_span obs w L)"
    using assms j(1) [of "fst w" "snd w"] by (auto simp: spans_ok_def record_complete_decode_span_def)
  show "heard_samples (record_complete_decode_span obs w L) s e = heard_samples L s e
      \<union> (if producer obs \<in> {Whisper, CloudLive} \<and> session (occurrence obs) = s \<and> capture_epoch (occurrence obs) = e
         then {fst w..<snd w} else {})"
    using assms j(2) [of "fst w" "snd w"] by (auto simp: heard_samples_def spans_ok_def record_complete_decode_span_def)
qed

text \<open>After any sequence of returned decode windows, the index answers that an occurrence was
  completely decoded exactly when the occurrence names audio and every one of its samples lies in a
  returned Whisper or cloud window of the same session and epoch.\<close>

theorem decode_index_is_exact:
  "complete_decode_covers (fold (\<lambda>(obs, w). record_complete_decode_span obs w) returns (new_ledger W)) x
     \<longleftrightarrow> is_anchored x \<and> pcm x \<subseteq>
       samples (map snd (filter (\<lambda>(obs, w). producer obs \<in> {Whisper, CloudLive} \<and> same_capture (occurrence obs) x) returns))"
proof -
  define hits where "hits s e rs = map snd (filter (\<lambda>(obs, w :: srange). producer obs \<in> {Whisper, CloudLive}
      \<and> session (occurrence obs) = s \<and> capture_epoch (occurrence obs) = e) rs)" for s e rs
  have run: "spans_ok (fold (\<lambda>(obs, w). record_complete_decode_span obs w) returns L)
      \<and> heard_samples (fold (\<lambda>(obs, w). record_complete_decode_span obs w) returns L) s e
        = heard_samples L s e \<union> samples (hits s e returns)"
    if "spans_ok L" for L :: "('a, 'b, 'c) ledger" and s e
    using that
  proof (induction returns arbitrary: L)
    case (Cons r returns)
    obtain obs w where r: "r = (obs, w)" by (cases r)
    show ?case
      using Cons.IH [OF record_complete_decode_span_spec(1) [OF Cons.prems, of obs w]]
        record_complete_decode_span_spec(2) [OF Cons.prems, of obs w] by (auto simp: r hits_def)
  qed (simp add: hits_def)
  have fresh: "spans_ok (new_ledger W :: ('a, 'b, 'c) ledger)"
      "heard_samples (new_ledger W :: ('a, 'b, 'c) ledger) s e = {}" for s e
    by (simp_all add: spans_ok_def new_ledger_def heard_samples_def)
  show ?thesis
    using run [OF fresh(1), of "session x" "capture_epoch x"]
    by (simp add: complete_decode_covers_iff fresh(2) hits_def same_capture_def)
qed

end
