(* ===== verification/Acoustic_Ledger.thy ===== *)
theory Acoustic_Ledger
  imports Ledger_Records
begin

section \<open>Admission\<close>

text \<open>
  Every way an observation is answered in \<open>core/pipeline/acoustic_ledger.rs\<close>: the decision itself
  (\<open>decide_observation\<close>), the slot batch around it (\<open>admit_slot_batch\<close>, of which \<open>admit\<close> is the case
  without slots), and the three answers that never mutate (\<open>keep_visible_unanchored\<close>,
  \<open>refuse_replacement\<close>, \<open>note_unrecovered_speech\<close>). An operation takes the ledger and returns it with
  the receipt.
\<close>

subsection \<open>The decision\<close>

definition holds_word_pins :: "('c, 'w, 'f) ledger \<Rightarrow> occurrence \<Rightarrow> bool" where
  "holds_word_pins L x =
     (case slots_of L x of None \<Rightarrow> False
      | Some slots \<Rightarrow> list_ex (\<lambda>slot. ws_observation slot \<in> word_pin_observations L) slots)"

definition words_deleted :: "('c, 'w, 'f) ledger \<Rightarrow> occurrence \<Rightarrow> bool" where
  "words_deleted L x = list_ex (\<lambda>deletion. occurrence (so_observation deletion) = x) (word_deletions L)"

text \<open>An explicit human edit of a sealed occurrence.\<close>

definition manual_receipt_id :: "observation \<Rightarrow> nat \<Rightarrow> rstr" where
  "manual_receipt_id obs n = lit ''manual-'' @ show_nat (request obs) @ lit ''-'' @ show_nat (generation obs)
     @ lit ''-'' @ show_nat n"

definition supersede_sealed ::
    "observation \<Rightarrow> rstr \<Rightarrow> bool \<Rightarrow> rstr \<Rightarrow> ('c, 'w, 'f) ledger \<Rightarrow> ('c, 'w, 'f) ledger \<times> mutation_receipt" where
  "supersede_sealed obs text has_word_pins supersedes_seal L =
     (let x = occurrence obs; held = map_of (committed L) x;
          superseded_label = (case held of None \<Rightarrow> [] | Some p \<Rightarrow> co_label p);
          from = (case held of None \<Rightarrow> ManualHuman | Some p \<Rightarrow> co_producer p);
          manual_ordinal = length (manual_edits L);
          L = note_covered_span x L;
          entry = (case held of
                     Some p \<Rightarrow> if has_word_pins then p\<lparr>co_producer := producer obs, co_generation := generation obs\<rparr>
                               else from_label obs text
                   | None \<Rightarrow> if has_word_pins then co_empty obs else from_label obs text);
          L = L\<lparr>committed := om_insert x entry (committed L),
                manual_edits := manual_edits L @ [\<lparr>me_receipt_id = manual_receipt_id obs manual_ordinal,
                  me_occurrence = x, me_supersedes_seal = supersedes_seal, me_superseded_label = superseded_label,
                  me_label = text, me_observation = obs\<rparr>]\<rparr>
      in (L, if held \<noteq> None then Correct x from ManualHuman else Insert x))"

text \<open>A whole-label revision of a held occurrence that has the authority to change it.\<close>

definition revise_label ::
    "('c, 'w, 'f) word_layer \<Rightarrow> observation \<Rightarrow> rstr \<Rightarrow> 'c committed_observation
       \<Rightarrow> ('c, 'w, 'f) ledger \<Rightarrow> ('c, 'w, 'f) ledger \<times> mutation_receipt" where
  "revise_label W obs text held L =
     (let x = occurrence obs; correct = Correct x (co_producer held) (producer obs);
          single_source = (case co_slots held of [s] \<Rightarrow> ws_start s = sample_start x \<and> ws_end s = sample_end x | _ \<Rightarrow> False)
      in if single_source \<and> producer obs \<noteq> ManualHuman
         then let source = hd (co_slots held);
                  (label, retained, why) =
                    (case preserve_group_content (unicode_tables W) (ws_text source) text of
                       Inr (label, retained) \<Rightarrow> (label, retained, lit ''held_token_retained'')
                     | Inl why \<Rightarrow> (ws_text source, True, why))
              in if retained
                 then let L = retain_slot_alternative obs text (co_slots held) why L;
                          L = record_slot_operation \<lparr>so_observation = obs, so_kind = SlotCorrect,
                                so_sources = co_slots held, so_outputs = co_slots held,
                                so_ranges = slot_source_ranges L source,
                                so_rule = why @ lit ''/held_token_retained/v1''\<rparr> L
                      in (L, Preserve x (co_producer held))
                 else let output = source\<lparr>ws_text := label, ws_producer := producer obs, ws_observation := obs\<rparr>;
                          ranges = slot_source_ranges L source;
                          current = recompose (held\<lparr>co_producer := producer obs, co_generation := generation obs,
                                                 co_slots := [output]\<rparr>);
                          L = L\<lparr>committed := om_insert x current (committed L)\<rparr>;
                          L = record_slot_operation \<lparr>so_observation = obs, so_kind = SlotCorrect,
                                so_sources = co_slots held, so_outputs = [output], so_ranges = ranges,
                                so_rule = lit ''group_alignment/v1''\<rparr> L
                      in (L, correct)
         else (L\<lparr>committed := om_insert x (from_label obs text) (committed L)\<rparr>, correct))"

text \<open>An offer for an occurrence the ledger holds and that is not sealed.\<close>

definition decide_held ::
    "('c, 'w, 'f) word_layer \<Rightarrow> observation \<Rightarrow> rstr \<Rightarrow> bool \<Rightarrow> bool \<Rightarrow> 'c committed_observation
       \<Rightarrow> ('c, 'w, 'f) ledger \<Rightarrow> ('c, 'w, 'f) ledger \<times> mutation_receipt" where
  "decide_held W obs text slot_revision has_word_pins held L =
     (let x = occurrence obs;
          outranks = authority_rank (producer obs) > authority_rank (co_producer held);
          same_lane_revision = producer obs = co_producer held \<and> generation obs > co_generation held
      in if co_label held = text then (L, Preserve x (co_producer held))
         else if outranks \<or> same_lane_revision \<or> slot_revision
         then if \<not> has_word_pins \<and> replace_neighbour L x (co_slots held) \<noteq> None
              then (retain_slot_alternative obs text (co_slots held) (lit ''clock_lie'') L, Refuse x ClockLie)
              else let L = note_covered_span x L
                   in if has_word_pins
                      then (L\<lparr>committed := om_insert x (held\<lparr>co_producer := producer obs, co_generation := generation obs\<rparr>)
                                (committed L)\<rparr>, Correct x (co_producer held) (producer obs))
                      else revise_label W obs text held L
         else (if \<not> has_word_pins \<and> length (co_slots held) = 1
               then retain_slot_alternative obs text (co_slots held) (lit ''protected_source'') L else L,
               Refuse x AuthorityConflict))"

text \<open>An offer for an occurrence nobody has committed.\<close>

definition unspoken :: "('c, 'w, 'f) ledger \<Rightarrow> occurrence \<Rightarrow> bool" where
  "unspoken L x =
     (case ledger_speech L of None \<Rightarrow> False
      | Some speech \<Rightarrow> is_Observed (se_availability speech)
          \<and> \<not> list_ex (\<lambda>r. sample_start r < sample_end x \<and> sample_start x < sample_end r) (se_ranges speech))"

definition decide_new ::
    "observation \<Rightarrow> rstr \<Rightarrow> bool \<Rightarrow> ('c, 'w, 'f) ledger \<Rightarrow> ('c, 'w, 'f) ledger \<times> mutation_receipt" where
  "decide_new obs text has_word_pins L =
     (let x = occurrence obs
      in if list_ex (\<lambda>c. is_Overlapping (relate x c)) (om_keys (committed L)) \<and> \<not> has_word_pins
         then (L\<lparr>kept_visible := kept_visible L + 1\<rparr>, KeepVisibleUnanchored x text OverlapWithoutWordPins)
         else if producer obs \<noteq> ManualHuman \<and> \<not> has_word_pins \<and> unspoken L x
         then (L\<lparr>kept_visible := kept_visible L + 1\<rparr>, KeepVisibleUnanchored x text NoMeasuredSpeech)
         else let L = note_covered_span x L
              in (L\<lparr>committed := om_insert x (if has_word_pins then co_empty obs else from_label obs text) (committed L)\<rparr>,
                  Insert x))"

definition decide_observation ::
    "('c, 'w, 'f) word_layer \<Rightarrow> observation \<Rightarrow> rstr \<Rightarrow> bool \<Rightarrow> bool
       \<Rightarrow> ('c, 'w, 'f) ledger \<Rightarrow> ('c, 'w, 'f) ledger \<times> mutation_receipt" where
  "decide_observation W obs text slot_revision has_word_pins L =
     (let x = occurrence obs
      in if \<not> is_anchored x
         then (note_answered obs (L\<lparr>kept_visible := kept_visible L + 1\<rparr>), KeepVisibleUnanchored x text ZeroWidth)
         else if obs \<in> answered L then (note_answered obs L, Refuse x BatchDuplicate)
         else let L = note_answered obs L
              in if producer obs = Formatter
                 then (case map_of (committed L) x of
                         Some held \<Rightarrow> if \<not> has_word_pins \<and> length (co_slots held) = 1 \<and> co_label held \<noteq> text
                                      then retain_slot_alternative obs text (co_slots held)
                                             (lit ''whole_label_has_no_word_targets'') L
                                      else L
                       | None \<Rightarrow> L, Refuse x AuthorityConflict)
                 else if is_sealed L x \<and> producer obs \<noteq> ManualHuman then (L, Refuse x SealedReplay)
                 else if \<not> has_word_pins \<and> (holds_word_pins L x
                        \<or> slots_of L x = Some [] \<and> producer obs \<noteq> ManualHuman \<and> words_deleted L x)
                 then (L, Preserve x (case map_of (committed L) x of Some held \<Rightarrow> co_producer held | None \<Rightarrow> producer obs))
                 else (case map_of (seals L) x of
                         Some seal \<Rightarrow> supersede_sealed obs text has_word_pins (lr_receipt_id seal) L
                       | None \<Rightarrow>
                           if trim text = [] \<and> producer obs \<noteq> ManualHuman
                           then (L, case map_of (committed L) x of
                                      Some held \<Rightarrow> Preserve x (co_producer held) | None \<Rightarrow> Refuse x EmptyLabel)
                           else case map_of (committed L) x of
                                  Some held \<Rightarrow> decide_held W obs text slot_revision has_word_pins held L
                                | None \<Rightarrow> decide_new obs text has_word_pins L))"

subsection \<open>Slot batches\<close>

text \<open>A held word of higher authority is protected unless an observer that reached its end heard no
  speech under it.\<close>

definition protected_source :: "('c, 'w, 'f) ledger \<Rightarrow> observation \<Rightarrow> 'c word_slot \<Rightarrow> bool" where
  "protected_source L obs source \<longleftrightarrow>
     producer obs \<noteq> ManualHuman
     \<and> authority_rank (ws_producer source) > authority_rank (producer obs)
     \<and> \<not> (case ledger_speech L of None \<Rightarrow> False
          | Some speech \<Rightarrow>
              identity_matches speech (session (occurrence obs)) (capture_epoch (occurrence obs))
              \<and> (case observed_samples (se_availability speech) of None \<Rightarrow> False | Some n \<Rightarrow> n \<ge> ws_end source)
              \<and> list_all (\<lambda>r. sample_end r \<le> ws_start source \<or> sample_start r \<ge> ws_end source) (se_ranges speech))"

fun withhold_outputs ::
    "('c, 'w, 'f) word_layer \<Rightarrow> ('c, 'w, 'f) ledger \<Rightarrow> observation \<Rightarrow> 'c word_slot list \<Rightarrow> 'c slot_operation list
      \<Rightarrow> 'c word_slot list \<Rightarrow> 'c word_slot list \<times> 'c word_slot list \<times> 'c word_slot list
      \<Rightarrow> 'c word_slot list \<times> 'c word_slot list \<times> 'c word_slot list" where
  "withhold_outputs W L obs held kept_ops [] acc = acc"
| "withhold_outputs W L obs held kept_ops (output # rest) (kept, sources, outputs) =
     withhold_outputs W L obs held kept_ops rest
       (if output \<in> set outputs then (kept, sources, outputs)
        else if list_ex (\<lambda>op. output \<in> set (so_outputs op)) kept_ops then (kept @ [output], sources, outputs)
        else case find (\<lambda>source. source \<noteq> output \<and> same_anchored_word W L source output) held of
               Some source \<Rightarrow> if protected_source L obs source then (kept, sources @ [source], outputs @ [output])
                              else (kept @ [output], sources, outputs)
             | None \<Rightarrow> (kept @ [output], sources, outputs))"

definition withhold_lower_authority_over_speech ::
    "('c, 'w, 'f) word_layer \<Rightarrow> observation \<Rightarrow> 'c word_slot list option \<Rightarrow> 'c slot_operation list
      \<Rightarrow> ('c, 'w, 'f) ledger \<Rightarrow> ('c, 'w, 'f) ledger \<times> 'c word_slot list option \<times> 'c slot_operation list \<times> rstr option" where
  "withhold_lower_authority_over_speech W obs slots operations L =
     (let held = unwrap_or [] (slots_of L (occurrence obs));
          is_withheld = (\<lambda>op. list_ex (protected_source L obs) (so_sources op));
          withheld_ops = filter is_withheld operations; kept_ops = filter (\<lambda>op. \<not> is_withheld op) operations
      in case slots of
           None \<Rightarrow> (L, None, kept_ops, None)
         | Some proposed \<Rightarrow>
             (case withhold_outputs W L obs held kept_ops proposed
                     ([], concat (map so_sources withheld_ops), concat (map so_outputs withheld_ops)) of
                (kept, sources, outputs) \<Rightarrow>
                  if outputs = [] then (L, Some kept, kept_ops, None)
                  else let by_range = sort_key (\<lambda>word. (ws_start word, ws_end word));
                           L = retain_slot_alternative obs (compose_label (by_range outputs))
                                 (remdups_adj (by_range sources)) (lit ''lower_authority_over_speech'') L
                       in (L, Some kept, kept_ops, Some (compose_label kept))))"

definition withhold_unproven_retirements ::
    "observation \<Rightarrow> 'c word_slot list option \<Rightarrow> 'c slot_operation list \<Rightarrow> 'c word_slot list
      \<Rightarrow> ('c, 'w, 'f) ledger \<Rightarrow> ('c, 'w, 'f) ledger \<times> ('c word_slot list \<times> rstr) option" where
  "withhold_unproven_retirements obs slots operations blocked L =
     (case slots of
        None \<Rightarrow> (L, None)
      | Some proposed \<Rightarrow>
          let held = unwrap_or [] (slots_of L (occurrence obs));
              gap_word = (\<lambda>word. \<not> list_ex (\<lambda>op. word \<in> set (so_outputs op)) operations
                 \<and> \<not> list_ex (\<lambda>source. ws_start source < ws_end word \<and> ws_start word < ws_end source) held);
              kept = filter (\<lambda>word. word \<in> set held \<or> gap_word word) proposed;
              withheld = filter (\<lambda>word. \<not> (word \<in> set held \<or> gap_word word)) proposed
          in if list_all (\<lambda>word. word \<in> set held) kept then (L, None)
             else (retain_slot_alternative obs (compose_label withheld) blocked
                     (lit ''absence_requires_acoustic_evidence'') L,
                   Some (kept, compose_label kept)))"

text \<open>The held words a batch may not retire.\<close>

definition replaces :: "('c, 'w, 'f) word_layer \<Rightarrow> ('c, 'w, 'f) ledger \<Rightarrow> 'c word_slot list \<Rightarrow> 'c word_slot \<Rightarrow> bool" where
  "replaces W L proposed source = list_ex (\<lambda>output. output \<noteq> source \<and> same_anchored_word W L source output) proposed"

definition blocked_sources ::
    "('c, 'w, 'f) word_layer \<Rightarrow> observation \<Rightarrow> 'c word_slot list option \<Rightarrow> 'c slot_operation list
      \<Rightarrow> ('c, 'w, 'f) ledger \<Rightarrow> 'c word_slot list" where
  "blocked_sources W obs slots operations L =
     (let held = unwrap_or [] (slots_of L (occurrence obs));
          individually_retired = (case slots of None \<Rightarrow> [] | Some proposed \<Rightarrow> filter (replaces W L proposed) held)
      in if producer obs = ManualHuman then []
         else filter (\<lambda>source.
                let operation = find (\<lambda>op. source \<in> set (so_sources op)) operations;
                    individual = (case slots of None \<Rightarrow> None
                                  | Some proposed \<Rightarrow> if replaces W L proposed source then Some proposed else None);
                    retired = (case operation of None \<Rightarrow> individually_retired | Some op \<Rightarrow> so_sources op)
                in case option_or (map_option so_outputs operation) individual of
                     None \<Rightarrow> False
                   | Some outputs \<Rightarrow> \<not> retirement_covered W L obs source outputs retired) held)"

text \<open>The witness stamp of \<open>word_adjudication.rs\<close>.\<close>

definition normalize_word_token :: "unicode \<Rightarrow> rstr \<Rightarrow> rstr" where
  "normalize_word_token u word = to_lowercase u (trim_matches (\<lambda>ch. \<not> is_alphanumeric u ch) word)"

definition label_equal :: "unicode \<Rightarrow> rstr \<Rightarrow> rstr \<Rightarrow> bool" where
  "label_equal u a b \<longleftrightarrow> normalize_word_token u a = normalize_word_token u b"

definition stamp_word_witness ::
    "unicode \<Rightarrow> observation \<Rightarrow> 'c word_slot list \<Rightarrow> 'c word_slot list \<Rightarrow> 'c word_slot list" where
  "stamp_word_witness u obs sources outputs =
     (if \<not> list_ex (\<lambda>source. (ws_producer source \<in> {Apple, AppleDictation}) \<noteq> (producer obs \<in> {Apple, AppleDictation})) sources
      then outputs
      else if label_equal u (compose_label sources) (compose_label outputs)
      then map (\<lambda>output. output\<lparr>ws_witness := Confirmed\<rparr>) outputs
      else map (\<lambda>output. output\<lparr>ws_witness := Contested (ws_text output)
             (Occurrence (session (occurrence obs)) (capture_epoch (occurrence obs)) (ws_start output) (ws_end output))\<rparr>)
             outputs)"

text \<open>Proposed words grouped by the held word each replaces, as indices into the batch.\<close>

fun group_add :: "'a \<Rightarrow> nat \<Rightarrow> ('a \<times> nat list) list \<Rightarrow> ('a \<times> nat list) list" where
  "group_add source i [] = [(source, [i])]"
| "group_add source i ((held, members) # gs) =
     (if held = source then (held, members @ [i]) # gs else (held, members) # group_add source i gs)"

definition witness_groups ::
    "('c, 'w, 'f) word_layer \<Rightarrow> ('c, 'w, 'f) ledger \<Rightarrow> 'c word_slot list \<Rightarrow> 'c slot_operation list
      \<Rightarrow> 'c word_slot list \<Rightarrow> ('c word_slot \<times> nat list) list" where
  "witness_groups W L held operations proposed =
     fold (\<lambda>(i, output) groups.
         if list_ex (\<lambda>op. output \<in> set (so_outputs op)) operations then groups
         else case find (\<lambda>source. source \<noteq> output \<and> same_anchored_word W L source output) held of
                None \<Rightarrow> groups
              | Some source \<Rightarrow> group_add source i groups)
       (enumerate 0 proposed) []"

definition stamp_groups :: "unicode \<Rightarrow> observation \<Rightarrow> ('c word_slot \<times> nat list) list \<Rightarrow> 'c word_slot list \<Rightarrow> 'c word_slot list" where
  "stamp_groups u obs groups proposed =
     fold (\<lambda>(source, members) slots.
         fold (\<lambda>(i, output) slots. slots[i := output])
           (zip members (stamp_word_witness u obs [source] (map ((!) slots) members))) slots)
       groups proposed"

text \<open>The original pins assigned to one output of an owner.\<close>

definition original_pins :: "('c, 'w, 'f) word_layer \<Rightarrow> ('c, 'w, 'f) ledger \<Rightarrow> observation \<Rightarrow> bool \<Rightarrow> 'c word_slot \<Rightarrow> occurrence list" where
  "original_pins W L obs check_capture output =
     map snd (filter (\<lambda>(owner, pin). owner = occurrence obs \<and> (\<not> check_capture \<or> same_capture pin owner)
         \<and> max (sample_start pin) (sample_start owner) = ws_start output
         \<and> min (sample_end pin) (sample_end owner) = ws_end output)
       (assigned_word_pin_ranges W (words L) obs))"

text \<open>Receipts for the words that no explicit operation produced; the sources they retire.\<close>

definition record_individual ::
    "('c, 'w, 'f) word_layer \<Rightarrow> observation \<Rightarrow> 'c slot_operation list \<Rightarrow> 'c word_slot
      \<Rightarrow> ('c, 'w, 'f) ledger \<times> 'c word_slot list \<Rightarrow> ('c, 'w, 'f) ledger \<times> 'c word_slot list" where
  "record_individual W obs operations output acc = (case acc of (L, retired) \<Rightarrow>
     (if list_ex (\<lambda>op. output \<in> set (so_outputs op)) operations then (L, retired)
      else let source = find (\<lambda>source. same_anchored_word W L source output
                        \<or> ws_producer output = ManualHuman \<and> ws_start source = ws_start output \<and> ws_end source = ws_end output)
                      (unwrap_or [] (slots_of L (occurrence obs)))
           in if source = Some output then (L, retired)
              else let ranges = (case source of
                         Some s \<Rightarrow> slot_source_ranges L s
                       | None \<Rightarrow> (let original = original_pins W L obs False output
                                  in if length original = 1 then original
                                     else [Occurrence (session (occurrence obs)) (capture_epoch (occurrence obs))
                                             (ws_start output) (ws_end output)]))
                   in (record_slot_operation \<lparr>so_observation = obs,
                         so_kind = (if source \<noteq> None then SlotCorrect else SlotInsert),
                         so_sources = (case source of None \<Rightarrow> [] | Some s \<Rightarrow> [s]), so_outputs = [output],
                         so_ranges = ranges, so_rule = lit ''unique_pcm_slot/v1''\<rparr> L,
                       retired @ (case source of None \<Rightarrow> [] | Some s \<Rightarrow> [s]))))"

text \<open>The association of a split child with its own original word.\<close>

definition record_measured_source ::
    "('c, 'w, 'f) word_layer \<Rightarrow> observation \<Rightarrow> 'c word_slot \<Rightarrow> ('c, 'w, 'f) ledger \<Rightarrow> ('c, 'w, 'f) ledger" where
  "record_measured_source W obs output L =
     (case original_pins W L obs True output of
        [pin] \<Rightarrow> if sample_start pin \<noteq> ws_start output \<or> sample_end pin \<noteq> ws_end output
                 then record_slot_operation \<lparr>so_observation = obs, so_kind = SlotCorrect, so_sources = [output],
                        so_outputs = [output], so_ranges = [pin], so_rule = lit ''measured_word_source/v1''\<rparr> L
                 else L
      | _ \<Rightarrow> L)"

text \<open>The new slot list of the owner.\<close>

definition place_slots ::
    "observation \<Rightarrow> 'c word_slot list \<Rightarrow> 'c slot_operation list \<Rightarrow> 'c word_slot list \<Rightarrow> ('c, 'w, 'f) ledger \<Rightarrow> ('c, 'w, 'f) ledger" where
  "place_slots obs retired operations slots L =
     (case map_of (committed L) (occurrence obs) of
        None \<Rightarrow> L
      | Some held \<Rightarrow>
          let staying = filter (\<lambda>source. source \<notin> set retired
                          \<and> \<not> list_ex (\<lambda>op. source \<in> set (so_sources op)) operations) (co_slots held);
              placed = fold (\<lambda>slot acc. if slot \<in> set acc then acc else acc @ [slot]) slots staying;
              entry = recompose (held\<lparr>co_slots := sort_key (\<lambda>w. (ws_start w, ws_end w)) placed\<rparr>)
          in L\<lparr>word_pin_observations := insert obs (word_pin_observations L),
               committed := om_insert (occurrence obs) entry (committed L)\<rparr>)"

subsection \<open>Text debt\<close>

definition retained_recovery_source :: "('c, 'w, 'f) word_layer \<Rightarrow> ('c, 'w, 'f) ledger \<Rightarrow> occurrence \<Rightarrow> bool" where
  "retained_recovery_source W L owner =
     list_ex (\<lambda>alternative. occurrence (sa_observation alternative) = owner
        \<and> list_ex (recovery_source_is_pending W L alternative) (sa_sources alternative)) (slot_alternatives L)"

definition reconcile_returned_word_debt :: "('c, 'w, 'f) word_layer \<Rightarrow> occurrence \<Rightarrow> ('c, 'w, 'f) ledger \<Rightarrow> ('c, 'w, 'f) ledger" where
  "reconcile_returned_word_debt W owner L =
     (if \<not> text_recovery_pending L owner \<and> map_of (rejected_word_pins L) owner = None then L
      else let unresolved = unresolved_pins W L owner;
               L = L\<lparr>rejected_word_pins := (if unresolved = [] then om_remove owner (rejected_word_pins L)
                                            else om_insert owner unresolved (rejected_word_pins L))\<rparr>
           in if \<not> retained_recovery_source W L owner
                 \<and> map_of (rejected_word_pins L) owner = None
                 \<and> (case slots_of L owner of None \<Rightarrow> False
                    | Some pins \<Rightarrow> list_ex (\<lambda>pin. returned_word_scope_accounted W L (ws_observation pin)) pins)
              then L\<lparr>pending_text_recovery := os_remove owner (pending_text_recovery L)\<rparr>
              else L)"

text \<open>Whether the offer may settle the text debt of its owner.\<close>

definition authorized_recovery :: "observation \<Rightarrow> rstr \<Rightarrow> 'c word_slot list option \<Rightarrow> ('c, 'w, 'f) ledger \<Rightarrow> bool" where
  "authorized_recovery obs text slots L \<longleftrightarrow>
     (slots \<noteq> None \<or> \<not> holds_word_pins L (occurrence obs)) \<and> trim text \<noteq> []
     \<and> producer obs \<in> {Whisper, CloudLive, ManualHuman}
     \<and> (case map_of (committed L) (occurrence obs) of
          None \<Rightarrow> True
        | Some held \<Rightarrow> slots \<noteq> None
            \<or> authority_rank (producer obs) > authority_rank (co_producer held)
            \<or> producer obs = co_producer held \<and> generation obs > co_generation held)"

definition delivers :: "mutation_receipt \<Rightarrow> bool" where
  "delivers d \<longleftrightarrow> grants_mutation d \<or> is_Preserve d"

text \<open>What happens to the debt once the decision is recorded.\<close>

definition settle_debt ::
    "('c, 'w, 'f) word_layer \<Rightarrow> observation \<Rightarrow> bool \<Rightarrow> bool \<Rightarrow> bool \<Rightarrow> mutation_receipt \<Rightarrow> ('c, 'w, 'f) ledger \<Rightarrow> ('c, 'w, 'f) ledger" where
  "settle_debt W obs authorized whole_owner slot_revision decision L =
     (let x = occurrence obs;
          accepted = (grants_mutation decision \<or> slot_revision \<and> is_Preserve decision);
          L = (if authorized \<and> producer obs = ManualHuman \<and> \<not> slot_revision \<and> delivers decision
               then L\<lparr>rejected_word_pins := om_remove x (rejected_word_pins L)\<rparr>
               else if accepted then reconcile_returned_word_debt W x L else L);
          retained = (producer obs \<noteq> ManualHuman \<and> retained_recovery_source W L x);
          accounted = (\<not> text_recovery_pending L x \<or> whole_owner \<and> producer obs = ManualHuman
                       \<or> returned_word_scope_accounted W L obs)
      in if authorized \<and> accounted \<and> \<not> retained \<and> map_of (rejected_word_pins L) x = None \<and> delivers decision
         then L\<lparr>pending_text_recovery := os_remove x (pending_text_recovery L)\<rparr> else L)"

subsection \<open>The batch\<close>

definition offer :: "('c, 'w, 'f) ledger \<Rightarrow> ('c, 'w, 'f) ledger" where
  "offer L = L\<lparr>offered_observations := offered_observations L + 1\<rparr>"

text \<open>The answer when a batch has nothing left it may apply.\<close>

definition preserve_batch :: "observation \<Rightarrow> rstr \<Rightarrow> ('c, 'w, 'f) ledger \<Rightarrow> ('c, 'w, 'f) ledger \<times> mutation_receipt" where
  "preserve_batch obs text L =
     (let held_by = (case map_of (committed L) (occurrence obs) of None \<Rightarrow> producer obs | Some held \<Rightarrow> co_producer held);
          decision = Preserve (occurrence obs) held_by
      in (record_layer_decision obs text decision None (note_answered obs (offer L)), decision))"

definition retain_whole_label :: "observation \<Rightarrow> rstr \<Rightarrow> 'c word_slot list option \<Rightarrow> ('c, 'w, 'f) ledger \<Rightarrow> ('c, 'w, 'f) ledger" where
  "retain_whole_label obs text slots L =
     (let x = occurrence obs;
          pinned = filter (\<lambda>slot. ws_observation slot \<in> word_pin_observations L) (unwrap_or [] (slots_of L x));
          L = (if slots = None \<and> pinned \<noteq> [] \<and> text_of L x \<noteq> Some text
               then retain_slot_alternative obs text pinned (lit ''whole_label_has_no_word_targets'') L else L)
      in if slots = None \<and> producer obs \<noteq> ManualHuman \<and> slots_of L x = Some []
         then let deleted = concat (map so_sources (filter (\<lambda>d. occurrence (so_observation d) = x) (word_deletions L)))
              in if deleted \<noteq> [] then retain_slot_alternative obs text deleted (lit ''word_targets_required_after_no_speech'') L
                 else L
         else L)"

definition apply_slots ::
    "('c, 'w, 'f) word_layer \<Rightarrow> observation \<Rightarrow> 'c word_slot list option \<Rightarrow> 'c slot_operation list
      \<Rightarrow> ('c, 'w, 'f) ledger \<Rightarrow> ('c, 'w, 'f) ledger" where
  "apply_slots W obs slots operations L =
     (let L = (case slots of
                 None \<Rightarrow> L
               | Some proposed \<Rightarrow>
                   let held = unwrap_or [] (slots_of L (occurrence obs));
                       stamped = stamp_groups (unicode_tables W) obs (witness_groups W L held operations proposed) proposed
                   in case fold (record_individual W obs operations) stamped (L, []) of
                        (L, retired) \<Rightarrow> place_slots obs retired operations stamped L);
          L = fold record_slot_operation operations L;
          children = concat (map so_outputs (filter (\<lambda>op. so_kind op = SlotSplit \<or> length (so_outputs op) > 1) operations));
          L = fold (record_measured_source W obs) children L
      in L\<lparr>words := remember_word_outputs W L obs\<rparr>)"

text \<open>The part of the batch after the withheld words are gone.\<close>

definition admit_kept ::
    "('c, 'w, 'f) word_layer \<Rightarrow> observation \<Rightarrow> rstr \<Rightarrow> 'c word_slot list option \<Rightarrow> bool \<Rightarrow> 'c slot_operation list
      \<Rightarrow> ('c, 'w, 'f) ledger \<Rightarrow> ('c, 'w, 'f) ledger \<times> mutation_receipt" where
  "admit_kept W obs text slots slot_revision operations L =
     (let L = offer L;
          whole_owner = (slots = None \<and> \<not> slot_revision);
          authorized = authorized_recovery obs text slots L;
          L = retain_whole_label obs text slots L
      in case decide_observation W obs text slot_revision (slots \<noteq> None) L of
           (L, decision) \<Rightarrow>
             let L = (if grants_mutation decision \<or> slot_revision \<and> is_Preserve decision
                      then apply_slots W obs slots operations L else L);
                 L = record_layer_decision obs text decision None L
             in (settle_debt W obs authorized whole_owner slot_revision decision L, decision))"

definition admit_slot_batch ::
    "('c, 'w, 'f) word_layer \<Rightarrow> observation \<Rightarrow> rstr \<Rightarrow> 'c word_slot list option \<Rightarrow> bool \<Rightarrow> 'c slot_operation list
      \<Rightarrow> ('c, 'w, 'f) ledger \<Rightarrow> ('c, 'w, 'f) ledger \<times> mutation_receipt" where
  "admit_slot_batch W obs text slots slot_revision operations L =
     (case withhold_lower_authority_over_speech W obs slots operations L of
        (L, slots, operations, kept_label) \<Rightarrow>
          if kept_label \<noteq> None \<and> slots = Some [] \<and> operations = [] then preserve_batch obs text L
          else let text = unwrap_or text kept_label; blocked = blocked_sources W obs slots operations L
               in if blocked = [] then admit_kept W obs text slots slot_revision operations L
                  else case withhold_unproven_retirements obs slots operations blocked L of
                         (L, Some (kept, label)) \<Rightarrow> admit_kept W obs label (Some kept) slot_revision [] L
                       | (L, None) \<Rightarrow> preserve_batch obs text
                           (retain_slot_alternative obs text blocked (lit ''absence_requires_acoustic_evidence'') L))"

definition admit_with_slots ::
    "('c, 'w, 'f) word_layer \<Rightarrow> observation \<Rightarrow> rstr \<Rightarrow> 'c word_slot list option \<Rightarrow> bool
      \<Rightarrow> ('c, 'w, 'f) ledger \<Rightarrow> ('c, 'w, 'f) ledger \<times> mutation_receipt" where
  "admit_with_slots W obs text slots slot_revision L = admit_slot_batch W obs text slots slot_revision [] L"

definition admit :: "('c, 'w, 'f) word_layer \<Rightarrow> observation \<Rightarrow> rstr \<Rightarrow> ('c, 'w, 'f) ledger \<Rightarrow> ('c, 'w, 'f) ledger \<times> mutation_receipt" where
  "admit W obs text L = admit_with_slots W obs text None False L"

fun admit_items ::
    "('c, 'w, 'f) word_layer \<Rightarrow> (observation \<times> rstr) list \<Rightarrow> ('c, 'w, 'f) ledger \<Rightarrow> ('c, 'w, 'f) ledger \<times> mutation_receipt list" where
  "admit_items W [] L = (L, [])"
| "admit_items W ((obs, text) # items) L =
     (case admit W obs text L of (L, r) \<Rightarrow> case admit_items W items L of (L, rs) \<Rightarrow> (L, r # rs))"

definition admit_batch ::
    "('c, 'w, 'f) word_layer \<Rightarrow> (observation \<times> rstr) list \<Rightarrow> ('c, 'w, 'f) ledger
      \<Rightarrow> ('c, 'w, 'f) ledger \<times> mutation_receipt list \<times> conservation_tally" where
  "admit_batch W items L = (case admit_items W items L of (L, receipts) \<Rightarrow> (L, receipts, conservation L))"

subsection \<open>Answers that never mutate\<close>

definition keep_visible_unanchored ::
    "observation \<Rightarrow> rstr \<Rightarrow> no_authority_reason \<Rightarrow> ('c, 'w, 'f) ledger \<Rightarrow> ('c, 'w, 'f) ledger \<times> mutation_receipt" where
  "keep_visible_unanchored obs text why L =
     (let L = note_answered obs ((offer L)\<lparr>kept_visible := kept_visible L + 1\<rparr>);
          decision = KeepVisibleUnanchored (occurrence obs) text why
      in (record_layer_decision obs text decision None L, decision))"

definition refuse_replacement ::
    "observation \<Rightarrow> rstr \<Rightarrow> refuse_reason \<Rightarrow> ('c, 'w, 'f) ledger \<Rightarrow> ('c, 'w, 'f) ledger \<times> mutation_receipt" where
  "refuse_replacement obs text why L =
     (let L = note_answered obs (offer L); x = occurrence obs;
          decision = (case map_of (committed L) x of
             Some held \<Rightarrow> if trim text = [] \<and> why \<in> {EmptyLabel, SlotAdmissionRejected}
                          then Preserve x (co_producer held) else Refuse x why
           | None \<Rightarrow> Refuse x why)
      in (record_layer_decision obs text decision None L, decision))"

definition refuse_replayed_range :: "observation \<Rightarrow> rstr \<Rightarrow> ('c, 'w, 'f) ledger \<Rightarrow> ('c, 'w, 'f) ledger \<times> mutation_receipt" where
  "refuse_replayed_range obs text L = refuse_replacement obs text ReplayedRangeIdentity L"

definition note_unrecovered_speech :: "occurrence \<Rightarrow> ('c, 'w, 'f) ledger \<Rightarrow> ('c, 'w, 'f) ledger \<times> mutation_receipt" where
  "note_unrecovered_speech x L =
     (let obs = Observation Whisper (sample_start x) (sample_end x) x
      in if obs \<in> answered L then (L, Refuse x UnrecoveredSpeech)
         else refuse_replacement obs [] UnrecoveredSpeech L)"

subsection \<open>What a decision changes\<close>

text \<open>A decider leaves the physical facts and the accounts alone, keeps the slot index right, and marks
  the observation as answered.\<close>

definition quiet :: "observation \<Rightarrow> ('c, 'w, 'f) ledger \<Rightarrow> ('c, 'w, 'f) ledger \<Rightarrow> bool" where
  "quiet obs L L' \<longleftrightarrow> physical L' = physical L \<and> accounts L' = accounts L
     \<and> (index_ok L \<longrightarrow> index_ok L') \<and> documents L' = documents L"

lemma update_frames [frame_simps]:
  "accounts (L\<lparr>committed := c\<rparr>) = accounts L" "accounts (L\<lparr>kept_visible := k\<rparr>) = accounts L"
  "accounts (L\<lparr>manual_edits := m\<rparr>) = accounts L" "accounts (L\<lparr>words := w\<rparr>) = accounts L"
  "accounts (L\<lparr>word_pin_observations := o1\<rparr>) = accounts L" "accounts (L\<lparr>rejected_word_pins := p\<rparr>) = accounts L"
  "accounts (L\<lparr>pending_text_recovery := q\<rparr>) = accounts L"
  "index_ok (L\<lparr>committed := c\<rparr>) = index_ok L" "index_ok (L\<lparr>kept_visible := k\<rparr>) = index_ok L"
  "index_ok (L\<lparr>manual_edits := m\<rparr>) = index_ok L" "index_ok (L\<lparr>words := w\<rparr>) = index_ok L"
  "index_ok (L\<lparr>word_pin_observations := o1\<rparr>) = index_ok L" "index_ok (L\<lparr>rejected_word_pins := p\<rparr>) = index_ok L"
  "index_ok (L\<lparr>pending_text_recovery := q\<rparr>) = index_ok L"
  "documents (L\<lparr>committed := c\<rparr>) = documents L" "documents (L\<lparr>kept_visible := k\<rparr>) = documents L"
  "documents (L\<lparr>manual_edits := m\<rparr>) = documents L" "documents (L\<lparr>words := w\<rparr>) = documents L"
  "documents (L\<lparr>word_pin_observations := o1\<rparr>) = documents L" "documents (L\<lparr>rejected_word_pins := p\<rparr>) = documents L"
  "documents (L\<lparr>pending_text_recovery := q\<rparr>) = documents L"
  "answers (L\<lparr>committed := c\<rparr>) = answers L" "answers (L\<lparr>kept_visible := k\<rparr>) = answers L"
  "answers (L\<lparr>manual_edits := m\<rparr>) = answers L" "answers (L\<lparr>words := w\<rparr>) = answers L"
  "answers (L\<lparr>word_pin_observations := o1\<rparr>) = answers L" "answers (L\<lparr>rejected_word_pins := p\<rparr>) = answers L"
  "answers (L\<lparr>pending_text_recovery := q\<rparr>) = answers L"
  by (simp_all add: accounts_def documents_def index_ok_def answers_def)

lemma op_frames [frame_simps]:
  "index_ok (retain_slot_alternative obs t s y L) = index_ok L"
  "index_ok (note_covered_span x L) = index_ok L"
  "index_ok (note_answered obs L) = index_ok L"
  "documents (retain_slot_alternative obs t s y L) = documents L"
  "documents (record_slot_operation r L) = documents L"
  "documents (note_covered_span x L) = documents L"
  "documents (note_answered obs L) = documents L"
  by (simp_all add: retain_slot_alternative_def record_slot_operation_def note_covered_span_def note_answered_def
      documents_def index_ok_def Let_def)

lemmas quiet_simps = quiet_def frame_simps index_ok_record Let_def

lemma supersede_sealed_quiet: "quiet obs L (fst (supersede_sealed obs t pins s L))"
  by (simp add: supersede_sealed_def quiet_simps)

lemma revise_label_quiet: "quiet obs L (fst (revise_label W obs t held L))"
  by (simp add: revise_label_def quiet_simps split: sum.split prod.split)

lemma decide_held_quiet: "quiet obs L (fst (decide_held W obs t rv pins held L))"
  using revise_label_quiet [of obs "note_covered_span (occurrence obs) L" W t held]
  by (simp add: decide_held_def quiet_simps)

lemma decide_new_quiet: "quiet obs L (fst (decide_new obs t pins L))"
  by (simp add: decide_new_def quiet_simps)

text \<open>The branches of the decision, in the order of the code.\<close>

definition formatter_note :: "observation \<Rightarrow> rstr \<Rightarrow> bool \<Rightarrow> ('c, 'w, 'f) ledger \<Rightarrow> ('c, 'w, 'f) ledger" where
  "formatter_note obs text has_word_pins L =
     (case map_of (committed L) (occurrence obs) of
        Some held \<Rightarrow> if \<not> has_word_pins \<and> length (co_slots held) = 1 \<and> co_label held \<noteq> text
                     then retain_slot_alternative obs text (co_slots held) (lit ''whole_label_has_no_word_targets'') L
                     else L
      | None \<Rightarrow> L)"

lemma decide_observation_cases:
  fixes W :: "('c, 'w, 'f) word_layer"
  obtains
    (unanchored) "\<not> is_anchored (occurrence obs)"
      "decide_observation W obs t rv pins L = (note_answered obs (L\<lparr>kept_visible := kept_visible L + 1\<rparr>),
         KeepVisibleUnanchored (occurrence obs) t ZeroWidth)"
  | (duplicate) "is_anchored (occurrence obs)" "obs \<in> answered L"
      "decide_observation W obs t rv pins L = (note_answered obs L, Refuse (occurrence obs) BatchDuplicate)"
  | (formatter) "is_anchored (occurrence obs)" "obs \<notin> answered L" "producer obs = Formatter"
      "decide_observation W obs t rv pins L
        = (formatter_note obs t pins (note_answered obs L), Refuse (occurrence obs) AuthorityConflict)"
  | (sealed) "is_anchored (occurrence obs)" "obs \<notin> answered L" "producer obs \<notin> {Formatter, ManualHuman}"
      "is_sealed L (occurrence obs)"
      "decide_observation W obs t rv pins L = (note_answered obs L, Refuse (occurrence obs) SealedReplay)"
  | (pinned) p where "is_anchored (occurrence obs)" "obs \<notin> answered L" "producer obs \<noteq> Formatter" "\<not> pins"
      "decide_observation W obs t rv pins L = (note_answered obs L, Preserve (occurrence obs) p)"
  | (human) s where "is_anchored (occurrence obs)" "obs \<notin> answered L" "producer obs = ManualHuman"
      "map_of (seals L) (occurrence obs) = Some s"
      "decide_observation W obs t rv pins L = supersede_sealed obs t pins (lr_receipt_id s) (note_answered obs L)"
  | (empty) d where "is_anchored (occurrence obs)" "obs \<notin> answered L" "producer obs \<notin> {Formatter, ManualHuman}"
      "\<not> is_sealed L (occurrence obs)"
      "d = Refuse (occurrence obs) EmptyLabel \<or> (\<exists>p. d = Preserve (occurrence obs) p)"
      "decide_observation W obs t rv pins L = (note_answered obs L, d)"
  | (held) h where "is_anchored (occurrence obs)" "obs \<notin> answered L" "producer obs \<noteq> Formatter"
      "\<not> is_sealed L (occurrence obs)" "map_of (committed L) (occurrence obs) = Some h"
      "decide_observation W obs t rv pins L = decide_held W obs t rv pins h (note_answered obs L)"
  | (new) "is_anchored (occurrence obs)" "obs \<notin> answered L" "producer obs \<noteq> Formatter"
      "\<not> is_sealed L (occurrence obs)" "map_of (committed L) (occurrence obs) = None"
      "decide_observation W obs t rv pins L = decide_new obs t pins (note_answered obs L)"
proof -
  let ?L = "note_answered obs L" and ?x = "occurrence obs"
  let ?pinned = "\<not> pins \<and> (holds_word_pins ?L ?x \<or> slots_of ?L ?x = Some [] \<and> producer obs \<noteq> ManualHuman \<and> words_deleted ?L ?x)"
  have eq [simp]: "is_sealed ?L ?x = is_sealed L ?x" by (simp add: is_sealed_def frame_simps)
  note run = decide_observation_def [unfolded Let_def]
  consider "\<not> is_anchored ?x" | "is_anchored ?x" "obs \<in> answered L"
    | "is_anchored ?x" "obs \<notin> answered L" "producer obs = Formatter"
    | "is_anchored ?x" "obs \<notin> answered L" "producer obs \<noteq> Formatter" "is_sealed L ?x" "producer obs \<noteq> ManualHuman"
    | "is_anchored ?x" "obs \<notin> answered L" "producer obs \<noteq> Formatter" "\<not> (is_sealed L ?x \<and> producer obs \<noteq> ManualHuman)" ?pinned
    | s where "is_anchored ?x" "obs \<notin> answered L" "producer obs \<noteq> Formatter" "producer obs = ManualHuman" "\<not> ?pinned"
        "map_of (seals L) ?x = Some s"
    | "is_anchored ?x" "obs \<notin> answered L" "producer obs \<noteq> Formatter" "\<not> is_sealed L ?x" "\<not> ?pinned"
        "map_of (seals L) ?x = None" "trim t = [] \<and> producer obs \<noteq> ManualHuman"
    | "is_anchored ?x" "obs \<notin> answered L" "producer obs \<noteq> Formatter" "\<not> is_sealed L ?x" "\<not> ?pinned"
        "map_of (seals L) ?x = None" "\<not> (trim t = [] \<and> producer obs \<noteq> ManualHuman)"
    unfolding is_sealed_def by blast
  then show thesis
  proof cases
    case 1 then show thesis by (intro unanchored) (simp_all add: run)
  next
    case 2 then show thesis by (intro duplicate) (simp_all add: run)
  next
    case 3 then show thesis by (intro formatter) (simp_all add: run formatter_note_def)
  next
    case 4 then show thesis by (intro sealed) (simp_all add: run)
  next
    case 5 then show thesis by (intro pinned) (simp_all add: run)
  next
    case 6 then show thesis by (intro human) (auto simp: run frame_simps)
  next
    case 7
    show thesis
      by (rule empty [of "case map_of (committed L) ?x of Some held \<Rightarrow> Preserve ?x (co_producer held) | None \<Rightarrow> Refuse ?x EmptyLabel"])
        (use 7 in \<open>auto simp: run frame_simps split: option.split\<close>)
  next
    case 8 then show thesis
    proof (cases "map_of (committed L) ?x")
      case None with 8 show thesis by (intro new) (auto simp: run frame_simps)
    next
      case (Some h) with 8 show thesis by (intro held) (auto simp: run frame_simps)
    qed
  qed
qed

lemma formatter_note_frame [frame_simps]:
  "committed (formatter_note obs t pins L) = committed L"
  "physical (formatter_note obs t pins L) = physical L"
  "accounts (formatter_note obs t pins L) = accounts L"
  "answers (formatter_note obs t pins L) = answers L"
  "manual_edits (formatter_note obs t pins L) = manual_edits L"
  "documents (formatter_note obs t pins L) = documents L"
  "index_ok (formatter_note obs t pins L) = index_ok L"
  by (simp_all add: formatter_note_def frame_simps split: option.split)

lemma quiet_answered:
  "quiet obs L (note_answered obs L)" "quiet obs L (note_answered obs (L\<lparr>kept_visible := k\<rparr>))"
  "quiet obs L (formatter_note obs t pins (note_answered obs L))"
  by (simp_all add: quiet_simps formatter_note_frame)

lemma quiet_trans: "quiet obs L L' \<Longrightarrow> quiet obs L' L'' \<Longrightarrow> quiet obs L L''"
  by (simp add: quiet_def)

lemma decide_observation_quiet: "quiet obs L (fst (decide_observation W obs t rv pins L))"
  by (cases rule: decide_observation_cases [of obs W t rv pins L])
    (simp_all add: quiet_answered quiet_trans [OF quiet_answered(1)] supersede_sealed_quiet decide_held_quiet decide_new_quiet)

text \<open>The committed map changes at the observed occurrence only, and only for a receipt that grants it.\<close>

lemma supersede_sealed_grants: "grants_mutation (snd (supersede_sealed obs t pins s L))"
  by (simp add: supersede_sealed_def Let_def)

lemma supersede_sealed_effect:
  shows "grants_mutation (snd (supersede_sealed obs t pins s L))"
    and "\<exists>h. committed (fst (supersede_sealed obs t pins s L)) = om_insert (occurrence obs) h (committed L)"
  by (auto simp: supersede_sealed_def Let_def frame_simps)

lemma revise_label_effect:
  "let (L', d) = revise_label W obs t held L
   in about d = occurrence obs \<and> (if grants_mutation d then \<exists>h. committed L' = om_insert (occurrence obs) h (committed L)
      else committed L' = committed L \<and> is_Preserve d)"
  by (auto simp: revise_label_def Let_def frame_simps split: sum.split prod.split)

lemma decide_held_effect:
  "let (L', d) = decide_held W obs t rv pins held L
   in about d = occurrence obs \<and> (if grants_mutation d
      then (\<exists>h. committed L' = om_insert (occurrence obs) h (committed L))
        \<and> (authority_rank (producer obs) > authority_rank (co_producer held)
           \<or> producer obs = co_producer held \<and> generation obs > co_generation held \<or> rv)
      else committed L' = committed L)"
  using revise_label_effect [of W obs t held "note_covered_span (occurrence obs) L"]
  by (auto simp: decide_held_def Let_def frame_simps split: prod.splits)

lemma decide_new_effect:
  "let (L', d) = decide_new obs t pins L
   in about d = occurrence obs \<and> (if grants_mutation d
      then committed L' = om_insert (occurrence obs) (if pins then co_empty obs else from_label obs t) (committed L)
        \<and> (pins \<or> \<not> list_ex (\<lambda>c. is_Overlapping (relate (occurrence obs) c)) (om_keys (committed L)))
      else committed L' = committed L)"
  by (auto simp: decide_new_def Let_def frame_simps)

text \<open>When a receipt may change the committed map, and what the change is.\<close>

definition lawful :: "bool \<Rightarrow> bool \<Rightarrow> observation \<Rightarrow> ('c, 'w, 'f) ledger \<Rightarrow> ('c, 'w, 'f) ledger \<Rightarrow> mutation_receipt \<Rightarrow> bool" where
  "lawful rv pins obs L L' d \<longleftrightarrow> (let x = occurrence obs in
     about d = x \<and>
     (if grants_mutation d
      then is_anchored x \<and> obs \<notin> answered L \<and> producer obs \<noteq> Formatter
        \<and> (is_sealed L x \<longrightarrow> producer obs = ManualHuman)
        \<and> (\<exists>h. committed L' = om_insert x h (committed L))
        \<and> (case map_of (committed L) x of
             None \<Rightarrow> is_sealed L x \<or> pins \<or> \<not> list_ex (\<lambda>c. is_Overlapping (relate x c)) (om_keys (committed L))
           | Some held \<Rightarrow> is_sealed L x \<or> authority_rank (producer obs) > authority_rank (co_producer held)
               \<or> producer obs = co_producer held \<and> generation obs > co_generation held \<or> rv)
      else committed L' = committed L))"

lemma decide_observation_lawful:
  assumes "om_ok (committed L)" and "decide_observation W obs t rv pins L = (L', d)"
  shows "lawful rv pins obs L L' d"
proof -
  let ?L = "note_answered obs L"
  show ?thesis
  proof (cases rule: decide_observation_cases [of obs W t rv pins L])
    case (human s)
    have "grants_mutation d" "\<exists>h. committed L' = om_insert (occurrence obs) h (committed L)"
      using supersede_sealed_effect [of obs t pins "lr_receipt_id s" ?L] assms human(5) by (auto simp: frame_simps)
    moreover have "about d = occurrence obs"
      using assms(2) human(5) by (auto simp: supersede_sealed_def Let_def split: if_splits)
    ultimately show ?thesis using human by (auto simp: lawful_def Let_def is_sealed_def split: option.split)
  next
    case (held h)
    then show ?thesis using decide_held_effect [of W obs t rv pins h ?L] assms(2)
      by (auto simp: lawful_def Let_def frame_simps split: if_splits; metis)
  next
    case new
    then show ?thesis using decide_new_effect [of obs t pins ?L] assms(2)
      by (auto simp: lawful_def Let_def frame_simps split: if_splits; metis)
  next
    case (empty d')
    then show ?thesis using assms(2) by (auto simp: lawful_def Let_def frame_simps)
  qed (use assms(2) in \<open>auto simp: lawful_def Let_def frame_simps\<close>)
qed

subsection \<open>What a batch changes\<close>

text \<open>\<open>record_individual\<close> and the operation folds touch the slot history only.\<close>

definition slot_history_only :: "('c, 'w, 'f) ledger \<Rightarrow> ('c, 'w, 'f) ledger \<Rightarrow> bool" where
  "slot_history_only L L' \<longleftrightarrow> committed L' = committed L \<and> answers L' = answers L \<and> physical L' = physical L \<and> accounts L' = accounts L
     \<and> manual_edits L' = manual_edits L \<and> documents L' = documents L \<and> (index_ok L \<longrightarrow> index_ok L')"

lemma slot_history_only_refl [simp]: "slot_history_only L L"
  by (simp add: slot_history_only_def)

lemma slot_history_only_trans: "slot_history_only L L' \<Longrightarrow> slot_history_only L' L'' \<Longrightarrow> slot_history_only L L''"
  by (simp add: slot_history_only_def)

lemma slot_history_only_ops:
  "slot_history_only L (record_slot_operation r L)" "slot_history_only L (retain_slot_alternative obs t s y L)"
  "slot_history_only L (record_measured_source W obs output L)"
  by (simp_all add: slot_history_only_def frame_simps index_ok_record record_measured_source_def split: list.split)

lemma slot_history_only_fold: "(\<And>x L. slot_history_only L (f x L)) \<Longrightarrow> slot_history_only L (fold f xs L)"
  by (induction xs arbitrary: L) (auto intro: slot_history_only_trans)

lemma record_individual_only: "slot_history_only L (fst (record_individual W obs ops output (L, retired)))"
  by (simp add: record_individual_def Let_def slot_history_only_ops)

lemma record_individual_fold: "slot_history_only L (fst (fold (record_individual W obs ops) outputs (L, retired)))"
proof (induction outputs arbitrary: L retired)
  case (Cons w ws)
  obtain L1 r1 where r: "record_individual W obs ops w (L, retired) = (L1, r1)" by (cases "record_individual W obs ops w (L, retired)")
  then have "slot_history_only L L1" using record_individual_only [of L W obs ops w retired] by simp
  with Cons [of L1 r1] show ?case by (auto simp: r intro: slot_history_only_trans)
qed simp

text \<open>Applying slots rewrites the entry of the observed occurrence, if there is one, and nothing else
  of the committed map.\<close>

definition same_elsewhere :: "occurrence \<Rightarrow> ('c, 'w, 'f) ledger \<Rightarrow> ('c, 'w, 'f) ledger \<Rightarrow> bool" where
  "same_elsewhere x L L' \<longleftrightarrow> answers L' = answers L \<and> physical L' = physical L \<and> accounts L' = accounts L \<and> manual_edits L' = manual_edits L
     \<and> documents L' = documents L \<and> (index_ok L \<longrightarrow> index_ok L')
     \<and> (committed L' = committed L \<or> map_of (committed L) x \<noteq> None \<and> (\<exists>h. committed L' = om_insert x h (committed L)))"

lemma same_elsewhere_refl [simp]: "same_elsewhere x L L"
  by (simp add: same_elsewhere_def)

lemma place_slots_elsewhere: "same_elsewhere (occurrence obs) L (place_slots obs retired ops slots L)"
  by (auto simp: place_slots_def Let_def same_elsewhere_def frame_simps split: option.split)

lemma same_elsewhere_after: "slot_history_only L L' \<Longrightarrow> same_elsewhere x L' L'' \<Longrightarrow> same_elsewhere x L L''"
  by (auto simp: slot_history_only_def same_elsewhere_def)

lemma same_elsewhere_before: "same_elsewhere x L L' \<Longrightarrow> slot_history_only L' L'' \<Longrightarrow> same_elsewhere x L L''"
  by (auto simp: slot_history_only_def same_elsewhere_def)

lemma same_elsewhere_words: "same_elsewhere x L L' \<Longrightarrow> same_elsewhere x L (L'\<lparr>words := w\<rparr>)"
  by (auto simp: same_elsewhere_def frame_simps)

lemma apply_slots_elsewhere: "same_elsewhere (occurrence obs) L (apply_slots W obs slots ops L)"
proof -
  define L1 where "L1 = (case slots of None \<Rightarrow> L
    | Some proposed \<Rightarrow>
        let held = unwrap_or [] (slots_of L (occurrence obs));
            stamped = stamp_groups (unicode_tables W) obs (witness_groups W L held ops proposed) proposed
        in case fold (record_individual W obs ops) stamped (L, []) of
             (L, retired) \<Rightarrow> place_slots obs retired ops stamped L)"
  have "same_elsewhere (occurrence obs) L L1"
  proof (cases slots)
    case None
    then show ?thesis by (simp add: L1_def same_elsewhere_def)
  next
    case (Some proposed)
    show ?thesis
      unfolding L1_def Some option.case Let_def case_prod_beta
      by (rule same_elsewhere_after [OF record_individual_fold place_slots_elsewhere])
  qed
  moreover have "slot_history_only L1 (fold (record_measured_source W obs) children (fold record_slot_operation ops L1))" for children
    by (rule slot_history_only_trans; rule slot_history_only_fold; rule slot_history_only_ops)
  ultimately show ?thesis
    unfolding apply_slots_def Let_def L1_def [symmetric, unfolded Let_def]
    by (intro same_elsewhere_words) (rule same_elsewhere_before)
qed

lemma retain_whole_label_only: "slot_history_only L (retain_whole_label obs t slots L)"
  by (auto simp: retain_whole_label_def Let_def intro: slot_history_only_trans slot_history_only_ops)

lemma reconcile_frame [frame_simps]:
  "committed (reconcile_returned_word_debt W x L) = committed L"
  "physical (reconcile_returned_word_debt W x L) = physical L"
  "accounts (reconcile_returned_word_debt W x L) = accounts L"
  "answers (reconcile_returned_word_debt W x L) = answers L"
  "manual_edits (reconcile_returned_word_debt W x L) = manual_edits L"
  "documents (reconcile_returned_word_debt W x L) = documents L"
  "index_ok (reconcile_returned_word_debt W x L) = index_ok L"
  by (simp_all add: reconcile_returned_word_debt_def Let_def frame_simps)

lemma settle_debt_only: "slot_history_only L (settle_debt W obs a wo rv d L)"
  by (simp add: settle_debt_def Let_def slot_history_only_def frame_simps)

subsection \<open>Accounts\<close>

text \<open>One offer was booked: one receipt, stored once, and either delivered or named.\<close>

definition booked :: "observation \<Rightarrow> ('c, 'w, 'f) ledger \<Rightarrow> ('c, 'w, 'f) ledger \<Rightarrow> mutation_receipt \<Rightarrow> bool" where
  "booked obs L L' d \<longleftrightarrow>
     offered_observations L' = offered_observations L + 1 \<and> issued_receipts L' = issued_receipts L + 1
     \<and> delivered_observations L' + sum_list (map snd (named_refusals L'))
         = delivered_observations L + sum_list (map snd (named_refusals L)) + 1
     \<and> om_ok (named_refusals L')
     \<and> (\<exists>e. trail L' = trail L @ [e] \<and> ld_ordinal e = length (trail L) \<and> ld_observation e = obs \<and> ld_decision e = d)"

lemma booked_record:
  assumes "accounts L1 = accounts (offer L)" and "om_ok (named_refusals L)"
  shows "booked obs L (record_layer_decision obs t d b L1) d"
proof -
  have a: "offered_observations L1 = offered_observations L + 1" "issued_receipts L1 = issued_receipts L"
    "delivered_observations L1 = delivered_observations L" "named_refusals L1 = named_refusals L" "trail L1 = trail L"
    using assms(1) by (simp_all add: accounts_def offer_def)
  with assms(2) have "om_ok (named_refusals L1)" by simp
  from record_layer_decision_sum [OF this, of obs t d b] record_layer_decision_trail [of obs t d b L1] a
  show ?thesis by (auto simp: booked_def frame_simps)
qed

lemma booked_cong:
  assumes "accounts L = accounts L0" and "accounts L' = accounts L1"
  shows "booked obs L L' d = booked obs L0 L1 d"
  using assms by (simp add: booked_def accounts_def)

lemma offer_frame [frame_simps]:
  "committed (offer L) = committed L" "physical (offer L) = physical L" "answers (offer L) = answers L"
  "manual_edits (offer L) = manual_edits L" "documents (offer L) = documents L" "index_ok (offer L) = index_ok L"
  "answered (offer L) = answered L" "seals (offer L) = seals L" "owner_histories (offer L) = owner_histories L"
  by (simp_all add: offer_def physical_def answers_def documents_def index_ok_def)

lemma record_decision_frames [frame_simps]:
  "documents (record_layer_decision obs t d b L) = documents L"
  "index_ok (record_layer_decision obs t d b L) = index_ok L"
proof -
  have "documents (fst (note_clock_lie obs d L)) = documents L"
    by (simp add: note_clock_lie_def Let_def documents_def split: option.split)
  then show "documents (record_layer_decision obs t d b L) = documents L"
    by (simp add: record_layer_decision_def Let_def case_prod_beta count_decision_def documents_def split: option.split)
  show "index_ok (record_layer_decision obs t d b L) = index_ok L"
    by (simp add: index_ok_def frame_simps)
qed

text \<open>A human edit of a sealed label leaves its receipt; nothing else does.\<close>

definition edit_receipts :: "observation \<Rightarrow> ('c, 'w, 'f) ledger \<Rightarrow> mutation_receipt \<Rightarrow> manual_edit list \<Rightarrow> bool" where
  "edit_receipts obs L d ms \<longleftrightarrow>
     (case map_of (seals L) (occurrence obs) of
        Some s \<Rightarrow> if grants_mutation d
                  then \<exists>m. ms = [m] \<and> me_occurrence m = occurrence obs \<and> me_observation m = obs
                    \<and> me_supersedes_seal m = lr_receipt_id s \<and> me_superseded_label m = unwrap_or [] (text_of L (occurrence obs))
                  else ms = []
      | None \<Rightarrow> ms = [])"

text \<open>What admission as a whole may do: the effect of a lawful decision, booked, with the physical
  facts, the document receipts and the slot index as they were.\<close>

definition history_step :: "observation \<Rightarrow> ('c, 'w, 'f) ledger \<Rightarrow> ('c, 'w, 'f) ledger \<Rightarrow> bool" where
  "history_step obs L L' \<longleftrightarrow> answered L' = insert obs (answered L)
     \<and> (om_ok (owner_histories L) \<longrightarrow> om_ok (owner_histories L') \<and> (\<exists>h. map_of (owner_histories L') = (map_of (owner_histories L))(occurrence obs \<mapsto> h)
         \<and> oh_answered h = oh_answered (unwrap_or empty_owner (map_of (owner_histories L) (occurrence obs))) + 1
         \<and> oh_ordinals h = oh_ordinals (unwrap_or empty_owner (map_of (owner_histories L) (occurrence obs))) @ [length (trail L)]))"

definition admitted :: "bool \<Rightarrow> bool \<Rightarrow> observation \<Rightarrow> ('c, 'w, 'f) ledger \<Rightarrow> ('c, 'w, 'f) ledger \<Rightarrow> mutation_receipt \<Rightarrow> bool" where
  "admitted rv pins obs L L' d \<longleftrightarrow>
     booked obs L L' d \<and> physical L' = physical L \<and> documents L' = documents L \<and> (index_ok L \<longrightarrow> index_ok L')
     \<and> history_step obs L L' \<and> om_ok (committed L')
     \<and> (\<exists>ms. manual_edits L' = manual_edits L @ ms \<and> edit_receipts obs L d ms)
     \<and> about d = occurrence obs
     \<and> (if grants_mutation d
        then is_anchored (occurrence obs) \<and> obs \<notin> answered L \<and> producer obs \<noteq> Formatter
          \<and> (is_sealed L (occurrence obs) \<longrightarrow> producer obs = ManualHuman)
          \<and> (\<exists>h. map_of (committed L') = (map_of (committed L))(occurrence obs \<mapsto> h))
          \<and> (case map_of (committed L) (occurrence obs) of
               None \<Rightarrow> is_sealed L (occurrence obs) \<or> pins \<or> \<not> list_ex (\<lambda>c. is_Overlapping (relate (occurrence obs) c)) (om_keys (committed L))
             | Some held \<Rightarrow> is_sealed L (occurrence obs) \<or> authority_rank (producer obs) > authority_rank (co_producer held)
                 \<or> producer obs = co_producer held \<and> generation obs > co_generation held \<or> rv)
        else committed L' = committed L \<or> rv \<and> pins \<and> is_Preserve d \<and> \<not> is_sealed L (occurrence obs)
               \<and> producer obs \<noteq> Formatter \<and> map_of (committed L) (occurrence obs) \<noteq> None
               \<and> (\<exists>h. map_of (committed L') = (map_of (committed L))(occurrence obs \<mapsto> h)))"

lemma record_decision_history:
  assumes "answers L1 = answers (note_answered obs L)" and "trail L1 = trail L"
  shows "history_step obs L (record_layer_decision obs t d b L1)"
proof -
  have a: "answered L1 = insert obs (answered L)" "owner_histories L1 = owner_histories (note_answered obs L)"
    using assms(1) by (simp_all add: answers_def frame_simps)
  have "owner_histories (record_layer_decision obs t d b L1)
      = om_adjust (occurrence obs) empty_owner (\<lambda>h. h\<lparr>oh_ordinals := oh_ordinals h @ [length (trail L)]\<rparr>) (owner_histories L1)"
    by (simp add: record_layer_decision_def Let_def case_prod_beta frame_simps assms(2))
  then have eq: "owner_histories (record_layer_decision obs t d b L1)
      = om_adjust (occurrence obs) empty_owner (\<lambda>h. h\<lparr>oh_ordinals := oh_ordinals h @ [length (trail L)]\<rparr>)
          (om_adjust (occurrence obs) empty_owner (\<lambda>owner. owner\<lparr>oh_answered := oh_answered owner + 1,
             oh_producers := om_adjust (producer obs) empty_history (note_history obs) (oh_producers owner)\<rparr>) (owner_histories L))"
    by (simp add: a note_answered_def)
  show ?thesis unfolding history_step_def
  proof (intro conjI impI)
    show "answered (record_layer_decision obs t d b L1) = insert obs (answered L)" by (simp add: a frame_simps)
    assume ok: "om_ok (owner_histories L)"
    then show "om_ok (owner_histories (record_layer_decision obs t d b L1))" by (simp add: eq)
    let ?o = "unwrap_or empty_owner (map_of (owner_histories L) (occurrence obs))"
    show "\<exists>h. map_of (owner_histories (record_layer_decision obs t d b L1)) = (map_of (owner_histories L))(occurrence obs \<mapsto> h)
        \<and> oh_answered h = oh_answered ?o + 1 \<and> oh_ordinals h = oh_ordinals ?o @ [length (trail L)]"
      by (rule exI [of _ "?o\<lparr>oh_answered := oh_answered ?o + 1,
          oh_producers := om_adjust (producer obs) empty_history (note_history obs) (oh_producers ?o),
          oh_ordinals := oh_ordinals ?o @ [length (trail L)]\<rparr>"]) (simp add: eq ok)
  qed
qed

lemma seals_of_physical: "physical L' = physical L \<Longrightarrow> is_sealed L' x = is_sealed L x"
  by (simp add: physical_def is_sealed_def)

lemma decider_answers [frame_simps]:
  "answers (fst (supersede_sealed obs t pins s L)) = answers L"
  "answers (fst (revise_label W obs t held L)) = answers L"
  "answers (fst (decide_held W obs t rv pins held L)) = answers L"
  "answers (fst (decide_new obs t pins L)) = answers L"
proof -
  show revise: "answers (fst (revise_label W obs t held L)) = answers L" for L
    by (simp add: revise_label_def frame_simps Let_def split: sum.split prod.split)
  show "answers (fst (decide_held W obs t rv pins held L)) = answers L"
    by (simp add: decide_held_def Let_def frame_simps revise)
qed (simp_all add: supersede_sealed_def decide_new_def Let_def frame_simps)

lemma answered_of_answers: "answers L' = answers L \<Longrightarrow> answered L' = answered L"
  by (simp add: answers_def)

lemma answers_kept: "answers (note_answered obs (L\<lparr>kept_visible := k\<rparr>)) = answers (note_answered obs L)"
  by (simp add: answers_def note_answered_def)

lemma decide_observation_answers: "answers (fst (decide_observation W obs t rv pins L)) = answers (note_answered obs L)"
  by (cases rule: decide_observation_cases [of obs W t rv pins L])
    (simp_all add: decider_answers formatter_note_frame answers_kept)

lemma decide_observation_preserve:
  assumes "is_Preserve (snd (decide_observation W obs t rv True L))"
  shows "producer obs \<noteq> Formatter \<and> \<not> is_sealed L (occurrence obs)"
proof (cases rule: decide_observation_cases [of obs W t rv True L])
  case (human s)
  then show ?thesis using assms by (simp add: supersede_sealed_def Let_def split: if_splits)
qed (use assms in auto)

lemma decider_edits [frame_simps]:
  "manual_edits (fst (revise_label W obs t held L)) = manual_edits L"
  "manual_edits (fst (decide_held W obs t rv pins held L)) = manual_edits L"
  "manual_edits (fst (decide_new obs t pins L)) = manual_edits L"
proof -
  show revise: "manual_edits (fst (revise_label W obs t held L)) = manual_edits L" for L
    by (simp add: revise_label_def frame_simps Let_def split: sum.split prod.split)
  show "manual_edits (fst (decide_held W obs t rv pins held L)) = manual_edits L"
    by (simp add: decide_held_def Let_def frame_simps revise)
qed (simp_all add: decide_new_def Let_def frame_simps)

lemma decide_observation_edits:
  assumes "decide_observation W obs t rv pins L = (L', d)"
  shows "\<exists>ms. manual_edits L' = manual_edits L @ ms \<and> edit_receipts obs L d ms"
proof (cases rule: decide_observation_cases [of obs W t rv pins L])
  case (human s)
  have "grants_mutation d" using supersede_sealed_grants [of obs t pins "lr_receipt_id s" "note_answered obs L"] assms human(5) by simp
  then show ?thesis
    using assms human(4,5)
    by (auto simp: supersede_sealed_def Let_def edit_receipts_def frame_simps text_of_def split: option.splits if_splits)
next
  case (held h)
  then have "L' = fst (decide_held W obs t rv pins h (note_answered obs L))" using assms by (metis fst_conv)
  then show ?thesis using held(4) by (simp add: edit_receipts_def is_sealed_def frame_simps)
next
  case new
  then have "L' = fst (decide_new obs t pins (note_answered obs L))" using assms by (metis fst_conv)
  then show ?thesis using new(4) by (simp add: edit_receipts_def is_sealed_def frame_simps)
next
  case (empty d')
  then show ?thesis using assms by (auto simp: edit_receipts_def frame_simps split: option.split)
qed (use assms in \<open>auto simp: edit_receipts_def frame_simps split: option.split\<close>)

lemma apply_slots_None: "committed (apply_slots W obs None ops L) = committed L"
proof -
  have "slot_history_only L (fold (record_measured_source W obs) children (fold record_slot_operation ops L))" for children
    by (rule slot_history_only_trans; rule slot_history_only_fold; rule slot_history_only_ops)
  then show ?thesis by (simp add: apply_slots_def Let_def slot_history_only_def)
qed

lemma preserve_batch_admitted:
  assumes "om_ok (named_refusals L)" and "om_ok (committed L)"
  shows "admitted rv pins obs L (fst (preserve_batch obs t L)) (snd (preserve_batch obs t L))"
proof -
  have "answers (note_answered obs (offer L)) = answers (note_answered obs L)" "trail (note_answered obs (offer L)) = trail L"
    by (simp_all add: answers_def note_answered_def offer_def)
  from record_decision_history [OF this]
  show ?thesis
    using booked_record [of "note_answered obs (offer L)" L obs t] assms
    by (simp add: preserve_batch_def Let_def admitted_def frame_simps edit_receipts_def split: option.split)
qed

lemma admit_kept_admitted:
  assumes ok: "om_ok (named_refusals L)" "om_ok (committed L)"
    and run: "admit_kept W obs t slots rv ops L = (L', d)"
  shows "admitted rv (slots \<noteq> None) obs L L' d"
proof -
  define L2 where "L2 = retain_whole_label obs t slots (offer L)"
  obtain L3 where dec: "decide_observation W obs t rv (slots \<noteq> None) L2 = (L3, d)"
    using run by (auto simp: admit_kept_def Let_def L2_def split: prod.splits)
  define L4 where "L4 = (if grants_mutation d \<or> rv \<and> is_Preserve d then apply_slots W obs slots ops L3 else L3)"
  define L5 where "L5 = record_layer_decision obs t d None L4"
  obtain a where L': "L' = settle_debt W obs a (slots = None \<and> \<not> rv) rv d L5"
    using run dec by (auto simp: admit_kept_def Let_def L2_def L4_def L5_def split: prod.splits if_splits)
  have h2: "slot_history_only (offer L) L2" using retain_whole_label_only by (simp add: L2_def)
  then have s2: "committed L2 = committed L" "answered L2 = answered L" "physical L2 = physical L"
      "accounts L2 = accounts (offer L)" "documents L2 = documents L" "index_ok L \<longrightarrow> index_ok L2"
    using answered_of_answers [of L2 "offer L"] by (simp_all add: slot_history_only_def frame_simps)
  have q3: "quiet obs L2 L3" using decide_observation_quiet [of obs L2 W t rv "slots \<noteq> None"] dec by simp
  have a3: "answers L3 = answers (note_answered obs L)"
    using decide_observation_answers [of W obs t rv "slots \<noteq> None" L2] dec h2
    by (simp add: slot_history_only_def frame_simps note_answered_def answers_def)
  obtain ms where m3: "manual_edits L3 = manual_edits L2 @ ms" "edit_receipts obs L2 d ms"
    using decide_observation_edits [OF dec] by blast
  have law: "lawful rv (slots \<noteq> None) obs L2 L3 d" using decide_observation_lawful [OF _ dec] ok s2 by simp
  have e4: "same_elsewhere (occurrence obs) L3 L4"
    by (simp add: L4_def apply_slots_elsewhere)
  have h6: "slot_history_only L5 L'" using settle_debt_only by (simp add: L')
  have sealed: "is_sealed L2 x = is_sealed L x" for x using s2 seals_of_physical by blast
  have keep: "producer obs \<noteq> Formatter \<and> \<not> is_sealed L (occurrence obs)" if "is_Preserve d" "slots \<noteq> None"
    using decide_observation_preserve [of W obs t rv L2] dec that sealed by simp
  have "accounts L4 = accounts (offer L)" using s2 q3 e4 by (simp add: quiet_def same_elsewhere_def)
  then have "booked obs L L5 d" using booked_record ok by (simp add: L5_def)
  then have b: "booked obs L L' d" using h6 booked_cong [OF refl, of L' L5] by (simp add: slot_history_only_def)
  have "trail L4 = trail L" using s2 q3 e4 by (simp add: quiet_def same_elsewhere_def accounts_def offer_def)
  then have "history_step obs L L5"
    using record_decision_history [of L4 obs L t d None] a3 e4 by (simp add: same_elsewhere_def L5_def)
  then have hist: "history_step obs L L'"
    using h6 by (simp add: history_step_def slot_history_only_def answers_def)
  have edits: "manual_edits L' = manual_edits L @ ms \<and> edit_receipts obs L d ms"
  proof
    show "manual_edits L' = manual_edits L @ ms"
      using h2 m3 e4 h6 by (simp add: slot_history_only_def same_elsewhere_def L5_def frame_simps)
    have "seals L2 = seals L" using s2(3) by (simp add: physical_def)
    then show "edit_receipts obs L d ms" using m3 unfolding edit_receipts_def text_of_def s2(1) by simp
  qed
  have same: "physical L' = physical L" "documents L' = documents L" "index_ok L \<longrightarrow> index_ok L'" "history_step obs L L'"
      "committed L' = committed L4"
    using s2 q3 e4 h6 hist
    by (auto simp: quiet_def same_elsewhere_def slot_history_only_def L5_def frame_simps)
  have c3: "om_ok (committed L3) \<and> (grants_mutation d \<longrightarrow> (\<exists>h. committed L3 = om_insert (occurrence obs) h (committed L)))
      \<and> (\<not> grants_mutation d \<longrightarrow> committed L3 = committed L)"
    using law ok(2) s2(1) by (cases "grants_mutation d") (auto simp: lawful_def Let_def)
  have c4: "committed L' = (if grants_mutation d \<or> rv \<and> is_Preserve d \<and> slots \<noteq> None then committed L4 else committed L)"
    using c3 same(5) apply_slots_None [of W obs ops L3] by (auto simp: L4_def)
  have upd: "om_ok (committed L') \<and> (grants_mutation d \<longrightarrow> (\<exists>h. map_of (committed L') = (map_of (committed L))(occurrence obs \<mapsto> h)))
      \<and> (\<not> grants_mutation d \<longrightarrow> committed L' = committed L
            \<or> map_of (committed L) (occurrence obs) \<noteq> None \<and> (\<exists>h. map_of (committed L') = (map_of (committed L))(occurrence obs \<mapsto> h)))"
  proof -
    have e: "committed L' = committed L3 \<or> map_of (committed L3) (occurrence obs) \<noteq> None
        \<and> (\<exists>h. map_of (committed L') = (map_of (committed L3))(occurrence obs \<mapsto> h)) \<and> om_ok (committed L')"
      using e4 c3 same(5) by (auto simp: same_elsewhere_def)
    show ?thesis
    proof (cases "grants_mutation d")
      case True
      then obtain h where "map_of (committed L3) = (map_of (committed L))(occurrence obs \<mapsto> h)"
        using c3 ok(2) by auto
      with e c3 True show ?thesis by (metis fun_upd_upd)
    next
      case False
      with e c3 show ?thesis by metis
    qed
  qed
  note law' = law [unfolded lawful_def Let_def s2(1,2) sealed]
  show ?thesis
  proof (cases "grants_mutation d")
    case True
    with b same(1-4) upd law' edits show ?thesis unfolding admitted_def by simp
  next
    case False
    then have "committed L' = committed L \<or> rv \<and> slots \<noteq> None \<and> is_Preserve d
        \<and> map_of (committed L) (occurrence obs) \<noteq> None
        \<and> (\<exists>h. map_of (committed L') = (map_of (committed L))(occurrence obs \<mapsto> h))"
      using upd c4 by (cases "rv \<and> is_Preserve d \<and> slots \<noteq> None") auto
    with False b same(1-4) upd law' keep edits show ?thesis unfolding admitted_def by (simp only: if_False) blast
  qed
qed

lemma admitted_after:
  assumes "slot_history_only L0 L" and "admitted rv pins obs L L' d"
  shows "admitted rv pins obs L0 L' d"
proof -
  have s: "committed L = committed L0" "answered L = answered L0" "physical L = physical L0" "accounts L = accounts L0"
      "documents L = documents L0" "manual_edits L = manual_edits L0"
      "owner_histories L = owner_histories L0" "trail L = trail L0" "seals L = seals L0"
    using assms(1) by (simp_all add: slot_history_only_def answers_def accounts_def physical_def)
  have i: "index_ok L0 \<longrightarrow> index_ok L" using assms(1) by (simp add: slot_history_only_def)
  have sealed: "is_sealed L x = is_sealed L0 x" for x by (simp add: is_sealed_def s)
  have e: "edit_receipts obs L d ms = edit_receipts obs L0 d ms" for ms unfolding edit_receipts_def text_of_def s ..
  have h: "history_step obs L L' = history_step obs L0 L'" by (simp add: history_step_def s)
  from assms(2) i booked_cong [OF s(4) refl, of obs L' d] show ?thesis
    unfolding admitted_def sealed s e h by blast
qed

lemma admitted_pins: "admitted rv pins obs L L' d \<Longrightarrow> (pins \<longrightarrow> pins') \<Longrightarrow> admitted rv pins' obs L L' d"
  by (auto simp: admitted_def split: option.splits)

lemma withhold_lower_only:
  "slot_history_only L (fst (withhold_lower_authority_over_speech W obs slots ops L))"
  "fst (snd (withhold_lower_authority_over_speech W obs slots ops L)) \<noteq> None \<longleftrightarrow> slots \<noteq> None"
  by (auto simp: withhold_lower_authority_over_speech_def Let_def slot_history_only_ops split: option.split prod.split)

lemma withhold_unproven_only:
  "slot_history_only L (fst (withhold_unproven_retirements obs slots ops blocked L))"
  "snd (withhold_unproven_retirements obs slots ops blocked L) \<noteq> None \<Longrightarrow> slots \<noteq> None"
  by (auto simp: withhold_unproven_retirements_def Let_def slot_history_only_ops split: option.splits)

lemma ok_after:
  assumes "slot_history_only L L1" and "om_ok (named_refusals L)" and "om_ok (committed L)"
  shows "om_ok (named_refusals L1)" "om_ok (committed L1)"
  using assms by (simp_all add: slot_history_only_def accounts_def)

lemma admit_slot_batch_admitted:
  assumes ok: "om_ok (named_refusals L)" "om_ok (committed L)"
    and run: "admit_slot_batch W obs t slots rv ops L = (L', d)"
  shows "admitted rv (slots \<noteq> None) obs L L' d"
proof -
  obtain L1 slots1 ops1 label where
    w: "withhold_lower_authority_over_speech W obs slots ops L = (L1, slots1, ops1, label)"
    by (cases "withhold_lower_authority_over_speech W obs slots ops L") auto
  have h1: "slot_history_only L L1" and s1: "slots1 \<noteq> None \<longleftrightarrow> slots \<noteq> None"
    using withhold_lower_only [where L = L and W = W and obs = obs and slots = slots and ops = ops] by (simp_all add: w)
  note ok1 = ok_after [OF h1 ok]
  let ?blocked = "blocked_sources W obs slots1 ops1 L1"
  consider (nothing) "preserve_batch obs t L1 = (L', d)"
    | (free) "admit_kept W obs (unwrap_or t label) slots1 rv ops1 L1 = (L', d)"
    | (kept) L2 k l where "withhold_unproven_retirements obs slots1 ops1 ?blocked L1 = (L2, Some (k, l))"
        "admit_kept W obs l (Some k) rv [] L2 = (L', d)"
    | (blocked) L2 t' y where "withhold_unproven_retirements obs slots1 ops1 ?blocked L1 = (L2, None)"
        "preserve_batch obs t' (retain_slot_alternative obs t' ?blocked y L2) = (L', d)"
    using run by (auto simp: admit_slot_batch_def w Let_def split: if_splits prod.splits option.splits)
  then have "admitted rv (slots1 \<noteq> None) obs L1 L' d"
  proof cases
    case nothing
    then show ?thesis using preserve_batch_admitted [OF ok1, of rv "slots1 \<noteq> None" obs t] by simp
  next
    case free
    then show ?thesis using admit_kept_admitted [OF ok1] by blast
  next
    case kept
    have h2: "slot_history_only L1 L2" and "slots1 \<noteq> None"
      using withhold_unproven_only [where L = L1 and obs = obs and slots = slots1 and ops = ops1 and blocked = ?blocked] kept(1) by simp_all
    then show ?thesis
      using admitted_after [OF h2 admit_kept_admitted [OF ok_after [OF h2 ok1] kept(2)]] by simp
  next
    case blocked
    let ?L3 = "retain_slot_alternative obs t' ?blocked y L2"
    have "slot_history_only L1 L2" using withhold_unproven_only(1) [of L1 obs slots1 ops1 ?blocked] blocked(1) by simp
    then have h3: "slot_history_only L1 ?L3" using slot_history_only_ops(2) slot_history_only_trans by blast
    have "admitted rv (slots1 \<noteq> None) obs ?L3 L' d"
      using preserve_batch_admitted [OF ok_after [OF h3 ok1], of rv "slots1 \<noteq> None" obs t'] blocked(2) by simp
    then show ?thesis by (rule admitted_after [OF h3])
  qed
  with h1 have "admitted rv (slots1 \<noteq> None) obs L L' d" by (rule admitted_after)
  then show ?thesis using s1 by simp
qed

text \<open>The answers that never mutate are booked the same way.\<close>

lemma answer_admitted:
  assumes ok: "om_ok (named_refusals L)" "om_ok (committed L)"
    and same: "answers L1 = answers (note_answered obs L)" "accounts L1 = accounts (offer L)" "physical L1 = physical L"
      "documents L1 = documents L" "index_ok L \<longrightarrow> index_ok L1" "manual_edits L1 = manual_edits L" "committed L1 = committed L"
    and d: "about d = occurrence obs" "\<not> grants_mutation d"
  shows "admitted rv pins obs L (record_layer_decision obs t d b L1) d"
proof -
  have "trail L1 = trail L" using same(2) by (simp add: accounts_def offer_def)
  with record_decision_history [OF same(1)] booked_record [OF same(2) ok(1)] same ok d
  show ?thesis by (simp add: admitted_def frame_simps edit_receipts_def split: option.split)
qed

lemma answers_offered: "answers (note_answered obs (offer L)) = answers (note_answered obs L)"
  by (simp add: answers_def note_answered_def offer_def)

lemma keep_visible_admitted:
  assumes ok: "om_ok (named_refusals L)" "om_ok (committed L)" and run: "keep_visible_unanchored obs t why L = (L', d)"
  shows "admitted rv pins obs L L' d"
proof -
  let ?L1 = "note_answered obs ((offer L)\<lparr>kept_visible := kept_visible L + 1\<rparr>)"
  have "admitted rv pins obs L (record_layer_decision obs t (KeepVisibleUnanchored (occurrence obs) t why) None ?L1)
      (KeepVisibleUnanchored (occurrence obs) t why)"
    by (rule answer_admitted [OF ok]) (simp_all add: frame_simps answers_kept answers_offered)
  then show ?thesis using run by (auto simp: keep_visible_unanchored_def Let_def)
qed

lemma refuse_replacement_admitted:
  assumes ok: "om_ok (named_refusals L)" "om_ok (committed L)" and run: "refuse_replacement obs t why L = (L', d)"
  shows "admitted rv pins obs L L' d"
proof -
  have "about d = occurrence obs" "\<not> grants_mutation d"
    and L': "L' = record_layer_decision obs t d None (note_answered obs (offer L))"
    using run by (auto simp: refuse_replacement_def Let_def split: option.splits if_splits)
  then show ?thesis unfolding L' by (intro answer_admitted [OF ok]) (simp_all add: frame_simps answers_offered)
qed

subsection \<open>Conservation\<close>

lemma admit_admitted:
  assumes "om_ok (named_refusals L)" "om_ok (committed L)" and "admit W obs t L = (L', d)"
  shows "admitted False False obs L L' d"
  using admit_slot_batch_admitted [OF assms(1,2), of W obs t None False "[]" L' d] assms(3)
  by (simp add: admit_def admit_with_slots_def)

lemma admitted_ok: "admitted rv pins obs L L' d \<Longrightarrow> om_ok (named_refusals L') \<and> om_ok (committed L')"
  by (simp add: admitted_def booked_def)

lemma admit_items_booked:
  assumes "om_ok (named_refusals L)" "om_ok (committed L)" and "admit_items W items L = (L', rs)"
  shows "om_ok (named_refusals L') \<and> om_ok (committed L') \<and> length rs = length items
    \<and> offered_observations L' = offered_observations L + length items
    \<and> issued_receipts L' = issued_receipts L + length items
    \<and> delivered_observations L' + sum_list (map snd (named_refusals L'))
        = delivered_observations L + sum_list (map snd (named_refusals L)) + length items
    \<and> map ld_decision (trail L') = map ld_decision (trail L) @ rs
    \<and> map ld_observation (trail L') = map ld_observation (trail L) @ map fst items"
  using assms
proof (induction items arbitrary: L L' rs)
  case (Cons item items)
  obtain obs t where item: "item = (obs, t)" by fastforce
  obtain L1 r where first: "admit W obs t L = (L1, r)" by fastforce
  obtain rs' where rest: "admit_items W items L1 = (L', rs')" and rs: "rs = r # rs'"
    using Cons.prems(3) first by (auto simp: item split: prod.splits)
  have adm: "admitted False False obs L L1 r" by (rule admit_admitted [OF Cons.prems(1,2) first])
  then have b: "booked obs L L1 r" by (simp add: admitted_def)
  have ok: "om_ok (named_refusals L1)" "om_ok (committed L1)" using admitted_ok [OF adm] by simp_all
  show ?case using Cons.IH [OF ok rest] b by (auto simp: booked_def item rs)
qed simp

text \<open>Conservation. Offering any batch to a fresh ledger yields one receipt per item, in input order;
  the decision trail holds exactly these receipts with the observations they answer; the offer and
  receipt counters agree; and every offer is either delivered or named by a refusal reason, so that
  the residue of the tally is zero.\<close>

theorem every_offer_is_accounted_for:
  "case admit_batch W items (new_ledger w) of (L, receipts, tally) \<Rightarrow>
     length receipts = length items \<and> map ld_decision (trail L) = receipts \<and> map ld_observation (trail L) = map fst items
     \<and> observations_in tally = length items \<and> receipts_out tally = length items \<and> residue tally = 0"
proof -
  obtain L rs where run: "admit_items W items (new_ledger w) = (L, rs)" by fastforce
  have fresh: "named_refusals (new_ledger w) = []" "committed (new_ledger w) = []" "trail (new_ledger w) = []"
      "offered_observations (new_ledger w) = 0" "issued_receipts (new_ledger w) = 0" "delivered_observations (new_ledger w) = 0"
    by (simp_all add: new_ledger_def)
  from admit_items_booked [OF _ _ run] show ?thesis
    by (simp add: admit_batch_def run conservation_def residue_def fresh)
qed

text \<open>A replayed observation is inert: whatever text it carries the second time, an anchored
  observation that was offered before is refused as a duplicate and the committed text stands.\<close>

theorem replayed_observation_is_inert:
  assumes "is_anchored (occurrence obs)" and "obs \<in> answered L" and "om_ok (named_refusals L)" and "om_ok (committed L)"
  shows "snd (admit W obs t L) = Refuse (occurrence obs) BatchDuplicate
    \<and> committed (fst (admit W obs t L)) = committed L"
proof -
  have dec: "decide_observation W obs t False False L1 = (note_answered obs L1, Refuse (occurrence obs) BatchDuplicate)"
    if "obs \<in> answered L1" for L1 using assms(1) that by (simp add: decide_observation_def Let_def)
  have h: "slot_history_only (offer L) (retain_whole_label obs t None (offer L))" by (rule retain_whole_label_only)
  then have "obs \<in> answered (retain_whole_label obs t None (offer L))"
    using assms(2) by (simp add: slot_history_only_def answers_def frame_simps)
  note d = dec [OF this]
  have w: "withhold_lower_authority_over_speech W obs None [] L = (L, None, [], None)"
    "blocked_sources W obs None [] L = []"
    by (simp_all add: withhold_lower_authority_over_speech_def blocked_sources_def Let_def filter_empty_conv)
  have snd: "snd (admit W obs t L) = Refuse (occurrence obs) BatchDuplicate"
    by (simp add: admit_def admit_with_slots_def admit_slot_batch_def w admit_kept_def Let_def d)
  obtain L' where run: "admit W obs t L = (L', Refuse (occurrence obs) BatchDuplicate)"
    using snd by (cases "admit W obs t L") auto
  with admit_admitted [OF assms(3,4) run] show ?thesis by (simp add: admitted_def)
qed

end
