(* ===== verification/Ledger_Seal.thy ===== *)
theory Ledger_Seal
  imports Acoustic_Ledger
begin

section \<open>Qualification, frontiers and seals\<close>

text \<open>
  The part of \<open>core/pipeline/acoustic_ledger.rs\<close> that decides what physically exists and when it is
  finished: qualification of a region and its serial, the observation frontier, the occurrence seal
  and the terminal seal, the coverage verdict on measured speech, terminal finality, derivations and
  the signed composition. The wall clock read by the first terminal seal is an argument.
\<close>

subsection \<open>Serials and qualification\<close>

definition ACOUSTIC_SERIAL_VERSION :: nat where
  "ACOUSTIC_SERIAL_VERSION = 1"

definition ACOUSTIC_SERIAL_DOMAIN :: rstr where
  "ACOUSTIC_SERIAL_DOMAIN = lit ''codescribe.acoustic-serial.v1''"

definition boundary_str :: "nat option \<Rightarrow> rstr" where
  "boundary_str sample = (case sample of Some v \<Rightarrow> show_nat v | None \<Rightarrow> lit ''none'')"

definition canonical_input :: "acoustic_evidence \<Rightarrow> rstr" where
  "canonical_input e = join_with [10]
     [ACOUSTIC_SERIAL_DOMAIN, show_nat ACOUSTIC_SERIAL_VERSION, session (ae_occurrence e),
      show_nat (capture_epoch (ae_occurrence e)), show_nat (sample_start (ae_occurrence e)),
      show_nat (sample_end (ae_occurrence e)), show_nat (unat (ae_duration_ms e)), show_nat (unat (ae_energy_integral e)),
      show_nat (unat (ae_mean_rms_dbfs e)), show_nat (unat (ae_peak_dbfs e)), boundary_str (ae_vad_open e),
      boundary_str (ae_vad_close e), ae_calibration e]"

definition mint :: "('c, 'w, 'f) word_layer \<Rightarrow> acoustic_evidence \<Rightarrow> acoustic_serial" where
  "mint W e = \<lparr>as_version = ACOUSTIC_SERIAL_VERSION, as_digest = sha256_hex W (canonical_input e),
     as_occurrence = ae_occurrence e, as_duration_ms = ae_duration_ms e, as_energy_integral = ae_energy_integral e,
     as_mean_rms_dbfs = ae_mean_rms_dbfs e, as_peak_dbfs = ae_peak_dbfs e, as_vad_open = ae_vad_open e,
     as_vad_close = ae_vad_close e, as_calibration = ae_calibration e\<rparr>"

datatype admission_refusal = RefusedZeroWidth | BelowCalibratedEnergy | VadDidNotOpen | CalibrationMismatch

datatype admission_receipt =
    Qualified (region: occurrence) (issued: acoustic_serial)
  | Refused (region: occurrence) (refusal: admission_refusal)

definition qualify ::
    "('c, 'w, 'f) word_layer \<Rightarrow> acoustic_evidence \<Rightarrow> energy_calibration \<Rightarrow> ('c, 'w, 'f) ledger
      \<Rightarrow> ('c, 'w, 'f) ledger \<times> admission_receipt" where
  "qualify W e calibration L =
     (let x = ae_occurrence e
      in if \<not> is_anchored x then (L, Refused x RefusedZeroWidth)
         else if ae_calibration e \<noteq> version calibration then (L, Refused x CalibrationMismatch)
         else if f64_less (ae_energy_integral e) (min_energy_integral calibration) then (L, Refused x BelowCalibratedEnergy)
         else if \<not> (case ae_vad_open e of None \<Rightarrow> False | Some o' \<Rightarrow> o' \<le> sample_start x) then (L, Refused x VadDidNotOpen)
         else let s = mint W e
              in (L\<lparr>evidence := om_insert x s (evidence L),
                    qualified_by_end := om_adjust (sample_end x) [] (os_insert x) (qualified_by_end L),
                    unsealed_qualified := (if is_sealed L x then unsealed_qualified L
                                           else os_insert x (unsealed_qualified L))\<rparr>,
                  Qualified x s))"

definition qualified_occurrences_overlapping :: "('c, 'w, 'f) ledger \<Rightarrow> occurrence \<Rightarrow> occurrence list" where
  "qualified_occurrences_overlapping L window =
     sort (filter (\<lambda>owner. is_anchored window \<and> same_capture owner window \<and> sample_start owner < sample_end window)
       (concat (map snd (filter (\<lambda>(e, _). e > sample_start window) (qualified_by_end L)))))"

subsection \<open>The observation frontier\<close>

definition frontier_scheduled :: "occurrence \<Rightarrow> observation_producer list \<Rightarrow> observation_frontier" where
  "frontier_scheduled coverage producers =
     \<lparr>fr_coverage = coverage, fr_scheduled = set producers, fr_returned = {}\<rparr>"

definition frontier_schedule :: "observation_producer \<Rightarrow> observation_frontier \<Rightarrow> observation_frontier" where
  "frontier_schedule p f = f\<lparr>fr_scheduled := insert p (fr_scheduled f)\<rparr>"

definition record_return :: "observation_producer \<Rightarrow> observation_frontier \<Rightarrow> observation_frontier" where
  "record_return p f = (if p \<in> fr_scheduled f then f\<lparr>fr_returned := insert p (fr_returned f)\<rparr> else f)"

definition is_closed :: "observation_frontier \<Rightarrow> bool" where
  "is_closed f \<longleftrightarrow> fr_scheduled f \<subseteq> fr_returned f"

definition schedule_frontier :: "occurrence \<Rightarrow> observation_producer list \<Rightarrow> ('c, 'w, 'f) ledger \<Rightarrow> ('c, 'w, 'f) ledger" where
  "schedule_frontier coverage producers L =
     L\<lparr>frontiers := om_insert coverage (frontier_scheduled coverage producers) (frontiers L)\<rparr>"

definition schedule_observer ::
    "occurrence \<Rightarrow> observation_producer \<Rightarrow> ('c, 'w, 'f) ledger \<Rightarrow> ('c, 'w, 'f) ledger \<times> bool" where
  "schedule_observer coverage p L =
     (if is_sealed L coverage then (L, False)
      else case map_of (frontiers L) coverage of
             None \<Rightarrow> (L, False)
           | Some f \<Rightarrow> if is_closed f then (L, False)
                       else (L\<lparr>frontiers := om_insert coverage (frontier_schedule p f) (frontiers L)\<rparr>, p \<notin> fr_scheduled f))"

definition schedule_settled_formatter ::
    "('c, 'w, 'f) word_layer \<Rightarrow> occurrence \<Rightarrow> ('c, 'w, 'f) ledger \<Rightarrow> ('c, 'w, 'f) ledger \<times> bool" where
  "schedule_settled_formatter W coverage L =
     (if is_sealed L coverage \<or> text_recovery_pending L coverage \<or> \<not> word_labels_settled W (words L) coverage
         \<or> (case text_of L coverage of None \<Rightarrow> True | Some label \<Rightarrow> trim label = [])
      then (L, False)
      else case map_of (frontiers L) coverage of
             None \<Rightarrow> (L, False)
           | Some f \<Rightarrow> if \<not> is_closed f \<or> Formatter \<in> fr_scheduled f then (L, False)
                       else (L\<lparr>frontiers := om_insert coverage (frontier_schedule Formatter f) (frontiers L)\<rparr>, True))"

definition schedule_late_apple_label ::
    "observation \<Rightarrow> rstr \<Rightarrow> ('c, 'w, 'f) ledger \<Rightarrow> ('c, 'w, 'f) ledger \<times> bool" where
  "schedule_late_apple_label obs text L =
     (let x = occurrence obs
      in if producer obs \<noteq> Apple \<or> trim text = []
            \<or> \<not> (case map_of (evidence L) x of None \<Rightarrow> False | Some s \<Rightarrow> vad_closed s)
            \<or> is_sealed L x \<or> map_of (committed L) x \<noteq> None \<or> obs \<in> answered L
         then (L, False)
         else case map_of (frontiers L) x of
                None \<Rightarrow> (L, False)
              | Some f \<Rightarrow> if \<not> is_closed f \<or> Whisper \<notin> fr_returned f \<or> Apple \<in> fr_scheduled f \<or> Lexicon \<in> fr_scheduled f
                          then (L, False)
                          else (L\<lparr>frontiers := om_insert x (frontier_schedule Lexicon (frontier_schedule Apple f)) (frontiers L)\<rparr>, True))"

definition note_frontier_return ::
    "('c, 'w, 'f) word_layer \<Rightarrow> occurrence \<Rightarrow> observation_producer \<Rightarrow> ('c, 'w, 'f) ledger \<Rightarrow> ('c, 'w, 'f) ledger \<times> bool" where
  "note_frontier_return W coverage p L =
     (case map_of (frontiers L) coverage of
        None \<Rightarrow> (reconcile_returned_word_debt W coverage L, False)
      | Some f \<Rightarrow>
          let f' = record_return p f; L = L\<lparr>frontiers := om_insert coverage f' (frontiers L)\<rparr>
          in (reconcile_returned_word_debt W coverage L, \<not> is_closed f \<and> is_closed f'))"

subsection \<open>Seals\<close>

datatype seal_refusal =
    NotQualified | VadDidNotClose | FrontierOpen | FrontierUnknown | LabelMissing | TextRecoveryPending
  | ObservationsWithoutReceipts | OccurrenceStillOpen | CoverageIncomplete

primrec scope_str :: "seal_scope \<Rightarrow> rstr" where
  "scope_str OccurrenceScope = lit ''occurrence''"
| "scope_str TerminalScope = lit ''terminal''"

definition seal_id :: "seal_scope \<Rightarrow> occurrence \<Rightarrow> rstr" where
  "seal_id scope x = lit ''seal-'' @ scope_str scope @ lit ''-'' @ session x @ lit ''-'' @ show_nat (capture_epoch x)
     @ lit ''-'' @ show_nat (sample_start x) @ lit ''-'' @ show_nat (sample_end x)"

definition mint_seal :: "('c, 'w, 'f) word_layer \<Rightarrow> ('c, 'w, 'f) ledger \<Rightarrow> occurrence \<Rightarrow> seal_refusal + 'f seal_receipt" where
  "mint_seal W L x =
     (if text_recovery_pending L x then Inl TextRecoveryPending
      else if word_trials_pending W (words L) x \<or> has_deferred_anchor_words W (words L) x then Inl FrontierOpen
      else case map_of (evidence L) x of
             None \<Rightarrow> Inl NotQualified
           | Some s \<Rightarrow>
               if \<not> vad_closed s then Inl VadDidNotClose
               else case map_of (frontiers L) x of
                      None \<Rightarrow> Inl FrontierUnknown
                    | Some f \<Rightarrow>
                        if \<not> is_closed f then Inl FrontierOpen
                        else if (case text_of L x of None \<Rightarrow> True | Some text \<Rightarrow> trim text = []) then Inl LabelMissing
                        else let owner = map_of (owner_histories L) x;
                                 answered = (case owner of None \<Rightarrow> 0 | Some h \<Rightarrow> oh_answered h);
                                 ordinals = (case owner of None \<Rightarrow> [] | Some h \<Rightarrow> oh_ordinals h)
                             in if length ordinals \<noteq> answered then Inl ObservationsWithoutReceipts
                                else Inr \<lparr>lr_word_finality = word_finality W (words L) x, lr_scope = OccurrenceScope,
                                       lr_receipt_id = seal_id OccurrenceScope x, lr_coverage = x, lr_sealed = [x],
                                       lr_serials = [s], lr_vad_close = unwrap_or (sample_end x) (as_vad_close s),
                                       lr_frontier = f, lr_ordinals = ordinals\<rparr>)"

definition seal :: "('c, 'w, 'f) word_layer \<Rightarrow> occurrence \<Rightarrow> ('c, 'w, 'f) ledger \<Rightarrow> ('c, 'w, 'f) ledger \<times> (seal_refusal + 'f seal_receipt)" where
  "seal W x L =
     (case map_of (seals L) x of
        Some receipt \<Rightarrow> (L, Inr receipt)
      | None \<Rightarrow>
          (case mint_seal W L x of
             Inl r \<Rightarrow> (L, Inl r)
           | Inr receipt \<Rightarrow>
               (L\<lparr>seals := om_insert x receipt (seals L), unsealed_qualified := os_remove x (unsealed_qualified L),
                  words := close_word_components W (words L) x\<rparr>, Inr receipt)))"

text \<open>Sealing one after the other stops at the first refusal; what was sealed before it stays sealed.\<close>

fun seal_each :: "('c, 'w, 'f) word_layer \<Rightarrow> occurrence list \<Rightarrow> ('c, 'w, 'f) ledger \<Rightarrow> ('c, 'w, 'f) ledger \<times> seal_refusal option" where
  "seal_each W [] L = (L, None)"
| "seal_each W (x # xs) L = (case seal W x L of (L, Inl r) \<Rightarrow> (L, Some r) | (L, Inr _) \<Rightarrow> seal_each W xs L)"

definition in_capture :: "rstr \<Rightarrow> nat \<Rightarrow> occurrence \<Rightarrow> bool" where
  "in_capture s epoch x \<longleftrightarrow> session x = s \<and> capture_epoch x = epoch"

definition unavailable_reason :: "seal_coverage_status \<Rightarrow> acoustic_evidence_gap option" where
  "unavailable_reason st = (case st of Unavailable g \<Rightarrow> Some g | _ \<Rightarrow> None)"

definition terminal_receipt :: "rstr \<Rightarrow> nat \<Rightarrow> occurrence list \<Rightarrow> 'f seal_receipt list \<Rightarrow> 'f seal_receipt" where
  "terminal_receipt s epoch in_epoch receipts =
     (let coverage = Occurrence s epoch (sample_start (hd in_epoch)) (sample_end (last in_epoch))
      in \<lparr>lr_word_finality = concat (map lr_word_finality receipts), lr_scope = TerminalScope,
          lr_receipt_id = seal_id TerminalScope coverage, lr_coverage = coverage, lr_sealed = in_epoch,
          lr_serials = concat (map lr_serials receipts), lr_vad_close = fold max (map lr_vad_close receipts) 0,
          lr_frontier = frontier_scheduled coverage [], lr_ordinals = concat (map lr_ordinals receipts)\<rparr>)"

definition seal_terminal ::
    "('c, 'w, 'f) word_layer \<Rightarrow> nat option \<Rightarrow> rstr \<Rightarrow> nat \<Rightarrow> ('c, 'w, 'f) ledger
      \<Rightarrow> ('c, 'w, 'f) ledger \<times> (seal_refusal + 'f seal_receipt)" where
  "seal_terminal W now s epoch L =
     (if pending_text_recoveries L s epoch \<noteq> [] then (L, Inl TextRecoveryPending)
      else if (case latest_seal_coverage L of None \<Rightarrow> False
               | Some c \<Rightarrow> sc_session c = s \<and> sc_epoch c = epoch
                   \<and> (sc_status c = Incomplete \<or> unavailable_reason (sc_status c) \<noteq> None))
      then (L, Inl CoverageIncomplete)
      else let in_epoch = filter (in_capture s epoch) (om_keys (evidence L))
           in if in_epoch = [] then (L, Inl NotQualified)
              else case seal_each W in_epoch L of
                     (L, Some r) \<Rightarrow> (L, Inl r)
                   | (L, None) \<Rightarrow>
                       if \<not> list_all (\<lambda>x. map_of (seals L) x \<noteq> None) in_epoch then (L, Inl OccurrenceStillOpen)
                       else let receipt = terminal_receipt s epoch in_epoch (map (\<lambda>x. the (map_of (seals L) x)) in_epoch)
                            in if receipt \<in> set (terminal_seals L) then (L, Inr receipt)
                               else (L\<lparr>terminal_seals := terminal_seals L @ [receipt],
                                       transcript_seal_timestamp_ms := option_or (transcript_seal_timestamp_ms L) now\<rparr>,
                                     Inr receipt))"

definition authenticates_seal :: "('c, 'w, 'f) ledger \<Rightarrow> 'f seal_receipt \<Rightarrow> bool" where
  "authenticates_seal L receipt =
     (case lr_scope receipt of OccurrenceScope \<Rightarrow> map_of (seals L) (lr_coverage receipt) = Some receipt
      | TerminalScope \<Rightarrow> receipt \<in> set (terminal_seals L))"

definition authenticates_seal_reference :: "('c, 'w, 'f) ledger \<Rightarrow> occurrence \<Rightarrow> rstr \<Rightarrow> bool" where
  "authenticates_seal_reference L x i \<longleftrightarrow>
     (case map_of (seals L) x of None \<Rightarrow> False | Some s \<Rightarrow> lr_receipt_id s = i)
     \<or> list_ex (\<lambda>s. lr_receipt_id s = i \<and> x \<in> set (lr_sealed s)) (terminal_seals L)"

definition layer_trail_for :: "('c, 'w, 'f) ledger \<Rightarrow> occurrence \<Rightarrow> layer_decision list" where
  "layer_trail_for L x =
     (case map_of (owner_histories L) x of None \<Rightarrow> [] | Some h \<Rightarrow> map ((!) (trail L)) (oh_ordinals h))"

definition post_seal_decisions :: "('c, 'w, 'f) ledger \<Rightarrow> occurrence \<Rightarrow> layer_decision list" where
  "post_seal_decisions L x =
     (case map_of (seals L) x of None \<Rightarrow> []
      | Some s \<Rightarrow> filter (\<lambda>e. ld_ordinal e \<notin> set (lr_ordinals s)) (layer_trail_for L x))"

end
