(* ===== verification/Ledger_Documents.thy ===== *)
theory Ledger_Documents
  imports Ledger_Coverage
begin

section \<open>Document receipts\<close>

text \<open>
  Whole-document revisions, consultation presentations and incremental shapings of
  \<open>core/pipeline/acoustic_ledger.rs\<close>: each records a claim about committed text and never edits it.
  The random part of a capture receipt (\<open>uuid\<close>) and the shaping function of \<open>light_plus.rs\<close> are
  arguments. A refusal is the reason string of the source.
\<close>

subsection \<open>The capture a document belongs to\<close>

definition checked_add_u64 :: "nat \<Rightarrow> nat \<Rightarrow> nat option" where
  "checked_add_u64 a b = (if a + b \<le> u64_max then Some (a + b) else None)"

definition coverage_elsewhere :: "('c, 'w, 'f) ledger \<Rightarrow> rstr \<Rightarrow> nat \<Rightarrow> bool" where
  "coverage_elsewhere L s epoch = (case latest_seal_coverage L of None \<Rightarrow> False
     | Some c \<Rightarrow> sc_session c \<noteq> s \<or> sc_epoch c \<noteq> epoch)"

definition bind_manual_document_capture ::
    "rstr \<Rightarrow> rstr \<Rightarrow> nat \<Rightarrow> ('c, 'w, 'f) ledger \<Rightarrow> ('c, 'w, 'f) ledger \<times> (rstr + document_capture)" where
  "bind_manual_document_capture uuid s epoch L =
     (if s = [] \<or> epoch = 0 then (L, Inl (lit ''manual_capture_identity_missing''))
      else case manual_document_capture L of
             Some owner \<Rightarrow> (L, if dc_session owner = s \<and> dc_epoch owner = epoch then Inr owner
                               else Inl (lit ''manual_capture_owner_mismatch''))
           | None \<Rightarrow>
               if list_ex (\<lambda>x. \<not> in_capture s epoch x)
                    (om_keys (evidence L) @ om_keys (committed L) @ om_keys (frontiers L) @ pending_text_recovery L)
                  \<or> coverage_elsewhere L s epoch
               then (L, Inl (lit ''manual_capture_owner_mismatch''))
               else let owner = \<lparr>dc_receipt_id = lit ''manual-capture-'' @ uuid, dc_session = s, dc_epoch = epoch,
                                  dc_source_revision = None\<rparr>
                    in (L\<lparr>manual_document_capture := Some owner\<rparr>, Inr owner))"

definition complete_manual_document_capture ::
    "document_capture \<Rightarrow> nat \<Rightarrow> ('c, 'w, 'f) ledger \<Rightarrow> ('c, 'w, 'f) ledger \<times> (rstr + document_capture)" where
  "complete_manual_document_capture owner source_revision L =
     (case manual_document_capture L of
        None \<Rightarrow> (L, Inl (lit ''manual_capture_not_opened''))
      | Some bound \<Rightarrow>
          if bound \<noteq> owner \<or> dc_source_revision bound \<noteq> None then (L, Inl (lit ''manual_capture_completion_replayed''))
          else let bound' = bound\<lparr>dc_source_revision := Some source_revision\<rparr>
               in (L\<lparr>manual_document_capture := Some bound'\<rparr>, Inr bound'))"

definition authenticates_manual_document_capture :: "('c, 'w, 'f) ledger \<Rightarrow> document_capture \<Rightarrow> bool" where
  "authenticates_manual_document_capture L owner \<longleftrightarrow> manual_document_capture L = Some owner"

definition has_manual_document_capture :: "('c, 'w, 'f) ledger \<Rightarrow> rstr \<Rightarrow> nat \<Rightarrow> bool" where
  "has_manual_document_capture L s epoch \<longleftrightarrow>
     (case manual_document_capture L of None \<Rightarrow> False | Some owner \<Rightarrow> dc_session owner = s \<and> dc_epoch owner = epoch)
     \<and> list_all (in_capture s epoch) (om_keys (evidence L) @ om_keys (frontiers L) @ pending_text_recovery L)
     \<and> \<not> coverage_elsewhere L s epoch"

subsection \<open>Whole-document revisions\<close>

datatype document_provenance = UserEdit | Retranscribe | FormatterPass | LightPlus | Navigation

primrec provenance_str :: "document_provenance \<Rightarrow> rstr" where
  "provenance_str UserEdit = lit ''user-edit''"
| "provenance_str Retranscribe = lit ''retranscribe''"
| "provenance_str FormatterPass = lit ''formatter''"
| "provenance_str LightPlus = lit ''light-plus''"
| "provenance_str Navigation = lit ''navigation''"

text \<open>The completed capture a revision without source occurrences must name.\<close>

definition revision_capture ::
    "('c, 'w, 'f) ledger \<Rightarrow> rstr \<Rightarrow> nat \<Rightarrow> document_provenance \<Rightarrow> rstr + document_capture" where
  "revision_capture L s source_revision p =
     (if p \<notin> {UserEdit, Retranscribe, Navigation} then Inl (lit ''manual_document_explicit_intent_required'')
      else case manual_document_capture L of
             None \<Rightarrow> Inl (lit ''manual_document_completed_capture_missing'')
           | Some owner \<Rightarrow>
               if dc_session owner \<noteq> s \<or> dc_source_revision owner = None
               then Inl (lit ''manual_document_completed_capture_missing'')
               else if \<not> has_manual_document_capture L s (dc_epoch owner) then Inl (lit ''manual_document_capture_epoch_mismatch'')
               else if committed L \<noteq> [] \<and> manual_document_revisions L = [] then Inl (lit ''manual_document_committed_source_missing'')
               else let expected = (if manual_document_revisions L = [] then dc_source_revision owner
                                    else Some (dr_revision (last (manual_document_revisions L))))
                    in if expected \<noteq> Some source_revision then Inl (lit ''manual_document_source_revision_stale'')
                       else Inr owner)"

definition revision_id :: "document_provenance \<Rightarrow> rstr \<Rightarrow> nat \<Rightarrow> nat \<Rightarrow> nat \<Rightarrow> rstr" where
  "revision_id p s source_revision revision ordinal =
     join_with (lit ''-'') [provenance_str p, s, show_nat source_revision, show_nat revision, show_nat ordinal]"

definition record_manual_document_revision ::
    "rstr \<Rightarrow> nat \<Rightarrow> nat \<Rightarrow> rstr \<Rightarrow> occurrence list \<Rightarrow> document_provenance \<Rightarrow> ('c, 'w, 'f) ledger
      \<Rightarrow> ('c, 'w, 'f) ledger \<times> (rstr + document_revision)" where
  "record_manual_document_revision s source_revision revision text sources p L =
     (if s = [] then (L, Inl (lit ''manual_document_session_missing''))
      else if trim text = [] then (L, Inl (lit ''manual_document_text_empty''))
      else if checked_add_u64 source_revision 1 \<noteq> Some revision then (L, Inl (lit ''manual_document_revision_nonconsecutive''))
      else case (if sources = [] then map_sum id Some (revision_capture L s source_revision p) else Inr None) of
             Inl why \<Rightarrow> (L, Inl why)
           | Inr capture \<Rightarrow>
               if list_ex (\<lambda>x. session x \<noteq> s \<or> \<not> is_qualified L x \<or> map_of (committed L) x = None) sources
               then (L, Inl (lit ''manual_document_occurrence_not_committed''))
               else let receipt =
                      \<lparr>dr_receipt_id = revision_id p s source_revision revision (length (manual_document_revisions L)),
                       dr_provenance = provenance_str p, dr_session = s, dr_source_revision = source_revision,
                       dr_revision = revision, dr_occurrences = sources,
                       dr_seals = map lr_receipt_id (List.map_filter (map_of (seals L)) sources), dr_text = text,
                       dr_capture_epoch = map_option dc_epoch capture, dr_capture_receipt = map_option dc_receipt_id capture\<rparr>
                    in (L\<lparr>manual_document_revisions := manual_document_revisions L @ [receipt]\<rparr>, Inr receipt))"

definition authenticates_manual_document_revision :: "('c, 'w, 'f) ledger \<Rightarrow> document_revision \<Rightarrow> bool" where
  "authenticates_manual_document_revision L r =
     (if r \<notin> set (manual_document_revisions L) then False
      else if dr_occurrences r \<noteq> [] then dr_capture_receipt r = None \<and> dr_capture_epoch r = None
      else case manual_document_capture L of
             None \<Rightarrow> False
           | Some owner \<Rightarrow>
               dc_source_revision owner \<noteq> None \<and> dc_session owner = dr_session r
               \<and> Some (dc_epoch owner) = dr_capture_epoch r \<and> Some (dc_receipt_id owner) = dr_capture_receipt r
               \<and> dr_seals r = []
               \<and> dr_provenance r \<in> {lit ''user-edit'', lit ''retranscribe'', lit ''navigation''})"

subsection \<open>Consultation presentations\<close>

text \<open>The walk over the members: they are in order, apart, and still what the ledger holds.\<close>

definition member_settled :: "('c, 'w, 'f) ledger \<Rightarrow> presentation_member \<Rightarrow> bool" where
  "member_settled L m \<longleftrightarrow> (let x = pm_occurrence m in
     is_qualified L x \<and> \<not> text_recovery_pending L x
     \<and> (case map_of (frontiers L) x of None \<Rightarrow> False | Some f \<Rightarrow> is_closed f)
     \<and> text_of L x = Some (pm_label m) \<and> trim (pm_label m) \<noteq> []
     \<and> (case map_of (seals L) x of None \<Rightarrow> False | Some s \<Rightarrow> lr_receipt_id s = pm_seal m))"

fun check_members :: "('c, 'w, 'f) ledger \<Rightarrow> rstr \<Rightarrow> nat \<Rightarrow> nat \<Rightarrow> presentation_member list \<Rightarrow> rstr + nat" where
  "check_members L s epoch reach [] = Inr reach"
| "check_members L s epoch reach (m # ms) =
     (let x = pm_occurrence m
      in if \<not> in_capture s epoch x \<or> sample_start x < reach \<or> sample_start x \<ge> sample_end x
         then Inl (lit ''consultation_presentation_member_order'')
         else if \<not> member_settled L m then Inl (lit ''consultation_presentation_source_changed'')
         else check_members L s epoch (sample_end x) ms)"

definition known_between :: "('c, 'w, 'f) ledger \<Rightarrow> rstr \<Rightarrow> nat \<Rightarrow> nat \<Rightarrow> nat \<Rightarrow> occurrence list" where
  "known_between L s epoch from_sample reach =
     sort (remdups (filter (\<lambda>x. in_capture s epoch x \<and> sample_start x < reach \<and> from_sample < sample_end x)
       (om_keys (evidence L) @ om_keys (committed L))))"

definition presentation_id :: "rstr \<Rightarrow> nat \<Rightarrow> nat \<Rightarrow> rstr" where
  "presentation_id s epoch n = lit ''max-group-'' @ join_with (lit ''-'') [s, show_nat epoch, show_nat n]"

definition record_consultation_presentation ::
    "rstr \<Rightarrow> rstr \<Rightarrow> nat \<Rightarrow> nat \<Rightarrow> presentation_member list \<Rightarrow> rstr \<Rightarrow> ('c, 'w, 'f) ledger
      \<Rightarrow> ('c, 'w, 'f) ledger \<times> (rstr + consultation_presentation)" where
  "record_consultation_presentation consultation turn source_revision revision members text L =
     (if trim consultation = [] \<or> trim turn = [] then (L, Inl (lit ''consultation_presentation_identity_missing''))
      else if trim text = [] then (L, Inl (lit ''consultation_presentation_text_empty''))
      else if checked_add_u64 source_revision 1 \<noteq> Some revision
      then (L, Inl (lit ''consultation_presentation_revision_nonconsecutive''))
      else case members of
             [] \<Rightarrow> (L, Inl (lit ''consultation_presentation_members_missing''))
           | first # _ \<Rightarrow>
               let s = session (pm_occurrence first); epoch = capture_epoch (pm_occurrence first)
               in if s = [] \<or> epoch = 0 then (L, Inl (lit ''consultation_presentation_capture_missing''))
                  else case check_members L s epoch (sample_start (pm_occurrence first)) members of
                         Inl why \<Rightarrow> (L, Inl why)
                       | Inr reach \<Rightarrow>
                           if known_between L s epoch (sample_start (pm_occurrence first)) reach \<noteq> map pm_occurrence members
                           then (L, Inl (lit ''consultation_presentation_members_incomplete''))
                           else if list_ex (\<lambda>r. cp_consultation r = consultation \<and> cp_turn r = turn) (consultation_presentations L)
                           then (L, Inl (lit ''consultation_presentation_turn_repeated''))
                           else if list_ex (\<lambda>r. list_ex (\<lambda>old. list_ex (\<lambda>m. pm_occurrence old = pm_occurrence m) members) (cp_members r))
                                  (consultation_presentations L)
                           then (L, Inl (lit ''consultation_presentation_group_overlaps''))
                           else let receipt = \<lparr>cp_receipt_id = presentation_id s epoch (length (consultation_presentations L)),
                                     cp_consultation = consultation, cp_turn = turn, cp_source_revision = source_revision,
                                     cp_revision = revision, cp_members = members, cp_text = text\<rparr>
                                in (L\<lparr>consultation_presentations := consultation_presentations L @ [receipt]\<rparr>, Inr receipt))"

subsection \<open>Incremental shapings\<close>

record shaping_input =
  si_session :: rstr
  si_source_revision :: nat
  si_revision :: nat
  si_occurrence :: occurrence
  si_source_label :: rstr
  si_left_context :: rstr
  si_shaped_text :: rstr
  si_sentence_break :: bool

definition shaping_id :: "shaping_input \<Rightarrow> nat \<Rightarrow> rstr" where
  "shaping_id i ordinal = join_with (lit ''-'') [provenance_str LightPlus, lit ''incremental'', si_session i,
     show_nat (sample_start (si_occurrence i)), show_nat (sample_end (si_occurrence i)),
     show_nat (si_source_revision i), show_nat (si_revision i), show_nat ordinal]"

definition already_shaped :: "('c, 'w, 'f) ledger \<Rightarrow> shaping_input \<Rightarrow> bool" where
  "already_shaped L i =
     (case map_of (latest_incremental_shaping L) (si_occurrence i) of None \<Rightarrow> False
      | Some index \<Rightarrow> let held = incremental_shapings L ! index
          in is_source_label held = si_source_label i \<and> is_shaped_text held = si_shaped_text i
             \<and> is_left_context held = si_left_context i)"

definition record_incremental_shaping ::
    "('c, 'w, 'f) word_layer \<Rightarrow> (rstr \<Rightarrow> rstr \<Rightarrow> bool \<Rightarrow> rstr) \<Rightarrow> shaping_input \<Rightarrow> ('c, 'w, 'f) ledger
      \<Rightarrow> ('c, 'w, 'f) ledger \<times> (rstr + incremental_shaping)" where
  "record_incremental_shaping W apply_live_span i L =
     (let x = si_occurrence i
      in if si_session i = [] then (L, Inl (lit ''incremental_shaping_session_missing''))
         else if trim (si_shaped_text i) = [] then (L, Inl (lit ''incremental_shaping_text_empty''))
         else if checked_add_u64 (si_source_revision i) 1 \<noteq> Some (si_revision i)
         then (L, Inl (lit ''incremental_shaping_revision_nonconsecutive''))
         else if session x \<noteq> si_session i then (L, Inl (lit ''incremental_shaping_session_mismatch''))
         else if \<not> is_qualified L x \<or> map_of (committed L) x = None
         then (L, Inl (lit ''incremental_shaping_occurrence_not_committed''))
         else if text_of L x \<noteq> Some (si_source_label i) then (L, Inl (lit ''incremental_shaping_source_label_stale''))
         else if si_source_label i = si_shaped_text i then (L, Inl (lit ''incremental_shaping_unchanged''))
         else if apply_live_span (si_left_context i) (si_source_label i) (si_sentence_break i) \<noteq> si_shaped_text i
         then (L, Inl (lit ''incremental_shaping_not_deterministic''))
         else if already_shaped L i then (L, Inl (lit ''incremental_shaping_unchanged''))
         else let ordinal = length (incremental_shapings L);
                  receipt = \<lparr>is_receipt_id = shaping_id i ordinal, is_provenance = provenance_str LightPlus,
                    is_session = si_session i, is_source_revision = si_source_revision i, is_revision = si_revision i,
                    is_occurrence = x, is_source_seal = map_option lr_receipt_id (map_of (seals L) x),
                    is_sentence_break = si_sentence_break i, is_source_label = si_source_label i,
                    is_left_context = si_left_context i, is_left_sha256 = sha256_hex W (si_left_context i),
                    is_shaped_text = si_shaped_text i\<rparr>
              in (L\<lparr>latest_incremental_shaping := om_insert x ordinal (latest_incremental_shaping L),
                    incremental_shapings := incremental_shapings L @ [receipt]\<rparr>, Inr receipt))"

definition authenticates_incremental_shaping :: "('c, 'w, 'f) ledger \<Rightarrow> incremental_shaping \<Rightarrow> bool" where
  "authenticates_incremental_shaping L receipt =
     (case parse_usize (last (split_on 45 (is_receipt_id receipt))) of
        None \<Rightarrow> False
      | Some ordinal \<Rightarrow> ordinal < length (incremental_shapings L) \<and> incremental_shapings L ! ordinal = receipt)"

end
