(* ===== verification/Ledger_Compose.thy ===== *)
theory Ledger_Compose
  imports Ledger_Seal
begin

section \<open>Derivations, owners and the signed composition\<close>

text \<open>
  The readers of \<open>core/pipeline/acoustic_ledger.rs\<close> that cite what the ledger holds: derivations of
  coverage (\<open>OccurrenceDerivation::rejects\<close>, \<open>record_derivation\<close>), the owner of a word pin
  (\<open>word_owner_index\<close>, \<open>classify_overlap_pin\<close>), and the composition of signed tokens
  (\<open>WordEvidenceReceipt::cite\<close>, \<open>compose\<close>), with the proof that a composition is exactly the committed
  text of the coverage, every token rooted in the serial of its own occurrence.
\<close>

subsection \<open>Derivations\<close>

definition parents :: "occurrence_derivation \<Rightarrow> occurrence list" where
  "parents d = (case d of Split p _ \<Rightarrow> [p] | Refine p _ \<Rightarrow> [p] | Merge ps _ \<Rightarrow> ps)"

definition children :: "occurrence_derivation \<Rightarrow> occurrence list" where
  "children d = (case d of Split _ cs \<Rightarrow> cs | Merge _ c \<Rightarrow> [c] | Refine _ c \<Rightarrow> [c])"

definition outside :: "occurrence \<Rightarrow> occurrence \<Rightarrow> bool" where
  "outside inner outer \<longleftrightarrow> sample_start inner < sample_start outer \<or> sample_end inner > sample_end outer"

definition separated :: "nat \<Rightarrow> occurrence list \<Rightarrow> bool" where
  "separated valley xs \<longleftrightarrow> list_all (\<lambda>(a, b). sample_start b - sample_end a \<ge> valley) (zip xs (tl xs))"

definition rejects :: "energy_calibration \<Rightarrow> occurrence_derivation \<Rightarrow> rstr option" where
  "rejects calibration d =
     (if parents d = [] \<or> children d = [] then Some (lit ''derivation_without_endpoints'')
      else let anchor = hd (parents d); ends = parents d @ children d
           in if list_ex (\<lambda>x. \<not> is_anchored x) ends then Some (lit ''derivation_endpoint_unanchored'')
              else if list_ex (\<lambda>x. \<not> same_capture x anchor) ends then Some (lit ''derivation_crosses_capture'')
              else case d of
                     Split p cs \<Rightarrow>
                       if length cs < 2 then Some (lit ''split_without_two_children'')
                       else if list_ex (\<lambda>c. outside c p) cs then Some (lit ''split_child_outside_parent'')
                       else if \<not> separated (min_valley_samples calibration) (sort cs)
                       then Some (lit ''split_without_calibrated_valley'')
                       else None
                   | Merge ps c \<Rightarrow>
                       if length ps < 2 then Some (lit ''merge_without_two_parents'')
                       else if list_ex (\<lambda>p. outside p c) ps then Some (lit ''merge_parent_outside_child'')
                       else None
                   | Refine p c \<Rightarrow> if outside c p then Some (lit ''refine_child_outside_parent'') else None)"

definition record_derivation ::
    "occurrence_derivation \<Rightarrow> energy_calibration \<Rightarrow> ('c, 'w, 'f) ledger \<Rightarrow> ('c, 'w, 'f) ledger \<times> rstr option" where
  "record_derivation d calibration L =
     (case rejects calibration d of
        Some why \<Rightarrow> (L, Some why)
      | None \<Rightarrow> if list_ex (\<lambda>p. \<not> is_qualified L p) (parents d) then (L, Some (lit ''derivation_parent_not_qualified''))
                else (L\<lparr>derivations := derivations L @ [d]\<rparr>, None))"

definition derivations_of :: "('c, 'w, 'f) ledger \<Rightarrow> occurrence \<Rightarrow> occurrence_derivation list" where
  "derivations_of L x = filter (\<lambda>d. x \<in> set (parents d @ children d)) (derivations L)"

subsection \<open>The owner of a word pin\<close>

text \<open>\<open>Iterator::max_by_key\<close>: the last of the elements with the greatest key.\<close>

definition max_by_key :: "('a \<Rightarrow> 'k::linorder) \<Rightarrow> 'a list \<Rightarrow> 'a option" where
  "max_by_key key xs = fold (\<lambda>x best. case best of None \<Rightarrow> Some x | Some b \<Rightarrow> if key b \<le> key x then Some x else Some b) xs None"

definition pin_centre_in :: "occurrence \<Rightarrow> occurrence \<Rightarrow> bool" where
  "pin_centre_in owner pin = declared_range_contains_midpoint (sample_start owner) (sample_end owner) (sample_start pin) (sample_end pin)"

definition owner_key :: "('c, 'w, 'f) ledger \<Rightarrow> occurrence \<Rightarrow> bool \<times> nat \<times> int" where
  "owner_key L owner = (\<not> is_sealed L owner, sample_start owner, - int (sample_end owner))"

definition word_owner_index :: "('c, 'w, 'f) ledger \<Rightarrow> occurrence \<Rightarrow> occurrence list \<Rightarrow> nat option" where
  "word_owner_index L pin owners =
     (if \<not> is_anchored pin then None
      else map_option fst (max_by_key (\<lambda>(_, owner). owner_key L owner)
             (filter (\<lambda>(_, owner). same_capture pin owner \<and> is_qualified L owner \<and> pin_centre_in owner pin)
               (enumerate 0 owners))))"

definition inside :: "occurrence \<Rightarrow> occurrence \<Rightarrow> bool" where
  "inside pin host \<longleftrightarrow> sample_start pin \<ge> sample_start host \<and> sample_end pin \<le> sample_end host"

definition classify_overlap_pin ::
    "('c, 'w, 'f) ledger \<Rightarrow> occurrence \<Rightarrow> nat \<Rightarrow> nat \<Rightarrow> occurrence list \<Rightarrow> bool \<Rightarrow> overlap_pin_class" where
  "classify_overlap_pin L pin admit_start admit_end members word_grain =
     (if \<not> is_anchored pin then UnanchoredPin ZeroWidth
      else if \<not> list_ex (same_capture pin) members then UnanchoredPin NoRange
      else case (if word_grain then word_owner_index L pin members else None) of
             Some i \<Rightarrow> ExclusiveTail i
           | None \<Rightarrow>
               let inside_admit = (if word_grain
                     then declared_range_contains_midpoint admit_start admit_end (sample_start pin) (sample_end pin)
                     else sample_start pin \<ge> admit_start \<and> sample_end pin \<le> admit_end)
               in if word_grain \<or> inside_admit
                  then (case filter (\<lambda>(_, m). same_capture pin m \<and> (if word_grain then pin_centre_in m pin else inside pin m))
                               (enumerate 0 members) of
                          [(i, _)] \<Rightarrow> ExclusiveTail i
                        | _ \<Rightarrow> UnanchoredPin OverlapWithoutWordPins)
                  else if \<not> (sample_end pin > admit_start \<and> sample_start pin < admit_end)
                          \<and> list_ex (\<lambda>held. same_capture pin held \<and> is_anchored held \<and> inside pin held) (om_keys (committed L))
                  then Replay
                  else UnanchoredPin OverlapWithoutWordPins)"

subsection \<open>Signed tokens\<close>

datatype evidence_refusal = EmptyToken | NoSerialCited | CoverageOutsideCitedSerials | OccurrenceNotQualified

record 'c word_evidence =
  we_token :: rstr
  we_ordinal :: nat
  we_producer :: observation_producer
  we_generation :: nat
  we_serials :: "acoustic_serial list"
  we_start :: "nat option"
  we_end :: "nat option"
  we_ranges :: "occurrence list"
  we_group :: bool
  we_confidence :: "'c option"
  we_rewritten :: bool

definition cite ::
    "rstr \<Rightarrow> nat \<Rightarrow> observation \<Rightarrow> acoustic_serial list \<Rightarrow> srange option \<Rightarrow> evidence_refusal + 'c word_evidence" where
  "cite token ordinal obs serials coverage =
     (if trim token = [] then Inl EmptyToken
      else if serials = [] then Inl NoSerialCited
      else if (case coverage of None \<Rightarrow> False
               | Some (a, b) \<Rightarrow> \<not> list_ex (\<lambda>s. a < b \<and> a \<ge> sample_start (as_occurrence s) \<and> b \<le> sample_end (as_occurrence s)) serials)
      then Inl CoverageOutsideCitedSerials
      else Inr \<lparr>we_token = token, we_ordinal = ordinal, we_producer = producer obs, we_generation = generation obs,
             we_serials = serials, we_start = map_option fst coverage, we_end = map_option snd coverage,
             we_ranges = (case coverage of None \<Rightarrow> []
               | Some (a, b) \<Rightarrow> [Occurrence (session (occurrence obs)) (capture_epoch (occurrence obs)) a b]),
             we_group = (coverage = None), we_confidence = None, we_rewritten = False\<rparr>)"

subsection \<open>Composition\<close>

definition slot_token ::
    "('c, 'w, 'f) ledger \<Rightarrow> acoustic_serial \<Rightarrow> 'c word_slot \<Rightarrow> nat \<Rightarrow> rstr \<Rightarrow> evidence_refusal + 'c word_evidence" where
  "slot_token L serial slot ordinal word =
     (let ranges = slot_source_ranges L slot
      in map_sum id (\<lambda>r. r\<lparr>we_ranges := ranges,
             we_group := length ranges > 1 \<or> length (split_whitespace (ws_text slot)) > 1,
             we_confidence := ws_confidence slot, we_rewritten := ws_rewritten slot\<rparr>)
           (cite word ordinal (ws_observation slot) [serial]
             (if length ranges = 1 then Some (ws_start slot, ws_end slot) else None)))"

fun slot_tokens ::
    "('c, 'w, 'f) ledger \<Rightarrow> acoustic_serial \<Rightarrow> 'c word_slot \<Rightarrow> nat \<Rightarrow> rstr list \<Rightarrow> evidence_refusal + 'c word_evidence list" where
  "slot_tokens L serial slot ordinal [] = Inr []"
| "slot_tokens L serial slot ordinal (word # ws) =
     (case slot_token L serial slot ordinal word of
        Inl r \<Rightarrow> Inl r
      | Inr t \<Rightarrow> map_sum id (Cons t) (slot_tokens L serial slot (Suc ordinal) ws))"

text \<open>The tokens of one occurrence; the ordinal of a token counts the tokens its observation emitted
  here.\<close>

fun occurrence_tokens ::
    "('c, 'w, 'f) ledger \<Rightarrow> acoustic_serial \<Rightarrow> (observation \<Rightarrow> nat) \<Rightarrow> 'c word_slot list \<Rightarrow> evidence_refusal + 'c word_evidence list" where
  "occurrence_tokens L serial ordinals [] = Inr []"
| "occurrence_tokens L serial ordinals (slot # slots) =
     (let obs = ws_observation slot
      in case slot_tokens L serial slot (ordinals obs) (split_whitespace (ws_text slot)) of
           Inl r \<Rightarrow> Inl r
         | Inr ts \<Rightarrow> map_sum id (append ts) (occurrence_tokens L serial (ordinals(obs := ordinals obs + length ts)) slots))"

definition lies_in :: "occurrence \<Rightarrow> occurrence \<Rightarrow> bool" where
  "lies_in coverage x \<longleftrightarrow> same_capture x coverage \<and> inside x coverage"

fun compose_entries ::
    "('c, 'w, 'f) ledger \<Rightarrow> occurrence \<Rightarrow> (occurrence, 'c committed_observation) omap \<Rightarrow> evidence_refusal + 'c word_evidence list" where
  "compose_entries L coverage [] = Inr []"
| "compose_entries L coverage ((x, held) # rest) =
     (if \<not> lies_in coverage x then compose_entries L coverage rest
      else case map_of (evidence L) x of
             None \<Rightarrow> Inl OccurrenceNotQualified
           | Some serial \<Rightarrow>
               (case occurrence_tokens L serial (\<lambda>_. 0) (co_slots held) of
                  Inl r \<Rightarrow> Inl r
                | Inr ts \<Rightarrow>
                    if ts = [] \<and> \<not> (co_slots held = [] \<and> words_deleted L x) then Inl EmptyToken
                    else map_sum id (append ts) (compose_entries L coverage rest)))"

definition compose :: "('c, 'w, 'f) ledger \<Rightarrow> occurrence \<Rightarrow> evidence_refusal + occurrence \<times> 'c word_evidence list" where
  "compose L coverage = map_sum id (Pair coverage) (compose_entries L coverage (committed L))"

subsection \<open>What a composition says\<close>

definition held_words :: "'c committed_observation \<Rightarrow> rstr list" where
  "held_words held = concat (map (\<lambda>slot. split_whitespace (ws_text slot)) (co_slots held))"

definition held_in :: "('c, 'w, 'f) ledger \<Rightarrow> occurrence \<Rightarrow> (occurrence \<times> 'c committed_observation) list" where
  "held_in L coverage = filter (\<lambda>(x, _). lies_in coverage x) (committed L)"

text \<open>A slot whose declared range its serial supports, or whose range is a group.\<close>

definition slot_supported :: "('c, 'w, 'f) ledger \<Rightarrow> acoustic_serial \<Rightarrow> 'c word_slot \<Rightarrow> bool" where
  "slot_supported L s slot \<longleftrightarrow> split_whitespace (ws_text slot) = [] \<or> length (slot_source_ranges L slot) \<noteq> 1
     \<or> ws_start slot < ws_end slot \<and> sample_start (as_occurrence s) \<le> ws_start slot \<and> ws_end slot \<le> sample_end (as_occurrence s)"

definition composable :: "('c, 'w, 'f) ledger \<Rightarrow> occurrence \<times> 'c committed_observation \<Rightarrow> bool" where
  "composable L e = (case e of (x, held) \<Rightarrow>
     (case map_of (evidence L) x of None \<Rightarrow> False | Some s \<Rightarrow> list_all (slot_supported L s) (co_slots held))
     \<and> (held_words held \<noteq> [] \<or> co_slots held = [] \<and> words_deleted L x))"

lemma split_whitespace_words: "w \<in> set (split_whitespace s) \<Longrightarrow> trim w \<noteq> []"
proof (induction s rule: split_whitespace.induct)
  case (1 s)
  show ?case
  proof (cases "dropWhile is_whitespace s")
    case Nil
    with "1.prems" show ?thesis by (simp add: split_whitespace.simps)
  next
    case (Cons c cs)
    then have c: "\<not> is_whitespace c" by (metis hd_dropWhile list.distinct(1) list.sel(1))
    have "trim (takeWhile (\<lambda>c. \<not> is_whitespace c) (c # cs)) = takeWhile (\<lambda>c. \<not> is_whitespace c) (c # cs)"
      by (rule trim_no_whitespace) (auto dest: set_takeWhileD)
    with "1.prems" "1.IH" [OF Cons] Cons c show ?thesis
      by (subst (asm) split_whitespace.simps) (auto split: if_splits)
  qed
qed

lemma slot_token_cases:
  assumes "trim word \<noteq> []"
  shows "slot_token L s slot n word = Inl r \<Longrightarrow> r = CoverageOutsideCitedSerials \<and> length (slot_source_ranges L slot) = 1
      \<and> \<not> (ws_start slot < ws_end slot \<and> sample_start (as_occurrence s) \<le> ws_start slot \<and> ws_end slot \<le> sample_end (as_occurrence s))"
    and "slot_token L s slot n word = Inr t \<Longrightarrow> we_token t = word \<and> we_serials t = [s] \<and> we_ranges t = slot_source_ranges L slot
      \<and> (length (slot_source_ranges L slot) \<noteq> 1 \<or> ws_start slot < ws_end slot \<and> sample_start (as_occurrence s) \<le> ws_start slot \<and> ws_end slot \<le> sample_end (as_occurrence s))"
  using assms by (auto simp: slot_token_def cite_def Let_def split: if_splits)

lemma slot_tokens_result:
  assumes "list_all (\<lambda>w. trim w \<noteq> []) ws"
  shows "case slot_tokens L s slot n ws of
      Inl r \<Rightarrow> ws \<noteq> [] \<and> length (slot_source_ranges L slot) = 1
        \<and> \<not> (ws_start slot < ws_end slot \<and> sample_start (as_occurrence s) \<le> ws_start slot \<and> ws_end slot \<le> sample_end (as_occurrence s))
    | Inr ts \<Rightarrow> map we_token ts = ws \<and> map we_serials ts = replicate (length ws) [s]
        \<and> (ws = [] \<or> length (slot_source_ranges L slot) \<noteq> 1
           \<or> ws_start slot < ws_end slot \<and> sample_start (as_occurrence s) \<le> ws_start slot \<and> ws_end slot \<le> sample_end (as_occurrence s))"
  using assms
proof (induction ws arbitrary: n)
  case (Cons w ws)
  have w: "trim w \<noteq> []" using Cons.prems by simp
  show ?case
  proof (cases "slot_token L s slot n w")
    case (Inl r)
    with slot_token_cases(1) [OF w Inl] show ?thesis by simp
  next
    case (Inr t)
    with Cons.IH [of "Suc n"] Cons.prems slot_token_cases(2) [OF w Inr] show ?thesis
      by (cases "slot_tokens L s slot (Suc n) ws") auto
  qed
qed simp

lemma occurrence_tokens_result:
  "case occurrence_tokens L s f slots of
      Inl r \<Rightarrow> \<not> list_all (slot_supported L s) slots
    | Inr ts \<Rightarrow> map we_token ts = concat (map (\<lambda>slot. split_whitespace (ws_text slot)) slots)
        \<and> map we_serials ts = replicate (length ts) [s] \<and> list_all (slot_supported L s) slots"
proof (induction slots arbitrary: f)
  case (Cons slot slots)
  have "list_all (\<lambda>w. trim w \<noteq> []) (split_whitespace (ws_text slot))"
    using split_whitespace_words by (auto simp: list_all_iff)
  note head = slot_tokens_result [OF this, where L = L and s = s and slot = slot and n = "f (ws_observation slot)"]
  show ?case
  proof (cases "slot_tokens L s slot (f (ws_observation slot)) (split_whitespace (ws_text slot))")
    case (Inl r)
    with head show ?thesis by (auto simp: slot_supported_def)
  next
    case (Inr ts)
    have "map we_token ts = split_whitespace (ws_text slot)" using head Inr by simp
    then have "length ts = length (split_whitespace (ws_text slot))" by (metis length_map)
    moreover define g where "g = f(ws_observation slot := f (ws_observation slot) + length ts)"
    then have "occurrence_tokens L s f (slot # slots) = map_sum id (append ts) (occurrence_tokens L s g slots)"
      by (simp add: Inr Let_def)
    ultimately show ?thesis using head Inr Cons.IH [of g]
      by (cases "occurrence_tokens L s g slots") (auto simp: slot_supported_def replicate_add)
  qed
qed simp

lemma compose_entries_result:
  "case compose_entries L coverage m of
      Inl r \<Rightarrow> \<not> list_all (composable L) (filter (\<lambda>(x, _). lies_in coverage x) m)
    | Inr ts \<Rightarrow> list_all (composable L) (filter (\<lambda>(x, _). lies_in coverage x) m)
        \<and> map we_token ts = concat (map (\<lambda>(x, held). held_words held) (filter (\<lambda>(x, _). lies_in coverage x) m))
        \<and> map we_serials ts = concat (map (\<lambda>(x, held). replicate (length (held_words held)) [the (map_of (evidence L) x)])
            (filter (\<lambda>(x, _). lies_in coverage x) m))"
proof (induction m)
  case (Cons e m)
  obtain x held where e: "e = (x, held)" by fastforce
  show ?case
  proof (cases "lies_in coverage x")
    case False
    with Cons show ?thesis by (cases "compose_entries L coverage m") (simp_all add: e)
  next
    case True
    show ?thesis
    proof (cases "map_of (evidence L) x")
      case None
      with True show ?thesis by (simp add: e composable_def)
    next
      case (Some s)
      note tokens = occurrence_tokens_result [where L = L and s = s and f = "\<lambda>_. 0" and slots = "co_slots held"]
      show ?thesis
      proof (cases "occurrence_tokens L s (\<lambda>_. 0) (co_slots held)")
        case (Inl r)
        with tokens True Some show ?thesis by (simp add: e composable_def)
      next
        case (Inr ts)
        then have ts: "map we_token ts = held_words held" "map we_serials ts = replicate (length ts) [s]"
            "list_all (slot_supported L s) (co_slots held)"
          using tokens by (auto simp: held_words_def)
        have "length ts = length (held_words held)" using ts(1) by (metis length_map)
        moreover from this have "ts = [] \<longleftrightarrow> held_words held = []" by (metis length_0_conv)
        ultimately show ?thesis using Cons True Some Inr ts
          by (cases "compose_entries L coverage m") (auto simp: e composable_def)
      qed
    qed
  qed
qed simp

text \<open>C28. A composition is the committed text of its coverage and nothing else: it succeeds exactly when
  every committed occurrence inside the coverage is qualified, has words (or was emptied by an explicit
  deletion) and declares word ranges its own serial supports; then the tokens, in capture order, are the
  words of the committed slots, and every token cites exactly the serial of the occurrence it was spoken
  in.\<close>

theorem composition_is_the_signed_text:
  "case compose L coverage of
      Inl r \<Rightarrow> \<not> list_all (composable L) (held_in L coverage)
    | Inr (c, tokens) \<Rightarrow> c = coverage \<and> list_all (composable L) (held_in L coverage)
        \<and> map we_token tokens = concat (map (\<lambda>(x, held). held_words held) (held_in L coverage))
        \<and> map we_serials tokens = concat (map (\<lambda>(x, held).
            replicate (length (held_words held)) [the (map_of (evidence L) x)]) (held_in L coverage))"
  using compose_entries_result [of L coverage "committed L"]
  by (cases "compose_entries L coverage (committed L)") (simp_all add: compose_def held_in_def)

end
