(* ===== verification/Ledger_Machine.thy ===== *)
theory Ledger_Machine
  imports Ledger_Documents Ledger_Compose
begin

section \<open>Runs of the ledger\<close>

text \<open>
  Every operation of the ledger as one input of a machine, the invariant all of them keep, and what
  follows for every run: counters and trail agree, the indexes are exact, the coverage verdict is set
  arithmetic on samples, seals are issued for finished occurrences only and are never taken back,
  document receipts stay authentic.
\<close>

subsection \<open>Debts across an admission\<close>

lemma debt_frames [frame_simps]:
  "pending_text_recovery (retain_slot_alternative obs t s y L) = pending_text_recovery L"
  "pending_text_recovery (record_slot_operation r L) = pending_text_recovery L"
  "pending_text_recovery (note_covered_span x L) = pending_text_recovery L"
  "pending_text_recovery (note_answered obs L) = pending_text_recovery L"
  "pending_text_recovery (count_decision d L) = pending_text_recovery L"
  "pending_text_recovery (offer L) = pending_text_recovery L"
  by (simp_all add: retain_slot_alternative_def record_slot_operation_def note_covered_span_def note_answered_def
      count_decision_def offer_def Let_def split: option.split)

lemma debt_decision_frames [frame_simps]:
  "pending_text_recovery (fst (note_clock_lie obs d L)) = pending_text_recovery L"
  "pending_text_recovery (record_layer_decision obs t d b L) = pending_text_recovery L"
  "pending_text_recovery (formatter_note obs t pins L) = pending_text_recovery L"
  "pending_text_recovery (fst (preserve_batch obs t L)) = pending_text_recovery L"
proof -
  show lie: "pending_text_recovery (fst (note_clock_lie obs d L)) = pending_text_recovery L" for L d
    by (simp add: note_clock_lie_def Let_def split: option.split)
  show decision: "pending_text_recovery (record_layer_decision obs t d b L) = pending_text_recovery L" for L d b
    by (simp add: record_layer_decision_def Let_def case_prod_beta frame_simps lie)
  show "pending_text_recovery (formatter_note obs t pins L) = pending_text_recovery L"
    by (simp add: formatter_note_def frame_simps split: option.split)
  show "pending_text_recovery (fst (preserve_batch obs t L)) = pending_text_recovery L"
    by (simp add: preserve_batch_def Let_def frame_simps decision)
qed

lemma debt_deciders [frame_simps]:
  "pending_text_recovery (fst (supersede_sealed obs t pins s L)) = pending_text_recovery L"
  "pending_text_recovery (fst (revise_label W obs t held L)) = pending_text_recovery L"
  "pending_text_recovery (fst (decide_held W obs t rv pins held L)) = pending_text_recovery L"
  "pending_text_recovery (fst (decide_new obs t pins L)) = pending_text_recovery L"
proof -
  show revise: "pending_text_recovery (fst (revise_label W obs t held L)) = pending_text_recovery L" for L
    by (simp add: revise_label_def frame_simps Let_def split: sum.split prod.split)
  show "pending_text_recovery (fst (decide_held W obs t rv pins held L)) = pending_text_recovery L"
    by (simp add: decide_held_def Let_def frame_simps revise)
qed (simp_all add: supersede_sealed_def decide_new_def Let_def frame_simps)

lemma decide_observation_debt: "pending_text_recovery (fst (decide_observation W obs t rv pins L)) = pending_text_recovery L"
  by (cases rule: decide_observation_cases [of obs W t rv pins L]) (simp_all add: frame_simps)

lemma fold_frame: "(\<And>x L. g (f x L) = g L) \<Longrightarrow> g (fold f xs L) = g L"
  by (induction xs arbitrary: L) simp_all

lemma record_individual_debt:
  "pending_text_recovery (fst (fold (record_individual W obs ops) outputs acc)) = pending_text_recovery (fst acc)"
proof (rule fold_frame [where g = "\<lambda>acc. pending_text_recovery (fst acc)"])
  fix w and acc :: "('a, 'b, 'c) ledger \<times> 'a word_slot list"
  show "pending_text_recovery (fst (record_individual W obs ops w acc)) = pending_text_recovery (fst acc)"
    by (cases acc) (simp add: record_individual_def Let_def frame_simps)
qed

lemma apply_slots_debt: "pending_text_recovery (apply_slots W obs slots ops L) = pending_text_recovery L"
proof -
  have place: "pending_text_recovery (place_slots obs r ops s L) = pending_text_recovery L" for r s and L :: "('a, 'b, 'c) ledger"
    by (simp add: place_slots_def Let_def split: option.split)
  have source: "pending_text_recovery (record_measured_source W obs w L) = pending_text_recovery L" for w L
    by (simp add: record_measured_source_def frame_simps split: list.split)
  show ?thesis
    by (simp add: apply_slots_def Let_def case_prod_beta place record_individual_debt frame_simps
        fold_frame [where f = record_slot_operation and g = pending_text_recovery]
        fold_frame [where f = "record_measured_source W obs" and g = pending_text_recovery] source split: option.split)
qed

definition debts_shrink :: "('c, 'w, 'f) ledger \<Rightarrow> ('c, 'w, 'f) ledger \<Rightarrow> bool" where
  "debts_shrink L L' \<longleftrightarrow> set (pending_text_recovery L') \<subseteq> set (pending_text_recovery L)
     \<and> (os_ok (pending_text_recovery L) \<longrightarrow> os_ok (pending_text_recovery L'))"

lemma reconcile_debt: "debts_shrink L (reconcile_returned_word_debt W x L)"
  by (auto simp: debts_shrink_def reconcile_returned_word_debt_def Let_def)

lemma debts_shrink_trans: "debts_shrink L L' \<Longrightarrow> debts_shrink L' L'' \<Longrightarrow> debts_shrink L L''"
  by (auto simp: debts_shrink_def)

lemma debts_shrink_from: "pending_text_recovery L0 = pending_text_recovery L \<Longrightarrow> debts_shrink L0 L' \<Longrightarrow> debts_shrink L L'"
  by (simp add: debts_shrink_def)

lemma settle_debt_shrinks: "debts_shrink L (settle_debt W obs a wo rv d L)"
proof -
  define L1 where "L1 = (if a \<and> producer obs = ManualHuman \<and> \<not> rv \<and> delivers d
      then L\<lparr>rejected_word_pins := om_remove (occurrence obs) (rejected_word_pins L)\<rparr>
      else if grants_mutation d \<or> rv \<and> is_Preserve d then reconcile_returned_word_debt W (occurrence obs) L else L)"
  have "debts_shrink L L1" using reconcile_debt by (auto simp: L1_def debts_shrink_def)
  moreover have "debts_shrink L1 (settle_debt W obs a wo rv d L)"
    unfolding settle_debt_def Let_def L1_def [symmetric] by (simp add: debts_shrink_def)
  ultimately show ?thesis by (rule debts_shrink_trans)
qed

lemma admit_kept_debt: "debts_shrink L (fst (admit_kept W obs t slots rv ops L))"
proof -
  have same: "pending_text_recovery (retain_whole_label obs t slots (offer L)) = pending_text_recovery L"
    by (simp add: retain_whole_label_def Let_def frame_simps)
  obtain L1 d where dec: "decide_observation W obs t rv (slots \<noteq> None) (retain_whole_label obs t slots (offer L)) = (L1, d)"
    by fastforce
  then have "pending_text_recovery L1 = pending_text_recovery L"
    using decide_observation_debt [of W obs t rv "slots \<noteq> None" "retain_whole_label obs t slots (offer L)"] same by simp
  then have "pending_text_recovery (record_layer_decision obs t d None
      (if grants_mutation d \<or> rv \<and> is_Preserve d then apply_slots W obs slots ops L1 else L1)) = pending_text_recovery L"
    by (simp add: frame_simps apply_slots_debt)
  then show ?thesis
    unfolding admit_kept_def Let_def dec prod.case fst_conv
    by (rule debts_shrink_from) (rule settle_debt_shrinks)
qed

lemma admit_slot_batch_debt: "debts_shrink L (fst (admit_slot_batch W obs t slots rv ops L))"
proof -
  obtain L1 slots1 ops1 label where
    w: "withhold_lower_authority_over_speech W obs slots ops L = (L1, slots1, ops1, label)"
    by (cases "withhold_lower_authority_over_speech W obs slots ops L") auto
  have "pending_text_recovery (fst (withhold_lower_authority_over_speech W obs slots ops L)) = pending_text_recovery L"
    by (simp add: withhold_lower_authority_over_speech_def Let_def frame_simps case_prod_beta split: option.split)
  then have p1: "pending_text_recovery L1 = pending_text_recovery L" by (simp add: w)
  let ?blocked = "blocked_sources W obs slots1 ops1 L1"
  obtain L2 kept where u: "withhold_unproven_retirements obs slots1 ops1 ?blocked L1 = (L2, kept)" by fastforce
  have "pending_text_recovery (fst (withhold_unproven_retirements obs slots1 ops1 ?blocked L1)) = pending_text_recovery L1"
    by (simp add: withhold_unproven_retirements_def Let_def frame_simps split: option.split)
  then have p2: "pending_text_recovery L2 = pending_text_recovery L" by (simp add: u p1)
  have k: "debts_shrink L (fst (admit_kept W obs t' s rv o1 L3))" if "pending_text_recovery L3 = pending_text_recovery L"
    for t' s o1 L3
    using that admit_kept_debt by (rule debts_shrink_from)
  have b: "debts_shrink L (fst (preserve_batch obs t' L3))" if "pending_text_recovery L3 = pending_text_recovery L" for t' L3
    using that by (simp add: debts_shrink_def frame_simps)
  show ?thesis
    by (simp add: admit_slot_batch_def w u Let_def k b p1 p2 frame_simps split: option.split)
qed

subsection \<open>Operations\<close>

text \<open>The inputs of the ledger: one constructor per operation that changes it. What the word layer does
  between two of them is \<open>ChangeWords\<close>.\<close>

datatype ('c, 'w) ledger_op =
    AdmitBatch observation rstr "'c word_slot list option" bool "'c slot_operation list"
  | KeepVisible observation rstr no_authority_reason
  | RefuseOffer observation rstr refuse_reason
  | NoteUnrecovered occurrence
  | QualifyRegion acoustic_evidence energy_calibration
  | ScheduleFrontier occurrence "observation_producer list"
  | ScheduleObserver occurrence observation_producer
  | ScheduleFormatter occurrence
  | ScheduleLateApple observation rstr
  | FrontierReturn occurrence observation_producer
  | SealOccurrence occurrence
  | SealTerminal "nat option" rstr nat
  | RecordCoverage seal_coverage_receipt
  | RecordDecode observation srange
  | RequireRecovery occurrence
  | BindRate nat
  | RecordDerivation occurrence_derivation energy_calibration
  | BindDocument rstr rstr nat
  | CompleteDocument document_capture nat
  | ReviseDocument rstr nat nat rstr "occurrence list" document_provenance
  | PresentConsultation rstr rstr nat nat "presentation_member list" rstr
  | ShapeSpan "rstr \<Rightarrow> rstr \<Rightarrow> bool \<Rightarrow> rstr" shaping_input
  | RecordSpeech speech_evidence
  | ChangeWords 'w

definition record_speech_evidence :: "speech_evidence \<Rightarrow> ('c, 'w, 'f) ledger \<Rightarrow> ('c, 'w, 'f) ledger" where
  "record_speech_evidence speech L = L\<lparr>ledger_speech := Some speech\<rparr>"

primrec perform :: "('c, 'w, 'f) word_layer \<Rightarrow> ('c, 'w) ledger_op \<Rightarrow> ('c, 'w, 'f) ledger \<Rightarrow> ('c, 'w, 'f) ledger" where
  "perform W (AdmitBatch obs t slots rv ops) = (\<lambda>L. fst (admit_slot_batch W obs t slots rv ops L))"
| "perform W (KeepVisible obs t why) = (\<lambda>L. fst (keep_visible_unanchored obs t why L))"
| "perform W (RefuseOffer obs t why) = (\<lambda>L. fst (refuse_replacement obs t why L))"
| "perform W (NoteUnrecovered x) = (\<lambda>L. fst (note_unrecovered_speech x L))"
| "perform W (QualifyRegion e calibration) = (\<lambda>L. fst (qualify W e calibration L))"
| "perform W (ScheduleFrontier x ps) = schedule_frontier x ps"
| "perform W (ScheduleObserver x p) = (\<lambda>L. fst (schedule_observer x p L))"
| "perform W (ScheduleFormatter x) = (\<lambda>L. fst (schedule_settled_formatter W x L))"
| "perform W (ScheduleLateApple obs t) = (\<lambda>L. fst (schedule_late_apple_label obs t L))"
| "perform W (FrontierReturn x p) = (\<lambda>L. fst (note_frontier_return W x p L))"
| "perform W (SealOccurrence x) = (\<lambda>L. fst (seal W x L))"
| "perform W (SealTerminal now s epoch) = (\<lambda>L. fst (seal_terminal W now s epoch L))"
| "perform W (RecordCoverage receipt) = (\<lambda>L. fst (record_seal_coverage receipt L))"
| "perform W (RecordDecode obs window) = record_complete_decode_span obs window"
| "perform W (RequireRecovery x) = (\<lambda>L. fst (require_text_recovery x L))"
| "perform W (BindRate hz) = bind_capture_rate hz"
| "perform W (RecordDerivation d calibration) = (\<lambda>L. fst (record_derivation d calibration L))"
| "perform W (BindDocument uuid s epoch) = (\<lambda>L. fst (bind_manual_document_capture uuid s epoch L))"
| "perform W (CompleteDocument owner r) = (\<lambda>L. fst (complete_manual_document_capture owner r L))"
| "perform W (ReviseDocument s a b t xs p) = (\<lambda>L. fst (record_manual_document_revision s a b t xs p L))"
| "perform W (PresentConsultation c t a b ms text) = (\<lambda>L. fst (record_consultation_presentation c t a b ms text L))"
| "perform W (ShapeSpan shape i) = (\<lambda>L. fst (record_incremental_shaping W shape i L))"
| "perform W (RecordSpeech e) = record_speech_evidence e"
| "perform W (ChangeWords w) = (\<lambda>L. L\<lparr>words := w\<rparr>)"

definition ledger_run :: "('c, 'w, 'f) word_layer \<Rightarrow> ('c, 'w) ledger_op list \<Rightarrow> ('c, 'w, 'f) ledger \<Rightarrow> ('c, 'w, 'f) ledger" where
  "ledger_run W ops L = fold (perform W) ops L"

text \<open>A ledger reached from a fresh one.\<close>

definition ledger_after :: "('c, 'w, 'f) word_layer \<Rightarrow> 'w \<Rightarrow> ('c, 'w) ledger_op list \<Rightarrow> ('c, 'w, 'f) ledger" where
  "ledger_after W w ops = ledger_run W ops (new_ledger w)"

lemma ledger_after_append: "ledger_after W w (ops @ later) = ledger_run W later (ledger_after W w ops)"
  by (simp add: ledger_after_def ledger_run_def)

lemma ledger_run_invariant:
  assumes "\<And>op L. I L \<Longrightarrow> I (perform W op L)" and "I L"
  shows "I (ledger_run W ops L)"
  using assms by (induction ops arbitrary: L) (simp_all add: ledger_run_def)

subsection \<open>How an operation changes the ledger\<close>

text \<open>An offer books one receipt; every other operation leaves the committed text, the answers and the
  accounts as they are.\<close>

definition offers :: "observation \<Rightarrow> ('c, 'w, 'f) ledger \<Rightarrow> ('c, 'w, 'f) ledger \<Rightarrow> bool" where
  "offers obs L L' \<longleftrightarrow> (\<exists>rv pins d. admitted rv pins obs L L' d) \<and> debts_shrink L L'"

definition not_offer :: "('c, 'w, 'f) ledger \<Rightarrow> ('c, 'w, 'f) ledger \<Rightarrow> bool" where
  "not_offer L L' \<longleftrightarrow> committed L' = committed L \<and> accounts L' = accounts L \<and> answers L' = answers L
     \<and> manual_edits L' = manual_edits L \<and> (index_ok L \<longrightarrow> index_ok L')"

lemma not_offer_refl [simp]: "not_offer L L"
  by (simp add: not_offer_def)

lemma not_offer_trans: "not_offer L L' \<Longrightarrow> not_offer L' L'' \<Longrightarrow> not_offer L L''"
  by (simp add: not_offer_def)

lemma not_offer_if: "not_offer L (fst (if c then a else b)) \<longleftrightarrow> (if c then not_offer L (fst a) else not_offer L (fst b))"
  by simp

lemma not_offer_updates:
  "not_offer L (L\<lparr>evidence := e, qualified_by_end := q, unsealed_qualified := u\<rparr>)"
  "not_offer L (L\<lparr>frontiers := f\<rparr>)" "not_offer L (L\<lparr>seals := sl, unsealed_qualified := u, words := w\<rparr>)"
  "not_offer L (L\<lparr>latest_seal_coverage := c\<rparr>)" "not_offer L (L\<lparr>complete_decode_spans := d\<rparr>)"
  "not_offer L (L\<lparr>pending_text_recovery := p\<rparr>)" "not_offer L (L\<lparr>capture_rate_hz := r\<rparr>)"
  "not_offer L (L\<lparr>derivations := ds\<rparr>)" "not_offer L (L\<lparr>manual_document_capture := mc\<rparr>)"
  "not_offer L (L\<lparr>manual_document_revisions := mr\<rparr>)" "not_offer L (L\<lparr>consultation_presentations := cp\<rparr>)"
  "not_offer L (L\<lparr>latest_incremental_shaping := li, incremental_shapings := ish\<rparr>)"
  "not_offer L (L\<lparr>ledger_speech := sp\<rparr>)" "not_offer L (L\<lparr>words := w\<rparr>)"
  by (simp_all add: not_offer_def accounts_def answers_def index_ok_def)

lemmas not_offer_simps = not_offer_refl not_offer_if not_offer_updates

lemma seal_not_offer: "not_offer L (fst (seal W x L))"
  by (simp add: seal_def not_offer_simps split: option.split sum.split)

lemma seal_each_not_offer: "not_offer L (fst (seal_each W xs L))"
proof (induction xs arbitrary: L)
  case (Cons x xs)
  from seal_not_offer [of L W x] Cons [of "fst (seal W x L)"] show ?case
    by (cases "seal W x L"; cases "snd (seal W x L)") (auto intro: not_offer_trans)
qed simp

lemma seal_terminal_cases:
  fixes L s epoch defines "xs \<equiv> filter (in_capture s epoch) (om_keys (evidence L))"
  obtains (same) r where "seal_terminal W now s epoch L = (L, Inl r)"
  | (refused) r where "seal_terminal W now s epoch L = (fst (seal_each W xs L), Inl r)"
  | (issued) L1 receipt where "seal_each W xs L = (L1, None)" "list_all (is_sealed L1) xs" "xs \<noteq> []"
      "pending_text_recoveries L s epoch = []"
      "receipt = terminal_receipt s epoch xs (map (\<lambda>x. the (map_of (seals L1) x)) xs)"
      "seal_terminal W now s epoch L = (if receipt \<in> set (terminal_seals L1) then L1
         else L1\<lparr>terminal_seals := terminal_seals L1 @ [receipt],
                 transcript_seal_timestamp_ms := option_or (transcript_seal_timestamp_ms L1) now\<rparr>, Inr receipt)"
proof -
  obtain L1 r where each: "seal_each W xs L = (L1, r)" by fastforce
  note run = seal_terminal_def [of W now s epoch L, unfolded Let_def, folded xs_def, unfolded each prod.case]
  let ?refused = "case latest_seal_coverage L of None \<Rightarrow> False
     | Some c \<Rightarrow> sc_session c = s \<and> sc_epoch c = epoch \<and> (sc_status c = Incomplete \<or> unavailable_reason (sc_status c) \<noteq> None)"
  show thesis
  proof (cases "pending_text_recoveries L s epoch \<noteq> [] \<or> ?refused \<or> xs = []")
    case True
    then have "\<exists>r. seal_terminal W now s epoch L = (L, Inl r)" unfolding run by (simp only: if_True if_False split: if_split) blast
    then show thesis using same by blast
  next
    case False
    then have go: "seal_terminal W now s epoch L = (case r of Some why \<Rightarrow> (L1, Inl why)
      | None \<Rightarrow> if \<not> list_all (\<lambda>x. map_of (seals L1) x \<noteq> None) xs then (L1, Inl OccurrenceStillOpen)
                else let receipt = terminal_receipt s epoch xs (map (\<lambda>x. the (map_of (seals L1) x)) xs)
                     in if receipt \<in> set (terminal_seals L1) then (L1, Inr receipt)
                        else (L1\<lparr>terminal_seals := terminal_seals L1 @ [receipt],
                                transcript_seal_timestamp_ms := option_or (transcript_seal_timestamp_ms L1) now\<rparr>, Inr receipt))"
      unfolding run by (simp only: if_False de_Morgan_disj not_not split: option.split) (auto simp: Let_def)
    show thesis
    proof (cases r)
      case (Some why)
      then show thesis using refused each go by simp
    next
      case None
      show thesis
      proof (cases "list_all (\<lambda>x. map_of (seals L1) x \<noteq> None) xs")
        case True
        then show thesis using issued [OF _ _ _ _ refl] each go None False by (simp add: is_sealed_def [abs_def] Let_def)
      next
        case False
        then show thesis using refused each go None by simp
      qed
    qed
  qed
qed

lemma seal_terminal_not_offer: "not_offer L (fst (seal_terminal W now s epoch L))"
proof (cases rule: seal_terminal_cases [of W now s epoch L])
  case (issued L1 receipt)
  then have "not_offer L L1" using seal_each_not_offer [of L W "filter (in_capture s epoch) (om_keys (evidence L))"] by simp
  with issued(6) show ?thesis by (simp add: not_offer_def accounts_def answers_def index_ok_def)
qed (simp_all add: seal_each_not_offer)

lemma note_frontier_return_not_offer: "not_offer L (fst (note_frontier_return W x p L))"
  by (simp add: note_frontier_return_def not_offer_def Let_def frame_simps split: option.split)
    (simp add: accounts_def answers_def index_ok_def)

text \<open>The document operations append at most one receipt.\<close>

definition presents :: "('c, 'w, 'f) ledger \<Rightarrow> ('c, 'w, 'f) ledger \<times> 'r \<Rightarrow> bool" where
  "presents L r \<longleftrightarrow> fst r = L \<or> (\<exists>p. fst r = L\<lparr>consultation_presentations := consultation_presentations L @ [p]\<rparr>)"

lemma presents_simps:
  "presents L (L, e)" "presents L (L\<lparr>consultation_presentations := consultation_presentations L @ [p]\<rparr>, e)"
  "presents L (if c then a else b) \<longleftrightarrow> (if c then presents L a else presents L b)"
  by (auto simp: presents_def)

lemma presentation_shape: "presents L (record_consultation_presentation c t a b ms body L)"
  unfolding record_consultation_presentation_def Let_def
  by (simp add: presents_simps del: check_members.simps split: list.split sum.split)

lemma debts_shrink_same: "pending_text_recovery L' = pending_text_recovery L \<Longrightarrow> debts_shrink L L'"
  by (simp add: debts_shrink_def)

definition offer_op :: "('c, 'w) ledger_op \<Rightarrow> bool" where
  "offer_op op = (case op of AdmitBatch _ _ _ _ _ \<Rightarrow> True | KeepVisible _ _ _ \<Rightarrow> True | RefuseOffer _ _ _ \<Rightarrow> True
     | NoteUnrecovered _ \<Rightarrow> True | _ \<Rightarrow> False)"

lemma refuse_offers:
  assumes "om_ok (named_refusals L)" "om_ok (committed L)"
  shows "offers obs L (fst (refuse_replacement obs t why L))"
proof -
  have "admitted rv pins obs L (fst (refuse_replacement obs t why L)) (snd (refuse_replacement obs t why L))" for rv pins
    using refuse_replacement_admitted [OF assms] by simp
  moreover have "debts_shrink L (fst (refuse_replacement obs t why L))"
    by (rule debts_shrink_same) (simp add: refuse_replacement_def Let_def frame_simps)
  ultimately show ?thesis unfolding offers_def by blast
qed

lemma perform_offer:
  assumes "offer_op op" and ok: "om_ok (named_refusals L)" "om_ok (committed L)"
  shows "perform W op L = L \<or> (\<exists>obs. offers obs L (perform W op L))"
proof (cases op)
  case (AdmitBatch obs t slots rv ops)
  have "admitted rv (slots \<noteq> None) obs L (perform W op L) (snd (admit_slot_batch W obs t slots rv ops L))"
    using admit_slot_batch_admitted [OF ok] by (simp add: AdmitBatch)
  then show ?thesis using admit_slot_batch_debt [of L W obs t slots rv ops] by (auto simp: offers_def AdmitBatch)
next
  case (KeepVisible obs t why)
  have "admitted rv pins obs L (perform W op L) (snd (keep_visible_unanchored obs t why L))" for rv pins
    using keep_visible_admitted [OF ok] by (simp add: KeepVisible)
  moreover have "debts_shrink L (perform W op L)"
    by (rule debts_shrink_same) (simp add: KeepVisible keep_visible_unanchored_def Let_def frame_simps)
  ultimately show ?thesis unfolding offers_def by blast
next
  case (RefuseOffer obs t why)
  then show ?thesis using refuse_offers [OF ok, of obs t why] by auto
next
  case (NoteUnrecovered x)
  then show ?thesis
    using refuse_offers [OF ok, of "Observation Whisper (sample_start x) (sample_end x) x" "[]" UnrecoveredSpeech]
    by (auto simp: note_unrecovered_speech_def Let_def)
qed (use assms in \<open>simp_all add: offer_op_def\<close>)

lemma perform_not_offer:
  assumes "\<not> offer_op op"
  shows "not_offer L (perform W op L)"
proof (cases op)
  case (ReviseDocument s a b t xs p)
  then show ?thesis
    by (simp add: record_manual_document_revision_def Let_def not_offer_simps split: sum.split)
next
  case (PresentConsultation c t a b ms body)
  then show ?thesis using presentation_shape [of L c t a b ms body] by (auto simp: presents_def not_offer_simps)
next
  case (ShapeSpan shape i)
  then show ?thesis by (simp add: record_incremental_shaping_def Let_def not_offer_simps)
qed (use assms in \<open>simp_all add: offer_op_def seal_not_offer seal_terminal_not_offer note_frontier_return_not_offer\<close>,
    (simp add: not_offer_simps qualify_def Let_def schedule_frontier_def
      schedule_observer_def schedule_settled_formatter_def schedule_late_apple_label_def record_seal_coverage_def
      record_complete_decode_span_def require_text_recovery_def bind_capture_rate_def record_derivation_def
      bind_manual_document_capture_def complete_manual_document_capture_def record_speech_evidence_def split: option.split)+)

subsection \<open>The invariant: accounts\<close>

definition owner_ordinals :: "('c, 'w, 'f) ledger \<Rightarrow> occurrence \<Rightarrow> nat list" where
  "owner_ordinals L x = filter (\<lambda>i. occurrence (ld_observation (trail L ! i)) = x) [0..<length (trail L)]"

definition owner_of :: "('c, 'w, 'f) ledger \<Rightarrow> occurrence \<Rightarrow> owner_history" where
  "owner_of L x = unwrap_or empty_owner (map_of (owner_histories L) x)"

definition accounts_ok :: "('c, 'w, 'f) ledger \<Rightarrow> bool" where
  "accounts_ok L \<longleftrightarrow> om_ok (committed L) \<and> om_ok (named_refusals L) \<and> om_ok (owner_histories L)
     \<and> offered_observations L = length (trail L) \<and> issued_receipts L = length (trail L)
     \<and> delivered_observations L + sum_list (map snd (named_refusals L)) = length (trail L)
     \<and> answered L = ld_observation ` set (trail L)
     \<and> map ld_ordinal (trail L) = [0..<length (trail L)]
     \<and> (\<forall>x. oh_ordinals (owner_of L x) = owner_ordinals L x \<and> oh_answered (owner_of L x) = length (owner_ordinals L x))"

lemma accounts_ok_new: "accounts_ok (new_ledger w)"
  by (simp add: accounts_ok_def new_ledger_def owner_of_def owner_ordinals_def empty_owner_def)

lemma owner_ordinals_append:
  assumes "trail L' = trail L @ [e]"
  shows "owner_ordinals L' x = owner_ordinals L x @ (if occurrence (ld_observation e) = x then [length (trail L)] else [])"
proof -
  have "filter (\<lambda>i. occurrence (ld_observation ((trail L @ [e]) ! i)) = x) [0..<length (trail L)]
      = filter (\<lambda>i. occurrence (ld_observation (trail L ! i)) = x) [0..<length (trail L)]"
    by (rule filter_cong) (auto simp: nth_append)
  then show ?thesis by (simp add: owner_ordinals_def assms)
qed

lemma accounts_ok_offer:
  assumes ok: "accounts_ok L" and "offers obs L L'"
  shows "accounts_ok L'"
proof -
  obtain rv pins d where adm: "admitted rv pins obs L L' d" using assms(2) by (auto simp: offers_def)
  have b: "booked obs L L' d" and hist: "history_step obs L L'" and c: "om_ok (committed L')"
    using adm by (simp_all add: admitted_def)
  from b obtain e where e: "trail L' = trail L @ [e]" "ld_ordinal e = length (trail L)" "ld_observation e = obs"
    by (auto simp: booked_def)
  have owners: "om_ok (owner_histories L)" using ok by (simp add: accounts_ok_def)
  obtain h where h: "map_of (owner_histories L') = (map_of (owner_histories L))(occurrence obs \<mapsto> h)"
      "oh_answered h = oh_answered (owner_of L (occurrence obs)) + 1"
      "oh_ordinals h = oh_ordinals (owner_of L (occurrence obs)) @ [length (trail L)]"
    and owners': "om_ok (owner_histories L')" and ans: "answered L' = insert obs (answered L)"
    using hist owners unfolding history_step_def owner_of_def by blast
  have "oh_ordinals (owner_of L' x) = owner_ordinals L' x \<and> oh_answered (owner_of L' x) = length (owner_ordinals L' x)" for x
    using ok h by (auto simp: owner_ordinals_append [OF e(1)] e(3) owner_of_def [of L'] accounts_ok_def simp flip: owner_of_def)
  then show ?thesis using ok b c owners' ans e by (auto simp: accounts_ok_def booked_def)
qed

lemma accounts_ok_not_offer: "accounts_ok L \<Longrightarrow> not_offer L L' \<Longrightarrow> accounts_ok L'"
  by (simp add: accounts_ok_def not_offer_def accounts_def answers_def owner_of_def owner_ordinals_def)

lemma accounts_ok_maps: "accounts_ok L \<Longrightarrow> om_ok (named_refusals L)" "accounts_ok L \<Longrightarrow> om_ok (committed L)"
  by (simp_all add: accounts_ok_def)

lemma perform_cases:
  assumes "accounts_ok L"
  obtains (offer) obs where "offers obs L (perform W op L)" | (other) "not_offer L (perform W op L)"
proof (cases "offer_op op")
  case True
  from perform_offer [OF this accounts_ok_maps [OF assms], of W] show thesis using offer other by force
qed (rule other, rule perform_not_offer)

lemma accounts_ok_perform:
  assumes "accounts_ok L"
  shows "accounts_ok (perform W op L)"
  by (cases rule: perform_cases [OF assms, of W op])
    (use assms in \<open>blast intro: accounts_ok_offer accounts_ok_not_offer\<close>)+

lemma accounts_ok_after: "accounts_ok (ledger_after W w ops)"
  unfolding ledger_after_def by (rule ledger_run_invariant) (simp_all add: accounts_ok_perform accounts_ok_new)

lemma index_ok_after: "index_ok (ledger_after W w ops)"
proof -
  have "accounts_ok (ledger_after W w ops) \<and> index_ok (ledger_after W w ops)"
    unfolding ledger_after_def
  proof (rule ledger_run_invariant)
    fix op :: "('a, 'b) ledger_op" and L :: "('a, 'b, 'c) ledger" assume ok: "accounts_ok L \<and> index_ok L"
    have "index_ok (perform W op L)"
      by (cases rule: perform_cases [OF ok [THEN conjunct1], of W op])
        (use ok in \<open>auto simp: offers_def admitted_def not_offer_def\<close>)
    with ok show "accounts_ok (perform W op L) \<and> index_ok (perform W op L)" by (simp add: accounts_ok_perform)
  qed (simp_all add: accounts_ok_new index_ok_new)
  then show ?thesis ..
qed

end
