(* ===== verification/Ledger_Finality.thy ===== *)
theory Ledger_Finality
  imports Ledger_Machine
begin

section \<open>Evidence, seals and coverage along every run\<close>

text \<open>
  The invariant of the physical side of the ledger and what it gives for every run: the qualified
  index is exact, the coverage verdict is set arithmetic on samples, an occurrence seal is issued for
  finished occurrences only and never taken back, a terminal seal covers the whole capture.
\<close>

subsection \<open>The invariant: physical facts\<close>

definition physical_ok :: "('c, 'w, 'f) ledger \<Rightarrow> bool" where
  "physical_ok L \<longleftrightarrow> om_ok (evidence L) \<and> om_ok (seals L) \<and> om_ok (qualified_by_end L)
     \<and> (\<forall>x s. map_of (evidence L) x = Some s \<longrightarrow> is_anchored x \<and> as_occurrence s = x)
     \<and> os_ok (unsealed_qualified L) \<and> set (unsealed_qualified L) = {x. is_qualified L x \<and> \<not> is_sealed L x}
     \<and> (\<forall>x. is_sealed L x \<longrightarrow> is_qualified L x)
     \<and> (\<forall>e. os_ok (unwrap_or [] (map_of (qualified_by_end L) e))
            \<and> set (unwrap_or [] (map_of (qualified_by_end L) e)) = {x. is_qualified L x \<and> sample_end x = e})"

lemmas physical_parts = physical_ok_def is_qualified_def is_sealed_def

lemma physical_ok_new: "physical_ok (new_ledger w)"
  by (simp add: physical_parts new_ledger_def)

lemma physical_ok_qualify:
  assumes "physical_ok L"
  shows "physical_ok (fst (qualify W e c L))"
proof -
  let ?x = "ae_occurrence e"
  have "physical_ok (L\<lparr>evidence := om_insert ?x (mint W e) (evidence L),
      qualified_by_end := om_adjust (sample_end ?x) [] (os_insert ?x) (qualified_by_end L),
      unsealed_qualified := (if is_sealed L ?x then unsealed_qualified L else os_insert ?x (unsealed_qualified L))\<rparr>)"
    if "is_anchored ?x"
    using assms that by (auto simp: physical_parts mint_def)
  then show ?thesis using assms by (auto simp: qualify_def Let_def)
qed

lemma mint_seal_qualified: "mint_seal W L x = Inr r \<Longrightarrow> is_qualified L x"
  by (auto simp: mint_seal_def is_qualified_def split: if_splits option.splits)

lemma seal_cases:
  obtains (refused) r where "seal W x L = (L, Inl r)" "mint_seal W L x = Inl r" "\<not> is_sealed L x"
  | (held) s where "seal W x L = (L, Inr s)" "map_of (seals L) x = Some s"
  | (minted) s where "seal W x L = (L\<lparr>seals := om_insert x s (seals L), unsealed_qualified := os_remove x (unsealed_qualified L),
       words := close_word_components W (words L) x\<rparr>, Inr s)" "mint_seal W L x = Inr s" "\<not> is_sealed L x"
proof (cases "map_of (seals L) x")
  case (Some s)
  then show thesis using held by (simp add: seal_def)
next
  case None
  show thesis
  proof (cases "mint_seal W L x")
    case (Inl r)
    with None show thesis by (intro refused) (simp_all add: seal_def is_sealed_def)
  next
    case (Inr s)
    with None show thesis by (intro minted) (simp_all add: seal_def is_sealed_def)
  qed
qed

lemma physical_ok_seal:
  assumes "physical_ok L"
  shows "physical_ok (fst (seal W x L))"
proof (cases rule: seal_cases [of W x L])
  case (minted s)
  with mint_seal_qualified [OF minted(2)] assms show ?thesis by (auto simp: physical_parts)
qed (use assms in simp_all)

lemma seal_each_invariant:
  assumes step: "\<And>x L. I L \<Longrightarrow> I (fst (seal W x L))" and "I L"
  shows "I (fst (seal_each W xs L))"
  using assms(2)
proof (induction xs arbitrary: L)
  case (Cons x xs)
  from step [OF Cons.prems, of x] Cons.prems Cons.IH show ?case
    by (cases "seal W x L"; cases "snd (seal W x L)") auto
qed simp

lemma seal_terminal_invariant:
  assumes "\<And>x L. I L \<Longrightarrow> I (fst (seal W x L))" and "I L"
    and "\<And>L ts t. I L \<Longrightarrow> I (L\<lparr>terminal_seals := ts, transcript_seal_timestamp_ms := t\<rparr>)"
  shows "I (fst (seal_terminal W now s epoch L))"
proof (cases rule: seal_terminal_cases [of W now s epoch L])
  case (issued L1 receipt)
  then have "I L1" using seal_each_invariant [of I, OF assms(1,2), of "filter (in_capture s epoch) (om_keys (evidence L))"] by simp
  with issued(6) assms(3) show ?thesis by simp
qed (use seal_each_invariant [of I, OF assms(1,2)] assms(2) in simp_all)

text \<open>The facts only qualification and sealing change.\<close>

definition core :: "('c, 'w, 'f) ledger \<Rightarrow> _" where
  "core L = (evidence L, seals L, qualified_by_end L, unsealed_qualified L)"

definition touches_core :: "('c, 'w) ledger_op \<Rightarrow> bool" where
  "touches_core op = (case op of QualifyRegion _ _ \<Rightarrow> True | SealOccurrence _ \<Rightarrow> True | SealTerminal _ _ _ \<Rightarrow> True | _ \<Rightarrow> False)"

lemma core_updates [simp]:
  "core (L\<lparr>frontiers := f\<rparr>) = core L" "core (L\<lparr>latest_seal_coverage := c\<rparr>) = core L"
  "core (L\<lparr>complete_decode_spans := d\<rparr>) = core L" "core (L\<lparr>pending_text_recovery := p\<rparr>) = core L"
  "core (L\<lparr>capture_rate_hz := r\<rparr>) = core L" "core (L\<lparr>derivations := ds\<rparr>) = core L"
  "core (L\<lparr>manual_document_capture := mc\<rparr>) = core L" "core (L\<lparr>manual_document_revisions := mr\<rparr>) = core L"
  "core (L\<lparr>consultation_presentations := cp\<rparr>) = core L"
  "core (L\<lparr>latest_incremental_shaping := li, incremental_shapings := ish\<rparr>) = core L"
  "core (L\<lparr>ledger_speech := sp\<rparr>) = core L" "core (L\<lparr>words := w\<rparr>) = core L"
  by (simp_all add: core_def)

lemma core_of_physical: "physical L' = physical L \<Longrightarrow> core L' = core L"
  by (simp add: physical_def core_def)

lemma core_perform:
  assumes ok: "accounts_ok L" and op: "\<not> touches_core op"
  shows "core (perform W op L) = core L"
proof (cases "offer_op op")
  case True
  then show ?thesis
    using perform_offer [OF True accounts_ok_maps [OF ok], of W] core_of_physical by (auto simp: offers_def admitted_def)
next
  case other: False
  show ?thesis
  proof (cases op)
  case (FrontierReturn x p)
  have "core (reconcile_returned_word_debt W x L') = core L'" for L' by (rule core_of_physical) (simp add: frame_simps)
  then show ?thesis by (simp add: FrontierReturn note_frontier_return_def Let_def split: option.split)
next
  case (PresentConsultation c t a b ms body)
  then show ?thesis using presentation_shape [of L c t a b ms body] by (auto simp: presents_def)
next
  case (ReviseDocument s a b t xs p)
  then show ?thesis by (simp add: record_manual_document_revision_def Let_def split: sum.split)
next
  case (ShapeSpan shape i)
  then show ?thesis by (simp add: record_incremental_shaping_def Let_def)
qed (use op other in \<open>simp_all add: touches_core_def offer_op_def schedule_frontier_def schedule_observer_def schedule_settled_formatter_def
      schedule_late_apple_label_def record_seal_coverage_def record_complete_decode_span_def require_text_recovery_def
      bind_capture_rate_def record_derivation_def bind_manual_document_capture_def complete_manual_document_capture_def
      record_speech_evidence_def Let_def split: option.split\<close>)
qed

lemma physical_ok_core: "core L' = core L \<Longrightarrow> physical_ok L' = physical_ok L"
  by (simp add: physical_parts core_def)

lemma touches_core_cases:
  assumes "touches_core op"
  obtains (qualify) e c where "op = QualifyRegion e c" | (seal) x where "op = SealOccurrence x"
  | (terminal) now s epoch where "op = SealTerminal now s epoch"
  using assms by (auto simp: touches_core_def split: ledger_op.splits)

lemma physical_ok_perform:
  assumes ok: "accounts_ok L" "physical_ok L"
  shows "physical_ok (perform W op L)"
proof (cases "touches_core op")
  case True
  then show ?thesis
  proof (cases rule: touches_core_cases)
    case (terminal now s epoch)
    then show ?thesis using seal_terminal_invariant [of physical_ok, OF physical_ok_seal ok(2)]
      by (simp add: physical_parts)
  qed (simp_all add: physical_ok_qualify physical_ok_seal ok)
next
  case False
  then show ?thesis using core_perform [OF ok(1)] physical_ok_core ok(2) by blast
qed

subsection \<open>The invariant: frontiers, decode windows and debts\<close>

definition upkeep_ok :: "('c, 'w, 'f) ledger \<Rightarrow> bool" where
  "upkeep_ok L \<longleftrightarrow> om_ok (frontiers L) \<and> spans_ok L \<and> os_ok (pending_text_recovery L)
     \<and> (\<forall>x \<in> set (pending_text_recovery L). is_qualified L x)"

lemma upkeep_ok_new: "upkeep_ok (new_ledger w)"
  by (simp add: upkeep_ok_def new_ledger_def spans_ok_def)

lemma upkeep_ok_frame:
  assumes "upkeep_ok L" and "om_ok (frontiers L')" and "complete_decode_spans L' = complete_decode_spans L"
    and "debts_shrink L L'" and "\<And>x. is_qualified L x \<Longrightarrow> is_qualified L' x"
  shows "upkeep_ok L'"
  using assms by (auto simp: upkeep_ok_def spans_ok_def debts_shrink_def)

lemma upkeep_updates:
  "upkeep_ok L \<Longrightarrow> upkeep_ok (L\<lparr>frontiers := om_insert x f (frontiers L)\<rparr>)"
  "upkeep_ok L \<Longrightarrow> upkeep_ok (L\<lparr>latest_seal_coverage := c\<rparr>)" "upkeep_ok L \<Longrightarrow> upkeep_ok (L\<lparr>capture_rate_hz := r\<rparr>)"
  "upkeep_ok L \<Longrightarrow> upkeep_ok (L\<lparr>derivations := ds\<rparr>)" "upkeep_ok L \<Longrightarrow> upkeep_ok (L\<lparr>manual_document_capture := mc\<rparr>)"
  "upkeep_ok L \<Longrightarrow> upkeep_ok (L\<lparr>manual_document_revisions := mr\<rparr>)"
  "upkeep_ok L \<Longrightarrow> upkeep_ok (L\<lparr>consultation_presentations := cp\<rparr>)"
  "upkeep_ok L \<Longrightarrow> upkeep_ok (L\<lparr>latest_incremental_shaping := li, incremental_shapings := ish\<rparr>)"
  "upkeep_ok L \<Longrightarrow> upkeep_ok (L\<lparr>ledger_speech := sp\<rparr>)" "upkeep_ok L \<Longrightarrow> upkeep_ok (L\<lparr>words := w\<rparr>)"
  "upkeep_ok L \<Longrightarrow> upkeep_ok (L\<lparr>seals := sl, unsealed_qualified := u, words := w\<rparr>)"
  "upkeep_ok L \<Longrightarrow> upkeep_ok (L\<lparr>terminal_seals := ts, transcript_seal_timestamp_ms := t\<rparr>)"
  by (simp_all add: upkeep_ok_def spans_ok_def is_qualified_def)

lemma offers_physical: "offers obs L L' \<Longrightarrow> physical L' = physical L"
  by (auto simp: offers_def admitted_def)

lemma upkeep_ok_offer:
  assumes "upkeep_ok L" and "offers obs L L'"
  shows "upkeep_ok L'"
proof -
  have "frontiers L' = frontiers L" "complete_decode_spans L' = complete_decode_spans L" "evidence L' = evidence L"
    using offers_physical [OF assms(2)] by (simp_all add: physical_def)
  then show ?thesis using assms by (intro upkeep_ok_frame [OF assms(1)]) (simp_all add: offers_def upkeep_ok_def is_qualified_def)
qed

lemma upkeep_ok_seal: "upkeep_ok L \<Longrightarrow> upkeep_ok (fst (seal W x L))"
  by (cases rule: seal_cases [of W x L]) (simp_all add: upkeep_updates)

lemma upkeep_ok_qualify:
  assumes "upkeep_ok L" and "om_ok (evidence L)"
  shows "upkeep_ok (fst (qualify W e c L))"
  using assms by (auto simp: qualify_def Let_def upkeep_ok_def spans_ok_def is_qualified_def)

lemma upkeep_ok_return:
  assumes "upkeep_ok L"
  shows "upkeep_ok (fst (note_frontier_return W x p L))"
proof -
  have "upkeep_ok (reconcile_returned_word_debt W x L')" if "upkeep_ok L'" for L'
  proof (rule upkeep_ok_frame [OF that])
    have "physical (reconcile_returned_word_debt W x L') = physical L'" by (simp add: frame_simps)
    then have "frontiers (reconcile_returned_word_debt W x L') = frontiers L'"
      "complete_decode_spans (reconcile_returned_word_debt W x L') = complete_decode_spans L'"
      "evidence (reconcile_returned_word_debt W x L') = evidence L'" by (simp_all add: physical_def)
    then show "om_ok (frontiers (reconcile_returned_word_debt W x L'))"
      "complete_decode_spans (reconcile_returned_word_debt W x L') = complete_decode_spans L'"
      "\<And>y. is_qualified L' y \<Longrightarrow> is_qualified (reconcile_returned_word_debt W x L') y"
      using that by (simp_all add: upkeep_ok_def is_qualified_def)
  qed (rule reconcile_debt)
  then show ?thesis using assms by (simp add: note_frontier_return_def Let_def upkeep_updates split: option.split)
qed

lemma upkeep_ok_recovery: "upkeep_ok L \<Longrightarrow> upkeep_ok (fst (require_text_recovery x L))"
  by (auto simp: require_text_recovery_def upkeep_ok_def spans_ok_def is_qualified_def)

lemma upkeep_ok_decode: "upkeep_ok L \<Longrightarrow> upkeep_ok (record_complete_decode_span obs window L)"
  using record_complete_decode_span_spec(1) [of L obs window]
  unfolding upkeep_ok_def is_qualified_def by (simp add: record_complete_decode_span_def)

lemma upkeep_ok_perform:
  assumes ok: "accounts_ok L" "physical_ok L" "upkeep_ok L"
  shows "upkeep_ok (perform W op L)"
proof (cases "offer_op op")
  case True
  then show ?thesis using perform_offer [OF True accounts_ok_maps [OF ok(1)], of W] upkeep_ok_offer ok(3) by metis
next
  case other: False
  show ?thesis
  proof (cases op)
    case (SealTerminal now s epoch)
    then show ?thesis by (simp add: seal_terminal_invariant [of upkeep_ok] upkeep_ok_seal ok(3) upkeep_updates)
  next
    case (PresentConsultation c t a b ms body)
    then show ?thesis using presentation_shape [of L c t a b ms body] ok(3) by (auto simp: presents_def upkeep_updates)
  next
    case (ReviseDocument s a b t xs p)
    then show ?thesis using ok(3) by (simp add: record_manual_document_revision_def Let_def upkeep_updates split: sum.split)
  next
    case (ShapeSpan shape i)
    then show ?thesis using ok(3) by (simp add: record_incremental_shaping_def Let_def upkeep_updates)
  qed (use ok other in \<open>simp_all add: offer_op_def upkeep_ok_seal upkeep_ok_qualify upkeep_ok_return upkeep_ok_recovery
      upkeep_ok_decode physical_ok_def upkeep_updates schedule_frontier_def schedule_observer_def
      schedule_settled_formatter_def schedule_late_apple_label_def record_seal_coverage_def bind_capture_rate_def
      record_derivation_def bind_manual_document_capture_def complete_manual_document_capture_def
      record_speech_evidence_def Let_def split: option.split\<close>)
qed

subsection \<open>The invariant: seals\<close>

text \<open>A decision after the seal that changed the text is human and left its receipt.\<close>

definition human_receipt :: "('c, 'w, 'f) ledger \<Rightarrow> 'f seal_receipt \<Rightarrow> layer_decision \<Rightarrow> bool" where
  "human_receipt L s e \<longleftrightarrow> producer (ld_observation e) = ManualHuman
     \<and> (\<exists>m \<in> set (manual_edits L). me_observation m = ld_observation e \<and> me_supersedes_seal m = lr_receipt_id s)"

definition seal_ok :: "('c, 'w, 'f) ledger \<Rightarrow> occurrence \<Rightarrow> 'f seal_receipt \<Rightarrow> bool" where
  "seal_ok L x s \<longleftrightarrow> lr_scope s = OccurrenceScope \<and> lr_receipt_id s = seal_id OccurrenceScope x
     \<and> lr_coverage s = x \<and> lr_sealed s = [x] \<and> is_closed (lr_frontier s) \<and> text_of L x \<noteq> None
     \<and> (\<exists>later. owner_ordinals L x = lr_ordinals s @ later
          \<and> (\<forall>i \<in> set later. grants_mutation (ld_decision (trail L ! i)) \<longrightarrow> human_receipt L s (trail L ! i)))"

definition seals_ok :: "('c, 'w, 'f) ledger \<Rightarrow> bool" where
  "seals_ok L \<longleftrightarrow> (\<forall>x s. map_of (seals L) x = Some s \<longrightarrow> seal_ok L x s)
     \<and> (\<forall>t \<in> set (terminal_seals L). lr_scope t = TerminalScope \<and> (\<forall>x \<in> set (lr_sealed t). is_sealed L x))"

lemma seals_ok_new: "seals_ok (new_ledger w)"
  by (simp add: seals_ok_def new_ledger_def)

lemma owner_ordinals_bound: "i \<in> set (owner_ordinals L x) \<Longrightarrow> i < length (trail L)"
  by (simp add: owner_ordinals_def)

lemma seal_ok_offer:
  assumes ok: "seal_ok L x s" and sealed: "map_of (seals L) x = Some s" and "offers obs L L'"
  shows "seal_ok L' x s"
proof -
  obtain rv pins d where adm: "admitted rv pins obs L L' d" using assms(3) by (auto simp: offers_def)
  obtain e where e: "trail L' = trail L @ [e]" "ld_observation e = obs" "ld_decision e = d"
    using adm by (auto simp: admitted_def booked_def)
  obtain ms where ms: "manual_edits L' = manual_edits L @ ms" "edit_receipts obs L d ms" using adm by (auto simp: admitted_def)
  obtain later where later: "owner_ordinals L x = lr_ordinals s @ later"
      "\<forall>i \<in> set later. grants_mutation (ld_decision (trail L ! i)) \<longrightarrow> human_receipt L s (trail L ! i)"
    using ok by (auto simp: seal_ok_def)
  have keep: "human_receipt L s e' \<Longrightarrow> human_receipt L' s e'" for e' by (auto simp: human_receipt_def ms)
  have old: "\<forall>i \<in> set later. grants_mutation (ld_decision (trail L' ! i)) \<longrightarrow> human_receipt L' s (trail L' ! i)"
  proof
    fix i assume i: "i \<in> set later"
    then have "i < length (trail L)" using later(1) owner_ordinals_bound [of i L x] by simp
    then show "grants_mutation (ld_decision (trail L' ! i)) \<longrightarrow> human_receipt L' s (trail L' ! i)"
      using later(2) i keep by (simp add: e(1) nth_append)
  qed
  have new: "human_receipt L' s e" if "occurrence obs = x" "grants_mutation d"
  proof -
    have "producer obs = ManualHuman" using adm that sealed by (auto simp: admitted_def is_sealed_def)
    moreover have "map_of (seals L) (occurrence obs) = Some s" using sealed that(1) by simp
    with ms(2) that(2) obtain m where "ms = [m]" "me_observation m = obs" "me_supersedes_seal m = lr_receipt_id s"
      by (auto simp: edit_receipts_def)
    ultimately show ?thesis by (simp add: human_receipt_def ms(1) e(2))
  qed
  have "text_of L' x \<noteq> None"
    using adm ok by (auto simp: seal_ok_def text_of_def admitted_def split: if_splits)
  moreover have "\<exists>later'. owner_ordinals L' x = lr_ordinals s @ later'
      \<and> (\<forall>i \<in> set later'. grants_mutation (ld_decision (trail L' ! i)) \<longrightarrow> human_receipt L' s (trail L' ! i))"
    using old new by (cases "occurrence obs = x") (auto simp: owner_ordinals_append [OF e(1)] e later(1))
  ultimately show ?thesis using ok by (simp add: seal_ok_def)
qed

lemma seal_ok_not_offer: "not_offer L L' \<Longrightarrow> seal_ok L' x s = seal_ok L x s"
  by (simp add: seal_ok_def not_offer_def accounts_def text_of_def owner_ordinals_def human_receipt_def)

lemma seals_ok_not_offer: "not_offer L L' \<Longrightarrow> seals L' = seals L \<Longrightarrow> terminal_seals L' = terminal_seals L \<Longrightarrow> seals_ok L \<Longrightarrow> seals_ok L'"
  by (simp add: seals_ok_def seal_ok_not_offer is_sealed_def)

lemma mint_seal_ok:
  assumes "accounts_ok L" and "mint_seal W L x = Inr s"
  shows "seal_ok L x s" and "lr_ordinals s = owner_ordinals L x"
proof -
  have "unwrap_or empty_owner (map_of (owner_histories L) x) = owner_of L x" by (simp add: owner_of_def)
  moreover have "lr_ordinals s = oh_ordinals (owner_of L x)"
    using assms(2) by (auto simp: mint_seal_def Let_def owner_of_def empty_owner_def split: if_splits option.splits)
  ultimately show ord: "lr_ordinals s = owner_ordinals L x" using assms(1) by (simp add: accounts_ok_def)
  from assms(2) show "seal_ok L x s"
    by (auto simp: seal_ok_def ord mint_seal_def Let_def split: if_splits option.splits)
qed

lemma seals_ok_seal:
  assumes "accounts_ok L" "physical_ok L" "seals_ok L"
  shows "seals_ok (fst (seal W x L))"
proof (cases rule: seal_cases [of W x L])
  case (minted s)
  let ?L = "L\<lparr>seals := om_insert x s (seals L), unsealed_qualified := os_remove x (unsealed_qualified L),
       words := close_word_components W (words L) x\<rparr>"
  have "not_offer L ?L" by (rule not_offer_updates)
  note same = seal_ok_not_offer [OF this]
  have "om_ok (seals L)" using assms(2) by (simp add: physical_ok_def)
  then have "seals_ok ?L" using assms(3) mint_seal_ok(1) [OF assms(1) minted(2)]
    by (auto simp: seals_ok_def same is_sealed_def)
  then show ?thesis by (simp add: minted(1))
qed (use assms in simp_all)

definition ledger_ok :: "('c, 'w, 'f) ledger \<Rightarrow> bool" where
  "ledger_ok L \<longleftrightarrow> accounts_ok L \<and> index_ok L \<and> physical_ok L \<and> upkeep_ok L \<and> seals_ok L"

lemma ledger_ok_seal: "ledger_ok L \<Longrightarrow> ledger_ok (fst (seal W x L))"
  using seal_not_offer [of L W x]
  by (auto simp: ledger_ok_def seals_ok_seal physical_ok_seal upkeep_ok_seal intro: accounts_ok_not_offer)
    (simp add: not_offer_def)

text \<open>A seal once held is held for good.\<close>

lemma seal_keeps_seals: "physical_ok L \<Longrightarrow> map_of (seals L) x = Some s \<Longrightarrow> map_of (seals (fst (seal W y L))) x = Some s"
  by (cases rule: seal_cases [of W y L]) (auto simp: is_sealed_def physical_ok_def)

lemma seal_each_keeps_seals:
  fixes L :: "('c, 'w, 'f) ledger"
  assumes "ledger_ok L" and "map_of (seals L) x = Some s"
  shows "ledger_ok (fst (seal_each W xs L)) \<and> map_of (seals (fst (seal_each W xs L))) x = Some s"
proof (rule seal_each_invariant)
  fix y and L :: "('c, 'w, 'f) ledger" assume ok: "ledger_ok L \<and> map_of (seals L) x = Some s"
  then show "ledger_ok (fst (seal W y L)) \<and> map_of (seals (fst (seal W y L))) x = Some s"
    using ledger_ok_seal [of L W y] seal_keeps_seals [of L x s W y] by (auto simp: ledger_ok_def [of L])
qed (use assms in simp)

lemma seal_each_ok: "ledger_ok L \<Longrightarrow> ledger_ok (fst (seal_each W xs L))"
  by (rule seal_each_invariant) (simp_all add: ledger_ok_seal)

lemma seal_each_sealed:
  assumes "ledger_ok L" and "is_sealed L x"
  shows "is_sealed (fst (seal_each W xs L)) x"
  using assms seal_each_keeps_seals [of L x _ W xs] by (auto simp: is_sealed_def)

lemma terminal_seal_ok:
  assumes "ledger_ok L"
  shows "ledger_ok (fst (seal_terminal W now s epoch L))"
proof (cases rule: seal_terminal_cases [of W now s epoch L])
  case (issued L1 receipt)
  let ?xs = "filter (in_capture s epoch) (om_keys (evidence L))"
  have L1: "ledger_ok L1" using seal_each_ok [OF assms, of W ?xs] issued(1) by simp
  let ?L = "L1\<lparr>terminal_seals := terminal_seals L1 @ [receipt],
                 transcript_seal_timestamp_ms := option_or (transcript_seal_timestamp_ms L1) now\<rparr>"
  have n: "not_offer L1 ?L" by (simp add: not_offer_def accounts_def answers_def index_ok_def)
  have "lr_scope receipt = TerminalScope" "lr_sealed receipt = ?xs" by (simp_all add: issued(5) terminal_receipt_def Let_def)
  then have "seals_ok ?L" using L1 issued(2) seal_ok_not_offer [OF n]
    by (auto simp: seals_ok_def ledger_ok_def is_sealed_def list_all_iff)
  moreover have "accounts_ok ?L" "index_ok ?L" using L1 accounts_ok_not_offer [OF _ n] n by (simp_all add: ledger_ok_def not_offer_def)
  moreover have "physical_ok ?L" "upkeep_ok ?L" using L1 by (simp_all add: ledger_ok_def physical_parts upkeep_ok_def spans_ok_def)
  ultimately show ?thesis using L1 issued(6) by (simp add: ledger_ok_def)
qed (use assms in \<open>simp_all add: seal_each_ok\<close>)

definition terminal_op :: "('c, 'w) ledger_op \<Rightarrow> bool" where
  "terminal_op op = (case op of SealTerminal _ _ _ \<Rightarrow> True | _ \<Rightarrow> False)"

lemma terminal_seals_perform:
  assumes "\<not> offer_op op" and "\<not> terminal_op op"
  shows "terminal_seals (perform W op L) = terminal_seals L"
proof (cases op)
  case (FrontierReturn x p)
  have "terminal_seals (reconcile_returned_word_debt W x L') = terminal_seals L'" for L'
    using reconcile_frame(2) [of W x L'] by (simp add: physical_def)
  then show ?thesis by (simp add: FrontierReturn note_frontier_return_def Let_def split: option.split)
next
  case (PresentConsultation c t a b ms body)
  then show ?thesis using presentation_shape [of L c t a b ms body] by (auto simp: presents_def)
next
  case (SealOccurrence x)
  then show ?thesis by (cases rule: seal_cases [of W x L]) simp_all
next
  case (ReviseDocument s a b t xs p)
  then show ?thesis by (simp add: record_manual_document_revision_def Let_def split: sum.split)
next
  case (ShapeSpan shape i)
  then show ?thesis by (simp add: record_incremental_shaping_def Let_def)
qed (use assms in \<open>simp_all add: offer_op_def terminal_op_def qualify_def schedule_frontier_def schedule_observer_def schedule_settled_formatter_def
      schedule_late_apple_label_def record_seal_coverage_def record_complete_decode_span_def require_text_recovery_def
      bind_capture_rate_def record_derivation_def bind_manual_document_capture_def complete_manual_document_capture_def
      record_speech_evidence_def Let_def split: option.split\<close>)

lemma seals_ok_perform:
  assumes ok: "ledger_ok L"
  shows "seals_ok (perform W op L)"
proof (cases "offer_op op")
  case True
  have "seals_ok L'" if "offers obs L L'" for obs L'
  proof -
    have "seals L' = seals L" "terminal_seals L' = terminal_seals L"
      using offers_physical [OF that] by (simp_all add: physical_def)
    then show ?thesis using ok seal_ok_offer [OF _ _ that] by (auto simp: ledger_ok_def seals_ok_def is_sealed_def)
  qed
  moreover have "accounts_ok L" "seals_ok L" using ok by (simp_all add: ledger_ok_def)
  ultimately show ?thesis using perform_offer [OF True accounts_ok_maps, of L W] by metis
next
  case other: False
  show ?thesis
  proof (cases "terminal_op op")
    case True
    then show ?thesis using terminal_seal_ok [OF ok, of W] by (auto simp: terminal_op_def ledger_ok_def split: ledger_op.splits)
  next
    case False
    note n = perform_not_offer [OF other, of L W] and t = terminal_seals_perform [OF other False, of W L]
    show ?thesis
    proof (cases "touches_core op")
      case True
      then show ?thesis
      proof (cases rule: touches_core_cases)
        case (qualify e c)
        have "seals (perform W op L) = seals L" by (simp add: qualify qualify_def Let_def)
        with seals_ok_not_offer [OF n _ t] ok show ?thesis by (simp add: ledger_ok_def)
      qed (use ok False in \<open>simp_all add: ledger_ok_def seals_ok_seal terminal_op_def\<close>)
    next
      case False
      then have "seals (perform W op L) = seals L" using core_perform [OF _ False, of L W] ok by (simp add: ledger_ok_def core_def)
      with seals_ok_not_offer [OF n _ t] ok show ?thesis by (simp add: ledger_ok_def)
    qed
  qed
qed

lemma index_ok_perform: "accounts_ok L \<Longrightarrow> index_ok L \<Longrightarrow> index_ok (perform W op L)"
  by (cases rule: perform_cases [of L W op]) (auto simp: offers_def admitted_def not_offer_def)

lemma ledger_ok_perform: "ledger_ok L \<Longrightarrow> ledger_ok (perform W op L)"
  using seals_ok_perform [of L W op] accounts_ok_perform [of L W op] index_ok_perform [of L W op]
    physical_ok_perform [of L W op] upkeep_ok_perform [of L W op] by (simp add: ledger_ok_def)

lemma ledger_ok_new: "ledger_ok (new_ledger w)"
  by (simp add: ledger_ok_def accounts_ok_new index_ok_new physical_ok_new upkeep_ok_new seals_ok_new)

lemma ledger_ok_run: "ledger_ok L \<Longrightarrow> ledger_ok (ledger_run W ops L)"
  by (rule ledger_run_invariant) (simp_all add: ledger_ok_perform)

lemma ledger_ok_after: "ledger_ok (ledger_after W w ops)"
  unfolding ledger_after_def by (rule ledger_ok_run) (rule ledger_ok_new)

end
