(* ===== verification/Ledger_Theorems.thy ===== *)
theory Ledger_Theorems
  imports Ledger_Finality
begin

section \<open>What holds in every run of the ledger\<close>

text \<open>
  The properties of the acoustic ledger over arbitrary sequences of its operations, from a fresh
  ledger: conservation, exact indexes, the coverage verdict, seals and finality, document receipts.
  The word layer is arbitrary throughout.
\<close>

subsection \<open>Accounts and trail\<close>

lemma trail_of_ordinals: "map ((!) (trail L)) (owner_ordinals L x) = filter (\<lambda>e. occurrence (ld_observation e) = x) (trail L)"
proof -
  have "map ((!) ys) (filter (\<lambda>i. P (ys ! i)) [0..<length ys]) = filter P ys" for P and ys :: "layer_decision list"
  proof -
    have "map ((!) ys) (filter (P \<circ> (!) ys) [0..<length ys]) = filter P (map ((!) ys) [0..<length ys])"
      by (rule filter_map [symmetric])
    then show ?thesis by (simp add: map_nth comp_def)
  qed
  then show ?thesis by (simp add: owner_ordinals_def)
qed

lemma layer_trail_for_eq:
  assumes "accounts_ok L"
  shows "layer_trail_for L x = filter (\<lambda>e. occurrence (ld_observation e) = x) (trail L)"
proof -
  have "oh_ordinals (owner_of L x) = owner_ordinals L x" using assms by (simp add: accounts_ok_def)
  moreover have "layer_trail_for L x = map ((!) (trail L)) (oh_ordinals (owner_of L x))"
    by (simp add: layer_trail_for_def owner_of_def empty_owner_def split: option.split)
  ultimately show ?thesis by (simp add: trail_of_ordinals)
qed

text \<open>C26. Conservation in every run. Whatever operations ran, the ledger has issued exactly one receipt
  per offer and stored each of them in the trail under its own ordinal; every offer was either delivered
  or is named by a refusal reason, so the residue is zero; and the per-occurrence history read through the
  index is the trail restricted to that occurrence.\<close>

theorem conservation_in_every_run:
  "let L = ledger_after W w ops in
     receipts_out (conservation L) = observations_in (conservation L)
     \<and> length (trail L) = observations_in (conservation L)
     \<and> map ld_ordinal (trail L) = [0..<length (trail L)]
     \<and> residue (conservation L) = 0
     \<and> layer_trail_for L x = filter (\<lambda>e. occurrence (ld_observation e) = x) (trail L)"
  using ledger_ok_after [of W w ops] layer_trail_for_eq [of "ledger_after W w ops" x]
  by (simp add: ledger_ok_def accounts_ok_def conservation_def residue_def Let_def)

subsection \<open>Replays\<close>

text \<open>C29. A replay is inert in every run: offering again any observation the trail already answers, with
  any text, is refused as a duplicate when the observation names real audio, and the committed text
  stands in any case.\<close>

theorem replay_is_inert_in_every_run:
  "let L = ledger_after W w ops in
     list_all (\<lambda>e. case admit W (ld_observation e) t L of (L', receipt) \<Rightarrow>
         committed L' = committed L
         \<and> (if is_anchored (occurrence (ld_observation e)) then receipt = Refuse (occurrence (ld_observation e)) BatchDuplicate
            else \<not> grants_mutation receipt)) (trail L)"
  unfolding Let_def list_all_iff
proof
  fix e assume e: "e \<in> set (trail (ledger_after W w ops))"
  let ?L = "ledger_after W w ops" and ?obs = "ld_observation e"
  have ok: "accounts_ok ?L" using ledger_ok_after [of W w ops] by (simp add: ledger_ok_def)
  obtain L' r where run: "admit W ?obs t ?L = (L', r)" by fastforce
  have adm: "admitted False False ?obs ?L L' r" using admit_admitted [OF accounts_ok_maps [OF ok] run] .
  have seen: "?obs \<in> answered ?L" using e ok by (simp add: accounts_ok_def)
  then have "\<not> grants_mutation r" using adm by (auto simp: admitted_def)
  moreover from this adm have "committed L' = committed ?L" by (simp add: admitted_def)
  moreover have "r = Refuse (occurrence ?obs) BatchDuplicate" if "is_anchored (occurrence ?obs)"
    using replayed_observation_is_inert [OF that seen accounts_ok_maps [OF ok], of W t] run by simp
  ultimately show "case admit W ?obs t ?L of (L', receipt) \<Rightarrow> committed L' = committed ?L
         \<and> (if is_anchored (occurrence ?obs) then receipt = Refuse (occurrence ?obs) BatchDuplicate else \<not> grants_mutation receipt)"
    by (simp add: run)
qed

subsection \<open>Seals\<close>

lemma mint_seal_complete_history:
  assumes "accounts_ok L"
  shows "mint_seal W L x \<noteq> Inl ObservationsWithoutReceipts"
proof -
  have "oh_answered (owner_of L x) = length (oh_ordinals (owner_of L x))" using assms by (simp add: accounts_ok_def)
  then show ?thesis
    by (auto simp: mint_seal_def Let_def owner_of_def empty_owner_def split: option.split)
qed

text \<open>What an occurrence must be for a seal.\<close>

definition finished :: "('c, 'w, 'f) word_layer \<Rightarrow> ('c, 'w, 'f) ledger \<Rightarrow> occurrence \<Rightarrow> bool" where
  "finished W L x \<longleftrightarrow> \<not> text_recovery_pending L x
     \<and> \<not> word_trials_pending W (words L) x \<and> \<not> has_deferred_anchor_words W (words L) x
     \<and> (case map_of (evidence L) x of None \<Rightarrow> False | Some s \<Rightarrow> vad_closed s)
     \<and> (case map_of (frontiers L) x of None \<Rightarrow> False | Some f \<Rightarrow> is_closed f)
     \<and> (case text_of L x of None \<Rightarrow> False | Some label \<Rightarrow> trim label \<noteq> [])"

lemma mint_seal_iff:
  assumes "accounts_ok L"
  shows "(\<exists>s. mint_seal W L x = Inr s) \<longleftrightarrow> finished W L x"
proof -
  have "oh_answered (owner_of L x) = length (oh_ordinals (owner_of L x))" using assms by (simp add: accounts_ok_def)
  then show ?thesis
    by (auto simp: mint_seal_def finished_def Let_def owner_of_def empty_owner_def split: option.splits)
qed

text \<open>C2. A seal is issued exactly for a finished occurrence. In every run, sealing an occurrence that is
  not sealed yet succeeds if and only if no text recovery, word trial or deferred word is open, its
  evidence closed its speech, its observation frontier is known and closed, and it holds a non-empty
  label; the receipt then cites every decision ever taken on it, and the refusal for missing receipts
  never occurs.\<close>

theorem seal_iff_finished:
  "let L = ledger_after W w ops in
     (case snd (seal W x L) of
        Inr s \<Rightarrow> is_sealed L x \<or> finished W L x \<and> lr_ordinals s = owner_ordinals L x
      | Inl r \<Rightarrow> r \<noteq> ObservationsWithoutReceipts \<and> \<not> is_sealed L x \<and> \<not> finished W L x)"
proof -
  have ok: "accounts_ok (ledger_after W w ops)" using ledger_ok_after [of W w ops] by (simp add: ledger_ok_def)
  show ?thesis
    using mint_seal_complete_history [OF ok, of W x] mint_seal_iff [OF ok, of W x] mint_seal_ok(2) [OF ok]
    by (cases rule: seal_cases [of W x "ledger_after W w ops"]) (auto simp: is_sealed_def Let_def)
qed

lemma perform_keeps_seals:
  assumes ok: "ledger_ok L" and held: "map_of (seals L) x = Some s"
  shows "map_of (seals (perform W op L)) x = Some s"
proof (cases "touches_core op")
  case True
  then show ?thesis
  proof (cases rule: touches_core_cases)
    case (qualify e c)
    then show ?thesis using held by (simp add: qualify_def Let_def)
  next
    case (seal y)
    then show ?thesis using ok held by (simp add: seal_keeps_seals ledger_ok_def)
  next
    case (terminal now s' epoch)
    have "map_of (seals (fst (seal_each W xs L))) x = Some s" for xs using seal_each_keeps_seals [OF assms] by blast
    then show ?thesis using held terminal
      by (cases rule: seal_terminal_cases [of W now s' epoch L]) (auto, metis fst_conv)
  qed
next
  case False
  then show ?thesis using core_perform [OF _ False, of L W] ok held by (simp add: ledger_ok_def core_def)
qed

lemma run_keeps_seals:
  assumes "ledger_ok L" and "map_of (seals L) x = Some s"
  shows "map_of (seals (ledger_run W ops L)) x = Some s"
proof -
  have "ledger_ok (ledger_run W ops L) \<and> map_of (seals (ledger_run W ops L)) x = Some s"
    by (rule ledger_run_invariant) (use assms in \<open>auto simp: ledger_ok_perform perform_keeps_seals\<close>)
  then show ?thesis ..
qed

text \<open>The text of a sealed occurrence and the receipts of its edits.\<close>

lemma perform_sealed_text:
  assumes ok: "ledger_ok L" and held: "map_of (seals L) x = Some s"
  shows "\<exists>ms. manual_edits (perform W op L) = manual_edits L @ ms
    \<and> (text_of (perform W op L) x = text_of L x
       \<or> (\<exists>m \<in> set ms. me_occurrence m = x \<and> me_supersedes_seal m = lr_receipt_id s \<and> producer (me_observation m) = ManualHuman))"
proof -
  have acc: "accounts_ok L" using ok by (simp add: ledger_ok_def)
  then show ?thesis
  proof (cases rule: perform_cases [of L W op])
    case (offer obs)
    then obtain rv pins d where adm: "admitted rv pins obs L (perform W op L) d" by (auto simp: offers_def)
    then obtain ms where ms: "manual_edits (perform W op L) = manual_edits L @ ms" "edit_receipts obs L d ms"
      by (auto simp: admitted_def)
    show ?thesis
    proof (cases "occurrence obs = x \<and> grants_mutation d")
      case True
      then have "map_of (seals L) (occurrence obs) = Some s" using held by simp
      with ms(2) True adm show ?thesis by (auto simp: ms(1) edit_receipts_def admitted_def is_sealed_def)
    next
      case False
      then have "text_of (perform W op L) x = text_of L x"
        using adm held by (auto simp: admitted_def text_of_def is_sealed_def split: if_splits)
      then show ?thesis by (simp add: ms(1))
    qed
  next
    case other
    then show ?thesis by (simp add: not_offer_def text_of_def)
  qed
qed

text \<open>C1. A seal is final. In every run, once an occurrence is sealed, no later operation changes or
  removes the seal; and its text is the text it was sealed with unless a later receipt records an explicit
  human edit that names this occurrence and the seal it supersedes.\<close>

theorem seals_are_final:
  "let L = ledger_after W w ops; L' = ledger_after W w (ops @ later) in
     case map_of (seals L) x of
       None \<Rightarrow> True
     | Some s \<Rightarrow> map_of (seals L') x = Some s
         \<and> (\<exists>ms. manual_edits L' = manual_edits L @ ms
              \<and> (text_of L' x = text_of L x
                 \<or> (\<exists>m \<in> set ms. me_occurrence m = x \<and> me_supersedes_seal m = lr_receipt_id s
                       \<and> producer (me_observation m) = ManualHuman)))"
proof (cases "map_of (seals (ledger_after W w ops)) x")
  case (Some s)
  let ?edited = "\<lambda>ms. \<exists>m \<in> set ms. me_occurrence m = x \<and> me_supersedes_seal m = lr_receipt_id s \<and> producer (me_observation m) = ManualHuman"
  have "\<exists>ms. manual_edits (ledger_run W later L) = manual_edits L @ ms \<and> (text_of (ledger_run W later L) x = text_of L x \<or> ?edited ms)"
    if "ledger_ok L" "map_of (seals L) x = Some s" for L
    using that
  proof (induction later arbitrary: L)
    case (Cons op later)
    from perform_sealed_text [OF Cons.prems, of W op] obtain ms where ms: "manual_edits (perform W op L) = manual_edits L @ ms"
      "text_of (perform W op L) x = text_of L x \<or> ?edited ms" by blast
    from Cons.IH [of "perform W op L"] ledger_ok_perform [OF Cons.prems(1), of W op] perform_keeps_seals [OF Cons.prems, of W op]
    obtain ns where "manual_edits (ledger_run W later (perform W op L)) = manual_edits (perform W op L) @ ns"
      "text_of (ledger_run W later (perform W op L)) x = text_of (perform W op L) x \<or> ?edited ns" by blast
    with ms show ?case by (intro exI [of _ "ms @ ns"]) (auto simp: ledger_run_def)
  qed (simp add: ledger_run_def)
  then show ?thesis
    using run_keeps_seals [OF ledger_ok_after Some] ledger_ok_after [of W w ops] Some
    by (simp add: ledger_after_append Let_def)
qed simp

text \<open>C27. What happens after a seal. In every run, the decisions the ledger reports for an occurrence
  beyond the seal's own list are exactly the later part of its history, and each of them that changed the
  text was an explicit human edit that left its manual-edit receipt against this very seal.\<close>

theorem post_seal_decisions_are_human:
  "let L = ledger_after W w ops in
     case map_of (seals L) x of
       None \<Rightarrow> post_seal_decisions L x = []
     | Some s \<Rightarrow> post_seal_decisions L x = drop (length (lr_ordinals s)) (layer_trail_for L x)
         \<and> list_all (human_receipt L s) (filter (\<lambda>e. grants_mutation (ld_decision e)) (post_seal_decisions L x))"
proof (cases "map_of (seals (ledger_after W w ops)) x")
  case (Some s)
  let ?L = "ledger_after W w ops"
  have ok: "ledger_ok ?L" by (rule ledger_ok_after)
  then have acc: "accounts_ok ?L" and "seal_ok ?L x s" using Some by (auto simp: ledger_ok_def seals_ok_def)
  then obtain later where later: "owner_ordinals ?L x = lr_ordinals s @ later"
    "\<forall>i \<in> set later. grants_mutation (ld_decision (trail ?L ! i)) \<longrightarrow> human_receipt ?L s (trail ?L ! i)"
    by (auto simp: seal_ok_def)
  have hist: "layer_trail_for ?L x = map ((!) (trail ?L)) (lr_ordinals s @ later)"
    using layer_trail_for_eq [OF acc] trail_of_ordinals [of ?L x] later(1) by simp
  have bound: "i < length (trail ?L)" if "i \<in> set (lr_ordinals s @ later)" for i
    using that owner_ordinals_bound [of i ?L x] later(1) by simp
  have ord: "ld_ordinal (trail ?L ! i) = i" if "i < length (trail ?L)" for i
  proof -
    have "map ld_ordinal (trail ?L) ! i = [0..<length (trail ?L)] ! i" using acc by (simp add: accounts_ok_def)
    then show ?thesis using that by simp
  qed
  have "distinct (owner_ordinals ?L x)" by (simp add: owner_ordinals_def)
  then have disj: "set (lr_ordinals s) \<inter> set later = {}" by (simp add: later(1))
  have "filter (\<lambda>e. ld_ordinal e \<notin> set (lr_ordinals s)) (map ((!) (trail ?L)) (lr_ordinals s)) = []"
    using bound ord by (auto simp: filter_empty_conv)
  moreover have "filter (\<lambda>e. ld_ordinal e \<notin> set (lr_ordinals s)) (map ((!) (trail ?L)) later) = map ((!) (trail ?L)) later"
    using bound ord disj by (auto simp: filter_id_conv)
  ultimately have post: "post_seal_decisions ?L x = map ((!) (trail ?L)) later"
    by (simp add: post_seal_decisions_def Some hist)
  show ?thesis using later(2) by (auto simp: Some Let_def post hist list_all_iff)
qed (simp add: post_seal_decisions_def)

subsection \<open>Terminal seals and finality\<close>

text \<open>What sealing leaves alone, and sealing twice.\<close>

definition static_facts :: "('c, 'w, 'f) ledger \<Rightarrow> _" where
  "static_facts L = (evidence L, pending_text_recovery L, complete_decode_spans L, latest_seal_coverage L, terminal_seals L)"

lemma seal_each_static:
  fixes L :: "('c, 'w, 'f) ledger"
  shows "static_facts (fst (seal_each W xs L)) = static_facts L"
proof (rule seal_each_invariant)
  fix x and L1 :: "('c, 'w, 'f) ledger" assume "static_facts L1 = static_facts L"
  then show "static_facts (fst (seal W x L1)) = static_facts L"
    by (cases rule: seal_cases [of W x L1]) (simp_all add: static_facts_def)
qed simp

lemma seal_each_again: "list_all (is_sealed L) xs \<Longrightarrow> seal_each W xs L = (L, None)"
  by (induction xs) (auto simp: is_sealed_def seal_def)

lemma pending_same:
  assumes "pending_text_recovery L' = pending_text_recovery L" and "complete_decode_spans L' = complete_decode_spans L"
  shows "pending_text_recoveries L' s epoch = pending_text_recoveries L s epoch"
proof -
  have "complete_decode_covers L' = complete_decode_covers L" by (rule ext) (simp add: complete_decode_covers_def assms(2))
  then show ?thesis by (simp add: pending_text_recoveries_def assms(1))
qed

lemma terminal_seal_again:
  fixes L :: "('c, 'w, 'f) ledger"
  assumes "seal_terminal W now s epoch L = (L', Inr r)"
  shows "seal_terminal W now' s epoch L' = (L', Inr r)"
proof (cases rule: seal_terminal_cases [of W now s epoch L])
  case (issued L1 receipt)
  let ?xs = "filter (in_capture s epoch) (om_keys (evidence L))"
  define refused where "refused L = (case latest_seal_coverage L of None \<Rightarrow> False
     | Some c \<Rightarrow> sc_session c = s \<and> sc_epoch c = epoch \<and> (sc_status c = Incomplete \<or> unavailable_reason (sc_status c) \<noteq> None))"
    for L :: "('c, 'w, 'f) ledger"
  have L': "L' = (if receipt \<in> set (terminal_seals L1) then L1
         else L1\<lparr>terminal_seals := terminal_seals L1 @ [receipt],
                 transcript_seal_timestamp_ms := option_or (transcript_seal_timestamp_ms L1) now\<rparr>)" and r: "r = receipt"
    using trans [OF assms [symmetric] issued(6)] by auto
  have st: "static_facts L1 = static_facts L" using seal_each_static [of W ?xs L] issued(1) by simp
  have go: "\<not> refused L" using assms issued(4) by (auto simp: seal_terminal_def refused_def [symmetric])
  have same: "evidence L' = evidence L" "latest_seal_coverage L' = latest_seal_coverage L" "seals L' = seals L1"
      "pending_text_recovery L' = pending_text_recovery L" "complete_decode_spans L' = complete_decode_spans L"
    using st by (simp_all add: L' static_facts_def)
  have pend: "pending_text_recoveries L' s epoch = []"
    using issued(4) pending_same [OF same(4,5)] by simp
  have "\<not> refused L'" using go by (simp add: refused_def same)
  moreover have "seal_each W ?xs L' = (L', None)"
    by (rule seal_each_again) (use issued(2) in \<open>simp add: is_sealed_def [abs_def] same\<close>)
  moreover have "receipt \<in> set (terminal_seals L')" by (simp add: L')
  ultimately show ?thesis using issued(2,3,5) pend go
    by (simp add: seal_terminal_def refused_def [symmetric] same r Let_def is_sealed_def [abs_def] del: not_None_eq)
qed (use assms in simp_all)

text \<open>C25. A terminal seal covers its whole capture. In every run, a terminal seal that is issued lists
  exactly the qualified occurrences of the capture, in capture order; every one of them is sealed
  afterwards; the receipt authenticates; no text recovery was open; and asking again changes nothing and
  returns the same receipt. A refusal issues no terminal seal.\<close>

theorem terminal_seal_covers_capture:
  "let L = ledger_after W w ops in
     case seal_terminal W now s epoch L of
       (L', Inl _) \<Rightarrow> terminal_seals L' = terminal_seals L
     | (L', Inr r) \<Rightarrow> lr_sealed r = filter (in_capture s epoch) (om_keys (evidence L)) \<and> lr_sealed r \<noteq> []
         \<and> list_all (is_sealed L') (lr_sealed r) \<and> authenticates_seal L' r
         \<and> pending_text_recoveries L s epoch = []
         \<and> seal_terminal W now' s epoch L' = (L', Inr r)"
proof -
  let ?L = "ledger_after W w ops"
  have ts: "terminal_seals (fst (seal_each W xs ?L)) = terminal_seals ?L" for xs
    using seal_each_static [of W xs ?L] by (simp add: static_facts_def)
  show ?thesis
  proof (cases rule: seal_terminal_cases [of W now s epoch ?L])
    case (issued L1 receipt)
    from terminal_seal_again [OF issued(6), of now'] issued show ?thesis
      by (auto simp: Let_def terminal_receipt_def authenticates_seal_def is_sealed_def list_all_iff)
  qed (simp_all add: ts Let_def)
qed

lemma find_in_list: "find P xs = Some x \<Longrightarrow> P x" "find P xs = Some x \<Longrightarrow> x \<in> set xs"
  by (induction xs) (auto split: if_splits)

text \<open>What the answers of \<open>terminal_finality\<close> mean, in terms of the recorded facts. The occurrences of a
  capture among a list:\<close>

definition of_capture :: "rstr \<Rightarrow> nat \<Rightarrow> occurrence list \<Rightarrow> occurrence set" where
  "of_capture s epoch xs = {x \<in> set xs. session x = s \<and> capture_epoch x = epoch}"

text \<open>The recoveries a capture still owes: those that no complete decode has covered.\<close>

definition owed_recoveries :: "('c, 'w, 'f) ledger \<Rightarrow> rstr \<Rightarrow> nat \<Rightarrow> occurrence set" where
  "owed_recoveries L s epoch = {x \<in> of_capture s epoch (pending_text_recovery L). \<not> complete_decode_covers L x}"

text \<open>A receipt certifies a capture: it is an issued terminal seal about this capture, it names every qualified
  or committed occurrence of the capture, and all it names is qualified and sealed.\<close>

definition certifies :: "('c, 'w, 'f) ledger \<Rightarrow> rstr \<Rightarrow> nat \<Rightarrow> 'f seal_receipt \<Rightarrow> bool" where
  "certifies L s epoch r \<longleftrightarrow> r \<in> set (terminal_seals L) \<and> lr_scope r = TerminalScope
     \<and> session (lr_coverage r) = s \<and> capture_epoch (lr_coverage r) = epoch
     \<and> of_capture s epoch (om_keys (evidence L)) \<union> of_capture s epoch (om_keys (committed L)) \<subseteq> set (lr_sealed r)
     \<and> (\<forall>x \<in> set (lr_sealed r). is_qualified L x \<and> is_sealed L x)"

definition verdict_stands :: "('c, 'w, 'f) ledger \<Rightarrow> rstr \<Rightarrow> nat \<Rightarrow> bool" where
  "verdict_stands L s epoch \<longleftrightarrow> (case latest_seal_coverage L of None \<Rightarrow> True
     | Some c \<Rightarrow> sc_session c = s \<longrightarrow> sc_epoch c = epoch \<longrightarrow> sc_status c = Complete)"

text \<open>A verdict that measured silence on a capture without any occurrence.\<close>

definition measured_silence :: "('c, 'w, 'f) ledger \<Rightarrow> rstr \<Rightarrow> nat \<Rightarrow> seal_coverage_receipt \<Rightarrow> bool" where
  "measured_silence L s epoch c \<longleftrightarrow> latest_seal_coverage L = Some c \<and> sc_session c = s \<and> sc_epoch c = epoch
     \<and> sc_status c = Complete \<and> sc_speech_samples c = 0 \<and> sc_covered_samples c = 0 \<and> sc_uncovered c = []
     \<and> sc_availability c = lit ''observed'' \<and> sc_observed c \<noteq> None
     \<and> of_capture s epoch (om_keys (evidence L)) = {} \<and> of_capture s epoch (om_keys (committed L)) = {}"

lemma in_capture_of_capture:
  "pending_text_recoveries L s epoch = [] \<longleftrightarrow> owed_recoveries L s epoch = {}"
  "set (capture_keys L s epoch) = of_capture s epoch (om_keys (evidence L)) \<union> of_capture s epoch (om_keys (committed L))"
  by (auto simp: pending_text_recoveries_def owed_recoveries_def capture_keys_def of_capture_def in_capture_def filter_empty_conv)

lemma verdict_stands_iff:
  "(case coverage_of L s epoch of None \<Rightarrow> False | Some c \<Rightarrow> sc_status c \<noteq> Complete) \<longleftrightarrow> \<not> verdict_stands L s epoch"
  by (auto simp: coverage_of_def verdict_stands_def split: option.split)

lemma measured_silence_iff:
  "measured_silence L s epoch c \<longleftrightarrow> coverage_of L s epoch = Some c \<and> capture_keys L s epoch = [] \<and> silent_receipt c"
proof -
  have "capture_keys L s epoch = [] \<longleftrightarrow> set (capture_keys L s epoch) = {}" by simp
  then show ?thesis
    unfolding in_capture_of_capture(2)
    by (auto simp: measured_silence_def coverage_of_def silent_receipt_def split: option.split_asm if_splits)
qed

lemma certifies_iff:
  assumes "ledger_ok L"
  shows "certifies L s epoch r \<longleftrightarrow> r \<in> set (terminal_seals L) \<and> covers_capture L s epoch r"
proof -
  have "lr_scope t = TerminalScope \<and> (\<forall>x \<in> set (lr_sealed t). is_sealed L x)" if "t \<in> set (terminal_seals L)" for t
    using assms that by (auto simp: ledger_ok_def seals_ok_def)
  then show ?thesis
    unfolding certifies_def covers_capture_def in_capture_of_capture(2) [symmetric]
    by (auto simp: in_capture_def list_all_iff)
qed

text \<open>C11. Finality is never claimed early, and never refused without its reason. In every run, when the ledger
  reports a capture as sealed, no text recovery of the capture is owed (none is open without a complete decode), no refusing coverage verdict of the
  capture stands, and the receipt is an issued terminal seal of this very capture that names every qualified or
  committed occurrence of it, all of them sealed; when it reports observed silence, nothing is owed, no terminal
  seal certifies the capture, the latest verdict is of this capture and measured no speech, and the capture holds
  no occurrence at all; when it refuses, the reason given is the first that holds: a recovery is owed, a refusing
  verdict stands, or there is neither a certifying seal nor measured silence.\<close>

theorem finality_is_never_early:
  "let L = ledger_after W w ops; owed = owed_recoveries L s epoch in
     case terminal_finality L s epoch of
       Sealed r \<Rightarrow> owed = {} \<and> verdict_stands L s epoch \<and> certifies L s epoch r \<and> authenticates_seal L r
     | ObservedSilence c \<Rightarrow> owed = {} \<and> (\<forall>r. \<not> certifies L s epoch r) \<and> measured_silence L s epoch c
     | FinalityRefused r \<Rightarrow> rf_session r = s \<and> rf_epoch r = epoch
         \<and> (case rf_reason r of
              RecoveryPending \<Rightarrow> owed \<noteq> {}
            | CoverageRefused \<Rightarrow> owed = {} \<and> \<not> verdict_stands L s epoch
            | TerminalReceiptMissing \<Rightarrow> owed = {} \<and> verdict_stands L s epoch
                \<and> (\<forall>t. \<not> certifies L s epoch t) \<and> (\<forall>c. \<not> measured_silence L s epoch c))"
proof -
  let ?L = "ledger_after W w ops"
  let ?seals = "rev (terminal_seals ?L)"
  note cert = certifies_iff [OF ledger_ok_after [of W w ops], of s epoch]
  note facts = in_capture_of_capture(1) [of ?L s epoch, symmetric] verdict_stands_iff measured_silence_iff
  show ?thesis
  proof (cases "find (covers_capture ?L s epoch) ?seals")
    case None
    then have none: "\<not> certifies ?L s epoch t" for t by (auto simp: cert find_None_iff)
    show ?thesis
      using None none by (auto simp: terminal_finality_def Let_def facts split: option.split)
  next
    case (Some r)
    then have r: "covers_capture ?L s epoch r" "r \<in> set ?seals" using find_in_list [of _ ?seals] by blast+
    then have "certifies ?L s epoch r" "authenticates_seal ?L r"
      using cert [of r] by (auto simp: certifies_def authenticates_seal_def)
    then show ?thesis using Some by (auto simp: terminal_finality_def Let_def facts)
  qed
qed

subsection \<open>Coverage of measured speech\<close>

definition span_samples :: "occurrence list \<Rightarrow> nat set" where
  "span_samples xs = samples (map occ_span xs)"

lemma fold_max_le: "fold max xs (0 :: nat) \<le> n \<longleftrightarrow> (\<forall>x \<in> set xs. x \<le> n)"
proof -
  have "fold max xs m \<le> n \<longleftrightarrow> m \<le> n \<and> (\<forall>x \<in> set xs. x \<le> n)" for m
    by (induction xs arbitrary: m) auto
  then show ?thesis by simp
qed

lemma assess_measured:
  fixes threshold :: nat
  assumes ok: "ledger_ok L" and measured: "evidence_gap L s epoch speech = None"
  defines "c \<equiv> assess_seal_coverage L s epoch speech threshold"
    and "heard \<equiv> span_samples (se_ranges speech)"
    and "counted \<equiv> span_samples (filter (in_capture s epoch) (om_keys (committed L))) - span_samples (pending_text_recoveries L s epoch)"
  shows "span_samples (sc_uncovered c) = heard - counted" and "in_order (map occ_span (sc_uncovered c))"
    and "sc_speech_samples c = card heard" and "sc_covered_samples c = card (heard \<inter> counted)"
    and "sc_status c = (if pending_text_recoveries L s epoch = [] \<and> list_all (\<lambda>r. sample_len r \<le> threshold) (sc_uncovered c)
           then Complete else Incomplete)"
proof -
  let ?debt = "pending_text_recoveries L s epoch" and ?heard = "merged_ranges (map occ_span (se_ranges speech))"
  let ?covered = "concat (map (punch_out (map occ_span ?debt)) (committed_spans L s epoch))"
  let ?unc = "uncovered_ranges ?covered ?heard"
  have debt: "\<forall>d \<in> set (map occ_span ?debt). fst d \<le> snd d"
  proof
    fix d assume "d \<in> set (map occ_span ?debt)"
    then obtain x where "d = occ_span x" "x \<in> set (pending_text_recovery L)" by (auto simp: pending_text_recoveries_def)
    moreover from this obtain e where "map_of (evidence L) x = Some e"
      using ok by (auto simp: ledger_ok_def upkeep_ok_def is_qualified_def)
    ultimately show "fst d \<le> snd d" using ok by (fastforce simp: ledger_ok_def physical_ok_def is_anchored_def occ_span_def)
  qed
  have in1: "in_order (committed_spans L s epoch)" "in_order ?heard"
    by (simp_all add: committed_spans_def apart_in_order merged_ranges_apart)
  note punched = punch_all [OF in1(1) debt]
  have "samples (committed_spans L s epoch) = span_samples (filter (in_capture s epoch) (om_keys (committed L)))"
    by (simp add: committed_spans_def span_samples_def)
  then have covered: "samples ?covered = counted" by (simp add: punched(2) counted_def span_samples_def)
  have heard: "samples ?heard = heard" by (simp add: heard_def span_samples_def)
  note unc = uncovered_ranges_spec [OF punched(1) in1(2)]
  have spans: "map occ_span (map (\<lambda>(a, b). Occurrence s epoch a b) rs) = rs" for rs
    by (induction rs) (auto simp: occ_span_def)
  have c: "sc_uncovered c = map (\<lambda>(a, b). Occurrence s epoch a b) ?unc"
    "sc_speech_samples c = total_len ?heard" "sc_covered_samples c = total_len ?heard - total_len ?unc"
    "sc_status c = (if ?debt \<noteq> [] \<or> fold max (map (\<lambda>(a, b). b - a) ?unc) 0 > threshold then Incomplete else Complete)"
    using measured by (simp_all add: c_def assess_seal_coverage_def Let_def)
  have s: "samples ?unc = heard - counted" unfolding unc(2) covered heard ..
  then show "span_samples (sc_uncovered c) = heard - counted" unfolding span_samples_def c(1) spans .
  show "in_order (map occ_span (sc_uncovered c))" unfolding c(1) spans by (rule unc(1))
  have tot: "total_len ?heard = card heard" "total_len ?unc = card (heard - counted)"
    unfolding total_len_card [OF in1(2)] total_len_card [OF unc(1)] heard s by (rule refl)+
  show "sc_speech_samples c = card heard" unfolding c(2) tot ..
  have "finite heard" unfolding heard [symmetric] by (rule finite_samples)
  then have "card heard - card (heard - counted) = card (heard \<inter> counted)"
    using card_Diff_subset_Int [of heard counted] card_mono [of heard "heard \<inter> counted"] by (simp add: finite_Int)
  then show "sc_covered_samples c = card (heard \<inter> counted)"
    unfolding c(3) tot .
  have "list_all (\<lambda>r. sample_len r \<le> threshold) (sc_uncovered c) \<longleftrightarrow> fold max (map (\<lambda>(a, b). b - a) ?unc) 0 \<le> threshold"
    by (auto simp: c(1) fold_max_le list_all_iff sample_len_def)
  then show "sc_status c = (if ?debt = [] \<and> list_all (\<lambda>r. sample_len r \<le> threshold) (sc_uncovered c)
           then Complete else Incomplete)" by (simp add: c(4) not_le [symmetric])
qed

text \<open>C3. The coverage verdict is exact. In every run, when the evidence names this take, comes from an
  acoustic observer and reaches past every committed and measured range, the verdict lists, in order,
  exactly the measured samples no committed occurrence accounts for, where committed audio under an open
  text recovery does not count; the two counters are the number of measured and of accounted samples; and
  the take is complete if and only if no recovery is open and no uncovered range exceeds the threshold.
  Otherwise the take is unavailable for the named reason and certifies nothing.\<close>

theorem coverage_verdict_is_exact:
  "let L = ledger_after W w ops; c = assess_seal_coverage L s epoch speech threshold;
       debt = pending_text_recoveries L s epoch; heard = span_samples (se_ranges speech);
       counted = span_samples (filter (in_capture s epoch) (om_keys (committed L))) - span_samples debt in
     case evidence_gap L s epoch speech of
       Some g \<Rightarrow> sc_status c = Unavailable g \<and> sc_uncovered c = [] \<and> sc_speech_samples c = 0 \<and> sc_observed c = None
     | None \<Rightarrow> span_samples (sc_uncovered c) = heard - counted \<and> in_order (map occ_span (sc_uncovered c))
         \<and> sc_speech_samples c = card heard \<and> sc_covered_samples c = card (heard \<inter> counted)
         \<and> sc_status c = (if debt = [] \<and> list_all (\<lambda>r. sample_len r \<le> threshold) (sc_uncovered c) then Complete else Incomplete)"
proof (cases "evidence_gap (ledger_after W w ops) s epoch speech")
  case None
  from assess_measured [OF ledger_ok_after None, of threshold] None show ?thesis by (simp add: Let_def)
next
  case (Some g)
  then show ?thesis by (simp add: assess_seal_coverage_def refused_coverage_def)
qed

subsection \<open>The qualified index\<close>

lemma distinct_by_end:
  assumes "om_ok m" and "\<And>e xs. (e, xs) \<in> set m \<Longrightarrow> distinct xs \<and> (\<forall>x \<in> set xs. sample_end x = e)"
  shows "distinct (concat (map snd m))"
  using assms
proof (induction m)
  case (Cons entry m)
  obtain e xs where entry: "entry = (e, xs)" by fastforce
  have "set xs \<inter> set ys = {}" if "(e', ys) \<in> set m" for e' ys
  proof -
    have "e < e'" using Cons.prems(1) that by (auto simp: entry)
    then show ?thesis using Cons.prems(2) [of e xs] Cons.prems(2) [of e' ys] that by (fastforce simp: entry)
  qed
  then have "set xs \<inter> set (concat (map snd m)) = {}" by fastforce
  moreover have "distinct (concat (map snd m))" using Cons.prems by (intro Cons.IH) auto
  moreover have "distinct xs" using Cons.prems(2) [of e xs] by (simp add: entry)
  ultimately show ?case by (simp add: entry)
qed simp

lemma overlapping_list:
  assumes ok: "physical_ok L"
  shows "qualified_occurrences_overlapping L window
    = filter (\<lambda>x. is_anchored window \<and> same_capture x window \<and> sample_start x < sample_end window \<and> sample_start window < sample_end x)
        (om_keys (evidence L))"
proof -
  let ?P = "\<lambda>owner. is_anchored window \<and> same_capture owner window \<and> sample_start owner < sample_end window"
  let ?late = "filter (\<lambda>(e, _). e > sample_start window) (qualified_by_end L)"
  let ?all = "concat (map snd ?late)"
  have om: "om_ok (qualified_by_end L)" and ev: "om_ok (evidence L)" using ok by (simp_all add: physical_ok_def)
  have entry: "os_ok xs \<and> set xs = {x. is_qualified L x \<and> sample_end x = e}" if "(e, xs) \<in> set (qualified_by_end L)" for e xs
  proof -
    have "map_of (qualified_by_end L) e = Some xs" using that om by (simp add: om_entry_iff)
    moreover have "os_ok (unwrap_or [] (map_of (qualified_by_end L) e))
      \<and> set (unwrap_or [] (map_of (qualified_by_end L) e)) = {x. is_qualified L x \<and> sample_end x = e}"
      using ok unfolding physical_ok_def by blast
    ultimately show ?thesis by simp
  qed
  have set: "set ?all = {x. is_qualified L x \<and> sample_end x > sample_start window}" (is "_ = ?rhs")
  proof (intro equalityI subsetI)
    fix x assume "x \<in> ?rhs"
    then have q: "is_qualified L x" "sample_end x > sample_start window" by auto
    then have "x \<in> set (unwrap_or [] (map_of (qualified_by_end L) (sample_end x)))" using ok by (simp add: physical_ok_def)
    then obtain xs where "map_of (qualified_by_end L) (sample_end x) = Some xs" "x \<in> set xs"
      by (cases "map_of (qualified_by_end L) (sample_end x)") auto
    then show "x \<in> set ?all" using q(2) om by (auto simp: om_entry_iff intro!: bexI [of _ "(sample_end x, xs)"])
  qed (use entry in auto)
  have "distinct ?all" using om entry by (intro distinct_by_end) (auto simp: os_ok_def)
  moreover have "sorted (om_keys (evidence L))" "distinct (om_keys (evidence L))"
    using ev om.keys_distinct [OF ev] by (simp_all add: om_ok_def strict_sorted_iff)
  moreover have "set (om_keys (evidence L)) = {x. is_qualified L x}" by (auto simp: om_keys_iff is_qualified_def)
  ultimately show ?thesis
    unfolding qualified_occurrences_overlapping_def using set
    by (intro sorted_distinct_set_unique) (auto simp: sorted_filter [of id, simplified])
qed

text \<open>The qualified index is exact. In every run, the indexed lookup of the qualified occurrences that
  overlap a window returns, in capture order, exactly those of all qualified occurrences that share the
  capture and meet the window.\<close>

theorem qualified_index_is_exact:
  "let L = ledger_after W w ops in
     qualified_occurrences_overlapping L window
       = filter (\<lambda>x. is_anchored window \<and> same_capture x window \<and> pcm x \<inter> pcm window \<noteq> {}) (om_keys (evidence L))"
proof -
  let ?L = "ledger_after W w ops"
  have ok: "physical_ok ?L" using ledger_ok_after [of W w ops] by (simp add: ledger_ok_def)
  have "is_anchored x" if "x \<in> set (om_keys (evidence ?L))" for x
    using ok that by (auto simp: om_keys_iff physical_ok_def)
  then have "filter (\<lambda>x. is_anchored window \<and> same_capture x window \<and> sample_start x < sample_end window \<and> sample_start window < sample_end x)
        (om_keys (evidence ?L))
      = filter (\<lambda>x. is_anchored window \<and> same_capture x window \<and> pcm x \<inter> pcm window \<noteq> {}) (om_keys (evidence ?L))"
    by (intro filter_cong) (auto simp: pcm_Int is_anchored_def)
  then show ?thesis by (simp add: overlapping_list [OF ok])
qed

end
