(* ===== verification/Ledger_Receipts.thy ===== *)
theory Ledger_Receipts
  imports Ledger_Finality
begin

section \<open>Frontiers, document receipts and overlapping labels along every run\<close>

text \<open>
  Three more groups of facts about arbitrary runs of the ledger: an observation frontier reports its
  closing once, every document receipt the ledger holds stays authentic, and whole-label admission never
  commits two overlapping occurrences.
\<close>

subsection \<open>Frontiers\<close>

fun note_returns ::
    "('c, 'w, 'f) word_layer \<Rightarrow> occurrence \<Rightarrow> observation_producer list \<Rightarrow> ('c, 'w, 'f) ledger \<Rightarrow> ('c, 'w, 'f) ledger \<times> bool list" where
  "note_returns W x [] L = (L, [])"
| "note_returns W x (p # ps) L =
     (case note_frontier_return W x p L of (L, shut) \<Rightarrow> case note_returns W x ps L of (L, rs) \<Rightarrow> (L, shut # rs))"

lemma note_frontier_return_step:
  assumes "om_ok (frontiers L)" and "map_of (frontiers L) x = Some f"
  obtains L' where "note_frontier_return W x p L = (L', \<not> is_closed f \<and> is_closed (record_return p f))"
    "om_ok (frontiers L')" "map_of (frontiers L') x = Some (record_return p f)"
proof -
  let ?L = "L\<lparr>frontiers := om_insert x (record_return p f) (frontiers L)\<rparr>"
  have "frontiers (reconcile_returned_word_debt W x ?L) = frontiers ?L"
    using reconcile_frame(2) [of W x ?L] by (simp add: physical_def)
  then show thesis
    by (intro that [of "reconcile_returned_word_debt W x ?L"])
      (simp_all add: note_frontier_return_def assms Let_def)
qed

lemma returns_close_once:
  assumes "om_ok (frontiers L)" and "map_of (frontiers L) x = Some f"
  shows "length (filter id (snd (note_returns W x ps L)))
    = (if \<not> is_closed f \<and> fr_scheduled f \<subseteq> fr_returned f \<union> set ps then 1 else 0)"
  using assms
proof (induction ps arbitrary: L f)
  case Nil
  then show ?case by (auto simp: is_closed_def)
next
  case (Cons p ps)
  obtain L' where step: "note_frontier_return W x p L = (L', \<not> is_closed f \<and> is_closed (record_return p f))"
    and ok: "om_ok (frontiers L')" "map_of (frontiers L') x = Some (record_return p f)"
    using note_frontier_return_step [OF Cons.prems] .
  from Cons.IH [OF ok] show ?case
    by (auto simp: step case_prod_beta is_closed_def record_return_def split: if_splits)
qed

text \<open>C36. A frontier closes exactly once. In every run, after observers were scheduled on a coverage, any
  sequence of returns reports the closing of the frontier exactly once when every scheduled observer is
  among them, whatever the order, repetitions and foreign producers, and never otherwise; a frontier
  nobody is scheduled on is never reported.\<close>

theorem frontier_closes_exactly_once:
  "length (filter id (snd (note_returns W x returns (schedule_frontier x producers (ledger_after W w ops)))))
     = (if producers \<noteq> [] \<and> set producers \<subseteq> set returns then 1 else 0)"
proof -
  let ?L = "ledger_after W w ops"
  have "om_ok (frontiers ?L)" using ledger_ok_after [of W w ops] by (simp add: ledger_ok_def upkeep_ok_def)
  then show ?thesis
    using returns_close_once [of "schedule_frontier x producers ?L" x "frontier_scheduled x producers" W returns]
    by (simp add: schedule_frontier_def frontier_scheduled_def is_closed_def)
qed

subsection \<open>Document receipts\<close>

definition document_op :: "('c, 'w) ledger_op \<Rightarrow> bool" where
  "document_op op = (case op of BindDocument _ _ _ \<Rightarrow> True | CompleteDocument _ _ \<Rightarrow> True
     | ReviseDocument _ _ _ _ _ _ \<Rightarrow> True | PresentConsultation _ _ _ _ _ _ \<Rightarrow> True | ShapeSpan _ _ \<Rightarrow> True | _ \<Rightarrow> False)"

lemma documents_updates [simp]:
  "documents (L\<lparr>frontiers := f\<rparr>) = documents L" "documents (L\<lparr>latest_seal_coverage := c\<rparr>) = documents L"
  "documents (L\<lparr>complete_decode_spans := d\<rparr>) = documents L" "documents (L\<lparr>pending_text_recovery := p\<rparr>) = documents L"
  "documents (L\<lparr>capture_rate_hz := r\<rparr>) = documents L" "documents (L\<lparr>derivations := ds\<rparr>) = documents L"
  "documents (L\<lparr>ledger_speech := sp\<rparr>) = documents L" "documents (L\<lparr>words := w\<rparr>) = documents L"
  "documents (L\<lparr>evidence := e, qualified_by_end := q, unsealed_qualified := u\<rparr>) = documents L"
  "documents (L\<lparr>seals := sl, unsealed_qualified := u, words := w\<rparr>) = documents L"
  "documents (L\<lparr>terminal_seals := ts, transcript_seal_timestamp_ms := t\<rparr>) = documents L"
  by (simp_all add: documents_def)

lemma documents_perform:
  assumes ok: "accounts_ok L" and op: "\<not> document_op op"
  shows "documents (perform W op L) = documents L"
proof (cases "offer_op op")
  case True
  then show ?thesis
    using perform_offer [OF True accounts_ok_maps [OF ok], of W] by (auto simp: offers_def admitted_def)
next
  case other: False
  have seal: "documents (fst (seal W x L')) = documents L'" for x L'
    by (cases rule: seal_cases [of W x L']) (simp_all add: documents_def)
  show ?thesis
  proof (cases op)
    case (SealTerminal now s epoch)
    then show ?thesis by (simp add: seal_terminal_invariant [of "\<lambda>L'. documents L' = documents L"] seal)
  qed (use op other in \<open>simp_all add: document_op_def offer_op_def seal note_frontier_return_def frame_simps qualify_def
      schedule_frontier_def schedule_observer_def schedule_settled_formatter_def
      schedule_late_apple_label_def record_seal_coverage_def record_complete_decode_span_def require_text_recovery_def
      bind_capture_rate_def record_derivation_def record_speech_evidence_def Let_def split: option.split\<close>)
qed

text \<open>What the document side of the ledger keeps.\<close>

definition shaping_ordinals :: "('c, 'w, 'f) ledger \<Rightarrow> bool" where
  "shaping_ordinals L \<longleftrightarrow> (\<forall>i < length (incremental_shapings L).
     last (split_on 45 (is_receipt_id (incremental_shapings L ! i))) = show_nat i)"

definition presented :: "('c, 'w, 'f) ledger \<Rightarrow> occurrence list" where
  "presented L = concat (map (\<lambda>p. map pm_occurrence (cp_members p)) (consultation_presentations L))"

definition documents_ok :: "('c, 'w, 'f) ledger \<Rightarrow> bool" where
  "documents_ok L \<longleftrightarrow> list_all (authenticates_manual_document_revision L) (manual_document_revisions L)
     \<and> shaping_ordinals L \<and> distinct (presented L)
     \<and> distinct (map (\<lambda>p. (cp_consultation p, cp_turn p)) (consultation_presentations L))"

lemmas document_parts = documents_ok_def authenticates_manual_document_revision_def shaping_ordinals_def presented_def

lemma documents_ok_new: "documents_ok (new_ledger w)"
  by (simp add: document_parts new_ledger_def)

lemma documents_ok_same:
  assumes "documents L' = documents L"
  shows "documents_ok L' = documents_ok L"
proof -
  have "authenticates_manual_document_revision L' = authenticates_manual_document_revision L"
    by (rule ext) (use assms in \<open>simp add: authenticates_manual_document_revision_def documents_def\<close>)
  then show ?thesis using assms by (simp add: documents_ok_def shaping_ordinals_def presented_def documents_def)
qed

lemma split_on_last_sep: "d \<notin> set q \<Longrightarrow> split_on d (p @ d # q) = split_on d p @ [q]"
proof (induction p)
  case Nil
  then show ?case by (simp add: split_on_piece)
next
  case (Cons c p)
  then show ?case by (cases "split_on d p") auto
qed

lemma shaping_id_ordinal: "last (split_on 45 (shaping_id i n)) = show_nat n"
proof -
  have "\<exists>p. shaping_id i n = p @ 45 # show_nat n"
    unfolding shaping_id_def by (simp add: lit_def)
  moreover have "45 \<notin> set (show_nat n)" using show_nat_digits [of n] by auto
  ultimately show ?thesis using split_on_last_sep by (metis last_snoc)
qed

lemma revision_authentic:
  assumes ok: "documents_ok L" and new: "record_manual_document_revision s a b t xs p L = (L', Inr r)"
  shows "L' = L\<lparr>manual_document_revisions := manual_document_revisions L @ [r]\<rparr>"
    and "authenticates_manual_document_revision L' r"
proof -
  have run: "record_manual_document_revision s a b t xs p L = (L', Inr r)" by (rule new)
  show L': "L' = L\<lparr>manual_document_revisions := manual_document_revisions L @ [r]\<rparr>"
    using run by (auto simp: record_manual_document_revision_def Let_def split: if_splits sum.splits)
  show "authenticates_manual_document_revision L' r"
  proof (cases "xs = []")
    case False
    then have "dr_occurrences r = xs" "dr_capture_receipt r = None" "dr_capture_epoch r = None"
      using run by (auto simp: record_manual_document_revision_def Let_def split: if_splits)
    with False show ?thesis by (simp add: authenticates_manual_document_revision_def L')
  next
    case True
    then obtain owner where owner: "revision_capture L s a p = Inr owner" and r: "dr_occurrences r = []" "dr_seals r = []"
        "dr_session r = s" "dr_provenance r = provenance_str p" "dr_capture_epoch r = Some (dc_epoch owner)"
        "dr_capture_receipt r = Some (dc_receipt_id owner)"
      using run by (cases "revision_capture L s a p")
        (auto simp: record_manual_document_revision_def Let_def split: if_splits)
    from owner have "manual_document_capture L = Some owner" "dc_session owner = s" "dc_source_revision owner \<noteq> None"
        "p \<in> {UserEdit, Retranscribe, Navigation}"
      by (auto simp: revision_capture_def Let_def split: if_splits option.splits)
    with r show ?thesis by (auto simp: authenticates_manual_document_revision_def L')
  qed
qed

lemma revisions_kept:
  assumes "list_all (authenticates_manual_document_revision L) (manual_document_revisions L)"
    and "set (manual_document_revisions L) \<subseteq> set (manual_document_revisions L')"
    and "\<And>owner. manual_document_capture L = Some owner \<Longrightarrow> dc_source_revision owner \<noteq> None \<Longrightarrow> manual_document_capture L' = Some owner"
  shows "list_all (authenticates_manual_document_revision L') (manual_document_revisions L)"
  using assms unfolding list_all_iff
proof (intro ballI)
  fix r assume r: "r \<in> set (manual_document_revisions L)"
  then have "authenticates_manual_document_revision L r" using assms(1) by (simp add: list_all_iff)
  with r assms(2,3) show "authenticates_manual_document_revision L' r"
    by (auto simp: authenticates_manual_document_revision_def split: if_splits option.splits)
qed

lemma check_members_distinct:
  "check_members L s epoch reach ms = Inr e \<Longrightarrow> distinct (map pm_occurrence ms)
    \<and> (\<forall>m \<in> set ms. sample_start (pm_occurrence m) \<ge> reach \<and> sample_start (pm_occurrence m) < sample_end (pm_occurrence m))"
proof (induction ms arbitrary: reach)
  case (Cons m ms)
  then have first: "sample_start (pm_occurrence m) \<ge> reach" "sample_start (pm_occurrence m) < sample_end (pm_occurrence m)"
    and rest: "check_members L s epoch (sample_end (pm_occurrence m)) ms = Inr e"
    by (auto simp: Let_def split: if_splits)
  from Cons.IH [OF rest] first show ?case by fastforce
qed simp

text \<open>What a recorded presentation has passed.\<close>

definition presentation_result ::
    "('c, 'w, 'f) ledger \<Rightarrow> rstr \<Rightarrow> rstr \<Rightarrow> presentation_member list
      \<Rightarrow> ('c, 'w, 'f) ledger \<times> (rstr + consultation_presentation) \<Rightarrow> bool" where
  "presentation_result L c t ms r \<longleftrightarrow> (case snd r of
     Inl _ \<Rightarrow> fst r = L
   | Inr p \<Rightarrow> fst r = L\<lparr>consultation_presentations := consultation_presentations L @ [p]\<rparr>
       \<and> cp_members p = ms \<and> cp_consultation p = c \<and> cp_turn p = t
       \<and> (\<exists>s epoch reach e. check_members L s epoch reach ms = Inr e)
       \<and> \<not> list_ex (\<lambda>r. cp_consultation r = c \<and> cp_turn r = t) (consultation_presentations L)
       \<and> \<not> list_ex (\<lambda>r. list_ex (\<lambda>old. list_ex (\<lambda>m. pm_occurrence old = pm_occurrence m) ms) (cp_members r)) (consultation_presentations L))"

lemma presentation_result_refused: "presentation_result L c t ms (L, Inl e)"
  by (simp add: presentation_result_def)

lemma presentation_result_ok: "presentation_result L c t ms (record_consultation_presentation c t a b ms body L)"
proof (cases ms)
  case Nil
  then show ?thesis by (simp add: record_consultation_presentation_def presentation_result_refused)
next
  case (Cons m ms')
  show ?thesis
    unfolding record_consultation_presentation_def Let_def Cons list.case
  proof (split if_split, intro conjI impI, rule presentation_result_refused)+
    show "presentation_result L c t (m # ms')
      (case check_members L (session (pm_occurrence m)) (capture_epoch (pm_occurrence m)) (sample_start (pm_occurrence m)) (m # ms') of
         Inl why \<Rightarrow> (L, Inl why)
       | Inr reach \<Rightarrow>
           if known_between L (session (pm_occurrence m)) (capture_epoch (pm_occurrence m)) (sample_start (pm_occurrence m)) reach \<noteq> map pm_occurrence (m # ms')
           then (L, Inl (lit ''consultation_presentation_members_incomplete''))
           else if list_ex (\<lambda>r. cp_consultation r = c \<and> cp_turn r = t) (consultation_presentations L)
           then (L, Inl (lit ''consultation_presentation_turn_repeated''))
           else if list_ex (\<lambda>r. list_ex (\<lambda>old. list_ex (\<lambda>m. pm_occurrence old = pm_occurrence m) (m # ms')) (cp_members r)) (consultation_presentations L)
           then (L, Inl (lit ''consultation_presentation_group_overlaps''))
           else (L\<lparr>consultation_presentations := consultation_presentations L @ [\<lparr>cp_receipt_id =
                  presentation_id (session (pm_occurrence m)) (capture_epoch (pm_occurrence m)) (length (consultation_presentations L)),
                  cp_consultation = c, cp_turn = t, cp_source_revision = a,
                  cp_revision = b, cp_members = m # ms', cp_text = body\<rparr>]\<rparr>,
                Inr \<lparr>cp_receipt_id = presentation_id (session (pm_occurrence m)) (capture_epoch (pm_occurrence m)) (length (consultation_presentations L)),
                  cp_consultation = c, cp_turn = t, cp_source_revision = a,
                  cp_revision = b, cp_members = m # ms', cp_text = body\<rparr>))"
      apply (split sum.split)
      apply (intro conjI allI impI)
       apply (rule presentation_result_refused)
      apply (split if_split, intro conjI impI, rule presentation_result_refused)+
      apply (unfold presentation_result_def)
      apply (simp only: sum.case fst_conv snd_conv consultation_presentation.select_convs)
      apply blast
      done
  qed
qed

lemma presentation_kept:
  assumes ok: "documents_ok L"
  shows "documents_ok (fst (record_consultation_presentation c t a b ms body L))"
proof -
  note res = presentation_result_ok [of L c t ms a b body, unfolded presentation_result_def]
  show ?thesis
  proof (cases "snd (record_consultation_presentation c t a b ms body L)")
    case (Inl why)
    then show ?thesis using res ok by simp
  next
    case (Inr r)
    let ?L = "L\<lparr>consultation_presentations := consultation_presentations L @ [r]\<rparr>"
    have L': "fst (record_consultation_presentation c t a b ms body L) = ?L"
      and r: "cp_members r = ms" "cp_consultation r = c" "cp_turn r = t"
      and check: "\<exists>s epoch reach e. check_members L s epoch reach ms = Inr e"
      and turn: "\<not> list_ex (\<lambda>r. cp_consultation r = c \<and> cp_turn r = t) (consultation_presentations L)"
      and group: "\<not> list_ex (\<lambda>r. list_ex (\<lambda>old. list_ex (\<lambda>m. pm_occurrence old = pm_occurrence m) ms) (cp_members r)) (consultation_presentations L)"
      using res [unfolded Inr sum.case] by (blast+)
    have d: "distinct (map pm_occurrence ms)" using check check_members_distinct by blast
    have "set (presented L) \<inter> set (map pm_occurrence ms) = {}"
      using group by (fastforce simp: presented_def list_ex_iff)
    with d have "distinct (presented ?L)" using ok by (simp add: documents_ok_def presented_def r)
    moreover have "distinct (map (\<lambda>p. (cp_consultation p, cp_turn p)) (consultation_presentations L @ [r]))"
    proof -
      have "(c, t) \<notin> (\<lambda>p. (cp_consultation p, cp_turn p)) ` set (consultation_presentations L)"
        using turn by (auto simp: list_ex_iff)
      then show ?thesis using ok by (simp add: documents_ok_def r(2,3))
    qed
    moreover have "list_all (authenticates_manual_document_revision ?L) (manual_document_revisions L)"
      by (rule revisions_kept) (use ok in \<open>simp_all add: documents_ok_def\<close>)
    ultimately show ?thesis using ok by (simp add: L' documents_ok_def shaping_ordinals_def)
  qed
qed

lemma shaping_kept:
  assumes ok: "documents_ok L"
  shows "documents_ok (fst (record_incremental_shaping W shape i L))"
proof -
  have auth: "authenticates_manual_document_revision (L\<lparr>latest_incremental_shaping := m, incremental_shapings := sh\<rparr>)
      = authenticates_manual_document_revision L" for m sh
    by (rule ext) (simp add: authenticates_manual_document_revision_def)
  have "documents_ok (L\<lparr>latest_incremental_shaping := m, incremental_shapings := incremental_shapings L @ [r]\<rparr>)"
    if "is_receipt_id r = shaping_id i (length (incremental_shapings L))" for m r
    using ok that by (auto simp: documents_ok_def auth shaping_ordinals_def presented_def nth_append shaping_id_ordinal less_Suc_eq)
  then show ?thesis using ok by (simp add: record_incremental_shaping_def Let_def)
qed

lemma capture_kept:
  assumes ok: "documents_ok L"
  shows "documents_ok (fst (bind_manual_document_capture uuid s epoch L))"
    and "documents_ok (fst (complete_manual_document_capture owner r L))"
proof -
  have keep: "documents_ok (L\<lparr>manual_document_capture := c\<rparr>)"
    if "\<And>owner. manual_document_capture L = Some owner \<Longrightarrow> dc_source_revision owner \<noteq> None \<Longrightarrow> c = Some owner" for c
  proof -
    have "list_all (authenticates_manual_document_revision (L\<lparr>manual_document_capture := c\<rparr>)) (manual_document_revisions L)"
      by (rule revisions_kept) (use ok that in \<open>simp_all add: documents_ok_def\<close>)
    then show ?thesis using ok by (simp add: documents_ok_def shaping_ordinals_def presented_def)
  qed
  show "documents_ok (fst (bind_manual_document_capture uuid s epoch L))"
    using ok by (auto simp: bind_manual_document_capture_def Let_def intro!: keep split: option.split)
  show "documents_ok (fst (complete_manual_document_capture owner r L))"
    using ok by (auto simp: complete_manual_document_capture_def Let_def intro!: keep split: option.split)
qed

definition quiet_refusal :: "'l \<Rightarrow> 'l \<times> ('e + 'r) \<Rightarrow> bool" where
  "quiet_refusal L r \<longleftrightarrow> (isl (snd r) \<longrightarrow> fst r = L)"

lemma quiet_refusal_simps:
  "quiet_refusal L (L', Inr v)" "quiet_refusal L (L, e)"
  "quiet_refusal L (if c then a else b) \<longleftrightarrow> (if c then quiet_refusal L a else quiet_refusal L b)"
  by (simp_all add: quiet_refusal_def)

lemma revision_kept:
  assumes ok: "documents_ok L"
  shows "documents_ok (fst (record_manual_document_revision s a b t xs p L))"
proof (cases "snd (record_manual_document_revision s a b t xs p L)")
  case (Inl why)
  moreover have "quiet_refusal L (record_manual_document_revision s a b t xs p L)"
    unfolding record_manual_document_revision_def Let_def by (simp add: quiet_refusal_simps split: sum.split)
  ultimately have "fst (record_manual_document_revision s a b t xs p L) = L" by (simp add: quiet_refusal_def)
  then show ?thesis using ok by simp
next
  case (Inr r)
  define L' where "L' = fst (record_manual_document_revision s a b t xs p L)"
  have run: "record_manual_document_revision s a b t xs p L = (L', Inr r)" using Inr by (simp add: L'_def prod_eq_iff)
  note new = revision_authentic [OF ok run]
  have "list_all (authenticates_manual_document_revision L') (manual_document_revisions L)"
    by (rule revisions_kept) (use ok in \<open>auto simp: documents_ok_def new(1)\<close>)
  with new(2) ok have "documents_ok L'"
    by (simp add: documents_ok_def new(1) shaping_ordinals_def presented_def)
  then show ?thesis by (simp add: L'_def)
qed

lemma documents_ok_perform:
  assumes "accounts_ok L" "documents_ok L"
  shows "documents_ok (perform W op L)"
proof (cases "document_op op")
  case True
  then show ?thesis
    using assms by (cases op) (simp_all add: document_op_def capture_kept revision_kept presentation_kept shaping_kept)
next
  case False
  then show ?thesis using documents_perform [OF assms(1) False, of W] documents_ok_same assms(2) by blast
qed

lemma documents_ok_after: "documents_ok (ledger_after W w ops)"
proof -
  have "accounts_ok (ledger_after W w ops) \<and> documents_ok (ledger_after W w ops)"
    unfolding ledger_after_def
    by (rule ledger_run_invariant) (simp_all add: accounts_ok_perform documents_ok_perform accounts_ok_new documents_ok_new)
  then show ?thesis ..
qed

text \<open>Document receipts stay authentic. In every run, every whole-document revision the ledger ever
  recorded authenticates, with or without source occurrences; no occurrence is ever presented to two
  consultations or twice to one, and no consultation turn is recorded twice.\<close>

theorem document_receipts_stay_authentic:
  "let L = ledger_after W w ops in
     list_all (authenticates_manual_document_revision L) (manual_document_revisions L)
     \<and> distinct (presented L)
     \<and> distinct (map (\<lambda>p. (cp_consultation p, cp_turn p)) (consultation_presentations L))"
  using documents_ok_after [of W w ops] by (simp add: documents_ok_def Let_def)

text \<open>The ordinal in a shaping receipt is only a hint, and always the right one: in every run, the
  lookup by the trailing number of the receipt identifier authenticates exactly the receipts the ledger
  holds, for every receipt whose position a 64-bit index can name.\<close>

theorem shaping_hint_is_exact:
  "let L = ledger_after W w ops in
     authenticates_incremental_shaping L r \<longleftrightarrow> r \<in> set (take (u64_max + 1) (incremental_shapings L))"
proof -
  let ?L = "ledger_after W w ops" and ?rs = "incremental_shapings (ledger_after W w ops)"
  have ord: "last (split_on 45 (is_receipt_id (?rs ! i))) = show_nat i" if "i < length ?rs" for i
    using documents_ok_after [of W w ops] that by (simp add: documents_ok_def shaping_ordinals_def)
  show ?thesis unfolding Let_def
  proof
    assume "authenticates_incremental_shaping ?L r"
    then obtain i where i: "parse_usize (last (split_on 45 (is_receipt_id r))) = Some i" "i < length ?rs" "?rs ! i = r"
      by (auto simp: authenticates_incremental_shaping_def split: option.splits)
    then have "i \<le> u64_max" by (auto simp: parse_usize_def Let_def split: if_splits option.splits list.splits)
    with i show "r \<in> set (take (u64_max + 1) ?rs)" by (auto simp: in_set_conv_nth intro!: exI [of _ i])
  next
    assume "r \<in> set (take (u64_max + 1) ?rs)"
    then obtain i where "i < length ?rs" "i \<le> u64_max" "?rs ! i = r" by (auto simp: in_set_conv_nth less_Suc_eq_le)
    then show "authenticates_incremental_shaping ?L r"
      using ord [of i] parse_usize_show [of i] by (auto simp: authenticates_incremental_shaping_def)
  qed
qed

subsection \<open>Labels do not overlap\<close>

definition whole_label_op :: "('c, 'w) ledger_op \<Rightarrow> bool" where
  "whole_label_op op = (case op of AdmitBatch _ _ slots _ _ \<Rightarrow> slots = None | _ \<Rightarrow> True)"

definition overlap_free :: "('c, 'w, 'f) ledger \<Rightarrow> bool" where
  "overlap_free L \<longleftrightarrow> (\<forall>x \<in> set (om_keys (committed L)). \<forall>y \<in> set (om_keys (committed L)). \<not> is_Overlapping (relate x y))"

lemma is_overlapping_iff: "is_Overlapping (relate x y) \<longleftrightarrow> x \<noteq> y \<and> same_capture x y \<and> pcm x \<inter> pcm y \<noteq> {}"
proof -
  have "x = y" if "same_capture x y" "sample_start x = sample_start y" "sample_end x = sample_end y"
    using that by (cases x; cases y) (auto simp: same_capture_def)
  then show ?thesis by (auto simp: relate_def pcm_Int Let_def is_anchored_def)
qed

lemma overlapping_sym: "is_Overlapping (relate x y) \<longleftrightarrow> is_Overlapping (relate y x)"
  by (auto simp: is_overlapping_iff same_capture_sym Int_commute)

lemma admitted_grant:
  assumes "admitted rv pins obs L L' d" and "grants_mutation d"
  shows "\<exists>h. map_of (committed L') = (map_of (committed L))(occurrence obs \<mapsto> h)"
    and "map_of (committed L) (occurrence obs) = None \<Longrightarrow> is_sealed L (occurrence obs) \<or> pins
      \<or> \<not> list_ex (\<lambda>c. is_Overlapping (relate (occurrence obs) c)) (om_keys (committed L))"
  using assms by (simp_all add: admitted_def)

lemma overlap_free_admitted:
  assumes ok: "ledger_ok L" and free: "overlap_free L" and adm: "admitted rv False obs L L' d"
  shows "overlap_free L'"
proof -
  let ?x = "occurrence obs"
  have committed: "map_of (committed L) ?x \<noteq> None" if "is_sealed L ?x"
    using ok that by (auto simp: ledger_ok_def seals_ok_def seal_ok_def is_sealed_def text_of_def)
  have keys: "set (om_keys (committed L')) = insert ?x (set (om_keys (committed L)))"
      "map_of (committed L) ?x = None \<Longrightarrow> \<not> list_ex (\<lambda>c. is_Overlapping (relate ?x c)) (om_keys (committed L))"
    if g: "grants_mutation d"
  proof -
    obtain h where "map_of (committed L') = (map_of (committed L))(?x \<mapsto> h)" using admitted_grant(1) [OF adm g] by blast
    then show "set (om_keys (committed L')) = insert ?x (set (om_keys (committed L)))" by (auto simp: om_keys_iff split: if_splits)
    show "map_of (committed L) ?x = None \<Longrightarrow> \<not> list_ex (\<lambda>c. is_Overlapping (relate ?x c)) (om_keys (committed L))"
      using admitted_grant(2) [OF adm g] committed by blast
  qed
  show ?thesis
  proof (cases "grants_mutation d")
    case False
    then have "committed L' = committed L" using adm by (simp add: admitted_def)
    with free show ?thesis by (simp add: overlap_free_def)
  next
    case True
    have self: "\<not> is_Overlapping (relate ?x ?x)" by (auto simp: relate_def)
    show ?thesis
    proof (cases "map_of (committed L) ?x")
      case None
      then have "\<forall>c \<in> set (om_keys (committed L)). \<not> is_Overlapping (relate ?x c)"
        using keys(2) [OF True None] by (simp add: list_ex_iff)
      with free self show ?thesis unfolding overlap_free_def keys(1) [OF True] using overlapping_sym by blast
    next
      case (Some h)
      then have "?x \<in> set (om_keys (committed L))" by (simp add: om_keys_iff)
      then show ?thesis using free unfolding overlap_free_def keys(1) [OF True] by (simp add: insert_absorb)
    qed
  qed
qed

lemma overlap_free_perform:
  assumes ok: "ledger_ok L" and free: "overlap_free L" and op: "whole_label_op op"
  shows "overlap_free (perform W op L)"
proof -
  have maps: "om_ok (named_refusals L)" "om_ok (committed L)" using ok accounts_ok_maps by (auto simp: ledger_ok_def)
  note one = overlap_free_admitted [OF ok free]
  have refuse: "overlap_free (fst (refuse_replacement obs t why L))" for obs t why
    using one [OF refuse_replacement_admitted [OF maps]] by (metis prod.collapse)
  show ?thesis
  proof (cases op)
    case (AdmitBatch obs t slots rv ops)
    have "admitted rv False obs L (fst (admit_slot_batch W obs t None rv ops L)) (snd (admit_slot_batch W obs t None rv ops L))"
      using admit_slot_batch_admitted [OF maps, of W obs t None rv ops] by simp
    then show ?thesis using one op by (simp add: AdmitBatch whole_label_op_def)
  next
    case (KeepVisible obs t why)
    then show ?thesis using one [OF keep_visible_admitted [OF maps]] by (metis perform.simps(2) prod.collapse)
  next
    case (RefuseOffer obs t why)
    then show ?thesis by (simp add: refuse)
  next
    case (NoteUnrecovered x)
    then show ?thesis using free by (simp add: note_unrecovered_speech_def Let_def refuse)
  qed (use perform_not_offer [of op L W] free in \<open>simp_all add: offer_op_def not_offer_def overlap_free_def del: perform.simps\<close>)
qed

text \<open>C34. Whole labels never share audio. In every run that admits whole labels only, no sample of a take
  lies under two committed occurrences: an offer that overlaps a committed occurrence without word pins
  is kept visible instead.\<close>

theorem whole_labels_never_share_audio:
  "let ks = set (om_keys (committed (ledger_after W w (filter whole_label_op ops)))) in
     {(x, y). x \<in> ks \<and> y \<in> ks \<and> x \<noteq> y \<and> same_capture x y \<and> pcm x \<inter> pcm y \<noteq> {}} = {}"
proof -
  have "ledger_ok (ledger_run W (filter whole_label_op ops) L) \<and> overlap_free (ledger_run W (filter whole_label_op ops) L)"
    if "ledger_ok L" "overlap_free L" for L
    using that
  proof (induction ops arbitrary: L)
    case (Cons op ops)
    from Cons.IH [of "perform W op L"] Cons.IH [of L] Cons.prems show ?case
      by (simp add: ledger_run_def ledger_ok_perform overlap_free_perform)
  qed (simp add: ledger_run_def)
  from this [OF ledger_ok_new] have "overlap_free (ledger_after W w (filter whole_label_op ops))"
    by (simp add: ledger_after_def overlap_free_def new_ledger_def om_keys_def)
  then show ?thesis by (auto simp: overlap_free_def is_overlapping_iff)
qed

subsection \<open>Authority and qualification\<close>

text \<open>C35. Lower authority never rewrites. In every run, a whole-label offer that is granted comes from a
  producer other than the formatter, names real audio, was not answered before, ranks at least as high as
  whoever holds the occurrence, and is human when the occurrence is sealed; an offer that is not granted
  leaves every committed label as it is.\<close>

theorem lower_authority_never_rewrites:
  "let L = ledger_after W w ops; x = occurrence obs in
     case admit W obs t L of (L', receipt) \<Rightarrow>
       if grants_mutation receipt
       then producer obs \<noteq> Formatter \<and> is_anchored x \<and> obs \<notin> answered L
         \<and> (case map_of (committed L) x of None \<Rightarrow> True | Some held \<Rightarrow> authority_rank (co_producer held) \<le> authority_rank (producer obs))
         \<and> (if is_sealed L x then producer obs = ManualHuman else True)
         \<and> (\<exists>h. map_of (committed L') = (map_of (committed L))(x \<mapsto> h))
       else committed L' = committed L"
proof -
  let ?L = "ledger_after W w ops"
  have ok: "accounts_ok ?L" using ledger_ok_after [of W w ops] by (simp add: ledger_ok_def)
  obtain L' d where run: "admit W obs t ?L = (L', d)" by fastforce
  have top: "authority_rank p \<le> authority_rank ManualHuman" for p by (cases p) simp_all
  from admit_admitted [OF accounts_ok_maps [OF ok] run] top show ?thesis
    by (auto simp: run Let_def admitted_def split: option.split)
qed

text \<open>The existence predicate: real audio, the calibration the evidence was measured with, energy not below
  the floor, and speech open at or before the start.\<close>

definition exists_physically :: "acoustic_evidence \<Rightarrow> energy_calibration \<Rightarrow> bool" where
  "exists_physically e c \<longleftrightarrow> is_anchored (ae_occurrence e) \<and> ae_calibration e = version c
     \<and> \<not> f64_less (ae_energy_integral e) (min_energy_integral c)
     \<and> (case ae_vad_open e of None \<Rightarrow> False | Some v \<Rightarrow> v \<le> sample_start (ae_occurrence e))"

text \<open>Qualification looks at the measurement only. In every run, a region qualifies if and only if it
  passes the existence predicate, whatever text it holds and whether or not it is sealed; it then holds the
  freshly minted serial, nothing else of the evidence, the labels or the seals changes, and the open regions
  are the qualified ones without a seal. A refusal changes nothing.\<close>

theorem qualification_is_physical:
  "let L = ledger_after W w ops; x = ae_occurrence e in
     case qualify W e c L of
       (L', Refused y r) \<Rightarrow> L' = L \<and> y = x \<and> \<not> exists_physically e c
     | (L', Qualified y s) \<Rightarrow> y = x \<and> exists_physically e c \<and> s = mint W e
         \<and> map_of (evidence L') = (map_of (evidence L))(x \<mapsto> s)
         \<and> seals L' = seals L \<and> committed L' = committed L
         \<and> set (unsealed_qualified L') = {y. is_qualified L' y \<and> \<not> is_sealed L' y}"
proof -
  have ok: "physical_ok (ledger_after W w ops)" using ledger_ok_after [of W w ops] by (simp add: ledger_ok_def)
  then have om: "om_ok (evidence (ledger_after W w ops))" by (simp add: physical_ok_def)
  have un: "set (unsealed_qualified (fst (qualify W e c (ledger_after W w ops))))
      = {y. is_qualified (fst (qualify W e c (ledger_after W w ops))) y \<and> \<not> is_sealed (fst (qualify W e c (ledger_after W w ops))) y}"
    using physical_ok_qualify [OF ok, of W e c] by (simp add: physical_ok_def)
  show ?thesis
  proof (cases "exists_physically e c")
    case True
    then have run: "qualify W e c (ledger_after W w ops) = (fst (qualify W e c (ledger_after W w ops)), Qualified (ae_occurrence e) (mint W e))"
      "evidence (fst (qualify W e c (ledger_after W w ops))) = om_insert (ae_occurrence e) (mint W e) (evidence (ledger_after W w ops))"
      "seals (fst (qualify W e c (ledger_after W w ops))) = seals (ledger_after W w ops)"
      "committed (fst (qualify W e c (ledger_after W w ops))) = committed (ledger_after W w ops)"
      by (simp_all add: qualify_def exists_physically_def Let_def prod_eq_iff)
    show ?thesis unfolding Let_def by (subst run(1)) (simp add: un run(2,3,4) om True)
  next
    case False
    then show ?thesis by (auto simp: qualify_def exists_physically_def Let_def)
  qed
qed

end
