(* ===== verification/File_Paths.thy ===== *)
theory File_Paths
  imports Rust_Text
begin

section \<open>Paths and the file system\<close>

text \<open>
  The operations of \<open>std::path::Path\<close> the agent tools use, on the text of a Unix path: components,
  the component-wise prefix test, parent, file name and push. The file system itself is not code of the
  repository: it is the record \<open>host\<close>, a parameter of every definition that asks it.
\<close>

subsection \<open>Components\<close>

datatype path_component = RootDir | CurDir | ParentDir | Normal rstr

definition is_absolute :: "rstr \<Rightarrow> bool" where
  "is_absolute p = starts_with (lit ''/'') p"

text \<open>Repeated and trailing separators and inner \<open>.\<close> segments name nothing.\<close>

definition skipped :: "rstr \<Rightarrow> bool" where
  "skipped seg \<longleftrightarrow> seg = [] \<or> seg = lit ''.''"

definition segment_component :: "rstr \<Rightarrow> path_component" where
  "segment_component seg = (if seg = lit ''..'' then ParentDir else Normal seg)"

definition path_components :: "rstr \<Rightarrow> path_component list" where
  "path_components p =
     (let segs = split_on 47 p
      in (if is_absolute p then [RootDir] else if hd segs = lit ''.'' then [CurDir] else [])
         @ map segment_component (filter (\<lambda>seg. \<not> skipped seg) segs))"

definition path_starts_with :: "rstr \<Rightarrow> rstr \<Rightarrow> bool" where
  "path_starts_with p root \<longleftrightarrow>
     take (length (path_components root)) (path_components p) = path_components root"

definition file_name :: "rstr \<Rightarrow> rstr option" where
  "file_name p = (case rev (path_components p) of Normal s # _ \<Rightarrow> Some s | _ \<Rightarrow> None)"

text \<open>The parent is a slice of the text: the last component and the separators before it are gone.\<close>

definition drop_last_segment :: "rstr list \<Rightarrow> rstr list option" where
  "drop_last_segment segs =
     (case dropWhile skipped (rev segs) of
        [] \<Rightarrow> None
      | _ # front \<Rightarrow> Some (rev (dropWhile skipped front)))"

definition path_parent :: "rstr \<Rightarrow> rstr option" where
  "path_parent p =
     (if is_absolute p
      then map_option (\<lambda>segs. lit ''/'' @ join_with (lit ''/'') segs) (drop_last_segment (split_on 47 (drop 1 p)))
      else if hd (split_on 47 p) = lit ''.''
      then (case drop_last_segment (tl (split_on 47 p)) of
              None \<Rightarrow> Some [] | Some segs \<Rightarrow> Some (join_with (lit ''/'') (lit ''.'' # segs)))
      else map_option (join_with (lit ''/'')) (drop_last_segment (split_on 47 p)))"

definition path_push :: "rstr \<Rightarrow> rstr \<Rightarrow> rstr" where
  "path_push base p =
     (if is_absolute p then p
      else if base = [] \<or> ends_with (lit ''/'') base then base @ p
      else base @ lit ''/'' @ p)"

subsection \<open>The host\<close>

record host =
  path_exists :: "rstr \<Rightarrow> bool"
  canonicalize :: "rstr \<Rightarrow> rstr option"
  is_dir :: "rstr \<Rightarrow> bool"
  home :: "rstr option"

subsection \<open>Lemmas\<close>

lemma join_with_Cons: "join_with sep (p # ps) = (if ps = [] then p else p @ sep @ join_with sep ps)"
  by (cases ps) simp_all

lemma length_join_with: "length (join_with [d] ps) = (\<Sum>p\<leftarrow>ps. length p) + (length ps - 1)"
  by (induction "[d]" ps rule: join_with.induct) simp_all

lemma join_split_on: "join_with [d] (split_on d s) = s"
  by (induction s) (auto simp: join_with_Cons split: list.split)

lemma split_on_no_sep: "p \<in> set (split_on d s) \<Longrightarrow> d \<notin> set p"
proof (induction s arbitrary: p)
  case (Cons c s)
  obtain q qs where "split_on d s = q # qs" by (cases "split_on d s") auto
  with Cons show ?case by (cases "c = d") auto
qed simp

lemma split_on_subset: "p \<in> set (split_on d s) \<Longrightarrow> set p \<subseteq> set s"
  by (induction s arbitrary: p) (fastforce split: list.splits if_splits)+

lemma drop_last_segment_shorter:
  assumes "drop_last_segment (split_on d s) = Some segs"
  shows "length (join_with [d] segs) < length s \<or> segs = [] \<and> s \<noteq> []"
proof -
  obtain last' front where f: "dropWhile skipped (rev (split_on d s)) = last' # front"
    and segs: "segs = rev (dropWhile skipped front)"
    using assms by (auto simp: drop_last_segment_def split: list.splits)
  have not_skipped: "\<not> skipped last'" using f by (metis hd_dropWhile list.distinct(1) list.sel(1))
  then have last': "0 < length last'" by (auto simp: skipped_def)
  obtain skip1 where s1: "rev (split_on d s) = skip1 @ last' # front"
    using f by (metis takeWhile_dropWhile_id)
  obtain skip2 where s2: "front = skip2 @ rev segs"
    using segs by (metis rev_rev_ident takeWhile_dropWhile_id)
  have "split_on d s = segs @ rev skip2 @ last' # rev skip1"
    using s1 s2 by (metis append_assoc append_Cons append_Nil rev.simps(2) rev_append rev_rev_ident)
  then have "length s = length (join_with [d] (segs @ rev skip2 @ last' # rev skip1))"
    by (metis join_split_on)
  then have "length s = length (join_with [d] segs) + length (join_with [d] (rev skip2 @ last' # rev skip1)) + (if segs = [] then 0 else 1)"
    by (cases segs) (auto simp: length_join_with)
  moreover have "0 < length (join_with [d] (rev skip2 @ last' # rev skip1))"
    using last' by (simp add: length_join_with)
  ultimately show ?thesis by (cases "segs = []") auto
qed

lemma split_on_absolute: "hd (split_on d s) = x \<Longrightarrow> d \<notin> set x \<Longrightarrow> s = x \<or> (\<exists>rest. s = x @ d # rest \<and> tl (split_on d s) = split_on d rest)"
proof (induction s arbitrary: x)
  case (Cons c cs)
  show ?case
  proof (cases "c = d")
    case True
    then show ?thesis using Cons.prems by auto
  next
    case False
    then obtain y where x: "x = c # y" and y: "hd (split_on d cs) = y" using Cons.prems by (auto split: list.splits)
    with Cons.IH [OF y] Cons.prems(2) False show ?thesis by (auto split: list.splits)
  qed
qed auto

text \<open>Every parent is a shorter text, so a walk towards the root ends.\<close>

lemma path_parent_shorter:
  assumes "path_parent p = Some q"
  shows "length q < length p"
proof (cases "is_absolute p")
  case True
  then obtain body where p: "p = 47 # body" by (cases p) (auto simp: is_absolute_def lit_def)
  obtain segs where q: "q = 47 # join_with [47] segs" and d: "drop_last_segment (split_on 47 body) = Some segs"
    using assms True by (auto simp: path_parent_def p lit_def)
  from drop_last_segment_shorter [OF d] show ?thesis by (auto simp: p q)
next
  case rel: False
  show ?thesis
  proof (cases "hd (split_on 47 p) = lit ''.''")
    case True
    have "47 \<notin> set (lit ''.'')" by (simp add: lit_def)
    from split_on_absolute [OF True this] consider "p = [46]"
      | rest where "p = 46 # 47 # rest" "tl (split_on 47 p) = split_on 47 rest"
      by (auto simp: lit_def)
    then show ?thesis
    proof cases
      case 1
      then show ?thesis using assms rel by (auto simp: path_parent_def lit_def is_absolute_def drop_last_segment_def)
    next
      case 2
      show ?thesis
      proof (cases "drop_last_segment (split_on 47 rest)")
        case None
        then show ?thesis using assms rel True 2 by (simp add: path_parent_def)
      next
        case (Some segs)
        then have q: "q = join_with [47] ([46] # segs)"
          using assms rel True 2 by (simp add: path_parent_def lit_def)
        from drop_last_segment_shorter [OF Some] show ?thesis
          by (auto simp: q 2(1) join_with_Cons)
      qed
    qed
  next
    case False
    then obtain segs where q: "q = join_with [47] segs" and d: "drop_last_segment (split_on 47 p) = Some segs"
      using assms rel by (auto simp: path_parent_def lit_def)
    from drop_last_segment_shorter [OF d] show ?thesis by (auto simp: q)
  qed
qed

subsection \<open>Components of a parent and of a pushed name\<close>

lemma split_on_append: "split_on d (p @ d # q) = split_on d p @ split_on d q"
  by (induction p) (auto split: list.splits)

abbreviation named :: "rstr list \<Rightarrow> rstr list" where
  "named segs \<equiv> filter (\<lambda>seg. \<not> skipped seg) segs"

lemma skipped_simps [simp]: "skipped []" "skipped (lit ''.'')"
  by (simp_all add: skipped_def)

lemma components_absolute:
  "is_absolute p \<Longrightarrow> path_components p = RootDir # map segment_component (named (split_on 47 p))"
  by (simp add: path_components_def)

lemma named_join: "\<forall>p \<in> set ps. 47 \<notin> set p \<Longrightarrow> named (split_on 47 (join_with [47] ps)) = named ps"
  by (cases "ps = []") (simp_all add: split_on_join_with)

lemma drop_last_segment_named:
  assumes "drop_last_segment segs = Some front"
  obtains x where "named segs = named front @ [x]" and "set front \<subseteq> set segs"
proof -
  obtain x rest where f: "dropWhile skipped (rev segs) = x # rest" and front: "front = rev (dropWhile skipped rest)"
    using assms by (auto simp: drop_last_segment_def split: list.splits)
  have x: "\<not> skipped x" using f by (metis hd_dropWhile list.distinct(1) list.sel(1))
  have ns: "filter (\<lambda>s. \<not> skipped s) (dropWhile skipped xs) = filter (\<lambda>s. \<not> skipped s) xs" for xs
    by (induction xs) auto
  have "named (rev segs) = x # named rest" using ns [of "rev segs"] f x by simp
  then have "rev (named segs) = x # named rest" by (simp add: rev_filter)
  moreover have "named rest = rev (named front)" by (simp add: front rev_filter ns)
  ultimately have "named segs = named front @ [x]" by (metis rev.simps(2) rev_rev_ident)
  moreover have "set front \<subseteq> set segs"
    using f by (auto simp: front) (metis list.set_intros(2) set_dropWhileD set_rev)
  ultimately show thesis by (rule that)
qed

lemma path_parent_absolute: "path_parent p = Some q \<Longrightarrow> is_absolute p \<Longrightarrow> is_absolute q"
  by (auto simp: path_parent_def is_absolute_def lit_def)

lemma components_parent:
  assumes "is_absolute p" and "path_parent p = Some q"
  shows "\<exists>c. path_components p = path_components q @ [c]"
proof -
  obtain body where p: "p = 47 # body" using assms(1) by (cases p) (auto simp: is_absolute_def lit_def)
  obtain segs where q: "q = 47 # join_with [47] segs" and d: "drop_last_segment (split_on 47 body) = Some segs"
    using assms by (auto simp: path_parent_def p lit_def)
  obtain x where x: "named (split_on 47 body) = named segs @ [x]" and sub: "set segs \<subseteq> set (split_on 47 body)"
    using d by (rule drop_last_segment_named)
  have "named (split_on 47 (join_with [47] segs)) = named segs"
    using sub by (intro named_join) (blast dest: split_on_no_sep)
  then show ?thesis
    using x path_parent_absolute [OF assms(2,1)] assms(1) by (simp add: components_absolute p q)
qed

lemma components_parent_named:
  assumes "is_absolute p" and "path_parent p = Some q" and "file_name p = Some name"
  shows "path_components p = path_components q @ [Normal name]"
  using components_parent [OF assms(1,2)] assms(3) by (auto simp: file_name_def split: path_component.splits)

lemma no_parent_no_name:
  assumes "is_absolute p" and "path_parent p = None"
  shows "file_name p = None"
proof -
  obtain body where p: "p = 47 # body" using assms(1) by (cases p) (auto simp: is_absolute_def lit_def)
  have "drop_last_segment (split_on 47 body) = None" using assms by (simp add: path_parent_def p)
  then have "dropWhile skipped (rev (split_on 47 body)) = []" by (auto simp: drop_last_segment_def split: list.splits)
  then have "\<forall>seg \<in> set (split_on 47 body). skipped seg" by simp
  then have "named (split_on 47 body) = []" by (simp add: filter_empty_conv)
  then show ?thesis using assms(1) by (simp add: file_name_def components_absolute p)
qed

text \<open>A plain name is one component.\<close>

definition plain_name :: "rstr \<Rightarrow> bool" where
  "plain_name s \<longleftrightarrow> 47 \<notin> set s \<and> \<not> skipped s \<and> s \<noteq> lit ''..''"

lemma components_plain: "Normal name \<in> set (path_components p) \<Longrightarrow> plain_name name"
  using split_on_no_sep [of name 47 p]
  by (auto simp: path_components_def plain_name_def segment_component_def Let_def split: if_splits)

lemma file_name_plain: "file_name p = Some name \<Longrightarrow> plain_name name"
proof (rule components_plain [of name p])
  assume "file_name p = Some name"
  then obtain rest where "rev (path_components p) = Normal name # rest"
    by (auto simp: file_name_def split: list.splits path_component.splits)
  then show "Normal name \<in> set (path_components p)" by (metis list.set_intros(1) set_rev)
qed

lemma path_push_absolute: "is_absolute base \<Longrightarrow> plain_name name \<Longrightarrow> is_absolute (path_push base name)"
  by (cases base; cases name) (auto simp: path_push_def is_absolute_def lit_def plain_name_def)

lemma components_push:
  assumes "is_absolute base" and "plain_name name"
  shows "path_components (path_push base name) = path_components base @ [Normal name]"
proof -
  have rel: "\<not> is_absolute name" using assms(2) by (cases name) (auto simp: is_absolute_def plain_name_def lit_def)
  have pieces: "split_on 47 name = [name]" using assms(2) by (simp add: plain_name_def split_on_piece)
  have "named (split_on 47 (path_push base name)) = named (split_on 47 base) @ [name]"
  proof (cases "ends_with (lit ''/'') base")
    case True
    then obtain b where "base = b @ [47]"
      by (cases base rule: rev_cases) (auto simp: lit_def)
    then have "path_push base name = b @ 47 # name" using True rel by (simp add: path_push_def)
    then show ?thesis
      using \<open>base = b @ [47]\<close> assms(2) split_on_append [of 47 b "[]"] split_on_append [of 47 b name]
      by (simp add: pieces plain_name_def)
  next
    case False
    have "base \<noteq> []" using assms(1) by (auto simp: is_absolute_def lit_def)
    then show ?thesis using rel False assms(2) split_on_append [of 47 base name]
      by (simp add: path_push_def pieces plain_name_def lit_def)
  qed
  then show ?thesis
    using path_push_absolute [OF assms] assms by (simp add: components_absolute segment_component_def plain_name_def)
qed

lemma components_pushes:
  assumes "is_absolute base" and "\<forall>name \<in> set names. plain_name name"
  shows "is_absolute (fold (\<lambda>name base. path_push base name) names base)
         \<and> path_components (fold (\<lambda>name base. path_push base name) names base) = path_components base @ map Normal names"
  using assms by (induction names arbitrary: base) (simp_all add: path_push_absolute components_push)

lemma path_starts_with_append: "path_components p = path_components q @ cs \<Longrightarrow> path_starts_with q root \<Longrightarrow> path_starts_with p root"
  by (auto simp: path_starts_with_def) (metis append_take_drop_id length_append length_take min.absorb_iff2 nat_le_iff_add take_append take_all_iff diff_is_0_eq' take0 append_Nil2 le_add1)

lemma path_starts_with_refl: "path_starts_with p p"
  by (simp add: path_starts_with_def)

subsection \<open>Words, one character at a time\<close>

lemma is_whitespace_code [code]:
  "is_whitespace c = (if c < 128 then (9 \<le> c \<and> c \<le> 13) \<or> c = 32
     else c = 133 \<or> c = 160 \<or> c = 5760 \<or> (8192 \<le> c \<and> c \<le> 8202) \<or> c = 8232 \<or> c = 8233 \<or> c = 8239 \<or> c = 8287 \<or> c = 12288)"
  by (simp add: is_whitespace_def)

text \<open>\<open>split_whitespace\<close> as a scan that holds the word it is in, reversed.\<close>

fun scan_words :: "rstr \<Rightarrow> rstr \<Rightarrow> rstr list" where
  "scan_words acc [] = (if acc = [] then [] else [rev acc])"
| "scan_words acc (c # cs) =
     (if is_whitespace c then (if acc = [] then scan_words [] cs else rev acc # scan_words [] cs)
      else scan_words (c # acc) cs)"

lemma scan_words_blank: "scan_words [] s = scan_words [] (dropWhile is_whitespace s)"
  by (induction s) auto

lemma scan_words_word:
  "acc \<noteq> [] \<Longrightarrow> scan_words acc s = (rev acc @ takeWhile (\<lambda>c. \<not> is_whitespace c) s)
      # scan_words [] (dropWhile (\<lambda>c. \<not> is_whitespace c) s)"
  by (induction s arbitrary: acc) auto

lemma split_whitespace_scan [code]: "split_whitespace s = scan_words [] s"
proof (induction s rule: split_whitespace.induct)
  case (1 s)
  show ?case
  proof (cases "dropWhile is_whitespace s")
    case Nil
    then show ?thesis by (subst split_whitespace.simps, subst scan_words_blank) (simp add: Nil del: dropWhile_eq_Nil_conv)
  next
    case (Cons c cs)
    have c: "\<not> is_whitespace c" using Cons by (metis hd_dropWhile list.distinct(1) list.sel(1))
    from 1 [OF Cons] show ?thesis
      using c by (subst split_whitespace.simps, subst scan_words_blank) (simp add: Cons scan_words_word)
  qed
qed

lemma scan_words_append: "is_whitespace w \<Longrightarrow> scan_words acc (a @ w # b) = scan_words acc a @ scan_words [] b"
  by (induction acc a rule: scan_words.induct) auto

lemma split_whitespace_append: "is_whitespace w \<Longrightarrow> split_whitespace (a @ w # b) = split_whitespace a @ split_whitespace b"
  by (simp add: split_whitespace_scan scan_words_append)

lemma scan_words_plain: "\<forall>c \<in> set s. \<not> is_whitespace c \<Longrightarrow> scan_words acc s = (if acc = [] \<and> s = [] then [] else [rev acc @ s])"
  by (induction s arbitrary: acc) auto

lemma split_whitespace_plain: "\<forall>c \<in> set s. \<not> is_whitespace c \<Longrightarrow> s \<noteq> [] \<Longrightarrow> split_whitespace s = [s]"
  by (simp add: split_whitespace_scan scan_words_plain)

end
