(* ===== verification/Path_Policy.thy ===== *)
theory Path_Policy
  imports File_Paths Tool_Permissions
begin

section \<open>The sandbox policy of the agent's file and terminal tools\<close>

text \<open>
  \<open>app/agent/tools/path_policy.rs\<close>: the containment gates \<open>validate_existing\<close> and
  \<open>validate_new_target\<close>, and \<open>validate_terminal\<close> with its lexical path sanitizer, its program denylist
  and its Git argument profile. Every refusal of the code is a constructor of \<open>denial\<close>.
\<close>

subsection \<open>Refusals\<close>

datatype denial =
    NotAbsolute rstr
  | DoesNotExist rstr
  | NotCanonicalizable rstr
  | NoRoots
  | OutsideRoots rstr
  | DottedTarget rstr
  | InvalidComponent
  | NoExistingParent rstr
  | UnnamedTarget
  | CwdNotDirectory rstr
  | NotOneLine
  | ShellOperator
  | EmptyCommand
  | ForbiddenProgram rstr
  | ProtectedTarget
  | RawDiskWrite
  | ForcedDeletion
  | DestructiveGit
  | GitOption rstr
  | GitSubcommand rstr
  | GitConfigChange
  | ControlCharacter
  | AboveRoot
  | InvalidSegment rstr
  | HomeMissing
  | HomeRelative
  | PathOutside rstr

subsection \<open>Containment\<close>

text \<open>A duplicate root is dropped at its later place.\<close>

definition canonical_roots :: "host \<Rightarrow> rstr list \<Rightarrow> rstr list" where
  "canonical_roots h roots =
     rev (remdups (rev (filter (is_dir h) (List.map_filter (canonicalize h) roots))))"

definition ensure_within_roots :: "host \<Rightarrow> rstr \<Rightarrow> rstr list \<Rightarrow> denial + unit" where
  "ensure_within_roots h p roots =
     (let roots = canonical_roots h roots
      in if roots = [] then Inl NoRoots
         else if list_ex (path_starts_with p) roots then Inr ()
         else Inl (OutsideRoots p))"

definition absolute :: "rstr \<Rightarrow> denial + rstr" where
  "absolute p = (if \<not> is_absolute p then Inl (NotAbsolute p) else Inr p)"

definition canonical_within :: "host \<Rightarrow> rstr \<Rightarrow> rstr list \<Rightarrow> denial + rstr" where
  "canonical_within h p roots =
     (case canonicalize h p of
        None \<Rightarrow> Inl (NotCanonicalizable p)
      | Some c \<Rightarrow> map_sum id (\<lambda>_. c) (ensure_within_roots h c roots))"

definition validate_existing :: "host \<Rightarrow> rstr \<Rightarrow> rstr list \<Rightarrow> denial + rstr" where
  "validate_existing h text roots =
     (case absolute text of
        Inl e \<Rightarrow> Inl e
      | Inr p \<Rightarrow> if \<not> path_exists h p then Inl (DoesNotExist p) else canonical_within h p roots)"

text \<open>The walk up to the nearest existing ancestor, with the names it passed.\<close>

function nearest_existing :: "host \<Rightarrow> rstr \<Rightarrow> rstr option \<Rightarrow> rstr list \<Rightarrow> denial + rstr \<times> rstr list" where
  "nearest_existing h target None missing = Inl (NoExistingParent target)"
| "nearest_existing h target (Some candidate) missing =
     (if path_exists h candidate then Inr (candidate, missing)
      else case file_name candidate of
             None \<Rightarrow> Inl InvalidComponent
           | Some name \<Rightarrow> nearest_existing h target (path_parent candidate) (missing @ [name]))"
  by pat_completeness auto
termination
  by (relation "measure (\<lambda>(_, _, parent, _). case parent of None \<Rightarrow> 0 | Some p \<Rightarrow> Suc (length p))")
     (auto split: option.split dest: path_parent_shorter)

definition validate_new_target :: "host \<Rightarrow> rstr \<Rightarrow> rstr list \<Rightarrow> denial + rstr" where
  "validate_new_target h text roots =
     (case absolute text of
        Inl e \<Rightarrow> Inl e
      | Inr p \<Rightarrow>
          if list_ex (\<lambda>c. c = ParentDir \<or> c = CurDir) (path_components p) then Inl (DottedTarget p)
          else if path_exists h p then canonical_within h p roots
          else case nearest_existing h p (path_parent p) [] of
                 Inl e \<Rightarrow> Inl e
               | Inr (parent, missing) \<Rightarrow>
                   (case canonical_within h parent roots of
                      Inl e \<Rightarrow> Inl e
                    | Inr base \<Rightarrow>
                        let target = fold (\<lambda>component base. path_push base component) (rev missing) base
                        in case file_name p of
                             None \<Rightarrow> Inl UnnamedTarget
                           | Some name \<Rightarrow> Inr (path_push target name)))"

definition is_secret_bearing :: "rstr \<Rightarrow> bool" where
  "is_secret_bearing p \<longleftrightarrow> find_secret_path (JString p) \<noteq> None"

definition expand_tilde :: "host \<Rightarrow> rstr \<Rightarrow> rstr" where
  "expand_tilde h p =
     (if p = lit ''~'' then unwrap_or p (home h)
      else if starts_with (lit ''~/'') p
      then (case home h of Some dir \<Rightarrow> path_push dir (drop 2 p) | None \<Rightarrow> p)
      else p)"

definition workspace_roots :: "host \<Rightarrow> rstr list \<Rightarrow> rstr list" where
  "workspace_roots h configured = canonical_roots h (map (expand_tilde h) configured)"

subsection \<open>Paths inside a command\<close>

definition is_control :: "nat \<Rightarrow> bool" where
  "is_control c \<longleftrightarrow> c < 32 \<or> 127 \<le> c \<and> c < 160"

definition home_dir_string :: "host \<Rightarrow> denial + rstr" where
  "home_dir_string h =
     (case home h of
        None \<Rightarrow> Inl HomeMissing
      | Some dir \<Rightarrow> if dir = [] \<or> \<not> starts_with (lit ''/'') dir then Inl HomeRelative else Inr dir)"

definition normalize_absolute_stack :: "rstr list \<Rightarrow> rstr" where
  "normalize_absolute_stack stack = (if stack = [] then lit ''/'' else lit ''/'' @ join_with (lit ''/'') stack)"

definition sanitize_path_segment :: "rstr \<Rightarrow> denial + rstr" where
  "sanitize_path_segment seg =
     (if seg = [] \<or> seg = lit ''.'' \<or> seg = lit ''..'' then Inl (InvalidSegment seg)
      else if list_ex (\<lambda>c. c = 47 \<or> c = 92 \<or> c = 0 \<or> is_control c) seg then Inl (InvalidSegment seg)
      else Inr seg)"

text \<open>The component stack: its top is the last element.\<close>

fun resolve_segments :: "rstr list \<Rightarrow> rstr list \<Rightarrow> denial + rstr list" where
  "resolve_segments stack [] = Inr stack"
| "resolve_segments stack (seg # segs) =
     (if skipped seg then resolve_segments stack segs
      else if seg = lit ''..''
      then (if stack = [] then Inl AboveRoot else resolve_segments (butlast stack) segs)
      else if list_ex (\<lambda>c. c = 47 \<or> c = 92 \<or> c = 0) seg \<or> list_ex is_control seg then Inl (InvalidSegment seg)
      else case sanitize_path_segment seg of
             Inl e \<Rightarrow> Inl e
           | Inr clean \<Rightarrow> resolve_segments (stack @ [clean]) segs)"

definition trim_slashes :: "rstr \<Rightarrow> rstr" where
  "trim_slashes s = dropWhile (\<lambda>c. c = 47) s"

text \<open>Where a path-shaped token starts: nothing for a bare word.\<close>

definition path_base :: "host \<Rightarrow> rstr \<Rightarrow> rstr \<Rightarrow> (denial + rstr \<times> rstr) option" where
  "path_base h token cwd =
     (if starts_with (lit ''/'') token then Some (Inr ([], trim_slashes token))
      else if starts_with (lit ''~/'') token
      then Some (map_sum id (\<lambda>dir. (trim_slashes dir, drop 2 token)) (home_dir_string h))
      else if 47 \<in> set token \<or> starts_with (lit ''.'') token then Some (Inr (trim_slashes cwd, token))
      else None)"

definition sanitize_command_path_token :: "host \<Rightarrow> rstr \<Rightarrow> rstr \<Rightarrow> denial + rstr option" where
  "sanitize_command_path_token h token cwd =
     (if token = [] then Inr None
      else if list_ex (\<lambda>c. c = 0 \<or> is_control c) token then Inl ControlCharacter
      else if token = lit ''~''
      then map_sum id (\<lambda>dir. Some (normalize_absolute_stack [dir])) (home_dir_string h)
      else case path_base h token cwd of
             None \<Rightarrow> Inr None
           | Some (Inl e) \<Rightarrow> Inl e
           | Some (Inr (prefix, remainder)) \<Rightarrow>
               map_sum id (\<lambda>stack. Some (normalize_absolute_stack stack))
                 (resolve_segments (filter (\<lambda>s. \<not> skipped s) (split_on 47 prefix)) (split_on 47 remainder)))"

subsection \<open>Programs\<close>

definition FORBIDDEN_PROGRAMS :: "rstr list" where
  "FORBIDDEN_PROGRAMS = map lit
     [''sudo'', ''su'', ''shutdown'', ''reboot'', ''halt'', ''poweroff'', ''diskutil'', ''fdisk'', ''mkfs'',
      ''dscl'', ''sysadminctl'', ''security'', ''profiles'', ''mount'', ''umount'', ''gpt'', ''newfs'', ''shred'',
      ''chown'', ''chgrp'', ''chmod'', ''launchctl'', ''nvram'', ''csrutil'', ''installer'', ''systemsetup'',
      ''osascript'', ''kill'', ''killall'', ''pkill'', ''eval'', ''bash'', ''sh'', ''zsh'', ''dash'', ''ksh'',
      ''csh'', ''tcsh'', ''fish'', ''python'', ''python3'', ''perl'', ''ruby'', ''node'', ''deno'', ''bun'', ''php'',
      ''expect'', ''env'', ''xargs'', ''nohup'', ''exec'', ''source'', ''open'']"

definition is_ascii_digit :: "nat \<Rightarrow> bool" where
  "is_ascii_digit c \<longleftrightarrow> 48 \<le> c \<and> c \<le> 57"

definition is_forbidden_program :: "rstr \<Rightarrow> bool" where
  "is_forbidden_program token = list_ex (\<lambda>program.
     token = program
     \<or> starts_with program token \<and> drop (length program) token \<noteq> []
       \<and> list_all (\<lambda>c. is_ascii_digit c \<or> c = 46 \<or> c = 45) (drop (length program) token))
     FORBIDDEN_PROGRAMS"

text \<open>The last component of a token, or the token itself when it has none.\<close>

definition base_name :: "rstr \<Rightarrow> rstr" where
  "base_name token = unwrap_or token (file_name token)"

definition unquote_token :: "rstr \<Rightarrow> rstr" where
  "unquote_token token = filter (\<lambda>c. c \<notin> {39, 34, 92}) token"

definition is_git_program :: "rstr \<Rightarrow> bool" where
  "is_git_program token =
     (case file_name token of None \<Rightarrow> False | Some name \<Rightarrow> eq_ignore_ascii_case name (lit ''git''))"

subsection \<open>The Git argument profile\<close>

definition GIT_GLOBAL_SWITCHES :: "rstr list" where
  "GIT_GLOBAL_SWITCHES = map lit
     [''--no-pager'', ''--no-optional-locks'', ''--no-replace-objects'', ''--literal-pathspecs'', ''--glob-pathspecs'',
      ''--noglob-pathspecs'', ''--icase-pathspecs'', ''--version'']"

definition GIT_SUBCOMMANDS :: "rstr list" where
  "GIT_SUBCOMMANDS = map lit
     [''add'', ''am'', ''annotate'', ''apply'', ''archive'', ''blame'', ''branch'', ''cat-file'', ''check-attr'',
      ''check-ignore'', ''checkout'', ''cherry'', ''cherry-pick'', ''clean'', ''clone'', ''commit'', ''config'',
      ''count-objects'', ''describe'', ''diff'', ''diff-files'', ''diff-index'', ''diff-tree'', ''fetch'',
      ''for-each-ref'', ''format-patch'', ''fsck'', ''gc'', ''grep'', ''init'', ''log'', ''ls-files'', ''ls-remote'',
      ''ls-tree'', ''merge'', ''merge-base'', ''mv'', ''name-rev'', ''notes'', ''pull'', ''push'', ''range-diff'',
      ''rebase'', ''reflog'', ''remote'', ''reset'', ''restore'', ''rev-list'', ''rev-parse'', ''revert'', ''rm'',
      ''shortlog'', ''show'', ''show-branch'', ''show-ref'', ''sparse-checkout'', ''stash'', ''status'', ''switch'',
      ''symbolic-ref'', ''tag'', ''verify-commit'', ''verify-tag'', ''version'', ''whatchanged'', ''worktree'']"

definition GIT_EXEC_OPTIONS :: "rstr list" where
  "GIT_EXEC_OPTIONS = map lit
     [''upload-pack'', ''receive-pack'', ''exec'', ''open-files-in-pager'', ''ext-diff'', ''config'', ''config-env'',
      ''show-signature'', ''textconv'', ''filters'']"

definition GIT_CONFIG_READ_FLAGS :: "rstr list" where
  "GIT_CONFIG_READ_FLAGS = map lit [''--get'', ''--get-all'', ''--get-regexp'', ''--get-urlmatch'', ''--list'', ''-l'']"

definition GIT_CONFIG_WRITE_FLAGS :: "rstr list" where
  "GIT_CONFIG_WRITE_FLAGS = map lit
     [''--add'', ''--unset'', ''--unset-all'', ''--replace-all'', ''--edit'', ''-e'', ''--rename-section'',
      ''--remove-section'']"

definition git_exec_letters :: "rstr \<Rightarrow> nat list" where
  "git_exec_letters sub =
     (if sub = lit ''clone'' then lit ''uc'' else if sub = lit ''grep'' then lit ''O''
      else if sub = lit ''rebase'' then lit ''x'' else [])"

text \<open>One option before the end-of-options marker hands Git a program or a config entry.\<close>

definition git_exec_option :: "nat list \<Rightarrow> rstr \<Rightarrow> bool" where
  "git_exec_option letters option \<longleftrightarrow>
     (case strip_prefix (lit ''-'') option of
        None \<Rightarrow> False
      | Some flag \<Rightarrow>
          (case strip_prefix (lit ''-'') flag of
             Some long \<Rightarrow> list_ex (starts_with (hd (split_on 61 long))) GIT_EXEC_OPTIONS
           | None \<Rightarrow> list_ex (\<lambda>letter. letter \<in> set letters) flag))"

fun git_options_checked :: "nat list \<Rightarrow> rstr list \<Rightarrow> denial + unit" where
  "git_options_checked letters [] = Inr ()"
| "git_options_checked letters (option # options) =
     (if option = lit ''--'' then Inr ()
      else if git_exec_option letters option then Inl (GitOption option)
      else git_options_checked letters options)"

fun git_switches :: "rstr list \<Rightarrow> denial + rstr list" where
  "git_switches [] = Inr []"
| "git_switches (arg # args) =
     (if starts_with (lit ''-'') arg
      then (if arg \<notin> set GIT_GLOBAL_SWITCHES then Inl (GitOption arg) else git_switches args)
      else Inr (arg # args))"

definition validate_git_argv :: "rstr list \<Rightarrow> denial + unit" where
  "validate_git_argv args =
     (case git_switches args of
        Inl e \<Rightarrow> Inl e
      | Inr [] \<Rightarrow> Inr ()
      | Inr (sub # options) \<Rightarrow>
          if sub \<notin> set GIT_SUBCOMMANDS then Inl (GitSubcommand sub)
          else case git_options_checked (git_exec_letters sub) options of
                 Inl e \<Rightarrow> Inl e
               | Inr _ \<Rightarrow>
                   if sub = lit ''config''
                      \<and> (\<not> list_ex (\<lambda>o'. o' \<in> set GIT_CONFIG_READ_FLAGS) options
                         \<or> list_ex (\<lambda>o'. o' \<in> set GIT_CONFIG_WRITE_FLAGS) options)
                   then Inl GitConfigChange else Inr ())"

subsection \<open>One terminal command\<close>

definition FORBIDDEN_TARGETS :: "rstr list" where
  "FORBIDDEN_TARGETS = map lit
     [''/library/keychains'', ''/login.keychain'', ''/safari/'', ''/chrome/'', ''/chromium/'', ''/firefox/'',
      ''alloweddirectories'', ''blockedcommands'']"

definition raw_tokens :: "rstr \<Rightarrow> rstr list" where
  "raw_tokens command = filter (\<lambda>t. t \<noteq> []) (map unquote_token (split_whitespace command))"

definition adjacent :: "'a \<Rightarrow> 'a \<Rightarrow> 'a list \<Rightarrow> bool" where
  "adjacent a b xs = list_ex (\<lambda>(x, y). x = a \<and> y = b) (zip xs (tl xs))"

definition shell_operators :: "nat list" where
  "shell_operators = lit ''|;&<>()$`''"

text \<open>The refusals that look at the words of the command only.\<close>

definition command_shape :: "rstr list \<Rightarrow> denial + unit" where
  "command_shape tokens =
     (case tokens of
        [] \<Rightarrow> Inl EmptyCommand
      | first # _ \<Rightarrow>
          let program = base_name first
          in if list_ex (\<lambda>token. is_forbidden_program (base_name token)) tokens then Inl (ForbiddenProgram program)
             else if list_ex (\<lambda>target. contains target (join_with (lit '' '') tokens)) FORBIDDEN_TARGETS
             then Inl ProtectedTarget
             else if program = lit ''dd'' \<and> list_ex (starts_with (lit ''of=/dev/'')) tokens then Inl RawDiskWrite
             else if program = lit ''rm''
                     \<and> list_ex (\<lambda>token. token = lit ''--recursive''
                          \<or> starts_with (lit ''-'') token \<and> 114 \<in> set token \<and> 102 \<in> set token) tokens
             then Inl ForcedDeletion
             else if program = lit ''git''
                     \<and> (adjacent (lit ''reset'') (lit ''--hard'') tokens
                        \<or> lit ''clean'' \<in> set tokens
                          \<and> list_ex (\<lambda>token. starts_with (lit ''-'') token \<and> 102 \<in> set token) tokens)
             then Inl DestructiveGit
             else Inr ())"

text \<open>The arguments behind the first word that names Git.\<close>

definition git_shape :: "rstr list \<Rightarrow> denial + unit" where
  "git_shape words =
     (case dropWhile (\<lambda>t. \<not> is_git_program t) words of [] \<Rightarrow> Inr () | _ # argv \<Rightarrow> validate_git_argv argv)"

definition path_candidate :: "rstr \<Rightarrow> rstr" where
  "path_candidate token = (case split_once 61 token of Some (_, v) \<Rightarrow> v | None \<Rightarrow> token)"

definition within_workspace :: "host \<Rightarrow> rstr list \<Rightarrow> rstr \<Rightarrow> bool" where
  "within_workspace h roots p \<longleftrightarrow> \<not> isl (validate_existing h p roots) \<or> \<not> isl (validate_new_target h p roots)"

fun paths_contained :: "host \<Rightarrow> rstr list \<Rightarrow> rstr \<Rightarrow> rstr list \<Rightarrow> denial + unit" where
  "paths_contained h roots cwd [] = Inr ()"
| "paths_contained h roots cwd (token # tokens) =
     (case sanitize_command_path_token h (path_candidate token) cwd of
        Inl e \<Rightarrow> Inl e
      | Inr (Some p) \<Rightarrow>
          if \<not> within_workspace h roots p then Inl (PathOutside (path_candidate token))
          else paths_contained h roots cwd tokens
      | Inr None \<Rightarrow> paths_contained h roots cwd tokens)"

definition validate_terminal :: "host \<Rightarrow> rstr \<Rightarrow> rstr \<Rightarrow> rstr list \<Rightarrow> denial + rstr" where
  "validate_terminal h command cwd roots =
     (case validate_existing h cwd roots of
        Inl e \<Rightarrow> Inl e
      | Inr cwd \<Rightarrow>
          if \<not> is_dir h cwd then Inl (CwdNotDirectory cwd)
          else if list_ex (\<lambda>c. c = 10 \<or> c = 13 \<or> c = 0) command then Inl NotOneLine
          else if list_ex (\<lambda>c. c \<in> set shell_operators) command then Inl ShellOperator
          else let words = raw_tokens command; tokens = map to_ascii_lowercase words
               in case command_shape tokens of
                    Inl e \<Rightarrow> Inl e
                  | Inr _ \<Rightarrow>
                      (case git_shape words of
                         Inl e \<Rightarrow> Inl e
                       | Inr _ \<Rightarrow> map_sum id (\<lambda>_. cwd) (paths_contained h roots cwd (tl tokens))))"

end
