(* ===== verification/Process_Tool.thy ===== *)
theory Process_Tool
  imports Path_Policy Tool_Registry
begin

section \<open>The process tools of the agent\<close>

text \<open>
  \<open>app/agent/tools/process.rs\<close>: how a \<open>run_process\<close> call becomes an argument vector (\<open>spawn_plan\<close>), what
  its approval card shows, the detection behind \<open>project_build\<close> and \<open>project_test\<close>, and the table of
  background children behind \<open>observe_process\<close> and \<open>stop_process\<close>. The operating system answers for a
  child (its pid, its exit status) and for the file system (\<open>host\<close>); both are arguments. The captured
  output of a finished child is not modelled.
\<close>

datatype process_error =
    MissingField rstr
  | PidOutOfRange
  | UnknownPid nat
  | PollFailure nat
  | Denied denial
  | ProgramEmpty
  | ProgramForbidden
  | ProgramBackslash
  | ProgramDotDot
  | ProgramControl
  | ProgramUnresolved
  | ArgumentControl
  | NoBuildSystem rstr
  | UnknownAction rstr

subsection \<open>The fields of a call\<close>

definition require_program :: "json \<Rightarrow> process_error + rstr" where
  "require_program input =
     (case get_str input (lit ''program'') of None \<Rightarrow> Inl (MissingField (lit ''program'')) | Some s \<Rightarrow> Inr s)"

definition require_cwd :: "json \<Rightarrow> process_error + rstr" where
  "require_cwd input =
     (case get_str input (lit ''cwd'') of None \<Rightarrow> Inl (MissingField (lit ''cwd'')) | Some s \<Rightarrow> Inr s)"

definition require_pid :: "json \<Rightarrow> process_error + nat" where
  "require_pid input =
     (case Option.bind (json_get input (lit ''pid'')) as_u64 of
        None \<Rightarrow> Inl (MissingField (lit ''pid''))
      | Some pid \<Rightarrow> if pid < 2 ^ 32 then Inr pid else Inl PidOutOfRange)"

definition requested_args :: "json \<Rightarrow> rstr list" where
  "requested_args input =
     (case json_get input (lit ''args'') of Some (JArray items) \<Rightarrow> List.map_filter as_str items | _ \<Rightarrow> [])"

definition DEFAULT_TIMEOUT_SECS :: nat where
  "DEFAULT_TIMEOUT_SECS = 60"

definition MAX_TIMEOUT_SECS :: nat where
  "MAX_TIMEOUT_SECS = 300"

definition timeout_secs :: "json \<Rightarrow> nat" where
  "timeout_secs input =
     clamp (unwrap_or DEFAULT_TIMEOUT_SECS (Option.bind (json_get input (lit ''timeout_secs'')) as_u64)) 1 MAX_TIMEOUT_SECS"

definition run_in_background :: "json \<Rightarrow> bool" where
  "run_in_background input = unwrap_or False (Option.bind (json_get input (lit ''background'')) as_bool)"

subsection \<open>From the call to the argument vector\<close>

definition synthetic_command_line :: "rstr \<Rightarrow> rstr list \<Rightarrow> rstr" where
  "synthetic_command_line program args = join_with (lit '' '') (program # args)"

fun program_segments :: "rstr list \<Rightarrow> rstr list \<Rightarrow> process_error + rstr list" where
  "program_segments stack [] = Inr stack"
| "program_segments stack (seg # segs) =
     (if skipped seg then program_segments stack segs
      else if seg = lit ''..'' then Inl ProgramDotDot
      else if list_ex is_control seg then Inl ProgramControl
      else program_segments (stack @ [seg]) segs)"

definition program_forbidden_chars :: "nat list" where
  "program_forbidden_chars = [0, 10, 13] @ lit ''|;&<>()$` ''"

definition sanitize_argv_program :: "rstr \<Rightarrow> process_error + rstr" where
  "sanitize_argv_program program =
     (if program = [] then Inl ProgramEmpty
      else if list_ex (\<lambda>c. c \<in> set program_forbidden_chars) program then Inl ProgramForbidden
      else if 92 \<in> set program then Inl ProgramBackslash
      else case program_segments (if is_absolute program then [[]] else []) (split_on 47 (trim_slashes program)) of
             Inl e \<Rightarrow> Inl e
           | Inr stack \<Rightarrow>
               if is_absolute program
               then Inr (if length stack = 1 then lit ''/'' else join_with (lit ''/'') stack)
               else if stack = [] then Inl ProgramUnresolved else Inr (join_with (lit ''/'') stack))"

definition sanitize_argv_arg :: "rstr \<Rightarrow> process_error + rstr" where
  "sanitize_argv_arg arg = (if list_ex (\<lambda>c. c = 0 \<or> c = 10 \<or> c = 13) arg then Inl ArgumentControl else Inr arg)"

fun sanitize_args :: "rstr list \<Rightarrow> process_error + rstr list" where
  "sanitize_args [] = Inr []"
| "sanitize_args (arg # args) =
     (case sanitize_argv_arg arg of Inl e \<Rightarrow> Inl e | Inr a \<Rightarrow> map_sum id (Cons a) (sanitize_args args))"

definition GIT_CONFIG_PINS :: "rstr list" where
  "GIT_CONFIG_PINS = map lit
     [''--no-pager'', ''-c'', ''core.fsmonitor=false'', ''-c'', ''core.sshCommand=ssh'', ''-c'', ''core.askPass='',
      ''-c'', ''core.editor=true'', ''-c'', ''sequence.editor=true'', ''-c'', ''gpg.program=gpg'',
      ''-c'', ''gpg.ssh.program=ssh-keygen'', ''-c'', ''log.showSignature=false'', ''-c'', ''protocol.ext.allow=never'']"

definition GIT_DIFF_COMMANDS :: "rstr list" where
  "GIT_DIFF_COMMANDS = map lit
     [''diff'', ''log'', ''show'', ''diff-tree'', ''diff-files'', ''diff-index'', ''whatchanged'', ''format-patch'']"

text \<open>The vector Git is started with: the pins, the switches and the subcommand, the two diff
  switches where they apply, the rest.\<close>

definition git_vector :: "rstr list \<Rightarrow> rstr list" where
  "git_vector args =
     GIT_CONFIG_PINS @
     (case dropWhile (starts_with (lit ''-'')) args of
        [] \<Rightarrow> args
      | sub # rest \<Rightarrow>
          takeWhile (starts_with (lit ''-'')) args @ [sub]
          @ (if sub \<in> set GIT_DIFF_COMMANDS then map lit [''--no-ext-diff'', ''--no-textconv''] else []) @ rest)"

definition CHILD_ENV_ALLOWLIST :: "rstr list" where
  "CHILD_ENV_ALLOWLIST = map lit
     [''PATH'', ''HOME'', ''USER'', ''LOGNAME'', ''LANG'', ''LC_ALL'', ''LC_CTYPE'', ''LC_MESSAGES'', ''TERM'', ''TMPDIR'',
      ''TMP'', ''TEMP'', ''SHELL'', ''CARGO_HOME'', ''RUSTUP_HOME'', ''CARGO_TARGET_DIR'', ''XDG_CACHE_HOME'',
      ''XDG_CONFIG_HOME'', ''XDG_DATA_HOME'', ''XDG_RUNTIME_DIR'']"

text \<open>\<open>env_clear\<close> and the re-export, then the fixed Git variables; the last setting of a name wins.\<close>

definition child_env :: "(rstr \<Rightarrow> rstr option) \<Rightarrow> bool \<Rightarrow> (rstr \<times> rstr) list" where
  "child_env parent git =
     (if git then [(lit ''GIT_PAGER'', lit ''cat''), (lit ''GIT_TERMINAL_PROMPT'', lit ''0''),
                   (lit ''GIT_CONFIG_NOSYSTEM'', lit ''1'')] else [])
     @ List.map_filter (\<lambda>key. map_option (Pair key) (parent key)) CHILD_ENV_ALLOWLIST"

record spawn_plan =
  sp_program :: rstr
  sp_args :: "rstr list"
  sp_cwd :: rstr
  sp_env :: "(rstr \<times> rstr) list"
  sp_command :: rstr
  sp_timeout :: nat
  sp_background :: bool

definition resolve_cwd :: "host \<Rightarrow> rstr list \<Rightarrow> rstr \<Rightarrow> process_error + rstr" where
  "resolve_cwd h roots cwd =
     (case validate_existing h cwd roots of
        Inl e \<Rightarrow> Inl (Denied e)
      | Inr c \<Rightarrow> if \<not> is_dir h c then Inl (Denied (CwdNotDirectory c)) else Inr c)"

text \<open>\<open>run_process_from_input\<close> up to the spawn.\<close>

definition run_process_from_input ::
    "host \<Rightarrow> (rstr \<Rightarrow> rstr option) \<Rightarrow> rstr list \<Rightarrow> json \<Rightarrow> process_error + spawn_plan" where
  "run_process_from_input h parent_env roots input =
     (case require_program input of
        Inl e \<Rightarrow> Inl e
      | Inr program \<Rightarrow>
        let args = requested_args input in
        (case require_cwd input of
           Inl e \<Rightarrow> Inl e
         | Inr cwd_text \<Rightarrow>
           (case resolve_cwd h roots cwd_text of
              Inl e \<Rightarrow> Inl e
            | Inr cwd \<Rightarrow>
              let cmdline = synthetic_command_line program args in
              (case validate_terminal h cmdline cwd roots of
                 Inl e \<Rightarrow> Inl (Denied e)
               | Inr _ \<Rightarrow>
                 (case sanitize_argv_program program of
                    Inl e \<Rightarrow> Inl e
                  | Inr program_os \<Rightarrow>
                    (case sanitize_args args of
                       Inl e \<Rightarrow> Inl e
                     | Inr args_os \<Rightarrow>
                       let git = is_git_program program in
                       Inr \<lparr>sp_program = program_os, sp_args = (if git then git_vector args_os else args_os),
                            sp_cwd = cwd, sp_env = child_env parent_env git, sp_command = cmdline,
                            sp_timeout = timeout_secs input, sp_background = run_in_background input\<rparr>))))))"

subsection \<open>What the approval card shows\<close>

definition process_preview :: "rstr \<Rightarrow> rstr \<Rightarrow> rstr \<Rightarrow> tool_call_preview" where
  "process_preview summary command cwd =
     \<lparr>preview_summary = summary, preview_command = Some (redact_command_line command), preview_cwd = Some cwd,
      preview_paths = [cwd]\<rparr>"

fun redact_parts :: "command_redactor \<Rightarrow> rstr list \<Rightarrow> rstr list" where
  "redact_parts r [] = []"
| "redact_parts r (part # parts) = (case redact_argument part r of (out, r') \<Rightarrow> out # redact_parts r' parts)"

definition display_command_line :: "rstr \<Rightarrow> rstr list \<Rightarrow> rstr" where
  "display_command_line program args = join_with (lit '' '') (redact_parts new_redactor (program # args))"

definition run_process_validator :: "host \<Rightarrow> rstr list \<Rightarrow> json \<Rightarrow> process_error + tool_call_preview" where
  "run_process_validator h roots input =
     (case require_program input of
        Inl e \<Rightarrow> Inl e
      | Inr program \<Rightarrow>
        let args = requested_args input in
        (case require_cwd input of
           Inl e \<Rightarrow> Inl e
         | Inr cwd_text \<Rightarrow>
           (case resolve_cwd h roots cwd_text of
              Inl e \<Rightarrow> Inl e
            | Inr cwd \<Rightarrow>
              (case validate_terminal h (synthetic_command_line program args) cwd roots of
                 Inl e \<Rightarrow> Inl (Denied e)
               | Inr _ \<Rightarrow>
                 Inr (process_preview
                   (lit ''Run '' @ program @ lit '' with '' @ show_nat (length args) @ lit '' argument(s)'')
                   (display_command_line program args) cwd)))))"

subsection \<open>Project actions\<close>

definition action_args :: "rstr \<Rightarrow> bool \<Rightarrow> process_error + rstr list" where
  "action_args kind cargo =
     (if kind = lit ''build'' then Inr (map lit (if cargo then [''build'', ''--all-targets''] else [''build'']))
      else if kind = lit ''test'' then Inr (map lit (if cargo then [''test'', ''--all-targets'', ''--'', ''--quiet''] else [''test'']))
      else Inl (UnknownAction kind))"

definition detect_project_command :: "host \<Rightarrow> rstr \<Rightarrow> rstr \<Rightarrow> process_error + rstr \<times> rstr list \<times> rstr" where
  "detect_project_command h cwd kind =
     (let cargo = path_push cwd (lit ''Cargo.toml''); makefile = path_push cwd (lit ''Makefile'');
          lowercase = path_push cwd (lit ''makefile'')
      in if path_exists h cargo
         then map_sum id (\<lambda>args. (lit ''cargo'', args, cargo)) (action_args kind True)
         else if path_exists h makefile \<or> path_exists h lowercase
         then map_sum id (\<lambda>args. (lit ''make'', args, if path_exists h makefile then makefile else lowercase))
                (action_args kind False)
         else Inl (NoBuildSystem cwd))"

definition project_validator :: "host \<Rightarrow> rstr list \<Rightarrow> rstr \<Rightarrow> json \<Rightarrow> process_error + tool_call_preview" where
  "project_validator h roots kind input =
     (case require_cwd input of
        Inl e \<Rightarrow> Inl e
      | Inr cwd_text \<Rightarrow>
        (case resolve_cwd h roots cwd_text of
           Inl e \<Rightarrow> Inl e
         | Inr cwd \<Rightarrow>
           (case detect_project_command h cwd kind of
              Inl e \<Rightarrow> Inl e
            | Inr (program, args, marker) \<Rightarrow>
              let preview = process_preview (lit ''Project '' @ kind @ lit '' in the workspace'')
                              (synthetic_command_line program args) cwd
              in Inr (preview\<lparr>preview_paths := preview_paths preview @ [marker]\<rparr>))))"

definition project_call :: "rstr \<Rightarrow> rstr list \<Rightarrow> rstr \<Rightarrow> json" where
  "project_call program args cwd = JObject
     [(lit ''program'', JString program), (lit ''args'', JArray (map JString args)), (lit ''cwd'', JString cwd),
      (lit ''timeout_secs'', JNumber (lit ''300'')), (lit ''background'', JBool False)]"

definition project_action ::
    "host \<Rightarrow> (rstr \<Rightarrow> rstr option) \<Rightarrow> rstr list \<Rightarrow> json \<Rightarrow> rstr \<Rightarrow> process_error + spawn_plan" where
  "project_action h parent_env roots input kind =
     (case require_cwd input of
        Inl e \<Rightarrow> Inl e
      | Inr cwd_text \<Rightarrow>
        (case resolve_cwd h roots cwd_text of
           Inl e \<Rightarrow> Inl e
         | Inr cwd \<Rightarrow>
           (case detect_project_command h cwd kind of
              Inl e \<Rightarrow> Inl e
            | Inr (program, args, _) \<Rightarrow> run_process_from_input h parent_env roots (project_call program args cwd))))"

subsection \<open>Background children\<close>

record tracked_process =
  tp_started :: instant
  tp_command :: rstr
  tp_cwd :: rstr

type_synonym process_table = "nat \<rightharpoonup> tracked_process"

datatype child_status = Exited "int option" | Running | PollFailed

datatype process_report =
    Started nat spawn_plan
  | StillRunning nat nat tracked_process
  | Finished nat "int option" tracked_process
  | Stopped nat "int option"

text \<open>The background branch of a run: the operating system has chosen the pid.\<close>

definition start_background :: "nat \<Rightarrow> instant \<Rightarrow> spawn_plan \<Rightarrow> process_table \<Rightarrow> process_table \<times> process_report" where
  "start_background pid now plan table =
     (table(pid \<mapsto> \<lparr>tp_started = now, tp_command = sp_command plan, tp_cwd = sp_cwd plan\<rparr>), Started pid plan)"

definition observe_from_input ::
    "child_status \<Rightarrow> instant \<Rightarrow> json \<Rightarrow> process_table \<Rightarrow> process_table \<times> (process_error + process_report)" where
  "observe_from_input status now input table =
     (case require_pid input of
        Inl e \<Rightarrow> (table, Inl e)
      | Inr pid \<Rightarrow>
        (case table pid of
           None \<Rightarrow> (table, Inl (UnknownPid pid))
         | Some tracked \<Rightarrow>
           (case status of
              Exited code \<Rightarrow> (table(pid := None), Inr (Finished pid code tracked))
            | Running \<Rightarrow> (table, Inr (StillRunning pid ((now - tp_started tracked) div 1000000) tracked))
            | PollFailed \<Rightarrow> (table, Inl (PollFailure pid)))))"

definition stop_from_input ::
    "int option \<Rightarrow> json \<Rightarrow> process_table \<Rightarrow> process_table \<times> (process_error + process_report)" where
  "stop_from_input code input table =
     (case require_pid input of
        Inl e \<Rightarrow> (table, Inl e)
      | Inr pid \<Rightarrow>
        (case table pid of
           None \<Rightarrow> (table, Inl (UnknownPid pid))
         | Some _ \<Rightarrow> (table(pid := None), Inr (Stopped pid code))))"

definition tracked_pid_validator :: "rstr \<Rightarrow> process_table \<Rightarrow> json \<Rightarrow> process_error + tool_call_preview" where
  "tracked_pid_validator verb table input =
     (case require_pid input of
        Inl e \<Rightarrow> Inl e
      | Inr pid \<Rightarrow>
        (case table pid of
           None \<Rightarrow> Inl (UnknownPid pid)
         | Some tracked \<Rightarrow>
           Inr (process_preview (verb @ lit '' process '' @ show_nat pid @ lit '' started by this agent'')
             (tp_command tracked) (tp_cwd tracked))))"

end
