(* ===== verification/Containment.thy ===== *)
theory Containment
  imports Path_Policy
begin

section \<open>What the path gates promise\<close>

text \<open>
  The containment theorems over \<open>Path_Policy\<close>. A canonical path is absolute and has no \<open>.\<close> or \<open>..\<close>
  component: that is what \<open>canonicalize\<close> documents, and the only thing assumed of the file system.
\<close>

subsection \<open>Canonical paths\<close>

definition resolved :: "rstr \<Rightarrow> bool" where
  "resolved p \<longleftrightarrow> is_absolute p \<and> list_all (\<lambda>c. c \<noteq> CurDir \<and> c \<noteq> ParentDir) (path_components p)"

definition canonical_host :: "host \<Rightarrow> bool" where
  "canonical_host h \<longleftrightarrow> (\<forall>p c. canonicalize h p = Some c \<longrightarrow> resolved c)"

definition inside_roots :: "host \<Rightarrow> rstr list \<Rightarrow> rstr \<Rightarrow> bool" where
  "inside_roots h roots p \<longleftrightarrow> list_ex (path_starts_with p) (canonical_roots h roots)"

lemma canonical_within_Inr: "canonical_within h p roots = Inr c \<longleftrightarrow> canonicalize h p = Some c \<and> inside_roots h roots c"
  by (auto simp: canonical_within_def ensure_within_roots_def inside_roots_def Let_def split: option.split)

lemma inside_roots_append: "path_components p = path_components q @ cs \<Longrightarrow> inside_roots h roots q \<Longrightarrow> inside_roots h roots p"
  by (auto simp: inside_roots_def list_ex_iff dest: path_starts_with_append)

lemma validate_existing_Inr:
  "validate_existing h text roots = Inr c
   \<longleftrightarrow> is_absolute text \<and> path_exists h text \<and> canonicalize h text = Some c \<and> inside_roots h roots c"
  by (auto simp: validate_existing_def absolute_def canonical_within_Inr)

subsection \<open>The walk to an existing ancestor\<close>

text \<open>The ancestors of a path: the path itself, its parent, the parent's parent, and so on.\<close>

fun ancestor_at :: "rstr \<Rightarrow> nat \<Rightarrow> rstr option" where
  "ancestor_at p 0 = Some p"
| "ancestor_at p (Suc n) = (case path_parent p of None \<Rightarrow> None | Some q \<Rightarrow> ancestor_at q n)"

text \<open>The nearest ancestor that exists: every ancestor before it does not.\<close>

definition nearest_ancestor :: "host \<Rightarrow> rstr \<Rightarrow> nat \<Rightarrow> rstr \<Rightarrow> bool" where
  "nearest_ancestor h p n anc \<longleftrightarrow> ancestor_at p n = Some anc \<and> path_exists h anc
     \<and> (\<forall>k<n. \<exists>q. ancestor_at p k = Some q \<and> \<not> path_exists h q)"

lemma nearest_ancestor_here: "path_exists h p \<Longrightarrow> nearest_ancestor h p 0 p"
  by (simp add: nearest_ancestor_def)

lemma nearest_ancestor_above:
  assumes "\<not> path_exists h p" and "path_parent p = Some q" and "nearest_ancestor h q n anc"
  shows "nearest_ancestor h p (Suc n) anc"
  using assms by (auto simp: nearest_ancestor_def less_Suc_eq_0_disj)

lemma nearest_ancestor_unique:
  assumes "nearest_ancestor h p n anc" and "nearest_ancestor h p n' anc'"
  shows "n = n' \<and> anc = anc'"
proof -
  have "\<not> n < n'" "\<not> n' < n" using assms by (auto simp: nearest_ancestor_def)
  then have "n = n'" by simp
  with assms show ?thesis by (simp add: nearest_ancestor_def)
qed

lemma nearest_existing_Inr:
  assumes "nearest_existing h target parent missing = Inr (anc, names)"
    and "parent = Some p" and "is_absolute p" and "list_all plain_name missing"
  shows "\<exists>more. names = missing @ more \<and> nearest_ancestor h p (length more) anc \<and> is_absolute anc \<and> list_all plain_name more
           \<and> path_components p = path_components anc @ map Normal (rev more)"
  using assms
proof (induction h target parent missing arbitrary: p rule: nearest_existing.induct)
  case (2 h target candidate missing)
  show ?case
  proof (cases "path_exists h candidate")
    case True
    then show ?thesis using 2 nearest_ancestor_here by auto
  next
    case False
    then obtain name where name: "file_name candidate = Some name"
      and go: "nearest_existing h target (path_parent candidate) (missing @ [name]) = Inr (anc, names)"
      using "2.prems"(1) by (auto split: option.splits)
    obtain q where q: "path_parent candidate = Some q" using go by (cases "path_parent candidate") auto
    have abs: "is_absolute candidate" using "2.prems" by simp
    have "list_all plain_name (missing @ [name])" using "2.prems"(4) file_name_plain [OF name] by simp
    from "2.IH" [OF False name go q path_parent_absolute [OF q abs] this]
    obtain more where more: "names = (missing @ [name]) @ more" "nearest_ancestor h q (length more) anc" "is_absolute anc"
      "list_all plain_name more" "path_components q = path_components anc @ map Normal (rev more)" by blast
    have "path_components candidate = path_components anc @ map Normal (rev (name # more))"
      using components_parent_named [OF abs q name] more(5) by simp
    then show ?thesis
      using more file_name_plain [OF name] "2.prems"(2) nearest_ancestor_above [OF False q more(2)] by (intro exI [of _ "name # more"]) simp
  qed
qed simp

lemma new_target_shape:
  assumes "validate_new_target h text roots = Inr target" and "\<not> path_exists h text" and "canonical_host h"
  shows "\<exists>anc base names. nearest_ancestor h text (length names) anc
           \<and> canonicalize h anc = Some base \<and> inside_roots h roots base
           \<and> path_components text = path_components anc @ map Normal names \<and> names \<noteq> []
           \<and> path_components target = path_components base @ map Normal names \<and> is_absolute target"
proof -
  have abs: "is_absolute text" using assms(1) by (auto simp: validate_new_target_def absolute_def split: if_splits)
  obtain anc missing base name where
    walk: "nearest_existing h text (path_parent text) [] = Inr (anc, missing)"
    and base: "canonicalize h anc = Some base" "inside_roots h roots base"
    and name: "file_name text = Some name"
    and target: "target = path_push (fold (\<lambda>component base. path_push base component) (rev missing) base) name"
    using assms(1,2)
    by (auto simp: validate_new_target_def absolute_def Let_def canonical_within_Inr
        split: if_splits sum.splits option.splits prod.splits)
  obtain q where q: "path_parent text = Some q" using walk by (cases "path_parent text") auto
  from nearest_existing_Inr [OF walk q path_parent_absolute [OF q abs]]
  have anc: "nearest_ancestor h q (length missing) anc" "list_all plain_name missing"
    "path_components q = path_components anc @ map Normal (rev missing)" by auto
  have whole: "path_components text = path_components anc @ map Normal (rev missing @ [name])"
    using components_parent_named [OF abs q name] anc(3) by simp
  have "is_absolute base" using assms(3) base(1) by (auto simp: canonical_host_def resolved_def)
  from components_pushes [OF this, of "rev missing"] anc(2)
  have pushed: "is_absolute (fold (\<lambda>component base. path_push base component) (rev missing) base)"
    "path_components (fold (\<lambda>component base. path_push base component) (rev missing) base)
     = path_components base @ map Normal (rev missing)"
    by (auto simp: list_all_iff)
  have "path_components target = path_components base @ map Normal (rev missing @ [name])"
    using components_push [OF pushed(1) file_name_plain [OF name]] pushed(2) by (simp add: target)
  moreover have "is_absolute target"
    using path_push_absolute [OF pushed(1) file_name_plain [OF name]] by (simp add: target)
  ultimately show ?thesis
    using nearest_ancestor_above [OF assms(2) q anc(1)] base whole
    by (intro exI [of _ anc] exI [of _ base] exI [of _ "rev missing @ [name]"]) simp
qed

lemma resolved_append:
  assumes "resolved base" and "is_absolute p" and "path_components p = path_components base @ map Normal names"
  shows "resolved p"
  using assms by (auto simp: resolved_def list_all_iff)

text \<open>C10. A new target is its nearest existing ancestor, resolved, with the missing names behind it: whatever
  \<open>validate_new_target\<close> returns is an absolute path without dotted components inside a canonical workspace
  root; it is the resolved text itself when that exists; and otherwise, going up from the request one parent
  at a time, the first ancestor that exists resolves inside the roots, and the target is that resolved
  ancestor followed by exactly the names the request puts behind it. No existing ancestor is skipped, so no
  symlink among the existing part of the path and no \<open>..\<close> moves the target elsewhere.
\<close>

theorem new_target_stays_inside:
  assumes "validate_new_target h requested roots = Inr target" and "canonical_host h"
  shows "resolved target \<and> inside_roots h roots target
    \<and> (if path_exists h requested then canonicalize h requested = Some target
       else \<exists>anc base names. nearest_ancestor h requested (length names) anc
              \<and> canonicalize h anc = Some base \<and> inside_roots h roots base
              \<and> path_components requested = path_components anc @ map Normal names
              \<and> path_components target = path_components base @ map Normal names)"
proof (cases "path_exists h requested")
  case True
  then have "canonicalize h requested = Some target" "inside_roots h roots target"
    using assms(1)
    by (auto simp: validate_new_target_def absolute_def canonical_within_Inr split: if_splits)
  then show ?thesis using True assms(2) by (simp add: canonical_host_def)
next
  case False
  from new_target_shape [OF assms(1) False assms(2)] obtain anc base names where
    w: "nearest_ancestor h requested (length names) anc" "canonicalize h anc = Some base" "inside_roots h roots base"
    "path_components requested = path_components anc @ map Normal names"
    "path_components target = path_components base @ map Normal names" "is_absolute target" by blast
  have base: "resolved base" using w(2) assms(2) by (auto simp: canonical_host_def)
  have "resolved target" by (rule resolved_append [OF base w(6,5)])
  then show ?thesis using False w inside_roots_append [OF w(5,3)] by (simp only: if_False simp_thms) blast
qed

text \<open>A host with one workspace directory and the root above it.\<close>

definition one_workspace :: host where
  "one_workspace = \<lparr>path_exists = (\<lambda>p. p \<in> {lit ''/'', lit ''/w''}),
     canonicalize = (\<lambda>p. if p \<in> {lit ''/'', lit ''/w''} then Some p else None),
     is_dir = (\<lambda>p. p \<in> {lit ''/'', lit ''/w''}), home = None\<rparr>"

lemma one_workspace_canonical: "canonical_host one_workspace"
proof -
  have "resolved (lit ''/'')" "resolved (lit ''/w'')" by code_simp+
  then show ?thesis by (auto simp: canonical_host_def one_workspace_def split: if_splits)
qed

theorem new_target_stays_inside_witness:
  "resolved (lit ''/w/a/b'') \<and> inside_roots one_workspace [lit ''/w''] (lit ''/w/a/b'')"
proof -
  have "validate_new_target one_workspace (lit ''/w/a/b'') [lit ''/w''] = Inr (lit ''/w/a/b'')" by code_simp
  from new_target_stays_inside [OF this one_workspace_canonical] show ?thesis by blast
qed

text \<open>The walk reaches the root directory, so it ends at an ancestor that exists.\<close>

lemma parent_root:
  assumes "is_absolute p" and "path_parent p = Some q" and "path_components q = [RootDir]"
  shows "q = lit ''/''"
proof -
  obtain body where p: "p = 47 # body" using assms(1) by (cases p) (auto simp: is_absolute_def lit_def)
  obtain segs where q: "q = 47 # join_with [47] segs" and d: "drop_last_segment (split_on 47 body) = Some segs"
    using assms by (auto simp: path_parent_def p lit_def)
  obtain rest where segs: "segs = rev (dropWhile skipped rest)"
    using d by (auto simp: drop_last_segment_def split: list.splits)
  obtain x where x: "set segs \<subseteq> set (split_on 47 body)" using d by (rule drop_last_segment_named)
  have "named (split_on 47 (join_with [47] segs)) = named segs"
    using x by (intro named_join) (blast dest: split_on_no_sep)
  then have "named segs = []"
    using assms(3) path_parent_absolute [OF assms(2,1)] by (simp add: components_absolute q)
  then have "segs = []"
    by (cases "dropWhile skipped rest") (auto simp: segs filter_empty_conv dest: hd_dropWhile [of skipped rest, simplified], metis hd_dropWhile list.distinct(1) list.sel(1))
  then show ?thesis by (simp add: q lit_def)
qed

lemma nearest_existing_ends:
  assumes "path_exists h (lit ''/'')" and "is_absolute p" and "ParentDir \<notin> set (path_components p)"
    and "path_components p = [RootDir] \<Longrightarrow> p = lit ''/''"
  shows "\<exists>anc more. nearest_existing h target (Some p) missing = Inr (anc, missing @ more) \<and> path_exists h anc
           \<and> length more < length (path_components p)"
  using assms(2-)
proof (induction "length (path_components p)" arbitrary: p missing rule: less_induct)
  case less
  show ?case
  proof (cases "path_exists h p")
    case True
    then show ?thesis using less.prems(1) by (simp add: components_absolute)
  next
    case False
    have more: "named (split_on 47 p) \<noteq> []"
      using False less.prems assms(1) by (auto simp: components_absolute)
    have "\<forall>c \<in> set (map segment_component (named (split_on 47 p))). \<exists>name. c = Normal name"
      using less.prems(1,2) by (auto simp: components_absolute segment_component_def split: if_splits)
    moreover have "last (map segment_component (named (split_on 47 p))) \<in> set (map segment_component (named (split_on 47 p)))"
      using more by (intro last_in_set) simp
    ultimately obtain name where "last (map segment_component (named (split_on 47 p))) = Normal name" by blast
    then have name: "file_name p = Some name"
      using more less.prems(1)
      by (cases "map segment_component (named (split_on 47 p))" rule: rev_cases) (auto simp: file_name_def components_absolute)
    then obtain q where q: "path_parent p = Some q"
      using no_parent_no_name [OF less.prems(1)] by (cases "path_parent p") auto
    have comps: "path_components p = path_components q @ [Normal name]"
      by (rule components_parent_named [OF less.prems(1) q name])
    have "\<exists>anc more. nearest_existing h target (Some q) (missing @ [name]) = Inr (anc, (missing @ [name]) @ more)
            \<and> path_exists h anc \<and> length more < length (path_components q)"
      using comps less.prems(2) path_parent_absolute [OF q less.prems(1)] parent_root [OF less.prems(1) q]
      by (intro less.hyps) auto
    then obtain anc rest where "nearest_existing h target (Some q) (missing @ [name]) = Inr (anc, (missing @ [name]) @ rest)"
      "path_exists h anc" "length rest < length (path_components q)" by blast
    then show ?thesis using False name q comps by (intro exI [of _ anc] exI [of _ "name # rest"]) simp
  qed
qed

text \<open>C38. The search for an existing ancestor ends and finds one: on any host whose root directory exists, for every
  absolute request without a \<open>..\<close> component that names something, the loop of \<open>validate_new_target\<close>
  returns an ancestor that exists, after passing fewer names than the request has components.
\<close>

theorem ancestor_walk_ends:
  assumes "path_exists h (lit ''/'')" and "is_absolute requested"
    and "ParentDir \<notin> set (path_components requested)" and "file_name requested = Some name"
  shows "\<exists>anc missing. nearest_existing h requested (path_parent requested) [] = Inr (anc, missing)
           \<and> path_exists h anc \<and> length missing + 1 < length (path_components requested)"
proof -
  obtain q where q: "path_parent requested = Some q"
    using no_parent_no_name [OF assms(2)] assms(4) by (cases "path_parent requested") auto
  have comps: "path_components requested = path_components q @ [Normal name]"
    by (rule components_parent_named [OF assms(2) q assms(4)])
  have "\<exists>anc more. nearest_existing h requested (Some q) [] = Inr (anc, [] @ more) \<and> path_exists h anc
          \<and> length more < length (path_components q)"
    using assms(3) comps path_parent_absolute [OF q assms(2)] parent_root [OF assms(2) q]
    by (intro nearest_existing_ends [OF assms(1)]) auto
  then show ?thesis using q comps by auto
qed

theorem ancestor_walk_ends_witness:
  "\<exists>anc missing. nearest_existing one_workspace (lit ''/w/a/b'') (path_parent (lit ''/w/a/b'')) [] = Inr (anc, missing)
     \<and> path_exists one_workspace anc \<and> length missing + 1 < length (path_components (lit ''/w/a/b''))"
proof -
  have "path_exists one_workspace (lit ''/'')" "is_absolute (lit ''/w/a/b'')"
    "ParentDir \<notin> set (path_components (lit ''/w/a/b''))" "file_name (lit ''/w/a/b'') = Some (lit ''b'')"
    by code_simp+
  from ancestor_walk_ends [OF this] show ?thesis .
qed

end
