(* ===== verification/Terminal_Policy.thy ===== *)
theory Terminal_Policy
  imports Containment
begin

section \<open>What an admitted terminal command can be\<close>

text \<open>
  The theorems about \<open>validate_terminal\<close>: the sanitizer against plain lexical resolution, what every
  admitted command satisfies, and the two places where the check and the program read a word differently.
\<close>

subsection \<open>The path sanitizer is lexical resolution\<close>

definition lexical_step :: "rstr \<Rightarrow> rstr list \<Rightarrow> rstr list" where
  "lexical_step seg stack = (if skipped seg then stack else if seg = lit ''..'' then butlast stack else stack @ [seg])"

text \<open>Reading the segments from the left, with \<open>..\<close> taking the last name away.\<close>

definition lexical :: "rstr list \<Rightarrow> rstr list \<Rightarrow> rstr list" where
  "lexical stack segs = fold lexical_step segs stack"

text \<open>No \<open>..\<close> is met at the root.\<close>

fun stays_below_root :: "rstr list \<Rightarrow> rstr list \<Rightarrow> bool" where
  "stays_below_root stack [] \<longleftrightarrow> True"
| "stays_below_root stack (seg # segs) \<longleftrightarrow>
     (seg = lit ''..'' \<longrightarrow> stack \<noteq> []) \<and> stays_below_root (lexical_step seg stack) segs"

definition clean_segment :: "rstr \<Rightarrow> bool" where
  "clean_segment seg \<longleftrightarrow> \<not> list_ex (\<lambda>c. c = 47 \<or> c = 92 \<or> c = 0 \<or> is_control c) seg"

lemma lexical_simps [simp]:
  "lexical stack [] = stack" "lexical stack (seg # segs) = lexical (lexical_step seg stack) segs"
  by (simp_all add: lexical_def)

lemma dot_clean: "skipped seg \<Longrightarrow> clean_segment seg" "clean_segment (lit ''..'')" "\<not> skipped (lit ''..'')"
  by (auto simp: skipped_def clean_segment_def lit_def is_control_def)

lemma sanitize_segment_iff:
  "sanitize_path_segment seg = Inr s \<longleftrightarrow> s = seg \<and> \<not> skipped seg \<and> seg \<noteq> lit ''..'' \<and> clean_segment seg"
  by (auto simp: sanitize_path_segment_def skipped_def clean_segment_def)

lemma resolve_segments_iff:
  "resolve_segments stack segs = Inr st
   \<longleftrightarrow> list_all clean_segment segs \<and> stays_below_root stack segs \<and> st = lexical stack segs"
proof (induction segs arbitrary: stack)
  case (Cons seg segs)
  consider "skipped seg" | "seg = lit ''..''" | "\<not> skipped seg" "seg \<noteq> lit ''..''" by blast
  then show ?case
  proof cases
    case 1
    then show ?thesis using Cons dot_clean by (auto simp: lexical_step_def)
  next
    case 2
    then show ?thesis using Cons dot_clean by (auto simp: lexical_step_def)
  next
    case 3
    have "list_ex (\<lambda>c. c = 47 \<or> c = 92 \<or> c = 0) seg \<or> list_ex is_control seg \<longleftrightarrow> \<not> clean_segment seg"
      by (auto simp: clean_segment_def list_ex_iff)
    moreover have "sanitize_path_segment seg = Inr seg" if "clean_segment seg"
      using 3 that by (simp add: sanitize_segment_iff)
    ultimately show ?thesis using Cons 3 by (auto simp: lexical_step_def)
  qed
qed auto

lemma lexical_plain:
  assumes "list_all plain_name stack" and "\<forall>seg \<in> set segs. 47 \<notin> set seg"
  shows "list_all plain_name (lexical stack segs)"
  using assms
proof (induction segs arbitrary: stack)
  case (Cons seg segs)
  have "list_all plain_name (butlast stack)" using Cons.prems(1) by (auto simp: list_all_iff dest: in_set_butlastD)
  then have "list_all plain_name (lexical_step seg stack)"
    using Cons.prems by (auto simp: lexical_step_def plain_name_def [of seg])
  with Cons show ?case by simp
qed simp

lemma components_stack:
  assumes "list_all plain_name st"
  shows "is_absolute (normalize_absolute_stack st)"
    and "path_components (normalize_absolute_stack st) = RootDir # map Normal st"
proof -
  have keep: "named st = st" "map segment_component st = map Normal st"
    using assms by (auto simp: list_all_iff plain_name_def segment_component_def filter_id_conv)
  have "normalize_absolute_stack st = 47 # join_with [47] st"
    by (simp add: normalize_absolute_stack_def lit_def)
  moreover have "named (split_on 47 (join_with [47] st)) = named st"
    using assms by (intro named_join) (auto simp: list_all_iff plain_name_def)
  ultimately show "is_absolute (normalize_absolute_stack st)"
    "path_components (normalize_absolute_stack st) = RootDir # map Normal st"
    by (simp_all add: components_absolute is_absolute_def lit_def keep del: join_with.simps)
qed

text \<open>The names a prefix contributes.\<close>

abbreviation prefix_names :: "rstr \<Rightarrow> rstr list" where
  "prefix_names prefix \<equiv> named (split_on 47 prefix)"

definition path_shaped :: "rstr \<Rightarrow> bool" where
  "path_shaped token \<longleftrightarrow> token \<noteq> [] \<and> token \<noteq> lit ''~'' \<and> \<not> list_ex (\<lambda>c. c = 0 \<or> is_control c) token"

text \<open>C33. The sanitizer is lexical path resolution: for a path-shaped token it answers exactly when no segment
  holds a separator, backslash or control character and no \<open>..\<close> is met at the root; the answer is then the
  absolute path whose components are the names left after reading the segments from the base, so it has no
  empty, \<open>.\<close> or \<open>..\<close> component however the token was written.
\<close>

theorem sanitizer_is_lexical_resolution:
  assumes "path_shaped token" and "path_base h token cwd = Some (Inr (prefix, remainder))"
    and "lit ''..'' \<notin> set (split_on 47 prefix)"
  shows "(sanitize_command_path_token h token cwd = Inr (Some p)
       \<longleftrightarrow> list_all clean_segment (split_on 47 remainder) \<and> stays_below_root (prefix_names prefix) (split_on 47 remainder)
         \<and> p = normalize_absolute_stack (lexical (prefix_names prefix) (split_on 47 remainder)))
    \<and> resolved (normalize_absolute_stack (lexical (prefix_names prefix) (split_on 47 remainder)))
    \<and> path_components (normalize_absolute_stack (lexical (prefix_names prefix) (split_on 47 remainder)))
      = RootDir # map Normal (lexical (prefix_names prefix) (split_on 47 remainder))"
proof -
  let ?st = "lexical (prefix_names prefix) (split_on 47 remainder)"
  have sanitized: "sanitize_command_path_token h token cwd
      = map_sum id (\<lambda>stack. Some (normalize_absolute_stack stack)) (resolve_segments (prefix_names prefix) (split_on 47 remainder))"
    using assms(1,2) by (simp add: sanitize_command_path_token_def path_shaped_def)
  have "sanitize_command_path_token h token cwd = Inr (Some p)
      \<longleftrightarrow> list_all clean_segment (split_on 47 remainder) \<and> stays_below_root (prefix_names prefix) (split_on 47 remainder)
        \<and> p = normalize_absolute_stack ?st"
  proof (cases "resolve_segments (prefix_names prefix) (split_on 47 remainder)")
    case (Inl e)
    then show ?thesis
      using sanitized resolve_segments_iff [of "prefix_names prefix" "split_on 47 remainder" ?st] by auto
  next
    case (Inr st)
    then show ?thesis
      using sanitized resolve_segments_iff [of "prefix_names prefix" "split_on 47 remainder" st] by auto
  qed
  moreover have "list_all plain_name (prefix_names prefix)"
    using assms(3) by (auto simp: list_all_iff plain_name_def dest: split_on_no_sep)
  then have "list_all plain_name ?st" by (rule lexical_plain) (auto dest: split_on_no_sep)
  from components_stack [OF this]
  have "resolved (normalize_absolute_stack ?st) \<and> path_components (normalize_absolute_stack ?st) = RootDir # map Normal ?st"
    by (auto simp: resolved_def list_all_iff)
  ultimately show ?thesis by blast
qed

theorem sanitizer_is_lexical_resolution_witness:
  "sanitize_command_path_token one_workspace (lit ''a/../.././x//y'') (lit ''/w/b'') = Inr (Some (lit ''/w/x/y''))"
proof -
  have "path_shaped (lit ''a/../.././x//y'')"
    "path_base one_workspace (lit ''a/../.././x//y'') (lit ''/w/b'') = Some (Inr (lit ''w/b'', lit ''a/../.././x//y''))"
    "lit ''..'' \<notin> set (split_on 47 (lit ''w/b''))"
    by code_simp+
  from sanitizer_is_lexical_resolution [OF this, of "lit ''/w/x/y''"]
  have "sanitize_command_path_token one_workspace (lit ''a/../.././x//y'') (lit ''/w/b'') = Inr (Some (lit ''/w/x/y''))
      \<longleftrightarrow> list_all clean_segment (split_on 47 (lit ''a/../.././x//y''))
        \<and> stays_below_root (prefix_names (lit ''w/b'')) (split_on 47 (lit ''a/../.././x//y''))
        \<and> lit ''/w/x/y'' = normalize_absolute_stack
            (lexical (prefix_names (lit ''w/b'')) (split_on 47 (lit ''a/../.././x//y'')))" by blast
  also have "\<dots>" by code_simp
  finally show ?thesis by simp
qed

subsection \<open>Admitted commands\<close>

text \<open>Where opening a path ends up: its nearest existing ancestor resolves inside a root, the rest are plain names.\<close>

definition lands_inside :: "host \<Rightarrow> rstr list \<Rightarrow> rstr \<Rightarrow> bool" where
  "lands_inside h roots p \<longleftrightarrow> (\<exists>anc base names. nearest_ancestor h p (length names) anc
      \<and> canonicalize h anc = Some base \<and> inside_roots h roots base
      \<and> path_components p = path_components anc @ map Normal names)"

lemma within_workspace_lands:
  assumes "within_workspace h roots p" and "canonical_host h"
  shows "lands_inside h roots p"
proof (cases "validate_existing h p roots")
  case (Inr c)
  then have "path_exists h p" "canonicalize h p = Some c" "inside_roots h roots c" by (auto simp: validate_existing_Inr)
  then show ?thesis unfolding lands_inside_def
    by (intro exI [of _ p] exI [of _ c] exI [of _ "[]"]) (simp add: nearest_ancestor_here)
next
  case (Inl e)
  then obtain target where t: "validate_new_target h p roots = Inr target"
    using assms(1) by (cases "validate_new_target h p roots") (auto simp: within_workspace_def)
  show ?thesis
  proof (cases "path_exists h p")
    case True
    then have "canonicalize h p = Some target" "inside_roots h roots target"
      using t by (auto simp: validate_new_target_def absolute_def canonical_within_Inr split: if_splits)
    with True show ?thesis unfolding lands_inside_def
      by (intro exI [of _ p] exI [of _ target] exI [of _ "[]"]) (simp add: nearest_ancestor_here)
  next
    case False
    from new_target_shape [OF t False assms(2)] show ?thesis unfolding lands_inside_def by blast
  qed
qed

lemma paths_contained_Inr:
  "paths_contained h roots cwd tokens = Inr () \<longleftrightarrow>
     (\<forall>token \<in> set tokens. case sanitize_command_path_token h (path_candidate token) cwd of
        Inl _ \<Rightarrow> False | Inr None \<Rightarrow> True | Inr (Some p) \<Rightarrow> within_workspace h roots p)"
  by (induction tokens) (auto split: sum.split option.split)

lemma command_shape_programs:
  assumes "command_shape tokens = Inr ()"
  shows "tokens \<noteq> [] \<and> (\<forall>token \<in> set tokens. \<not> is_forbidden_program (base_name token))"
  using assms by (auto simp: command_shape_def Let_def list_ex_iff split: list.splits if_splits)

lemma map_sum_Inr_iff: "map_sum id f x = Inr y \<longleftrightarrow> (\<exists>z. x = Inr z \<and> y = f z)"
  by (cases x) auto

lemma validate_terminal_Inr:
  assumes "validate_terminal h command cwd roots = Inr c"
  shows "validate_existing h cwd roots = Inr c" and "is_dir h c"
    and "\<not> list_ex (\<lambda>x. x = 10 \<or> x = 13 \<or> x = 0) command" and "\<not> list_ex (\<lambda>x. x \<in> set shell_operators) command"
    and "command_shape (map to_ascii_lowercase (raw_tokens command)) = Inr ()"
    and "git_shape (raw_tokens command) = Inr ()"
    and "paths_contained h roots c (tl (map to_ascii_lowercase (raw_tokens command))) = Inr ()"
  using assms by (auto simp: validate_terminal_def Let_def map_sum_Inr_iff split: sum.splits if_splits)

lemma validate_terminal_words:
  assumes "validate_terminal h command cwd roots = Inr c"
  shows "list_all (\<lambda>x. x \<notin> set (shell_operators @ [0, 10, 13])) command"
    and "list_all (\<lambda>token. \<not> is_forbidden_program (base_name (to_ascii_lowercase token))) (raw_tokens command)"
  using validate_terminal_Inr(3,4) [OF assms] command_shape_programs [OF validate_terminal_Inr(5) [OF assms]]
  by (auto simp: list_all_iff list_ex_iff)

text \<open>An admitted terminal command is one line and one vetted program: its directory resolves inside the
  workspace, the line has no line break and no shell operator, and no word of it names a denylisted program
  (whatever its quoting, case, directory or version suffix). Of the words after the first, each one is read in
  lower case and with its option prefix taken off; when what is left is a path, it resolves against the command's
  directory to one whose nearest existing ancestor resolves inside a workspace root. The first word is not held
  to the path rule, and neither is the spelling the program itself receives: \<open>path_check_gaps\<close> shows both.
\<close>

theorem terminal_admits_one_vetted_program:
  assumes "validate_terminal h command cwd roots = Inr c" and "canonical_host h"
  shows "canonicalize h cwd = Some c \<and> inside_roots h roots c \<and> is_dir h c
    \<and> list_all (\<lambda>x. x \<notin> set (shell_operators @ [0, 10, 13])) command
    \<and> list_all (\<lambda>token. \<not> is_forbidden_program (base_name (to_ascii_lowercase token))) (raw_tokens command)
    \<and> list_all (\<lambda>token. case sanitize_command_path_token h (path_candidate token) c of
         Inl _ \<Rightarrow> False | Inr None \<Rightarrow> True | Inr (Some p) \<Rightarrow> lands_inside h roots p)
        (tl (map to_ascii_lowercase (raw_tokens command)))"
proof -
  note v = validate_terminal_Inr [OF assms(1)]
  have "list_all (\<lambda>token. case sanitize_command_path_token h (path_candidate token) c of
         Inl _ \<Rightarrow> False | Inr None \<Rightarrow> True | Inr (Some p) \<Rightarrow> lands_inside h roots p)
        (tl (map to_ascii_lowercase (raw_tokens command)))"
    unfolding list_all_iff
  proof
    fix token assume "token \<in> set (tl (map to_ascii_lowercase (raw_tokens command)))"
    with v(7) show "case sanitize_command_path_token h (path_candidate token) c of
         Inl _ \<Rightarrow> False | Inr None \<Rightarrow> True | Inr (Some p) \<Rightarrow> lands_inside h roots p"
      by (auto simp: paths_contained_Inr within_workspace_lands [OF _ assms(2)] dest!: bspec split: sum.splits option.splits)
  qed
  then show ?thesis using v(1,2) validate_terminal_words [OF assms(1)] by (simp add: validate_existing_Inr)
qed

lemma one_workspace_admits: "validate_terminal one_workspace (lit ''cat ./a.txt'') (lit ''/w'') [lit ''/w''] = Inr (lit ''/w'')"
  by code_simp

theorem terminal_admits_one_vetted_program_witness:
  "list_all (\<lambda>token. case sanitize_command_path_token one_workspace (path_candidate token) (lit ''/w'') of
       Inl _ \<Rightarrow> False | Inr None \<Rightarrow> True | Inr (Some p) \<Rightarrow> lands_inside one_workspace [lit ''/w''] p)
      (tl (map to_ascii_lowercase (raw_tokens (lit ''cat ./a.txt''))))"
  using terminal_admits_one_vetted_program [OF one_workspace_admits one_workspace_canonical] by blast

subsection \<open>Where the check and the program disagree about a path\<close>

text \<open>A host on a case-sensitive volume: the workspace holds a link \<open>Link\<close> to a directory outside.\<close>

definition linked_workspace :: host where
  "linked_workspace = \<lparr>path_exists = (\<lambda>p. p \<in> set (map lit [''/'', ''/w'', ''/w/Link'', ''/etc'', ''/etc/passwd'', ''/w/Link/passwd''])),
     canonicalize = (\<lambda>p. if p = lit ''/w/Link'' then Some (lit ''/etc'')
        else if p = lit ''/w/Link/passwd'' then Some (lit ''/etc/passwd'')
        else if p \<in> set (map lit [''/'', ''/w'', ''/etc'', ''/etc/passwd'']) then Some p else None),
     is_dir = (\<lambda>p. p \<in> set (map lit [''/'', ''/w'', ''/etc''])), home = None\<rparr>"

lemma spaced_value_refused:
  "validate_terminal one_workspace (lit ''grep -f /etc/passwd x'') (lit ''/w'') [lit ''/w''] = Inl (PathOutside (lit ''/etc/passwd''))"
  by code_simp

lemma glued_value_admitted:
  "validate_terminal one_workspace (lit ''grep -f/etc/passwd x'') (lit ''/w'') [lit ''/w''] = Inr (lit ''/w'')"
  by code_simp

lemma link_refused:
  "validate_existing linked_workspace (lit ''/w/Link/passwd'') [lit ''/w''] = Inl (OutsideRoots (lit ''/etc/passwd''))"
  by code_simp

lemma link_admitted:
  "validate_terminal linked_workspace (lit ''cat /w/Link/passwd'') (lit ''/w'') [lit ''/w''] = Inr (lit ''/w'')"
  by code_simp

text \<open>Two ways past the path check, each beside the spelling that is refused: an option with its value glued on
  (\<open>-f/etc/passwd\<close>) is read as a name below the working directory although the program opens \<open>/etc/passwd\<close>,
  and a path is checked in lower case although the program receives it as written, so on a case-sensitive
  volume a link named with a capital letter is not followed by the check.
\<close>

theorem path_check_gaps:
  "validate_terminal one_workspace (lit ''grep -f /etc/passwd x'') (lit ''/w'') [lit ''/w''] = Inl (PathOutside (lit ''/etc/passwd''))
   \<and> validate_terminal one_workspace (lit ''grep -f/etc/passwd x'') (lit ''/w'') [lit ''/w''] = Inr (lit ''/w'')
   \<and> validate_existing linked_workspace (lit ''/w/Link/passwd'') [lit ''/w''] = Inl (OutsideRoots (lit ''/etc/passwd''))
   \<and> validate_terminal linked_workspace (lit ''cat /w/Link/passwd'') (lit ''/w'') [lit ''/w''] = Inr (lit ''/w'')"
  using spaced_value_refused glued_value_admitted link_refused link_admitted by blast

subsection \<open>Git\<close>

text \<open>The options Git still reads: those before the first end-of-options marker.\<close>

definition live_options :: "rstr list \<Rightarrow> rstr list" where
  "live_options options = takeWhile (\<lambda>o'. o' \<noteq> lit ''--'') options"

lemma git_options_checked_iff:
  "git_options_checked letters options = Inr () \<longleftrightarrow> \<not> list_ex (git_exec_option letters) (live_options options)"
  by (induction letters options rule: git_options_checked.induct) (auto simp: live_options_def)

lemma git_switches_Inr:
  "git_switches args = Inr rest \<longleftrightarrow>
     list_all (\<lambda>a. a \<in> set GIT_GLOBAL_SWITCHES) (takeWhile (starts_with (lit ''-'')) args)
     \<and> rest = dropWhile (starts_with (lit ''-'')) args"
  by (induction args rule: git_switches.induct) auto

lemma validate_git_argv_Inr:
  "validate_git_argv args = Inr () \<longleftrightarrow>
     list_all (\<lambda>a. a \<in> set GIT_GLOBAL_SWITCHES) (takeWhile (starts_with (lit ''-'')) args)
     \<and> (case dropWhile (starts_with (lit ''-'')) args of
          [] \<Rightarrow> True
        | sub # options \<Rightarrow> sub \<in> set GIT_SUBCOMMANDS
            \<and> \<not> list_ex (git_exec_option (git_exec_letters sub)) (live_options options)
            \<and> (sub = lit ''config'' \<longrightarrow> list_ex (\<lambda>o'. o' \<in> set GIT_CONFIG_READ_FLAGS) options
                 \<and> \<not> list_ex (\<lambda>o'. o' \<in> set GIT_CONFIG_WRITE_FLAGS) options))"
proof (cases "git_switches args")
  case (Inl e)
  then show ?thesis using git_switches_Inr [of args "dropWhile (starts_with (lit ''-'')) args"]
    by (simp add: validate_git_argv_def)
next
  case (Inr rest)
  then have rest: "rest = dropWhile (starts_with (lit ''-'')) args"
    and switches: "list_all (\<lambda>a. a \<in> set GIT_GLOBAL_SWITCHES) (takeWhile (starts_with (lit ''-'')) args)"
    using git_switches_Inr [of args rest] by auto
  show ?thesis
  proof (cases rest)
    case Nil
    with Inr rest switches show ?thesis by (simp add: validate_git_argv_def del: dropWhile_eq_Nil_conv)
  next
    case (Cons sub options)
    have d: "dropWhile (starts_with (lit ''-'')) args = sub # options" using rest Cons by simp
    have "validate_git_argv args = Inr () \<longleftrightarrow> sub \<in> set GIT_SUBCOMMANDS \<and> git_options_checked (git_exec_letters sub) options = Inr ()
        \<and> \<not> (sub = lit ''config'' \<and> (\<not> list_ex (\<lambda>o'. o' \<in> set GIT_CONFIG_READ_FLAGS) options
                 \<or> list_ex (\<lambda>o'. o' \<in> set GIT_CONFIG_WRITE_FLAGS) options))"
      by (simp add: validate_git_argv_def Inr Cons split: sum.split)
    then show ?thesis using switches by (auto simp: d git_options_checked_iff)
  qed
qed

end
