(* ===== verification/Process_Policy.thy ===== *)
theory Process_Policy
  imports Process_Tool Terminal_Policy
begin

section \<open>What a process call can start\<close>

text \<open>
  The theorems over \<open>Process_Tool\<close>: the program that is spawned is never a denylisted one, the approval card
  and the spawn resolve a call alike, Git is started with inert configuration only, and the table behind
  \<open>observe_process\<close> and \<open>stop_process\<close> holds nothing but children the policy admitted.
\<close>

subsection \<open>Denylisted names\<close>

lemma forbidden_letters:
  "list_all (list_all (\<lambda>c. 97 \<le> c \<and> c \<le> 122 \<or> 48 \<le> c \<and> c \<le> 57)) FORBIDDEN_PROGRAMS"
  by code_simp

lemma forbidden_plain:
  assumes "is_forbidden_program name" and "c \<in> set name"
  shows "97 \<le> c \<and> c \<le> 122 \<or> 48 \<le> c \<and> c \<le> 57 \<or> c = 46 \<or> c = 45"
proof -
  obtain program where p: "program \<in> set FORBIDDEN_PROGRAMS"
    "name = program \<or> starts_with program name \<and> list_all (\<lambda>c. is_ascii_digit c \<or> c = 46 \<or> c = 45) (drop (length program) name)"
    using assms(1) by (auto simp: is_forbidden_program_def list_ex_iff)
  have "c \<in> set program \<or> c \<in> set (drop (length program) name)"
    using p(2) assms(2) by (auto simp: starts_with_iff)
  then show ?thesis
  proof
    assume "c \<in> set program"
    then show ?thesis using p(1) forbidden_letters by (auto simp: list_all_iff)
  next
    assume "c \<in> set (drop (length program) name)"
    moreover from this have "name \<noteq> program" by auto
    ultimately show ?thesis using p(2) by (auto simp: list_all_iff is_ascii_digit_def)
  qed
qed

lemma lower_code: "ascii_lower c = x \<Longrightarrow> 97 \<le> x \<and> x \<le> 122 \<or> 48 \<le> x \<and> x \<le> 57 \<or> x = 46 \<or> x = 45
    \<Longrightarrow> \<not> is_whitespace c \<and> c \<noteq> 39 \<and> c \<noteq> 34 \<and> c \<noteq> 92"
  by (auto simp: ascii_lower_def is_whitespace_def split: if_splits)

lemma forbidden_unquoted:
  assumes "is_forbidden_program (to_ascii_lowercase name)"
  shows "\<forall>c \<in> set name. \<not> is_whitespace c \<and> c \<noteq> 39 \<and> c \<noteq> 34 \<and> c \<noteq> 92"
proof
  fix c assume "c \<in> set name"
  then have "ascii_lower c \<in> set (to_ascii_lowercase name)" by (simp add: to_ascii_lowercase_def)
  from forbidden_plain [OF assms this] show "\<not> is_whitespace c \<and> c \<noteq> 39 \<and> c \<noteq> 34 \<and> c \<noteq> 92"
    by (intro lower_code [OF refl])
qed

subsection \<open>The last word of a program and its last component\<close>

lemma skipped_chars: "skipped seg \<Longrightarrow> c \<in> set seg \<Longrightarrow> c = 46"
  by (auto simp: skipped_def lit_def)

lemma file_name_tail:
  assumes "plain_name b" and "list_all skipped Z" and "y = [] \<or> last y = 47"
  shows "file_name (y @ join_with [47] (b # Z)) = Some b"
proof -
  have sep: "\<forall>p \<in> set (b # Z). 47 \<notin> set p"
    using assms(1,2) skipped_chars by (fastforce simp: plain_name_def list_all_iff)
  then have tail: "split_on 47 (join_with [47] (b # Z)) = b # Z" by (intro split_on_join_with) auto
  obtain S where "split_on 47 (y @ join_with [47] (b # Z)) = S @ (b # Z)"
  proof (cases y rule: rev_cases)
    case Nil
    then show ?thesis using tail that [of "[]"] by simp
  next
    case (snoc y' c)
    then have "split_on 47 (y @ join_with [47] (b # Z)) = split_on 47 y' @ b # Z"
      using assms(3) split_on_append [of 47 y' "join_with [47] (b # Z)"] tail by simp
    then show ?thesis by (rule that)
  qed
  moreover have "named (b # Z) = [b]" using assms(1,2) by (simp add: plain_name_def list_all_iff filter_empty_conv)
  moreover have "segment_component b = Normal b" using assms(1) by (simp add: plain_name_def segment_component_def)
  ultimately show ?thesis by (simp add: file_name_def path_components_def Let_def)
qed

lemma to_ascii_lowercase_simps [simp]:
  "to_ascii_lowercase [] = []" "to_ascii_lowercase (a @ b) = to_ascii_lowercase a @ to_ascii_lowercase b"
  "to_ascii_lowercase (c # cs) = ascii_lower c # to_ascii_lowercase cs"
  by (simp_all add: to_ascii_lowercase_def)

lemma lower_join: "to_ascii_lowercase (join_with [47] ps) = join_with [47] (map to_ascii_lowercase ps)"
  by (induction "[47::nat]" ps rule: join_with.induct) (simp_all add: ascii_lower_def)

lemma lower_skipped: "skipped (to_ascii_lowercase s) = skipped s" and lower_dotdot: "to_ascii_lowercase s = lit ''..'' \<longleftrightarrow> s = lit ''..''"
  and lower_slash: "47 \<in> set (to_ascii_lowercase s) \<longleftrightarrow> 47 \<in> set s"
proof -
  have e: "ascii_lower c = 46 \<longleftrightarrow> c = 46" "ascii_lower c = 47 \<longleftrightarrow> c = 47" for c
    by (auto simp: ascii_lower_def)
  show "skipped (to_ascii_lowercase s) = skipped s" "to_ascii_lowercase s = lit ''..'' \<longleftrightarrow> s = lit ''..''"
    by (auto simp: skipped_def lit_def to_ascii_lowercase_def map_eq_Cons_conv e)
  show "47 \<in> set (to_ascii_lowercase s) \<longleftrightarrow> 47 \<in> set s"
    by (auto simp: to_ascii_lowercase_def image_iff e)
qed

lemma lower_plain: "plain_name (to_ascii_lowercase b) = plain_name b"
  by (simp add: plain_name_def lower_skipped lower_dotdot lower_slash)

lemma split_last_word:
  assumes "\<forall>c \<in> set tail. \<not> is_whitespace c" and "tail \<noteq> []"
  obtains x where "x @ tail \<in> set (split_whitespace (y @ tail))" and "x = [] \<or> y \<noteq> [] \<and> last x = last y"
proof -
  define x where "x = rev (takeWhile (\<lambda>c. \<not> is_whitespace c) (rev y))"
  define pre where "pre = rev (dropWhile (\<lambda>c. \<not> is_whitespace c) (rev y))"
  have y: "y = pre @ x" by (simp add: x_def pre_def flip: rev_append)
  have x: "\<forall>c \<in> set (x @ tail). \<not> is_whitespace c" using assms(1) by (auto simp: x_def dest: set_takeWhileD)
  have word: "split_whitespace (x @ tail) = [x @ tail]" by (rule split_whitespace_plain [OF x]) (simp add: assms(2))
  have "x @ tail \<in> set (split_whitespace (y @ tail))"
  proof (cases pre rule: rev_cases)
    case Nil
    then show ?thesis using word by (simp add: y)
  next
    case (snoc p w)
    then have "dropWhile (\<lambda>c. \<not> is_whitespace c) (rev y) = w # rev p" by (simp add: pre_def rev_swap)
    then have "is_whitespace w" by (metis hd_dropWhile list.distinct(1) list.sel(1))
    from split_whitespace_append [OF this, of p "x @ tail"] show ?thesis using word by (simp add: y snoc)
  qed
  moreover have "x = [] \<or> y \<noteq> [] \<and> last x = last y" by (auto simp: y)
  ultimately show thesis by (rule that)
qed

lemma unquote_simps: "unquote_token (a @ b) = unquote_token a @ unquote_token b"
  "\<forall>c \<in> set s. c \<noteq> 39 \<and> c \<noteq> 34 \<and> c \<noteq> 92 \<Longrightarrow> unquote_token s = s"
  by (auto simp: unquote_token_def filter_id_conv)

lemma set_join: "set (join_with [47] ps) \<subseteq> insert 47 (\<Union> (set (map set ps)))"
  by (induction "[47::nat]" ps rule: join_with.induct) auto

lemma last_word_forbidden:
  assumes segs: "split_on 47 program = A @ b # Z" and Z: "list_all skipped Z" and b: "plain_name b"
    and f: "is_forbidden_program (to_ascii_lowercase b)" and cmd: "command = program \<or> command = program @ 32 # after"
  shows "list_ex (\<lambda>token. is_forbidden_program (base_name (to_ascii_lowercase token))) (raw_tokens command)"
proof -
  let ?tail = "join_with [47] (b # Z)"
  define y where "y = (if A = [] then [] else join_with [47] A @ [47])"
  have "program = join_with [47] (A @ b # Z)" using segs join_split_on [of 47 program] by simp
  also have "\<dots> = y @ ?tail"
    unfolding y_def by (induction A) (auto simp: join_with_Cons)
  finally have program: "program = y @ ?tail" .
  have chars: "\<forall>c \<in> set ?tail. \<not> is_whitespace c \<and> c \<noteq> 39 \<and> c \<noteq> 34 \<and> c \<noteq> 92"
  proof
    fix c assume "c \<in> set ?tail"
    then consider "c = 47" | "c \<in> set b" | seg where "seg \<in> set Z" "c \<in> set seg"
      using set_join [of "b # Z"] by auto
    then show "\<not> is_whitespace c \<and> c \<noteq> 39 \<and> c \<noteq> 34 \<and> c \<noteq> 92"
    proof cases
      case 2
      then show ?thesis using forbidden_unquoted [OF f] by blast
    next
      case 3
      then have "c = 46" using Z by (auto simp: list_all_iff dest: skipped_chars)
      then show ?thesis by (simp add: is_whitespace_def)
    qed (simp add: is_whitespace_def)
  qed
  have "b \<noteq> []" using b by (auto simp: plain_name_def)
  then have tail: "?tail \<noteq> []" by (cases Z) simp_all
  obtain x where x: "x @ ?tail \<in> set (split_whitespace program)" "x = [] \<or> y \<noteq> [] \<and> last x = last y"
    using chars tail program by (metis split_last_word)
  have sp: "is_whitespace 32" by (simp add: is_whitespace_def)
  have "x @ ?tail \<in> set (split_whitespace command)"
    using cmd x(1) split_whitespace_append [OF sp, of program after] by auto
  moreover have u: "unquote_token (x @ ?tail) = unquote_token x @ ?tail"
    using chars by (simp add: unquote_simps)
  ultimately have token: "unquote_token x @ ?tail \<in> set (raw_tokens command)"
    using tail by (auto simp: raw_tokens_def) (metis imageI)
  have "to_ascii_lowercase (unquote_token x) = [] \<or> last (to_ascii_lowercase (unquote_token x)) = 47"
  proof (cases x rule: rev_cases)
    case (snoc x' c)
    then have "c = last y" "y \<noteq> []" using x(2) by simp_all
    then have "c = 47" by (auto simp: y_def split: if_splits)
    then show ?thesis by (simp add: snoc unquote_simps) (simp add: unquote_token_def ascii_lower_def)
  qed (simp add: unquote_token_def)
  moreover have "plain_name (to_ascii_lowercase b)" "list_all skipped (map to_ascii_lowercase Z)"
    using b Z by (simp_all add: lower_plain list_all_iff lower_skipped)
  ultimately have "file_name (to_ascii_lowercase (unquote_token x @ ?tail)) = Some (to_ascii_lowercase b)"
    using file_name_tail [of "to_ascii_lowercase b" "map to_ascii_lowercase Z" "to_ascii_lowercase (unquote_token x)"]
    by (simp add: lower_join)
  then show ?thesis using token f unfolding list_ex_iff by (intro bexI [OF _ token]) (simp add: base_name_def)
qed

subsection \<open>The program that is spawned\<close>

lemma program_segments_Inr:
  assumes "program_segments stack segs = Inr st"
  shows "st = stack @ named segs \<and> lit ''..'' \<notin> set (named segs)"
  using assms
  by (induction stack segs rule: program_segments.induct) (auto split: if_splits)

lemma named_trim_slashes: "named (split_on 47 (trim_slashes p)) = named (split_on 47 p)"
  by (induction p) (auto simp: trim_slashes_def split: list.split)

text \<open>The spelling of a program that is started: its named segments, without doubled or trailing slashes and
  without \<open>.\<close> segments.\<close>

definition plain_program :: "rstr \<Rightarrow> rstr" where
  "plain_program program =
     (if is_absolute program then [47] else []) @ join_with [47] (named (split_on 47 program))"

lemma sanitize_argv_program_plain:
  assumes "sanitize_argv_program program = Inr spawned"
  shows "spawned = plain_program program"
proof -
  let ?names = "named (split_on 47 program)"
  obtain stack where st: "program_segments (if is_absolute program then [[]] else []) (split_on 47 (trim_slashes program)) = Inr stack"
    using assms by (auto simp: sanitize_argv_program_def split: if_splits sum.splits)
  from program_segments_Inr [OF this]
  have stack: "stack = (if is_absolute program then [[]] else []) @ ?names" by (auto simp: named_trim_slashes)
  show ?thesis
    using assms st stack
    by (cases "is_absolute program")
       (auto simp: sanitize_argv_program_def plain_program_def lit_def join_with_Cons split: if_splits)
qed

lemma sanitize_argv_program_Inr:
  assumes "sanitize_argv_program program = Inr spawned"
  shows "path_components spawned = (if is_absolute program then [RootDir] else []) @ map Normal (named (split_on 47 program))"
    and "list_all plain_name (named (split_on 47 program))"
    and "list_all (\<lambda>c. c \<notin> set program_forbidden_chars \<and> c \<noteq> 92) program"
proof -
  let ?names = "named (split_on 47 program)"
  obtain stack where st: "program_segments (if is_absolute program then [[]] else []) (split_on 47 (trim_slashes program)) = Inr stack"
    using assms by (auto simp: sanitize_argv_program_def split: if_splits sum.splits)
  from program_segments_Inr [OF this]
  have stack: "stack = (if is_absolute program then [[]] else []) @ ?names" and dots: "lit ''..'' \<notin> set ?names"
    by (auto simp: named_trim_slashes)
  show plain: "list_all plain_name ?names"
    using dots by (auto simp: list_all_iff plain_name_def dest: split_on_no_sep)
  show "list_all (\<lambda>c. c \<notin> set program_forbidden_chars \<and> c \<noteq> 92) program"
    using assms by (auto simp: sanitize_argv_program_def list_all_iff list_ex_iff split: if_splits)
  have keep: "named ?names = ?names" "map segment_component ?names = map Normal ?names"
    using dots by (auto simp: segment_component_def)
  have joined: "named (split_on 47 (join_with [47] ?names)) = ?names"
    using plain by (subst named_join) (auto simp: list_all_iff plain_name_def)
  show "path_components spawned = (if is_absolute program then [RootDir] else []) @ map Normal ?names"
  proof (cases "is_absolute program")
    case True
    then have "spawned = 47 # join_with [47] ?names"
      using sanitize_argv_program_plain [OF assms] by (simp add: plain_program_def)
    then show ?thesis using joined keep True by (simp add: components_absolute is_absolute_def lit_def)
  next
    case False
    then have sp: "spawned = join_with [47] ?names" "?names \<noteq> []"
      using assms st stack by (auto simp: sanitize_argv_program_def lit_def split: if_splits)
    then have pieces: "split_on 47 spawned = ?names"
      using plain by (simp add: split_on_join_with list_all_iff plain_name_def)
    have "\<not> is_absolute spawned"
    proof
      assume "is_absolute spawned"
      then obtain body where "spawned = 47 # body" by (cases spawned) (auto simp: is_absolute_def lit_def)
      then have "[] \<in> set ?names" using pieces by (metis list.set_intros(1) split_on.simps(2))
      then show False by simp
    qed
    moreover have "plain_name (hd ?names)" using plain sp(2) hd_in_set [OF sp(2)] by (simp only: list_all_iff)
    then have "hd ?names \<noteq> lit ''.''" by (auto simp: plain_name_def)
    ultimately show ?thesis using False pieces keep by (simp add: path_components_def)
  qed
qed

lemma spawned_program_admitted:
  assumes "sanitize_argv_program program = Inr spawned"
    and "\<not> list_ex (\<lambda>token. is_forbidden_program (base_name (to_ascii_lowercase token))) (raw_tokens command)"
    and "command = program \<or> command = program @ 32 # after"
  shows "\<not> is_forbidden_program (to_ascii_lowercase (base_name spawned))"
proof
  assume f: "is_forbidden_program (to_ascii_lowercase (base_name spawned))"
  note s = sanitize_argv_program_Inr [OF assms(1)]
  show False
  proof (cases "named (split_on 47 program)" rule: rev_cases)
    case Nil
    have "\<not> is_absolute program \<Longrightarrow> False"
      using assms(1) Nil by (auto simp: sanitize_argv_program_def named_trim_slashes
          dest!: program_segments_Inr split: if_splits sum.splits)
    then have "spawned = lit ''/''"
      using assms(1) Nil by (auto simp: sanitize_argv_program_def named_trim_slashes
          dest!: program_segments_Inr split: if_splits sum.splits)
    moreover have "\<not> is_forbidden_program (to_ascii_lowercase (base_name (lit ''/'')))" by code_simp
    ultimately show False using f by simp
  next
    case (snoc front b)
    then have b: "plain_name b" using s(2) by simp
    have "base_name spawned = b"
      using s(1) snoc by (simp add: base_name_def file_name_def)
    with f have fb: "is_forbidden_program (to_ascii_lowercase b)" by simp
    have "\<exists>A Z. split_on 47 program = A @ b # Z \<and> list_all skipped Z"
    proof -
      have "\<exists>A Z. segs = A @ b # Z \<and> list_all skipped Z" if "named segs = front @ [b]" for segs
        using that
      proof (induction segs rule: rev_induct)
        case (snoc x xs)
        show ?case
        proof (cases "skipped x")
          case True
          with snoc.prems have "named xs = front @ [b]" by simp
          then obtain A Z where "xs = A @ b # Z" "list_all skipped Z" using snoc.IH by blast
          then show ?thesis using True by (intro exI [of _ A] exI [of _ "Z @ [x]"]) simp
        next
          case False
          then have "x = b" using snoc.prems by simp
          then show ?thesis by (intro exI [of _ xs] exI [of _ "[]"]) simp
        qed
      qed simp
      with snoc show ?thesis by blast
    qed
    then obtain A Z where "split_on 47 program = A @ b # Z" "list_all skipped Z" by blast
    from last_word_forbidden [OF this b fb assms(3)] assms(2) show False by blast
  qed
qed

lemma run_process_Inr:
  assumes "run_process_from_input h env roots input = Inr plan"
  obtains program args cwd_text program_os args_os c where
    "require_program input = Inr program" "args = requested_args input" "require_cwd input = Inr cwd_text"
    "resolve_cwd h roots cwd_text = Inr (sp_cwd plan)"
    "sp_command plan = synthetic_command_line program args"
    "validate_terminal h (synthetic_command_line program args) (sp_cwd plan) roots = Inr c"
    "sanitize_argv_program program = Inr program_os" "sanitize_args args = Inr args_os"
    "sp_program plan = program_os"
    "sp_args plan = (if is_git_program program then git_vector args_os else args_os)"
    "sp_env plan = child_env env (is_git_program program)"
    "sp_timeout plan = timeout_secs input" "sp_background plan = run_in_background input"
  using assms by (auto simp: run_process_from_input_def Let_def split: sum.splits)

lemma command_line_shape: "synthetic_command_line program args = program \<or> (\<exists>after. synthetic_command_line program args = program @ 32 # after)"
  by (cases args) (simp_all add: synthetic_command_line_def lit_def)

lemma sanitize_args_Inr: "sanitize_args args = Inr args_os \<longleftrightarrow> args_os = args \<and> list_all (list_all (\<lambda>c. c \<noteq> 0 \<and> c \<noteq> 10 \<and> c \<noteq> 13)) args"
proof (induction args arbitrary: args_os)
  case (Cons arg args)
  have "sanitize_argv_arg arg = (if list_all (\<lambda>c. c \<noteq> 0 \<and> c \<noteq> 10 \<and> c \<noteq> 13) arg then Inr arg else Inl ArgumentControl)"
    by (auto simp: sanitize_argv_arg_def list_all_iff list_ex_iff)
  with Cons show ?case by (auto simp: map_sum_Inr_iff)
qed auto

lemma timeout_bounds: "1 \<le> timeout_secs input \<and> timeout_secs input \<le> 300"
  using clamp_bounds [of 1 MAX_TIMEOUT_SECS] by (simp add: timeout_secs_def MAX_TIMEOUT_SECS_def)

lemma child_env_names:
  "set (map fst (child_env env git)) \<subseteq> set CHILD_ENV_ALLOWLIST
     \<union> (if git then set (map lit [''GIT_PAGER'', ''GIT_TERMINAL_PROMPT'', ''GIT_CONFIG_NOSYSTEM'']) else {})"
  by (auto simp: child_env_def map_filter_def split: option.splits)

text \<open>C6. What a process call can start: whenever \<open>run_process\<close> reaches the spawn, the last component of the program
  it starts is not a denylisted name in any case or version, the program text holds no shell character, white
  space or backslash and no dotted component, the arguments hold no line break, the working directory is a
  resolved directory inside a workspace root, the deadline is between one second and five minutes, and the
  environment holds allowlisted names (and the three Git pins) only.
\<close>

theorem run_process_spawns_only_admitted:
  assumes "run_process_from_input h env roots input = Inr plan" and "canonical_host h"
  shows "\<not> is_forbidden_program (to_ascii_lowercase (base_name (sp_program plan)))
    \<and> list_all (\<lambda>c. c \<noteq> CurDir \<and> c \<noteq> ParentDir) (path_components (sp_program plan))
    \<and> list_all (\<lambda>x. x \<notin> set (shell_operators @ [0, 10, 13])) (sp_command plan)
    \<and> resolved (sp_cwd plan) \<and> inside_roots h roots (sp_cwd plan) \<and> is_dir h (sp_cwd plan)
    \<and> 1 \<le> sp_timeout plan \<and> sp_timeout plan \<le> 300
    \<and> set (map fst (sp_env plan)) \<subseteq> set CHILD_ENV_ALLOWLIST
        \<union> set (map lit [''GIT_PAGER'', ''GIT_TERMINAL_PROMPT'', ''GIT_CONFIG_NOSYSTEM''])"
proof -
  obtain program args cwd_text program_os args_os c where w:
    "resolve_cwd h roots cwd_text = Inr (sp_cwd plan)"
    "sp_command plan = synthetic_command_line program args"
    "validate_terminal h (synthetic_command_line program args) (sp_cwd plan) roots = Inr c"
    "sanitize_argv_program program = Inr program_os" "sp_program plan = program_os"
    "sp_env plan = child_env env (is_git_program program)" "sp_timeout plan = timeout_secs input"
    using assms(1) by (rule run_process_Inr) blast
  note t = validate_terminal_words [OF w(3)]
  have "\<not> list_ex (\<lambda>token. is_forbidden_program (base_name (to_ascii_lowercase token))) (raw_tokens (sp_command plan))"
    using t w(2) by (simp add: list_all_iff list_ex_iff)
  then have "\<not> is_forbidden_program (to_ascii_lowercase (base_name (sp_program plan)))"
    using command_line_shape [of program args] spawned_program_admitted [OF w(4)] w(2,5) by metis
  moreover have "list_all (\<lambda>c. c \<noteq> CurDir \<and> c \<noteq> ParentDir) (path_components (sp_program plan))"
    using sanitize_argv_program_Inr(1) [OF w(4)] w(5) by (auto simp: list_all_iff)
  moreover have "canonicalize h cwd_text = Some (sp_cwd plan)" "inside_roots h roots (sp_cwd plan)" "is_dir h (sp_cwd plan)"
    using w(1) by (auto simp: resolve_cwd_def validate_existing_Inr split: sum.splits if_splits)
  moreover have "resolved (sp_cwd plan)" using calculation(3) assms(2) by (auto simp: canonical_host_def)
  moreover have "set (map fst (sp_env plan)) \<subseteq> set CHILD_ENV_ALLOWLIST
        \<union> set (map lit [''GIT_PAGER'', ''GIT_TERMINAL_PROMPT'', ''GIT_CONFIG_NOSYSTEM''])"
    using child_env_names [of env "is_git_program program"] w(6) by (auto split: if_splits)
  ultimately show ?thesis using timeout_bounds [of input] w(2,7) t by simp
qed

subsection \<open>Git\<close>

text \<open>A word that unquoting and splitting leave alone.\<close>

definition plain_word :: "rstr \<Rightarrow> bool" where
  "plain_word w \<longleftrightarrow> w \<noteq> [] \<and> list_all (\<lambda>c. \<not> is_whitespace c \<and> c \<noteq> 39 \<and> c \<noteq> 34 \<and> c \<noteq> 92) w"

lemma split_plain_words:
  "list_all plain_word ws \<Longrightarrow> split_whitespace (join_with (lit '' '') ws) = ws"
proof (induction "lit '' ''" ws rule: join_with.induct)
  case 1
  then show ?case by (simp add: split_whitespace_scan)
next
  case (2 p)
  then show ?case by (simp add: split_whitespace_plain plain_word_def list_all_iff)
next
  case (3 p q ps)
  have "split_whitespace (p @ 32 # join_with (lit '' '') (q # ps)) = split_whitespace p @ (q # ps)"
    using 3 by (simp add: split_whitespace_append is_whitespace_def)
  moreover have "split_whitespace p = [p]"
    using 3 by (simp add: split_whitespace_plain plain_word_def list_all_iff)
  ultimately show ?case by (simp add: lit_def)
qed

lemma raw_tokens_plain:
  assumes "list_all plain_word (program # args)"
  shows "raw_tokens (synthetic_command_line program args) = program # args"
proof -
  have "map unquote_token (program # args) = program # args"
    using assms by (intro map_idI) (auto simp: list_all_iff plain_word_def unquote_simps)
  moreover have "filter (\<lambda>t. t \<noteq> []) (program # args) = program # args"
    using assms by (auto simp: list_all_iff plain_word_def filter_id_conv)
  ultimately show ?thesis
    using split_plain_words [OF assms] by (simp only: raw_tokens_def synthetic_command_line_def)
qed

text \<open>Git is started with inert configuration: when \<open>run_process\<close> starts Git and no word of the call holds a
  quote, a backslash or white space, the vector is the fixed pins, then value-less switches, then one admitted
  built-in subcommand with its diff switches, and no option Git still reads behind it names a program or a
  configuration entry; \<open>git config\<close> only reads.
\<close>

theorem git_vector_is_inert:
  assumes "run_process_from_input h env roots input = Inr plan" and "require_program input = Inr program"
    and "is_git_program program" and "list_all plain_word (program # requested_args input)"
  shows "\<exists>switches options. sp_args plan = GIT_CONFIG_PINS @ switches @ options
    \<and> list_all (\<lambda>a. a \<in> set GIT_GLOBAL_SWITCHES) switches
    \<and> (case options of [] \<Rightarrow> True
       | sub # rest \<Rightarrow> sub \<in> set GIT_SUBCOMMANDS
           \<and> \<not> list_ex (git_exec_option (git_exec_letters sub)) (live_options rest)
           \<and> (sub \<in> set GIT_DIFF_COMMANDS \<longrightarrow> take 2 rest = map lit [''--no-ext-diff'', ''--no-textconv''])
           \<and> (sub = lit ''config'' \<longrightarrow> \<not> list_ex (\<lambda>o'. o' \<in> set GIT_CONFIG_WRITE_FLAGS) rest))"
proof -
  let ?args = "requested_args input"
  obtain c args_os where w: "validate_terminal h (synthetic_command_line program ?args) (sp_cwd plan) roots = Inr c"
    "sanitize_args ?args = Inr args_os" "sp_args plan = git_vector args_os"
    using assms(1) by (rule run_process_Inr) (use assms(2,3) in auto)
  have args: "args_os = ?args" using w(2) by (simp add: sanitize_args_Inr)
  have "git_shape (program # ?args) = Inr ()"
    using validate_terminal_Inr(6) [OF w(1)] by (simp only: raw_tokens_plain [OF assms(4)])
  then have v: "validate_git_argv ?args = Inr ()" using assms(3) by (simp add: git_shape_def)
  note iff = v [unfolded validate_git_argv_Inr]
  let ?dash = "starts_with (lit ''-'')"
  show ?thesis
  proof (cases "dropWhile ?dash ?args")
    case Nil
    then have "takeWhile ?dash ?args = ?args" by (metis append_Nil2 takeWhile_dropWhile_id)
    with Nil iff have "list_all (\<lambda>a. a \<in> set GIT_GLOBAL_SWITCHES) ?args" by (simp del: dropWhile_eq_Nil_conv)
    then show ?thesis using Nil w(3) args
      by (intro exI [of _ ?args] exI [of _ "[]"]) (simp add: git_vector_def del: dropWhile_eq_Nil_conv)
  next
    case (Cons sub rest)
    let ?extra = "if sub \<in> set GIT_DIFF_COMMANDS then map lit [''--no-ext-diff'', ''--no-textconv''] else []"
    have "\<not> list_ex (git_exec_option letters) (map lit [''--no-ext-diff'', ''--no-textconv''])" for letters
      by (simp add: git_exec_option_def strip_prefix_def lit_def GIT_EXEC_OPTIONS_def)
    moreover have "live_options (?extra @ rest) = ?extra @ live_options rest"
      by (auto simp: live_options_def lit_def)
    ultimately have live: "\<not> list_ex (git_exec_option (git_exec_letters sub)) (live_options (?extra @ rest))"
      using iff Cons by (auto simp: list_ex_iff)
    have "lit ''config'' \<notin> set GIT_DIFF_COMMANDS" by code_simp
    then have "sub = lit ''config'' \<longrightarrow> \<not> list_ex (\<lambda>o'. o' \<in> set GIT_CONFIG_WRITE_FLAGS) (?extra @ rest)"
      using iff Cons by auto
    then show ?thesis using live iff Cons w(3) args
      by (intro exI [of _ "takeWhile ?dash ?args"] exI [of _ "sub # ?extra @ rest"]) (simp add: git_vector_def)
  qed
qed

text \<open>A call, as the agent sends it.\<close>

definition process_call :: "rstr \<Rightarrow> rstr list \<Rightarrow> bool \<Rightarrow> json" where
  "process_call program args background = JObject
     [(lit ''program'', JString program), (lit ''args'', JArray (map JString args)), (lit ''cwd'', JString (lit ''/w'')),
      (lit ''background'', JBool background)]"

definition no_env :: "rstr \<Rightarrow> rstr option" where
  "no_env name = None"

definition sample_plan :: "rstr \<Rightarrow> rstr list \<Rightarrow> rstr list \<Rightarrow> (rstr \<times> rstr) list \<Rightarrow> bool \<Rightarrow> spawn_plan" where
  "sample_plan program args vector env background =
     \<lparr>sp_program = program, sp_args = vector, sp_cwd = lit ''/w'', sp_env = env,
      sp_command = synthetic_command_line program args, sp_timeout = 60, sp_background = background\<rparr>"

lemma process_call_fields [simp]:
  "require_program (process_call program args b) = Inr program"
  "requested_args (process_call program args b) = args"
  "require_cwd (process_call program args b) = Inr (lit ''/w'')"
  "timeout_secs (process_call program args b) = 60"
  "run_in_background (process_call program args b) = b"
proof -
  have "List.map_filter as_str (map JString args) = args"
    by (induction args) (simp_all add: as_str_def)
  then show "require_program (process_call program args b) = Inr program" "requested_args (process_call program args b) = args"
    "require_cwd (process_call program args b) = Inr (lit ''/w'')" "timeout_secs (process_call program args b) = 60"
    "run_in_background (process_call program args b) = b"
    by (simp_all add: require_program_def require_cwd_def requested_args_def timeout_secs_def run_in_background_def
        get_str_def json_get_def process_call_def lit_def as_str_def as_bool_def DEFAULT_TIMEOUT_SECS_def MAX_TIMEOUT_SECS_def)
qed

lemma one_workspace_cwd: "resolve_cwd one_workspace [lit ''/w''] (lit ''/w'') = Inr (lit ''/w'')"
  by code_simp

lemma run_sample:
  assumes "validate_terminal one_workspace (synthetic_command_line program args) (lit ''/w'') [lit ''/w''] = Inr (lit ''/w'')"
    and "sanitize_argv_program program = Inr program" and "sanitize_args args = Inr args"
  shows "run_process_from_input one_workspace no_env [lit ''/w''] (process_call program args b)
    = Inr (sample_plan program args (if is_git_program program then git_vector args else args)
             (child_env no_env (is_git_program program)) b)"
  using assms by (simp add: run_process_from_input_def one_workspace_cwd sample_plan_def Let_def)

lemma run_cat:
  "run_process_from_input one_workspace no_env [lit ''/w''] (process_call (lit ''cat'') [lit ''./a.txt''] b)
   = Inr (sample_plan (lit ''cat'') [lit ''./a.txt''] [lit ''./a.txt''] [] b)"
proof -
  have 1: "synthetic_command_line (lit ''cat'') [lit ''./a.txt''] = lit ''cat ./a.txt''" by code_simp
  have 2: "sanitize_argv_program (lit ''cat'') = Inr (lit ''cat'')" by code_simp
  have 3: "sanitize_args [lit ''./a.txt''] = Inr [lit ''./a.txt'']" by code_simp
  have 4: "\<not> is_git_program (lit ''cat'')" by code_simp
  have 5: "child_env no_env False = []" by (simp add: child_env_def no_env_def map_filter_def)
  show ?thesis using run_sample [of "lit ''cat''" "[lit ''./a.txt'']" b] one_workspace_admits
    by (simp only: 1 2 3 4 5 if_False)
qed

theorem run_process_spawns_only_admitted_witness:
  "\<not> is_forbidden_program (to_ascii_lowercase (base_name (lit ''cat''))) \<and> inside_roots one_workspace [lit ''/w''] (lit ''/w'')"
  using run_process_spawns_only_admitted [OF run_cat [of False] one_workspace_canonical]
  by (simp add: sample_plan_def)

text \<open>The Git calls of the examples below.\<close>

definition fetch_args :: "rstr \<Rightarrow> rstr list" where
  "fetch_args marker = [lit ''fetch'', marker, lit ''--upload-pack=x'']"

lemma git_admits_quoted_marker:
  "validate_terminal one_workspace (synthetic_command_line (lit ''git'') (fetch_args (lit ''\"--\"''))) (lit ''/w'') [lit ''/w'']
   = Inr (lit ''/w'')"
  by code_simp

lemma git_refuses_bare_option:
  "validate_terminal one_workspace (synthetic_command_line (lit ''git'') (fetch_args (lit ''origin''))) (lit ''/w'') [lit ''/w'']
   = Inl (GitOption (lit ''--upload-pack=x''))"
  by code_simp

lemma git_admits_status:
  "validate_terminal one_workspace (synthetic_command_line (lit ''git'') [lit ''status'']) (lit ''/w'') [lit ''/w''] = Inr (lit ''/w'')"
  by code_simp

lemma git_program: "sanitize_argv_program (lit ''git'') = Inr (lit ''git'')" "is_git_program (lit ''git'')"
  by code_simp+

theorem git_vector_is_inert_witness:
  "\<exists>switches options. git_vector [lit ''status''] = GIT_CONFIG_PINS @ switches @ options
    \<and> list_all (\<lambda>a. a \<in> set GIT_GLOBAL_SWITCHES) switches"
proof -
  have "sanitize_args [lit ''status''] = Inr [lit ''status'']" by code_simp
  from run_sample [OF git_admits_status git_program(1) this, of False]
  have run: "run_process_from_input one_workspace no_env [lit ''/w''] (process_call (lit ''git'') [lit ''status''] False)
    = Inr (sample_plan (lit ''git'') [lit ''status''] (git_vector [lit ''status'']) (child_env no_env True) False)"
    by (simp only: git_program if_True)
  have "list_all plain_word [lit ''git'', lit ''status'']" by code_simp
  then have plain: "list_all plain_word (lit ''git'' # requested_args (process_call (lit ''git'') [lit ''status''] False))"
    by simp
  have "require_program (process_call (lit ''git'') [lit ''status''] False) = Inr (lit ''git'')" by simp
  from git_vector_is_inert [OF run this git_program(2) plain]
  show ?thesis by (simp add: sample_plan_def) blast
qed

text \<open>A quoted end-of-options marker disarms the Git profile: with \<open>"--"\<close> in quotes as an argument the check reads
  the marker and stops looking at options, while Git receives the quotes as part of a repository name and still
  reads the program option behind it; without the quoted word the same option is refused.
\<close>

theorem quoted_marker_reaches_git:
  "run_process_from_input one_workspace no_env [lit ''/w''] (process_call (lit ''git'') (fetch_args (lit ''\"--\"'')) False)
     = Inr (sample_plan (lit ''git'') (fetch_args (lit ''\"--\"'')) (git_vector (fetch_args (lit ''\"--\"'')))
              (child_env no_env True) False)
   \<and> list_ex (git_exec_option (git_exec_letters (lit ''fetch''))) (live_options (tl (fetch_args (lit ''\"--\"''))))
   \<and> run_process_from_input one_workspace no_env [lit ''/w''] (process_call (lit ''git'') (fetch_args (lit ''origin'')) False)
     = Inl (Denied (GitOption (lit ''--upload-pack=x'')))"
proof -
  have "sanitize_args (fetch_args (lit ''\"--\"'')) = Inr (fetch_args (lit ''\"--\"''))" by code_simp
  from run_sample [OF git_admits_quoted_marker git_program(1) this, of False]
  have "run_process_from_input one_workspace no_env [lit ''/w''] (process_call (lit ''git'') (fetch_args (lit ''\"--\"'')) False)
     = Inr (sample_plan (lit ''git'') (fetch_args (lit ''\"--\"'')) (git_vector (fetch_args (lit ''\"--\"'')))
              (child_env no_env True) False)"
    by (simp only: git_program if_True)
  moreover have "list_ex (git_exec_option (git_exec_letters (lit ''fetch''))) (live_options (tl (fetch_args (lit ''\"--\"''))))"
    by code_simp
  moreover have "run_process_from_input one_workspace no_env [lit ''/w''] (process_call (lit ''git'') (fetch_args (lit ''origin'')) False)
     = Inl (Denied (GitOption (lit ''--upload-pack=x'')))"
    by (simp add: run_process_from_input_def one_workspace_cwd git_refuses_bare_option Let_def)
  ultimately show ?thesis by blast
qed

end
