(* ===== verification/Process_Table.thy ===== *)
theory Process_Table
  imports Process_Policy Machines
begin

section \<open>Approval cards and background children\<close>

text \<open>
  The two promises around a spawn: the approval card is computed the way the spawn is, and the table of
  background children is a machine whose reports only concern children it started and has not closed. The
  operating system's answers (the pid of a child, its status, its exit code) are part of the inputs.
\<close>

subsection \<open>The card and the spawn\<close>

text \<open>The vector Git runs: the configuration pins, then the arguments in their order, with the two switches that
  turn off external diff programs behind a diff subcommand and nothing else added.\<close>

definition git_runs :: "rstr list \<Rightarrow> rstr list \<Rightarrow> bool" where
  "git_runs args argv \<longleftrightarrow> (\<exists>front extra back. args = front @ back \<and> argv = GIT_CONFIG_PINS @ front @ extra @ back
     \<and> (extra = [] \<or> front \<noteq> [] \<and> last front \<in> set GIT_DIFF_COMMANDS
          \<and> extra = map lit [''--no-ext-diff'', ''--no-textconv'']))"

lemma git_vector_runs: "git_runs args (git_vector args)"
proof (cases "dropWhile (starts_with (lit ''-'')) args")
  case Nil
  then show ?thesis
    unfolding git_runs_def git_vector_def by (intro exI [of _ args] exI [of _ "[]"]) (simp del: dropWhile_eq_Nil_conv)
next
  case (Cons sub rest)
  let ?front = "takeWhile (starts_with (lit ''-'')) args @ [sub]"
  have "args = ?front @ rest" using Cons takeWhile_dropWhile_id [of "starts_with (lit ''-'')" args] by simp
  then show ?thesis
    unfolding git_runs_def git_vector_def Cons
    by (intro exI [of _ ?front]
        exI [of _ "if sub \<in> set GIT_DIFF_COMMANDS then map lit [''--no-ext-diff'', ''--no-textconv''] else []"]
        exI [of _ rest]) simp
qed

definition spawned_args :: "rstr \<Rightarrow> rstr list \<Rightarrow> rstr list \<Rightarrow> bool" where
  "spawned_args program args argv \<longleftrightarrow> (if is_git_program program then git_runs args argv else argv = args)"

lemma spawned_args_simps:
  "is_git_program program \<Longrightarrow> spawned_args program args (git_vector args)"
  "\<not> is_git_program program \<Longrightarrow> spawned_args program args args"
  by (simp_all add: spawned_args_def git_vector_runs)

text \<open>C12. The approval card and the spawn are the same call: whatever the validator refuses the run refuses with the
  same error, and when a card is shown the run is either refused for a character of the program or of an argument,
  or it starts what the card names: in the card's directory (which is also its authorization target), the program
  of the card up to redundant slashes and \<open>.\<close> segments, with exactly the arguments the card lists, in their
  order (for Git, behind the fixed pins and with the two diff switches). The card shows the program and those
  arguments with secrets redacted.
\<close>

theorem card_and_spawn_agree:
  "case run_process_validator h roots input of
     Inl e \<Rightarrow> run_process_from_input h env roots input = Inl e
   | Inr shown \<Rightarrow>
       (case run_process_from_input h env roots input of
          Inl e \<Rightarrow> e \<in> {ProgramEmpty, ProgramForbidden, ProgramBackslash, ProgramDotDot, ProgramControl,
                        ProgramUnresolved, ArgumentControl}
        | Inr plan \<Rightarrow> preview_cwd shown = Some (sp_cwd plan) \<and> preview_paths shown = [sp_cwd plan]
            \<and> (\<exists>program args. Inr program = require_program input \<and> args = requested_args input
                 \<and> preview_summary shown = lit ''Run '' @ program @ lit '' with '' @ show_nat (length args) @ lit '' argument(s)''
                 \<and> preview_command shown = Some (redact_command_line (display_command_line program args))
                 \<and> sp_command plan = synthetic_command_line program args
                 \<and> sp_program plan = plain_program program
                 \<and> spawned_args program args (sp_args plan)))"
proof -
  have segments: "program_segments stack segs = Inl e \<Longrightarrow> e \<in> {ProgramDotDot, ProgramControl}" for stack segs e
    by (induction stack segs rule: program_segments.induct) (auto split: if_splits)
  have program: "sanitize_argv_program p = Inl e \<Longrightarrow> e \<in> {ProgramEmpty, ProgramForbidden, ProgramBackslash, ProgramDotDot,
      ProgramControl, ProgramUnresolved}" for p e
    using segments by (fastforce simp: sanitize_argv_program_def split: if_splits sum.splits)
  have spawned: "sanitize_argv_program p = Inr s \<Longrightarrow> s = plain_program p" for p s
    by (rule sanitize_argv_program_plain)
  have inl: "map_sum id f x = Inl e \<longleftrightarrow> x = Inl e" for f :: "rstr list \<Rightarrow> rstr list" and x :: "process_error + rstr list" and e
    by (cases x) auto
  have args: "sanitize_args as = Inl e \<Longrightarrow> e = ArgumentControl" for as e
    by (induction as rule: sanitize_args.induct) (auto simp: sanitize_argv_arg_def inl split: if_splits sum.splits)
  show ?thesis
    by (auto simp: run_process_validator_def run_process_from_input_def process_preview_def Let_def spawned_args_simps
        sanitize_args_Inr split: sum.splits dest!: program args spawned)
qed

text \<open>A project action runs what its card named: when the validator of \<open>project_build\<close> or \<open>project_test\<close> shows a
  card and the action starts, the program is \<open>cargo\<close> or \<open>make\<close>, the command line is the one of the card, the run
  is in the foreground with the five-minute deadline, and the card's targets include the build file that decided it.
\<close>

theorem project_runs_its_card:
  assumes "project_validator h roots kind input = Inr shown" and "project_action h env roots input kind = Inr plan"
  shows "sp_program plan \<in> {lit ''cargo'', lit ''make''}
    \<and> preview_command shown = Some (redact_command_line (sp_command plan))
    \<and> (\<exists>marker \<in> set (preview_paths shown). path_exists h marker)
    \<and> \<not> sp_background plan \<and> sp_timeout plan = 300"
proof -
  obtain cwd_text cwd program args marker where w: "require_cwd input = Inr cwd_text" "resolve_cwd h roots cwd_text = Inr cwd"
    "detect_project_command h cwd kind = Inr (program, args, marker)"
    and shown: "shown = (process_preview (lit ''Project '' @ kind @ lit '' in the workspace'')
        (synthetic_command_line program args) cwd)\<lparr>preview_paths := [cwd, marker]\<rparr>"
    using assms(1) by (auto simp: project_validator_def process_preview_def Let_def split: sum.splits)
  have run: "run_process_from_input h env roots (project_call program args cwd) = Inr plan"
    using assms(2) w by (simp add: project_action_def)
  have "List.map_filter as_str (map JString args) = args"
    by (induction args) (simp_all add: as_str_def)
  then have call: "require_program (project_call program args cwd) = Inr program" "requested_args (project_call program args cwd) = args"
    "run_in_background (project_call program args cwd) = False" "timeout_secs (project_call program args cwd) = 300"
    by (simp_all add: require_program_def requested_args_def timeout_secs_def run_in_background_def
        get_str_def json_get_def project_call_def lit_def as_str_def as_bool_def as_u64_def u64_max_def
        DEFAULT_TIMEOUT_SECS_def MAX_TIMEOUT_SECS_def)
  obtain program_os where p: "sanitize_argv_program program = Inr program_os" "sp_program plan = program_os"
    "sp_command plan = synthetic_command_line program args" "sp_background plan = False" "sp_timeout plan = 300"
    using run by (rule run_process_Inr) (use call in auto)
  have "program \<in> {lit ''cargo'', lit ''make''}" and marker: "path_exists h marker"
    using w(3) by (auto simp: detect_project_command_def Let_def map_sum_Inr_iff split: if_splits)
  moreover have "sanitize_argv_program (lit ''cargo'') = Inr (lit ''cargo'')" "sanitize_argv_program (lit ''make'') = Inr (lit ''make'')"
    by code_simp+
  ultimately have "sp_program plan \<in> {lit ''cargo'', lit ''make''}" using p(1,2) by auto
  then show ?thesis using p marker by (simp add: shown process_preview_def)
qed

definition cargo_workspace :: host where
  "cargo_workspace = \<lparr>path_exists = (\<lambda>p. p \<in> set (map lit [''/'', ''/w'', ''/w/Cargo.toml''])),
     canonicalize = (\<lambda>p. if p \<in> set (map lit [''/'', ''/w'', ''/w/Cargo.toml'']) then Some p else None),
     is_dir = (\<lambda>p. p \<in> set (map lit [''/'', ''/w''])), home = None\<rparr>"

lemma cargo_build_admitted:
  "validate_terminal cargo_workspace (lit ''cargo build --all-targets'') (lit ''/w'') [lit ''/w''] = Inr (lit ''/w'')"
  by code_simp

lemma cargo_cwd: "resolve_cwd cargo_workspace [lit ''/w''] (lit ''/w'') = Inr (lit ''/w'')"
  by code_simp

lemma cargo_detected:
  "detect_project_command cargo_workspace (lit ''/w'') (lit ''build'')
   = Inr (lit ''cargo'', [lit ''build'', lit ''--all-targets''], lit ''/w/Cargo.toml'')"
  by code_simp

definition project_input :: json where
  "project_input = JObject [(lit ''cwd'', JString (lit ''/w''))]"

lemma project_input_cwd: "require_cwd project_input = Inr (lit ''/w'')"
  by code_simp

theorem project_runs_its_card_witness:
  "\<exists>plan. project_action cargo_workspace no_env [lit ''/w''] project_input (lit ''build'') = Inr plan
     \<and> sp_program plan \<in> {lit ''cargo'', lit ''make''} \<and> sp_timeout plan = 300"
proof -
  let ?args = "[lit ''build'', lit ''--all-targets'']"
  have line: "synthetic_command_line (lit ''cargo'') ?args = lit ''cargo build --all-targets''" by code_simp
  have fields: "require_program (project_call (lit ''cargo'') ?args (lit ''/w'')) = Inr (lit ''cargo'')"
    "requested_args (project_call (lit ''cargo'') ?args (lit ''/w'')) = ?args"
    "require_cwd (project_call (lit ''cargo'') ?args (lit ''/w'')) = Inr (lit ''/w'')"
    "sanitize_argv_program (lit ''cargo'') = Inr (lit ''cargo'')" "sanitize_args ?args = Inr ?args"
    by code_simp+
  obtain plan where "project_action cargo_workspace no_env [lit ''/w''] project_input (lit ''build'') = Inr plan"
    by (simp add: project_action_def project_input_cwd cargo_cwd cargo_detected run_process_from_input_def fields Let_def
        line cargo_build_admitted del: sanitize_args.simps)
  moreover obtain shown where "project_validator cargo_workspace [lit ''/w''] (lit ''build'') project_input = Inr shown"
    by (simp add: project_validator_def project_input_cwd cargo_cwd cargo_detected Let_def)
  ultimately show ?thesis using project_runs_its_card by blast
qed

subsection \<open>The table as a machine\<close>

datatype process_call_step =
    RunStep nat json
  | ObserveStep child_status json
  | StopStep "int option" json

text \<open>One tool call, on the host, roots, environment and clock it meets; a report only when it succeeds and
  concerns a background child.\<close>

type_synonym process_world = "host \<times> (rstr \<Rightarrow> rstr option) \<times> rstr list \<times> instant"

fun process_step :: "process_world \<times> process_call_step \<Rightarrow> process_table \<Rightarrow> process_table \<times> process_report option" where
  "process_step ((h, env, roots, now), RunStep pid input) table =
     (case run_process_from_input h env roots input of
        Inl _ \<Rightarrow> (table, None)
      | Inr plan \<Rightarrow>
          if sp_background plan
          then (case start_background pid now plan table of (table', report) \<Rightarrow> (table', Some report))
          else (table, None))"
| "process_step ((h, env, roots, now), ObserveStep status input) table =
     (case observe_from_input status now input table of
        (table', Inl _) \<Rightarrow> (table', None) | (table', Inr report) \<Rightarrow> (table', Some report))"
| "process_step ((h, env, roots, now), StopStep code input) table =
     (case stop_from_input code input table of
        (table', Inl _) \<Rightarrow> (table', None) | (table', Inr report) \<Rightarrow> (table', Some report))"

text \<open>The protocol: a report is about an open child, and one that ends a child closes it.\<close>

fun child_protocol :: "nat set \<Rightarrow> process_report \<Rightarrow> nat set option" where
  "child_protocol open (Started pid plan) = (if sp_background plan then Some (insert pid open) else None)"
| "child_protocol open (StillRunning pid ms tracked) = (if pid \<in> open then Some open else None)"
| "child_protocol open (Finished pid code tracked) = (if pid \<in> open then Some (open - {pid}) else None)"
| "child_protocol open (Stopped pid code) = (if pid \<in> open then Some (open - {pid}) else None)"

definition admitted_child :: "tracked_process \<Rightarrow> bool" where
  "admitted_child t \<longleftrightarrow> (\<exists>h env roots input plan. run_process_from_input h env roots input = Inr plan
     \<and> sp_background plan \<and> tp_command t = sp_command plan \<and> tp_cwd t = sp_cwd plan)"

definition table_sim :: "process_table \<Rightarrow> nat set \<Rightarrow> bool" where
  "table_sim table open \<longleftrightarrow> dom table = open \<and> (\<forall>pid t. table pid = Some t \<longrightarrow> admitted_child t)"

lemma process_step_protocol:
  assumes "table_sim table open" and "process_step i table = (table', out)"
  shows "case out of None \<Rightarrow> table_sim table' open
           | Some report \<Rightarrow> \<exists>open'. child_protocol open report = Some open' \<and> table_sim table' open'"
proof -
  obtain h env roots now call where i: "i = ((h, env, roots, now), call)" by (metis surj_pair)
  show ?thesis
  proof (cases call)
    case (RunStep pid input)
    show ?thesis
    proof (cases "run_process_from_input h env roots input")
      case (Inr plan)
      then have "admitted_child \<lparr>tp_started = now, tp_command = sp_command plan, tp_cwd = sp_cwd plan\<rparr>" if "sp_background plan"
        unfolding admitted_child_def using that by (intro exI conjI) auto
      then show ?thesis using assms Inr
        by (auto simp: i RunStep start_background_def table_sim_def split: if_splits)
    qed (use assms in \<open>auto simp: i RunStep\<close>)
  next
    case (ObserveStep status input)
    then show ?thesis using assms
      by (auto simp: i observe_from_input_def table_sim_def split: sum.splits option.splits child_status.splits if_splits)
  next
    case (StopStep code input)
    then show ?thesis using assms
      by (auto simp: i stop_from_input_def table_sim_def split: sum.splits option.splits if_splits)
  qed
qed

interpretation children: monitored_machine process_step "\<lambda>_. True" table_sim child_protocol
  by unfold_locales (use process_step_protocol in \<open>fastforce\<close>)+

text \<open>C32. The agent reaches only its own children: over every sequence of process calls, from the empty table and on
  whatever hosts, roots and clocks the calls meet, each report about a child concerns one that an earlier
  admitted background run started and that no report has closed since; at the end the table holds exactly those
  children, each with the command line and directory of an admitted run.
\<close>

theorem only_own_children:
  "\<exists>open. accept child_protocol {} (events_of process_step Map.empty calls) = Some open
     \<and> dom (final_state process_step Map.empty calls) = open
     \<and> (\<forall>pid t. final_state process_step Map.empty calls pid = Some t \<longrightarrow> admitted_child t)"
proof -
  have "table_sim Map.empty {}" by (simp add: table_sim_def)
  from children.events_accepted [OF _ this, of calls] show ?thesis by (auto simp: table_sim_def list_all_iff)
qed

text \<open>A call on the example workspace: a child is started, observed, stopped, and is then unknown.\<close>

definition sample_calls :: "(process_world \<times> process_call_step) list" where
  "sample_calls =
     (let w = (one_workspace, no_env, [lit ''/w''], 0);
          pid = JObject [(lit ''pid'', JNumber (lit ''7''))]
      in [(w, RunStep 7 (process_call (lit ''cat'') [lit ''./a.txt''] True)), (w, ObserveStep Running pid),
          (w, StopStep None pid), (w, ObserveStep Running pid)])"

lemma pid_seven: "require_pid (JObject [(lit ''pid'', JNumber (lit ''7''))]) = Inr 7"
  by (simp add: require_pid_def json_get_def as_u64_def lit_def u64_max_def)

theorem only_own_children_witness:
  "length (events_of process_step Map.empty sample_calls) = 3
   \<and> accept child_protocol {} (events_of process_step Map.empty sample_calls) = Some {}"
proof -
  have ev: "events_of process_step Map.empty sample_calls
    = [Started 7 (sample_plan (lit ''cat'') [lit ''./a.txt''] [lit ''./a.txt''] [] True),
       StillRunning 7 0 \<lparr>tp_started = 0, tp_command = synthetic_command_line (lit ''cat'') [lit ''./a.txt''], tp_cwd = lit ''/w''\<rparr>,
       Stopped 7 None]"
    and closed: "final_state process_step Map.empty sample_calls = Map.empty"
    by (auto simp: sample_calls_def Let_def run_cat pid_seven start_background_def observe_from_input_def stop_from_input_def sample_plan_def)
  then show ?thesis using only_own_children [of sample_calls] by auto
qed

end
