(* ===== verification/Delivery_Route.thy ===== *)
theory Delivery_Route
  imports File_Paths
begin

section \<open>Where a finished transcript may land\<close>

text \<open>
  \<open>app/controller/delivery_route.rs\<close>, with the paste policy of \<open>core/config/types.rs\<close> and the field shapes of
  \<open>app/os/hold_badge.rs\<close>. The code makes one promise: the destination follows from the intent frozen at the
  start of a session, and what is observed at stop may only hold an automatic paste back.
\<close>

subsection \<open>Intents, facts and routes\<close>

datatype paste_mode = Safe | Comfort | Off

definition paste_mode_as_str :: "paste_mode \<Rightarrow> rstr" where
  "paste_mode_as_str m = (case m of Safe \<Rightarrow> lit ''safe'' | Comfort \<Rightarrow> lit ''comfort'' | Off \<Rightarrow> lit ''off'')"

definition from_retired_auto_paste :: "bool \<Rightarrow> paste_mode" where
  "from_retired_auto_paste enabled = (if enabled then Safe else Off)"

definition paste_mode_from_str :: "rstr \<Rightarrow> rstr + paste_mode" where
  "paste_mode_from_str value =
     (let v = to_ascii_lowercase (trim value)
      in if v = lit ''safe'' then Inr Safe
         else if v = lit ''comfort'' then Inr Comfort
         else if v = lit ''off'' then Inr Off
         else Inl value)"

datatype focused_input_field = TextField | SecureField | NotTextField | UnobservedField

definition classify_input_role :: "rstr \<Rightarrow> rstr option \<Rightarrow> focused_input_field" where
  "classify_input_role role subrole =
     (if role = lit ''AXSecureTextField'' \<or> subrole = Some (lit ''AXSecureTextField'') then SecureField
      else if role \<in> set (map lit [''AXTextArea'', ''AXTextField'', ''AXComboBox'', ''AXTextView'', ''AXWebArea''])
      then TextField else NotTextField)"

definition classify_input_capability :: "rstr \<Rightarrow> rstr option \<Rightarrow> bool \<Rightarrow> bool \<Rightarrow> focused_input_field" where
  "classify_input_capability role subrole enabled writable =
     (case classify_input_role role subrole of
        SecureField \<Rightarrow> SecureField
      | TextField \<Rightarrow> if enabled \<and> writable \<and> role \<noteq> lit ''AXWebArea'' then TextField else NotTextField
      | _ \<Rightarrow> NotTextField)"

datatype delivery_route = AgentComposer | ClipboardPaste | DeferredInsert | ArchiveOnly | ClipboardHold

datatype delivery_intent = AgentVoice | OrientDictation | OrientFormat | NotesOnly | OverlayToAgent | OverlayInsert

definition delivery_route_as_str :: "delivery_route \<Rightarrow> rstr" where
  "delivery_route_as_str r = (case r of
     AgentComposer \<Rightarrow> lit ''agent_composer'' | ClipboardPaste \<Rightarrow> lit ''clipboard_paste''
   | DeferredInsert \<Rightarrow> lit ''deferred_insert'' | ArchiveOnly \<Rightarrow> lit ''archive_only'' | ClipboardHold \<Rightarrow> lit ''clipboard_hold'')"

definition delivery_intent_as_str :: "delivery_intent \<Rightarrow> rstr" where
  "delivery_intent_as_str i = (case i of
     AgentVoice \<Rightarrow> lit ''agent_voice'' | OrientDictation \<Rightarrow> lit ''orient_dictation'' | OrientFormat \<Rightarrow> lit ''orient_format''
   | NotesOnly \<Rightarrow> lit ''notes_only'' | OverlayToAgent \<Rightarrow> lit ''overlay_to_agent'' | OverlayInsert \<Rightarrow> lit ''overlay_insert'')"

definition delivery_intent_from_session :: "bool \<Rightarrow> bool \<Rightarrow> bool \<Rightarrow> delivery_intent" where
  "delivery_intent_from_session assistive force_ai notes_save_only =
     (if notes_save_only then NotesOnly else if assistive then AgentVoice
      else if force_ai then OrientFormat else OrientDictation)"

record paste_target =
  terminal :: bool
  field :: focused_input_field

definition UNOBSERVED :: paste_target where
  "UNOBSERVED = \<lparr>terminal = False, field = UnobservedField\<rparr>"

record delivery_facts =
  has_text :: bool
  no_speech :: bool
  paste_mode :: paste_mode
  paste_target :: paste_target
  executable_payload :: bool
  overlay_enabled :: bool
  live_stream_session :: bool
  commit_required :: bool
  latched_target_is_self :: bool

record delivery_decision =
  route :: delivery_route
  reason :: rstr

definition decision :: "delivery_route \<Rightarrow> string \<Rightarrow> delivery_decision" where
  "decision r why = \<lparr>route = r, reason = lit why\<rparr>"

record transcript_projection_availability =
  can_paste :: bool
  can_insert :: bool
  can_copy :: bool
  can_retranscribe :: bool
  can_format :: bool
  can_send_to_agent :: bool

subsection \<open>The destination function\<close>

definition overlay_insert_facts :: "bool \<Rightarrow> bool \<Rightarrow> delivery_facts" where
  "overlay_insert_facts text_present is_self =
     \<lparr>has_text = text_present, no_speech = False, paste_mode = Off, paste_target = UNOBSERVED,
      executable_payload = False, overlay_enabled = True, live_stream_session = False, commit_required = False,
      latched_target_is_self = is_self\<rparr>"

definition paste_gate :: "paste_mode \<Rightarrow> paste_target \<Rightarrow> bool \<Rightarrow> delivery_decision" where
  "paste_gate mode target executable =
     (if field target = SecureField then decision ClipboardHold ''hold_secure_field''
      else if terminal target \<and> executable then decision ClipboardHold ''hold_executable''
      else if mode \<noteq> Comfort \<and> field target = NotTextField then decision ClipboardHold ''hold_no_text_field''
      else if mode \<noteq> Comfort \<and> field target = UnobservedField then decision ClipboardHold ''hold_field_unobserved''
      else decision ClipboardPaste (if mode = Comfort then ''paste_comfort'' else ''paste_safe''))"

definition orient_route :: "delivery_facts \<Rightarrow> delivery_decision" where
  "orient_route facts =
     (if paste_mode facts = Off then decision ArchiveOnly ''paste_mode_off''
      else if live_stream_session facts then decision ArchiveOnly ''live_stream_session''
      else if commit_required facts then decision ArchiveOnly ''quality_commit_pending''
      else if latched_target_is_self facts then decision DeferredInsert ''refuse_paste_into_self''
      else paste_gate (paste_mode facts) (paste_target facts) (executable_payload facts))"

definition overlay_insert_route :: "delivery_facts \<Rightarrow> delivery_decision" where
  "overlay_insert_route facts =
     (if latched_target_is_self facts then decision DeferredInsert ''refuse_paste_into_self''
      else let gate = paste_gate Comfort (paste_target facts) (executable_payload facts)
           in if route gate = ClipboardPaste then decision ClipboardPaste ''explicit_insert'' else gate)"

definition resolve_delivery_route :: "delivery_intent \<Rightarrow> delivery_facts \<Rightarrow> delivery_decision" where
  "resolve_delivery_route intent facts =
     (if \<not> has_text facts \<or> no_speech facts then decision ArchiveOnly ''empty_or_no_speech''
      else case intent of
             AgentVoice \<Rightarrow> decision AgentComposer ''assistive_first_class''
           | NotesOnly \<Rightarrow> decision ArchiveOnly ''notes_save_only''
           | OrientDictation \<Rightarrow> orient_route facts
           | OrientFormat \<Rightarrow> orient_route facts
           | OverlayToAgent \<Rightarrow> decision AgentComposer ''explicit_to_agent''
           | OverlayInsert \<Rightarrow> overlay_insert_route facts)"

definition paste_hold_notice :: "delivery_decision \<Rightarrow> rstr option" where
  "paste_hold_notice d =
     (if route d \<noteq> ClipboardHold then None
      else Some (
        if reason d = lit ''hold_executable''
        then lit ''Held: this looks like a shell command. It is waiting in Deferred Paste.''
        else if reason d = lit ''hold_secure_field''
        then lit ''Held: a password field has focus. It is waiting in Deferred Paste.''
        else if reason d = lit ''hold_no_text_field''
        then lit ''Held: no text field had focus. It is waiting in Deferred Paste.''
        else lit ''Held: Codescribe could not confirm a text field. It is waiting in Deferred Paste.''))"

definition resolve_transcript_projection_availability ::
    "bool \<Rightarrow> bool \<Rightarrow> bool \<Rightarrow> bool \<Rightarrow> bool \<Rightarrow> transcript_projection_availability" where
  "resolve_transcript_projection_availability text_present take_in_progress session_wav_exists has_latched_target is_self =
     (let insert' = route (resolve_delivery_route OverlayInsert (overlay_insert_facts text_present is_self))
      in \<lparr>can_paste = (\<not> take_in_progress \<and> has_latched_target \<and> insert' \<in> {ClipboardPaste, ClipboardHold}),
          can_insert = (\<not> take_in_progress \<and> insert' \<in> {ClipboardPaste, ClipboardHold, DeferredInsert}),
          can_copy = text_present,
          can_retranscribe = (\<not> take_in_progress \<and> session_wav_exists),
          can_format = (\<not> take_in_progress \<and> text_present),
          can_send_to_agent = (\<not> take_in_progress
            \<and> route (resolve_delivery_route OverlayToAgent (overlay_insert_facts text_present is_self)) = AgentComposer)\<rparr>)"

definition clipboard_paste_may_post :: "bool \<Rightarrow> bool \<Rightarrow> bool \<Rightarrow> bool \<Rightarrow> bool" where
  "clipboard_paste_may_post target_latched focus_confirmed target_observed_frontmost frontmost_is_external =
     (if target_latched then focus_confirmed \<or> target_observed_frontmost else frontmost_is_external)"

definition format_delivery_route_line :: "delivery_intent \<Rightarrow> delivery_decision \<Rightarrow> rstr option \<Rightarrow> rstr" where
  "format_delivery_route_line intent outcome latched_target =
     lit ''delivery_route: intent='' @ delivery_intent_as_str intent @ lit '' route='' @ delivery_route_as_str (route outcome)
     @ lit '' reason='' @ reason outcome @ lit '' target='' @ unwrap_or (lit ''-'') latched_target"

subsection \<open>Does a text look like something a shell would run?\<close>

definition TERMINAL_APPS :: "rstr list" where
  "TERMINAL_APPS = map lit
     [''Terminal'', ''iTerm2'', ''iTerm'', ''Ghostty'', ''Alacritty'', ''kitty'', ''WezTerm'', ''Warp'',
      ''Hyper'', ''Tabby'', ''Rio'', ''Wave'', ''vc-terminal'', ''VC Terminal'']"

definition is_terminal_app :: "rstr \<Rightarrow> bool" where
  "is_terminal_app app_name = list_ex (\<lambda>t. eq_ignore_ascii_case t (trim app_name)) TERMINAL_APPS"

definition COMMAND_WORDS :: "rstr list" where
  "COMMAND_WORDS = map lit
     [''sudo'', ''su'', ''doas'', ''rm'', ''rmdir'', ''mv'', ''cp'', ''ln'', ''chmod'', ''chown'',
      ''chgrp'', ''dd'', ''mkfs'', ''diskutil'', ''launchctl'', ''killall'', ''pkill'', ''curl'', ''wget'',
      ''ssh'', ''scp'', ''sftp'', ''rsync'', ''git'', ''gh'', ''brew'', ''npm'', ''npx'', ''pnpm'',
      ''yarn'', ''bun'', ''deno'', ''node'', ''pip'', ''pip3'', ''pipx'', ''uv'', ''uvx'', ''python'',
      ''python3'', ''ruby'', ''perl'', ''cargo'', ''rustup'', ''rustc'', ''docker'', ''podman'',
      ''kubectl'', ''helm'', ''terraform'', ''bash'', ''sh'', ''zsh'', ''fish'', ''eval'', ''exec'',
      ''osascript'', ''xattr'', ''codesign'', ''spctl'', ''csrutil'', ''nvram'', ''sqlite3'', ''psql'',
      ''mysql'', ''systemctl'', ''apt'', ''apt-get'', ''dnf'', ''yum'', ''tmux'', ''zellij'', ''ls'',
      ''cd'', ''mkdir'', ''grep'', ''rg'', ''sed'', ''awk'', ''tar'', ''unzip'', ''crontab'', ''shred'',
      ''xargs'', ''nohup'', ''chsh'', ''pbcopy'', ''pbpaste'', ''ps'', ''du'', ''df'']"

definition AMBIGUOUS_COMMAND_WORDS :: "rstr list" where
  "AMBIGUOUS_COMMAND_WORDS = map lit
     [''make'', ''find'', ''open'', ''kill'', ''cat'', ''echo'', ''export'', ''source'', ''set'',
      ''unset'', ''test'', ''touch'', ''top'', ''less'', ''more'', ''head'', ''tail'', ''sort'', ''cut'',
      ''date'', ''which'', ''man'', ''say'', ''type'', ''go'', ''defaults'', ''alias'', ''history'',
      ''clear'', ''exit'', ''time'', ''watch'', ''tee'', ''diff'', ''file'', ''who'']"

text \<open>The prompts \<open>$\<close>, \<open>%\<close> and the two arrow glyphs, each with a space behind.\<close>

definition PROMPT_MARKERS :: "rstr list" where
  "PROMPT_MARKERS = [[36, 32], [37, 32], [10095, 32], [10140, 32]]"

definition word_in :: "rstr list \<Rightarrow> rstr \<Rightarrow> bool" where
  "word_in words token = list_ex (\<lambda>w. eq_ignore_ascii_case w token) words"

definition is_command_word :: "rstr \<Rightarrow> bool" where
  "is_command_word token \<longleftrightarrow> word_in COMMAND_WORDS token \<or> word_in AMBIGUOUS_COMMAND_WORDS token"

definition is_digit :: "nat \<Rightarrow> bool" where
  "is_digit c \<longleftrightarrow> 48 \<le> c \<and> c \<le> 57"

definition looks_like_argument :: "rstr \<Rightarrow> bool" where
  "looks_like_argument token \<longleftrightarrow>
     list_ex (\<lambda>c. starts_with [c] token) (lit ''-/~.$'' @ [34, 39])
     \<or> list_ex (\<lambda>c. c \<in> set (lit ''=*/'')) token
     \<or> 46 \<in> set (trim_end_matches (\<lambda>c. c \<in> set (lit ''.,!?:;'')) token)
     \<or> token \<noteq> [] \<and> list_all is_digit token"

definition is_env_assignment :: "rstr \<Rightarrow> bool" where
  "is_env_assignment token =
     (case split_once 61 token of
        None \<Rightarrow> False
      | Some (name, _) \<Rightarrow> name \<noteq> [] \<and> list_all (\<lambda>c. c = 95 \<or> is_ascii_alphanumeric c) name \<and> \<not> is_digit (hd name))"

definition starts_with_command :: "rstr list \<Rightarrow> bool" where
  "starts_with_command tokens =
     (case dropWhile is_env_assignment tokens of
        [] \<Rightarrow> False
      | first # rest \<Rightarrow>
          word_in COMMAND_WORDS first
          \<or> word_in AMBIGUOUS_COMMAND_WORDS first \<and> (case rest of [] \<Rightarrow> False | next' # _ \<Rightarrow> looks_like_argument next'))"

definition command_follows :: "rstr \<Rightarrow> nat \<Rightarrow> bool" where
  "command_follows line separator =
     list_ex (\<lambda>tail. case split_whitespace tail of [] \<Rightarrow> False | first # _ \<Rightarrow> is_command_word first) (tl (split_on separator line))"

definition SHELL_CONSTRUCTS :: "rstr list" where
  "SHELL_CONSTRUCTS = map lit [''$('', ''${'', ''&&'', ''||'', ''<('', ''>>'', ''2>&1'']"

text \<open>The pieces between backticks: every second piece, from the second.\<close>

fun every_second :: "'a list \<Rightarrow> 'a list" where
  "every_second (_ # x # xs) = x # every_second xs"
| "every_second _ = []"

fun redirects_into_path :: "rstr \<Rightarrow> bool" where
  "redirects_into_path [] \<longleftrightarrow> False"
| "redirects_into_path (c # cs) \<longleftrightarrow>
     c = 62 \<and> list_ex (\<lambda>x. starts_with [x] (trim_start cs)) (lit ''/~.'') \<or> redirects_into_path cs"

definition has_shell_construct :: "rstr \<Rightarrow> bool" where
  "has_shell_construct line \<longleftrightarrow>
     list_ex (\<lambda>construct. contains construct line) SHELL_CONSTRUCTS
     \<or> list_ex (\<lambda>inside. starts_with_command (split_whitespace inside)) (every_second (split_on 96 line))
     \<or> command_follows line 124 \<or> command_follows line 59
     \<or> redirects_into_path line"

definition prompt_body :: "rstr \<Rightarrow> rstr option" where
  "prompt_body line =
     (case List.map_filter (\<lambda>marker. strip_prefix marker line) PROMPT_MARKERS of [] \<Rightarrow> None | body # _ \<Rightarrow> Some body)"

definition line_looks_executable :: "rstr \<Rightarrow> bool" where
  "line_looks_executable line \<longleftrightarrow>
     line \<noteq> []
     \<and> (case prompt_body line of
          Some body \<Rightarrow> trim body \<noteq> []
        | None \<Rightarrow> starts_with_command (split_whitespace line) \<or> has_shell_construct line)"

definition looks_executable :: "rstr \<Rightarrow> bool" where
  "looks_executable s = list_ex (\<lambda>line. line_looks_executable (trim line)) (lines s)"

subsection \<open>When a paste happens by itself\<close>

lemmas route_defs = resolve_delivery_route_def orient_route_def overlay_insert_route_def paste_gate_def decision_def

text \<open>When dictation pastes by itself: the stop path answers \<open>ClipboardPaste\<close> for an Orient intent exactly when there
  is speech text, the paste mode is not off, no live stream owns the text, no quality commit is pending, the
  overlay does not hold the caret, the field is not a password field, a terminal would not receive
  command-shaped text, and the mode is comfort or an editable text field was observed.
\<close>

theorem automatic_paste_iff:
  "route (resolve_delivery_route OrientDictation facts) = ClipboardPaste
     \<longleftrightarrow> has_text facts \<and> \<not> no_speech facts \<and> paste_mode facts \<noteq> Off \<and> \<not> live_stream_session facts
       \<and> \<not> commit_required facts \<and> \<not> latched_target_is_self facts \<and> field (paste_target facts) \<noteq> SecureField
       \<and> \<not> (terminal (paste_target facts) \<and> executable_payload facts)
       \<and> (paste_mode facts = Comfort \<or> field (paste_target facts) = TextField)
   \<and> resolve_delivery_route OrientFormat facts = resolve_delivery_route OrientDictation facts"
  by (cases "field (paste_target facts)"; cases "paste_mode facts") (auto simp: route_defs)

text \<open>Focus never picks a destination: two stops of the same session that differ only in what was observed at the
  caret (the app, the field, the shape of the text) get the same route, or one of them is an automatic paste and
  the other the same paste held back; when the canvas holds the caret nothing is ever pasted.
\<close>

theorem focus_only_holds:
  "(let r1 = route (resolve_delivery_route intent facts);
        r2 = route (resolve_delivery_route intent (facts\<lparr>paste_target := target, executable_payload := shape\<rparr>))
    in r1 = r2 \<or> {r1, r2} = {ClipboardPaste, ClipboardHold})
   \<and> \<not> (latched_target_is_self facts \<and> route (resolve_delivery_route intent facts) \<in> {ClipboardPaste, ClipboardHold})"
  by (cases intent) (auto simp: route_defs Let_def)

text \<open>What the overlay offers for a take: while the take is in progress only copying its text; afterwards inserting,
  formatting and sending it to the agent as soon as there is text, pasting only with a target latched outside
  the canvas, and transcribing again only with the recording on disk. No offer depends on today's caret.
\<close>

theorem overlay_offers:
  "resolve_transcript_projection_availability text_present in_progress wav latched is_self =
     \<lparr>can_paste = (text_present \<and> \<not> in_progress \<and> latched \<and> \<not> is_self),
      can_insert = (text_present \<and> \<not> in_progress), can_copy = text_present,
      can_retranscribe = (wav \<and> \<not> in_progress), can_format = (text_present \<and> \<not> in_progress),
      can_send_to_agent = (text_present \<and> \<not> in_progress)\<rparr>"
  by (auto simp: resolve_transcript_projection_availability_def overlay_insert_facts_def UNOBSERVED_def route_defs Let_def)

subsection \<open>Shell text and terminals\<close>

lemma word_in_chars:
  assumes "word_in words w" and "list_all (list_all (\<lambda>c. c \<noteq> x)) words" and "ascii_lower x = x" and "\<not> (97 \<le> x \<and> x \<le> 122)"
  shows "x \<notin> set w"
proof
  assume x: "x \<in> set w"
  obtain v where v: "v \<in> set words" "to_ascii_lowercase v = to_ascii_lowercase w"
    using assms(1) by (auto simp: word_in_def list_ex_iff eq_ignore_ascii_case_def)
  have "x \<in> ascii_lower ` set w" using x assms(3) by force
  then have "x \<in> ascii_lower ` set v" using v(2) by (metis list.set_map to_ascii_lowercase_def)
  then obtain y where "y \<in> set v" "ascii_lower y = x" by auto
  moreover have "y = x" using calculation(2) assms(4) by (auto simp: ascii_lower_def split: if_splits)
  ultimately show False using assms(2) v(1) by (auto simp: list_all_iff)
qed

lemma command_word_not_assignment: "word_in COMMAND_WORDS w \<Longrightarrow> \<not> is_env_assignment w"
proof -
  assume "word_in COMMAND_WORDS w"
  moreover have "list_all (list_all (\<lambda>c. c \<noteq> 61)) COMMAND_WORDS" by code_simp
  ultimately have "61 \<notin> set w" by (rule word_in_chars) (simp_all add: ascii_lower_def)
  then show ?thesis by (simp add: is_env_assignment_def split_once_None_iff [THEN iffD2])
qed

lemma trim_parts:
  obtains a b where "s = a @ trim s @ b" and "\<forall>c \<in> set a \<union> set b. is_whitespace c"
    and "trim s \<noteq> [] \<Longrightarrow> \<not> is_whitespace (hd (trim s)) \<and> \<not> is_whitespace (last (trim s))"
proof -
  define d where "d = dropWhile is_whitespace s"
  have t: "trim s = rev (dropWhile is_whitespace (rev d))" by (simp add: trim_def d_def)
  have d: "d = trim s @ rev (takeWhile is_whitespace (rev d))"
    by (metis t rev_append rev_rev_ident takeWhile_dropWhile_id)
  have s: "s = takeWhile is_whitespace s @ trim s @ rev (takeWhile is_whitespace (rev d))"
    using d d_def by (metis takeWhile_dropWhile_id)
  have ends: "\<not> is_whitespace (hd (trim s)) \<and> \<not> is_whitespace (last (trim s))" if "trim s \<noteq> []"
  proof
    have "hd (trim s) = hd d" using that d by (metis hd_append2)
    moreover have "d \<noteq> []" using that t by auto
    ultimately show "\<not> is_whitespace (hd (trim s))" by (simp add: d_def hd_dropWhile)
    show "\<not> is_whitespace (last (trim s))"
      using that unfolding t by (simp add: last_rev hd_dropWhile del: dropWhile_eq_Nil_conv)
  qed
  show thesis by (rule that [OF s _ ends]) (auto dest: set_takeWhileD)
qed

lemma trim_last: "trim s = s \<Longrightarrow> s \<noteq> [] \<Longrightarrow> \<not> is_whitespace (last s)"
  by (rule trim_parts [of s]) metis

lemma trim_Nil_ws: "trim s = [] \<Longrightarrow> \<forall>c \<in> set s. is_whitespace c"
  by (rule trim_parts [of s]) (metis UnI1 UnI2 Un_iff append_Nil set_append)

text \<open>After a prompt a trimmed line goes on.\<close>

lemma prompt_goes_on: "trim line = line \<Longrightarrow> prompt_body line = Some body \<Longrightarrow> trim body \<noteq> []"
proof
  assume l: "trim line = line" and p: "prompt_body line = Some body" and b: "trim body = []"
  obtain marker where m: "marker \<in> set PROMPT_MARKERS" "line = marker @ body"
  proof -
    have "body \<in> set (List.map_filter (\<lambda>marker. strip_prefix marker line) PROMPT_MARKERS)"
      using p by (auto simp: prompt_body_def split: list.splits)
    then obtain marker where "marker \<in> set PROMPT_MARKERS" "strip_prefix marker line = Some body"
      by (auto simp: map_filter_def)
    then show thesis using that by (auto simp: strip_prefix_def starts_with_iff split: if_splits)
  qed
  have "is_whitespace (last marker)" using m(1) by (auto simp: PROMPT_MARKERS_def is_whitespace_def)
  then have "is_whitespace (last line)"
    using trim_Nil_ws [OF b] m(2) by (cases "body = []") auto
  moreover have "line \<noteq> []" using m by (auto simp: PROMPT_MARKERS_def)
  ultimately show False using trim_last [OF l] by blast
qed

text \<open>A line that names a command first, chains into one, or holds a construct a shell expands.\<close>

definition shell_line :: "rstr \<Rightarrow> bool" where
  "shell_line line \<longleftrightarrow>
     list_ex (\<lambda>construct. contains construct line) SHELL_CONSTRUCTS
     \<or> (case split_whitespace line of [] \<Rightarrow> False | first # _ \<Rightarrow> word_in COMMAND_WORDS first)
     \<or> command_follows line 124 \<or> command_follows line 59"

lemma shell_line_executable:
  assumes "trim line = line" and "shell_line line"
  shows "line_looks_executable line"
proof -
  have "line \<noteq> []"
    using assms(2) by (auto simp: shell_line_def SHELL_CONSTRUCTS_def lit_def command_follows_def split_whitespace_scan)
  moreover have "starts_with_command (split_whitespace line) \<or> has_shell_construct line"
    using assms(2) command_word_not_assignment
    by (auto simp: shell_line_def has_shell_construct_def starts_with_command_def split: list.splits)
  ultimately show ?thesis using prompt_goes_on [OF assms(1)] by (auto simp: line_looks_executable_def split: option.split)
qed

lemma trim_idem [simp]: "trim (trim s) = trim s"
proof (rule trim_parts [of s])
  fix a b
  assume ends: "trim s \<noteq> [] \<Longrightarrow> \<not> is_whitespace (hd (trim s)) \<and> \<not> is_whitespace (last (trim s))"
  show ?thesis
  proof (cases "trim s = []")
    case False
    then obtain x xs where x: "trim s = x # xs" "\<not> is_whitespace x" using ends by (cases "trim s") auto
    obtain ys y where y: "trim s = ys @ [y]" "\<not> is_whitespace y" using ends False by (cases "trim s" rule: rev_cases) auto
    have "dropWhile is_whitespace (trim s) = trim s" using x by simp
    moreover have "dropWhile is_whitespace (rev (trim s)) = rev (trim s)" using y by simp
    ultimately show ?thesis by (metis rev_rev_ident trim_def)
  next
    case True
    moreover have "trim [] = []" by (simp add: trim_def)
    ultimately show ?thesis by simp
  qed
qed

text \<open>Text judged to be a shell line is not pasted into a terminal: when the caret is in a terminal and one line of
  the judged text names a command first (in any case), pipes or chains into one, or holds a construct a shell
  expands, no intent leads to a paste, whatever the mode and the other facts are. The text that is judged is the
  transcript before its delivery markers are removed, not the text that is pasted (\<open>judged_before_rendering\<close> in
  \<open>Delivery_Text\<close>).
\<close>

theorem shell_text_never_pasted_in_terminal:
  assumes "terminal (paste_target facts)" and "executable_payload facts = looks_executable payload"
    and "line \<in> set (lines payload)" and "shell_line (trim line)"
  shows "route (resolve_delivery_route intent facts) \<noteq> ClipboardPaste"
proof -
  have "line_looks_executable (trim line)" by (rule shell_line_executable) (simp_all add: assms(4))
  then have "executable_payload facts" using assms(2,3) by (auto simp: looks_executable_def list_ex_iff)
  with assms(1) show ?thesis by (cases intent) (auto simp: route_defs Let_def)
qed

theorem shell_text_never_pasted_in_terminal_witness:
  "route (resolve_delivery_route OrientDictation
     \<lparr>has_text = True, no_speech = False, paste_mode = Comfort, paste_target = \<lparr>terminal = True, field = TextField\<rparr>,
      executable_payload = looks_executable (lit ''Git push''), overlay_enabled = True, live_stream_session = False,
      commit_required = False, latched_target_is_self = False\<rparr>) \<noteq> ClipboardPaste"
proof (rule shell_text_never_pasted_in_terminal)
  show "lit ''Git push'' \<in> set (lines (lit ''Git push''))" by code_simp
  show "shell_line (trim (lit ''Git push''))" by code_simp
qed simp_all

text \<open>A stored mode is read back, and nothing else is read as a mode.\<close>

lemma paste_mode_round_trip:
  "paste_mode_from_str (paste_mode_as_str m) = Inr m"
  "paste_mode_from_str v = Inr m \<Longrightarrow> to_ascii_lowercase (trim v) = paste_mode_as_str m"
proof -
  have "paste_mode_from_str (paste_mode_as_str Safe) = Inr Safe" "paste_mode_from_str (paste_mode_as_str Comfort) = Inr Comfort"
    "paste_mode_from_str (paste_mode_as_str Off) = Inr Off" by code_simp+
  then show "paste_mode_from_str (paste_mode_as_str m) = Inr m" by (cases m) simp_all
  show "paste_mode_from_str v = Inr m \<Longrightarrow> to_ascii_lowercase (trim v) = paste_mode_as_str m"
    by (auto simp: paste_mode_from_str_def paste_mode_as_str_def Let_def split: if_splits)
qed

end
