(* ===== verification/Delivery_Text.thy ===== *)
theory Delivery_Text
  imports Delivery_Route
begin

section \<open>The text that leaves codescribe\<close>

text \<open>
  What is done to a transcript on its way to another application: writer's quotes
  (\<open>core/util/typographic_quotes.rs\<close>), the removal of the context bucket's markers
  (\<open>app/controller/context_bucket.rs\<close>), the configured tag (\<open>core/transcript_tagging.rs\<close>) and their order
  (\<open>app/controller/transcript_delivery.rs\<close>, \<open>render\<close>). The confidence label of a take is an argument: the
  floating-point average behind it is not modelled.
\<close>

subsection \<open>Writer's quotes\<close>

datatype quote_style = Polish | English

definition for_language :: "rstr option \<Rightarrow> quote_style option" where
  "for_language tag =
     (case tag of
        None \<Rightarrow> None
      | Some t \<Rightarrow>
          let t = trim t
          in if t = [] \<or> eq_ignore_ascii_case t (lit ''auto'') then None
             else Some (if to_ascii_lowercase (takeWhile (\<lambda>c. c \<noteq> 45 \<and> c \<noteq> 95) t) = lit ''pl'' then Polish else English))"

definition polish_letters :: "nat list" where
  "polish_letters = [261, 263, 281, 322, 324, 243, 347, 378, 380, 260, 262, 280, 321, 323, 211, 346, 377, 379]"

definition guess_style :: "rstr \<Rightarrow> quote_style" where
  "guess_style s = (if list_ex (\<lambda>c. c \<in> set polish_letters) s then Polish else English)"

text \<open>The opening and the closing mark.\<close>

definition quote_pair :: "quote_style \<Rightarrow> nat \<times> nat" where
  "quote_pair style = (case style of Polish \<Rightarrow> (8222, 8221) | English \<Rightarrow> (8220, 8221))"

text \<open>The pieces outside backticks: every second piece, from the first.\<close>

fun prose_pieces :: "'a list \<Rightarrow> 'a list" where
  "prose_pieces (x # _ # xs) = x # prose_pieces xs"
| "prose_pieces xs = xs"

fun quote_chars :: "nat \<times> nat \<Rightarrow> nat \<Rightarrow> nat \<Rightarrow> rstr \<Rightarrow> rstr \<times> nat" where
  "quote_chars marks paired seen [] = ([], seen)"
| "quote_chars marks paired seen (c # cs) =
     (if c = 34 \<and> seen < paired
      then (case quote_chars marks paired (Suc seen) cs of
              (out, seen') \<Rightarrow> ((if even seen then fst marks else snd marks) # out, seen'))
      else (case quote_chars marks paired seen cs of (out, seen') \<Rightarrow> (c # out, seen')))"

fun convert_segments :: "nat \<times> nat \<Rightarrow> nat \<Rightarrow> nat \<Rightarrow> bool \<Rightarrow> rstr list \<Rightarrow> rstr" where
  "convert_segments marks paired seen in_code [] = []"
| "convert_segments marks paired seen in_code (seg # segs) =
     (if in_code then 96 # seg @ 96 # convert_segments marks paired seen False segs
      else (case quote_chars marks paired seen seg of
              (out, seen') \<Rightarrow> out @ convert_segments marks paired seen' True segs))"

definition straight_quotes :: "rstr \<Rightarrow> nat" where
  "straight_quotes s = length (filter (\<lambda>c. c = 34) s)"

definition convert_line :: "nat \<times> nat \<Rightarrow> rstr \<Rightarrow> rstr" where
  "convert_line marks line =
     (let segs = split_on 96 line;
          total = (\<Sum>p\<leftarrow>prose_pieces segs. straight_quotes p);
          out = convert_segments marks (total - total mod 2) 0 False segs
      in if length (filter (\<lambda>c. c = 96) line) mod 2 = 1 then butlast out else out)"

fun quote_lines :: "nat \<times> nat \<Rightarrow> bool \<Rightarrow> rstr list \<Rightarrow> rstr list" where
  "quote_lines marks in_fence [] = []"
| "quote_lines marks in_fence (line # ls) =
     (if starts_with [96, 96, 96] (trim_start line) then line # quote_lines marks (\<not> in_fence) ls
      else (if in_fence then line else convert_line marks line) # quote_lines marks in_fence ls)"

definition typographic_quotes :: "rstr \<Rightarrow> quote_style \<Rightarrow> rstr" where
  "typographic_quotes s style = join_with [10] (quote_lines (quote_pair style) False (split_on 10 s))"

definition writer_quotes_for_paste :: "rstr \<Rightarrow> rstr \<Rightarrow> rstr" where
  "writer_quotes_for_paste s whisper_language =
     typographic_quotes s (unwrap_or (guess_style s) (for_language (Some whisper_language)))"

subsection \<open>Context markers\<close>

text \<open>The length of a marker at the start of a text that opens with a brace.\<close>

definition marker_end_for :: "rstr \<Rightarrow> rstr \<Rightarrow> nat option" where
  "marker_end_for candidate prefix =
     (case Option.bind (strip_prefix (lit ''{'') candidate) (strip_prefix prefix) of
        None \<Rightarrow> None
      | Some digits \<Rightarrow>
          let count = length (takeWhile is_digit digits)
          in if digits \<noteq> [] \<and> 49 \<le> hd digits \<and> hd digits \<le> 57 \<and> take 1 (drop count digits) = lit ''}''
             then Some (1 + length prefix + count + 1) else None)"

definition marker_end :: "rstr \<Rightarrow> nat option" where
  "marker_end candidate = option_or (marker_end_for candidate (lit ''selection_'')) (marker_end_for candidate (lit ''image_''))"

lemma marker_end_positive: "marker_end candidate = Some n \<Longrightarrow> 0 < n"
  by (auto simp: marker_end_def marker_end_for_def option_or_eq_Some Let_def split: option.splits if_splits)

function strip_loop :: "rstr \<Rightarrow> rstr \<Rightarrow> rstr" where
  "strip_loop result rest =
     (case dropWhile (\<lambda>c. c \<noteq> 123) rest of
        [] \<Rightarrow> result @ rest
      | brace # behind \<Rightarrow>
          let result = result @ takeWhile (\<lambda>c. c \<noteq> 123) rest
          in case marker_end (brace # behind) of
               None \<Rightarrow> strip_loop (result @ [123]) behind
             | Some n \<Rightarrow>
                 let space_before = result \<noteq> [] \<and> is_whitespace (last result);
                     result = (if space_before then trim_end_matches is_whitespace result else result);
                     rest' = drop n (brace # behind);
                     space_after = rest' \<noteq> [] \<and> is_whitespace (hd rest');
                     rest' = (if space_after then trim_start rest' else rest')
                 in strip_loop (if (space_before \<or> space_after) \<and> result \<noteq> [] \<and> rest' \<noteq> [] then result @ [32] else result) rest')"
  by pat_completeness auto
termination
proof (relation "measure (\<lambda>(result, rest). length rest)", goal_cases)
  case (2 result rest brace behind result')
  then show ?case using length_dropWhile_le [of "\<lambda>c. c \<noteq> 123" rest] by simp
next
  case (3 result rest brace behind result' n sb result'' rest1 sa rest2)
  have "length rest2 \<le> length rest1" using 3 length_dropWhile_le [of is_whitespace rest1] by (simp add: trim_start_def)
  moreover have "length rest1 < length (brace # behind)"
    using 3 marker_end_positive by (metis diff_less length_drop length_greater_0_conv list.distinct(1))
  ultimately show ?case using 3 length_dropWhile_le [of "\<lambda>c. c \<noteq> 123" rest] by simp
qed simp

declare strip_loop.simps [simp del]

definition strip_markers_for_delivery :: "rstr \<Rightarrow> rstr" where
  "strip_markers_for_delivery s = strip_loop [] s"

subsection \<open>The tag and the whole way out\<close>

text \<open>\<open>str::replace\<close> for a pattern that is not empty.\<close>

function str_replace :: "rstr \<Rightarrow> rstr \<Rightarrow> rstr \<Rightarrow> rstr" where
  "str_replace pat by' [] = []"
| "str_replace pat by' (c # cs) =
     (if pat \<noteq> [] \<and> starts_with pat (c # cs) then by' @ str_replace pat by' (drop (length pat) (c # cs))
      else c # str_replace pat by' cs)"
  by pat_completeness auto
termination
  by (relation "measure (\<lambda>(_, _, s). length s)") (auto simp: neq_Nil_conv)

definition wrap_transcript_with_quality :: "rstr \<Rightarrow> rstr \<Rightarrow> rstr \<Rightarrow> rstr \<Rightarrow> rstr \<Rightarrow> rstr list \<Rightarrow> rstr" where
  "wrap_transcript_with_quality body template mode lang confidence flags =
     (if trim body = [] then []
      else let rendered = str_replace (lit ''{flags}'') (join_with (lit '','') flags)
                 (str_replace (lit ''{conf}'') confidence
                   (str_replace (lit ''{lang}'') lang (str_replace (lit ''{mode}'') mode template)))
           in if contains (lit ''{text}'') rendered then str_replace (lit ''{text}'') body rendered
              else (if rendered \<noteq> [] \<and> \<not> ends_with [10] rendered then rendered @ [10] else rendered) @ body)"

record delivery_config =
  transcript_tagging_enabled :: bool
  transcript_tag_template :: rstr
  whisper_language :: rstr

record delivery_metadata =
  dm_mode :: "rstr option"
  dm_language :: "rstr option"
  dm_confidence :: rstr
  dm_flags :: "rstr list"

definition render :: "delivery_metadata \<Rightarrow> rstr \<Rightarrow> delivery_config \<Rightarrow> rstr option \<Rightarrow> rstr" where
  "render metadata body config mode_override =
     (let to_agent = (mode_override = Some (lit ''agent''));
          outward = (if to_agent then body
                     else writer_quotes_for_paste (strip_markers_for_delivery body) (whisper_language config));
          trimmed = trim outward
      in if trimmed = [] \<or> to_agent \<or> \<not> transcript_tagging_enabled config then trimmed
         else wrap_transcript_with_quality trimmed (transcript_tag_template config)
                (unwrap_or (lit ''unknown'') (option_or mode_override (dm_mode metadata)))
                (unwrap_or (whisper_language config) (dm_language metadata)) (dm_confidence metadata) (dm_flags metadata))"

subsection \<open>Quotes change quotes only\<close>

definition quote_only :: "nat \<times> nat \<Rightarrow> rstr \<Rightarrow> rstr \<Rightarrow> bool" where
  "quote_only marks s out \<longleftrightarrow> list_all2 (\<lambda>a b. b = a \<or> a = 34 \<and> (b = fst marks \<or> b = snd marks)) s out"

lemma quote_only_append: "quote_only m s out \<Longrightarrow> quote_only m s' out' \<Longrightarrow> quote_only m (s @ s') (out @ out')"
  by (simp add: quote_only_def list_all2_appendI)

lemma quote_only_refl: "quote_only m s s"
  by (simp add: quote_only_def list_all2_refl)

lemma quote_only_join:
  "list_all2 (quote_only m) ps qs \<Longrightarrow> quote_only m (join_with sep ps) (join_with sep qs)"
proof (induction ps qs rule: list_all2_induct)
  case (Cons p ps q qs)
  then show ?case
    by (cases "ps = []") (auto simp: join_with_Cons intro!: quote_only_append quote_only_refl)
qed (simp add: quote_only_refl)

text \<open>The converted pieces, and the text \<open>convert_segments\<close> builds from them.\<close>

fun converted_pieces :: "nat \<times> nat \<Rightarrow> nat \<Rightarrow> nat \<Rightarrow> bool \<Rightarrow> rstr list \<Rightarrow> rstr list" where
  "converted_pieces marks paired seen in_code [] = []"
| "converted_pieces marks paired seen in_code (seg # segs) =
     (if in_code then seg # converted_pieces marks paired seen False segs
      else fst (quote_chars marks paired seen seg)
           # converted_pieces marks paired (snd (quote_chars marks paired seen seg)) True segs)"

lemma length_converted [simp]: "length (converted_pieces m p seen in_code segs) = length segs"
  by (induction segs arbitrary: seen in_code) simp_all

lemma converted_Nil [simp]: "converted_pieces m p seen in_code segs = [] \<longleftrightarrow> segs = []"
  by (cases segs) simp_all

lemma quote_chars_only: "quote_only marks seg (fst (quote_chars marks paired seen seg))"
  by (induction marks paired seen seg rule: quote_chars.induct) (auto simp: quote_only_def case_prod_beta)

lemma converted_only: "list_all2 (quote_only m) segs (converted_pieces m p seen in_code segs)"
  by (induction segs arbitrary: seen in_code) (auto simp: quote_chars_only quote_only_refl)

lemma convert_segments_pieces:
  "segs \<noteq> [] \<Longrightarrow> convert_segments m p seen in_code segs =
     (if in_code then [96] else []) @ join_with [96] (converted_pieces m p seen in_code segs)
     @ (if in_code = odd (length segs) then [96] else [])"
proof (induction segs arbitrary: seen in_code)
  case (Cons seg segs)
  show ?case
  proof (cases "segs = []")
    case True
    then show ?thesis by (auto simp: case_prod_beta)
  next
    case False
    then show ?thesis
      by (simp add: Cons.IH [OF False] case_prod_beta join_with_Cons)
  qed
qed simp

lemma length_split_on: "length (split_on d s) = Suc (length (filter (\<lambda>c. c = d) s))"
  by (induction s) (auto split: list.splits)

lemma convert_line_pieces:
  "convert_line marks line = join_with [96] (converted_pieces marks
     ((\<Sum>p\<leftarrow>prose_pieces (split_on 96 line). straight_quotes p)
      - (\<Sum>p\<leftarrow>prose_pieces (split_on 96 line). straight_quotes p) mod 2) 0 False (split_on 96 line))"
proof (cases "even (length (filter (\<lambda>c. c = 96) line))")
  case True
  then have "\<not> length (filter (\<lambda>c. c = 96) line) mod 2 = 1" by presburger
  then show ?thesis using True by (simp add: convert_line_def Let_def convert_segments_pieces length_split_on)
next
  case False
  then have "length (filter (\<lambda>c. c = 96) line) mod 2 = 1" by presburger
  then show ?thesis using False
    by (simp add: convert_line_def Let_def convert_segments_pieces length_split_on butlast_append)
qed

lemma convert_line_only: "quote_only marks line (convert_line marks line)"
proof -
  have "quote_only marks (join_with [96] (split_on 96 line)) (convert_line marks line)"
    unfolding convert_line_pieces by (rule quote_only_join [OF converted_only])
  then show ?thesis by (simp add: join_split_on)
qed

lemma quote_lines_only: "list_all2 (quote_only marks) ls (quote_lines marks in_fence ls)"
  by (induction marks in_fence ls rule: quote_lines.induct) (auto simp: quote_only_refl convert_line_only)

text \<open>Writer's quotes change quotes only: the pasted text has the same characters in the same places as the
  transcript, except that a straight double quote may have become the opening or the closing mark of the style;
  nothing is inserted, dropped or moved, in code or outside.
\<close>

theorem quotes_change_only_quotes:
  "list_all2 (\<lambda>a b. b = a \<or> a = 34 \<and> (b = fst (quote_pair style) \<or> b = snd (quote_pair style)))
     s (typographic_quotes s style)"
proof -
  have "quote_only (quote_pair style) (join_with [10] (split_on 10 s)) (typographic_quotes s style)"
    unfolding typographic_quotes_def by (rule quote_only_join [OF quote_lines_only])
  then show ?thesis by (simp add: join_split_on quote_only_def)
qed

lemma pair_marks [simp]: "fst (quote_pair style) \<noteq> 34" "snd (quote_pair style) \<noteq> 34"
  "fst (quote_pair style) \<noteq> 96" "snd (quote_pair style) \<noteq> 96"
  by (cases style; simp add: quote_pair_def)+

lemma quote_chars_count:
  assumes "fst marks \<noteq> 34" and "snd marks \<noteq> 34"
  shows "straight_quotes (fst (quote_chars marks paired seen seg)) = straight_quotes seg - min (straight_quotes seg) (paired - seen)"
    and "snd (quote_chars marks paired seen seg) = seen + min (straight_quotes seg) (paired - seen)"
  using assms
  by (induction marks paired seen seg rule: quote_chars.induct) (auto simp: straight_quotes_def case_prod_beta min_def)

lemma quote_only_set: "quote_only m s out \<Longrightarrow> set out \<subseteq> set s \<union> {fst m, snd m}"
  unfolding quote_only_def by (induction s out rule: list_all2_induct) auto

lemma converted_code: "every_second (converted_pieces m p seen False segs) = every_second segs"
  by (induction segs arbitrary: seen rule: prose_pieces.induct) simp_all

lemma min_budget: "(a - min a (p - seen)) + (b - min b (p - (seen + min a (p - seen)))) = a + b - min (a + b) (p - seen)"
  for a b p seen :: nat
proof (cases "a \<le> p - seen")
  case True
  have "b - min b k = a + b - min (a + b) (a + k)" for k :: nat by (simp add: min_def)
  moreover have "p - seen = a + (p - (seen + a))" using True by simp
  ultimately show ?thesis using True by (metis add_diff_cancel_left' diff_add_inverse2 diff_self_eq_0 min.absorb1 plus_nat.add_0)
next
  case False
  then show ?thesis by (simp add: min_def)
qed

lemma converted_count:
  assumes "fst m \<noteq> 34" and "snd m \<noteq> 34"
  shows "(\<Sum>q\<leftarrow>prose_pieces (converted_pieces m p seen False segs). straight_quotes q)
    = (\<Sum>q\<leftarrow>prose_pieces segs. straight_quotes q) - min (\<Sum>q\<leftarrow>prose_pieces segs. straight_quotes q) (p - seen)"
proof (induction segs arbitrary: seen rule: prose_pieces.induct)
  case (1 x y xs)
  show ?case by (simp add: quote_chars_count [OF assms] "1.IH" min_budget)
qed (simp_all add: quote_chars_count [OF assms])

text \<open>Code keeps its programmer's quotes and prose keeps none it could pair: in every converted line the pieces
  between backticks are untouched, and outside them no straight double quote is left but the last one of an odd
  number.
\<close>

theorem code_keeps_its_quotes:
  "every_second (split_on 96 (convert_line (quote_pair style) line)) = every_second (split_on 96 line)
   \<and> (\<Sum>p\<leftarrow>prose_pieces (split_on 96 (convert_line (quote_pair style) line)). straight_quotes p)
     = (\<Sum>p\<leftarrow>prose_pieces (split_on 96 line). straight_quotes p) mod 2"
proof -
  define total where "total = (\<Sum>p\<leftarrow>prose_pieces (split_on 96 line). straight_quotes p)"
  let ?pieces = "converted_pieces (quote_pair style) (total - total mod 2) 0 False (split_on 96 line)"
  have "\<forall>p \<in> set ?pieces. 96 \<notin> set p"
  proof
    fix q assume "q \<in> set ?pieces"
    then obtain p where "p \<in> set (split_on 96 line)" "quote_only (quote_pair style) p q"
      using converted_only [of "quote_pair style" "split_on 96 line" "total - total mod 2" 0 False]
      by (metis (no_types, lifting) in_set_conv_nth list_all2_conv_all_nth)
    from split_on_no_sep [OF this(1)] quote_only_set [OF this(2)] show "96 \<notin> set q"
      using pair_marks(3,4) [of style] by auto
  qed
  then have "split_on 96 (convert_line (quote_pair style) line) = ?pieces"
    unfolding convert_line_pieces total_def [symmetric] by (intro split_on_join_with) auto
  moreover have "total - min total (total - total mod 2) = total mod 2"
  proof -
    have "total mod 2 \<le> total" by (rule mod_less_eq_dividend)
    then show ?thesis by linarith
  qed
  ultimately show ?thesis by (simp add: converted_code converted_count flip: total_def)
qed

subsection \<open>Markers\<close>

text \<open>The text from each opening brace on.\<close>

fun brace_suffixes :: "rstr \<Rightarrow> rstr list" where
  "brace_suffixes [] = []"
| "brace_suffixes (c # cs) = (if c = 123 then [c # cs] else []) @ brace_suffixes cs"

lemma brace_suffixes_drop: "set (brace_suffixes (drop n s)) \<subseteq> set (brace_suffixes s)"
proof (induction s arbitrary: n)
  case (Cons c cs)
  then show ?case by (cases n) auto
qed simp

lemma brace_suffixes_split:
  "brace_suffixes s = brace_suffixes (dropWhile (\<lambda>c. c \<noteq> 123) s)"
  by (induction s) auto

lemma brace_suffixes_trim: "set (brace_suffixes (trim_start s)) \<subseteq> set (brace_suffixes s)"
  by (metis brace_suffixes_drop dropWhile_eq_drop trim_start_def)

lemma strip_loop_untouched:
  "list_all (\<lambda>b. marker_end b = None) (brace_suffixes rest) \<Longrightarrow> strip_loop result rest = result @ rest"
proof (induction result rest rule: strip_loop.induct)
  case (1 result rest)
  show ?case
  proof (cases "dropWhile (\<lambda>c. c \<noteq> 123) rest")
    case Nil
    then show ?thesis by (subst strip_loop.simps) (simp del: dropWhile_eq_Nil_conv)
  next
    case (Cons brace behind)
    have brace: "brace = 123" using Cons by (metis (mono_tags, lifting) hd_dropWhile list.distinct(1) list.sel(1))
    have none: "marker_end (brace # behind) = None" "list_all (\<lambda>b. marker_end b = None) (brace_suffixes behind)"
      using "1.prems" brace_suffixes_split [of rest] by (simp_all add: Cons brace)
    have "strip_loop result rest = (result @ takeWhile (\<lambda>c. c \<noteq> 123) rest @ [123]) @ behind"
      using "1.IH"(1) [OF Cons refl none(1) none(2)] by (subst strip_loop.simps) (simp add: Cons none(1))
    also have "\<dots> = result @ rest"
      using takeWhile_dropWhile_id [of "\<lambda>c. c \<noteq> 123" rest] by (simp add: Cons brace)
    finally show ?thesis .
  qed
qed

lemma strip_loop_removes:
  "list_all (\<lambda>b. marker_end b \<noteq> None) (brace_suffixes rest) \<Longrightarrow> 123 \<notin> set result \<Longrightarrow> 123 \<notin> set (strip_loop result rest)"
proof (induction result rest rule: strip_loop.induct)
  case (1 result rest)
  show ?case
  proof (cases "dropWhile (\<lambda>c. c \<noteq> 123) rest")
    case Nil
    moreover from this have "123 \<notin> set rest" by (auto simp: dropWhile_eq_Nil_conv)
    ultimately show ?thesis using "1.prems"(2) by (subst strip_loop.simps) (simp del: dropWhile_eq_Nil_conv)
  next
    case (Cons brace behind)
    have brace: "brace = 123" using Cons by (metis (mono_tags, lifting) hd_dropWhile list.distinct(1) list.sel(1))
    have suffixes: "list_all (\<lambda>b. marker_end b \<noteq> None) (brace_suffixes (brace # behind))"
      using "1.prems"(1) brace_suffixes_split [of rest] by (simp add: Cons)
    then obtain n where n: "marker_end (brace # behind) = Some n" by (auto simp: brace)
    let ?r = "result @ takeWhile (\<lambda>c. c \<noteq> 123) rest"
    have r: "123 \<notin> set ?r" "123 \<notin> set (trim_end_matches is_whitespace ?r)"
      using "1.prems"(2) set_trim_end_matches [of is_whitespace ?r] by (auto dest: set_takeWhileD)
    have "set (brace_suffixes (drop n (brace # behind))) \<subseteq> set (brace_suffixes (brace # behind))"
      "set (brace_suffixes (trim_start (drop n (brace # behind)))) \<subseteq> set (brace_suffixes (brace # behind))"
      using brace_suffixes_drop [of n "brace # behind"] brace_suffixes_trim [of "drop n (brace # behind)"] by blast+
    then have rest': "list_all (\<lambda>b. marker_end b \<noteq> None) (brace_suffixes (drop n (brace # behind)))"
      "list_all (\<lambda>b. marker_end b \<noteq> None) (brace_suffixes (trim_start (drop n (brace # behind))))"
      using suffixes by (auto simp: list_all_iff)
    show ?thesis
      apply (subst strip_loop.simps)
      apply (simp only: Cons list.case n option.case Let_def)
      apply (rule "1.IH"(2) [OF Cons refl n refl refl refl refl refl])
      using r rest' by (auto split: if_splits)
  qed
qed

text \<open>Only markers leave the text: a text in which no brace opens a marker of the bucket is delivered as it is, and
  when every brace opens one, no brace is left.
\<close>

theorem strip_removes_markers_only:
  "(list_all (\<lambda>b. marker_end b = None) (brace_suffixes s) \<longrightarrow> strip_markers_for_delivery s = s)
   \<and> (list_all (\<lambda>b. marker_end b \<noteq> None) (brace_suffixes s) \<longrightarrow> 123 \<notin> set (strip_markers_for_delivery s))"
  by (simp add: strip_markers_for_delivery_def strip_loop_untouched strip_loop_removes)

theorem strip_removes_markers_only_witness:
  "strip_markers_for_delivery (lit ''{name} typed'') = lit ''{name} typed''
   \<and> 123 \<notin> set (strip_markers_for_delivery (lit ''bard{selection_1}zo {image_12} x''))"
proof -
  have "list_all (\<lambda>b. marker_end b = None) (brace_suffixes (lit ''{name} typed''))"
    "list_all (\<lambda>b. marker_end b \<noteq> None) (brace_suffixes (lit ''bard{selection_1}zo {image_12} x''))"
    by code_simp+
  with strip_removes_markers_only [of "lit ''{name} typed''"]
    strip_removes_markers_only [of "lit ''bard{selection_1}zo {image_12} x''"]
  show ?thesis by blast
qed

text \<open>A marker inside a marker survives: removing the inner one joins the halves of the outer one, so the delivered
  text is again a marker of the bucket.
\<close>

theorem nested_marker_survives:
  "strip_markers_for_delivery (lit ''{selec{selection_1}tion_2}'') = lit ''{selection_2}''
   \<and> marker_end (strip_markers_for_delivery (lit ''{selec{selection_1}tion_2}'')) = Some 13"
  by code_simp

text \<open>The paste gate judges the transcript, the sink receives the rendered text: a marker in front of a command
  hides the command from the gate and is gone from what is pasted.
\<close>

lemma judged_before_rendering:
  "\<not> looks_executable (lit ''{selection_1} git push'')"
  "trim (strip_markers_for_delivery (lit ''{selection_1} git push'')) = lit ''git push''"
  "looks_executable (lit ''git push'')"
  by code_simp+

subsection \<open>The tag never costs a word\<close>

lemma contains_append: "contains p s \<Longrightarrow> contains p (a @ s @ b)"
  unfolding contains_iff by (metis append_assoc)

lemma contains_replaced: "pat \<noteq> [] \<Longrightarrow> contains pat s \<Longrightarrow> contains by' (str_replace pat by' s)"
proof (induction pat by' s rule: str_replace.induct)
  case (2 pat by' c cs)
  show ?case
  proof (cases "starts_with pat (c # cs)")
    case True
    then show ?thesis using "2.prems"(1) contains_append [of by' by' "[]"] by (simp add: contains_iff) blast
  next
    case False
    then have "contains by' (str_replace pat by' cs)" using "2.IH"(2) "2.prems" by auto
    then show ?thesis using False contains_append [of by' _ "[c]" "[]"] by simp
  qed
qed simp

text \<open>The tag never costs a word: on the agent route the text arrives as it was, trimmed; on every other route,
  whatever the tag template is, the delivered text contains the whole trimmed text that one pass over the
  markers leaves, with its quotes set.
\<close>

theorem render_keeps_words:
  "render metadata body config (Some (lit ''agent'')) = trim body
   \<and> (mode = Some (lit ''agent'')
      \<or> contains (trim (writer_quotes_for_paste (strip_markers_for_delivery body) (whisper_language config)))
          (render metadata body config mode))"
proof -
  have self: "contains s s" for s by (simp add: contains_iff) (metis append_Nil append_Nil2)
  have wrap: "contains t (wrap_transcript_with_quality t template m l c flags)" if "trim t \<noteq> []" for t template m l c flags
  proof -
    have "lit ''{text}'' \<noteq> []" by (simp add: lit_def)
    then show ?thesis
      using that contains_replaced contains_append [OF self [of t], of _ "[]"]
      by (auto simp: wrap_transcript_with_quality_def Let_def)
  qed
  show ?thesis using self wrap by (auto simp: render_def Let_def)
qed

end
