(* ===== verification/Asr_Ingest.thy ===== *)
theory Asr_Ingest
  imports Rust_Text
begin

section \<open>Events of a Layer 1 session and the ledger that vets them\<close>

text \<open>
  \<open>core/asr_session/events.rs\<close> and \<open>core/asr_session/ingest.rs\<close>. A floating-point field is its bit pattern, and
  the derived \<open>PartialEq\<close> of the event types is written out: on floats it is IEEE equality, so an event that
  carries a NaN is not equal to itself. The map of sealed finals is a finite function.
\<close>

subsection \<open>Equality of floating-point fields\<close>

type_synonym f32 = u32

definition f32_is_nan :: "f32 \<Rightarrow> bool" where
  "f32_is_nan x \<longleftrightarrow> 2139095040 < x AND 2147483647"

definition f32_is_zero :: "f32 \<Rightarrow> bool" where
  "f32_is_zero x \<longleftrightarrow> x AND 2147483647 = 0"

definition f32_eq :: "f32 \<Rightarrow> f32 \<Rightarrow> bool" where
  "f32_eq a b \<longleftrightarrow> \<not> f32_is_nan a \<and> \<not> f32_is_nan b \<and> (a = b \<or> f32_is_zero a \<and> f32_is_zero b)"

definition option_eq :: "('a \<Rightarrow> 'a \<Rightarrow> bool) \<Rightarrow> 'a option \<Rightarrow> 'a option \<Rightarrow> bool" where
  "option_eq eq x y = (case (x, y) of (None, None) \<Rightarrow> True | (Some a, Some b) \<Rightarrow> eq a b | _ \<Rightarrow> False)"

subsection \<open>Events\<close>

type_synonym session_id = rstr

definition session_id_new :: "rstr \<Rightarrow> session_id option" where
  "session_id_new raw = (if trim raw = [] then None else Some raw)"

record audio_range =
  range_start_secs :: f32
  range_end_secs :: f32

datatype asr_error_kind = Transport | Auth | RateLimited | Quota | Overflow | Unsupported | Protocol | Cancelled

definition is_retryable :: "asr_error_kind \<Rightarrow> bool" where
  "is_retryable kind = (case kind of Transport \<Rightarrow> True | RateLimited \<Rightarrow> True | Overflow \<Rightarrow> True | _ \<Rightarrow> False)"

datatype commit_match_path = Echo | Range | Fifo
datatype final_grain = GrainWord | GrainPhrase

record capture_word =
  cw_word :: rstr
  cw_sample_start :: u64
  cw_sample_end :: u64
  cw_probability :: "f32 option"

record commit_range_mismatch =
  crm_commit_id :: rstr
  crm_commit_start :: u64
  crm_commit_end :: u64
  crm_server_start :: u64
  crm_server_end :: u64
  crm_rate_hz :: u64

record final_commit =
  fc_commit_id :: rstr
  fc_sample_start :: u64
  fc_sample_end :: u64
  fc_rate_hz :: u64
  fc_grain :: final_grain
  fc_words :: "capture_word list"
  fc_word_time_clamped :: u64
  fc_phrase_fallback :: bool
  fc_match_path :: commit_match_path
  fc_range_mismatch :: "commit_range_mismatch option"
  fc_clock_unreliable :: bool

record asr_transcript =
  tr_session :: session_id
  tr_utterance :: u64
  tr_sequence :: u64
  tr_text :: rstr
  tr_range :: "audio_range option"
  tr_commit :: "final_commit option"

record asr_error_event =
  er_session :: session_id
  er_utterance :: u64
  er_sequence :: u64
  er_kind :: asr_error_kind

record asr_usage_event =
  us_session :: session_id
  us_utterance :: u64
  us_sequence :: u64
  us_audio_secs :: f32
  us_billable_units :: "u64 option"

datatype asr_event =
    PartialEvent asr_transcript
  | FinalEvent asr_transcript
  | ErrorEvent asr_error_event
  | UsageEvent asr_usage_event

fun event_session_id :: "asr_event \<Rightarrow> session_id" where
  "event_session_id (PartialEvent t) = tr_session t"
| "event_session_id (FinalEvent t) = tr_session t"
| "event_session_id (ErrorEvent e) = er_session e"
| "event_session_id (UsageEvent u) = us_session u"

fun event_utterance_id :: "asr_event \<Rightarrow> u64" where
  "event_utterance_id (PartialEvent t) = tr_utterance t"
| "event_utterance_id (FinalEvent t) = tr_utterance t"
| "event_utterance_id (ErrorEvent e) = er_utterance e"
| "event_utterance_id (UsageEvent u) = us_utterance u"

fun event_sequence_id :: "asr_event \<Rightarrow> u64" where
  "event_sequence_id (PartialEvent t) = tr_sequence t"
| "event_sequence_id (FinalEvent t) = tr_sequence t"
| "event_sequence_id (ErrorEvent e) = er_sequence e"
| "event_sequence_id (UsageEvent u) = us_sequence u"

fun is_transcript :: "asr_event \<Rightarrow> bool" where
  "is_transcript (PartialEvent t) = True"
| "is_transcript (FinalEvent t) = True"
| "is_transcript e = False"

fun is_final :: "asr_event \<Rightarrow> bool" where
  "is_final (FinalEvent t) = True"
| "is_final e = False"

subsection \<open>The derived equality\<close>

definition audio_range_eq :: "audio_range \<Rightarrow> audio_range \<Rightarrow> bool" where
  "audio_range_eq a b \<longleftrightarrow> f32_eq (range_start_secs a) (range_start_secs b) \<and> f32_eq (range_end_secs a) (range_end_secs b)"

definition capture_word_eq :: "capture_word \<Rightarrow> capture_word \<Rightarrow> bool" where
  "capture_word_eq a b \<longleftrightarrow> cw_word a = cw_word b \<and> cw_sample_start a = cw_sample_start b
     \<and> cw_sample_end a = cw_sample_end b \<and> option_eq f32_eq (cw_probability a) (cw_probability b)"

definition final_commit_eq :: "final_commit \<Rightarrow> final_commit \<Rightarrow> bool" where
  "final_commit_eq a b \<longleftrightarrow> a\<lparr>fc_words := []\<rparr> = b\<lparr>fc_words := []\<rparr> \<and> list_all2 capture_word_eq (fc_words a) (fc_words b)"

definition transcript_eq :: "asr_transcript \<Rightarrow> asr_transcript \<Rightarrow> bool" where
  "transcript_eq a b \<longleftrightarrow> tr_session a = tr_session b \<and> tr_utterance a = tr_utterance b \<and> tr_sequence a = tr_sequence b
     \<and> tr_text a = tr_text b \<and> option_eq audio_range_eq (tr_range a) (tr_range b)
     \<and> option_eq final_commit_eq (tr_commit a) (tr_commit b)"

definition usage_eq :: "asr_usage_event \<Rightarrow> asr_usage_event \<Rightarrow> bool" where
  "usage_eq a b \<longleftrightarrow> us_session a = us_session b \<and> us_utterance a = us_utterance b \<and> us_sequence a = us_sequence b
     \<and> f32_eq (us_audio_secs a) (us_audio_secs b) \<and> us_billable_units a = us_billable_units b"

fun event_eq :: "asr_event \<Rightarrow> asr_event \<Rightarrow> bool" where
  "event_eq (PartialEvent a) (PartialEvent b) = transcript_eq a b"
| "event_eq (FinalEvent a) (FinalEvent b) = transcript_eq a b"
| "event_eq (ErrorEvent a) (ErrorEvent b) \<longleftrightarrow> a = b"
| "event_eq (UsageEvent a) (UsageEvent b) = usage_eq a b"
| "event_eq _ _ = False"

subsection \<open>The ledger\<close>

datatype ingest_verdict =
    Accepted | DuplicateIdempotent | RejectedOutOfOrder | RejectedSealedUtterance | RejectedForeignSession

record session_ingest =
  in_session :: session_id
  last_sequence :: "u64 option"
  last_accepted :: "asr_event option"
  sealed_finals :: "u64 \<rightharpoonup> asr_transcript"
  accepted_events :: "asr_event list"
  duplicate_count :: u64
  out_of_order_count :: u64
  sealed_rejection_count :: u64
  foreign_rejection_count :: u64

definition ingest_new :: "session_id \<Rightarrow> session_ingest" where
  "ingest_new session = \<lparr>in_session = session, last_sequence = None, last_accepted = None, sealed_finals = Map.empty,
     accepted_events = [], duplicate_count = 0, out_of_order_count = 0, sealed_rejection_count = 0,
     foreign_rejection_count = 0\<rparr>"

text \<open>An identical final of a sealed utterance, at whatever place of the stream.\<close>

definition resent_final :: "session_ingest \<Rightarrow> asr_event \<Rightarrow> bool" where
  "resent_final s event =
     (case (event, sealed_finals s (event_utterance_id event)) of
        (FinalEvent incoming, Some existing) \<Rightarrow> transcript_eq incoming existing
      | _ \<Rightarrow> False)"

definition retransmitted :: "session_ingest \<Rightarrow> asr_event \<Rightarrow> bool" where
  "retransmitted s event \<longleftrightarrow> last_sequence s = Some (event_sequence_id event)
     \<and> (case last_accepted s of None \<Rightarrow> False | Some prev \<Rightarrow> event_eq prev event)"

definition stale :: "session_ingest \<Rightarrow> asr_event \<Rightarrow> bool" where
  "stale s event = (case last_sequence s of None \<Rightarrow> False | Some prev \<Rightarrow> event_sequence_id event \<le> prev)"

definition ingest :: "session_ingest \<Rightarrow> asr_event \<Rightarrow> session_ingest \<times> ingest_verdict" where
  "ingest s event =
     (if event_session_id event \<noteq> in_session s
      then (s\<lparr>foreign_rejection_count := foreign_rejection_count s + 1\<rparr>, RejectedForeignSession)
      else if resent_final s event then (s\<lparr>duplicate_count := duplicate_count s + 1\<rparr>, DuplicateIdempotent)
      else if retransmitted s event then (s\<lparr>duplicate_count := duplicate_count s + 1\<rparr>, DuplicateIdempotent)
      else if stale s event then (s\<lparr>out_of_order_count := out_of_order_count s + 1\<rparr>, RejectedOutOfOrder)
      else if is_transcript event \<and> sealed_finals s (event_utterance_id event) \<noteq> None
      then (s\<lparr>sealed_rejection_count := sealed_rejection_count s + 1\<rparr>, RejectedSealedUtterance)
      else (s\<lparr>sealed_finals := (case event of FinalEvent t \<Rightarrow> (sealed_finals s)(event_utterance_id event \<mapsto> t)
                                          | _ \<Rightarrow> sealed_finals s),
              last_sequence := Some (event_sequence_id event), last_accepted := Some event,
              accepted_events := accepted_events s @ [event]\<rparr>, Accepted))"

text \<open>A whole stream, with the verdict on each event.\<close>

fun ingest_all :: "session_ingest \<Rightarrow> asr_event list \<Rightarrow> session_ingest \<times> ingest_verdict list" where
  "ingest_all s [] = (s, [])"
| "ingest_all s (e # es) =
     (case ingest s e of (s', v) \<Rightarrow> (case ingest_all s' es of (s'', vs) \<Rightarrow> (s'', v # vs)))"

subsection \<open>What every stream leaves behind\<close>

text \<open>The finals of a list of events, by utterance.\<close>

definition finals_of :: "asr_event list \<Rightarrow> asr_transcript list" where
  "finals_of es = List.map_filter (\<lambda>e. case e of FinalEvent t \<Rightarrow> Some t | _ \<Rightarrow> None) es"

lemma finals_of_simps [simp]:
  "finals_of [] = []" "finals_of (a @ b) = finals_of a @ finals_of b"
  "finals_of (FinalEvent t # es) = t # finals_of es" "finals_of (PartialEvent t # es) = finals_of es"
  "finals_of (ErrorEvent x # es) = finals_of es" "finals_of (UsageEvent u # es) = finals_of es"
  by (simp_all add: finals_of_def List.map_filter_def)

lemma finals_of_iff: "t \<in> set (finals_of es) \<longleftrightarrow> FinalEvent t \<in> set es"
  by (induction es) (auto simp: finals_of_def List.map_filter_def split: asr_event.splits)

text \<open>No transcript of an utterance comes behind its final.\<close>

definition sealed_order :: "asr_event list \<Rightarrow> bool" where
  "sealed_order es \<longleftrightarrow> (\<forall>before t behind. es = before @ FinalEvent t # behind
     \<longrightarrow> (\<forall>e \<in> set behind. is_transcript e \<longrightarrow> event_utterance_id e \<noteq> tr_utterance t))"

lemma sealed_orderD:
  "sealed_order (before @ FinalEvent t # behind) \<Longrightarrow> e \<in> set behind \<Longrightarrow> is_transcript e
    \<Longrightarrow> event_utterance_id e \<noteq> tr_utterance t"
  by (auto simp: sealed_order_def)

lemma sealed_order_snocI:
  assumes "sealed_order es" and fresh: "is_transcript e \<Longrightarrow> \<forall>t \<in> set (finals_of es). tr_utterance t \<noteq> event_utterance_id e"
  shows "sealed_order (es @ [e])"
  unfolding sealed_order_def
proof (intro allI impI ballI)
  fix before t behind x
  assume eq: "es @ [e] = before @ FinalEvent t # behind" and x: "x \<in> set behind" "is_transcript x"
  obtain front where behind: "behind = front @ [e]" and es: "es = before @ FinalEvent t # front"
    using eq x(1) by (cases behind rule: rev_cases) auto
  show "event_utterance_id x \<noteq> tr_utterance t"
  proof (cases "x \<in> set front")
    case True
    then show ?thesis using sealed_orderD assms(1) x(2) by (simp add: es)
  next
    case False
    then have "x = e" using x(1) by (simp add: behind)
    then show ?thesis using fresh x(2) by (auto simp: es)
  qed
qed

definition ingest_ok :: "session_ingest \<Rightarrow> bool" where
  "ingest_ok s \<longleftrightarrow> list_all (\<lambda>e. event_session_id e = in_session s) (accepted_events s)
     \<and> sorted_wrt (<) (map event_sequence_id (accepted_events s))
     \<and> last_accepted s = (if accepted_events s = [] then None else Some (last (accepted_events s)))
     \<and> last_sequence s = map_option event_sequence_id (last_accepted s)
     \<and> sealed_order (accepted_events s)
     \<and> (\<forall>u t. sealed_finals s u = Some t \<longleftrightarrow> t \<in> set (finals_of (accepted_events s)) \<and> tr_utterance t = u)"

lemma ingest_ok_new: "ingest_ok (ingest_new session)"
  by (simp add: ingest_ok_def ingest_new_def sealed_order_def)

lemma ingest_ok_counts [simp]:
  "ingest_ok (s\<lparr>duplicate_count := a\<rparr>) = ingest_ok s" "ingest_ok (s\<lparr>out_of_order_count := b\<rparr>) = ingest_ok s"
  "ingest_ok (s\<lparr>sealed_rejection_count := c\<rparr>) = ingest_ok s" "ingest_ok (s\<lparr>foreign_rejection_count := d\<rparr>) = ingest_ok s"
  by (simp_all add: ingest_ok_def)

lemma ingest_ok_stale:
  assumes ok: "ingest_ok s" and e: "e \<in> set (accepted_events s)"
  shows "stale s e"
proof -
  let ?xs = "accepted_events s"
  have last: "last_sequence s = Some (event_sequence_id (last ?xs))" using ok e by (auto simp: ingest_ok_def)
  obtain front x where xs: "?xs = front @ [x]" using e by (cases ?xs rule: rev_cases) auto
  have "sorted_wrt (<) (map event_sequence_id (front @ [x]))"
    using ok unfolding ingest_ok_def xs by blast
  then have "\<forall>y \<in> set front. event_sequence_id y < event_sequence_id x" by (simp add: sorted_wrt_append)
  then show ?thesis using e by (auto simp: stale_def last xs)
qed

lemma ingest_step_ok:
  assumes "ingest_ok s" and "ingest s e = (s', v)"
  shows "ingest_ok s'"
proof (cases "v = Accepted")
  case False
  with assms show ?thesis by (auto simp: ingest_def split: if_splits)
next
  case True
  let ?xs = "accepted_events s"
  have g: "event_session_id e = in_session s" "\<not> stale s e"
    "is_transcript e \<Longrightarrow> sealed_finals s (event_utterance_id e) = None"
    and s': "s' = s\<lparr>sealed_finals := (case e of FinalEvent t \<Rightarrow> (sealed_finals s)(event_utterance_id e \<mapsto> t)
                                          | _ \<Rightarrow> sealed_finals s),
              last_sequence := Some (event_sequence_id e), last_accepted := Some e,
              accepted_events := ?xs @ [e]\<rparr>"
    using assms(2) True by (auto simp: ingest_def split: if_splits)
  have old: "sorted_wrt (<) (map event_sequence_id ?xs)"
    "\<forall>u t. sealed_finals s u = Some t \<longleftrightarrow> t \<in> set (finals_of ?xs) \<and> tr_utterance t = u"
    using assms(1) by (simp_all add: ingest_ok_def)
  have less: "\<forall>x \<in> set ?xs. event_sequence_id x < event_sequence_id e"
    using g(2) ingest_ok_stale [OF assms(1)] by (fastforce simp: stale_def split: option.splits)
  have fresh: "is_transcript e \<Longrightarrow> \<forall>t \<in> set (finals_of ?xs). tr_utterance t \<noteq> event_utterance_id e"
    using g(3) old(2) by (metis option.distinct(1))
  have fin: "\<forall>u t. (case e of FinalEvent t \<Rightarrow> (sealed_finals s)(event_utterance_id e \<mapsto> t) | _ \<Rightarrow> sealed_finals s) u = Some t
      \<longleftrightarrow> t \<in> set (finals_of (?xs @ [e])) \<and> tr_utterance t = u"
    using old(2) fresh by (cases e) auto
  have "sealed_order (?xs @ [e])"
    using assms(1) fresh by (intro sealed_order_snocI) (simp_all add: ingest_ok_def)
  then show ?thesis
    using assms(1) g(1) old(1) less fin by (simp add: ingest_ok_def s' sorted_wrt_append)
qed

lemma ingest_all_ok: "ingest_ok s \<Longrightarrow> ingest_ok (fst (ingest_all s es))"
  by (induction es arbitrary: s) (auto simp: split_beta dest: ingest_step_ok [OF _ surjective_pairing])

lemma ingest_all_append:
  "ingest_all s (es @ fs) =
     (fst (ingest_all (fst (ingest_all s es)) fs), snd (ingest_all s es) @ snd (ingest_all (fst (ingest_all s es)) fs))"
  by (induction es arbitrary: s) (auto simp: split_beta)

lemma in_session_all [simp]: "in_session (fst (ingest_all s es)) = in_session s"
proof (induction es arbitrary: s)
  case (Cons e es)
  have "in_session (fst (ingest s e)) = in_session s" by (simp add: ingest_def)
  with Cons show ?case by (simp add: split_beta)
qed simp

definition verdict_count :: "ingest_verdict \<Rightarrow> ingest_verdict list \<Rightarrow> nat" where
  "verdict_count v vs = length (filter (\<lambda>w. w = v) vs)"

text \<open>The events a run accepted, read off the verdicts.\<close>

lemma accepted_by_verdict:
  "accepted_events (fst (ingest_all s es))
     = accepted_events s @ map fst (filter (\<lambda>p. snd p = Accepted) (zip es (snd (ingest_all s es))))"
proof (induction es arbitrary: s)
  case (Cons e es)
  have "accepted_events (fst (ingest s e)) = accepted_events s @ (if snd (ingest s e) = Accepted then [e] else [])"
    by (simp add: ingest_def)
  with Cons show ?case by (simp add: split_beta)
qed simp

lemma counts_by_verdict:
  "duplicate_count (fst (ingest_all s es)) = duplicate_count s + verdict_count DuplicateIdempotent (snd (ingest_all s es))
   \<and> out_of_order_count (fst (ingest_all s es)) = out_of_order_count s + verdict_count RejectedOutOfOrder (snd (ingest_all s es))
   \<and> sealed_rejection_count (fst (ingest_all s es))
       = sealed_rejection_count s + verdict_count RejectedSealedUtterance (snd (ingest_all s es))
   \<and> foreign_rejection_count (fst (ingest_all s es))
       = foreign_rejection_count s + verdict_count RejectedForeignSession (snd (ingest_all s es))"
proof (induction es arbitrary: s)
  case (Cons e es)
  let ?s = "fst (ingest s e)" and ?v = "snd (ingest s e)"
  have "duplicate_count ?s = duplicate_count s + (if ?v = DuplicateIdempotent then 1 else 0)
    \<and> out_of_order_count ?s = out_of_order_count s + (if ?v = RejectedOutOfOrder then 1 else 0)
    \<and> sealed_rejection_count ?s = sealed_rejection_count s + (if ?v = RejectedSealedUtterance then 1 else 0)
    \<and> foreign_rejection_count ?s = foreign_rejection_count s + (if ?v = RejectedForeignSession then 1 else 0)"
    by (simp add: ingest_def)
  with Cons [of ?s] show ?case by (simp add: split_beta verdict_count_def)
qed (simp add: verdict_count_def)

subsection \<open>The log, its replay and its re-delivery\<close>

definition session_run :: "session_id \<Rightarrow> asr_event list \<Rightarrow> session_ingest" where
  "session_run session es = fst (ingest_all (ingest_new session) es)"

lemma session_run_snoc: "session_run session (es @ [e]) = fst (ingest (session_run session es) e)"
  by (simp add: session_run_def ingest_all_append split_beta)

lemma session_run_append: "session_run session (es @ fs) = fst (ingest_all (session_run session es) fs)"
  by (simp add: session_run_def ingest_all_append)

lemma session_run_ok [simp]: "ingest_ok (session_run session es)"
  by (simp add: session_run_def ingest_all_ok ingest_ok_new)

lemma in_session_run [simp]: "in_session (session_run session es) = session"
  by (simp add: session_run_def ingest_new_def)

lemma verdict_counts:
  "length vs = verdict_count Accepted vs + verdict_count DuplicateIdempotent vs + verdict_count RejectedOutOfOrder vs
     + verdict_count RejectedSealedUtterance vs + verdict_count RejectedForeignSession vs"
proof (induction vs)
  case (Cons v vs)
  then show ?case by (cases v) (simp_all add: verdict_count_def)
qed (simp add: verdict_count_def)

lemma length_verdicts [simp]: "length (snd (ingest_all s es)) = length es"
  by (induction es arbitrary: s) (simp_all add: split_beta)

lemma accepted_count: "length es = length vs \<Longrightarrow>
  length (filter (\<lambda>p. snd p = v) (zip es vs)) = verdict_count v vs"
  by (induction es vs rule: list_induct2) (simp_all add: verdict_count_def)

text \<open>The log a stream should leave, told without the ledger's bookkeeping: an event joins it when it is of this
  session, ahead of every event in it, and, if it is a transcript, of an utterance without a final in it.\<close>

definition joins_log :: "session_id \<Rightarrow> asr_event list \<Rightarrow> asr_event \<Rightarrow> bool" where
  "joins_log session es e \<longleftrightarrow> event_session_id e = session
     \<and> list_all (\<lambda>p. event_sequence_id p < event_sequence_id e) es
     \<and> \<not> (is_transcript e \<and> list_ex (\<lambda>t. tr_utterance t = event_utterance_id e) (finals_of es))"

definition expected_log :: "session_id \<Rightarrow> asr_event list \<Rightarrow> asr_event list" where
  "expected_log session es = foldl (\<lambda>kept e. if joins_log session kept e then kept @ [e] else kept) [] es"

lemma not_stale_iff:
  assumes "ingest_ok s"
  shows "\<not> stale s e \<longleftrightarrow> list_all (\<lambda>p. event_sequence_id p < event_sequence_id e) (accepted_events s)"
proof (cases "accepted_events s" rule: rev_cases)
  case Nil
  then show ?thesis using assms by (simp add: ingest_ok_def stale_def)
next
  case (snoc front x)
  then have "sorted_wrt (<) (map event_sequence_id (front @ [x]))" using assms unfolding ingest_ok_def by metis
  then have "\<forall>y \<in> set front. event_sequence_id y < event_sequence_id x" by (simp add: sorted_wrt_append)
  moreover have "last_sequence s = Some (event_sequence_id x)" using assms by (simp add: ingest_ok_def snoc)
  ultimately show ?thesis by (auto simp: stale_def list_all_iff snoc)
qed

lemma ingest_joins:
  assumes "ingest_ok s"
  shows "accepted_events (fst (ingest s e))
    = (if joins_log (in_session s) (accepted_events s) e then accepted_events s @ [e] else accepted_events s)"
proof -
  have finals: "sealed_finals s u = None \<longleftrightarrow> \<not> list_ex (\<lambda>t. tr_utterance t = u) (finals_of (accepted_events s))" for u
  proof -
    have "sealed_finals s u = Some t \<longleftrightarrow> t \<in> set (finals_of (accepted_events s)) \<and> tr_utterance t = u" for t
      using assms by (simp add: ingest_ok_def)
    then show ?thesis by (cases "sealed_finals s u") (auto simp: list_ex_iff)
  qed
  have joins: "joins_log (in_session s) (accepted_events s) e \<longleftrightarrow> event_session_id e = in_session s \<and> \<not> stale s e
      \<and> \<not> (is_transcript e \<and> sealed_finals s (event_utterance_id e) \<noteq> None)"
    by (simp add: joins_log_def not_stale_iff [OF assms] finals)
  have "resent_final s e \<Longrightarrow> is_transcript e \<and> sealed_finals s (event_utterance_id e) \<noteq> None"
    by (cases e) (auto simp: resent_final_def split: option.splits)
  moreover have "retransmitted s e \<Longrightarrow> stale s e" by (auto simp: retransmitted_def stale_def)
  ultimately show ?thesis unfolding joins by (auto simp: ingest_def)
qed

lemma accepted_log: "accepted_events (session_run session es) = expected_log session es"
proof (induction es rule: rev_induct)
  case Nil
  then show ?case by (simp add: session_run_def ingest_new_def expected_log_def)
next
  case (snoc e es)
  then show ?case by (simp add: session_run_snoc ingest_joins expected_log_def)
qed

text \<open>C17. What any stream of events leaves behind, duplicated, reordered and foreign ones included: the log is the
  accepted events in order, and they are exactly the events that are of this session, ahead of everything logged
  before and, if transcripts, not behind a final of their utterance; so the sequence numbers of the log increase
  strictly and no transcript of an utterance is behind its final; the sealed finals are exactly the finals of the
  log; and every event offered is in the log or in exactly one of the four refusal counters.
\<close>

theorem stream_leaves_sealed_log:
  "let s = session_run session es; vs = snd (ingest_all (ingest_new session) es) in
     accepted_events s = map fst (filter (\<lambda>p. snd p = Accepted) (zip es vs))
     \<and> accepted_events s = expected_log session es
     \<and> list_all (\<lambda>e. event_session_id e = session) (accepted_events s)
     \<and> sorted_wrt (<) (map event_sequence_id (accepted_events s))
     \<and> sealed_order (accepted_events s)
     \<and> (\<forall>u t. sealed_finals s u = Some t \<longleftrightarrow> FinalEvent t \<in> set (accepted_events s) \<and> tr_utterance t = u)
     \<and> length es = length (accepted_events s) + duplicate_count s + out_of_order_count s
         + sealed_rejection_count s + foreign_rejection_count s"
proof -
  let ?s = "session_run session es" and ?vs = "snd (ingest_all (ingest_new session) es)"
  have log: "accepted_events ?s = map fst (filter (\<lambda>p. snd p = Accepted) (zip es ?vs))"
    using accepted_by_verdict [of "ingest_new session" es] by (simp add: session_run_def ingest_new_def)
  have counts: "length (accepted_events ?s) = verdict_count Accepted ?vs"
    using accepted_count [of es ?vs Accepted] by (simp add: log)
  have sum: "length es = length (accepted_events ?s) + duplicate_count ?s + out_of_order_count ?s
         + sealed_rejection_count ?s + foreign_rejection_count ?s"
    using verdict_counts [of ?vs] counts_by_verdict [of "ingest_new session" es] counts
    by (simp add: session_run_def ingest_new_def)
  have ok: "ingest_ok ?s" by simp
  show ?thesis
    unfolding Let_def using log sum ok accepted_log [of session es]
    by (simp only: ingest_ok_def finals_of_iff in_session_run simp_thms)
qed

text \<open>The part of the ledger that is not a counter.\<close>

definition ingest_core :: "session_ingest \<Rightarrow> session_ingest" where
  "ingest_core s = s\<lparr>duplicate_count := 0, out_of_order_count := 0, sealed_rejection_count := 0, foreign_rejection_count := 0\<rparr>"

lemma ingest_core_fields [simp]:
  "accepted_events (ingest_core s) = accepted_events s" "sealed_finals (ingest_core s) = sealed_finals s"
  "last_sequence (ingest_core s) = last_sequence s" "last_accepted (ingest_core s) = last_accepted s"
  "in_session (ingest_core s) = in_session s" "ingest_core (ingest_core s) = ingest_core s"
  by (simp_all add: ingest_core_def)

lemma ingest_core_counters [simp]:
  "ingest_core (s\<lparr>duplicate_count := a\<rparr>) = ingest_core s" "ingest_core (s\<lparr>out_of_order_count := b\<rparr>) = ingest_core s"
  "ingest_core (s\<lparr>sealed_rejection_count := c\<rparr>) = ingest_core s" "ingest_core (s\<lparr>foreign_rejection_count := d\<rparr>) = ingest_core s"
  by (simp_all add: ingest_core_def)

lemma ingest_checks_core [simp]:
  "resent_final (ingest_core s) = resent_final s" "retransmitted (ingest_core s) = retransmitted s"
  "stale (ingest_core s) = stale s"
  by (simp_all add: fun_eq_iff resent_final_def retransmitted_def stale_def)

lemma ingest_core_verdict [simp]: "snd (ingest (ingest_core s) e) = snd (ingest s e)"
  by (auto simp: ingest_def)

lemma ingest_core_refused: "snd (ingest s e) \<noteq> Accepted \<Longrightarrow> ingest_core (fst (ingest s e)) = ingest_core s"
  by (auto simp: ingest_def)

lemma ingest_core_accepted:
  assumes "snd (ingest s e) = Accepted"
  shows "fst (ingest (ingest_core s) e) = ingest_core (fst (ingest s e))"
proof -
  have "event_session_id e = in_session s" "\<not> resent_final s e" "\<not> retransmitted s e" "\<not> stale s e"
    "\<not> (is_transcript e \<and> sealed_finals s (event_utterance_id e) \<noteq> None)"
    using assms by (simp_all add: ingest_def split: if_splits)
  then show ?thesis by (simp only: ingest_def ingest_checks_core ingest_core_fields if_False simp_thms fst_conv)
      (simp add: ingest_core_def)
qed

text \<open>The ledger is a function of its log: feeding the accepted events of any stream to a fresh ledger accepts every
  one of them and arrives at the same ledger, refusal counters apart. Everything refused left no trace.
\<close>

theorem log_replays_to_same_ledger:
  "ingest_all (ingest_new session) (accepted_events (session_run session es))
     = (ingest_core (session_run session es), replicate (length (accepted_events (session_run session es))) Accepted)"
proof (induction es rule: rev_induct)
  case Nil
  then show ?case by (simp add: session_run_def ingest_new_def ingest_core_def)
next
  case (snoc e es)
  let ?s = "session_run session es"
  show ?case
  proof (cases "snd (ingest ?s e) = Accepted")
    case True
    have "accepted_events (fst (ingest ?s e)) = accepted_events ?s @ [e]"
      using True by (simp add: ingest_def split: if_splits)
    with True snoc ingest_core_verdict [of ?s e] ingest_core_accepted [of ?s e] show ?thesis
      by (simp add: session_run_snoc ingest_all_append split_beta replicate_append_same)
  next
    case False
    have "accepted_events (fst (ingest ?s e)) = accepted_events ?s"
      using False by (simp add: ingest_def split: if_splits)
    with False snoc ingest_core_refused [of ?s e] show ?thesis by (simp add: session_run_snoc)
  qed
qed

lemma redelivered_step:
  assumes "ingest_ok s" and "e \<in> set (accepted_events s)"
  shows "ingest_core (fst (ingest s e)) = ingest_core s"
    and "snd (ingest s e) \<in> {DuplicateIdempotent, RejectedOutOfOrder}"
proof -
  have "event_session_id e = in_session s" using assms by (auto simp: ingest_ok_def list_all_iff)
  moreover have "stale s e" by (rule ingest_ok_stale [OF assms])
  ultimately show "ingest_core (fst (ingest s e)) = ingest_core s"
    "snd (ingest s e) \<in> {DuplicateIdempotent, RejectedOutOfOrder}" by (simp_all add: ingest_def)
qed

text \<open>Reconnecting is safe: re-delivering any of the events a session has accepted, in any order and any number
  of times, changes nothing but the counts of duplicates and of stale events; none of them is accepted again.
\<close>

theorem redelivery_changes_nothing:
  assumes "set again \<subseteq> set (accepted_events (session_run session es))"
  shows "ingest_core (session_run session (es @ again)) = ingest_core (session_run session es)
    \<and> set (snd (ingest_all (session_run session es) again)) \<subseteq> {DuplicateIdempotent, RejectedOutOfOrder}"
  using assms
proof (induction again rule: rev_induct)
  case (snoc e again)
  let ?s = "session_run session (es @ again)"
  have same: "ingest_core ?s = ingest_core (session_run session es)"
    and old: "set (snd (ingest_all (session_run session es) again)) \<subseteq> {DuplicateIdempotent, RejectedOutOfOrder}"
    using snoc by simp_all
  from arg_cong [OF same, of accepted_events] have "e \<in> set (accepted_events ?s)" using snoc.prems by simp
  from redelivered_step [OF session_run_ok this] same show ?case
    using session_run_snoc [of session "es @ again" e] old
    by (simp add: ingest_all_append session_run_append split_beta)
qed simp

text \<open>A final is a commitment: once an utterance is sealed no later event changes its text, and the same final sent
  again, at any place of the stream, is answered as a duplicate (unless it carries a NaN and so differs from itself).
\<close>

theorem sealed_final_is_kept:
  assumes "sealed_finals (session_run session es) u = Some t"
  shows "sealed_finals (session_run session (es @ later)) u = Some t
    \<and> (transcript_eq t t \<longrightarrow> snd (ingest (session_run session (es @ later)) (FinalEvent t)) = DuplicateIdempotent)"
proof -
  have kept: "sealed_finals (fst (ingest s e)) u = Some t" if "sealed_finals s u = Some t" for s e
    using that by (cases e) (auto simp: ingest_def)
  have sealed: "sealed_finals (session_run session (es @ later)) u = Some t"
  proof (induction later rule: rev_induct)
    case (snoc e later)
    then show ?case using kept session_run_snoc [of session "es @ later" e] by simp
  qed (simp add: assms)
  let ?s = "session_run session (es @ later)"
  have "ingest_ok ?s" by simp
  with sealed have "FinalEvent t \<in> set (accepted_events ?s)" "tr_utterance t = u"
    by (simp_all add: ingest_ok_def finals_of_iff)
  moreover have "event_session_id (FinalEvent t) = session"
    using \<open>ingest_ok ?s\<close> calculation(1) unfolding ingest_ok_def by (auto simp: list_all_iff)
  ultimately have "transcript_eq t t \<Longrightarrow> snd (ingest ?s (FinalEvent t)) = DuplicateIdempotent"
    using sealed by (simp add: ingest_def resent_final_def)
  with sealed show ?thesis by simp
qed

text \<open>A stream with a partial, its final, and a second final for the same utterance.\<close>

definition sample_transcript :: "u64 \<Rightarrow> string \<Rightarrow> asr_transcript" where
  "sample_transcript n txt = \<lparr>tr_session = lit ''s'', tr_utterance = 1, tr_sequence = n, tr_text = lit txt,
     tr_range = None, tr_commit = None\<rparr>"

definition sample_stream :: "asr_event list" where
  "sample_stream = [PartialEvent (sample_transcript 1 ''h''), FinalEvent (sample_transcript 2 ''hi''),
     FinalEvent (sample_transcript 3 ''hey'')]"

lemma sample_run:
  "accepted_events (session_run (lit ''s'') sample_stream) = take 2 sample_stream"
  "sealed_finals (session_run (lit ''s'') sample_stream) 1 = Some (sample_transcript 2 ''hi'')"
  by (simp_all add: session_run_def sample_stream_def sample_transcript_def ingest_def ingest_new_def resent_final_def
      retransmitted_def stale_def transcript_eq_def)

theorem redelivery_changes_nothing_witness:
  "accepted_events (session_run (lit ''s'') (sample_stream @ rev (take 2 sample_stream))) = take 2 sample_stream"
  using arg_cong [OF conjunct1 [OF redelivery_changes_nothing
      [of "rev (take 2 sample_stream)" "lit ''s''" sample_stream]], of accepted_events]
  by (simp add: sample_run)

theorem sealed_final_is_kept_witness:
  "sealed_finals (session_run (lit ''s'') (sample_stream @ sample_stream)) 1 = Some (sample_transcript 2 ''hi'')
   \<and> snd (ingest (session_run (lit ''s'') (sample_stream @ sample_stream)) (FinalEvent (sample_transcript 2 ''hi'')))
       = DuplicateIdempotent"
proof -
  have "transcript_eq (sample_transcript 2 ''hi'') (sample_transcript 2 ''hi'')"
    by (simp add: transcript_eq_def sample_transcript_def option_eq_def)
  then show ?thesis using sealed_final_is_kept [OF sample_run(2), of sample_stream] by simp
qed

end
