(* ===== verification/Recorder_Lane.thy ===== *)
theory Recorder_Lane
  imports Asr_Ingest
begin

section \<open>The Layer 1 lane of a recording\<close>

text \<open>
  \<open>core/asr_session/recorder.rs\<close> over the trait of \<open>core/asr_session/provider.rs\<close>. A provider is a trait object:
  a record of operations on the world \<open>'w\<close> outside the lane, dropping it included. The lane owns it through an
  option, as the code does, and replacing that option by \<open>None\<close> runs the drop. Samples are opaque \<open>f32\<close>
  patterns; the volatile draft is a finite function; logging is left out.
\<close>

subsection \<open>Providers\<close>

datatype refiner_mode = RefinerOff | CloudSession | LocalHelper

definition sends_audio_off_device :: "refiner_mode \<Rightarrow> bool" where
  "sends_audio_off_device mode \<longleftrightarrow> mode = CloudSession"

record session_input =
  si_session_id :: session_id
  si_locale :: "rstr option"
  si_sample_rate :: u64

type_synonym asr_result = "asr_error_kind + unit"

record 'w asr_provider =
  prov_mode :: refiner_mode
  prov_open :: "session_input \<Rightarrow> 'w \<Rightarrow> 'w \<times> asr_result"
  prov_push_audio :: "f32 list \<Rightarrow> 'w \<Rightarrow> 'w \<times> asr_result"
  prov_drain :: "'w \<Rightarrow> 'w \<times> asr_event list"
  prov_close :: "'w \<Rightarrow> 'w \<times> asr_result"
  prov_commit :: "u64 \<Rightarrow> 'w \<Rightarrow> 'w \<times> asr_result"
  prov_drop :: "'w \<Rightarrow> 'w"

subsection \<open>The decision a recording starts with\<close>

datatype tail_disposition = NotApplicable | ArmedDefault | ArmedPhase u8 | DegradedExplicitOff | DegradedInvalidOverride

definition tail_is_armed :: "tail_disposition \<Rightarrow> bool" where
  "tail_is_armed d = (case d of ArmedDefault \<Rightarrow> True | ArmedPhase _ \<Rightarrow> True | _ \<Rightarrow> False)"

datatype tail_transport = InProcess | Sidecar | RemoteTail | FakeTail

definition from_provider_token :: "rstr option \<Rightarrow> tail_transport" where
  "from_provider_token token =
     (if token = Some (lit ''remote'') then RemoteTail
      else if token = Some (lit ''sidecar'') then Sidecar
      else if token = Some (lit ''fake'') then FakeTail
      else InProcess)"

datatype 'w layer1_decision =
    Disarmed
  | LocalTailPatch tail_disposition
  | Armed "'w asr_provider"
  | Cloud "'w asr_provider" tail_disposition tail_transport rstr

definition decision_is_armed :: "'w layer1_decision \<Rightarrow> bool" where
  "decision_is_armed d = (case d of Armed _ \<Rightarrow> True | Cloud _ _ _ _ \<Rightarrow> True | LocalTailPatch t \<Rightarrow> tail_is_armed t | Disarmed \<Rightarrow> False)"

definition decision_tail :: "'w layer1_decision \<Rightarrow> tail_disposition option" where
  "decision_tail d = (case d of LocalTailPatch t \<Rightarrow> Some t
     | Cloud _ t _ _ \<Rightarrow> if tail_is_armed t then Some t else None | _ \<Rightarrow> None)"

subsection \<open>The lane\<close>

datatype degrade_reason =
    OpenFailed asr_error_kind | OverflowSustained | Disconnect asr_error_kind | SleepWake | StopDrainIncomplete

datatype lane_state = Unarmed | Live | Degraded degrade_reason | Stopped

datatype fan_out = Forwarded | DroppedOverflow | Inactive

record lane_telemetry =
  frames_offered :: u64
  frames_forwarded :: u64
  overflow_frame_drops :: u64
  partials_applied :: u64
  finals_accepted :: u64
  events_rejected :: u64
  provider_errors :: u64

definition lane_telemetry_default :: lane_telemetry where
  "lane_telemetry_default = \<lparr>frames_offered = 0, frames_forwarded = 0, overflow_frame_drops = 0, partials_applied = 0,
     finals_accepted = 0, events_rejected = 0, provider_errors = 0\<rparr>"

record 'w lane =
  lane_world :: 'w
  lane_state :: lane_state
  lane_provider :: "'w asr_provider option"
  lane_ingest :: session_ingest
  draft :: "u64 \<rightharpoonup> rstr"
  lane_finals :: "asr_transcript list"
  telemetry :: lane_telemetry
  consecutive_overflows :: nat
  lane_degrade :: "degrade_reason option"
  degrade_notice :: "degrade_reason option"
  lane_rate :: u64
  hold_back :: bool
  pushed_samples :: u64
  held :: "f32 list"
  pending_forward :: "asr_transcript list"
  unforwarded_after_exit :: u64
  commit_late_lags :: "u64 list"

record session_outcome =
  outcome_finals :: "asr_transcript list"
  outcome_telemetry :: lane_telemetry
  outcome_degrade :: "degrade_reason option"

definition cloud_commit_holdback_samples :: "u64 \<Rightarrow> nat" where
  "cloud_commit_holdback_samples rate = rate * 500 div 1000"

definition OVERFLOW_DEGRADE_LIMIT :: nat where "OVERFLOW_DEGRADE_LIMIT = 8"
definition STOP_DRAIN_MAX_POLLS :: nat where "STOP_DRAIN_MAX_POLLS = 32"

definition is_live :: "'w lane \<Rightarrow> bool" where
  "is_live l \<longleftrightarrow> lane_state l = Live"

definition lane_refiner_mode :: "'w lane \<Rightarrow> refiner_mode" where
  "lane_refiner_mode l =
     (case (lane_state l, lane_provider l) of (Live, Some p) \<Rightarrow> prov_mode p | _ \<Rightarrow> RefinerOff)"

subsection \<open>Degrading\<close>

definition note_degrade :: "degrade_reason \<Rightarrow> 'w lane \<Rightarrow> 'w lane" where
  "note_degrade reason l =
     (if lane_degrade l = None then l\<lparr>lane_degrade := Some reason, degrade_notice := Some reason\<rparr> else l)"

definition drop_provider :: "'w lane \<Rightarrow> 'w lane" where
  "drop_provider l =
     (case lane_provider l of None \<Rightarrow> l
      | Some p \<Rightarrow> l\<lparr>lane_provider := None, lane_world := prov_drop p (lane_world l)\<rparr>)"

definition degrade_dropping_provider :: "degrade_reason \<Rightarrow> 'w lane \<Rightarrow> 'w lane" where
  "degrade_dropping_provider reason l =
     note_degrade reason ((drop_provider l)\<lparr>held := [], draft := Map.empty, lane_state := Degraded reason\<rparr>)"

definition bump_errors :: "'w lane \<Rightarrow> 'w lane" where
  "bump_errors l = l\<lparr>telemetry := (telemetry l)\<lparr>provider_errors := provider_errors (telemetry l) + 1\<rparr>\<rparr>"

definition session_fatal :: "asr_error_kind \<Rightarrow> bool" where
  "session_fatal kind \<longleftrightarrow> kind \<noteq> RateLimited \<and> kind \<noteq> Overflow"

definition take_degrade_notice :: "'w lane \<Rightarrow> 'w lane \<times> degrade_reason option" where
  "take_degrade_notice l = (l\<lparr>degrade_notice := None\<rparr>, degrade_notice l)"

definition note_sleep_wake :: "'w lane \<Rightarrow> 'w lane" where
  "note_sleep_wake l = (if is_live l then degrade_dropping_provider SleepWake l else l)"

subsection \<open>Opening\<close>

definition idle_lane :: "session_input \<Rightarrow> 'w \<Rightarrow> 'w lane" where
  "idle_lane input w = \<lparr>lane_world = w, lane_state = Unarmed, lane_provider = None,
     lane_ingest = ingest_new (si_session_id input), draft = Map.empty, lane_finals = [],
     telemetry = lane_telemetry_default, consecutive_overflows = 0, lane_degrade = None, degrade_notice = None,
     lane_rate = max (si_sample_rate input) 1, hold_back = False, pushed_samples = 0, held = [],
     pending_forward = [], unforwarded_after_exit = 0, commit_late_lags = []\<rparr>"

definition open_provider :: "'w asr_provider \<Rightarrow> session_input \<Rightarrow> 'w lane \<Rightarrow> 'w lane" where
  "open_provider p input l =
     (case prov_open p input (lane_world l) of
        (w, Inr _) \<Rightarrow> l\<lparr>lane_world := w, hold_back := (prov_mode p = CloudSession), lane_state := Live,
                       lane_provider := Some p\<rparr>
      | (w, Inl kind) \<Rightarrow> (let l' = degrade_dropping_provider (OpenFailed kind) (l\<lparr>lane_world := w\<rparr>)
                         in l'\<lparr>lane_world := prov_drop p (lane_world l')\<rparr>))"

definition lane_open :: "'w layer1_decision \<Rightarrow> session_input \<Rightarrow> 'w \<Rightarrow> 'w lane" where
  "lane_open decision input w =
     (let l = idle_lane input w in
      case decision of
        Disarmed \<Rightarrow> l
      | LocalTailPatch _ \<Rightarrow> l
      | Armed p \<Rightarrow> open_provider p input l
      | Cloud p _ _ _ \<Rightarrow> open_provider p input l)"

subsection \<open>Audio\<close>

definition push_samples :: "f32 list \<Rightarrow> 'w lane \<Rightarrow> 'w lane \<times> fan_out" where
  "push_samples samples l =
     (if samples = [] \<or> \<not> is_live l then (l, Inactive)
      else case lane_provider l of
             None \<Rightarrow> (l, Inactive)
           | Some p \<Rightarrow>
               (case prov_push_audio p samples (lane_world l) of
                  (w, Inr _) \<Rightarrow>
                    (l\<lparr>lane_world := w, consecutive_overflows := 0,
                       pushed_samples := min u64_max (pushed_samples l + length samples),
                       telemetry := (telemetry l)\<lparr>frames_forwarded := frames_forwarded (telemetry l) + 1\<rparr>\<rparr>, Forwarded)
                | (w, Inl kind) \<Rightarrow>
                    if kind = Overflow
                    then let l' = l\<lparr>lane_world := w,
                                  telemetry := (telemetry l)\<lparr>overflow_frame_drops := overflow_frame_drops (telemetry l) + 1\<rparr>,
                                  consecutive_overflows := consecutive_overflows l + 1\<rparr>
                         in (if OVERFLOW_DEGRADE_LIMIT \<le> consecutive_overflows l'
                             then degrade_dropping_provider OverflowSustained l' else l', DroppedOverflow)
                    else (degrade_dropping_provider (Disconnect kind) (bump_errors (l\<lparr>lane_world := w\<rparr>)), Inactive)))"

definition release_aged :: "'w lane \<Rightarrow> 'w lane \<times> fan_out" where
  "release_aged l =
     (let keep = cloud_commit_holdback_samples (lane_rate l)
      in if length (held l) \<le> keep then (l, Forwarded)
         else let release = length (held l) - keep
              in push_samples (take release (held l)) (l\<lparr>held := drop release (held l)\<rparr>))"

definition offer_pcm :: "f32 list \<Rightarrow> 'w lane \<Rightarrow> 'w lane \<times> fan_out" where
  "offer_pcm samples l =
     (let l = l\<lparr>telemetry := (telemetry l)\<lparr>frames_offered := frames_offered (telemetry l) + 1\<rparr>\<rparr>
      in if \<not> is_live l \<or> samples = [] then (l, Inactive)
         else if \<not> hold_back l then push_samples samples l
         else release_aged (l\<lparr>held := held l @ samples\<rparr>))"

definition flush_holdback :: "'w lane \<Rightarrow> 'w lane \<times> fan_out" where
  "flush_holdback l =
     (if \<not> is_live l \<or> held l = [] then (l, Inactive) else push_samples (held l) (l\<lparr>held := []\<rparr>))"

definition provider_commit :: "u64 \<Rightarrow> 'w lane \<Rightarrow> 'w lane" where
  "provider_commit sample l =
     (if \<not> is_live l then l
      else case lane_provider l of
             None \<Rightarrow> l
           | Some p \<Rightarrow>
               (case prov_commit p sample (lane_world l) of
                  (w, Inr _) \<Rightarrow> l\<lparr>lane_world := w\<rparr>
                | (w, Inl kind) \<Rightarrow> degrade_dropping_provider (Disconnect kind) (bump_errors (l\<lparr>lane_world := w\<rparr>))))"

definition commit_through :: "u64 \<Rightarrow> 'w lane \<Rightarrow> 'w lane \<times> u64 option" where
  "commit_through sample l =
     (if \<not> is_live l then (l, None)
      else if sample < pushed_samples l
      then let lag = pushed_samples l - sample
           in (provider_commit (pushed_samples l) (l\<lparr>commit_late_lags := commit_late_lags l @ [lag]\<rparr>), Some lag)
      else let need = min (sample - pushed_samples l) (length (held l));
               l = (if 0 < need then fst (push_samples (take need (held l)) (l\<lparr>held := drop need (held l)\<rparr>)) else l)
           in (provider_commit (pushed_samples l) l, None))"

subsection \<open>Events\<close>

definition route_event :: "asr_event \<Rightarrow> 'w lane \<Rightarrow> 'w lane" where
  "route_event event l =
     (case ingest (lane_ingest l) event of
        (ing, verdict) \<Rightarrow>
          let l = l\<lparr>lane_ingest := ing\<rparr> in
          case verdict of
            Accepted \<Rightarrow>
              (case event of
                 PartialEvent t \<Rightarrow>
                   l\<lparr>telemetry := (telemetry l)\<lparr>partials_applied := partials_applied (telemetry l) + 1\<rparr>,
                     draft := (draft l)(tr_utterance t \<mapsto> tr_text t)\<rparr>
               | FinalEvent t \<Rightarrow>
                   l\<lparr>telemetry := (telemetry l)\<lparr>finals_accepted := finals_accepted (telemetry l) + 1\<rparr>,
                     draft := (draft l)(tr_utterance t := None),
                     pending_forward := pending_forward l @ [t], lane_finals := lane_finals l @ [t]\<rparr>
               | ErrorEvent e \<Rightarrow>
                   let l = bump_errors l
                   in if session_fatal (er_kind e) \<and> is_live l then degrade_dropping_provider (Disconnect (er_kind e)) l else l
               | UsageEvent _ \<Rightarrow> l)
          | DuplicateIdempotent \<Rightarrow> l
          | _ \<Rightarrow> l\<lparr>telemetry := (telemetry l)\<lparr>events_rejected := events_rejected (telemetry l) + 1\<rparr>\<rparr>)"

fun route_while_live :: "asr_event list \<Rightarrow> 'w lane \<Rightarrow> 'w lane" where
  "route_while_live [] l = l"
| "route_while_live (e # es) l =
     (let l' = route_event e l in if \<not> is_live l' then l' else route_while_live es l')"

definition poll_lane :: "'w lane \<Rightarrow> 'w lane" where
  "poll_lane l =
     (if \<not> is_live l then l
      else case lane_provider l of
             None \<Rightarrow> l
           | Some p \<Rightarrow> (case prov_drain p (lane_world l) of (w, events) \<Rightarrow> route_while_live events (l\<lparr>lane_world := w\<rparr>)))"

definition take_unforwarded_finals :: "'w lane \<Rightarrow> 'w lane \<times> asr_transcript list" where
  "take_unforwarded_finals l = (l\<lparr>pending_forward := []\<rparr>, pending_forward l)"

definition unforwarded_finals :: "'w lane \<Rightarrow> nat" where
  "unforwarded_finals l = length (pending_forward l) + unforwarded_after_exit l"

definition note_final_after_worker_exit :: "'w lane \<Rightarrow> 'w lane" where
  "note_final_after_worker_exit l = l\<lparr>unforwarded_after_exit := min u64_max (unforwarded_after_exit l + 1)\<rparr>"

subsection \<open>Stopping\<close>

definition drain_and_route :: "'w asr_provider \<Rightarrow> 'w lane \<Rightarrow> 'w lane \<times> bool" where
  "drain_and_route p l =
     (case prov_drain p (lane_world l) of
        (w, events) \<Rightarrow> (fold route_event events (l\<lparr>lane_world := w\<rparr>), events = []))"

text \<open>The drain loop behind a successful close, with the number of non-empty batches so far.\<close>

function stop_drain :: "'w asr_provider \<Rightarrow> nat \<Rightarrow> 'w lane \<Rightarrow> 'w lane" where
  "stop_drain p polls l =
     (case drain_and_route p l of
        (l', True) \<Rightarrow> l'
      | (l', False) \<Rightarrow>
          if STOP_DRAIN_MAX_POLLS \<le> polls + 1 then note_degrade StopDrainIncomplete l' else stop_drain p (polls + 1) l')"
  by pat_completeness auto
termination
  by (relation "measure (\<lambda>(_, polls, _). STOP_DRAIN_MAX_POLLS - polls)") (auto simp: STOP_DRAIN_MAX_POLLS_def)

definition close_provider :: "'w asr_provider \<Rightarrow> 'w lane \<Rightarrow> 'w lane" where
  "close_provider p l =
     (case prov_close p (lane_world l) of
        (w, Inr _) \<Rightarrow> stop_drain p 0 (l\<lparr>lane_world := w\<rparr>)
      | (w, Inl kind) \<Rightarrow> note_degrade (Disconnect kind) (bump_errors (l\<lparr>lane_world := w\<rparr>)))"

definition stop_lane :: "'w lane \<Rightarrow> 'w lane \<times> session_outcome" where
  "stop_lane l =
     (let l = (if is_live l then fst (flush_holdback l) else l);
          l = (case lane_provider l of
                 None \<Rightarrow> l
               | Some p \<Rightarrow>
                   let l = close_provider p (fst (drain_and_route p (l\<lparr>lane_provider := None\<rparr>)))
                   in l\<lparr>lane_world := prov_drop p (lane_world l)\<rparr>);
          l = l\<lparr>draft := Map.empty, lane_state := Stopped\<rparr>
      in (l\<lparr>lane_finals := []\<rparr>,
          \<lparr>outcome_finals = lane_finals l, outcome_telemetry = telemetry l, outcome_degrade = lane_degrade l\<rparr>))"

subsection \<open>What a session may ask of its lane\<close>

datatype lane_call =
    OfferPcm "f32 list" | FlushHoldback | CommitThrough u64 | Poll | NoteSleepWake | TakeFinals | FinalAfterExit
  | TakeNotice | StopLane

fun lane_step :: "lane_call \<Rightarrow> 'w lane \<Rightarrow> 'w lane" where
  "lane_step (OfferPcm samples) l = fst (offer_pcm samples l)"
| "lane_step FlushHoldback l = fst (flush_holdback l)"
| "lane_step (CommitThrough sample) l = fst (commit_through sample l)"
| "lane_step Poll l = poll_lane l"
| "lane_step NoteSleepWake l = note_sleep_wake l"
| "lane_step TakeFinals l = fst (take_unforwarded_finals l)"
| "lane_step FinalAfterExit l = note_final_after_worker_exit l"
| "lane_step TakeNotice l = fst (take_degrade_notice l)"
| "lane_step StopLane l = fst (stop_lane l)"

definition lane_run :: "'w layer1_decision \<Rightarrow> session_input \<Rightarrow> 'w \<Rightarrow> lane_call list \<Rightarrow> 'w lane" where
  "lane_run decision input w calls = fold lane_step calls (lane_open decision input w)"

declare stop_drain.simps [simp del]

end
