(* ===== verification/Lane_Audio.thy ===== *)
theory Lane_Audio
  imports Recorder_Lane Machines
begin

section \<open>What a provider hears from its lane\<close>

text \<open>
  The theorems about the calls a lane makes. Any provider can be observed: \<open>logged\<close> answers as the provider does
  and writes every call with its outcome to a log, so that what is proved of the log holds for every provider.
\<close>

datatype provider_call =
    OpenCall "asr_error_kind option"
  | PushCall "f32 list" "asr_error_kind option"
  | CommitCall u64 "asr_error_kind option"
  | DrainCall
  | CloseCall "asr_error_kind option"
  | DropCall

definition error_of :: "asr_result \<Rightarrow> asr_error_kind option" where
  "error_of r = (case r of Inl e \<Rightarrow> Some e | Inr _ \<Rightarrow> None)"

lemma error_of_simps [simp]: "error_of (Inl e) = Some e" "error_of (Inr u) = None"
  by (simp_all add: error_of_def)

definition logged :: "'w asr_provider \<Rightarrow> ('w \<times> provider_call list) asr_provider" where
  "logged p = \<lparr>prov_mode = prov_mode p,
     prov_open = (\<lambda>input (w, log). case prov_open p input w of (w', r) \<Rightarrow> ((w', log @ [OpenCall (error_of r)]), r)),
     prov_push_audio = (\<lambda>s (w, log). case prov_push_audio p s w of (w', r) \<Rightarrow> ((w', log @ [PushCall s (error_of r)]), r)),
     prov_drain = (\<lambda>(w, log). case prov_drain p w of (w', es) \<Rightarrow> ((w', log @ [DrainCall]), es)),
     prov_close = (\<lambda>(w, log). case prov_close p w of (w', r) \<Rightarrow> ((w', log @ [CloseCall (error_of r)]), r)),
     prov_commit = (\<lambda>n (w, log). case prov_commit p n w of (w', r) \<Rightarrow> ((w', log @ [CommitCall n (error_of r)]), r)),
     prov_drop = (\<lambda>(w, log). (prov_drop p w, log @ [DropCall]))\<rparr>"

subsection \<open>The life of a provider\<close>

datatype provider_phase = NeverOpened | InSession | Closing | Failed | Dropped

text \<open>
  Opened once, then audio, commits and drains, then closed once and drained; after a fault it is only dropped, and
  a full queue is a fault of \<open>push_audio\<close> that the session survives.
\<close>

fun lifecycle :: "provider_phase \<Rightarrow> provider_call \<Rightarrow> provider_phase option" where
  "lifecycle NeverOpened (OpenCall None) = Some InSession"
| "lifecycle NeverOpened (OpenCall (Some _)) = Some Failed"
| "lifecycle InSession (PushCall samples None) = (if samples = [] then None else Some InSession)"
| "lifecycle InSession (PushCall samples (Some e)) =
     (if samples = [] then None else Some (if e = Overflow then InSession else Failed))"
| "lifecycle InSession (CommitCall _ None) = Some InSession"
| "lifecycle InSession (CommitCall _ (Some _)) = Some Failed"
| "lifecycle InSession DrainCall = Some InSession"
| "lifecycle InSession (CloseCall None) = Some Closing"
| "lifecycle InSession (CloseCall (Some _)) = Some Failed"
| "lifecycle InSession DropCall = Some Dropped"
| "lifecycle Closing DrainCall = Some Closing"
| "lifecycle Closing DropCall = Some Dropped"
| "lifecycle Failed DropCall = Some Dropped"
| "lifecycle _ _ = None"

lemma accept_append: "accept mon m (es @ fs) = (case accept mon m es of None \<Rightarrow> None | Some m' \<Rightarrow> accept mon m' fs)"
  by (induction es arbitrary: m) (auto split: option.split)

subsection \<open>Audio in the log\<close>

fun attempted :: "provider_call list \<Rightarrow> f32 list" where
  "attempted [] = []"
| "attempted (PushCall s _ # cs) = s @ attempted cs"
| "attempted (_ # cs) = attempted cs"

fun taken_samples :: "provider_call list \<Rightarrow> nat" where
  "taken_samples [] = 0"
| "taken_samples (PushCall s None # cs) = length s + taken_samples cs"
| "taken_samples (_ # cs) = taken_samples cs"

fun commits_on_clock :: "nat \<Rightarrow> provider_call list \<Rightarrow> bool" where
  "commits_on_clock n [] \<longleftrightarrow> True"
| "commits_on_clock n (PushCall s None # cs) \<longleftrightarrow> commits_on_clock (n + length s) cs"
| "commits_on_clock n (CommitCall sample _ # cs) \<longleftrightarrow> sample = min u64_max n \<and> commits_on_clock n cs"
| "commits_on_clock n (_ # cs) \<longleftrightarrow> commits_on_clock n cs"

lemma attempted_append [simp]: "attempted (a @ b) = attempted a @ attempted b"
  by (induction a rule: attempted.induct) simp_all

lemma taken_samples_append [simp]: "taken_samples (a @ b) = taken_samples a + taken_samples b"
  by (induction a rule: taken_samples.induct) simp_all

lemma commits_on_clock_append [simp]:
  "commits_on_clock n (a @ b) \<longleftrightarrow> commits_on_clock n a \<and> commits_on_clock (n + taken_samples a) b"
  by (induction n a rule: commits_on_clock.induct) (simp_all add: add.assoc)

definition calls_made :: "('w \<times> provider_call list) lane \<Rightarrow> provider_call list" where
  "calls_made l = snd (lane_world l)"

definition clock_ok :: "('w \<times> provider_call list) lane \<Rightarrow> bool" where
  "clock_ok l \<longleftrightarrow> pushed_samples l = min u64_max (taken_samples (calls_made l)) \<and> commits_on_clock 0 (calls_made l)"

text \<open>
  The audio offered so far: what the log has, then what the call in progress carries, then what is held, which is
  nothing in a session that does not hold audio back.
\<close>

definition audio_ok :: "f32 list \<Rightarrow> f32 list \<Rightarrow> ('w \<times> provider_call list) lane \<Rightarrow> bool" where
  "audio_ok offered carried l \<longleftrightarrow>
     (if is_live l then offered = attempted (calls_made l) @ carried @ held l \<and> (hold_back l \<or> held l = [])
      else \<exists>rest. offered = attempted (calls_made l) @ rest)"

definition phase_ok :: "'w asr_provider \<Rightarrow> ('w \<times> provider_call list) lane \<Rightarrow> bool" where
  "phase_ok p l \<longleftrightarrow>
     (case lane_provider l of
        Some q \<Rightarrow> q = logged p \<and> is_live l \<and> accept lifecycle NeverOpened (calls_made l) = Some InSession
      | None \<Rightarrow> \<not> is_live l \<and> (calls_made l = [] \<or> accept lifecycle NeverOpened (calls_made l) = Some Dropped))"

definition lane_ok :: "'w asr_provider \<Rightarrow> f32 list \<Rightarrow> f32 list \<Rightarrow> ('w \<times> provider_call list) lane \<Rightarrow> bool" where
  "lane_ok p offered carried l \<longleftrightarrow> phase_ok p l \<and> clock_ok l \<and> audio_ok offered carried l"

subsection \<open>Steps\<close>

lemma logged_calls [simp]:
  "prov_mode (logged p) = prov_mode p"
  "prov_push_audio (logged p) s wl = (case prov_push_audio p s (fst wl) of (w', r) \<Rightarrow> ((w', snd wl @ [PushCall s (error_of r)]), r))"
  "prov_open (logged p) i wl = (case prov_open p i (fst wl) of (w', r) \<Rightarrow> ((w', snd wl @ [OpenCall (error_of r)]), r))"
  "prov_drain (logged p) wl = (case prov_drain p (fst wl) of (w', es) \<Rightarrow> ((w', snd wl @ [DrainCall]), es))"
  "prov_close (logged p) wl = (case prov_close p (fst wl) of (w', r) \<Rightarrow> ((w', snd wl @ [CloseCall (error_of r)]), r))"
  "prov_commit (logged p) n wl = (case prov_commit p n (fst wl) of (w', r) \<Rightarrow> ((w', snd wl @ [CommitCall n (error_of r)]), r))"
  "prov_drop (logged p) wl = (prov_drop p (fst wl), snd wl @ [DropCall])"
  by (simp_all add: logged_def split_beta)

text \<open>The fields the invariant reads.\<close>

definition audio_view where
  "audio_view l = (lane_world l, is_live l, lane_provider l, held l, hold_back l, pushed_samples l)"

lemma lane_ok_cong: "audio_view l = audio_view l' \<Longrightarrow> lane_ok p offered carried l = lane_ok p offered carried l'"
  by (cases "lane_provider l'") (simp_all add: audio_view_def lane_ok_def phase_ok_def clock_ok_def audio_ok_def calls_made_def)

lemma note_degrade_view [simp]: "audio_view (note_degrade r l) = audio_view l"
  by (simp add: note_degrade_def audio_view_def is_live_def)

lemma bump_errors_view [simp]: "audio_view (bump_errors l) = audio_view l"
  by (simp add: bump_errors_def audio_view_def is_live_def)

lemma lane_ok_note [simp]: "lane_ok p offered carried (note_degrade r l) = lane_ok p offered carried l"
  by (rule lane_ok_cong) simp

text \<open>Dropping is allowed from a session and after a fault.\<close>

lemma degrade_ok:
  assumes "lane_provider l = Some (logged p)" and "clock_ok l"
    and "accept lifecycle NeverOpened (calls_made l) \<in> {Some InSession, Some Failed}"
    and "offered = attempted (calls_made l) @ rest"
  shows "lane_ok p offered carried (degrade_dropping_provider reason l)"
  using assms unfolding degrade_dropping_provider_def lane_ok_note
  by (auto simp: drop_provider_def lane_ok_def phase_ok_def clock_ok_def audio_ok_def calls_made_def is_live_def accept_append)

lemma lane_ok_live:
  assumes "lane_ok p offered carried l" and "is_live l"
  shows "lane_provider l = Some (logged p)" "clock_ok l" "accept lifecycle NeverOpened (calls_made l) = Some InSession"
    "offered = attempted (calls_made l) @ carried @ held l" "hold_back l \<or> held l = []"
  using assms by (auto simp: lane_ok_def phase_ok_def audio_ok_def split: option.splits)

lemma lane_ok_dead: "lane_ok p offered carried l \<Longrightarrow> \<not> is_live l \<Longrightarrow> lane_ok p (offered @ x) carried' l"
  by (auto simp: lane_ok_def audio_ok_def)

lemma push_samples_ok:
  assumes "lane_ok p offered samples l"
  shows "lane_ok p offered [] (fst (push_samples samples l))"
proof (cases "samples = [] \<or> \<not> is_live l")
  case True
  then show ?thesis using assms by (auto simp: push_samples_def lane_ok_def audio_ok_def)
next
  case False
  note live = lane_ok_live [OF assms] False
  obtain w r where call: "prov_push_audio p samples (fst (lane_world l)) = (w, r)" by fastforce
  let ?l = "l\<lparr>lane_world := (w, calls_made l @ [PushCall samples (error_of r)])\<rparr>"
  have log: "calls_made ?l = calls_made l @ [PushCall samples (error_of r)]" by (simp add: calls_made_def)
  show ?thesis
  proof (cases r)
    case (Inr u)
    show ?thesis
      using live call Inr
      by (auto simp: push_samples_def lane_ok_def phase_ok_def clock_ok_def audio_ok_def calls_made_def is_live_def
          accept_append u64_max_def min_def)
  next
    case (Inl e)
    have log': "calls_made l' = calls_made l @ [PushCall samples (Some e)]"
      if "lane_world l' = (w, calls_made l @ [PushCall samples (Some e)])" for l' :: "('a \<times> provider_call list) lane"
      using that by (simp add: calls_made_def)
    have step: "accept lifecycle NeverOpened (calls_made l @ [PushCall samples (Some e)])
        = Some (if e = Overflow then InSession else Failed)"
      using live by (simp add: accept_append)
    have over: "lane_ok p offered [] l'"
      if "e = Overflow" "lane_world l' = (w, calls_made l @ [PushCall samples (Some e)])" "pushed_samples l' = pushed_samples l"
        "held l' = held l" "hold_back l' = hold_back l" "lane_provider l' = lane_provider l" "lane_state l' = lane_state l" for l'
      using that log' [OF that(2)] step live by (auto simp: lane_ok_def phase_ok_def audio_ok_def clock_ok_def is_live_def)
    have fault: "lane_ok p offered [] (degrade_dropping_provider reason l')"
      if "lane_world l' = (w, calls_made l @ [PushCall samples (Some e)])" "pushed_samples l' = pushed_samples l"
        "lane_provider l' = lane_provider l" for l' reason
      using that log' [OF that(1)] step live by (intro degrade_ok) (auto simp: clock_ok_def)
    have "is_live l" "samples \<noteq> []" "lane_provider l = Some (logged p)" using live False by simp_all
    then show ?thesis
      using call Inl
      by (auto simp: push_samples_def Let_def bump_errors_def calls_made_def [symmetric] is_live_def intro!: over fault)
  qed
qed

lemma audio_view_telemetry [simp]:
  "audio_view (l\<lparr>telemetry := t\<rparr>) = audio_view l" "audio_view (l\<lparr>commit_late_lags := c\<rparr>) = audio_view l"
  "audio_view (l\<lparr>lane_ingest := g\<rparr>) = audio_view l" "audio_view (l\<lparr>draft := d\<rparr>) = audio_view l"
  "audio_view (l\<lparr>pending_forward := a\<rparr>) = audio_view l" "audio_view (l\<lparr>lane_finals := b\<rparr>) = audio_view l"
  "audio_view (l\<lparr>unforwarded_after_exit := n\<rparr>) = audio_view l" "audio_view (l\<lparr>degrade_notice := e\<rparr>) = audio_view l"
  by (simp_all add: audio_view_def is_live_def)

text \<open>Moving held samples into the call in progress.\<close>

lemma lane_ok_release:
  "lane_ok p offered [] l \<Longrightarrow> is_live l \<Longrightarrow> lane_ok p offered (take n (held l)) (l\<lparr>held := drop n (held l)\<rparr>)"
  by (auto simp: lane_ok_def phase_ok_def clock_ok_def audio_ok_def calls_made_def is_live_def split: option.splits)

lemma lane_ok_hold:
  "lane_ok p offered [] l \<Longrightarrow> is_live l \<Longrightarrow> hold_back l \<Longrightarrow> lane_ok p (offered @ s) [] (l\<lparr>held := held l @ s\<rparr>)"
  by (auto simp: lane_ok_def phase_ok_def clock_ok_def audio_ok_def calls_made_def is_live_def split: option.splits)

lemma lane_ok_carry: "lane_ok p offered [] l \<Longrightarrow> is_live l \<Longrightarrow> \<not> hold_back l \<Longrightarrow> lane_ok p (offered @ s) s l"
  by (auto simp: lane_ok_def audio_ok_def)

lemma release_aged_ok: "lane_ok p offered [] l \<Longrightarrow> is_live l \<Longrightarrow> lane_ok p offered [] (fst (release_aged l))"
  by (auto simp: release_aged_def Let_def intro: push_samples_ok lane_ok_release)

lemma flush_holdback_ok:
  assumes "lane_ok p offered [] l"
  shows "lane_ok p offered [] (fst (flush_holdback l))"
  using assms lane_ok_release [OF assms, of "length (held l)"]
  by (auto simp: flush_holdback_def intro: push_samples_ok)

lemma provider_commit_ok:
  assumes "lane_ok p offered [] l"
  shows "lane_ok p offered [] (provider_commit (pushed_samples l) l)"
proof (cases "is_live l")
  case True
  note live = lane_ok_live [OF assms True] True
  obtain w r where call: "prov_commit p (pushed_samples l) (fst (lane_world l)) = (w, r)" by fastforce
  have on_clock: "pushed_samples l = min u64_max (taken_samples (calls_made l))" "commits_on_clock 0 (calls_made l)"
    using live(2) by (simp_all add: clock_ok_def)
  show ?thesis
  proof (cases r)
    case (Inr u)
    show ?thesis
      using live call Inr on_clock
      by (auto simp: provider_commit_def lane_ok_def phase_ok_def clock_ok_def audio_ok_def calls_made_def is_live_def
          accept_append)
  next
    case (Inl e)
    show ?thesis
      using live call Inl on_clock
      by (auto simp: provider_commit_def bump_errors_def clock_ok_def calls_made_def accept_append intro!: degrade_ok)
  qed
qed (simp add: provider_commit_def assms)

lemma commit_through_ok:
  assumes "lane_ok p offered [] l"
  shows "lane_ok p offered [] (fst (commit_through sample l))"
proof -
  have late: "lane_ok p offered [] (provider_commit (pushed_samples l) (l\<lparr>commit_late_lags := c\<rparr>))" for c
    using provider_commit_ok [of p offered "l\<lparr>commit_late_lags := c\<rparr>"] assms
    by (simp add: lane_ok_cong [of "l\<lparr>commit_late_lags := c\<rparr>" l])
  have push: "lane_ok p offered [] (fst (push_samples (take n (held l)) (l\<lparr>held := drop n (held l)\<rparr>)))" if "is_live l" for n
    using assms that by (intro push_samples_ok lane_ok_release)
  show ?thesis
    using assms late push by (auto simp: commit_through_def Let_def intro: provider_commit_ok)
qed

lemma route_event_view:
  "is_live (route_event e l) \<and> audio_view (route_event e l) = audio_view l
   \<or> (\<exists>reason l'. route_event e l = degrade_dropping_provider reason l' \<and> is_live l \<and> audio_view l' = audio_view l)
   \<or> \<not> is_live l \<and> audio_view (route_event e l) = audio_view l"
proof -
  obtain g v where i: "ingest (lane_ingest l) e = (g, v)" by fastforce
  show ?thesis
  proof (cases "\<exists>x. v = Accepted \<and> e = ErrorEvent x \<and> session_fatal (er_kind x) \<and> is_live l")
    case True
    then show ?thesis using i by (force simp: route_event_def Let_def is_live_def bump_errors_def)
  next
    case False
    then have "audio_view (route_event e l) = audio_view l"
      using i by (cases v; cases e) (auto simp: route_event_def Let_def is_live_def bump_errors_def)
    then show ?thesis by (auto simp: audio_view_def)
  qed
qed

lemma lane_ok_degrade:
  assumes "lane_ok p offered [] l" and "is_live l" and "audio_view l' = audio_view l"
  shows "lane_ok p offered [] (degrade_dropping_provider reason l')"
proof -
  have "lane_ok p offered [] l'" "is_live l'"
    using assms lane_ok_cong [OF assms(3)] by (simp_all add: audio_view_def)
  from lane_ok_live [OF this] show ?thesis by (intro degrade_ok) auto
qed

lemma route_event_ok:
  assumes "lane_ok p offered [] l"
  shows "lane_ok p offered [] (route_event e l)"
  using route_event_view [of e l] assms lane_ok_cong [of "route_event e l" l] lane_ok_degrade [OF assms]
  by (metis (no_types, lifting))

lemma route_while_live_ok: "lane_ok p offered [] l \<Longrightarrow> lane_ok p offered [] (route_while_live es l)"
  by (induction es l rule: route_while_live.induct) (auto simp: Let_def intro: route_event_ok)

lemma poll_lane_ok:
  assumes "lane_ok p offered [] l"
  shows "lane_ok p offered [] (poll_lane l)"
proof (cases "is_live l")
  case True
  note live = lane_ok_live [OF assms True] True
  obtain w es where call: "prov_drain p (fst (lane_world l)) = (w, es)" by fastforce
  have "lane_ok p offered [] (l\<lparr>lane_world := (w, snd (lane_world l) @ [DrainCall])\<rparr>)"
    using live by (auto simp: lane_ok_def phase_ok_def clock_ok_def audio_ok_def calls_made_def is_live_def accept_append)
  from route_while_live_ok [OF this, of es] show ?thesis using live call by (simp add: poll_lane_def)
qed (simp add: poll_lane_def assms)

subsection \<open>The stop path\<close>

text \<open>While the lane stops, the provider is out of its option; the log is in the phase of the call before.\<close>

definition stopping_ok :: "provider_phase set \<Rightarrow> f32 list \<Rightarrow> ('w \<times> provider_call list) lane \<Rightarrow> bool" where
  "stopping_ok phases offered l \<longleftrightarrow> lane_provider l = None \<and> clock_ok l \<and> (\<exists>rest. offered = attempted (calls_made l) @ rest)
     \<and> accept lifecycle NeverOpened (calls_made l) \<in> Some ` phases"

lemma stopping_cong:
  "lane_world l = lane_world l' \<Longrightarrow> pushed_samples l = pushed_samples l' \<Longrightarrow> lane_provider l = lane_provider l'
    \<Longrightarrow> stopping_ok phases offered l = stopping_ok phases offered l'"
  by (simp add: stopping_ok_def clock_ok_def calls_made_def)

lemma stopping_note [simp]:
  "stopping_ok phases offered (note_degrade r l) = stopping_ok phases offered l"
  "stopping_ok phases offered (bump_errors l) = stopping_ok phases offered l"
  by (simp_all add: note_degrade_def bump_errors_def stopping_ok_def clock_ok_def calls_made_def)

lemma route_event_stopping: "stopping_ok phases offered l \<Longrightarrow> stopping_ok phases offered (route_event e l)"
proof -
  assume ok: "stopping_ok phases offered l"
  have none: "lane_provider l = None" using ok by (simp add: stopping_ok_def)
  obtain g v where i: "ingest (lane_ingest l) e = (g, v)" by fastforce
  have "lane_world (route_event e l) = lane_world l \<and> pushed_samples (route_event e l) = pushed_samples l
      \<and> lane_provider (route_event e l) = None"
    using i none by (cases v; cases e)
      (auto simp: route_event_def Let_def bump_errors_def degrade_dropping_provider_def drop_provider_def note_degrade_def)
  with ok none show ?thesis using stopping_cong [of "route_event e l" l] by simp
qed

lemma route_all_stopping: "stopping_ok phases offered l \<Longrightarrow> stopping_ok phases offered (fold route_event es l)"
  by (induction es arbitrary: l) (auto intro: route_event_stopping)

lemma drain_and_route_stopping:
  assumes "stopping_ok {ph} offered l" and "lifecycle ph DrainCall = Some ph"
  shows "stopping_ok {ph} offered (fst (drain_and_route (logged p) l))"
proof -
  obtain w es where call: "prov_drain p (fst (lane_world l)) = (w, es)" by fastforce
  have "stopping_ok {ph} offered (l\<lparr>lane_world := (w, snd (lane_world l) @ [DrainCall])\<rparr>)"
    using assms by (auto simp: stopping_ok_def clock_ok_def calls_made_def accept_append)
  then show ?thesis using call by (simp add: drain_and_route_def route_all_stopping)
qed

lemma stop_drain_stopping:
  "stopping_ok {Closing} offered l \<Longrightarrow> stopping_ok {Closing} offered (stop_drain (logged p) polls l)"
proof (induction "logged p" polls l rule: stop_drain.induct)
  case (1 polls l)
  obtain l' quiet where d: "drain_and_route (logged p) l = (l', quiet)" by fastforce
  have ok: "stopping_ok {Closing} offered l'" using drain_and_route_stopping [OF "1.prems", of p] d by simp
  show ?case
    using 1 d ok by (cases quiet) (simp_all add: stop_drain.simps [of _ _ l])
qed

lemma close_provider_stopping:
  assumes "stopping_ok {InSession} offered l"
  shows "stopping_ok {Closing, Failed} offered (close_provider (logged p) l)"
proof -
  obtain w r where call: "prov_close p (fst (lane_world l)) = (w, r)" by fastforce
  have mono: "stopping_ok {a} offered l' \<Longrightarrow> a \<in> {Closing, Failed} \<Longrightarrow> stopping_ok {Closing, Failed} offered l'"
    for a and l' :: "('a \<times> provider_call list) lane"
    by (auto simp: stopping_ok_def)
  have "stopping_ok {if r = Inr () then Closing else Failed} offered
      (l\<lparr>lane_world := (w, snd (lane_world l) @ [CloseCall (error_of r)])\<rparr>)"
    using assms by (cases r) (auto simp: stopping_ok_def clock_ok_def calls_made_def accept_append)
  then show ?thesis
    using call mono [of Closing] mono [of Failed]
    by (cases r) (auto simp: close_provider_def intro: stop_drain_stopping)
qed

lemma stop_lane_ok:
  assumes "lane_ok p offered [] l"
  shows "lane_ok p offered [] (fst (stop_lane l))"
proof -
  define l1 where "l1 = (if is_live l then fst (flush_holdback l) else l)"
  have ok: "lane_ok p offered [] l1" using assms by (auto simp: l1_def intro: flush_holdback_ok)
  show ?thesis
  proof (cases "lane_provider l1")
    case None
    then have "fst (stop_lane l) = l1\<lparr>draft := Map.empty, lane_state := Stopped, lane_finals := []\<rparr>"
      by (simp add: stop_lane_def Let_def flip: l1_def)
    moreover have "\<not> is_live l1" using ok None by (simp add: lane_ok_def phase_ok_def)
    ultimately show ?thesis
      using ok None by (auto simp: lane_ok_def phase_ok_def clock_ok_def audio_ok_def calls_made_def is_live_def)
  next
    case (Some q)
    have live: "is_live l1" and q: "q = logged p" using ok Some by (simp_all add: lane_ok_def phase_ok_def)
    let ?c = "close_provider (logged p) (fst (drain_and_route (logged p) (l1\<lparr>lane_provider := None\<rparr>)))"
    have "stopping_ok {InSession} offered (l1\<lparr>lane_provider := None\<rparr>)"
      using lane_ok_live [OF ok live] by (auto simp: stopping_ok_def clock_ok_def calls_made_def)
    from close_provider_stopping [OF drain_and_route_stopping [OF this, of p]]
    have closed: "stopping_ok {Closing, Failed} offered ?c" by simp
    have "fst (stop_lane l) = ?c\<lparr>lane_world := prov_drop (logged p) (lane_world ?c), draft := Map.empty,
        lane_state := Stopped, lane_finals := []\<rparr>"
      using Some q by (simp add: stop_lane_def Let_def flip: l1_def)
    then show ?thesis
      using closed
      by (auto simp: stopping_ok_def lane_ok_def phase_ok_def clock_ok_def audio_ok_def calls_made_def is_live_def accept_append)
  qed
qed

subsection \<open>Whole recordings\<close>

fun observed :: "'w layer1_decision \<Rightarrow> ('w \<times> provider_call list) layer1_decision" where
  "observed Disarmed = Disarmed"
| "observed (LocalTailPatch t) = LocalTailPatch t"
| "observed (Armed p) = Armed (logged p)"
| "observed (Cloud p t r e) = Cloud (logged p) t r e"

definition observed_lane :: "'w layer1_decision \<Rightarrow> session_input \<Rightarrow> 'w \<Rightarrow> lane_call list \<Rightarrow> ('w \<times> provider_call list) lane" where
  "observed_lane decision input w calls = lane_run (observed decision) input (w, []) calls"

definition step_audio :: "lane_call \<Rightarrow> 'w lane \<Rightarrow> f32 list" where
  "step_audio c l = (case c of OfferPcm s \<Rightarrow> if is_live l then s else [] | _ \<Rightarrow> [])"

text \<open>The audio offered while the lane was live.\<close>

fun live_audio :: "lane_call list \<Rightarrow> 'w lane \<Rightarrow> f32 list" where
  "live_audio [] l = []"
| "live_audio (c # cs) l = step_audio c l @ live_audio cs (lane_step c l)"

lemma lane_step_ok:
  assumes "lane_ok p offered [] l"
  shows "lane_ok p (offered @ step_audio c l) [] (lane_step c l)"
proof (cases c)
  case (OfferPcm s)
  define l0 where "l0 = l\<lparr>telemetry := (telemetry l)\<lparr>frames_offered := frames_offered (telemetry l) + 1\<rparr>\<rparr>"
  have l0: "lane_ok p offered [] l0" "is_live l0 = is_live l" "hold_back l0 = hold_back l"
    using assms lane_ok_cong [of l0 l] by (simp_all add: l0_def is_live_def)
  have step: "fst (offer_pcm s l) = (if \<not> is_live l0 \<or> s = [] then l0
      else if \<not> hold_back l0 then fst (push_samples s l0) else fst (release_aged (l0\<lparr>held := held l0 @ s\<rparr>)))"
    unfolding offer_pcm_def Let_def l0_def [symmetric] by simp
  show ?thesis
  proof (cases "is_live l \<and> s \<noteq> []")
    case True
    have "lane_ok p (offered @ s) [] (l0\<lparr>held := held l0 @ s\<rparr>)" if "hold_back l0"
      using lane_ok_hold [OF l0(1)] l0(2) True that by simp
    moreover have "lane_ok p (offered @ s) s l0" if "\<not> hold_back l0"
      using lane_ok_carry [OF l0(1)] l0(2) True that by simp
    ultimately show ?thesis
      using True l0(2) release_aged_ok [of p "offered @ s" "l0\<lparr>held := held l0 @ s\<rparr>"]
      by (auto simp: step step_audio_def OfferPcm is_live_def intro: push_samples_ok)
  next
    case False
    then show ?thesis using l0 by (auto simp: step step_audio_def OfferPcm)
  qed
next
  case NoteSleepWake
  then show ?thesis using assms lane_ok_degrade [OF assms _ refl] by (auto simp: step_audio_def note_sleep_wake_def)
next
  case Poll
  then show ?thesis using assms by (simp add: step_audio_def poll_lane_ok)
next
  case (CommitThrough n)
  then show ?thesis using assms by (simp add: step_audio_def commit_through_ok)
next
  case StopLane
  then show ?thesis using assms by (simp add: step_audio_def stop_lane_ok)
next
  case FlushHoldback
  then show ?thesis using assms by (simp add: step_audio_def flush_holdback_ok)
qed (use assms lane_ok_cong [of "lane_step c l" l] in
    \<open>simp_all add: step_audio_def take_unforwarded_finals_def note_final_after_worker_exit_def take_degrade_notice_def\<close>)

lemma idle_lane_ok: "lane_ok p [] [] (idle_lane input (w, []))"
  by (simp add: idle_lane_def lane_ok_def phase_ok_def clock_ok_def audio_ok_def calls_made_def is_live_def)

lemma open_provider_ok: "lane_ok p [] [] (open_provider (logged p) input (idle_lane input (w, [])))"
proof -
  obtain w' r where call: "prov_open p input w = (w', r)" by fastforce
  show ?thesis
    using call
    by (cases r) (auto simp: open_provider_def idle_lane_def degrade_dropping_provider_def drop_provider_def note_degrade_def
        lane_ok_def phase_ok_def clock_ok_def audio_ok_def calls_made_def is_live_def u64_max_def)
qed

lemma lane_open_ok: "\<exists>p. lane_ok p [] [] (lane_open (observed decision) input (w, []))"
  by (cases decision) (auto simp: lane_open_def Let_def intro: idle_lane_ok open_provider_ok)

lemma lane_run_ok: "lane_ok p offered [] l \<Longrightarrow> lane_ok p (offered @ live_audio calls l) [] (fold lane_step calls l)"
proof (induction calls arbitrary: offered l)
  case (Cons c calls)
  from Cons.IH [OF lane_step_ok [OF Cons.prems, of c]] show ?case by simp
qed simp

lemma observed_lane_ok:
  obtains p where "lane_ok p (live_audio calls (lane_open (observed decision) input (w, []))) [] (observed_lane decision input w calls)"
  using lane_open_ok [of decision input w] lane_run_ok [of _ "[]"] that
  unfolding observed_lane_def lane_run_def by (metis append_Nil)

text \<open>C16. A lane keeps the provider's contract, whatever the provider answers and whatever is asked of the lane: the
  provider is opened once before anything else, hears only non-empty audio, commits and drains while the session
  lasts, is closed at most once, is only drained between the close and the drop, is never called again after a
  fault other than a full queue, and is dropped exactly when the lane has left the live state.
\<close>

theorem provider_lifecycle_respected:
  "(let l = observed_lane decision input w calls; phase = accept lifecycle NeverOpened (calls_made l) in
     if is_live l then phase = Some InSession \<and> lane_provider l \<noteq> None
     else (calls_made l = [] \<or> phase = Some Dropped) \<and> lane_provider l = None)"
proof -
  obtain p where "lane_ok p (live_audio calls (lane_open (observed decision) input (w, []))) [] (observed_lane decision input w calls)"
    by (rule observed_lane_ok)
  then show ?thesis by (auto simp: Let_def lane_ok_def phase_ok_def split: option.splits)
qed


subsection \<open>Stopping ends\<close>

definition drain_calls :: "provider_call list \<Rightarrow> nat" where
  "drain_calls cs = length (filter (\<lambda>c. c = DrainCall) cs)"

lemma drain_calls_simps [simp]:
  "drain_calls [] = 0" "drain_calls (c # cs) = (if c = DrainCall then 1 else 0) + drain_calls cs"
  "drain_calls (a @ b) = drain_calls a + drain_calls b"
  by (simp_all add: drain_calls_def)

lemma route_event_out:
  "lane_provider l = None \<Longrightarrow> calls_made (route_event e l) = calls_made l \<and> lane_provider (route_event e l) = None"
  by (cases "snd (ingest (lane_ingest l) e)"; cases e)
    (auto simp: route_event_def Let_def split_beta bump_errors_def degrade_dropping_provider_def drop_provider_def
      note_degrade_def calls_made_def)

lemma route_all_out:
  "lane_provider l = None \<Longrightarrow> calls_made (fold route_event es l) = calls_made l \<and> lane_provider (fold route_event es l) = None"
  by (induction es arbitrary: l) (simp_all add: route_event_out)

lemma drain_and_route_out:
  assumes "lane_provider l = None"
  shows "calls_made (fst (drain_and_route (logged p) l)) = calls_made l @ [DrainCall]
    \<and> lane_provider (fst (drain_and_route (logged p) l)) = None"
proof -
  obtain w es where call: "prov_drain p (fst (lane_world l)) = (w, es)" by fastforce
  show ?thesis
    using call route_all_out [of "l\<lparr>lane_world := (w, snd (lane_world l) @ [DrainCall])\<rparr>" es] assms
    by (simp add: drain_and_route_def calls_made_def)
qed

lemma stop_drain_out:
  "lane_provider l = None \<Longrightarrow> polls < STOP_DRAIN_MAX_POLLS \<Longrightarrow>
    drain_calls (calls_made (stop_drain (logged p) polls l)) \<le> drain_calls (calls_made l) + (STOP_DRAIN_MAX_POLLS - polls)"
proof (induction "logged p" polls l rule: stop_drain.induct)
  case (1 polls l)
  obtain l' quiet where d: "drain_and_route (logged p) l = (l', quiet)" by fastforce
  have l': "calls_made l' = calls_made l @ [DrainCall]" "lane_provider l' = None"
    using drain_and_route_out [OF "1.prems"(1), of p] d by simp_all
  have noted: "calls_made (note_degrade r l') = calls_made l'" for r by (simp add: note_degrade_def calls_made_def)
  show ?case
  proof (cases "quiet \<or> STOP_DRAIN_MAX_POLLS \<le> polls + 1")
    case True
    then show ?thesis using d l' noted "1.prems" by (auto simp: stop_drain.simps [of _ _ l] split: bool.split)
  next
    case False
    then have "drain_calls (calls_made (stop_drain (logged p) (polls + 1) l'))
        \<le> drain_calls (calls_made l') + (STOP_DRAIN_MAX_POLLS - (polls + 1))"
      using "1.hyps" [of l' quiet] d l'(2) by simp
    then have "drain_calls (calls_made (stop_drain (logged p) (polls + 1) l'))
        \<le> drain_calls (calls_made l) + (STOP_DRAIN_MAX_POLLS - polls)"
      using False l' by simp linarith
    then show ?thesis using False d by (simp add: stop_drain.simps [of _ _ l])
  qed
qed

lemma degrade_drains:
  "lane_provider l = Some (logged p) \<Longrightarrow>
    drain_calls (calls_made (degrade_dropping_provider reason l)) = drain_calls (calls_made l)"
  by (simp add: degrade_dropping_provider_def drop_provider_def note_degrade_def calls_made_def)

lemma flush_drains:
  assumes "lane_ok p offered [] l"
  shows "drain_calls (calls_made (fst (flush_holdback l))) = drain_calls (calls_made l)"
proof (cases "is_live l \<and> held l \<noteq> []")
  case True
  then have p: "lane_provider l = Some (logged p)" using lane_ok_live [OF assms] by simp
  obtain w r where "prov_push_audio p (held l) (fst (lane_world l)) = (w, r)" by fastforce
  with p True show ?thesis
    by (cases r) (auto simp: flush_holdback_def push_samples_def Let_def is_live_def bump_errors_def calls_made_def
        degrade_dropping_provider_def drop_provider_def note_degrade_def)
qed (auto simp: flush_holdback_def)

lemma close_drains:
  assumes "lane_provider l = None"
  shows "drain_calls (calls_made (close_provider (logged p) l)) \<le> drain_calls (calls_made l) + STOP_DRAIN_MAX_POLLS"
proof -
  obtain w r where call: "prov_close p (fst (lane_world l)) = (w, r)" by fastforce
  let ?l = "l\<lparr>lane_world := (w, snd (lane_world l) @ [CloseCall None])\<rparr>"
  have "drain_calls (calls_made (stop_drain (logged p) 0 ?l)) \<le> drain_calls (calls_made ?l) + STOP_DRAIN_MAX_POLLS"
    using stop_drain_out [of ?l 0 p] assms by (simp add: STOP_DRAIN_MAX_POLLS_def)
  then show ?thesis
    using call by (cases r) (simp_all add: close_provider_def calls_made_def note_degrade_def bump_errors_def)
qed

text \<open>The stop path ends, however much the provider has to say: stopping a lane drains its provider at most once
  before and \<open>STOP_DRAIN_MAX_POLLS\<close> times after the close, and leaves the lane stopped, without a
  provider and without drafts.
\<close>

theorem stop_drains_boundedly:
  "(let l = observed_lane decision input w calls; l' = fst (stop_lane l) in
     drain_calls (calls_made l') \<le> drain_calls (calls_made l) + 1 + STOP_DRAIN_MAX_POLLS
     \<and> lane_state l' = Stopped \<and> lane_provider l' = None \<and> draft l' = Map.empty)"
proof -
  let ?l = "observed_lane decision input w calls"
  define l1 where "l1 = (if is_live ?l then fst (flush_holdback ?l) else ?l)"
  obtain p where ok: "lane_ok p (live_audio calls (lane_open (observed decision) input (w, []))) [] ?l"
    by (rule observed_lane_ok)
  have ok1: "lane_ok p (live_audio calls (lane_open (observed decision) input (w, []))) [] l1"
    using ok by (simp add: l1_def flush_holdback_ok)
  have flushed: "drain_calls (calls_made l1) = drain_calls (calls_made ?l)"
    using flush_drains [OF ok] by (simp add: l1_def)
  have none: "lane_provider (fst (stop_lane ?l)) = None"
    using stop_lane_ok [OF ok]
    by (auto simp: lane_ok_def phase_ok_def is_live_def stop_lane_def Let_def split: option.splits)
  show ?thesis
  proof (cases "lane_provider l1")
    case None
    then show ?thesis using flushed by (simp add: Let_def stop_lane_def calls_made_def flip: l1_def)
  next
    case (Some q)
    have q: "q = logged p" using ok1 Some by (simp add: lane_ok_def phase_ok_def)
    let ?d = "fst (drain_and_route (logged p) (l1\<lparr>lane_provider := None\<rparr>))"
    have d: "calls_made ?d = calls_made l1 @ [DrainCall]" "lane_provider ?d = None"
      using drain_and_route_out [of "l1\<lparr>lane_provider := None\<rparr>" p] by (simp_all add: calls_made_def)
    have "drain_calls (calls_made (close_provider (logged p) ?d)) \<le> drain_calls (calls_made ?d) + STOP_DRAIN_MAX_POLLS"
      using close_drains [OF d(2)] by simp
    then show ?thesis
      using Some q flushed d(1) none by (simp add: Let_def stop_lane_def calls_made_def flip: l1_def)
  qed
qed

end
