(* ===== verification/Lane_Events.thy ===== *)
theory Lane_Events
  imports Lane_Audio
begin

section \<open>Finals, drafts and the degrade notice of a lane\<close>

text \<open>
  What a session gets from its lane: the finals it forwards and the outcome of the stop, against the event ledger
  of \<open>Asr_Ingest\<close>; the single degrade notice; and the clock of a commit after a refused frame.
\<close>

subsection \<open>Steps that do not read events\<close>

definition quiet :: "'w lane \<Rightarrow> 'w lane \<Rightarrow> bool" where
  "quiet l l' \<longleftrightarrow> lane_ingest l' = lane_ingest l \<and> lane_finals l' = lane_finals l \<and> pending_forward l' = pending_forward l
     \<and> finals_accepted (telemetry l') = finals_accepted (telemetry l)
     \<and> events_rejected (telemetry l') = events_rejected (telemetry l)
     \<and> (lane_state l' = lane_state l \<or> is_live l \<and> lane_state l' \<noteq> Stopped)
     \<and> (lane_provider l' = lane_provider l \<or> lane_provider l' = None)
     \<and> (draft l' = draft l \<or> draft l' = Map.empty)
     \<and> (lane_degrade l' = lane_degrade l \<and> degrade_notice l' = degrade_notice l
        \<or> lane_degrade l = None \<and> (\<exists>r. lane_degrade l' = Some r \<and> degrade_notice l' = Some r))"

lemma quiet_refl [simp, intro]: "quiet l l"
  by (simp add: quiet_def)

lemma quiet_state: "quiet l l' \<Longrightarrow> lane_state l \<noteq> Stopped \<Longrightarrow> lane_state l' \<noteq> Stopped"
  by (auto simp: quiet_def)

lemma quiet_chain: "quiet l l' \<Longrightarrow> quiet l' l'' \<Longrightarrow> quiet l l''"
  unfolding quiet_def is_live_def by (elim conjE disjE exE; simp)

lemma quiet_note: "quiet l (note_degrade r l)"
  by (simp add: quiet_def note_degrade_def)

lemma quiet_bump: "quiet l (bump_errors l)"
  by (simp add: quiet_def bump_errors_def)

lemma quiet_fields:
  "quiet l (l\<lparr>lane_world := w\<rparr>)" "quiet l (l\<lparr>held := h\<rparr>)" "quiet l (l\<lparr>commit_late_lags := c\<rparr>)"
  "quiet l (l\<lparr>lane_provider := None\<rparr>)" "quiet l (l\<lparr>unforwarded_after_exit := n\<rparr>)"
  by (simp_all add: quiet_def)

lemma quiet_degrade: "is_live l \<Longrightarrow> quiet l (degrade_dropping_provider r l)"
  by (auto simp: quiet_def degrade_dropping_provider_def drop_provider_def note_degrade_def split: option.split)

lemma quiet_push: "quiet l (fst (push_samples s l))"
proof (cases "s = [] \<or> \<not> is_live l \<or> lane_provider l = None")
  case False
  then obtain p where p: "lane_provider l = Some p" "is_live l" by auto
  obtain w r where call: "prov_push_audio p s (lane_world l) = (w, r)" by fastforce
  show ?thesis
  proof (cases r)
    case (Inl e)
    define l1 where "l1 = l\<lparr>lane_world := w, telemetry := (telemetry l)\<lparr>overflow_frame_drops := Suc (overflow_frame_drops (telemetry l))\<rparr>,
        consecutive_overflows := Suc (consecutive_overflows l)\<rparr>"
    have "quiet l l1" "is_live l1" using p by (simp_all add: l1_def quiet_def is_live_def)
    then have over: "quiet l l1" "quiet l (degrade_dropping_provider OverflowSustained l1)"
      by (auto intro: quiet_chain quiet_degrade)
    have "quiet l (bump_errors (l\<lparr>lane_world := w\<rparr>))" "is_live (bump_errors (l\<lparr>lane_world := w\<rparr>))"
      using p by (simp_all add: quiet_def bump_errors_def is_live_def)
    then have "quiet l (degrade_dropping_provider (Disconnect e) (bump_errors (l\<lparr>lane_world := w\<rparr>)))"
      by (auto intro: quiet_chain quiet_degrade)
    then show ?thesis using call Inl p over by (auto simp: push_samples_def Let_def l1_def)
  qed (use call p in \<open>auto simp: push_samples_def quiet_def is_live_def\<close>)
qed (auto simp: push_samples_def)

lemma quiet_commit: "quiet l (provider_commit n l)"
proof (cases "is_live l \<and> lane_provider l \<noteq> None")
  case True
  then obtain p where p: "lane_provider l = Some p" "is_live l" by auto
  obtain w r where call: "prov_commit p n (lane_world l) = (w, r)" by fastforce
  have "quiet l (bump_errors (l\<lparr>lane_world := w\<rparr>))" "is_live (bump_errors (l\<lparr>lane_world := w\<rparr>))"
    using p by (simp_all add: quiet_def bump_errors_def is_live_def)
  then have "quiet l (degrade_dropping_provider (Disconnect e) (bump_errors (l\<lparr>lane_world := w\<rparr>)))" for e
    by (auto intro: quiet_chain quiet_degrade)
  then show ?thesis using call p quiet_fields(1) by (cases r) (auto simp: provider_commit_def)
qed (auto simp: provider_commit_def)

lemma quiet_release: "quiet l (fst (release_aged l))"
  by (auto simp: release_aged_def Let_def intro: quiet_chain [OF quiet_fields(2) quiet_push])

lemma quiet_offer: "quiet l (fst (offer_pcm s l))"
proof -
  have t: "quiet l (l\<lparr>telemetry := (telemetry l)\<lparr>frames_offered := n\<rparr>\<rparr>)" for n by (simp add: quiet_def)
  show ?thesis
    by (auto simp: offer_pcm_def Let_def
        intro: t quiet_chain [OF t quiet_push] quiet_chain [OF t quiet_chain [OF quiet_fields(2) quiet_release]])
qed

lemma quiet_flush: "quiet l (fst (flush_holdback l))"
  by (auto simp: flush_holdback_def intro: quiet_chain [OF quiet_fields(2) quiet_push])

lemma quiet_commit_through: "quiet l (fst (commit_through n l))"
  by (auto simp: commit_through_def Let_def
      intro: quiet_commit quiet_chain [OF quiet_fields(3) quiet_commit]
        quiet_chain [OF quiet_chain [OF quiet_fields(2) quiet_push] quiet_commit])

subsection \<open>The invariant\<close>

definition opt_list :: "'a option \<Rightarrow> 'a list" where
  "opt_list x = (case x of None \<Rightarrow> [] | Some v \<Rightarrow> [v])"

definition ledger_finals :: "'w lane \<Rightarrow> asr_transcript list" where
  "ledger_finals l = finals_of (accepted_events (lane_ingest l))"

definition events_ok :: "asr_transcript list \<Rightarrow> degrade_reason list \<Rightarrow> 'w lane \<Rightarrow> bool" where
  "events_ok taken noted l \<longleftrightarrow> ingest_ok (lane_ingest l) \<and> ledger_finals l = taken @ pending_forward l
     \<and> (lane_state l \<noteq> Stopped \<longrightarrow> lane_finals l = ledger_finals l) \<and> (lane_provider l \<noteq> None \<longrightarrow> lane_state l \<noteq> Stopped)
     \<and> finals_accepted (telemetry l) = length (ledger_finals l)
     \<and> events_rejected (telemetry l) = out_of_order_count (lane_ingest l) + sealed_rejection_count (lane_ingest l)
         + foreign_rejection_count (lane_ingest l)
     \<and> (\<forall>u. draft l u \<noteq> None \<longrightarrow> sealed_finals (lane_ingest l) u = None)
     \<and> noted @ opt_list (degrade_notice l) = opt_list (lane_degrade l)"

lemma events_ok_quiet: "events_ok taken noted l \<Longrightarrow> quiet l l' \<Longrightarrow> events_ok taken noted l'"
  unfolding events_ok_def quiet_def ledger_finals_def opt_list_def is_live_def
  by (elim conjE disjE exE) auto

lemma ingest_finals:
  "finals_of (accepted_events (fst (ingest s e)))
     = finals_of (accepted_events s) @ (if snd (ingest s e) = Accepted then finals_of [e] else [])"
  by (simp add: ingest_def)

lemma ingest_rejections:
  "out_of_order_count (fst (ingest s e)) + sealed_rejection_count (fst (ingest s e)) + foreign_rejection_count (fst (ingest s e))
     = out_of_order_count s + sealed_rejection_count s + foreign_rejection_count s
       + (if snd (ingest s e) \<in> {RejectedOutOfOrder, RejectedSealedUtterance, RejectedForeignSession} then 1 else 0)"
  by (simp add: ingest_def)

lemma ingest_seals:
  "sealed_finals (fst (ingest s e)) =
     (case e of FinalEvent t \<Rightarrow> if snd (ingest s e) = Accepted then (sealed_finals s)(tr_utterance t \<mapsto> t) else sealed_finals s
      | _ \<Rightarrow> sealed_finals s)"
  by (cases e) (auto simp: ingest_def)

lemma ingest_partial_open:
  "snd (ingest s (PartialEvent t)) = Accepted \<Longrightarrow> sealed_finals s (tr_utterance t) = None"
  by (simp add: ingest_def split: if_splits)

lemma route_event_events:
  assumes "events_ok taken noted l" and "lane_state l \<noteq> Stopped"
  shows "events_ok taken noted (route_event e l) \<and> lane_state (route_event e l) \<noteq> Stopped"
proof -
  obtain g v where i: "ingest (lane_ingest l) e = (g, v)" by fastforce
  have g: "ingest_ok g" using assms(1) ingest_step_ok [of "lane_ingest l" e g v] i by (simp add: events_ok_def)
  note facts = ingest_finals [of "lane_ingest l" e] ingest_rejections [of "lane_ingest l" e]
    ingest_seals [of "lane_ingest l" e] ingest_partial_open [of "lane_ingest l"]
  define l1 where "l1 = l\<lparr>lane_ingest := g\<rparr>"
  show ?thesis
  proof (cases "v = Accepted \<and> (\<exists>x. e = ErrorEvent x)")
    case True
    then obtain x where e: "e = ErrorEvent x" "v = Accepted" by blast
    have "events_ok taken noted l1" "lane_state l1 \<noteq> Stopped"
      using assms facts i g e by (simp_all add: l1_def events_ok_def ledger_finals_def)
    then have bumped: "events_ok taken noted (bump_errors l1)" "lane_state (bump_errors l1) \<noteq> Stopped"
      using quiet_bump events_ok_quiet by (blast, simp add: bump_errors_def)
    have r: "route_event e l = (if session_fatal (er_kind x) \<and> is_live (bump_errors l1)
        then degrade_dropping_provider (Disconnect (er_kind x)) (bump_errors l1) else bump_errors l1)"
      using e i by (simp add: route_event_def Let_def l1_def)
    have "lane_state (degrade_dropping_provider reason m) \<noteq> Stopped" for reason and m :: "'a lane"
      by (simp add: degrade_dropping_provider_def note_degrade_def)
    then show ?thesis using bumped r quiet_degrade events_ok_quiet by (metis (full_types))
  next
    case False
    then show ?thesis
      using assms facts i g
      by (cases v; cases e) (auto simp: route_event_def Let_def events_ok_def ledger_finals_def)
  qed
qed

lemma route_all_events:
  "events_ok taken noted l \<Longrightarrow> lane_state l \<noteq> Stopped \<Longrightarrow>
    events_ok taken noted (fold route_event es l) \<and> lane_state (fold route_event es l) \<noteq> Stopped"
  by (induction es arbitrary: l) (auto dest: route_event_events)

lemma route_while_live_events:
  "events_ok taken noted l \<Longrightarrow> lane_state l \<noteq> Stopped \<Longrightarrow>
    events_ok taken noted (route_while_live es l) \<and> lane_state (route_while_live es l) \<noteq> Stopped"
  by (induction es l rule: route_while_live.induct) (auto simp: Let_def dest: route_event_events)

lemma poll_lane_events:
  assumes "events_ok taken noted l"
  shows "events_ok taken noted (poll_lane l) \<and> (lane_state l \<noteq> Stopped \<longrightarrow> lane_state (poll_lane l) \<noteq> Stopped)"
proof (cases "is_live l \<and> lane_provider l \<noteq> None")
  case True
  then obtain p where p: "lane_provider l = Some p" by auto
  obtain w es where call: "prov_drain p (lane_world l) = (w, es)" by fastforce
  have "events_ok taken noted (l\<lparr>lane_world := w\<rparr>)" by (rule events_ok_quiet [OF assms quiet_fields(1)])
  from route_while_live_events [OF this, of es] show ?thesis
    using True p call by (simp add: poll_lane_def is_live_def)
qed (use assms in \<open>auto simp: poll_lane_def\<close>)

lemma drain_and_route_events:
  assumes "events_ok taken noted l" and "lane_state l \<noteq> Stopped"
  shows "events_ok taken noted (fst (drain_and_route p l)) \<and> lane_state (fst (drain_and_route p l)) \<noteq> Stopped"
proof -
  obtain w es where "prov_drain p (lane_world l) = (w, es)" by fastforce
  then show ?thesis
    using route_all_events [OF events_ok_quiet [OF assms(1) quiet_fields(1) [of _ w]], of es] assms(2)
    by (simp add: drain_and_route_def)
qed

lemma stop_drain_events:
  "events_ok taken noted l \<Longrightarrow> lane_state l \<noteq> Stopped \<Longrightarrow>
    events_ok taken noted (stop_drain p polls l) \<and> lane_state (stop_drain p polls l) \<noteq> Stopped"
proof (induction p polls l rule: stop_drain.induct)
  case (1 p polls l)
  obtain l' fin where d: "drain_and_route p l = (l', fin)" by fastforce
  have ok: "events_ok taken noted l'" "lane_state l' \<noteq> Stopped" using drain_and_route_events [OF "1.prems", of p] d by simp_all
  have "events_ok taken noted (note_degrade r l')" "lane_state (note_degrade r l') \<noteq> Stopped" for r
    using events_ok_quiet [OF ok(1) quiet_note] ok(2) by (simp_all add: note_degrade_def split: if_split_asm)
  then show ?case using 1 d ok by (cases fin) (auto simp: stop_drain.simps [of p polls l])
qed

lemma close_provider_events:
  assumes "events_ok taken noted l" and "lane_state l \<noteq> Stopped"
  shows "events_ok taken noted (close_provider p l) \<and> lane_state (close_provider p l) \<noteq> Stopped"
proof -
  obtain w r where call: "prov_close p (lane_world l) = (w, r)" by fastforce
  have ok: "events_ok taken noted (l\<lparr>lane_world := w\<rparr>)" by (rule events_ok_quiet [OF assms(1) quiet_fields(1)])
  have "events_ok taken noted (note_degrade k (bump_errors (l\<lparr>lane_world := w\<rparr>)))" for k
    by (rule events_ok_quiet [OF ok quiet_chain [OF quiet_bump quiet_note]])
  moreover have "lane_state (note_degrade k (bump_errors (l\<lparr>lane_world := w\<rparr>))) \<noteq> Stopped" for k
    using assms(2) by (simp add: note_degrade_def bump_errors_def)
  ultimately show ?thesis
    using call stop_drain_events [OF ok, of p 0] assms(2) by (cases r) (simp_all add: close_provider_def)
qed

lemma route_all_provider: "lane_provider l = None \<Longrightarrow> lane_provider (fold route_event es l) = None"
proof (induction es arbitrary: l)
  case (Cons e es)
  have "lane_provider (route_event e l) = None"
    using Cons.prems by (cases "snd (ingest (lane_ingest l) e)"; cases e)
      (auto simp: route_event_def Let_def split_beta bump_errors_def degrade_dropping_provider_def drop_provider_def note_degrade_def)
  then show ?case by (simp add: Cons.IH)
qed simp

lemma stop_drain_provider: "lane_provider l = None \<Longrightarrow> lane_provider (stop_drain p polls l) = None"
proof (induction p polls l rule: stop_drain.induct)
  case (1 p polls l)
  obtain l' fin where d: "drain_and_route p l = (l', fin)" by fastforce
  have "lane_provider l' = None"
    using d route_all_provider [of "l\<lparr>lane_world := _\<rparr>"] "1.prems" by (auto simp: drain_and_route_def split: prod.splits)
  then show ?case using 1 d by (cases fin) (auto simp: stop_drain.simps [of p polls l] note_degrade_def)
qed

lemma close_provider_out: "lane_provider (close_provider p (fst (drain_and_route q (l\<lparr>lane_provider := None\<rparr>)))) = None"
proof -
  have d: "lane_provider (fst (drain_and_route q (l\<lparr>lane_provider := None\<rparr>))) = None"
    using route_all_provider [of "l\<lparr>lane_provider := None, lane_world := _\<rparr>"]
    by (auto simp: drain_and_route_def split: prod.split)
  then show ?thesis
    using stop_drain_provider [of "fst (drain_and_route q (l\<lparr>lane_provider := None\<rparr>))\<lparr>lane_world := _\<rparr>" p 0]
    by (auto simp: close_provider_def note_degrade_def bump_errors_def split: prod.split sum.split)
qed

lemma stop_lane_events:
  assumes "events_ok taken noted l"
  shows "events_ok taken noted (fst (stop_lane l))"
    and "lane_state l \<noteq> Stopped \<Longrightarrow> outcome_finals (snd (stop_lane l)) = ledger_finals (fst (stop_lane l))"
proof -
  define l1 where "l1 = (if is_live l then fst (flush_holdback l) else l)"
  have l1: "events_ok taken noted l1" using events_ok_quiet [OF assms quiet_flush] assms by (simp add: l1_def)
  define l2 where "l2 = (case lane_provider l1 of None \<Rightarrow> l1
     | Some p \<Rightarrow> let l = close_provider p (fst (drain_and_route p (l1\<lparr>lane_provider := None\<rparr>)))
                in l\<lparr>lane_world := prov_drop p (lane_world l)\<rparr>)"
  have stop: "stop_lane l = (l2\<lparr>draft := Map.empty, lane_state := Stopped, lane_finals := []\<rparr>,
      \<lparr>outcome_finals = lane_finals l2, outcome_telemetry = telemetry l2, outcome_degrade = lane_degrade l2\<rparr>)"
    by (simp add: stop_lane_def Let_def l2_def flip: l1_def)
  have l2: "events_ok taken noted l2 \<and> (lane_state l \<noteq> Stopped \<longrightarrow> lane_state l2 \<noteq> Stopped)"
  proof (cases "lane_provider l1")
    case None
    have "lane_state l \<noteq> Stopped \<longrightarrow> lane_state l1 \<noteq> Stopped"
      using quiet_flush [of l] by (auto simp: l1_def quiet_def is_live_def)
    then show ?thesis using l1 None by (simp add: l2_def)
  next
    case (Some p)
    have "lane_state l1 \<noteq> Stopped" using l1 Some by (simp add: events_ok_def)
    then have "events_ok taken noted (l1\<lparr>lane_provider := None\<rparr>)" "lane_state (l1\<lparr>lane_provider := None\<rparr>) \<noteq> Stopped"
      using events_ok_quiet [OF l1 quiet_fields(4)] by simp_all
    then have "events_ok taken noted (fst (drain_and_route p (l1\<lparr>lane_provider := None\<rparr>)))"
      "lane_state (fst (drain_and_route p (l1\<lparr>lane_provider := None\<rparr>))) \<noteq> Stopped"
      using drain_and_route_events by blast+
    then have "events_ok taken noted (close_provider p (fst (drain_and_route p (l1\<lparr>lane_provider := None\<rparr>))))"
      "lane_state (close_provider p (fst (drain_and_route p (l1\<lparr>lane_provider := None\<rparr>)))) \<noteq> Stopped"
      using close_provider_events by blast+
    then show ?thesis using Some events_ok_quiet [OF _ quiet_fields(1)] by (simp add: l2_def Let_def)
  qed
  have "lane_provider l2 = None"
    by (cases "lane_provider l1") (simp_all add: l2_def Let_def close_provider_out)
  with l2 show "events_ok taken noted (fst (stop_lane l))"
    by (simp add: stop events_ok_def ledger_finals_def)
  show "outcome_finals (snd (stop_lane l)) = ledger_finals (fst (stop_lane l))" if "lane_state l \<noteq> Stopped"
    using l2 that by (simp add: stop events_ok_def ledger_finals_def)
qed

subsection \<open>Whole recordings\<close>

fun taken_finals :: "lane_call list \<Rightarrow> 'w lane \<Rightarrow> asr_transcript list" where
  "taken_finals [] l = []"
| "taken_finals (c # cs) l = (if c = TakeFinals then snd (take_unforwarded_finals l) else []) @ taken_finals cs (lane_step c l)"

fun noticed :: "lane_call list \<Rightarrow> 'w lane \<Rightarrow> degrade_reason list" where
  "noticed [] l = []"
| "noticed (c # cs) l = (if c = TakeNotice then opt_list (snd (take_degrade_notice l)) else []) @ noticed cs (lane_step c l)"

lemma lane_step_events:
  assumes "events_ok taken noted l"
  shows "events_ok (taken @ (if c = TakeFinals then snd (take_unforwarded_finals l) else []))
           (noted @ (if c = TakeNotice then opt_list (snd (take_degrade_notice l)) else [])) (lane_step c l)"
proof (cases c)
  case (OfferPcm s)
  then show ?thesis using events_ok_quiet [OF assms quiet_offer] by simp
next
  case FlushHoldback
  then show ?thesis using events_ok_quiet [OF assms quiet_flush] by simp
next
  case (CommitThrough n)
  then show ?thesis using events_ok_quiet [OF assms quiet_commit_through] by simp
next
  case Poll
  then show ?thesis using poll_lane_events [OF assms] by simp
next
  case NoteSleepWake
  then show ?thesis using assms events_ok_quiet [OF assms quiet_degrade] by (simp add: note_sleep_wake_def)
next
  case StopLane
  then show ?thesis using stop_lane_events(1) [OF assms] by simp
next
  case FinalAfterExit
  then show ?thesis using events_ok_quiet [OF assms quiet_fields(5)] by (simp add: note_final_after_worker_exit_def)
qed (use assms in \<open>auto simp: take_unforwarded_finals_def take_degrade_notice_def events_ok_def ledger_finals_def opt_list_def\<close>)

lemma lane_run_events:
  "events_ok taken noted l \<Longrightarrow>
    events_ok (taken @ taken_finals calls l) (noted @ noticed calls l) (fold lane_step calls l)"
proof (induction calls arbitrary: taken noted l)
  case (Cons c calls)
  from Cons.IH [OF lane_step_events [OF Cons.prems, of c]] show ?case by simp
qed simp

lemma idle_lane_events: "events_ok [] [] (idle_lane input w)"
  using ingest_ok_new [of "si_session_id input"]
  by (simp add: events_ok_def idle_lane_def ledger_finals_def ingest_new_def opt_list_def lane_telemetry_default_def)

lemma lane_open_events: "events_ok [] [] (lane_open decision input w)"
proof -
  have "events_ok [] [] (open_provider p input (idle_lane input w))" for p
    using idle_lane_events [of input w]
    by (auto simp: open_provider_def Let_def split: prod.split sum.split)
      (auto simp: events_ok_def ledger_finals_def idle_lane_def degrade_dropping_provider_def drop_provider_def
        note_degrade_def opt_list_def)
  then show ?thesis by (cases decision) (simp_all add: lane_open_def Let_def idle_lane_events)
qed

lemma sealed_order_distinct: "sealed_order es \<Longrightarrow> distinct (map tr_utterance (finals_of es))"
proof (induction es)
  case (Cons e es)
  have tail: "sealed_order es" using Cons.prems unfolding sealed_order_def by (metis append_Cons)
  have "tr_utterance t \<notin> tr_utterance ` set (finals_of es)" if "e = FinalEvent t" for t
    using sealed_orderD [of "[]" t es] Cons.prems that by (force simp: finals_of_iff)
  with Cons.IH [OF tail] show ?case by (cases e) auto
qed simp

text \<open>Finals are delivered once: whatever providers answer and sessions ask, the finals handed to the worker followed by
  those still waiting are exactly the finals the event ledger accepted, in order and at most one per utterance; no
  draft is kept for a sealed utterance; and every refused event is counted once.
\<close>

theorem finals_are_forwarded_once:
  "(let l = lane_run decision input w calls; handed = taken_finals calls (lane_open decision input w) in
     handed @ pending_forward l = finals_of (accepted_events (lane_ingest l))
     \<and> distinct (map tr_utterance (handed @ pending_forward l))
     \<and> dom (draft l) \<inter> dom (sealed_finals (lane_ingest l)) = {}
     \<and> finals_accepted (telemetry l) = length (handed @ pending_forward l)
     \<and> events_rejected (telemetry l) = out_of_order_count (lane_ingest l) + sealed_rejection_count (lane_ingest l)
         + foreign_rejection_count (lane_ingest l))"
proof -
  let ?l = "lane_run decision input w calls" and ?handed = "taken_finals calls (lane_open decision input w)"
  have ok: "events_ok ?handed (noticed calls (lane_open decision input w)) ?l"
    using lane_run_events [OF lane_open_events, of calls decision input w] by (simp add: lane_run_def)
  then have "ingest_ok (lane_ingest ?l)" unfolding events_ok_def by blast
  then have "sealed_order (accepted_events (lane_ingest ?l))" unfolding ingest_ok_def by blast
  then have "distinct (map tr_utterance (ledger_finals ?l))" by (simp add: ledger_finals_def sealed_order_distinct)
  moreover have "dom (draft ?l) \<inter> dom (sealed_finals (lane_ingest ?l)) = {}"
    using ok unfolding events_ok_def by (metis (no_types, lifting) disjoint_iff domIff)
  ultimately show ?thesis using ok by (simp add: Let_def events_ok_def ledger_finals_def del: map_append)
qed

text \<open>A recording hears of a degraded lane exactly once: the notices taken so far and the one still waiting are together
  the single reason the lane is degraded for, and none as long as it is not.
\<close>

theorem degrade_is_noticed_once:
  "noticed calls (lane_open decision input w) @ opt_list (degrade_notice (lane_run decision input w calls))
     = opt_list (lane_degrade (lane_run decision input w calls))"
  using lane_run_events [OF lane_open_events, of calls decision input w] by (simp add: lane_run_def events_ok_def)

text \<open>The outcome of a recording: the first stop answers with every final the event ledger accepted, those of the last
  drain included, and with the reason of the degrade, if any.
\<close>

theorem stop_reports_every_final:
  assumes "StopLane \<notin> set calls"
  shows "(let (l, outcome) = stop_lane (lane_run decision input w calls) in
     outcome_finals outcome = finals_of (accepted_events (lane_ingest l)) \<and> outcome_degrade outcome = lane_degrade l
     \<and> outcome_telemetry outcome = telemetry l)"
proof -
  have step: "lane_state (lane_step c l) \<noteq> Stopped" if "lane_state l \<noteq> Stopped" "c \<noteq> StopLane" "events_ok t n l" for c l t n
    using that quiet_state [OF quiet_offer that(1)] quiet_state [OF quiet_flush that(1)]
      quiet_state [OF quiet_commit_through that(1)] quiet_state [OF quiet_degrade that(1)] poll_lane_events [OF that(3)]
    by (cases c) (simp_all add: note_sleep_wake_def take_unforwarded_finals_def note_final_after_worker_exit_def
        take_degrade_notice_def)
  have run: "lane_state (fold lane_step calls l) \<noteq> Stopped"
    if "lane_state l \<noteq> Stopped" "events_ok t n l" "StopLane \<notin> set calls" for calls l t n
    using that
  proof (induction calls arbitrary: l t n)
    case (Cons c calls)
    have "lane_state (lane_step c l) \<noteq> Stopped" using step [OF Cons.prems(1) _ Cons.prems(2), of c] Cons.prems(3) by auto
    from Cons.IH [OF this lane_step_events [OF Cons.prems(2), of c]] Cons.prems(3) show ?case by simp
  qed simp
  have "lane_state (lane_open decision input w) \<noteq> Stopped"
    by (cases decision) (auto simp: lane_open_def idle_lane_def open_provider_def degrade_dropping_provider_def
        note_degrade_def Let_def split: prod.split sum.split)
  from run [OF this lane_open_events assms]
  have "lane_state (lane_run decision input w calls) \<noteq> Stopped" by (simp add: lane_run_def)
  moreover have "events_ok (taken_finals calls (lane_open decision input w)) (noticed calls (lane_open decision input w))
      (lane_run decision input w calls)"
    using lane_run_events [OF lane_open_events, of calls decision input w] by (simp add: lane_run_def)
  ultimately show ?thesis
    using stop_lane_events(2) [of _ _ "lane_run decision input w calls"]
    by (simp add: split_beta ledger_finals_def) (simp add: stop_lane_def Let_def)
qed

text \<open>A provider that answers with one event when it is asked for the first time, then is quiet.\<close>

definition one_event :: "asr_event \<Rightarrow> nat asr_provider" where
  "one_event e = \<lparr>prov_mode = CloudSession, prov_open = (\<lambda>_ n. (n, Inr ())), prov_push_audio = (\<lambda>_ n. (n, Inr ())),
     prov_drain = (\<lambda>n. (Suc n, if n = 0 then [e] else [])), prov_close = (\<lambda>n. (n, Inr ())),
     prov_commit = (\<lambda>_ n. (n, Inr ())), prov_drop = (\<lambda>n. n)\<rparr>"

definition sample_input :: "u64 \<Rightarrow> session_input" where
  "sample_input rate = \<lparr>si_session_id = lit ''s'', si_locale = None, si_sample_rate = rate\<rparr>"

theorem stop_reports_every_final_witness:
  "outcome_finals (snd (stop_lane (lane_run (Armed (one_event (FinalEvent (sample_transcript 1 ''hi'')))) (sample_input 4) 0 [OfferPcm [1]])))
     = [sample_transcript 1 ''hi'']"
proof -
  let ?l = "lane_run (Armed (one_event (FinalEvent (sample_transcript 1 ''hi'')))) (sample_input 4) 0 [OfferPcm [1]]"
  have "accepted_events (lane_ingest (fst (stop_lane ?l))) = [FinalEvent (sample_transcript 1 ''hi'')]"
    by (simp add: lane_run_def lane_open_def open_provider_def idle_lane_def one_event_def sample_input_def offer_pcm_def
        release_aged_def is_live_def cloud_commit_holdback_samples_def Let_def stop_lane_def flush_holdback_def
        push_samples_def drain_and_route_def route_event_def close_provider_def stop_drain.simps [of _ 0]
        ingest_def ingest_new_def sample_transcript_def resent_final_def retransmitted_def stale_def)
  moreover have "StopLane \<notin> set [OfferPcm [1]]" by simp
  from stop_reports_every_final [OF this, of "Armed (one_event (FinalEvent (sample_transcript 1 ''hi'')))" "sample_input 4" 0]
  have "outcome_finals (snd (stop_lane ?l)) = finals_of (accepted_events (lane_ingest (fst (stop_lane ?l))))"
    by (simp add: split_beta)
  ultimately show ?thesis by simp
qed

subsection \<open>The clock of a commit\<close>

lemma push_accepted:
  assumes "is_live l" and "lane_provider l = Some p" and "s \<noteq> []" and "prov_push_audio p s (lane_world l) = (w, Inr ())"
  shows "fst (push_samples s l) = l\<lparr>lane_world := w, consecutive_overflows := 0,
      pushed_samples := min u64_max (pushed_samples l + length s),
      telemetry := (telemetry l)\<lparr>frames_forwarded := frames_forwarded (telemetry l) + 1\<rparr>\<rparr>"
  using assms by (simp add: push_samples_def)

text \<open>A commit lands exactly where it is asked for: when a live lane has pushed no sample past the requested one and
  holds the audio up to it, and the provider takes what is pushed, the commit hands over exactly the missing samples,
  keeps the rest, and names the requested sample; there is no lag.
\<close>

theorem commit_lands_on_request:
  assumes "is_live l" and "lane_provider l = Some (logged p)" and "pushed_samples l \<le> sample" and "sample \<le> u64_max"
    and "sample \<le> pushed_samples l + length (held l)"
    and "snd (prov_push_audio p (take (sample - pushed_samples l) (held l)) (fst (lane_world l))) = Inr ()"
  shows "(let l' = fst (commit_through sample l); need = sample - pushed_samples l in
     snd (commit_through sample l) = None \<and> pushed_samples l' = sample
     \<and> (\<exists>result. calls_made l' = calls_made l @ (if need = 0 then [] else [PushCall (take need (held l)) None]) @ [CommitCall sample result]
          @ (if result = None then [] else [DropCall]))
     \<and> (is_live l' \<longrightarrow> held l' = drop need (held l)))"
proof -
  let ?need = "sample - pushed_samples l"
  have need: "min ?need (length (held l)) = ?need" using assms(5) by simp
  let ?s = "take ?need (held l)"
  obtain w where push: "prov_push_audio p ?s (fst (lane_world l)) = (w, Inr ())"
    using assms(6) by (metis prod.collapse)
  have commit: "pushed_samples (provider_commit n m) = pushed_samples m \<and>
      (\<exists>result. calls_made (provider_commit n m) = calls_made m @ [CommitCall n result] @ (if result = None then [] else [DropCall]))
      \<and> (is_live (provider_commit n m) \<longrightarrow> held (provider_commit n m) = held m)"
    if "is_live m" "lane_provider m = Some (logged p)" for n and m :: "('a \<times> provider_call list) lane"
  proof -
    obtain w' r where "prov_commit p n (fst (lane_world m)) = (w', r)" by fastforce
    then show ?thesis
      using that by (cases r) (auto simp: provider_commit_def calls_made_def bump_errors_def degrade_dropping_provider_def
          drop_provider_def note_degrade_def is_live_def)
  qed
  define l1 where "l1 = (if ?need = 0 then l else fst (push_samples ?s (l\<lparr>held := drop ?need (held l)\<rparr>)))"
  have through: "commit_through sample l = (provider_commit (pushed_samples l1) l1, None)"
    using assms(1,3) need by (auto simp: commit_through_def Let_def l1_def)
  have l1: "is_live l1" "lane_provider l1 = Some (logged p)" "pushed_samples l1 = sample" "held l1 = drop ?need (held l)"
    "calls_made l1 = calls_made l @ (if ?need = 0 then [] else [PushCall ?s None])"
  proof -
    have "length ?s = ?need" "?need \<noteq> 0 \<Longrightarrow> held l \<noteq> []" using assms(5) by auto
    then show "is_live l1" "lane_provider l1 = Some (logged p)" "pushed_samples l1 = sample" "held l1 = drop ?need (held l)"
      "calls_made l1 = calls_made l @ (if ?need = 0 then [] else [PushCall ?s None])"
      using assms(1-5) push
        push_accepted [of "l\<lparr>held := drop ?need (held l)\<rparr>" "logged p" ?s "(w, snd (lane_world l) @ [PushCall ?s None])"]
      by (auto simp: l1_def is_live_def calls_made_def)
  qed
  show ?thesis using through commit [OF l1(1,2), of sample] l1 by (auto simp: Let_def)
qed

theorem commit_lands_on_request_witness:
  "(let l = observed_lane (Armed (one_event (FinalEvent (sample_transcript 1 ''hi'')))) (sample_input 4) 0 [OfferPcm [7, 8, 9]] in
     pushed_samples l = 1 \<and> held l = [8, 9] \<and> pushed_samples (fst (commit_through 2 l)) = 2)"
proof -
  let ?p = "one_event (FinalEvent (sample_transcript 1 ''hi''))"
  let ?l = "observed_lane (Armed ?p) (sample_input 4) 0 [OfferPcm [7, 8, 9]]"
  have l: "?l = ?l\<lparr>lane_state := Live, lane_provider := Some (logged ?p), pushed_samples := 1, held := [8, 9]\<rparr>"
    by (simp add: observed_lane_def lane_run_def lane_open_def open_provider_def idle_lane_def one_event_def sample_input_def
        offer_pcm_def release_aged_def push_samples_def is_live_def cloud_commit_holdback_samples_def logged_def Let_def
        u64_max_def)
  then have "is_live ?l" "lane_provider ?l = Some (logged ?p)" "pushed_samples ?l = 1" "held ?l = [8, 9]"
    by (auto simp: is_live_def dest: arg_cong [of _ _ lane_state] arg_cong [of _ _ lane_provider]
        arg_cong [of _ _ pushed_samples] arg_cong [of _ _ held])
  note l = this
  have "snd (prov_push_audio ?p s w) = Inr ()" for s w by (simp add: one_event_def)
  with commit_lands_on_request [OF l(1,2), of 2] l show ?thesis by (simp add: Let_def u64_max_def)
qed

text \<open>A cloud provider whose queue is full for the second frame only.\<close>

definition choked :: "nat asr_provider" where
  "choked = (one_event (UsageEvent \<lparr>us_session = [], us_utterance = 0, us_sequence = 0, us_audio_secs = 0, us_billable_units = None\<rparr>))
     \<lparr>prov_push_audio := (\<lambda>_ n. (Suc n, if n = 1 then Inl Overflow else Inr ()))\<rparr>"

definition choked_calls :: "lane_call list" where
  "choked_calls = [OfferPcm [0, 1, 2, 3], OfferPcm [4, 5], OfferPcm [6, 7], CommitThrough 6]"

text \<open>After a refused frame commits run late: at 4 samples per second the lane holds two samples back; samples 2 and 3
  are lost to a full queue, and the commit asked for at capture sample 6 is made at clock value 6 only after
  samples 6 and 7, which lie behind the requested close, have been pushed. No lag is recorded.
\<close>

theorem refused_frame_shifts_commits:
  "calls_made (observed_lane (Armed choked) (sample_input 4) 0 choked_calls)
     = [OpenCall None, PushCall [0, 1] None, PushCall [2, 3] (Some Overflow), PushCall [4, 5] None, PushCall [6, 7] None,
        CommitCall 6 None]
   \<and> commit_late_lags (observed_lane (Armed choked) (sample_input 4) 0 choked_calls) = []"
  by (simp add: choked_calls_def observed_lane_def lane_run_def lane_open_def open_provider_def idle_lane_def choked_def
      one_event_def sample_input_def offer_pcm_def release_aged_def push_samples_def is_live_def logged_def Let_def
      cloud_commit_holdback_samples_def commit_through_def provider_commit_def calls_made_def u64_max_def
      OVERFLOW_DEGRADE_LIMIT_def)

end
