(* ===== verification/Local_Helper.thy ===== *)
theory Local_Helper
  imports Recorder_Lane
begin

section \<open>The killable local helper\<close>

text \<open>
  \<open>core/asr_session/local_helper.rs\<close>: the provider that owns one child process. The child and the launcher are
  trait objects injected by the runtime: records of operations on the outer world. Process exit is the only
  proof of reclaim, so every child is observed: a log holds each spawn and each confirmed exit.
\<close>

subsection \<open>Children\<close>

record helper_exit =
  exit_pid :: nat
  exit_exited :: bool

record 'w helper_process =
  hp_pid :: nat
  hp_start :: "session_input \<Rightarrow> 'w \<Rightarrow> 'w \<times> asr_result"
  hp_push_audio :: "f32 list \<Rightarrow> 'w \<Rightarrow> 'w \<times> asr_result"
  hp_drain :: "'w \<Rightarrow> 'w \<times> asr_event list"
  hp_request_shutdown :: "'w \<Rightarrow> 'w \<times> asr_result"
  hp_wait_for_exit :: "'w \<Rightarrow> 'w \<times> (asr_error_kind + helper_exit)"
  hp_kill_and_wait :: "'w \<Rightarrow> 'w \<times> (asr_error_kind + helper_exit)"

type_synonym 'w launcher = "'w \<Rightarrow> 'w \<times> (asr_error_kind + 'w helper_process)"

datatype helper_lifecycle = HelperStopped | HelperStarting | HelperReady | HelperCooling

record 'w helper =
  h_world :: 'w
  h_launcher :: "'w launcher"
  h_child :: "'w helper_process option"
  h_lifecycle :: helper_lifecycle
  h_transitions :: "helper_lifecycle list"
  h_last_exit :: "helper_exit option"
  h_ever_opened :: bool

definition helper_new :: "'w launcher \<Rightarrow> 'w \<Rightarrow> 'w helper" where
  "helper_new launcher w = \<lparr>h_world = w, h_launcher = launcher, h_child = None, h_lifecycle = HelperStopped,
     h_transitions = [HelperStopped], h_last_exit = None, h_ever_opened = False\<rparr>"

definition transition :: "helper_lifecycle \<Rightarrow> 'w helper \<Rightarrow> 'w helper" where
  "transition next h = h\<lparr>h_lifecycle := next, h_transitions := h_transitions h @ [next]\<rparr>"

definition proves_exit :: "helper_exit \<Rightarrow> bool" where
  "proves_exit proof' \<longleftrightarrow> exit_pid proof' \<noteq> 0 \<and> exit_exited proof'"

definition graceful_exit :: "'w helper_process \<Rightarrow> 'w \<Rightarrow> 'w \<times> (asr_error_kind + helper_exit)" where
  "graceful_exit c w = (case hp_request_shutdown c w of (w1, Inl e) \<Rightarrow> (w1, Inl e) | (w1, Inr _) \<Rightarrow> hp_wait_for_exit c w1)"

definition reclaim_child :: "'w helper_process \<Rightarrow> 'w \<Rightarrow> 'w \<times> (asr_error_kind + helper_exit)" where
  "reclaim_child c w =
     (case graceful_exit c w of
        (w1, g) \<Rightarrow>
          if (case g of Inr pr \<Rightarrow> proves_exit pr | Inl _ \<Rightarrow> False) then (w1, g)
          else (case hp_kill_and_wait c w1 of
                  (w2, Inl e) \<Rightarrow> (w2, Inl e)
                | (w2, Inr pr) \<Rightarrow> (w2, if \<not> proves_exit pr then Inl Transport else Inr pr)))"

definition stop_owned_child :: "'w helper \<Rightarrow> 'w helper \<times> asr_result" where
  "stop_owned_child h =
     (case h_child h of
        None \<Rightarrow> (transition HelperStopped h, Inr ())
      | Some c \<Rightarrow>
          (case reclaim_child c (h_world h) of
             (w, Inr pr) \<Rightarrow> (transition HelperStopped (h\<lparr>h_world := w, h_child := None, h_last_exit := Some pr\<rparr>), Inr ())
           | (w, Inl kind) \<Rightarrow> (h\<lparr>h_world := w\<rparr>, Inl kind)))"

subsection \<open>The provider\<close>

definition helper_started :: "'w helper_process \<Rightarrow> session_input \<Rightarrow> 'w helper \<Rightarrow> 'w helper \<times> asr_result" where
  "helper_started c input h =
     (case hp_start c input (h_world h) of
        (w, Inl kind) \<Rightarrow>
          (case reclaim_child c w of
             (w', Inr pr) \<Rightarrow> (transition HelperStopped (h\<lparr>h_world := w', h_last_exit := Some pr\<rparr>), Inl kind)
           | (w', Inl _) \<Rightarrow> (h\<lparr>h_world := w', h_child := Some c\<rparr>, Inl Transport))
      | (w, Inr _) \<Rightarrow> (transition HelperReady (h\<lparr>h_world := w, h_child := Some c\<rparr>), Inr ()))"

definition helper_open :: "session_input \<Rightarrow> 'w helper \<Rightarrow> 'w helper \<times> asr_result" where
  "helper_open input h =
     (if h_lifecycle h \<noteq> HelperStopped \<or> h_ever_opened h then (h, Inl Protocol)
      else let h = transition HelperStarting (h\<lparr>h_ever_opened := True\<rparr>) in
           case h_launcher h (h_world h) of
             (w, Inl kind) \<Rightarrow> (transition HelperStopped (h\<lparr>h_world := w\<rparr>), Inl kind)
           | (w, Inr c) \<Rightarrow>
               if hp_pid c \<noteq> 0 then helper_started c input (h\<lparr>h_world := w\<rparr>)
               else (transition HelperStopped (h\<lparr>h_world := fst (reclaim_child c w)\<rparr>), Inl Protocol))"

definition helper_push_audio :: "f32 list \<Rightarrow> 'w helper \<Rightarrow> 'w helper \<times> asr_result" where
  "helper_push_audio samples h =
     (if h_lifecycle h \<noteq> HelperReady then (h, Inl Protocol)
      else case h_child h of
             None \<Rightarrow> (h, Inl Protocol)
           | Some c \<Rightarrow>
               (case hp_push_audio c samples (h_world h) of
                  (w, Inr _) \<Rightarrow> (h\<lparr>h_world := w\<rparr>, Inr ())
                | (w, Inl kind) \<Rightarrow>
                    (case stop_owned_child (transition HelperCooling (h\<lparr>h_world := w\<rparr>)) of
                       (h', Inl e) \<Rightarrow> (h', Inl e)
                     | (h', Inr _) \<Rightarrow> (h', Inl kind))))"

definition helper_drain :: "'w helper \<Rightarrow> 'w helper \<times> asr_event list" where
  "helper_drain h =
     (if h_lifecycle h \<noteq> HelperReady then (h, [])
      else case h_child h of
             None \<Rightarrow> (h, [])
           | Some c \<Rightarrow> (case hp_drain c (h_world h) of (w, es) \<Rightarrow> (h\<lparr>h_world := w\<rparr>, es)))"

definition helper_close :: "'w helper \<Rightarrow> 'w helper \<times> asr_result" where
  "helper_close h =
     (if h_lifecycle h \<noteq> HelperReady then (h, Inl Protocol) else stop_owned_child (transition HelperCooling h))"

definition helper_drop :: "'w helper \<Rightarrow> 'w helper" where
  "helper_drop h =
     (case h_child h of
        None \<Rightarrow> h
      | Some c \<Rightarrow>
          (case reclaim_child c (h_world h) of
             (w, Inr pr) \<Rightarrow> h\<lparr>h_world := w, h_child := None, h_last_exit := Some pr, h_lifecycle := HelperStopped\<rparr>
           | (w, Inl _) \<Rightarrow> h\<lparr>h_world := w, h_child := None\<rparr>))"

text \<open>The provider the lane sees; commits fall through to the trait's default.\<close>

definition local_helper :: "'w helper asr_provider" where
  "local_helper = \<lparr>prov_mode = LocalHelper, prov_open = helper_open, prov_push_audio = helper_push_audio,
     prov_drain = helper_drain, prov_close = helper_close, prov_commit = (\<lambda>_ h. (h, Inr ())), prov_drop = helper_drop\<rparr>"

subsection \<open>Observed children\<close>

datatype child_event = ChildSpawned nat | ChildExited nat

definition note_exit :: "nat \<Rightarrow> ('w \<times> (asr_error_kind + helper_exit)) \<Rightarrow> child_event list \<Rightarrow>
    ('w \<times> child_event list) \<times> (asr_error_kind + helper_exit)" where
  "note_exit pid r log =
     (case r of (w, Inr pr) \<Rightarrow> ((w, log @ (if proves_exit pr then [ChildExited pid] else [])), Inr pr) | (w, Inl e) \<Rightarrow> ((w, log), Inl e))"

definition watched :: "'w helper_process \<Rightarrow> ('w \<times> child_event list) helper_process" where
  "watched c = \<lparr>hp_pid = hp_pid c,
     hp_start = (\<lambda>i (w, log). case hp_start c i w of (w', r) \<Rightarrow> ((w', log), r)),
     hp_push_audio = (\<lambda>s (w, log). case hp_push_audio c s w of (w', r) \<Rightarrow> ((w', log), r)),
     hp_drain = (\<lambda>(w, log). case hp_drain c w of (w', es) \<Rightarrow> ((w', log), es)),
     hp_request_shutdown = (\<lambda>(w, log). case hp_request_shutdown c w of (w', r) \<Rightarrow> ((w', log), r)),
     hp_wait_for_exit = (\<lambda>(w, log). note_exit (hp_pid c) (hp_wait_for_exit c w) log),
     hp_kill_and_wait = (\<lambda>(w, log). note_exit (hp_pid c) (hp_kill_and_wait c w) log)\<rparr>"

definition watched_launcher :: "'w launcher \<Rightarrow> ('w \<times> child_event list) launcher" where
  "watched_launcher spawn = (\<lambda>(w, log).
     case spawn w of (w', Inl e) \<Rightarrow> ((w', log), Inl e)
     | (w', Inr c) \<Rightarrow> ((w', log @ [ChildSpawned (hp_pid c)]), Inr (watched c)))"

text \<open>A launcher that hands out real processes only.\<close>

definition spawns_with_pid :: "'w launcher \<Rightarrow> bool" where
  "spawns_with_pid spawn \<longleftrightarrow> (\<forall>w w' c. spawn w = (w', Inr c) \<longrightarrow> hp_pid c \<noteq> 0)"

text \<open>The children spawned and not known to have exited.\<close>

fun alive_children :: "child_event list \<Rightarrow> nat list" where
  "alive_children [] = []"
| "alive_children (ChildSpawned pid # es) = (if ChildExited pid \<in> set es then alive_children es else pid # alive_children es)"
| "alive_children (ChildExited pid # es) = alive_children es"

lemma watched_fields [simp]:
  "hp_pid (watched c) = hp_pid c"
  "hp_start (watched c) i wl = (case hp_start c i (fst wl) of (w', r) \<Rightarrow> ((w', snd wl), r))"
  "hp_push_audio (watched c) s wl = (case hp_push_audio c s (fst wl) of (w', r) \<Rightarrow> ((w', snd wl), r))"
  "hp_drain (watched c) wl = (case hp_drain c (fst wl) of (w', es) \<Rightarrow> ((w', snd wl), es))"
  "hp_request_shutdown (watched c) wl = (case hp_request_shutdown c (fst wl) of (w', r) \<Rightarrow> ((w', snd wl), r))"
  "hp_wait_for_exit (watched c) wl = note_exit (hp_pid c) (hp_wait_for_exit c (fst wl)) (snd wl)"
  "hp_kill_and_wait (watched c) wl = note_exit (hp_pid c) (hp_kill_and_wait c (fst wl)) (snd wl)"
  by (simp_all add: watched_def split_beta)

text \<open>A reclaim that succeeds has seen the exit; one that fails has not.\<close>

lemma reclaim_watched:
  "(case reclaim_child (watched c) wl of
      (wl', Inr pr) \<Rightarrow> snd wl' = snd wl @ [ChildExited (hp_pid c)] \<and> proves_exit pr
    | (wl', Inl e) \<Rightarrow> snd wl' = snd wl)"
proof -
  obtain w1 r1 where rq: "hp_request_shutdown c (fst wl) = (w1, r1)" by fastforce
  obtain w2 r2 where wt: "hp_wait_for_exit c w1 = (w2, r2)" by fastforce
  obtain w3 r3 where k1: "hp_kill_and_wait c w1 = (w3, r3)" by fastforce
  obtain w4 r4 where k2: "hp_kill_and_wait c w2 = (w4, r4)" by fastforce
  show ?thesis
    by (cases r1; cases r2; cases r3; cases r4)
      (auto simp: reclaim_child_def graceful_exit_def rq wt k1 k2 note_exit_def split: if_splits)
qed

subsection \<open>Runs of the provider\<close>

datatype helper_call = HelperOpen session_input | HelperPush "f32 list" | HelperDrain | HelperClose

fun helper_step :: "helper_call \<Rightarrow> 'w helper \<Rightarrow> 'w helper" where
  "helper_step (HelperOpen input) h = fst (helper_open input h)"
| "helper_step (HelperPush s) h = fst (helper_push_audio s h)"
| "helper_step HelperDrain h = fst (helper_drain h)"
| "helper_step HelperClose h = fst (helper_close h)"

definition helper_run :: "'w launcher \<Rightarrow> 'w \<Rightarrow> helper_call list \<Rightarrow> ('w \<times> child_event list) helper" where
  "helper_run spawn w calls = fold helper_step calls (helper_new (watched_launcher spawn) (w, []))"

definition children_log :: "('w \<times> child_event list) helper \<Rightarrow> child_event list" where
  "children_log h = snd (h_world h)"

fun legal_transition :: "helper_lifecycle \<Rightarrow> helper_lifecycle \<Rightarrow> bool" where
  "legal_transition HelperStopped HelperStarting = True"
| "legal_transition HelperStarting HelperReady = True"
| "legal_transition HelperStarting HelperStopped = True"
| "legal_transition HelperReady HelperCooling = True"
| "legal_transition HelperCooling HelperStopped = True"
| "legal_transition _ _ = False"

fun legal_path :: "helper_lifecycle list \<Rightarrow> bool" where
  "legal_path [] \<longleftrightarrow> False"
| "legal_path [s] \<longleftrightarrow> s = HelperStopped"
| "legal_path (s # t # ss) \<longleftrightarrow> legal_transition t s \<and> legal_path (t # ss)"

text \<open>What every call keeps: the history read backwards is legal, and a child is owned exactly while it may live.\<close>

definition helper_ok :: "'w launcher \<Rightarrow> ('w \<times> child_event list) helper \<Rightarrow> bool" where
  "helper_ok spawn h \<longleftrightarrow> h_launcher h = watched_launcher spawn \<and> legal_path (rev (h_transitions h))
     \<and> h_lifecycle h = last (h_transitions h)
     \<and> (h_ever_opened h \<or> h_lifecycle h = HelperStopped \<and> children_log h = [])
     \<and> (case h_child h of
          None \<Rightarrow> h_lifecycle h = HelperStopped
            \<and> (children_log h = [] \<or> (\<exists>pid. children_log h = [ChildSpawned pid, ChildExited pid] \<and> h_last_exit h \<noteq> None))
        | Some c \<Rightarrow> h_lifecycle h \<noteq> HelperStopped \<and> (\<exists>d. c = watched d) \<and> children_log h = [ChildSpawned (hp_pid c)])"

lemma legal_path_transition:
  "legal_path (rev ts) \<Longrightarrow> legal_transition (last ts) next \<Longrightarrow> legal_path (rev (ts @ [next]))"
  by (cases ts rule: rev_cases) auto

lemma helper_ok_new: "helper_ok spawn (helper_new (watched_launcher spawn) (w, []))"
  by (simp add: helper_ok_def helper_new_def children_log_def)

lemma stop_owned_child_ok:
  assumes "h_launcher h = watched_launcher spawn" "legal_path (rev (h_transitions h))" "h_lifecycle h = last (h_transitions h)"
    and "h_ever_opened h" "h_lifecycle h = HelperCooling" "h_child h = Some (watched d)"
    and "children_log h = [ChildSpawned (hp_pid d)]"
  shows "helper_ok spawn (fst (stop_owned_child h))"
proof -
  obtain w r where rc: "reclaim_child (watched d) (h_world h) = (w, r)" by fastforce
  have "legal_path (rev (h_transitions h @ [HelperStopped]))"
    using assms(2,3,5) by (intro legal_path_transition) simp_all
  then show ?thesis
    using assms rc reclaim_watched [where c = d and wl = "h_world h"]
    by (cases r) (auto simp: stop_owned_child_def transition_def helper_ok_def children_log_def)
qed

lemma helper_step_ok:
  assumes ok: "helper_ok spawn h" and pids: "spawns_with_pid spawn"
  shows "helper_ok spawn (helper_step call h)"
proof (cases call)
  case (HelperOpen input)
  show ?thesis
  proof (cases "h_lifecycle h \<noteq> HelperStopped \<or> h_ever_opened h")
    case False
    define h1 where "h1 = transition HelperStarting (h\<lparr>h_ever_opened := True\<rparr>)"
    have start: "h_launcher h1 = watched_launcher spawn" "h_lifecycle h1 = HelperStarting" "h_ever_opened h1" "h_child h1 = None"
      "h_world h1 = h_world h" "snd (h_world h) = []" "h_transitions h1 = h_transitions h @ [HelperStarting]"
      "h_last_exit h1 = h_last_exit h"
      using ok False by (auto simp: h1_def transition_def helper_ok_def children_log_def split: option.splits)
    have path: "legal_path (rev (h_transitions h @ [HelperStarting]))"
      "legal_path (rev (h_transitions h @ [HelperStarting, HelperStopped]))"
      "legal_path (rev (h_transitions h @ [HelperStarting, HelperReady]))"
      using legal_path_transition [of "h_transitions h" HelperStarting] ok False by (auto simp: helper_ok_def)
    obtain w r where sp: "spawn (fst (h_world h)) = (w, r)" by fastforce
    show ?thesis
    proof (cases r)
      case (Inl e)
      have "watched_launcher spawn (h_world h) = ((w, []), Inl e)"
        using sp Inl start(6) by (simp add: watched_launcher_def split_beta)
      then show ?thesis
        using False start path Inl
        by (simp add: HelperOpen helper_open_def Let_def flip: h1_def)
          (simp add: transition_def helper_ok_def children_log_def)
    next
      case (Inr d)
      have launched: "watched_launcher spawn (h_world h) = ((w, [ChildSpawned (hp_pid d)]), Inr (watched d))"
        using sp Inr start(6) by (simp add: watched_launcher_def split_beta)
      have pid: "hp_pid d \<noteq> 0" using pids sp Inr unfolding spawns_with_pid_def by blast
      have step: "helper_step call h = fst (helper_started (watched d) input (h1\<lparr>h_world := (w, [ChildSpawned (hp_pid d)])\<rparr>))"
        using False start launched pid by (simp add: HelperOpen helper_open_def Let_def flip: h1_def)
      obtain w1 r1 where st: "hp_start d input w = (w1, r1)" by fastforce
      obtain w2 r2 where rc: "reclaim_child (watched d) (w1, [ChildSpawned (hp_pid d)]) = (w2, r2)" by fastforce
      show ?thesis
        using start path st rc reclaim_watched [where c = d and wl = "(w1, [ChildSpawned (hp_pid d)])"]
        unfolding step
        by (cases r1; cases r2) (auto simp: helper_started_def transition_def helper_ok_def children_log_def)
    qed
  qed (use ok in \<open>simp add: HelperOpen helper_open_def\<close>)
next
  case (HelperPush s)
  show ?thesis
  proof (cases "h_lifecycle h = HelperReady")
    case True
    then obtain d where c: "h_child h = Some (watched d)" using ok by (auto simp: helper_ok_def split: option.splits)
    obtain w r where p: "hp_push_audio d s (fst (h_world h)) = (w, r)" by fastforce
    let ?h = "transition HelperCooling (h\<lparr>h_world := (w, snd (h_world h))\<rparr>)"
    have "legal_path (rev (h_transitions h @ [HelperCooling]))"
      using ok True legal_path_transition [of "h_transitions h" HelperCooling] by (auto simp: helper_ok_def)
    then have "helper_ok spawn (fst (stop_owned_child ?h))"
      using ok True c by (intro stop_owned_child_ok) (auto simp: helper_ok_def transition_def children_log_def)
    moreover have "helper_ok spawn (h\<lparr>h_world := (w, snd (h_world h))\<rparr>)"
      using ok c by (auto simp: helper_ok_def children_log_def)
    ultimately show ?thesis
      using c p True by (cases r) (auto simp: HelperPush helper_push_audio_def split: prod.split sum.split)
  qed (use ok in \<open>simp add: HelperPush helper_push_audio_def\<close>)
next
  case HelperDrain
  show ?thesis
  proof (cases "h_lifecycle h = HelperReady")
    case True
    then obtain d where c: "h_child h = Some (watched d)" using ok by (auto simp: helper_ok_def split: option.splits)
    obtain w es where "hp_drain d (fst (h_world h)) = (w, es)" by fastforce
    then show ?thesis using ok c True by (simp add: HelperDrain helper_drain_def helper_ok_def children_log_def)
  qed (use ok in \<open>simp add: HelperDrain helper_drain_def\<close>)
next
  case HelperClose
  show ?thesis
  proof (cases "h_lifecycle h = HelperReady")
    case True
    then obtain d where c: "h_child h = Some (watched d)" using ok by (auto simp: helper_ok_def split: option.splits)
    have "legal_path (rev (h_transitions h @ [HelperCooling]))"
      using ok True legal_path_transition [of "h_transitions h" HelperCooling] by (auto simp: helper_ok_def)
    then have "helper_ok spawn (fst (stop_owned_child (transition HelperCooling h)))"
      using ok True c by (intro stop_owned_child_ok) (auto simp: helper_ok_def transition_def children_log_def)
    then show ?thesis using True by (simp add: HelperClose helper_close_def)
  qed (use ok in \<open>simp add: HelperClose helper_close_def\<close>)
qed

lemma helper_run_ok:
  assumes "spawns_with_pid spawn"
  shows "helper_ok spawn (helper_run spawn w calls)"
proof -
  have step: "helper_ok spawn h \<Longrightarrow> helper_ok spawn (helper_step c h)" for c h
    by (rule helper_step_ok [OF _ assms])
  have "helper_ok spawn h \<Longrightarrow> helper_ok spawn (fold helper_step calls h)" for h
    by (induction calls arbitrary: h) (auto intro: step)
  then show ?thesis by (simp add: helper_run_def helper_ok_new)
qed

text \<open>\<open>Stopped\<close> is proof of reclaim: whatever the session asks, with a launcher that never returns a child
  without a process id, at most one child is ever spawned; the provider is in the state \<open>Stopped\<close> only with no
  child left alive, its exit confirmed if there was one; a child that may still live is owned, so that dropping the
  provider tries to reclaim it again; and the recorded transitions are a legal history ending in the present state.
\<close>

theorem stopped_means_reclaimed:
  assumes "spawns_with_pid spawn"
  shows "(let h = helper_run spawn w calls in
      length (children_log h) \<le> 2 \<and> length (alive_children (children_log h)) \<le> 1
      \<and> (h_lifecycle h = HelperStopped \<longleftrightarrow> alive_children (children_log h) = [])
      \<and> (h_child h = None \<longleftrightarrow> alive_children (children_log h) = [])
      \<and> legal_path (rev (h_transitions h)) \<and> h_lifecycle h = last (h_transitions h))"
  using helper_run_ok [OF assms, of w calls]
  by (cases "h_child (helper_run spawn w calls)") (auto simp: helper_ok_def Let_def)

text \<open>A child that cannot be reclaimed.\<close>

definition stuck_child :: "nat \<Rightarrow> unit helper_process" where
  "stuck_child pid = \<lparr>hp_pid = pid, hp_start = (\<lambda>_ w. (w, Inr ())), hp_push_audio = (\<lambda>_ w. (w, Inr ())),
     hp_drain = (\<lambda>w. (w, [])), hp_request_shutdown = (\<lambda>w. (w, Inr ())),
     hp_wait_for_exit = (\<lambda>w. (w, Inr \<lparr>exit_pid = pid, exit_exited = False\<rparr>)), hp_kill_and_wait = (\<lambda>w. (w, Inl Transport))\<rparr>"

definition helper_sample_input :: session_input where
  "helper_sample_input = \<lparr>si_session_id = lit ''s'', si_locale = None, si_sample_rate = 16000\<rparr>"

lemmas helper_defs = helper_run_def helper_new_def helper_open_def helper_started_def helper_close_def transition_def
  watched_launcher_def stop_owned_child_def reclaim_child_def graceful_exit_def note_exit_def stuck_child_def
  proves_exit_def children_log_def

theorem stopped_means_reclaimed_witness:
  "h_lifecycle (helper_run (\<lambda>w. (w, Inr (stuck_child 9))) () [HelperOpen helper_sample_input, HelperClose]) \<noteq> HelperStopped
   \<and> alive_children (children_log (helper_run (\<lambda>w. (w, Inr (stuck_child 9))) () [HelperOpen helper_sample_input, HelperClose])) = [9]"
proof -
  let ?h = "helper_run (\<lambda>w. (w, Inr (stuck_child 9))) () [HelperOpen helper_sample_input, HelperClose]"
  have alive: "alive_children (children_log ?h) = [9]" by (simp add: helper_defs)
  have "spawns_with_pid (\<lambda>w. (w, Inr (stuck_child 9)))" by (auto simp: spawns_with_pid_def stuck_child_def)
  from stopped_means_reclaimed [OF this, of "()" "[HelperOpen helper_sample_input, HelperClose]"]
  show ?thesis using alive by (auto simp: Let_def)
qed

text \<open>Where \<open>Stopped\<close> is claimed without proof: a child handle that reports process id 0 is refused, but
  when its reclaim fails the failure is thrown away and the provider records \<open>Stopped\<close>, keeps no handle, and
  reports no exit.
\<close>

theorem unreclaimed_child_is_forgotten:
  "(let h = helper_run (\<lambda>w. (w, Inr (stuck_child 0))) () [HelperOpen helper_sample_input] in
     h_lifecycle h = HelperStopped \<and> h_child h = None \<and> h_last_exit h = None \<and> alive_children (children_log h) = [0])"
  by (simp add: helper_defs Let_def)

end
