(* ===== verification/Layer1_Consent.thy ===== *)
theory Layer1_Consent
  imports Lane_Audio
begin

section \<open>Which recordings may leave the machine\<close>

text \<open>
  \<open>core/config/cloud_asr.rs\<close> (product mode and consent), \<open>core/asr_session/consent.rs\<close> (the egress gate),
  the tail selection of \<open>core/config/loader.rs\<close> and \<open>layer1_decision_with_factory\<close> of
  \<open>core/asr_session/mod.rs\<close>. The factory that connects to the gateway is a parameter: its answer is a
  provider or a reason. What the user stored is a record of the raw settings and the two environment variables read.
\<close>

subsection \<open>Mode and consent\<close>

datatype asr_product_mode = ModeCloud | ModeLocalPower | ModeAppleOnly

definition asr_mode_as_str :: "asr_product_mode \<Rightarrow> rstr" where
  "asr_mode_as_str m = (case m of ModeCloud \<Rightarrow> lit ''cloud'' | ModeLocalPower \<Rightarrow> lit ''local_power'' | ModeAppleOnly \<Rightarrow> lit ''apple_only'')"

definition asr_mode_from_str :: "rstr \<Rightarrow> asr_product_mode option" where
  "asr_mode_from_str s =
     (let value = to_ascii_lowercase (trim s) in
      if value = lit ''cloud'' then Some ModeCloud
      else if value = lit ''local_power'' then Some ModeLocalPower
      else if value = lit ''apple_only'' then Some ModeAppleOnly
      else None)"

datatype consent_source = ExplicitSettings | LegacyCloudChoice

datatype audio_egress_consent = Granted consent_source | Denied | Unanswered

definition consent_from_wire :: "rstr option \<Rightarrow> audio_egress_consent" where
  "consent_from_wire wire =
     (case map_option (\<lambda>value. to_ascii_lowercase (trim value)) wire of
        None \<Rightarrow> Unanswered
      | Some value \<Rightarrow> if value = lit ''granted'' then Granted ExplicitSettings
                     else if value = lit ''denied'' then Denied else Unanswered)"

definition permits_egress :: "audio_egress_consent \<Rightarrow> bool" where
  "permits_egress c = (case c of Granted _ \<Rightarrow> True | _ \<Rightarrow> False)"

datatype mode_derivation =
    ExplicitChoice | LegacyLocalChoice | LegacyCloud | FreshDefault | ConsentMissingFallback | ConsentDeniedFallback
  | UnknownModeFallback

record resolved_asr_mode =
  rm_mode :: asr_product_mode
  rm_consent :: audio_egress_consent
  rm_derivation :: mode_derivation

definition resolve_asr_product_mode :: "rstr option \<Rightarrow> rstr option \<Rightarrow> bool option \<Rightarrow> resolved_asr_mode" where
  "resolve_asr_product_mode explicit_mode consent_wire legacy_use_local_stt =
     (let consent = consent_from_wire consent_wire;
          explicit = (case map_option trim explicit_mode of Some v \<Rightarrow> if v \<noteq> [] then Some v else None | None \<Rightarrow> None);
          resolved = (\<lambda>mode consent derivation. \<lparr>rm_mode = mode, rm_consent = consent, rm_derivation = derivation\<rparr>)
      in case explicit of
           Some raw \<Rightarrow>
             (case asr_mode_from_str raw of
                Some ModeCloud \<Rightarrow>
                  (case consent of
                     Granted _ \<Rightarrow> resolved ModeCloud consent ExplicitChoice
                   | Denied \<Rightarrow> resolved ModeAppleOnly consent ConsentDeniedFallback
                   | Unanswered \<Rightarrow> resolved ModeAppleOnly consent ConsentMissingFallback)
              | Some mode \<Rightarrow> resolved mode consent ExplicitChoice
              | None \<Rightarrow> resolved ModeAppleOnly consent UnknownModeFallback)
         | None \<Rightarrow>
             (case legacy_use_local_stt of
                Some True \<Rightarrow> resolved ModeLocalPower consent LegacyLocalChoice
              | Some False \<Rightarrow>
                  if consent = Denied then resolved ModeAppleOnly consent ConsentDeniedFallback
                  else resolved ModeCloud
                         (case consent of Granted _ \<Rightarrow> consent | _ \<Rightarrow> Granted LegacyCloudChoice) LegacyCloud
              | None \<Rightarrow> resolved ModeAppleOnly consent FreshDefault))"

subsection \<open>The gate\<close>

datatype cloud_session_error = ConsentRequired

definition authorize_cloud_egress :: "audio_egress_consent \<Rightarrow> cloud_session_error + unit" where
  "authorize_cloud_egress consent = (if permits_egress consent then Inr () else Inl ConsentRequired)"

definition refiner_for :: "resolved_asr_mode \<Rightarrow> refiner_mode" where
  "refiner_for r =
     (case rm_mode r of
        ModeCloud \<Rightarrow> (case authorize_cloud_egress (rm_consent r) of Inr _ \<Rightarrow> CloudSession | Inl ConsentRequired \<Rightarrow> RefinerOff)
      | ModeLocalPower \<Rightarrow> LocalHelper
      | ModeAppleOnly \<Rightarrow> RefinerOff)"

subsection \<open>The tail lane\<close>

datatype tail_provider_id = TailInProcess | TailSidecar | TailRemote | TailFake | TailAppleDictation

definition tail_provider_as_str :: "tail_provider_id \<Rightarrow> rstr" where
  "tail_provider_as_str p = (case p of TailInProcess \<Rightarrow> lit ''inprocess'' | TailSidecar \<Rightarrow> lit ''sidecar''
     | TailRemote \<Rightarrow> lit ''remote'' | TailFake \<Rightarrow> lit ''fake'' | TailAppleDictation \<Rightarrow> lit ''apple_dictation'')"

definition tail_provider_parse :: "rstr \<Rightarrow> tail_provider_id option" where
  "tail_provider_parse value =
     (let v = to_ascii_lowercase (trim value) in
      if v = [] \<or> v = lit ''inprocess'' \<or> v = lit ''in_process'' then Some TailInProcess
      else if v = lit ''sidecar'' then Some TailSidecar
      else if v = lit ''remote'' then Some TailRemote else None)"

datatype env_var = EnvValue rstr | EnvAbsent | EnvNotUnicode

definition resolve_local_tail_patch :: "rstr option \<Rightarrow> tail_disposition" where
  "resolve_local_tail_patch phase =
     (case map_option (\<lambda>p. to_ascii_lowercase (trim p)) phase of
        None \<Rightarrow> ArmedDefault
      | Some p \<Rightarrow>
          if p = [] then ArmedDefault
          else if p = lit ''phase1'' \<or> p = lit ''1'' then ArmedPhase 1
          else if p \<in> set (map lit [''off'', ''0'', ''false'', ''no'']) then DegradedExplicitOff
          else DegradedInvalidOverride)"

record asr_settings =
  as_mode :: "rstr option"
  as_consent :: "rstr option"
  as_use_local_stt :: "bool option"
  as_layered_env :: env_var
  as_tail_env :: env_var
  as_refine_endpoint :: rstr

definition resolved_mode :: "asr_settings \<Rightarrow> resolved_asr_mode" where
  "resolved_mode s = resolve_asr_product_mode (as_mode s) (as_consent s) (as_use_local_stt s)"

definition snapshot_tail_provider :: "asr_settings \<Rightarrow> tail_provider_id option" where
  "snapshot_tail_provider s =
     (case as_tail_env s of
        EnvValue value \<Rightarrow> tail_provider_parse value
      | EnvAbsent \<Rightarrow> Some (if rm_mode (resolved_mode s) = ModeCloud then TailRemote else TailInProcess)
      | EnvNotUnicode \<Rightarrow> None)"

definition snapshot_local_tail_patch :: "asr_settings \<Rightarrow> tail_disposition" where
  "snapshot_local_tail_patch s =
     (if snapshot_tail_provider s = None then DegradedInvalidOverride
      else resolve_local_tail_patch (case as_layered_env s of EnvValue v \<Rightarrow> Some v | _ \<Rightarrow> None))"

subsection \<open>The decision\<close>

record layer1_receipt =
  rc_asr_mode :: rstr
  rc_refiner :: rstr
  rc_reason :: rstr
  rc_consent :: rstr

definition cloud_refiner :: "tail_transport \<Rightarrow> rstr" where
  "cloud_refiner t = (case t of
     RemoteTail \<Rightarrow> lit ''cloud_session+remote_tail_patch'' | InProcess \<Rightarrow> lit ''cloud_session+inprocess_tail_patch''
   | Sidecar \<Rightarrow> lit ''cloud_session+sidecar_tail_patch'' | FakeTail \<Rightarrow> lit ''cloud_session+fake_tail_patch'')"

definition decide_layer1 :: "asr_settings \<Rightarrow> (rstr + 'w asr_provider) \<Rightarrow> 'w layer1_decision \<times> layer1_receipt" where
  "decide_layer1 s factory =
     (let resolved = resolved_mode s;
          receipt = \<lparr>rc_asr_mode = asr_mode_as_str (rm_mode resolved), rc_refiner = lit ''off'', rc_reason = lit ''layered_off'',
            rc_consent = (case rm_consent resolved of Granted _ \<Rightarrow> lit ''granted'' | Denied \<Rightarrow> lit ''denied''
                          | Unanswered \<Rightarrow> lit ''missing'')\<rparr>
      in case refiner_for resolved of
           CloudSession \<Rightarrow>
             (case (case authorize_cloud_egress (rm_consent resolved) of
                      Inl _ \<Rightarrow> Inl (lit ''consent_required'') | Inr _ \<Rightarrow> factory) of
                Inr provider \<Rightarrow>
                  let transport = from_provider_token (map_option tail_provider_as_str (snapshot_tail_provider s));
                      tail = (if snapshot_tail_provider s \<noteq> None then ArmedDefault else NotApplicable)
                  in (Cloud provider tail transport (as_refine_endpoint s),
                      receipt\<lparr>rc_refiner := (if tail_is_armed tail then cloud_refiner transport else lit ''cloud_session''),
                        rc_reason := lit ''cloud_ready''\<rparr>)
              | Inl reason \<Rightarrow> (Disarmed, receipt\<lparr>rc_reason := reason\<rparr>))
         | LocalHelper \<Rightarrow>
             (let local_patch = LocalTailPatch (snapshot_local_tail_patch s) in
              if \<not> decision_is_armed local_patch
              then (Disarmed, receipt\<lparr>rc_reason :=
                     (if decision_tail local_patch = Some DegradedInvalidOverride then lit ''layered_invalid''
                      else lit ''layered_off'')\<rparr>)
              else (local_patch, receipt\<lparr>rc_refiner := lit ''local_tail_patch'', rc_reason := lit ''local_tail_patch_armed''\<rparr>))
         | RefinerOff \<Rightarrow>
             (Disarmed, receipt\<lparr>rc_reason :=
                (case rm_derivation resolved of
                   ConsentMissingFallback \<Rightarrow> lit ''consent_missing''
                 | ConsentDeniedFallback \<Rightarrow> lit ''consent_denied''
                 | UnknownModeFallback \<Rightarrow> lit ''asr_mode_invalid''
                 | _ \<Rightarrow> lit ''apple_only'')\<rparr>))"

subsection \<open>Consent\<close>

text \<open>The two ways to have said yes: the explicit cloud mode with a granted record, or the old cloud setting without a no.\<close>

definition consent_reads :: "rstr option \<Rightarrow> string \<Rightarrow> bool" where
  "consent_reads wire word \<longleftrightarrow> map_option (\<lambda>w. to_ascii_lowercase (trim w)) wire = Some (lit word)"

definition chose_cloud :: "asr_settings \<Rightarrow> bool" where
  "chose_cloud s \<longleftrightarrow>
     (case map_option trim (as_mode s) of
        Some (c # cs) \<Rightarrow> to_ascii_lowercase (trim (c # cs)) = lit ''cloud''
          \<and> consent_reads (as_consent s) ''granted''
      | _ \<Rightarrow> as_use_local_stt s = Some False
          \<and> \<not> consent_reads (as_consent s) ''denied'')"

definition chose_local :: "asr_settings \<Rightarrow> bool" where
  "chose_local s \<longleftrightarrow>
     (case map_option trim (as_mode s) of
        Some (c # cs) \<Rightarrow> to_ascii_lowercase (trim (c # cs)) = lit ''local_power''
      | _ \<Rightarrow> as_use_local_stt s = Some True)"

lemma wire_words [simp]: "lit ''granted'' \<noteq> lit ''denied''" "lit ''denied'' \<noteq> lit ''granted''"
  "lit ''cloud'' \<noteq> lit ''local_power''" "lit ''local_power'' \<noteq> lit ''cloud''"
  "lit ''apple_only'' \<noteq> lit ''cloud''" "lit ''apple_only'' \<noteq> lit ''local_power''"
  by (simp_all add: lit_def)

lemma consent_from_wire_iff:
  "permits_egress (consent_from_wire w) \<longleftrightarrow> consent_reads w ''granted''"
  "consent_from_wire w = Denied \<longleftrightarrow> consent_reads w ''denied''"
  by (auto simp: consent_from_wire_def permits_egress_def consent_reads_def split: option.split)

lemma refiner_for_resolved:
  "refiner_for (resolved_mode s) = (if chose_cloud s then CloudSession else if chose_local s then LocalHelper else RefinerOff)"
proof (cases "map_option trim (as_mode s)")
  case None
  then show ?thesis
    using consent_from_wire_iff [of "as_consent s"]
    by (cases "consent_from_wire (as_consent s)"; cases "as_use_local_stt s")
      (auto simp: resolved_mode_def resolve_asr_product_mode_def chose_cloud_def chose_local_def refiner_for_def
        authorize_cloud_egress_def permits_egress_def Let_def split: bool.split)
next
  case (Some raw)
  show ?thesis
  proof (cases raw)
    case Nil
    then show ?thesis
      using Some consent_from_wire_iff [of "as_consent s"]
      by (cases "consent_from_wire (as_consent s)"; cases "as_use_local_stt s")
        (auto simp: resolved_mode_def resolve_asr_product_mode_def chose_cloud_def chose_local_def refiner_for_def
          authorize_cloud_egress_def permits_egress_def Let_def split: bool.split)
  next
    case (Cons c cs)
    then show ?thesis
      using Some consent_from_wire_iff [of "as_consent s"]
      by (cases "consent_from_wire (as_consent s)")
        (auto simp: resolved_mode_def resolve_asr_product_mode_def chose_cloud_def chose_local_def refiner_for_def
          authorize_cloud_egress_def permits_egress_def asr_mode_from_str_def Let_def)
  qed
qed

text \<open>The decision of a recording, from the raw settings: a cloud session exactly when the user chose the cloud with a
  granted consent (or kept the old cloud setting and never said no) and the factory connected; an armed local
  lane exactly when local power was chosen and its tail is armed; nothing otherwise. A failed cloud session is never
  replaced by local weights.
\<close>

theorem layer1_follows_consent:
  "fst (decide_layer1 s factory) =
     (if chose_cloud s
      then (case factory of
              Inl _ \<Rightarrow> Disarmed
            | Inr p \<Rightarrow> Cloud p (if snapshot_tail_provider s \<noteq> None then ArmedDefault else NotApplicable)
                       (from_provider_token (map_option tail_provider_as_str (snapshot_tail_provider s))) (as_refine_endpoint s))
      else if chose_local s \<and> tail_is_armed (snapshot_local_tail_patch s) then LocalTailPatch (snapshot_local_tail_patch s)
      else Disarmed)"
proof -
  have granted: "permits_egress (rm_consent (resolved_mode s))" if "refiner_for (resolved_mode s) = CloudSession"
    using that by (auto simp: refiner_for_def authorize_cloud_egress_def split: asr_product_mode.splits if_splits)
  show ?thesis
    using refiner_for_resolved [of s] granted
    by (auto simp: decide_layer1_def Let_def authorize_cloud_egress_def decision_is_armed_def split: sum.split)
qed

text \<open>A lane without a provider touches nothing outside itself.\<close>

definition inert :: "'w \<Rightarrow> 'w lane \<Rightarrow> bool" where
  "inert w l \<longleftrightarrow> \<not> is_live l \<and> lane_provider l = None \<and> lane_world l = w"

lemma inert_step: "inert w l \<Longrightarrow> inert w (lane_step c l)"
  by (cases c)
    (simp_all add: inert_def is_live_def offer_pcm_def Let_def flush_holdback_def commit_through_def poll_lane_def note_sleep_wake_def
      take_unforwarded_finals_def note_final_after_worker_exit_def take_degrade_notice_def stop_lane_def)

lemma inert_run: "inert w l \<Longrightarrow> inert w (fold lane_step calls l)"
  by (induction calls arbitrary: l) (auto intro: inert_step)


lemma denied_reads: "to_ascii_lowercase (trim (lit ''denied'')) = lit ''denied''"
  by (simp add: lit_def trim_def is_whitespace_def to_ascii_lowercase_def ascii_lower_def)

definition refusing_user :: asr_settings where
  "refusing_user = \<lparr>as_mode = None, as_consent = Some (lit ''denied''), as_use_local_stt = Some False,
     as_layered_env = EnvAbsent, as_tail_env = EnvAbsent, as_refine_endpoint = []\<rparr>"

definition silent_provider :: "unit asr_provider" where
  "silent_provider = \<lparr>prov_mode = CloudSession, prov_open = (\<lambda>_ w. (w, Inr ())), prov_push_audio = (\<lambda>_ w. (w, Inr ())),
     prov_drain = (\<lambda>w. (w, [])), prov_close = (\<lambda>w. (w, Inr ())), prov_commit = (\<lambda>_ w. (w, Inr ())), prov_drop = (\<lambda>w. w)\<rparr>"


end
