(* ===== verification/Capture_Windows.thy ===== *)
theory Capture_Windows
  imports CS_Prelude
begin

section \<open>Capture samples and the plan of decode windows\<close>

text \<open>
  \<open>core/pipeline/streaming/live_audio_buffer.rs\<close> and \<open>core/pipeline/streaming/layer1_window.rs\<close>: the bounded
  ring of session samples on the capture clock, the archive that replaces it after the stop, and the plan that
  offers every decode window of a session once. Samples are opaque. The retention in samples is an argument of the
  buffer (the code rounds it from seconds), and the WAV reader is a record of what it found in the file.
\<close>

subsection \<open>The live buffer\<close>

record 'a live_audio_buffer =
  buf_samples :: "'a list"
  buf_start :: u64
  buf_end :: u64
  buf_capacity :: nat

record 'a audio_window =
  aw_samples :: "'a list"
  aw_start :: u64
  aw_end :: u64

definition buffer_new :: "nat \<Rightarrow> 'a live_audio_buffer" where
  "buffer_new capacity = \<lparr>buf_samples = [], buf_start = 0, buf_end = 0, buf_capacity = max 1 capacity\<rparr>"

definition buffer_push :: "'a list \<Rightarrow> 'a live_audio_buffer \<Rightarrow> 'a live_audio_buffer" where
  "buffer_push chunk b =
     (if chunk = [] then b
      else let samples = buf_samples b @ chunk;
               b = b\<lparr>buf_samples := samples, buf_end := min u64_max (buf_end b + length chunk)\<rparr>
           in if buf_capacity b < length samples
              then let overflow = length samples - buf_capacity b
                   in b\<lparr>buf_samples := drop overflow samples, buf_start := min u64_max (buf_start b + overflow)\<rparr>
              else b)"

definition window_by_samples :: "u64 \<Rightarrow> u64 \<Rightarrow> 'a live_audio_buffer \<Rightarrow> 'a audio_window option" where
  "window_by_samples sample_start sample_end b =
     (if sample_end < sample_start \<or> sample_start < buf_start b \<or> buf_end b < sample_start \<or> buf_end b < sample_end then None
      else let lo = sample_start - buf_start b; hi = sample_end - buf_start b
           in Some \<lparr>aw_samples = take (hi - lo) (drop lo (buf_samples b)), aw_start = sample_start, aw_end = sample_end\<rparr>)"

subsection \<open>The archive of a stopped session\<close>

record finalized_archive =
  fa_session :: rstr
  fa_epoch :: u64
  fa_rate :: u64
  fa_count :: u64

record wav_file =
  wav_channels :: nat
  wav_rate :: u64
  wav_bits :: nat
  wav_int :: bool
  wav_duration :: u64
  wav_samples :: "(16 word) option list"

datatype archive_error = IdentityMismatch | UnreadableWav | WrongFormat | LengthMismatch | BadSample

text \<open>\<open>decode\<close> is the division by \<open>i16::MAX\<close>; a sample the reader cannot produce is \<open>None\<close>.\<close>

definition archive_load ::
  "(16 word \<Rightarrow> 'a) \<Rightarrow> wav_file option \<Rightarrow> finalized_archive \<Rightarrow> rstr \<Rightarrow> u64 \<Rightarrow> u64 \<Rightarrow> u64 \<Rightarrow> archive_error + 'a list" where
  "archive_load decode wav a session epoch rate count =
     (if \<not> (fa_session a = session \<and> fa_epoch a = epoch \<and> fa_rate a = rate \<and> fa_count a = count) then Inl IdentityMismatch
      else case wav of
             None \<Rightarrow> Inl UnreadableWav
           | Some f \<Rightarrow>
               if \<not> (wav_channels f = 1 \<and> wav_rate f = rate \<and> wav_bits f = 16 \<and> wav_int f) then Inl WrongFormat
               else if wav_duration f \<noteq> count then Inl LengthMismatch
               else if list_all (\<lambda>s. s \<noteq> None) (wav_samples f)
               then Inr (map (\<lambda>s. decode (the s)) (wav_samples f)) else Inl BadSample)"

definition terminal_window :: "u64 \<Rightarrow> u64 \<Rightarrow> 'a list \<Rightarrow> 'a audio_window option" where
  "terminal_window sample_start sample_end samples =
     (if sample_end < sample_start \<or> length samples < sample_end then None
      else Some \<lparr>aw_samples = take (sample_end - sample_start) (drop sample_start samples),
                 aw_start = sample_start, aw_end = sample_end\<rparr>)"

subsection \<open>The window plan\<close>

definition LIVE_WINDOW_SECS :: nat where "LIVE_WINDOW_SECS = 9"
definition LIVE_STEP_SECS :: nat where "LIVE_STEP_SECS = 3"

record tail_range =
  tr_owner :: rstr
  tr_epoch :: u64
  tr_start :: u64
  tr_end :: u64

record window_plan =
  wp_session :: rstr
  wp_epoch :: u64
  window_samples :: u64
  step_samples :: u64
  capture_end :: u64
  eof :: "u64 option"
  next_start :: u64
  last_full_end :: u64
  offered :: "tail_range option"
  plan_finished :: bool
  trial_offer :: bool
  last_trial_bucket :: "u64 option"

definition plan_new :: "rstr \<Rightarrow> u64 \<Rightarrow> u64 \<Rightarrow> window_plan" where
  "plan_new session epoch rate = \<lparr>wp_session = session, wp_epoch = epoch, window_samples = rate * LIVE_WINDOW_SECS,
     step_samples = rate * LIVE_STEP_SECS, capture_end = 0, eof = None, next_start = 0, last_full_end = 0,
     offered = None, plan_finished = (rate = 0), trial_offer = False, last_trial_bucket = None\<rparr>"

definition set_non_overlapping :: "window_plan \<Rightarrow> window_plan" where
  "set_non_overlapping p = p\<lparr>step_samples := window_samples p\<rparr>"

definition observe_head :: "u64 \<Rightarrow> bool \<Rightarrow> window_plan \<Rightarrow> window_plan" where
  "observe_head head stopping p =
     (if eof p \<noteq> None then p
      else let p = p\<lparr>capture_end := max (capture_end p) head\<rparr>
           in if stopping then p\<lparr>eof := Some (capture_end p)\<rparr> else p)"

definition plan_head :: "window_plan \<Rightarrow> u64" where
  "plan_head p = (case eof p of Some e \<Rightarrow> e | None \<Rightarrow> capture_end p)"

definition plan_range :: "window_plan \<Rightarrow> u64 \<Rightarrow> u64 \<Rightarrow> tail_range" where
  "plan_range p s e = \<lparr>tr_owner = wp_session p, tr_epoch = wp_epoch p, tr_start = s, tr_end = e\<rparr>"

text \<open>The grid window behind the head, once nothing is outstanding.\<close>

definition offer_grid :: "window_plan \<Rightarrow> window_plan \<times> tail_range option" where
  "offer_grid p =
     (let head = plan_head p;
          give_up = (if eof p \<noteq> None then p\<lparr>plan_finished := True\<rparr> else p);
          full_end = next_start p + window_samples p
      in if u64_max < full_end then (give_up, None)
         else let choice = (if 0 < window_samples p \<and> full_end \<le> head then Some full_end
                            else if eof p \<noteq> None \<and> last_full_end p < head \<and> next_start p < head then Some head else None)
              in case choice of
                   None \<Rightarrow> (give_up, None)
                 | Some e \<Rightarrow>
                     if e \<le> next_start p then (p\<lparr>plan_finished := (eof p \<noteq> None)\<rparr>, None)
                     else (p\<lparr>offered := Some (plan_range p (next_start p) e)\<rparr>, Some (plan_range p (next_start p) e)))"

definition next_due :: "u64 \<Rightarrow> bool \<Rightarrow> window_plan \<Rightarrow> window_plan \<times> tail_range option" where
  "next_due head stopping p =
     (if trial_offer p then (p, offered p)
      else if plan_finished p then (p, None)
      else if eof p = None \<and> head < capture_end p then (p, None)
      else let p = observe_head head stopping p
           in case offered p of Some r \<Rightarrow> (p, Some r) | None \<Rightarrow> offer_grid p)"

definition offer_trial :: "u64 \<Rightarrow> u64 \<Rightarrow> u64 \<Rightarrow> bool \<Rightarrow> window_plan \<Rightarrow> window_plan \<times> tail_range option" where
  "offer_trial s e head stopping p =
     (let p = observe_head head stopping p; head = plan_head p
      in if window_samples p = 0 then (p, None)
         else let bucket = head div window_samples p
              in if offered p \<noteq> None \<or> e \<le> s \<or> head < e \<or> window_samples p < e - s \<or> last_trial_bucket p = Some bucket
                    \<or> (eof p \<noteq> None \<and> s < head - window_samples p)
                 then (p, None)
                 else (p\<lparr>last_trial_bucket := Some bucket, trial_offer := True, offered := Some (plan_range p s e)\<rparr>,
                       Some (plan_range p s e)))"

definition account :: "tail_range \<Rightarrow> window_plan \<Rightarrow> window_plan \<times> bool" where
  "account r p =
     (if offered p \<noteq> Some r then (p, False)
      else let p = p\<lparr>offered := None\<rparr>
           in if trial_offer p then (p\<lparr>trial_offer := False\<rparr>, True)
              else if tr_end r - tr_start r = window_samples p
              then (p\<lparr>last_full_end := tr_end r, next_start := min u64_max (next_start p + step_samples p),
                      plan_finished := (eof p = Some (tr_end r))\<rparr>, True)
              else (p\<lparr>plan_finished := True\<rparr>, True))"

definition admission_horizon :: "window_plan \<Rightarrow> u64" where
  "admission_horizon p = (if plan_finished p then u64_max else next_start p)"

definition plan_is_finished :: "window_plan \<Rightarrow> bool" where
  "plan_is_finished p \<longleftrightarrow> plan_finished p \<and> offered p = None"

text \<open>The stop deadline expires what is left: the loop of \<open>apple_live_session\<close> over the two calls above.\<close>

partial_function (option) expire_windows :: "u64 \<Rightarrow> bool \<Rightarrow> window_plan \<Rightarrow> (window_plan \<times> tail_range list) option" where
  "expire_windows head stopping p =
     (case next_due head stopping p of
        (p', None) \<Rightarrow> Some (p', [])
      | (p', Some r) \<Rightarrow>
          Option.bind (expire_windows head stopping (fst (account r p'))) (\<lambda>(p'', rs). Some (p'', r # rs)))"

subsection \<open>The buffer is the tail of the capture\<close>

definition buffer_run :: "nat \<Rightarrow> 'a list list \<Rightarrow> 'a live_audio_buffer" where
  "buffer_run capacity chunks = fold buffer_push chunks (buffer_new capacity)"

definition buffer_shows :: "'a list \<Rightarrow> nat \<Rightarrow> 'a live_audio_buffer \<Rightarrow> bool" where
  "buffer_shows pcm capacity b \<longleftrightarrow> buf_capacity b = capacity \<and> buf_end b = length pcm
     \<and> buf_start b = length pcm - capacity \<and> buf_samples b = drop (length pcm - capacity) pcm"

lemma buffer_push_shows:
  assumes "buffer_shows pcm capacity b" and "length pcm + length chunk \<le> u64_max"
  shows "buffer_shows (pcm @ chunk) capacity (buffer_push chunk b)"
proof (cases "chunk = [] \<or> capacity < length (buf_samples b @ chunk)")
  case True
  then show ?thesis using assms by (auto simp: buffer_shows_def buffer_push_def Let_def min_def)
next
  case False
  have b: "buf_capacity b = capacity" "buf_end b = length pcm" "buf_start b = length pcm - capacity"
    "buf_samples b = drop (length pcm - capacity) pcm" using assms(1) by (simp_all add: buffer_shows_def)
  have "0 < length chunk" using False by simp
  moreover have "length pcm - (length pcm - capacity) + length chunk \<le> capacity" using False b(4) by simp
  ultimately have "length pcm \<le> capacity" "length pcm + length chunk \<le> capacity" by linarith+
  then show ?thesis using False assms(2) b by (simp add: buffer_shows_def buffer_push_def Let_def)
qed

lemma buffer_run_shows:
  assumes "length (concat chunks) \<le> u64_max"
  shows "buffer_shows (concat chunks) (max 1 capacity) (buffer_run capacity chunks)"
  using assms
proof (induction chunks rule: rev_induct)
  case Nil
  then show ?case by (simp add: buffer_run_def buffer_new_def buffer_shows_def)
next
  case (snoc chunk chunks)
  then show ?case using buffer_push_shows [of "concat chunks" "max 1 capacity"] by (simp add: buffer_run_def)
qed

lemma buffer_run_window:
  assumes "length (concat chunks) \<le> u64_max"
  shows "window_by_samples s e (buffer_run capacity chunks)
    = (if s \<le> e \<and> e \<le> length (concat chunks) \<and> length (concat chunks) - max 1 capacity \<le> s
       then Some \<lparr>aw_samples = take (e - s) (drop s (concat chunks)), aw_start = s, aw_end = e\<rparr> else None)"
  using buffer_run_shows [OF assms, of capacity]
  by (auto simp: buffer_shows_def window_by_samples_def Let_def)

text \<open>C39. A window is a slice of the capture: however the session's samples were chunked, a request is answered exactly
  when it is in order, ends inside the capture and starts no earlier than the retained tail, and the answer is
  then the requested slice of everything captured, under its own coordinates. Nothing is clamped or padded.
\<close>

theorem window_is_capture_slice:
  assumes "length (concat chunks) \<le> u64_max"
  shows "window_by_samples s e (buffer_run capacity chunks)
    = (if s \<le> e \<and> e \<le> length (concat chunks) \<and> length (concat chunks) - max 1 capacity \<le> s
       then Some \<lparr>aw_samples = take (e - s) (drop s (concat chunks)), aw_start = s, aw_end = e\<rparr> else None)"
  using assms by (rule buffer_run_window)

theorem window_is_capture_slice_witness:
  "map (\<lambda>s. map_option aw_samples (window_by_samples s 5 (buffer_run 3 [[1, 2], [], [3, 4, 5 :: nat]]))) [1, 2, 4]
     = [None, Some [3, 4, 5], Some [5]]"
  using window_is_capture_slice [of "[[1, 2], [], [3, 4, 5 :: nat]]" _ 5 3] by (simp add: u64_max_def)

text \<open>After the stop the archive takes over on the same clock: an archive that loads under the session's identity has
  the length the session counted, and a window of it has the coordinates and the length of the live window wherever
  the live buffer still answers, with each sample decoded from its own position.
\<close>

theorem archive_answers_like_buffer:
  assumes "length (concat chunks) \<le> u64_max" and "archive_load decode (Some f) a session epoch rate (length (concat chunks)) = Inr pcm"
    and "wav_duration f = length (wav_samples f)"
    and "window_by_samples s e (buffer_run capacity chunks) = Some live"
  shows "\<exists>w. terminal_window s e pcm = Some w \<and> aw_start w = aw_start live \<and> aw_end w = aw_end live
    \<and> length (aw_samples w) = length (aw_samples live)
    \<and> aw_samples w = map (\<lambda>i. decode (the (wav_samples f ! i))) [s..<e]"
proof -
  have pcm: "pcm = map (\<lambda>x. decode (the x)) (wav_samples f)" "length (wav_samples f) = length (concat chunks)"
    using assms(2,3) by (auto simp: archive_load_def split: if_splits)
  have r: "s \<le> e" "e \<le> length (concat chunks)" "aw_start live = s" "aw_end live = e" "length (aw_samples live) = e - s"
    using assms(4) unfolding buffer_run_window [OF assms(1)] by (auto split: if_splits)
  have "take (e - s) (drop s pcm) = map (\<lambda>i. decode (the (wav_samples f ! i))) [s..<e]"
    using r pcm by (intro nth_equalityI) auto
  then show ?thesis using r pcm by (simp add: terminal_window_def)
qed

theorem archive_answers_like_buffer_witness:
  "(let f = \<lparr>wav_channels = 1, wav_rate = 4, wav_bits = 16, wav_int = True, wav_duration = 3,
              wav_samples = [Some 7, Some 8, Some 9]\<rparr>;
        a = \<lparr>fa_session = [], fa_epoch = 1, fa_rate = 4, fa_count = 3\<rparr>
    in archive_load unat (Some f) a [] 1 4 3 = Inr [7, 8, 9]
       \<and> map_option aw_samples (terminal_window 1 3 [7, 8, 9 :: nat]) = Some [8, 9])"
proof -
  let ?f = "\<lparr>wav_channels = 1, wav_rate = 4, wav_bits = 16, wav_int = True, wav_duration = 3,
              wav_samples = [Some 7, Some 8, Some (9 :: 16 word)]\<rparr>"
  let ?a = "\<lparr>fa_session = [], fa_epoch = 1, fa_rate = 4, fa_count = 3\<rparr>"
  have load: "archive_load unat (Some ?f) ?a [] 1 4 (length (concat [[1, 2, 3 :: nat]])) = Inr [7, 8, 9]"
    by (simp add: archive_load_def)
  have live: "window_by_samples 1 3 (buffer_run 4 [[1, 2, 3 :: nat]])
      = Some \<lparr>aw_samples = [2, 3], aw_start = 1, aw_end = 3\<rparr>"
    using buffer_run_window [of "[[1, 2, 3 :: nat]]" 1 3 4] by (simp add: u64_max_def)
  have "length (concat [[1, 2, 3 :: nat]]) \<le> u64_max" "wav_duration ?f = length (wav_samples ?f)" by (simp_all add: u64_max_def)
  from archive_answers_like_buffer [OF this(1) load this(2) live]
  have "map_option aw_samples (terminal_window 1 3 [7, 8, 9 :: nat]) = Some [8, 9]" by (auto simp: upt_rec)
  moreover have "archive_load unat (Some ?f) ?a [] 1 4 3 = Inr [7, 8, 9]" using load by (simp add: numeral_3_eq_3)
  ultimately show ?thesis unfolding Let_def by blast
qed

end
