(* ===== verification/Window_Plan.thy ===== *)
theory Window_Plan
  imports Capture_Windows Machines
begin

section \<open>Every capture sample is planned\<close>

text \<open>
  The theorems about the window plan of \<open>Capture_Windows\<close>. A session drives the plan with three calls; the windows it
  accounts are the events, and an automaton that only counts says which windows may come.
\<close>

datatype plan_call = NextDue u64 bool | OfferTrial u64 u64 u64 bool | Account tail_range

text \<open>The event of an accounted window: whether it was a trial, and its samples.\<close>

fun plan_step :: "plan_call \<Rightarrow> window_plan \<Rightarrow> window_plan \<times> (bool \<times> nat \<times> nat) option" where
  "plan_step (NextDue head stopping) p = (fst (next_due head stopping p), None)"
| "plan_step (OfferTrial s e head stopping) p = (fst (offer_trial s e head stopping p), None)"
| "plan_step (Account r) p =
     (fst (account r p), if snd (account r p) then Some (trial_offer p, tr_start r, tr_end r) else None)"

definition call_ok :: "nat \<Rightarrow> plan_call \<Rightarrow> bool" where
  "call_ok w c = (case c of NextDue head _ \<Rightarrow> head + w \<le> u64_max | OfferTrial _ _ head _ \<Rightarrow> head + w \<le> u64_max | Account _ \<Rightarrow> True)"

text \<open>The grid automaton: full windows at the multiples of the step, then at most one shorter window, then nothing.\<close>

fun grid_monitor :: "nat \<Rightarrow> nat \<Rightarrow> nat \<times> nat option \<Rightarrow> bool \<times> nat \<times> nat \<Rightarrow> (nat \<times> nat option) option" where
  "grid_monitor st w (n, closed) (trial, s, e) =
     (if trial then Some (n, closed)
      else if closed \<noteq> None \<or> s \<noteq> n * st then None
      else if e = n * st + w then Some (n + 1, None)
      else if n * st < e \<and> e < n * st + w then Some (n, Some e)
      else None)"

definition full_end :: "nat \<Rightarrow> nat \<Rightarrow> nat \<Rightarrow> nat" where
  "full_end st w n = (if n = 0 then 0 else (n - 1) * st + w)"

lemma full_end_Suc [simp]: "full_end st w (Suc n) = n * st + w" "full_end st w 0 = 0"
  by (simp_all add: full_end_def)

lemma next_before_full_end: "st \<le> w \<Longrightarrow> n * st \<le> full_end st w n"
  by (cases n) simp_all

definition grid_sim :: "nat \<Rightarrow> nat \<Rightarrow> window_plan \<Rightarrow> nat \<times> nat option \<Rightarrow> bool" where
  "grid_sim st w p m = (case m of (n, closed) \<Rightarrow>
     0 < st \<and> st \<le> w \<and> window_samples p = w \<and> step_samples p = st \<and> next_start p = n * st
     \<and> last_full_end p = full_end st w n \<and> full_end st w n \<le> capture_end p \<and> capture_end p + w \<le> u64_max
     \<and> (eof p = None \<or> eof p = Some (capture_end p))
     \<and> (trial_offer p \<longrightarrow> offered p \<noteq> None)
     \<and> (\<not> trial_offer p \<longrightarrow> (case offered p of None \<Rightarrow> True | Some r \<Rightarrow> \<not> plan_finished p \<and> closed = None \<and> tr_start r = n * st
          \<and> (tr_end r = n * st + w \<and> tr_end r \<le> capture_end p
             \<or> eof p = Some (tr_end r) \<and> n * st < tr_end r \<and> tr_end r < n * st + w)))
     \<and> (\<forall>e. closed = Some e \<longrightarrow> plan_finished p \<and> eof p = Some e)
     \<and> (plan_finished p \<longrightarrow> eof p \<noteq> None \<and> (closed \<noteq> None \<or> capture_end p \<le> full_end st w n)))"

lemma grid_sim_head:
  assumes "grid_sim st w p m" and "eof p = None" "capture_end p \<le> c" "c + w \<le> u64_max"
  shows "grid_sim st w (p\<lparr>capture_end := c\<rparr>) m" and "grid_sim st w (p\<lparr>capture_end := c, eof := Some c\<rparr>) m"
proof -
  obtain n closed where m: "m = (n, closed)" by fastforce
  have open_plan: "\<not> plan_finished p" "closed = None" using assms(1,2) by (auto simp: grid_sim_def m)
  show "grid_sim st w (p\<lparr>capture_end := c\<rparr>) m" "grid_sim st w (p\<lparr>capture_end := c, eof := Some c\<rparr>) m"
    using assms open_plan by (auto simp: grid_sim_def m split: option.split_asm)
qed

lemma grid_sim_observe:
  assumes "grid_sim st w p m" and "head + w \<le> u64_max"
  shows "grid_sim st w (observe_head head stopping p) m"
proof (cases "eof p")
  case None
  have "max (capture_end p) head + w \<le> u64_max" using assms by (auto simp: grid_sim_def)
  from grid_sim_head [OF assms(1) None max.cobounded1 this] None show ?thesis
    by (simp add: observe_head_def Let_def)
qed (simp add: observe_head_def assms)

lemma grid_sim_take_trial:
  "grid_sim st w p m \<Longrightarrow> offered p = None \<Longrightarrow>
    grid_sim st w (p\<lparr>last_trial_bucket := b, trial_offer := True, offered := Some r\<rparr>) m"
  by (cases m) (simp add: grid_sim_def)

lemma grid_sim_offer:
  assumes "grid_sim st w p m" and "\<not> trial_offer p" "\<not> plan_finished p" "offered p = None"
  shows "grid_sim st w (fst (offer_grid p)) m"
    and "snd (offer_grid p) = offered (fst (offer_grid p))"
    and "snd (offer_grid p) = None \<Longrightarrow> eof p \<noteq> None \<Longrightarrow> plan_finished (fst (offer_grid p))"
    and "trial_offer (fst (offer_grid p)) = False" "eof (fst (offer_grid p)) = eof p" "capture_end (fst (offer_grid p)) = capture_end p"
proof -
  obtain n closed where m: "m = (n, closed)" by fastforce
  have g: "0 < st" "st \<le> w" "window_samples p = w" "next_start p = n * st" "last_full_end p = full_end st w n"
    "full_end st w n \<le> capture_end p" "capture_end p + w \<le> u64_max" "eof p = None \<or> eof p = Some (capture_end p)"
    using assms(1) by (auto simp: grid_sim_def m)
  have small: "n * st + w \<le> u64_max" using next_before_full_end [OF g(2), of n] g(6,7) by linarith
  have head: "plan_head p = capture_end p" using g(8) by (auto simp: plan_head_def)
  have closed: "closed = None" using assms by (auto simp: grid_sim_def m)
  show "grid_sim st w (fst (offer_grid p)) m"
    using assms g small head closed next_before_full_end [OF g(2), of n]
    by (auto simp: offer_grid_def Let_def grid_sim_def m plan_range_def)
  show "snd (offer_grid p) = offered (fst (offer_grid p))"
    using assms(4) by (auto simp: offer_grid_def Let_def)
  show "snd (offer_grid p) = None \<Longrightarrow> eof p \<noteq> None \<Longrightarrow> plan_finished (fst (offer_grid p))"
    by (auto simp: offer_grid_def Let_def split: if_splits)
  show "trial_offer (fst (offer_grid p)) = False" "eof (fst (offer_grid p)) = eof p" "capture_end (fst (offer_grid p)) = capture_end p"
    using assms(2) by (auto simp: offer_grid_def Let_def)
qed

lemma grid_sim_next:
  assumes "grid_sim st w p m" and "head + w \<le> u64_max"
  shows "grid_sim st w (fst (next_due head stopping p)) m"
proof (cases "trial_offer p \<or> plan_finished p \<or> (eof p = None \<and> head < capture_end p)")
  case True
  then show ?thesis using assms by (auto simp: next_due_def)
next
  case False
  let ?p = "observe_head head stopping p"
  have p: "grid_sim st w ?p m" "\<not> trial_offer ?p" "\<not> plan_finished ?p"
    using False grid_sim_observe [OF assms] by (auto simp: observe_head_def Let_def)
  show ?thesis using False p grid_sim_offer(1) [OF p] by (auto simp: next_due_def Let_def split: option.split)
qed

lemma offer_trial_cases:
  fixes p s e head stopping
  defines "p' \<equiv> observe_head head stopping p"
  shows "fst (offer_trial s e head stopping p) = p'
    \<or> offered p' = None
      \<and> (\<exists>b r. fst (offer_trial s e head stopping p) = p'\<lparr>last_trial_bucket := b, trial_offer := True, offered := Some r\<rparr>)"
proof (cases "snd (offer_trial s e head stopping p)")
  case None
  then show ?thesis by (simp add: offer_trial_def Let_def p'_def [symmetric] split: if_split_asm) blast
next
  case (Some r)
  then show ?thesis by (simp add: offer_trial_def Let_def p'_def [symmetric] split: if_split_asm) blast
qed

lemma grid_sim_trial:
  assumes "grid_sim st w p m" and "head + w \<le> u64_max"
  shows "grid_sim st w (fst (offer_trial s e head stopping p)) m"
  using offer_trial_cases [of s e head stopping p] grid_sim_observe [OF assms, of stopping] grid_sim_take_trial by metis

lemma grid_sim_account:
  assumes "grid_sim st w p m"
  shows "if snd (account r p)
    then (\<exists>m'. grid_monitor st w m (trial_offer p, tr_start r, tr_end r) = Some m' \<and> grid_sim st w (fst (account r p)) m')
    else fst (account r p) = p"
proof (cases "offered p = Some r")
  case True
  obtain n closed where m: "m = (n, closed)" by fastforce
  show ?thesis
  proof (cases "trial_offer p")
    case True
    with \<open>offered p = Some r\<close> assms show ?thesis
      by (auto simp: account_def Let_def grid_sim_def m)
  next
    case False
    have r: "tr_start r = n * st" "closed = None" "\<not> plan_finished p"
      "tr_end r = n * st + w \<and> tr_end r \<le> capture_end p \<or> eof p = Some (tr_end r) \<and> n * st < tr_end r \<and> tr_end r < n * st + w"
      using assms True False by (auto simp: grid_sim_def m)
    have base: "0 < st" "st \<le> w" "window_samples p = w" "step_samples p = st" "next_start p = n * st" "capture_end p + w \<le> u64_max"
      "eof p = None \<or> eof p = Some (capture_end p)" "last_full_end p = full_end st w n" "full_end st w n \<le> capture_end p"
      using assms by (auto simp: grid_sim_def m)
    from r(4) show ?thesis
    proof
      assume full: "tr_end r = n * st + w \<and> tr_end r \<le> capture_end p"
      have "n * st + st \<le> u64_max" using full base by linarith
      then show ?thesis using True False r base full
        by (auto simp: account_def Let_def grid_sim_def m add.commute)
    next
      assume part: "eof p = Some (tr_end r) \<and> n * st < tr_end r \<and> tr_end r < n * st + w"
      then have "tr_end r - tr_start r \<noteq> w" using r(1) by linarith
      then show ?thesis using True False r base part by (auto simp: account_def Let_def grid_sim_def m)
    qed
  qed
qed (simp add: account_def)

lemma grid_sim_finished:
  assumes "grid_sim st w p (n, closed)" and "plan_finished p"
  shows "eof p = Some (capture_end p)" and "capture_end p \<le> full_end st w n \<or> (\<exists>e. closed = Some e)"
  using assms unfolding grid_sim_def by auto

lemma grid_sim_closed: "grid_sim st w p (n, Some e) \<Longrightarrow> eof p = Some e \<and> e = capture_end p \<and> plan_finished p"
  unfolding grid_sim_def by auto

lemma grid_sim_frame:
  "grid_sim st w p (n, closed) \<Longrightarrow> 0 < st \<and> st \<le> w \<and> full_end st w n \<le> capture_end p \<and> next_start p = n * st"
  unfolding grid_sim_def by auto

interpretation grid: monitored_machine plan_step "call_ok w" "grid_sim st w" "grid_monitor st w" for st w
proof
  fix c p m p'
  assume "call_ok w c" "grid_sim st w p m" "plan_step c p = (p', None)"
  then show "grid_sim st w p' m"
    using grid_sim_account [of st w p m]
    by (cases c) (auto simp: call_ok_def grid_sim_next grid_sim_trial split: if_splits)
next
  fix c p m p' e
  assume "call_ok w c" "grid_sim st w p m" "plan_step c p = (p', Some e)"
  then obtain r where r: "c = Account r" "snd (account r p)" "p' = fst (account r p)" "e = (trial_offer p, tr_start r, tr_end r)"
    by (cases c) (auto split: if_splits)
  with \<open>grid_sim st w p m\<close> show "\<exists>m'. grid_monitor st w m e = Some m' \<and> grid_sim st w p' m'"
    using grid_sim_account [of st w p m r] by simp
qed

text \<open>What the automaton accepts.\<close>

definition grid_of :: "(bool \<times> nat \<times> nat) list \<Rightarrow> (nat \<times> nat) list" where
  "grid_of es = map snd (filter (\<lambda>e. \<not> fst e) es)"

lemma grid_accepted:
  "accept (grid_monitor st w) (n, None) es = Some (n', closed) \<Longrightarrow>
    n \<le> n' \<and> grid_of es = map (\<lambda>i. (i * st, i * st + w)) [n..<n'] @ (case closed of None \<Rightarrow> [] | Some e \<Rightarrow> [(n' * st, e)])"
proof (induction es arbitrary: n)
  case (Cons ev es)
  obtain trial s e where ev: "ev = (trial, s, e)" by (cases ev) auto
  have stuck: "accept (grid_monitor st w) (n, Some x) es = Some (n', closed) \<Longrightarrow> n' = n \<and> closed = Some x \<and> grid_of es = []" for x es
  proof (induction es)
    case (Cons ev es)
    then show ?case by (cases ev) (auto simp: grid_of_def split: if_splits)
  qed (simp add: grid_of_def)
  show ?case
  proof (cases trial)
    case True
    then show ?thesis using Cons ev by (simp add: grid_of_def)
  next
    case False
    show ?thesis
    proof (cases "e = n * st + w")
      case True
      then have "accept (grid_monitor st w) (Suc n, None) es = Some (n', closed)" "s = n * st"
        using Cons.prems False by (auto simp: ev split: if_splits)
      with Cons.IH [OF this(1)] True False show ?thesis by (simp add: ev grid_of_def upt_rec [of n])
    next
      case part: False
      then have s: "s = n * st" and "accept (grid_monitor st w) (n, Some e) es = Some (n', closed)"
        using Cons.prems False by (auto simp: ev split: if_splits)
      from stuck [OF this(2)] s False show ?thesis by (simp add: ev grid_of_def)
    qed
  qed
qed (auto simp: grid_of_def)

lemma closed_range:
  "accept (grid_monitor st w) (n, None) es = Some (n', Some e) \<Longrightarrow> n' * st < e \<and> e < n' * st + w"
proof (induction es arbitrary: n)
  case (Cons ev es)
  have stuck: "accept (grid_monitor st w) (k, Some x) es = Some (n', Some e) \<Longrightarrow> n' = k \<and> e = x" for k x es
  proof (induction es)
    case (Cons ev es)
    then show ?case by (cases ev) (auto split: if_splits)
  qed simp
  obtain trial a b where ev: "ev = (trial, a, b)" by (cases ev) auto
  show ?case using Cons stuck [of n b es] by (auto simp: ev split: if_splits)
qed simp

definition overlapping_plan :: "rstr \<Rightarrow> u64 \<Rightarrow> u64 \<Rightarrow> bool \<Rightarrow> window_plan" where
  "overlapping_plan session epoch rate raw =
     (if raw then set_non_overlapping (plan_new session epoch rate) else plan_new session epoch rate)"

definition grid_step :: "u64 \<Rightarrow> bool \<Rightarrow> nat" where
  "grid_step rate raw = rate * (if raw then LIVE_WINDOW_SECS else LIVE_STEP_SECS)"

lemma grid_sim_new:
  "0 < rate \<Longrightarrow> rate * LIVE_WINDOW_SECS \<le> u64_max \<Longrightarrow>
    grid_sim (grid_step rate raw) (rate * LIVE_WINDOW_SECS) (overlapping_plan session epoch rate raw) (0, None)"
  by (simp add: grid_sim_def overlapping_plan_def plan_new_def set_non_overlapping_def grid_step_def LIVE_WINDOW_SECS_def
      LIVE_STEP_SECS_def)

lemma covered_by_grid:
  assumes "0 < st" "st \<le> w" "k < full_end st w n"
  shows "\<exists>i < n. i * st \<le> k \<and> k < i * st + w"
  using assms(3)
proof (induction n)
  case (Suc n)
  show ?case
  proof (cases "k < full_end st w n")
    case True
    then show ?thesis using Suc.IH by (auto intro: less_SucI)
  next
    case False
    then show ?thesis using Suc.prems next_before_full_end [OF assms(2), of n] by (auto intro!: exI [of _ n])
  qed
qed simp

text \<open>C19. Every sample is planned once and none is forgotten: whatever a session asks, in any order, with heads that leave
  room for a window below the 64-bit limit, the grid windows it accounts are exactly the full windows at the first
  multiples of the step, in order, followed by at most one shorter window; none reaches past the head; and when
  the plan reports that it is finished, the head is frozen and every captured sample lies in one of them.
\<close>

theorem windows_cover_the_capture:
  assumes "0 < rate" and "rate * LIVE_WINDOW_SECS \<le> u64_max" and "list_all (call_ok (rate * LIVE_WINDOW_SECS)) calls"
  shows "(let p = final_state plan_step (overlapping_plan session epoch rate raw) calls;
              grid = grid_of (events_of plan_step (overlapping_plan session epoch rate raw) calls);
              st = grid_step rate raw; w = rate * LIVE_WINDOW_SECS
          in (\<exists>n tail. grid = map (\<lambda>i. (i * st, i * st + w)) [0..<n] @ tail \<and> length tail \<le> 1
                \<and> list_all (\<lambda>(s, e). s = n * st \<and> s < e \<and> e < s + w \<and> eof p = Some e) tail)
             \<and> list_all (\<lambda>(s, e). e \<le> capture_end p) grid
             \<and> (plan_is_finished p \<longrightarrow> eof p = Some (capture_end p)
                \<and> (\<forall>k < capture_end p. \<exists>(s, e) \<in> set grid. s \<le> k \<and> k < e)))"
proof -
  let ?st = "grid_step rate raw" and ?w = "rate * LIVE_WINDOW_SECS" and ?p0 = "overlapping_plan session epoch rate raw"
  let ?p = "final_state plan_step ?p0 calls" and ?es = "events_of plan_step ?p0 calls"
  obtain n closed where acc: "accept (grid_monitor ?st ?w) (0, None) ?es = Some (n, closed)"
    and sim: "grid_sim ?st ?w ?p (n, closed)"
    using grid.events_accepted [OF assms(3) grid_sim_new [OF assms(1,2)], of raw session epoch] by auto
  let ?tail = "case closed of None \<Rightarrow> [] | Some e \<Rightarrow> [(n * ?st, e)]"
  have grid: "grid_of ?es = map (\<lambda>i. (i * ?st, i * ?st + ?w)) [0..<n] @ ?tail" using grid_accepted [OF acc] by simp
  have st: "0 < ?st" "?st \<le> ?w" "full_end ?st ?w n \<le> capture_end ?p" using grid_sim_frame [OF sim] by simp_all
  have range: "n * ?st < e \<and> e < n * ?st + ?w \<and> eof ?p = Some e \<and> e = capture_end ?p" if "closed = Some e" for e
    using grid_sim_closed [OF sim [unfolded that]] closed_range [OF acc [unfolded that]] by simp
  have ends: "i * ?st + ?w \<le> capture_end ?p" if "i < n" for i
  proof -
    have "i * ?st \<le> (n - 1) * ?st" using that by (intro mult_right_mono) simp_all
    moreover have "(n - 1) * ?st + ?w \<le> capture_end ?p" using st(3) that by (simp add: full_end_def split: if_splits)
    ultimately show ?thesis by linarith
  qed
  have finished: "\<exists>(s, e) \<in> set (grid_of ?es). s \<le> k \<and> k < e" if fin: "plan_finished ?p" and k: "k < capture_end ?p" for k
  proof (cases "k < full_end ?st ?w n")
    case True
    then show ?thesis using covered_by_grid [OF st(1,2) True] by (force simp: grid)
  next
    case False
    then obtain e where "closed = Some e" using grid_sim_finished(2) [OF sim fin] k by force
    moreover have "n * ?st \<le> k" using False next_before_full_end [OF st(2), of n] by linarith
    ultimately show ?thesis using range k by (auto simp: grid)
  qed
  have "eof ?p = Some (capture_end ?p)" if "plan_finished ?p" using grid_sim_finished(1) [OF sim that] .
  moreover have "list_all (\<lambda>(s, e). e \<le> capture_end ?p) (grid_of ?es)"
    using ends range by (auto simp: grid list_all_iff split: option.splits)
  moreover have "list_all (\<lambda>(s, e). s = n * ?st \<and> s < e \<and> e < s + ?w \<and> eof ?p = Some e) ?tail \<and> length ?tail \<le> 1"
    using range by (auto split: option.split)
  ultimately show ?thesis
    using finished grid unfolding Let_def plan_is_finished_def by blast
qed

theorem windows_cover_the_capture_witness:
  "(let calls = [NextDue 10 False, Account \<lparr>tr_owner = [], tr_epoch = 1, tr_start = 0, tr_end = 9\<rparr>, NextDue 11 True,
                 Account \<lparr>tr_owner = [], tr_epoch = 1, tr_start = 3, tr_end = 11\<rparr>]
    in list_all (call_ok 9) calls
       \<and> grid_of (events_of plan_step (overlapping_plan [] 1 1 False) calls) = [(0, 9), (3, 11)]
       \<and> (\<forall>k < 11. \<exists>(s, e) \<in> {(0, 9), (3, 11)}. s \<le> k \<and> k < (e :: nat)))"
proof -
  let ?calls = "[NextDue 10 False, Account \<lparr>tr_owner = [], tr_epoch = 1, tr_start = 0, tr_end = 9\<rparr>, NextDue 11 True,
                 Account \<lparr>tr_owner = [], tr_epoch = 1, tr_start = 3, tr_end = 11\<rparr>]"
  note eval = overlapping_plan_def plan_new_def next_due_def observe_head_def offer_grid_def account_def plan_head_def
    plan_range_def Let_def LIVE_WINDOW_SECS_def LIVE_STEP_SECS_def u64_max_def grid_of_def plan_is_finished_def
  have ok: "list_all (call_ok (1 * LIVE_WINDOW_SECS)) ?calls" by (simp add: call_ok_def eval)
  have run: "grid_of (events_of plan_step (overlapping_plan [] 1 1 False) ?calls) = [(0, 9), (3, 11)]"
    "plan_is_finished (final_state plan_step (overlapping_plan [] 1 1 False) ?calls)"
    "capture_end (final_state plan_step (overlapping_plan [] 1 1 False) ?calls) = 11"
    by (simp_all add: eval)
  have "\<forall>k < 11. \<exists>(s, e) \<in> {(0, 9), (3, 11)}. s \<le> k \<and> k < (e :: nat)"
    using windows_cover_the_capture [OF _ _ ok, where session = "[]" and epoch = 1 and raw = False] run
    by (simp add: Let_def LIVE_WINDOW_SECS_def u64_max_def)
  with ok run(1) show ?thesis by (simp add: Let_def LIVE_WINDOW_SECS_def)
qed

subsection \<open>The stop deadline\<close>

lemma next_due_stopping:
  assumes "grid_sim st w p m" and "head + w \<le> u64_max" and "\<not> trial_offer p" "\<not> plan_finished p"
    and "eof p \<noteq> None \<or> capture_end p \<le> head"
  shows "let (p', r) = next_due head True p
    in r = offered p' \<and> eof p' \<noteq> None \<and> \<not> trial_offer p' \<and> next_start p' = next_start p \<and> (plan_finished p' \<longleftrightarrow> r = None)"
proof -
  let ?p = "observe_head head True p"
  have p: "grid_sim st w ?p m" "\<not> trial_offer ?p" "\<not> plan_finished ?p" "eof ?p \<noteq> None" "next_start ?p = next_start p"
    using assms(3,4) grid_sim_observe [OF assms(1,2)] by (auto simp: observe_head_def Let_def)
  have due: "next_due head True p = (case offered ?p of Some r \<Rightarrow> (?p, Some r) | None \<Rightarrow> offer_grid ?p)"
    using assms(3,4,5) by (auto simp: next_due_def Let_def)
  show ?thesis
  proof (cases "offered ?p")
    case None
    have "plan_finished (fst (offer_grid ?p)) \<longleftrightarrow> snd (offer_grid ?p) = None" "next_start (fst (offer_grid ?p)) = next_start ?p"
      using p(3,4) by (auto simp: offer_grid_def Let_def)
    then show ?thesis using None p grid_sim_offer [OF p(1-3) None] by (simp add: due case_prod_beta)
  qed (use p due in simp)
qed

definition plan_measure :: "window_plan \<Rightarrow> nat" where
  "plan_measure p = (if trial_offer p then 1 else 0) + (if plan_finished p then 0 else 1 + u64_max - next_start p)"

lemma account_descends:
  assumes "grid_sim st w p m" and "offered p = Some r"
  shows "plan_measure (fst (account r p)) < plan_measure p" and "snd (account r p)"
    and "eof (fst (account r p)) = eof p" "capture_end (fst (account r p)) = capture_end p"
proof -
  show "snd (account r p)" "eof (fst (account r p)) = eof p" "capture_end (fst (account r p)) = capture_end p"
    using assms(2) by (auto simp: account_def Let_def)
  show "plan_measure (fst (account r p)) < plan_measure p"
  proof (cases "trial_offer p")
    case True
    then show ?thesis using assms(2) by (simp add: plan_measure_def account_def Let_def)
  next
    case False
    obtain n closed where m: "m = (n, closed)" by fastforce
    have g: "0 < st" "st \<le> w" "step_samples p = st" "next_start p = n * st" "capture_end p + w \<le> u64_max" "\<not> plan_finished p"
      using assms False by (auto simp: grid_sim_def m)
    have "n * st \<le> capture_end p"
      using next_before_full_end [OF g(2), of n] assms(1) by (auto simp: grid_sim_def m)
    then have "n * st + st \<le> u64_max" using g(2,5) by linarith
    then have "1 + u64_max - (n * st + st) < 1 + u64_max - n * st" using g(1) by linarith
    then show ?thesis using assms(2) False g \<open>n * st + st \<le> u64_max\<close> by (simp add: plan_measure_def account_def Let_def)
  qed
qed

lemma expire_windows_returns:
  assumes "grid_sim st w p m" and "head + w \<le> u64_max" and "eof p \<noteq> None \<or> capture_end p \<le> head"
  shows "\<exists>p' rs. expire_windows head True p = Some (p', rs) \<and> plan_is_finished p'"
  using assms
proof (induction "plan_measure p" arbitrary: p m rule: less_induct)
  case less
  obtain p1 o1 where due: "next_due head True p = (p1, o1)" by fastforce
  have sim1: "grid_sim st w p1 m" using grid_sim_next [OF less.prems(1,2), of True] due by simp
  have facts: "o1 = offered p1 \<and> (eof p1 \<noteq> None \<or> capture_end p1 \<le> head) \<and> plan_measure p1 \<le> plan_measure p
      \<and> (o1 = None \<longrightarrow> plan_finished p1)"
  proof (cases "trial_offer p \<or> plan_finished p")
    case True
    then show ?thesis using less.prems(1,3) due by (cases m) (auto simp: next_due_def grid_sim_def split: option.splits if_splits)
  next
    case False
    then show ?thesis using next_due_stopping [OF less.prems(1,2) _ _ less.prems(3)] due by (auto simp: plan_measure_def)
  qed
  show ?case
  proof (cases o1)
    case None
    then show ?thesis using facts due by (subst expire_windows.simps) (simp add: plan_is_finished_def)
  next
    case (Some r)
    then have r: "offered p1 = Some r" using facts by simp
    note d = account_descends [OF sim1 r]
    obtain m' where "grid_sim st w (fst (account r p1)) m'" using grid_sim_account [OF sim1, of r] d(2) by auto
    moreover have "plan_measure (fst (account r p1)) < plan_measure p" using d(1) facts by simp
    ultimately obtain p' rs where "expire_windows head True (fst (account r p1)) = Some (p', rs)" "plan_is_finished p'"
      using less.hyps less.prems(2) facts d(3,4) by metis
    then show ?thesis using due Some by (subst expire_windows.simps) simp
  qed
qed

text \<open>The stop deadline closes the plan: after any such history, expiring what is left with a head that has not
  regressed returns after finitely many windows, with nothing outstanding, no further work and the horizon released.
\<close>

theorem stop_deadline_closes_the_plan:
  assumes "0 < rate" and "rate * LIVE_WINDOW_SECS \<le> u64_max" and "list_all (call_ok (rate * LIVE_WINDOW_SECS)) calls"
    and "head + rate * LIVE_WINDOW_SECS \<le> u64_max"
    and "capture_end (final_state plan_step (overlapping_plan session epoch rate raw) calls) \<le> head"
  shows "\<exists>p' rs. expire_windows head True (final_state plan_step (overlapping_plan session epoch rate raw) calls) = Some (p', rs)
    \<and> plan_is_finished p' \<and> admission_horizon p' = u64_max \<and> snd (next_due later stopping p') = None"
proof -
  obtain m where "grid_sim (grid_step rate raw) (rate * LIVE_WINDOW_SECS)
      (final_state plan_step (overlapping_plan session epoch rate raw) calls) m"
    using grid.events_accepted [OF assms(3) grid_sim_new [OF assms(1,2)], of raw session epoch] by blast
  from expire_windows_returns [OF this assms(4)] assms(5) show ?thesis
    by (fastforce simp: plan_is_finished_def admission_horizon_def next_due_def)
qed

theorem stop_deadline_closes_the_plan_witness:
  "\<exists>p' rs. expire_windows 20 True (final_state plan_step (overlapping_plan [] 1 1 False) [NextDue 10 False]) = Some (p', rs)
    \<and> plan_is_finished p'"
proof -
  have "list_all (call_ok (1 * LIVE_WINDOW_SECS)) [NextDue 10 False]"
    by (simp add: call_ok_def LIVE_WINDOW_SECS_def u64_max_def)
  moreover have "capture_end (final_state plan_step (overlapping_plan [] 1 1 False) [NextDue 10 False]) \<le> 20"
    by (simp add: overlapping_plan_def plan_new_def next_due_def observe_head_def offer_grid_def plan_head_def plan_range_def
        Let_def LIVE_WINDOW_SECS_def LIVE_STEP_SECS_def u64_max_def)
  ultimately show ?thesis
    using stop_deadline_closes_the_plan [of 1 "[NextDue 10 False]" 20 "[]" 1 False]
    by (simp add: LIVE_WINDOW_SECS_def u64_max_def) blast
qed

end
