(* ===== verification/Thread_Content.thy ===== *)
theory Thread_Content
  imports Agent_Session
begin

section \<open>Stored conversations\<close>

text \<open>
  The storage form of a message (\<open>core/agent/thread_store.rs\<close>), its checked way back into an executable history,
  and the causality check of a restored consultation (\<open>core/agent/thread_delivery.rs\<close>). The asset store that takes
  inline images and the JSON printer are arguments.
\<close>

subsection \<open>Blocks and messages as JSON\<close>

record thread_message =
  tm_role :: rstr
  tm_content :: "json list"
  tm_timestamp :: int
  tm_metadata :: "json option"

definition role_to_string :: "role \<Rightarrow> rstr" where
  "role_to_string r = (case r of User \<Rightarrow> lit ''user'' | Assistant \<Rightarrow> lit ''assistant'' | System \<Rightarrow> lit ''system'')"

definition role_from_string :: "rstr \<Rightarrow> role" where
  "role_from_string value =
     (let v = to_ascii_lowercase value
      in if v = lit ''assistant'' then Assistant else if v = lit ''system'' then System else User)"

text \<open>The derived deserialiser of \<open>Role\<close> knows the three lower-case names only.\<close>

definition role_deserialize :: "rstr \<Rightarrow> role option" where
  "role_deserialize value =
     (if value = lit ''user'' then Some User else if value = lit ''assistant'' then Some Assistant
      else if value = lit ''system'' then Some System else None)"

definition image_asset_value :: "image_asset \<Rightarrow> json" where
  "image_asset_value a = JObject [(lit ''type'', JString (lit ''image_asset'')), (lit ''asset_id'', JString (asset_id a)),
     (lit ''path'', JString (asset_path a)), (lit ''media_type'', JString (asset_media_type a)),
     (lit ''size_bytes'', JNumber (show_nat (asset_size_bytes a)))]"

definition data_omitted :: "nat list \<Rightarrow> rstr \<Rightarrow> json" where
  "data_omitted data media = JObject [(lit ''type'', JString (lit ''image'')), (lit ''media_type'', JString media),
     (lit ''size_bytes'', JNumber (show_nat (length data))), (lit ''data_omitted'', JBool True)]"

fun content_block_to_value :: "(nat list \<Rightarrow> rstr \<Rightarrow> image_asset option) \<Rightarrow> content_block \<Rightarrow> json" where
  "content_block_to_value save (BText t) = JObject [(lit ''type'', JString (lit ''text'')), (lit ''text'', JString t)]"
| "content_block_to_value save (BImage data media) =
     (if data = [] then data_omitted data media
      else case save data media of Some asset \<Rightarrow> image_asset_value asset | None \<Rightarrow> data_omitted data media)"
| "content_block_to_value save (BImageAsset asset) = image_asset_value asset"
| "content_block_to_value save (BToolUse cid name input) =
     JObject [(lit ''type'', JString (lit ''tool_use'')), (lit ''id'', JString cid), (lit ''name'', JString name), (lit ''input'', input)]"
| "content_block_to_value save (BToolResult cid blocks err) =
     JObject [(lit ''type'', JString (lit ''tool_result'')), (lit ''tool_use_id'', JString cid),
       (lit ''content'', JArray (map (content_block_to_value save) blocks)), (lit ''is_error'', JBool err)]"

definition from_message :: "(nat list \<Rightarrow> rstr \<Rightarrow> image_asset option) \<Rightarrow> int \<Rightarrow> message \<Rightarrow> thread_message" where
  "from_message save at m = \<lparr>tm_role = role_to_string (msg_role m), tm_content = map (content_block_to_value save) (content m),
     tm_timestamp = at, tm_metadata = None\<rparr>"

definition as_array :: "json \<Rightarrow> json list option" where
  "as_array v = (case v of JArray items \<Rightarrow> Some items | _ \<Rightarrow> None)"

definition json_items :: "json \<Rightarrow> rstr \<Rightarrow> json list" where
  "json_items v k = unwrap_or [] (Option.bind (json_get v k) as_array)"

lemma json_items_size: "c \<in> set (json_items v k) \<Longrightarrow> size c < size v"
proof -
  assume c: "c \<in> set (json_items v k)"
  then obtain fs items where v: "v = JObject fs" "map_of fs k = Some (JArray items)" "c \<in> set items"
    by (auto simp: json_items_def json_get_def as_array_def split: json.splits option.splits Option.bind_splits)
  have "size c \<le> size_list size items" using v(3) by (rule size_list_estimation') simp
  moreover have "size (JArray items) \<le> size_list (\<lambda>p. size (snd p)) fs"
    using map_of_SomeD [OF v(2)] by (intro size_list_estimation' [where x = "(k, JArray items)"]) simp_all
  moreover have "size_list (\<lambda>p. size (snd p)) fs \<le> size_list (size_prod (\<lambda>x. 0) size) fs"
    by (rule size_list_pointwise) (case_tac x, simp)
  ultimately show ?thesis using v(1) by simp
qed

definition str_or :: "rstr \<Rightarrow> json \<Rightarrow> rstr \<Rightarrow> rstr" where
  "str_or d v k = unwrap_or d (get_str v k)"

function value_to_content_block :: "(json \<Rightarrow> rstr) \<Rightarrow> json \<Rightarrow> content_block" where
  "value_to_content_block print value =
     (case get_str value (lit ''type'') of
        None \<Rightarrow> BText (print value)
      | Some kind \<Rightarrow>
          if kind = lit ''text'' \<or> kind = lit ''input_text'' \<or> kind = lit ''output_text'' then BText (str_or [] value (lit ''text''))
          else if kind = lit ''image'' then BImage [] (str_or (lit ''application/octet-stream'') value (lit ''media_type''))
          else if kind = lit ''image_asset''
          then BImageAsset \<lparr>asset_id = str_or [] value (lit ''asset_id''), asset_path = str_or [] value (lit ''path''),
                 asset_media_type = str_or [] value (lit ''media_type''),
                 asset_size_bytes = unwrap_or 0 (Option.bind (json_get value (lit ''size_bytes'')) as_u64)\<rparr>
          else if kind = lit ''tool_use''
          then BToolUse (str_or [] value (lit ''id'')) (str_or (lit ''unknown_tool'') value (lit ''name''))
                 (unwrap_or (JObject []) (json_get value (lit ''input'')))
          else if kind = lit ''tool_result''
          then BToolResult (str_or [] value (lit ''tool_use_id''))
                 (map (value_to_content_block print) (json_items value (lit ''content'')))
                 (unwrap_or False (Option.bind (json_get value (lit ''is_error'')) as_bool))
          else BText (print value))"
  by pat_completeness auto
termination
  by (relation "measure (\<lambda>(_, v). size v)") (auto dest: json_items_size)

definition to_message :: "(json \<Rightarrow> rstr) \<Rightarrow> thread_message \<Rightarrow> message" where
  "to_message print m = \<lparr>msg_role = role_from_string (tm_role m), content = map (value_to_content_block print) (tm_content m)\<rparr>"

subsection \<open>The checked way back\<close>

datatype context_error =
    NestingTooDeep | ContentTypeMissing | ContextFieldMissing rstr | ContextFieldEmpty rstr | UnsupportedBlock rstr | UnknownRole

fun first_error :: "('e + unit) list \<Rightarrow> 'e + unit" where
  "first_error [] = Inr ()"
| "first_error (Inl e # rs) = Inl e"
| "first_error (Inr _ # rs) = first_error rs"

definition needs_string :: "json \<Rightarrow> rstr \<Rightarrow> context_error + unit" where
  "needs_string v k = (if get_str v k = None then Inl (ContextFieldMissing k) else Inr ())"

definition needs_filled :: "json \<Rightarrow> rstr \<Rightarrow> context_error + unit" where
  "needs_filled v k =
     (case get_str v k of None \<Rightarrow> Inl (ContextFieldMissing k) | Some s \<Rightarrow> if s = [] then Inl (ContextFieldEmpty k) else Inr ())"

definition needs :: "json \<Rightarrow> rstr \<Rightarrow> (json \<Rightarrow> 'a option) \<Rightarrow> context_error + unit" where
  "needs v k read = (if Option.bind (json_get v k) read = None then Inl (ContextFieldMissing k) else Inr ())"

function validate_context_block :: "json \<Rightarrow> nat \<Rightarrow> context_error + unit" where
  "validate_context_block value depth =
     (if 32 \<le> depth then Inl NestingTooDeep
      else case get_str value (lit ''type'') of
        None \<Rightarrow> Inl ContentTypeMissing
      | Some kind \<Rightarrow>
          if kind = lit ''text'' \<or> kind = lit ''input_text'' \<or> kind = lit ''output_text'' then needs_string value (lit ''text'')
          else if kind = lit ''image_asset''
          then first_error [needs_filled value (lit ''asset_id''), needs_filled value (lit ''path''),
                 needs_filled value (lit ''media_type''), needs value (lit ''size_bytes'') as_u64]
          else if kind = lit ''tool_use''
          then first_error [needs_filled value (lit ''id''), needs_filled value (lit ''name''), needs value (lit ''input'') Some]
          else if kind = lit ''tool_result''
          then first_error ([needs_filled value (lit ''tool_use_id''), needs value (lit ''is_error'') as_bool,
                 needs value (lit ''content'') as_array]
                 @ map (\<lambda>child. validate_context_block child (depth + 1)) (json_items value (lit ''content'')))
          else Inl (UnsupportedBlock kind))"
  by pat_completeness auto
termination
  by (relation "measure (\<lambda>(v, _). size v)") (auto dest: json_items_size)

declare value_to_content_block.simps [simp del] validate_context_block.simps [simp del]

definition try_to_message :: "(json \<Rightarrow> rstr) \<Rightarrow> thread_message \<Rightarrow> context_error + message" where
  "try_to_message print m =
     (case role_deserialize (tm_role m) of
        None \<Rightarrow> Inl UnknownRole
      | Some role \<Rightarrow>
          (case first_error (map (\<lambda>block. validate_context_block block 0) (tm_content m)) of
             Inl e \<Rightarrow> Inl e
           | Inr _ \<Rightarrow> Inr ((to_message print m)\<lparr>msg_role := role\<rparr>)))"

subsection \<open>Tool causality of a restored history\<close>

datatype history_error =
    ResultWrongRole | ResultsMixed | ResultUnmatched | NestedControl | ResultsMissing | UseWrongRole | IdentityReused | CallsUnresolved

fun is_result_block :: "content_block \<Rightarrow> bool" where
  "is_result_block (BToolResult cid blocks err) = True"
| "is_result_block b = False"

fun is_control_block :: "content_block \<Rightarrow> bool" where
  "is_control_block (BToolResult cid blocks err) = True"
| "is_control_block (BToolUse cid name input) = True"
| "is_control_block b = False"

definition has_results :: "message \<Rightarrow> bool" where
  "has_results m \<longleftrightarrow> list_ex is_result_block (content m)"

fun answer_blocks :: "content_block list \<Rightarrow> rstr set \<Rightarrow> history_error + rstr set" where
  "answer_blocks [] waiting = Inr waiting"
| "answer_blocks (BToolResult cid blocks err # bs) waiting =
     (if cid \<notin> waiting then Inl ResultUnmatched
      else if list_ex is_control_block blocks then Inl NestedControl
      else answer_blocks bs (waiting - {cid}))"
| "answer_blocks (b # bs) waiting = Inl ResultsMixed"

fun call_blocks :: "role \<Rightarrow> content_block list \<Rightarrow> rstr set \<Rightarrow> rstr set \<Rightarrow> history_error + rstr set \<times> rstr set" where
  "call_blocks role [] seen waiting = Inr (seen, waiting)"
| "call_blocks role (BToolUse cid name input # bs) seen waiting =
     (if role \<noteq> Assistant then Inl UseWrongRole
      else if cid \<in> seen then Inl IdentityReused
      else call_blocks role bs (insert cid seen) (insert cid waiting))"
| "call_blocks role (b # bs) seen waiting = call_blocks role bs seen waiting"

definition check_message :: "message \<Rightarrow> rstr set \<Rightarrow> rstr set \<Rightarrow> history_error + rstr set \<times> rstr set" where
  "check_message m seen waiting =
     (if has_results m
      then if msg_role m \<noteq> User then Inl ResultWrongRole
           else (case answer_blocks (content m) waiting of Inl e \<Rightarrow> Inl e | Inr waiting' \<Rightarrow> Inr (seen, waiting'))
      else if waiting \<noteq> {} then Inl ResultsMissing
      else call_blocks (msg_role m) (content m) seen waiting)"

fun check_messages :: "message list \<Rightarrow> rstr set \<Rightarrow> rstr set \<Rightarrow> history_error + unit" where
  "check_messages [] seen waiting = (if waiting = {} then Inr () else Inl CallsUnresolved)"
| "check_messages (m # ms) seen waiting =
     (case check_message m seen waiting of Inl e \<Rightarrow> Inl e | Inr (seen', waiting') \<Rightarrow> check_messages ms seen' waiting')"

definition validate_consultation_tool_history :: "message list \<Rightarrow> history_error + unit" where
  "validate_consultation_tool_history ms = check_messages ms {} {}"


subsection \<open>Restoring what was stored\<close>

text \<open>What a stored block reads back as: an inline image becomes its asset, or an empty image when no asset took it.\<close>

fun stored_block :: "(nat list \<Rightarrow> rstr \<Rightarrow> image_asset option) \<Rightarrow> content_block \<Rightarrow> content_block" where
  "stored_block save (BImage data media) =
     (case if data = [] then None else save data media of Some asset \<Rightarrow> BImageAsset asset | None \<Rightarrow> BImage [] media)"
| "stored_block save (BToolResult cid blocks err) = BToolResult cid (map (stored_block save) blocks) err"
| "stored_block save b = b"

definition asset_ok :: "image_asset \<Rightarrow> bool" where
  "asset_ok a \<longleftrightarrow> asset_size_bytes a \<le> u64_max"

definition filled_asset :: "image_asset \<Rightarrow> bool" where
  "filled_asset a \<longleftrightarrow> asset_id a \<noteq> [] \<and> asset_path a \<noteq> [] \<and> asset_media_type a \<noteq> []"

fun sized_block :: "content_block \<Rightarrow> bool" where
  "sized_block (BImageAsset asset) = asset_ok asset"
| "sized_block (BToolResult cid blocks err) = list_all sized_block blocks"
| "sized_block b = True"

text \<open>The blocks an executable history may hold: identities present, no image without bytes, nesting below the limit.\<close>

fun restorable :: "nat \<Rightarrow> content_block \<Rightarrow> bool" where
  "restorable depth (BText t) \<longleftrightarrow> depth < 32"
| "restorable depth (BImage data media) \<longleftrightarrow> False"
| "restorable depth (BImageAsset asset) \<longleftrightarrow> depth < 32 \<and> filled_asset asset"
| "restorable depth (BToolUse cid name input) \<longleftrightarrow> depth < 32 \<and> cid \<noteq> [] \<and> name \<noteq> []"
| "restorable depth (BToolResult cid blocks err) \<longleftrightarrow> depth < 32 \<and> cid \<noteq> [] \<and> list_all (restorable (depth + 1)) blocks"

definition store_ok :: "(nat list \<Rightarrow> rstr \<Rightarrow> image_asset option) \<Rightarrow> bool" where
  "store_ok save \<longleftrightarrow> (\<forall>data media asset. save data media = Some asset \<longrightarrow> asset_ok asset)"

lemma as_u64_show [simp]: "n \<le> u64_max \<Longrightarrow> as_u64 (JNumber (show_nat n)) = Some n"
  by (simp add: as_u64_def)

lemma json_field [simp]:
  "json_get (JObject []) k = None"
  "json_get (JObject ((k', v) # fs)) k = (if k = k' then Some v else json_get (JObject fs) k)"
  by (simp_all add: json_get_def)

lemma kind_words [simp]:
  "lit ''text'' \<noteq> lit ''type''" "lit ''asset_id'' \<noteq> lit ''type''" "lit ''path'' \<noteq> lit ''type''"
  by (simp_all add: lit_def)

lemmas json_reads = get_str_def as_str_def str_or_def json_items_def as_array_def as_bool_def needs_def needs_string_def
  needs_filled_def

lemma value_of_asset:
  "asset_ok a \<Longrightarrow> value_to_content_block print (image_asset_value a) = BImageAsset a"
  by (subst value_to_content_block.simps) (simp add: image_asset_value_def json_reads asset_ok_def lit_def)

lemma value_of_omitted: "value_to_content_block print (data_omitted data media) = BImage [] media"
  by (subst value_to_content_block.simps) (simp add: data_omitted_def json_reads lit_def)

lemma value_of_block:
  assumes "store_ok save" and "sized_block b"
  shows "value_to_content_block print (content_block_to_value save b) = stored_block save b"
  using assms(2)
proof (induction b)
  case (BToolResult cid blocks err)
  then show ?case
    by (subst value_to_content_block.simps) (simp add: json_reads lit_def list_all_iff)
next
  case (BImage data media)
  then show ?case using assms(1) by (auto simp: value_of_omitted value_of_asset store_ok_def split: option.split)
next
  case (BImageAsset asset)
  then show ?case by (simp add: value_of_asset)
qed (subst value_to_content_block.simps, simp add: json_reads lit_def)+

lemma first_error_append: "first_error (as @ bs) = (case first_error as of Inl e \<Rightarrow> Inl e | Inr _ \<Rightarrow> first_error bs)"
  by (induction "as" rule: first_error.induct) simp_all

lemma first_error_ok: "first_error rs = Inr () \<longleftrightarrow> list_all (\<lambda>r. r = Inr ()) rs"
  by (induction rs rule: first_error.induct) simp_all

lemma validate_asset:
  "asset_ok a \<Longrightarrow> validate_context_block (image_asset_value a) depth = Inr () \<longleftrightarrow> depth < 32 \<and> filled_asset a"
  by (subst validate_context_block.simps)
    (simp add: image_asset_value_def json_reads lit_def filled_asset_def first_error_ok asset_ok_def)

lemma validate_omitted: "validate_context_block (data_omitted data media) depth \<noteq> Inr ()"
  by (subst validate_context_block.simps) (simp add: data_omitted_def json_reads lit_def)

lemma validate_block:
  assumes "store_ok save" and "sized_block b"
  shows "validate_context_block (content_block_to_value save b) depth = Inr () \<longleftrightarrow> restorable depth (stored_block save b)"
  using assms(2)
proof (induction b arbitrary: depth)
  case (BToolResult cid blocks err)
  then have "list_all (\<lambda>r. r = Inr ()) (map (\<lambda>c. validate_context_block c (depth + 1)) (map (content_block_to_value save) blocks))
      \<longleftrightarrow> list_all (restorable (depth + 1)) (map (stored_block save) blocks)"
    by (auto simp: list_all_iff)
  then show ?case
    by (subst validate_context_block.simps) (simp add: json_reads lit_def first_error_ok)
next
  case (BImage data media)
  then show ?case using assms(1) by (auto simp: validate_omitted validate_asset store_ok_def split: option.split)
next
  case (BImageAsset asset)
  then show ?case by (simp add: validate_asset)
qed (subst validate_context_block.simps, simp add: json_reads lit_def first_error_ok not_le)+

definition stored_message :: "(nat list \<Rightarrow> rstr \<Rightarrow> image_asset option) \<Rightarrow> message \<Rightarrow> message" where
  "stored_message save m = m\<lparr>content := map (stored_block save) (content m)\<rparr>"

lemma stored_message_back:
  assumes "store_ok save" and "list_all sized_block (content m)"
  shows "(if list_all (restorable 0) (content (stored_message save m))
          then try_to_message print (from_message save at m) = Inr (stored_message save m)
          else \<exists>e. try_to_message print (from_message save at m) = Inl e)"
proof -
  have roles: "role_deserialize (role_to_string (msg_role m)) = Some (msg_role m)"
    by (cases "msg_role m") (simp_all add: role_deserialize_def role_to_string_def lit_def)
  have "first_error (map (\<lambda>b. validate_context_block b 0) (map (content_block_to_value save) (content m))) = Inr ()
      \<longleftrightarrow> list_all (restorable 0) (content (stored_message save m))"
    using assms validate_block [OF assms(1)] by (auto simp: first_error_ok list_all_iff stored_message_def)
  moreover have "map (value_to_content_block print) (map (content_block_to_value save) (content m))
      = content (stored_message save m)"
    using assms value_of_block [OF assms(1)] by (auto simp: list_all_iff stored_message_def)
  ultimately show ?thesis
    using roles by (auto simp: try_to_message_def from_message_def to_message_def stored_message_def split: sum.split)
qed


text \<open>A stored message comes back as it was or not at all: reading an executable history back from its storage form
  gives the message with its inline images as assets, whenever no image lost its bytes, no identity is empty and
  the nesting is within the limit; in every other case it is refused, never silently altered.
\<close>

theorem stored_message_restores:
  assumes "store_ok save" and "list_all sized_block (content m)"
  shows "(if list_all (restorable 0) (content (stored_message save m))
          then try_to_message print (from_message save at m) = Inr (stored_message save m)
          else \<exists>e. try_to_message print (from_message save at m) = Inl e)"
  using assms by (rule stored_message_back)

theorem stored_message_restores_witness:
  "try_to_message (\<lambda>_. []) (from_message (\<lambda>_ _. None) 0
      \<lparr>msg_role = User, content = [BToolResult (lit ''c1'') [BText (lit ''a'')] False]\<rparr>)
     = Inr \<lparr>msg_role = User, content = [BToolResult (lit ''c1'') [BText (lit ''a'')] False]\<rparr>"
  using stored_message_restores [of "\<lambda>_ _. None" "\<lparr>msg_role = User, content = [BToolResult (lit ''c1'') [BText (lit ''a'')] False]\<rparr>"
      "\<lambda>_. []" 0]
  by (simp add: store_ok_def stored_message_def lit_def)

subsection \<open>The causality check is exact\<close>

definition calls_of :: "message \<Rightarrow> rstr list" where
  "calls_of m = List.map_filter (\<lambda>b. case b of BToolUse cid name input \<Rightarrow> Some cid | _ \<Rightarrow> None) (content m)"

definition answers_of :: "message \<Rightarrow> rstr list" where
  "answers_of m = List.map_filter (\<lambda>b. case b of BToolResult cid blocks err \<Rightarrow> Some cid | _ \<Rightarrow> None) (content m)"

text \<open>A message of answers is the user's, holds results only, and no result carries a call or a result.\<close>

fun clean_result :: "content_block \<Rightarrow> bool" where
  "clean_result (BToolResult cid blocks err) \<longleftrightarrow> \<not> list_ex is_control_block blocks"
| "clean_result b \<longleftrightarrow> False"

definition answer_message :: "message \<Rightarrow> bool" where
  "answer_message m \<longleftrightarrow> msg_role m = User \<and> content m \<noteq> [] \<and> list_all clean_result (content m)"

text \<open>A group is a message without results and the answers to exactly its calls.\<close>

definition answered_group :: "message \<times> message list \<Rightarrow> bool" where
  "answered_group = (\<lambda>(m, rs). \<not> has_results m \<and> (calls_of m \<noteq> [] \<longrightarrow> msg_role m = Assistant)
     \<and> list_all answer_message rs \<and> distinct (concat (map answers_of rs)) \<and> set (concat (map answers_of rs)) = set (calls_of m))"

definition flat_groups :: "(message \<times> message list) list \<Rightarrow> message list" where
  "flat_groups gs = concat (map (\<lambda>(m, rs). m # rs) gs)"

definition group_calls :: "(message \<times> message list) list \<Rightarrow> rstr list" where
  "group_calls gs = concat (map (\<lambda>(m, rs). calls_of m) gs)"

lemma group_simps [simp]:
  "flat_groups [] = []" "flat_groups ((m, rs) # gs) = m # rs @ flat_groups gs"
  "group_calls [] = []" "group_calls ((m, rs) # gs) = calls_of m @ group_calls gs"
  by (simp_all add: flat_groups_def group_calls_def)

text \<open>The same, with the answers to calls \<open>waiting\<close> from an earlier message in front and the identities \<open>seen\<close> used up.\<close>

definition answered_from :: "rstr set \<Rightarrow> rstr set \<Rightarrow> message list \<Rightarrow> bool" where
  "answered_from seen waiting ms \<longleftrightarrow> (\<exists>rs gs. ms = rs @ flat_groups gs \<and> list_all answer_message rs
     \<and> distinct (concat (map answers_of rs)) \<and> set (concat (map answers_of rs)) = waiting
     \<and> list_all answered_group gs \<and> distinct (group_calls gs) \<and> set (group_calls gs) \<inter> seen = {})"

lemma map_filter_simps [simp]:
  "List.map_filter f [] = []" "List.map_filter f (x # xs) = (case f x of None \<Rightarrow> List.map_filter f xs | Some y \<Rightarrow> y # List.map_filter f xs)"
  by (simp_all add: List.map_filter_def split: option.split)

lemma answer_blocks_iff:
  "answer_blocks bs waiting = Inr waiting' \<longleftrightarrow> list_all clean_result bs
    \<and> (let ids = answers_of \<lparr>msg_role = r, content = bs\<rparr> in distinct ids \<and> set ids \<subseteq> waiting \<and> waiting' = waiting - set ids)"
  by (induction bs waiting rule: answer_blocks.induct) (auto simp: Let_def answers_of_def)

lemma call_blocks_iff:
  "\<not> list_ex is_result_block bs \<Longrightarrow> call_blocks r bs seen waiting = Inr (seen', waiting') \<longleftrightarrow>
    (let ids = calls_of \<lparr>msg_role = r, content = bs\<rparr> in (ids \<noteq> [] \<longrightarrow> r = Assistant) \<and> distinct ids \<and> set ids \<inter> seen = {}
      \<and> seen' = seen \<union> set ids \<and> waiting' = waiting \<union> set ids)"
  by (induction r bs seen waiting rule: call_blocks.induct) (auto simp: Let_def calls_of_def)

lemma has_results_answers: "has_results m \<longleftrightarrow> answers_of m \<noteq> []"
proof -
  have "list_ex is_result_block bs \<longleftrightarrow>
      List.map_filter (\<lambda>b. case b of BToolResult cid blocks err \<Rightarrow> Some cid | _ \<Rightarrow> None) bs \<noteq> []" for bs
    by (induction bs) (auto split: content_block.splits)
  then show ?thesis by (simp add: has_results_def answers_of_def)
qed

lemma answer_message_results: "answer_message m \<Longrightarrow> has_results m"
  by (cases "content m") (auto simp: answer_message_def has_results_def elim: clean_result.elims)

lemma message_eta [simp]: "\<lparr>msg_role = msg_role m, content = content m\<rparr> = (m :: message)"
  by (cases m) simp

lemma check_message_iff:
  "check_message m seen waiting = Inr (seen', waiting') \<longleftrightarrow>
    (if has_results m
     then answer_message m \<and> distinct (answers_of m) \<and> set (answers_of m) \<subseteq> waiting
       \<and> waiting' = waiting - set (answers_of m) \<and> seen' = seen
     else waiting = {} \<and> (calls_of m \<noteq> [] \<longrightarrow> msg_role m = Assistant) \<and> distinct (calls_of m) \<and> set (calls_of m) \<inter> seen = {}
       \<and> seen' = seen \<union> set (calls_of m) \<and> waiting' = set (calls_of m))"
proof (cases "has_results m")
  case True
  then have "content m \<noteq> []" by (auto simp: has_results_def)
  then show ?thesis
    using True answer_blocks_iff [of "content m" waiting waiting' "msg_role m"]
    by (auto simp: check_message_def answer_message_def Let_def split: sum.split)
next
  case False
  then show ?thesis
    using call_blocks_iff [of "content m" "msg_role m" seen waiting seen' waiting']
    by (auto simp: check_message_def has_results_def Let_def)
qed

lemma answered_from_results:
  assumes "has_results m"
  shows "answered_from seen waiting (m # ms) \<longleftrightarrow> answer_message m \<and> distinct (answers_of m) \<and> set (answers_of m) \<subseteq> waiting
    \<and> answered_from seen (waiting - set (answers_of m)) ms"
proof
  assume "answered_from seen waiting (m # ms)"
  then obtain rs gs where d: "m # ms = rs @ flat_groups gs" "list_all answer_message rs" "distinct (concat (map answers_of rs))"
    "set (concat (map answers_of rs)) = waiting" and g: "list_all answered_group gs" "distinct (group_calls gs)"
    "set (group_calls gs) \<inter> seen = {}" unfolding answered_from_def by blast
  have "rs \<noteq> []" using d(1) g(1) assms by (cases gs) (auto simp: answered_group_def)
  then obtain rs' where rs: "rs = m # rs'" using d(1) by (cases rs) auto
  have "waiting - set (answers_of m) = set (concat (map answers_of rs'))" using d(3,4) rs by auto
  then have "answered_from seen (waiting - set (answers_of m)) ms"
    unfolding answered_from_def using d rs g by (intro exI [of _ rs'] exI [of _ gs]) auto
  then show "answer_message m \<and> distinct (answers_of m) \<and> set (answers_of m) \<subseteq> waiting
      \<and> answered_from seen (waiting - set (answers_of m)) ms" using d rs by auto
next
  assume a: "answer_message m \<and> distinct (answers_of m) \<and> set (answers_of m) \<subseteq> waiting
      \<and> answered_from seen (waiting - set (answers_of m)) ms"
  then obtain rs gs where "ms = rs @ flat_groups gs" "list_all answer_message rs" "distinct (concat (map answers_of rs))"
    "set (concat (map answers_of rs)) = waiting - set (answers_of m)" "list_all answered_group gs" "distinct (group_calls gs)"
    "set (group_calls gs) \<inter> seen = {}" unfolding answered_from_def by blast
  with a show "answered_from seen waiting (m # ms)"
    unfolding answered_from_def by (intro exI [of _ "m # rs"] exI [of _ gs]) auto
qed

lemma answered_from_plain:
  assumes "\<not> has_results m"
  shows "answered_from seen waiting (m # ms) \<longleftrightarrow> waiting = {} \<and> (calls_of m \<noteq> [] \<longrightarrow> msg_role m = Assistant)
    \<and> distinct (calls_of m) \<and> set (calls_of m) \<inter> seen = {} \<and> answered_from (seen \<union> set (calls_of m)) (set (calls_of m)) ms"
proof
  assume "answered_from seen waiting (m # ms)"
  then obtain rs gs where d: "m # ms = rs @ flat_groups gs" "list_all answer_message rs"
    "set (concat (map answers_of rs)) = waiting" and g: "list_all answered_group gs" "distinct (group_calls gs)"
    "set (group_calls gs) \<inter> seen = {}" unfolding answered_from_def by blast
  have rs: "rs = []" using d(1,2) assms answer_message_results by (cases rs) auto
  then obtain rs' gs' where gs: "gs = (m, rs') # gs'" and ms: "ms = rs' @ flat_groups gs'"
    using d(1) by (cases gs) auto
  have "answered_from (seen \<union> set (calls_of m)) (set (calls_of m)) ms"
    unfolding answered_from_def using g gs ms by (intro exI [of _ rs'] exI [of _ gs']) (auto simp: answered_group_def)
  then show "waiting = {} \<and> (calls_of m \<noteq> [] \<longrightarrow> msg_role m = Assistant)
      \<and> distinct (calls_of m) \<and> set (calls_of m) \<inter> seen = {} \<and> answered_from (seen \<union> set (calls_of m)) (set (calls_of m)) ms"
    using d(3) rs g gs by (auto simp: answered_group_def)
next
  assume a: "waiting = {} \<and> (calls_of m \<noteq> [] \<longrightarrow> msg_role m = Assistant)
    \<and> distinct (calls_of m) \<and> set (calls_of m) \<inter> seen = {} \<and> answered_from (seen \<union> set (calls_of m)) (set (calls_of m)) ms"
  then obtain rs gs where "ms = rs @ flat_groups gs" "list_all answer_message rs" "distinct (concat (map answers_of rs))"
    "set (concat (map answers_of rs)) = set (calls_of m)" "list_all answered_group gs" "distinct (group_calls gs)"
    "set (group_calls gs) \<inter> (seen \<union> set (calls_of m)) = {}" unfolding answered_from_def by blast
  with a assms show "answered_from seen waiting (m # ms)"
    unfolding answered_from_def by (intro exI [of _ "[]"] exI [of _ "(m, rs) # gs"]) (auto simp: answered_group_def)
qed

lemma answered_from_Nil: "answered_from seen waiting [] \<longleftrightarrow> waiting = {}"
  unfolding answered_from_def by (auto intro!: exI [of _ "[]"])

lemma check_messages_iff: "check_messages ms seen waiting = Inr () \<longleftrightarrow> answered_from seen waiting ms"
proof (induction ms arbitrary: seen waiting)
  case Nil
  then show ?case by (simp add: answered_from_Nil)
next
  case (Cons m ms)
  show ?case
  proof (cases "check_message m seen waiting")
    case (Inl e)
    then have "\<forall>s w. check_message m seen waiting \<noteq> Inr (s, w)" by simp
    then show ?thesis
      using Inl unfolding check_message_iff
      by (cases "has_results m") (auto simp: answered_from_results answered_from_plain split: if_splits)
  next
    case (Inr sw)
    obtain s w where sw: "sw = (s, w)" by (cases sw)
    then show ?thesis
      using Inr Cons.IH [of s w] check_message_iff [of m seen waiting s w]
      by (cases "has_results m") (auto simp: answered_from_results answered_from_plain)
  qed
qed

lemma validate_groups:
  "validate_consultation_tool_history ms = Inr () \<longleftrightarrow>
    (\<exists>gs. ms = flat_groups gs \<and> list_all answered_group gs \<and> distinct (group_calls gs))"
  unfolding validate_consultation_tool_history_def check_messages_iff answered_from_def
proof
  assume "\<exists>rs gs. ms = rs @ flat_groups gs \<and> list_all answer_message rs \<and> distinct (concat (map answers_of rs))
    \<and> set (concat (map answers_of rs)) = {} \<and> list_all answered_group gs \<and> distinct (group_calls gs) \<and> set (group_calls gs) \<inter> {} = {}"
  then obtain rs gs where d: "ms = rs @ flat_groups gs" "list_all answer_message rs" "set (concat (map answers_of rs)) = {}"
    "list_all answered_group gs" "distinct (group_calls gs)" by blast
  have "rs = []" using d(2,3) answer_message_results has_results_answers by (cases rs) auto
  then show "\<exists>gs. ms = flat_groups gs \<and> list_all answered_group gs \<and> distinct (group_calls gs)" using d by auto
next
  assume "\<exists>gs. ms = flat_groups gs \<and> list_all answered_group gs \<and> distinct (group_calls gs)"
  then obtain gs where "ms = flat_groups gs" "list_all answered_group gs" "distinct (group_calls gs)" by blast
  then show "\<exists>rs gs. ms = rs @ flat_groups gs \<and> list_all answer_message rs \<and> distinct (concat (map answers_of rs))
    \<and> set (concat (map answers_of rs)) = {} \<and> list_all answered_group gs \<and> distinct (group_calls gs) \<and> set (group_calls gs) \<inter> {} = {}"
    by (intro exI [of _ "[]"] exI [of _ gs]) simp
qed

text \<open>C20. A restored consultation is admitted exactly when every tool call was answered: its messages split into groups,
  each a message without results followed by user messages that hold nothing but the results of exactly its calls,
  each once; only the assistant calls tools, no call identity is used twice, and no result hides a call or a result.
\<close>

theorem tool_history_check_is_exact:
  "validate_consultation_tool_history ms = Inr () \<longleftrightarrow>
    (\<exists>gs. ms = flat_groups gs \<and> list_all answered_group gs \<and> distinct (group_calls gs))"
  by (rule validate_groups)

subsection \<open>The histories of a session\<close>

text \<open>The result message and the image block both providers build (\<open>app/agent/mod.rs\<close>).\<close>

definition user_tool_result :: "rstr \<Rightarrow> content_block list \<Rightarrow> bool \<Rightarrow> message" where
  "user_tool_result call_id blocks is_error = \<lparr>msg_role = User, content = [BToolResult call_id blocks is_error]\<rparr>"

definition image_block :: "nat list \<Rightarrow> rstr \<Rightarrow> content_block" where
  "image_block data media_type = BImage data media_type"

definition clean_answer :: "rstr \<Rightarrow> message \<Rightarrow> bool" where
  "clean_answer cid m \<longleftrightarrow> (\<exists>blocks err. m = user_tool_result cid blocks err \<and> \<not> list_ex is_control_block blocks)"

lemma result_blocks_plain: "\<not> list_ex is_control_block (fst (result_blocks save outputs w))"
proof (induction outputs arbitrary: w)
  case (Cons r rs)
  show ?case
  proof (cases r)
    case (ResultImage data media)
    obtain w1 a where "save data media w = (w1, a)" by fastforce
    then show ?thesis using Cons.IH [of w1] by (cases a) (simp_all add: ResultImage split_beta)
  qed (use Cons.IH [of w] in \<open>simp_all add: split_beta\<close>)
qed simp

lemma replace_texts_plain:
  "\<not> list_ex is_control_block bs \<Longrightarrow> \<not> list_ex is_control_block (replace_texts (BText t) bs)"
  by (induction bs) (auto simp: list_ex_iff)

lemma spill_content_plain:
  "\<not> list_ex is_control_block bs \<Longrightarrow> \<not> list_ex is_control_block (fst (spill_content persist limit bs w))"
  by (auto simp: spill_content_def Let_def replace_texts_plain split: prod.split sum.split)

lemma record_result_answer:
  assumes "build_tool_result (provider env) = user_tool_result"
  shows "\<exists>m. clean_answer cid m \<and> messages (record_result env cid name outputs s) = messages s @ [m]"
proof -
  obtain blocks w1 where b: "result_blocks (save_image env) outputs (world s) = (blocks, w1)" by fastforce
  obtain blocks' w2 r where sp: "spill_content (persist_output env) (inline_limit_bytes env) blocks w1 = (blocks', w2, r)"
    using prod_cases3 by blast
  have "\<not> list_ex is_control_block blocks'"
    using result_blocks_plain [of "save_image env" outputs "world s"] b
      spill_content_plain [of blocks "persist_output env" "inline_limit_bytes env" w1] sp by simp
  then show ?thesis
    using assms b sp by (auto simp: record_result_def Let_def send_ui_def push_message_def clean_answer_def)
qed

lemma fold_execute_answers:
  assumes "build_tool_result (provider env) = user_tool_result"
  shows "\<exists>rs. messages (fold (execute_call env) calls s) = messages s @ rs \<and> list_all2 (\<lambda>call m. clean_answer (fst call) m) calls rs"
proof (induction calls arbitrary: s)
  case (Cons c cs)
  obtain m where m: "clean_answer (fst c) m" "messages (execute_call env c s) = messages s @ [m]"
    using execute_call_shape [of env "fst c" "fst (snd c)" "snd (snd c)" s] record_result_answer [OF assms, of "fst c"]
    by (metis prod.collapse)
  obtain rs where "messages (fold (execute_call env) cs (execute_call env c s)) = messages (execute_call env c s) @ rs"
    "list_all2 (\<lambda>call m. clean_answer (fst call) m) cs rs" using Cons.IH by blast
  with m show ?case by (intro exI [of _ "m # rs"]) simp
qed simp

text \<open>A call message with its answers is a group, and so is a lone text.\<close>

lemma calls_of_uses:
  "calls_of \<lparr>msg_role = r, content = map (\<lambda>(cid, name, args). BToolUse cid name args) calls\<rparr> = map fst calls"
  "\<not> has_results \<lparr>msg_role = r, content = map (\<lambda>(cid, name, args). BToolUse cid name args) calls\<rparr>"
  by (induction calls) (auto simp: calls_of_def has_results_def)

lemma clean_answers:
  assumes "list_all2 (\<lambda>call m. clean_answer (fst call) m) calls rs"
  shows "list_all answer_message rs" and "concat (map answers_of rs) = map fst calls"
  using assms
  by (induction rule: list_all2_induct) (auto simp: clean_answer_def user_tool_result_def answer_message_def answers_of_def)

lemma tool_group:
  assumes "list_all2 (\<lambda>call m. clean_answer (fst call) m) calls rs" and "distinct (map fst calls)"
  shows "answered_group (\<lparr>msg_role = Assistant, content = map (\<lambda>(cid, name, args). BToolUse cid name args) calls\<rparr>, rs)"
  using clean_answers [OF assms(1)] assms(2) unfolding answered_group_def by (simp add: calls_of_uses del: set_concat)

lemma text_group: "answered_group (\<lparr>msg_role = r, content = [BText t]\<rparr>, [])"
  by (simp add: answered_group_def calls_of_def has_results_def)

definition group_history :: "message list \<Rightarrow> bool" where
  "group_history ms \<longleftrightarrow> (\<exists>gs. ms = flat_groups gs \<and> list_all answered_group gs)"

lemma flat_groups_append [simp]: "flat_groups (gs @ hs) = flat_groups gs @ flat_groups hs"
  by (simp add: flat_groups_def)

lemma group_history_append: "group_history ms \<Longrightarrow> group_history ns \<Longrightarrow> group_history (ms @ ns)"
  unfolding group_history_def by (metis flat_groups_append list_all_append)

lemma group_history_single: "answered_group (m, rs) \<Longrightarrow> group_history (m # rs)"
  unfolding group_history_def by (intro exI [of _ "[(m, rs)]"]) simp

lemma group_history_Nil [simp]: "group_history []"
  unfolding group_history_def by (intro exI [of _ "[]"]) simp

lemma finish_text_shape:
  "\<exists>pre. messages (finish_text r s) = messages s @ pre \<and> (pre = [] \<or> (\<exists>t. pre = [\<lparr>msg_role = Assistant, content = [BText t]\<rparr>]))"
  by (auto simp: finish_text_def Let_def push_message_def send_ui_def)

lemma finish_text_group: "\<exists>pre. messages (finish_text r s) = messages s @ pre \<and> group_history pre"
  using finish_text_shape [of r s] group_history_single [OF text_group] by fastforce

lemma run_round_groups:
  assumes "build_tool_result (provider env) = user_tool_result"
  shows "\<exists>new. messages (fst (run_round env opts s)) = messages s @ new \<and> group_history new"
proof -
  obtain s1 res where st: "stream_with_retry env (definitions (tools_registry env) (tool_names env)) opts s = (s1, res)" by fastforce
  have m1: "messages s1 = messages s" using stream_with_retry_frame(2) [of env _ opts s] st by (metis fst_conv)
  show ?thesis
  proof (cases res)
    case (Inl e)
    then show ?thesis using st m1 by (simp add: run_round_def)
  next
    case (Inr evs)
    obtain s2 res2 where rd: "read_stream env evs empty_round s1 = (s2, res2)" by fastforce
    have m2: "messages s2 = messages s" using read_stream_frame [of env evs empty_round s1] rd m1 by simp
    show ?thesis
    proof (cases "\<exists>r. res2 = Inr r \<and> clean_terminal_seen r \<and> \<not> terminal_rejected r")
      case False
      then show ?thesis
        using st Inr rd m2 by (cases res2) (auto simp: run_round_def reset_session_chain_def)
    next
      case True
      then obtain r where r: "res2 = Inr r" "clean_terminal_seen r" "\<not> terminal_rejected r" by blast
      have round: "run_round env opts s = finish_round env r (finish_text r s2)"
        using st Inr rd r by (simp add: run_round_def)
      obtain pre where pre: "messages (finish_text r s2) = messages s @ pre" "group_history pre"
        using finish_text_group [of r s2] m2 by auto
      show ?thesis
      proof (cases "collect_ready (json_from_str env) (pending_tools r) (tool_call_order r)")
        case (Inl e)
        then show ?thesis using round pre by (simp add: finish_round_def)
      next
        case (Inr calls)
        have ids: "distinct (map fst calls)" by (rule collected_ids_distinct [OF rd [unfolded r(1)] Inr])
        let ?use = "\<lparr>msg_role = Assistant, content = map (\<lambda>(cid, name, args). BToolUse cid name args) calls\<rparr>"
        obtain rs where rs: "messages (fold (execute_call env) calls (push_message ?use (finish_text r s2)))
            = messages (push_message ?use (finish_text r s2)) @ rs" "list_all2 (\<lambda>call m. clean_answer (fst call) m) calls rs"
          using fold_execute_answers [OF assms] by blast
        have "group_history (?use # rs)" using group_history_single [OF tool_group [OF rs(2) ids]] .
        then have tools: "group_history (pre @ ?use # rs)" using group_history_append pre(2) by blast
        show ?thesis
        proof (cases "calls = []")
          case True
          then show ?thesis using round Inr pre by (simp add: finish_round_def send_ui_def)
        next
          case False
          then show ?thesis using round Inr pre(1) rs(1) tools
            by (intro exI [of _ "pre @ ?use # rs"]) (simp add: finish_round_def push_message_def)
        qed
      qed
    qed
  qed
qed

lemma run_rounds_groups:
  assumes "build_tool_result (provider env) = user_tool_result"
  shows "\<exists>new. messages (fst (run_rounds env opts n s)) = messages s @ new \<and> group_history new"
proof (induction n arbitrary: s)
  case (Suc n)
  obtain s' res where r: "run_round env opts s = (s', res)" by fastforce
  obtain a where a: "messages s' = messages s @ a" "group_history a" using run_round_groups [OF assms, of opts s] r by auto
  obtain b where b: "messages (fst (run_rounds env opts n s')) = messages s' @ b" "group_history b" using Suc.IH by blast
  have "fst (run_rounds env opts (Suc n) s) = (if res = Inr False then fst (run_rounds env opts n s') else s')"
    using r by (auto split: sum.split)
  then show ?case using a b group_history_append [OF a(2) b(2)] by auto
qed simp

lemma calls_of_answers: "answer_message m \<Longrightarrow> calls_of m = []"
proof -
  have "list_all clean_result bs \<Longrightarrow>
      List.map_filter (\<lambda>b. case b of BToolUse cid name input \<Rightarrow> Some cid | _ \<Rightarrow> None) bs = []" for bs
    by (induction bs) (auto elim: clean_result.elims)
  then show "answer_message m \<Longrightarrow> calls_of m = []" by (simp add: answer_message_def calls_of_def)
qed

lemma history_calls: "list_all answered_group gs \<Longrightarrow> concat (map calls_of (flat_groups gs)) = group_calls gs"
proof (induction gs)
  case (Cons g gs)
  then show ?case by (cases g) (auto simp: answered_group_def list_all_iff calls_of_answers)
qed simp

lemma validate_history_iff:
  "validate_consultation_tool_history ms = Inr () \<longleftrightarrow> group_history ms \<and> distinct (concat (map calls_of ms))"
  unfolding validate_groups group_history_def using history_calls by metis

lemma user_message_group:
  "group_history [\<lparr>msg_role = User, content = BText text # map (\<lambda>a. image_block (f a) (g a)) attachments\<rparr>]"
proof (rule group_history_single)
  have "calls_of \<lparr>msg_role = User, content = BText text # map (\<lambda>a. image_block (f a) (g a)) attachments\<rparr> = []"
    "\<not> has_results \<lparr>msg_role = User, content = BText text # map (\<lambda>a. image_block (f a) (g a)) attachments\<rparr>"
    by (induction attachments) (auto simp: calls_of_def has_results_def image_block_def)
  then show "answered_group (\<lparr>msg_role = User, content = BText text # map (\<lambda>a. image_block (f a) (g a)) attachments\<rparr>, [])"
    by (simp add: answered_group_def)
qed

text \<open>A turn leaves an admissible history, however it ends: if the history was admissible before and the provider
  reused no call identity, the history after any turn, finished, failed or stopped by the loop guard, passes the
  check a restored consultation has to pass.
\<close>

theorem turn_history_is_admissible:
  assumes "build_tool_result (provider env) = user_tool_result" and "build_image_block (provider env) = image_block"
    and "validate_consultation_tool_history (messages s) = Inr ()"
    and "distinct (concat (map calls_of (messages (fst (send env text attachments opts s)))))"
  shows "validate_consultation_tool_history (messages (fst (send env text attachments opts s))) = Inr ()"
proof -
  let ?m = "\<lparr>msg_role = User, content = BText text
    # map (\<lambda>a. build_image_block (provider env) (att_data a) (att_media_type a)) attachments\<rparr>"
  obtain new where new: "messages (fst (send env text attachments opts s)) = messages s @ ?m # new" "group_history new"
    using run_rounds_groups [OF assms(1), of opts "max_iterations env" "push_message ?m s"] by (auto simp: send_def push_message_def)
  have "group_history (messages s @ [?m] @ new)"
    using assms(3) new(2) user_message_group by (intro group_history_append) (simp_all add: validate_history_iff assms(2))
  then show ?thesis using assms(4) new(1) by (simp add: validate_history_iff)
qed

lemma demo_provider_shape:
  "build_tool_result (provider demo_env) = user_tool_result" "build_image_block (provider demo_env) = image_block"
  by (simp_all add: demo_env_def demo_provider_def user_tool_result_def image_block_def fun_eq_iff)

lemma demo_read:
  "\<exists>s' r. read_stream demo_env demo_events empty_round s = (s', Inr r) \<and> clean_terminal_seen r \<and> \<not> terminal_rejected r
    \<and> collect_ready (json_from_str demo_env) (pending_tools r) (tool_call_order r) = Inr [(lit ''c1'', lit ''read_file'', JNull)]"
  by (simp add: demo_events_def on_event_def empty_round_def note_call_def)

lemma demo_turn_calls:
  "concat (map calls_of (messages (fst (send demo_env (lit ''hi'') [] demo_options demo_session)))) = [lit ''c1'']"
proof -
  let ?s = "push_message \<lparr>msg_role = User, content = [BText (lit ''hi'')]\<rparr> demo_session"
  let ?calls = "[(lit ''c1'', lit ''read_file'', JNull)]"
  let ?use = "\<lparr>msg_role = Assistant, content = map (\<lambda>(cid, name, args). BToolUse cid name args) ?calls\<rparr>"
  have stream: "stream_with_retry demo_env defs demo_options ?s = (?s, Inr demo_events)" for defs
    by (simp add: stream_with_retry_def demo_env_def demo_provider_def push_message_def demo_session_def)
  obtain s2 r where read: "read_stream demo_env demo_events empty_round ?s = (s2, Inr r)" "clean_terminal_seen r"
    "\<not> terminal_rejected r" "collect_ready (json_from_str demo_env) (pending_tools r) (tool_call_order r) = Inr ?calls"
    using demo_read by blast
  let ?final = "fold (execute_call demo_env) ?calls (push_message ?use (finish_text r s2))"
  have run: "send demo_env (lit ''hi'') [] demo_options demo_session = (?final, Inl (LoopGuard 1))"
    using stream read by (simp add: send_def run_round_def finish_round_def demo_env_def [THEN arg_cong [of _ _ max_iterations]])
  obtain pre where pre: "messages (finish_text r s2) = messages s2 @ pre" "pre = [] \<or> (\<exists>t. pre = [\<lparr>msg_role = Assistant, content = [BText t]\<rparr>])"
    using finish_text_shape by blast
  obtain rs where rs: "messages ?final = messages (push_message ?use (finish_text r s2)) @ rs"
    "list_all2 (\<lambda>call m. clean_answer (fst call) m) ?calls rs"
    using fold_execute_answers [OF demo_provider_shape(1)] by blast
  have "messages ?final = messages ?s @ pre @ ?use # rs"
    using rs(1) pre(1) read_stream_frame [of demo_env demo_events empty_round ?s] read(1) by (simp add: push_message_def)
  moreover have "concat (map calls_of rs) = []"
    using clean_answers(1) [OF rs(2)] by (auto simp: list_all_iff calls_of_answers)
  moreover have "concat (map calls_of pre) = []" using pre(2) by (auto simp: calls_of_def)
  ultimately show ?thesis
    by (simp only: run fst_conv map_append concat_append) (simp add: push_message_def demo_session_def calls_of_def)
qed

theorem turn_history_is_admissible_witness:
  "validate_consultation_tool_history (messages (fst (send demo_env (lit ''hi'') [] demo_options demo_session))) = Inr ()"
proof (rule turn_history_is_admissible [OF demo_provider_shape])
  show "validate_consultation_tool_history (messages demo_session) = Inr ()"
    by (simp add: validate_consultation_tool_history_def demo_session_def)
qed (simp add: demo_turn_calls)

end
