(* ===== verification/Thread_Titles.thy ===== *)
theory Thread_Titles
  imports Thread_Content Group_Content
begin

section \<open>Threads and their titles\<close>

text \<open>
  The thread record of \<open>core/agent/thread_store.rs\<close> and the derivation of a heuristic title: from the storage side
  (\<open>derive_title_from_messages\<close>) and from the delivery side (\<open>derive_thread_title\<close> of \<open>thread_delivery.rs\<close>).
  Further Unicode tables are fields of \<open>letters\<close>. A title marker is found as the text on both sides of it.
\<close>

record letters = unicode +
  is_alphabetic :: "nat \<Rightarrow> bool"
  is_lowercase :: "nat \<Rightarrow> bool"

subsection \<open>The record\<close>

record thread_note =
  note_id :: rstr
  note_created_at :: int
  note_text :: rstr
  anchored_to_message :: "nat option"

record token_usage =
  tokens_input :: u64
  tokens_output :: u64

record thread =
  thread_id :: rstr
  created_at :: int
  updated_at :: int
  title :: rstr
  title_is_custom :: bool
  title_is_generated :: bool
  thread_mode :: rstr
  thread_tags :: "rstr list"
  thread_notes :: "thread_note list"
  thread_messages :: "thread_message list"
  thread_summary_text :: "rstr option"
  total_tokens :: "token_usage option"
  thread_provider :: rstr
  thread_model :: rstr

definition DEFAULT_THREAD_TITLE :: rstr where
  "DEFAULT_THREAD_TITLE = lit ''Codescribe Agent Chat''"

definition title_is_heuristic :: "thread \<Rightarrow> bool" where
  "title_is_heuristic t \<longleftrightarrow> \<not> title_is_custom t \<and> \<not> title_is_generated t"

definition title_is_meaningful :: "letters \<Rightarrow> rstr \<Rightarrow> bool" where
  "title_is_meaningful u s \<longleftrightarrow> \<not> starts_with (lit ''<<<'') (trim s) \<and> list_ex (is_alphanumeric u) (trim s)"

subsection \<open>Context markers\<close>

definition trim_end :: "rstr \<Rightarrow> rstr" where
  "trim_end s = trim_end_matches is_whitespace s"

definition is_ascii_digit :: "nat \<Rightarrow> bool" where
  "is_ascii_digit c \<longleftrightarrow> 48 \<le> c \<and> c \<le> 57"

text \<open>What stands behind an opening brace, when a marker begins there: the text behind the marker.\<close>

definition label_end :: "rstr \<Rightarrow> rstr \<Rightarrow> rstr option" where
  "label_end label tail =
     (case strip_prefix label tail of
        None \<Rightarrow> None
      | Some rest \<Rightarrow>
          (case (takeWhile is_ascii_digit rest, dropWhile is_ascii_digit rest) of
             (_ # _, c # behind) \<Rightarrow> if c = 125 then Some behind else None
           | _ \<Rightarrow> None))"

definition marker_behind :: "rstr \<Rightarrow> rstr option" where
  "marker_behind tail = option_or (label_end (lit ''selection_'') tail) (label_end (lit ''image_'') tail)"

fun find_context_marker :: "rstr \<Rightarrow> (rstr \<times> rstr) option" where
  "find_context_marker [] = None"
| "find_context_marker (c # cs) =
     (case (if c = 123 then marker_behind cs else None) of
        Some behind \<Rightarrow> Some ([], behind)
      | None \<Rightarrow> map_option (apfst (Cons c)) (find_context_marker cs))"

definition TITLE_FRAGMENT_VOWELS :: rstr where
  "TITLE_FRAGMENT_VOWELS = lit ''aeiouy'' @ [261, 281, 243, 224, 225, 226, 228, 227, 229, 232, 233, 234, 235, 236, 237, 238, 239,
     242, 244, 246, 245, 249, 250, 251, 252]"

definition fragment_lacks_vowel :: "letters \<Rightarrow> rstr \<Rightarrow> bool" where
  "fragment_lacks_vowel u fragment \<longleftrightarrow> 2 \<le> length fragment
     \<and> \<not> list_ex (\<lambda>ch. list_ex (\<lambda>low. low \<in> set TITLE_FRAGMENT_VOWELS) (to_lowercase u [ch])) fragment"

definition glues_split_word :: "letters \<Rightarrow> rstr \<Rightarrow> rstr \<Rightarrow> bool" where
  "glues_split_word u left right \<longleftrightarrow> fragment_lacks_vowel u (takeWhile (is_alphabetic u) (rev left))
     \<or> fragment_lacks_vowel u (takeWhile (is_alphabetic u) right)"

text \<open>The text without its first marker.\<close>

definition close_gap :: "letters \<Rightarrow> rstr \<Rightarrow> rstr \<Rightarrow> rstr" where
  "close_gap u before behind =
     (let left = trim_end before; right = trim_start behind;
          no_gap = (left = before \<and> right = behind);
          keep_space = (left \<noteq> [] \<and> right \<noteq> [] \<and> \<not> no_gap \<and> \<not> glues_split_word u left right)
      in left @ (if keep_space then [32] else []) @ right)"

lemma label_end_shorter: "label_end label tail = Some behind \<Longrightarrow> length behind + length label + 2 \<le> length tail"
proof -
  assume e: "label_end label tail = Some behind"
  obtain rest where tail: "tail = label @ rest"
    using e by (auto simp: label_end_def strip_prefix_def starts_with_iff split: option.splits if_splits)
  then have split: "(case (takeWhile is_ascii_digit rest, dropWhile is_ascii_digit rest) of
      (_ # _, c # behind) \<Rightarrow> if c = 125 then Some behind else None | _ \<Rightarrow> None) = Some behind"
    using e by (simp add: label_end_def strip_prefix_def starts_with_iff)
  then have "takeWhile is_ascii_digit rest \<noteq> []" "dropWhile is_ascii_digit rest = 125 # behind"
    by (auto split: list.splits if_splits)
  moreover have "length rest = length (takeWhile is_ascii_digit rest) + length (dropWhile is_ascii_digit rest)"
    using takeWhile_dropWhile_id [of is_ascii_digit rest] length_append by metis
  ultimately show ?thesis using tail by (cases "takeWhile is_ascii_digit rest") auto
qed

lemma marker_behind_shorter: "marker_behind tail = Some behind \<Longrightarrow> length behind + 2 \<le> length tail"
  by (auto simp: marker_behind_def option_or_eq_Some dest: label_end_shorter)

lemma find_context_marker_shorter:
  "find_context_marker s = Some (before, behind) \<Longrightarrow> length before + length behind + 3 \<le> length s"
proof (induction s arbitrary: before)
  case (Cons c cs)
  show ?case
  proof (cases "if c = 123 then marker_behind cs else None")
    case None
    then show ?thesis using Cons by (auto simp: apfst_def)
  next
    case (Some b)
    then show ?thesis using Cons.prems marker_behind_shorter [of cs b] by (auto split: if_splits)
  qed
qed simp

lemma close_gap_length: "length (close_gap u before behind) \<le> length before + length behind + 1"
proof -
  have "length (trim_end before) \<le> length before"
    by (simp add: trim_end_def trim_end_matches_def length_dropWhile_le [THEN order_trans])
  moreover have "length (trim_start behind) \<le> length behind" by (simp add: trim_start_def length_dropWhile_le)
  ultimately show ?thesis by (simp add: close_gap_def Let_def)
qed

function remove_markers :: "letters \<Rightarrow> rstr \<Rightarrow> rstr" where
  "remove_markers u s =
     (case find_context_marker s of None \<Rightarrow> s | Some (before, behind) \<Rightarrow> remove_markers u (close_gap u before behind))"
  by pat_completeness auto
termination
proof (relation "measure (\<lambda>(_, s). length s)")
  fix u :: letters and s before behind p
  assume "find_context_marker s = Some p" "(before, behind) = p"
  then have "length before + length behind + 3 \<le> length s" by (intro find_context_marker_shorter) simp
  then show "((u, close_gap u before behind), u, s) \<in> measure (\<lambda>(_, s). length s)"
    using close_gap_length [of u before behind] by simp
qed simp

declare remove_markers.simps [simp del]

definition strip_context_markers :: "letters \<Rightarrow> rstr \<Rightarrow> rstr option" where
  "strip_context_markers u line = (if find_context_marker line = None then None else Some (remove_markers u line))"

subsection \<open>A title from the messages\<close>

definition ASSISTIVE_WIRE_LABELS :: "rstr list" where
  "ASSISTIVE_WIRE_LABELS =
     map lit [''user_instruction:'', ''user instruction:'', ''selected_text:'', ''selected text:'', ''context:'']
     @ [lit ''instrukcja_u'' @ [380] @ lit ''ytkownika:'', lit ''instrukcja u'' @ [380] @ lit ''ytkownika:'']
     @ map lit [''zaznaczony_tekst:'', ''zaznaczony tekst:'', ''kontekst:'', ''kontekst_aplikacji:'', ''kontekst aplikacji:'',
         ''aplikacja:'', ''okno:'', ''system prompt'', ''you are an agent'']
     @ [lit ''jeste'' @ [347] @ lit '' agentem'', lit ''jestes agentem'']"

definition is_assistive_wire_label :: "letters \<Rightarrow> rstr \<Rightarrow> bool" where
  "is_assistive_wire_label u line \<longleftrightarrow> list_ex (\<lambda>prefix. starts_with prefix (to_lowercase u line)) ASSISTIVE_WIRE_LABELS"

definition normalize_title_line :: "letters \<Rightarrow> rstr \<Rightarrow> rstr option" where
  "normalize_title_line u line =
     (let trimmed = trim (unwrap_or line (strip_context_markers u line))
      in if \<not> title_is_meaningful u trimmed \<or> is_assistive_wire_label u trimmed then None
         else let clipped = take 72 (join_with [32] (split_whitespace trimmed))
              in if title_is_meaningful u clipped then Some clipped else None)"

definition is_json_number :: "json \<Rightarrow> bool" where
  "is_json_number v = (case v of JNumber _ \<Rightarrow> True | _ \<Rightarrow> False)"

text \<open>The readable texts of a stored block, in order.\<close>

definition block_text :: "json \<Rightarrow> rstr list" where
  "block_text value = (case get_str value (lit ''text'') of Some text \<Rightarrow> if trim text \<noteq> [] then [text] else [] | None \<Rightarrow> [])"

lemma json_get_size: "json_get v k = Some c \<Longrightarrow> size c < size v"
proof -
  assume "json_get v k = Some c"
  then obtain fs where v: "v = JObject fs" "(k, c) \<in> set fs" by (auto simp: json_get_def split: json.splits dest: map_of_SomeD)
  have "size c \<le> size_list (size_prod (\<lambda>x. 0) size) fs" using v(2) by (intro size_list_estimation' [where x = "(k, c)"]) simp_all
  then show ?thesis using v(1) by simp
qed

function collect_title_text :: "json \<Rightarrow> rstr list" where
  "collect_title_text value =
     (case value of
        JString text \<Rightarrow> if trim text \<noteq> [] then [text] else []
      | JArray items \<Rightarrow> if list_all is_json_number items then [] else concat (map collect_title_text items)
      | JObject fs \<Rightarrow>
          (case get_str (JObject fs) (lit ''type'') of
             None \<Rightarrow> block_text (JObject fs)
           | Some kind \<Rightarrow>
               if kind = lit ''text'' \<or> kind = lit ''input_text'' \<or> kind = lit ''output_text'' then block_text (JObject fs)
               else if kind = lit ''tool_result''
               then (case json_get (JObject fs) (lit ''content'') of Some v \<Rightarrow> collect_title_text v | None \<Rightarrow> [])
               else [])
      | _ \<Rightarrow> [])"
  by pat_completeness auto
termination
  by (relation "measure size") (auto dest: json_get_size simp: less_Suc_eq_le size_list_estimation')

declare collect_title_text.simps [simp del]

definition message_is :: "rstr \<Rightarrow> thread_message \<Rightarrow> bool" where
  "message_is role m \<longleftrightarrow> eq_ignore_ascii_case (tm_role m) role"

definition derive_title_from_messages :: "letters \<Rightarrow> thread_message list \<Rightarrow> rstr" where
  "derive_title_from_messages u msgs =
     (case find (message_is (lit ''user'')) msgs of
        None \<Rightarrow> DEFAULT_THREAD_TITLE
      | Some first_user \<Rightarrow>
          (case List.map_filter (normalize_title_line u)
                  (concat (map lines (concat (map collect_title_text (tm_content first_user))))) of
             derived # _ \<Rightarrow> derived
           | [] \<Rightarrow> DEFAULT_THREAD_TITLE))"

definition normalize_heuristic_title :: "letters \<Rightarrow> thread \<Rightarrow> thread \<times> bool" where
  "normalize_heuristic_title u t =
     (if \<not> title_is_heuristic t \<or> title_is_meaningful u (title t) then (t, False)
      else (t\<lparr>title := derive_title_from_messages u (thread_messages t)\<rparr>, True))"

subsection \<open>What a derived title looks like\<close>

text \<open>The only facts about the Unicode tables used: an ASCII letter is alphanumeric.\<close>

definition letters_ok :: "letters \<Rightarrow> bool" where
  "letters_ok u \<longleftrightarrow> is_alphanumeric u 67"

lemma default_title_meaningful: "letters_ok u \<Longrightarrow> title_is_meaningful u DEFAULT_THREAD_TITLE"
  by (simp add: title_is_meaningful_def letters_ok_def DEFAULT_THREAD_TITLE_def trim_def lit_def is_whitespace_def)

lemma normalized_line_meaningful: "normalize_title_line u line = Some t \<Longrightarrow> title_is_meaningful u t \<and> length t \<le> 72"
  by (auto simp: normalize_title_line_def Let_def split: if_splits)

lemma derived_title_meaningful:
  assumes "letters_ok u"
  shows "title_is_meaningful u (derive_title_from_messages u ms) \<and> length (derive_title_from_messages u ms) \<le> 72"
proof -
  have d: "title_is_meaningful u DEFAULT_THREAD_TITLE \<and> length DEFAULT_THREAD_TITLE \<le> 72"
    using default_title_meaningful [OF assms] by (simp add: DEFAULT_THREAD_TITLE_def lit_def)
  have "title_is_meaningful u t \<and> length t \<le> 72"
    if "List.map_filter (normalize_title_line u) ls = t # ts" for t ts ls
  proof -
    have "t \<in> set (List.map_filter (normalize_title_line u) ls)" using that by simp
    then obtain l where "normalize_title_line u l = Some t" by (auto simp: List.map_filter_def)
    then show ?thesis by (rule normalized_line_meaningful)
  qed
  then show ?thesis using d by (auto simp: derive_title_from_messages_def split: option.split list.split)
qed

lemma normalized_title:
  assumes "letters_ok u"
  shows "title_is_heuristic (fst (normalize_heuristic_title u t)) \<longrightarrow> title_is_meaningful u (title (fst (normalize_heuristic_title u t)))"
    and "title_is_heuristic (fst (normalize_heuristic_title u t)) = title_is_heuristic t"
    and "\<not> title_is_heuristic t \<longrightarrow> fst (normalize_heuristic_title u t) = t"
    and "(fst (normalize_heuristic_title u t))\<lparr>title := x\<rparr> = t\<lparr>title := x\<rparr>"
  using derived_title_meaningful [OF assms]
  by (auto simp: normalize_heuristic_title_def title_is_heuristic_def)

lemma removed_markers: "find_context_marker (remove_markers u s) = None"
  by (induction u s rule: remove_markers.induct) (subst remove_markers.simps, auto split: option.split)

text \<open>Removing markers ends and leaves none: a line has a stripped form exactly when it holds a marker, and the
  stripped form holds none, also where joining the two sides of a marker forms a new one.
\<close>

theorem stripped_title_has_no_marker:
  "case strip_context_markers u line of None \<Rightarrow> find_context_marker line = None
   | Some stripped \<Rightarrow> find_context_marker line \<noteq> None \<and> find_context_marker stripped = None"
  by (simp add: strip_context_markers_def removed_markers)

end
