(* ===== verification/Thread_Store.thy ===== *)
theory Thread_Store
  imports Thread_Titles
begin

section \<open>The thread store\<close>

text \<open>
  \<open>core/agent/thread_store.rs\<close> and \<open>core/agent/thread_index.rs\<close> over a directory: the thread files in the order the
  directory lists them, a file that does not parse holding nothing, the index file, and whether each can be
  written. A read-modify-write operation is split where the code releases the lock: a read step gives the snapshot
  that a save step writes back. The search text and the previews of a row are left out.
\<close>

record thread_summary =
  row_id :: rstr
  row_title :: rstr
  row_created_at :: int
  row_updated_at :: int
  row_message_count :: nat
  row_mode :: rstr
  row_tags :: "rstr list"
  row_summary :: "rstr option"
  row_has_notes :: bool
  row_is_favorite :: bool
  row_model :: "rstr option"
  row_total_tokens :: "u64 option"

definition INDEX_VERSION :: nat where "INDEX_VERSION = 4"

datatype index_file = IndexAbsent | IndexUnreadable | IndexFile nat "thread_summary list"

record thread_disk =
  thread_files :: "(rstr \<times> thread option) list"
  index_file :: index_file
  can_write :: bool
  can_index :: bool

datatype store_error = IdEmpty | IdPathCharacters | ThreadMissing | ThreadUnreadable | ThreadWriteFailed | IndexFailed | TitleUnreadable

definition validate_thread_id :: "rstr \<Rightarrow> store_error + unit" where
  "validate_thread_id i =
     (if trim i = [] then Inl IdEmpty
      else if contains [47] i \<or> contains [92] i \<or> contains (lit ''..'') i then Inl IdPathCharacters
      else Inr ())"

subsection \<open>The index\<close>

definition from_thread :: "thread \<Rightarrow> bool \<Rightarrow> thread_summary" where
  "from_thread t favorite = \<lparr>row_id = thread_id t, row_title = title t, row_created_at = created_at t,
     row_updated_at = updated_at t, row_message_count = length (thread_messages t), row_mode = thread_mode t,
     row_tags = thread_tags t, row_summary = thread_summary_text t, row_has_notes = (thread_notes t \<noteq> []),
     row_is_favorite = favorite, row_model = (if thread_model t = [] then None else Some (thread_model t)),
     row_total_tokens = map_option (\<lambda>k. min u64_max (tokens_input k + tokens_output k)) (total_tokens t)\<rparr>"

definition sort_by_updated_desc :: "thread_summary list \<Rightarrow> thread_summary list" where
  "sort_by_updated_desc rows = sort_key (\<lambda>r. - row_updated_at r) rows"

definition is_thread_json_file :: "rstr \<Rightarrow> bool" where
  "is_thread_json_file i \<longleftrightarrow> starts_with (lit ''t_'') i"

definition rebuild_index :: "(rstr \<times> thread option) list \<Rightarrow> thread_summary list \<Rightarrow> thread_summary list" where
  "rebuild_index fs rows =
     (let favorite = (\<lambda>i. unwrap_or False (map_of (rev (map (\<lambda>r. (row_id r, row_is_favorite r)) rows)) i))
      in sort_by_updated_desc (List.map_filter (\<lambda>(i, f). case f of
           Some t \<Rightarrow> if is_thread_json_file i then Some (from_thread t (favorite (thread_id t))) else None
         | None \<Rightarrow> None) fs))"

definition save_index :: "nat \<Rightarrow> thread_summary list \<Rightarrow> thread_disk \<Rightarrow> thread_disk \<times> (store_error + unit)" where
  "save_index v rows d = (if can_index d then (d\<lparr>index_file := IndexFile v rows\<rparr>, Inr ()) else (d, Inl IndexFailed))"

definition load_or_create :: "thread_disk \<Rightarrow> thread_disk \<times> (store_error + nat \<times> thread_summary list)" where
  "load_or_create d =
     (case index_file d of
        IndexUnreadable \<Rightarrow> (d, Inl IndexFailed)
      | IndexAbsent \<Rightarrow> (case save_index INDEX_VERSION [] d of (d', Inl e) \<Rightarrow> (d', Inl e) | (d', Inr _) \<Rightarrow> (d', Inr (INDEX_VERSION, [])))
      | IndexFile v rows \<Rightarrow>
          if v < INDEX_VERSION
          then let rows' = rebuild_index (thread_files d) rows
               in (case save_index INDEX_VERSION rows' d of (d', Inl e) \<Rightarrow> (d', Inl e) | (d', Inr _) \<Rightarrow> (d', Inr (INDEX_VERSION, rows')))
          else (d, Inr (v, rows)))"

fun upsert_row :: "thread \<Rightarrow> thread_summary list \<Rightarrow> thread_summary list" where
  "upsert_row t [] = [from_thread t False]"
| "upsert_row t (r # rs) = (if row_id r = thread_id t then from_thread t (row_is_favorite r) # rs else r # upsert_row t rs)"

definition index_add :: "thread \<Rightarrow> nat \<Rightarrow> thread_summary list \<Rightarrow> thread_disk \<Rightarrow> thread_disk \<times> (store_error + unit)" where
  "index_add t v rows d = save_index v (sort_by_updated_desc (upsert_row t rows)) d"

definition index_remove :: "rstr \<Rightarrow> nat \<Rightarrow> thread_summary list \<Rightarrow> thread_disk \<Rightarrow> thread_disk \<times> (store_error + unit)" where
  "index_remove i v rows d = save_index v (filter (\<lambda>r. row_id r \<noteq> i) rows) d"

fun favorite_row :: "rstr \<Rightarrow> bool \<Rightarrow> thread_summary list \<Rightarrow> thread_summary list" where
  "favorite_row i b [] = []"
| "favorite_row i b (r # rs) = (if row_id r = i then r\<lparr>row_is_favorite := b\<rparr> # rs else r # favorite_row i b rs)"

definition index_set_favorite ::
  "rstr \<Rightarrow> bool \<Rightarrow> nat \<Rightarrow> thread_summary list \<Rightarrow> thread_disk \<Rightarrow> thread_disk \<times> (store_error + bool)" where
  "index_set_favorite i b v rows d =
     (case find (\<lambda>r. row_id r = i) rows of
        None \<Rightarrow> (d, Inr False)
      | Some entry \<Rightarrow>
          if row_is_favorite entry = b then (d, Inr True)
          else case save_index v (favorite_row i b rows) d of (d', Inl e) \<Rightarrow> (d', Inl e) | (d', Inr _) \<Rightarrow> (d', Inr True))"

subsection \<open>Files\<close>

fun put_file :: "rstr \<Rightarrow> thread \<Rightarrow> (rstr \<times> thread option) list \<Rightarrow> (rstr \<times> thread option) list" where
  "put_file i t [] = [(i, Some t)]"
| "put_file i t ((j, f) # fs) = (if i = j then (i, Some t) # fs else (j, f) # put_file i t fs)"

definition load_thread_raw :: "rstr \<Rightarrow> thread_disk \<Rightarrow> store_error + thread" where
  "load_thread_raw i d =
     (case validate_thread_id i of
        Inl e \<Rightarrow> Inl e
      | Inr _ \<Rightarrow> (case map_of (thread_files d) i of
                    None \<Rightarrow> Inl ThreadMissing | Some None \<Rightarrow> Inl ThreadUnreadable | Some (Some t) \<Rightarrow> Inr t))"

definition save_thread :: "letters \<Rightarrow> thread \<Rightarrow> thread_disk \<Rightarrow> thread_disk \<times> (store_error + unit)" where
  "save_thread u t d =
     (let t = fst (normalize_heuristic_title u t)
      in case validate_thread_id (thread_id t) of
           Inl e \<Rightarrow> (d, Inl e)
         | Inr _ \<Rightarrow>
             if \<not> can_write d then (d, Inl ThreadWriteFailed)
             else case load_or_create (d\<lparr>thread_files := put_file (thread_id t) t (thread_files d)\<rparr>) of
                    (d', Inl e) \<Rightarrow> (d', Inl e)
                  | (d', Inr (v, rows)) \<Rightarrow> index_add t v rows d')"

text \<open>The repair of one thread under the lock.\<close>

definition heal_thread :: "letters \<Rightarrow> rstr \<Rightarrow> thread_disk \<Rightarrow> thread_disk \<times> (store_error + bool)" where
  "heal_thread u i d =
     (case load_thread_raw i d of
        Inl e \<Rightarrow> (d, Inl e)
      | Inr t \<Rightarrow>
          (case normalize_heuristic_title u t of
             (t', False) \<Rightarrow> (d, Inr False)
           | (t', True) \<Rightarrow> (case save_thread u t' d of (d', Inl e) \<Rightarrow> (d', Inl e) | (d', Inr _) \<Rightarrow> (d', Inr True))))"

definition load_thread :: "letters \<Rightarrow> rstr \<Rightarrow> thread_disk \<Rightarrow> thread_disk \<times> (store_error + thread)" where
  "load_thread u i d =
     (case load_thread_raw i d of
        Inl e \<Rightarrow> (d, Inl e)
      | Inr t \<Rightarrow>
          (case normalize_heuristic_title u t of
             (t', False) \<Rightarrow> (d, Inr t')
           | (t', True) \<Rightarrow> (fst (heal_thread u i d), Inr t')))"

fun heal_threads :: "letters \<Rightarrow> rstr list \<Rightarrow> thread_disk \<Rightarrow> thread_disk \<times> nat" where
  "heal_threads u [] d = (d, 0)"
| "heal_threads u (i # is) d =
     (case heal_thread u i d of (d', r) \<Rightarrow>
        (case heal_threads u is d' of (d'', n) \<Rightarrow> (d'', (if r = Inr True then 1 else 0) + n)))"

definition heal_degenerate_titles :: "letters \<Rightarrow> thread_disk \<Rightarrow> thread_disk \<times> (store_error + nat)" where
  "heal_degenerate_titles u d =
     (case load_or_create d of
        (d', Inl e) \<Rightarrow> (d', Inl e)
      | (d', Inr (v, rows)) \<Rightarrow>
          (case heal_threads u (map row_id (filter (\<lambda>r. \<not> title_is_meaningful u (row_title r)) rows)) d' of
             (d'', n) \<Rightarrow> (d'', Inr n)))"

definition delete_thread :: "rstr \<Rightarrow> thread_disk \<Rightarrow> thread_disk \<times> (store_error + unit)" where
  "delete_thread i d =
     (case validate_thread_id i of
        Inl e \<Rightarrow> (d, Inl e)
      | Inr _ \<Rightarrow>
          if map_of (thread_files d) i \<noteq> None \<and> \<not> can_write d then (d, Inl ThreadWriteFailed)
          else case load_or_create (d\<lparr>thread_files := filter (\<lambda>(j, _). j \<noteq> i) (thread_files d)\<rparr>) of
                 (d', Inl e) \<Rightarrow> (d', Inl e)
               | (d', Inr (v, rows)) \<Rightarrow> index_remove i v rows d')"

definition set_thread_favorite :: "rstr \<Rightarrow> bool \<Rightarrow> thread_disk \<Rightarrow> thread_disk \<times> (store_error + bool)" where
  "set_thread_favorite i b d =
     (case validate_thread_id i of
        Inl e \<Rightarrow> (d, Inl e)
      | Inr _ \<Rightarrow>
          (case load_or_create d of
             (d', Inl e) \<Rightarrow> (d', Inl e)
           | (d', Inr (v, rows)) \<Rightarrow> index_set_favorite i b v rows d'))"

subsection \<open>Titles with owners\<close>

text \<open>The read step of a rename, up to the lock that \<open>save_thread\<close> takes: the thread to be saved, if there is one.\<close>

definition rename_read :: "letters \<Rightarrow> rstr \<Rightarrow> rstr \<Rightarrow> thread_disk \<Rightarrow> thread_disk \<times> (store_error + thread option)" where
  "rename_read u i wanted d =
     (if \<not> title_is_meaningful u (trim wanted) then (d, Inl TitleUnreadable)
      else case validate_thread_id i of
             Inl e \<Rightarrow> (d, Inl e)
           | Inr _ \<Rightarrow>
               if map_of (thread_files d) i = None then (d, Inr None)
               else case load_thread u i d of
                      (d', Inl e) \<Rightarrow> (d', Inl e)
                    | (d', Inr t) \<Rightarrow> (d', Inr (Some (t\<lparr>title := trim wanted, title_is_custom := True, title_is_generated := False\<rparr>))))"

definition generated_read :: "letters \<Rightarrow> rstr \<Rightarrow> rstr \<Rightarrow> thread_disk \<Rightarrow> thread_disk \<times> (store_error + thread option)" where
  "generated_read u i wanted d =
     (if \<not> title_is_meaningful u (trim wanted) then (d, Inl TitleUnreadable)
      else case validate_thread_id i of
             Inl e \<Rightarrow> (d, Inl e)
           | Inr _ \<Rightarrow>
               if map_of (thread_files d) i = None then (d, Inr None)
               else case load_thread u i d of
                      (d', Inl e) \<Rightarrow> (d', Inl e)
                    | (d', Inr t) \<Rightarrow>
                        (d', Inr (if title_is_custom t then None
                                  else Some (t\<lparr>title := trim wanted, title_is_custom := False, title_is_generated := True\<rparr>))))"

text \<open>A snapshot is written back under the lock.\<close>

definition write_back :: "letters \<Rightarrow> thread_disk \<times> (store_error + thread option) \<Rightarrow> thread_disk \<times> (store_error + bool)" where
  "write_back u r =
     (case r of
        (d, Inl e) \<Rightarrow> (d, Inl e)
      | (d, Inr None) \<Rightarrow> (d, Inr False)
      | (d, Inr (Some t)) \<Rightarrow> (case save_thread u t d of (d', Inl e) \<Rightarrow> (d', Inl e) | (d', Inr _) \<Rightarrow> (d', Inr True)))"

definition set_thread_title :: "letters \<Rightarrow> rstr \<Rightarrow> rstr \<Rightarrow> thread_disk \<Rightarrow> thread_disk \<times> (store_error + bool)" where
  "set_thread_title u i wanted d = write_back u (rename_read u i wanted d)"

definition set_generated_title :: "letters \<Rightarrow> rstr \<Rightarrow> rstr \<Rightarrow> thread_disk \<Rightarrow> thread_disk \<times> (store_error + bool)" where
  "set_generated_title u i wanted d = write_back u (generated_read u i wanted d)"

end
