(* ===== verification/Thread_Delivery.thy ===== *)
theory Thread_Delivery
  imports Thread_Store
begin

section \<open>The delivery gateway\<close>

text \<open>
  \<open>core/agent/thread_delivery.rs\<close>: the one write path of completed turns. \<open>deliver\<close> too reads without the lock of the
  store and saves under it, so it is a read step and a save step. The JSON printer is an argument.
\<close>

subsection \<open>Titles and summaries of a turn\<close>

definition MAX_CONSULTATION_MODE :: rstr where "MAX_CONSULTATION_MODE = lit ''max''"

fun extract_text_from_block :: "content_block \<Rightarrow> rstr list" where
  "extract_text_from_block (BText s) = (if trim s \<noteq> [] then [s] else [])"
| "extract_text_from_block (BToolResult cid blocks err) = concat (map extract_text_from_block blocks)"
| "extract_text_from_block b = []"

definition raw_text_from_message :: "message \<Rightarrow> rstr option" where
  "raw_text_from_message m =
     (let s = join_with [10] (concat (map extract_text_from_block (content m))) in if trim s \<noteq> [] then Some s else None)"

definition extract_text_from_message :: "message \<Rightarrow> rstr option" where
  "extract_text_from_message m =
     (let s = join_with [32] (split_whitespace (join_with [32] (concat (map extract_text_from_block (content m)))))
      in if s \<noteq> [] then Some s else None)"

definition BOILERPLATE_LINE_PREFIXES :: "rstr list" where
  "BOILERPLATE_LINE_PREFIXES = [lit ''instrukcja'', lit ''instruction'', lit ''jeste'' @ [347] @ lit '' agentem'',
     lit ''jestes agentem'', lit ''you are an agent'', lit ''system prompt'', lit ''system:'']"

definition is_all_caps_header :: "letters \<Rightarrow> rstr \<Rightarrow> bool" where
  "is_all_caps_header u line \<longleftrightarrow> list_ex (is_alphabetic u) line
     \<and> \<not> list_ex (\<lambda>ch. is_alphabetic u ch \<and> is_lowercase u ch) line"

definition is_boilerplate_line :: "letters \<Rightarrow> rstr \<Rightarrow> bool" where
  "is_boilerplate_line u line \<longleftrightarrow> list_ex (\<lambda>prefix. starts_with prefix (to_lowercase u line)) BOILERPLATE_LINE_PREFIXES
     \<or> is_all_caps_header u line"

definition boilerplate_free :: "letters \<Rightarrow> rstr \<Rightarrow> rstr option" where
  "boilerplate_free u line =
     (let trimmed = trim line
      in if trimmed = [] \<or> is_boilerplate_line u trimmed then None
         else let s = join_with [32] (split_whitespace trimmed) in if s \<noteq> [] then Some s else None)"

definition first_some :: "('a \<Rightarrow> 'b option) \<Rightarrow> 'a list \<Rightarrow> 'b option" where
  "first_some f xs = (case List.map_filter f xs of y # _ \<Rightarrow> Some y | [] \<Rightarrow> None)"

definition strip_boilerplate_title :: "letters \<Rightarrow> rstr \<Rightarrow> rstr option" where
  "strip_boilerplate_title u raw = first_some (boilerplate_free u) (lines raw)"

definition derive_thread_title :: "letters \<Rightarrow> message list \<Rightarrow> rstr" where
  "derive_thread_title u ms =
     (let first_user = find (\<lambda>m. msg_role m = User) ms;
          stripped = Option.bind (Option.bind first_user raw_text_from_message) (strip_boilerplate_title u);
          candidate = unwrap_or DEFAULT_THREAD_TITLE (option_or stripped (Option.bind first_user extract_text_from_message));
          clipped = take 72 candidate
      in if trim clipped = [] then DEFAULT_THREAD_TITLE else clipped)"

definition derive_thread_summary :: "message list \<Rightarrow> rstr option" where
  "derive_thread_summary ms =
     map_option (\<lambda>s. let clipped = take 240 s in if clipped = [] then lit ''Assistant response'' else clipped)
       (Option.bind (find (\<lambda>m. msg_role m = Assistant) (rev ms)) extract_text_from_message)"

definition has_completed_exchange :: "thread_message list \<Rightarrow> bool" where
  "has_completed_exchange ms =
     (case dropWhile (\<lambda>m. \<not> message_is (lit ''user'') m) ms of
        [] \<Rightarrow> False | _ # behind \<Rightarrow> list_ex (message_is (lit ''assistant'')) behind)"

subsection \<open>Delivering\<close>

datatype delivery_source = VoiceAssistive | Composer | MaxConsultation | LegacyFallback | Monitor

record delivery_input =
  di_backend_id :: rstr
  di_messages :: "thread_message list"
  di_provider :: rstr
  di_model :: rstr
  di_source :: delivery_source
  di_mode :: rstr
  di_tags :: "rstr list"
  di_timestamp :: int

record delivery_receipt =
  dr_backend_id :: rstr
  dr_created :: bool
  dr_message_count :: nat
  dr_updated_at :: int
  dr_first_exchange :: bool
  dr_title_eligible :: bool

datatype delivery_error = StoreFailed store_error | MaxConsultationRewrite

definition new_thread :: "delivery_input \<Rightarrow> thread" where
  "new_thread i = \<lparr>thread_id = di_backend_id i, created_at = di_timestamp i, updated_at = di_timestamp i,
     title = DEFAULT_THREAD_TITLE, title_is_custom = False, title_is_generated = False, thread_mode = di_mode i,
     thread_tags = di_tags i, thread_notes = [], thread_messages = [], thread_summary_text = None, total_tokens = None,
     thread_provider = di_provider i, thread_model = di_model i\<rparr>"

definition updated_thread :: "letters \<Rightarrow> (json \<Rightarrow> rstr) \<Rightarrow> delivery_input \<Rightarrow> thread option \<Rightarrow> thread" where
  "updated_thread u print i existing =
     (let t = unwrap_or (new_thread i) existing; ms = map (to_message print) (di_messages i)
      in t\<lparr>updated_at := di_timestamp i,
           title := (if title_is_heuristic t then derive_thread_title u ms else title t),
           thread_summary_text := derive_thread_summary ms, thread_messages := di_messages i,
           thread_provider := di_provider i, thread_model := di_model i, thread_mode := di_mode i, thread_tags := di_tags i\<rparr>)"

definition delivery_receipt_for :: "delivery_input \<Rightarrow> thread option \<Rightarrow> delivery_receipt" where
  "delivery_receipt_for i existing =
     (let first_exchange = has_completed_exchange (di_messages i)
            \<and> \<not> (case existing of Some t \<Rightarrow> has_completed_exchange (thread_messages t) | None \<Rightarrow> False)
      in \<lparr>dr_backend_id = di_backend_id i, dr_created = (existing = None), dr_message_count = length (di_messages i),
          dr_updated_at = di_timestamp i, dr_first_exchange = first_exchange,
          dr_title_eligible = (first_exchange \<and> title_is_heuristic (unwrap_or (new_thread i) existing))\<rparr>)"

text \<open>The read step: the thread as it is found.\<close>

definition find_existing :: "letters \<Rightarrow> rstr \<Rightarrow> thread_disk \<Rightarrow> thread_disk \<times> (store_error + thread option)" where
  "find_existing u i d =
     (case validate_thread_id i of
        Inl e \<Rightarrow> (d, Inl e)
      | Inr _ \<Rightarrow>
          if map_of (thread_files d) i = None then (d, Inr None)
          else case load_thread u i d of (d', Inl e) \<Rightarrow> (d', Inl e) | (d', Inr t) \<Rightarrow> (d', Inr (Some t)))"

definition deliver_read ::
  "letters \<Rightarrow> (json \<Rightarrow> rstr) \<Rightarrow> delivery_input \<Rightarrow> thread_disk \<Rightarrow> thread_disk \<times> (delivery_error + thread \<times> delivery_receipt)" where
  "deliver_read u print i d =
     (case find_existing u (di_backend_id i) d of
        (d', Inl e) \<Rightarrow> (d', Inl (StoreFailed e))
      | (d', Inr existing) \<Rightarrow>
          if (case existing of Some t \<Rightarrow> thread_mode t = MAX_CONSULTATION_MODE \<and> di_mode i \<noteq> MAX_CONSULTATION_MODE | None \<Rightarrow> False)
          then (d', Inl MaxConsultationRewrite)
          else (d', Inr (updated_thread u print i existing, delivery_receipt_for i existing)))"

definition deliver ::
  "letters \<Rightarrow> (json \<Rightarrow> rstr) \<Rightarrow> delivery_input \<Rightarrow> thread_disk \<Rightarrow> thread_disk \<times> (delivery_error + delivery_receipt)" where
  "deliver u print i d =
     (case deliver_read u print i d of
        (d', Inl e) \<Rightarrow> (d', Inl e)
      | (d', Inr (t, receipt)) \<Rightarrow>
          (case save_thread u t d' of (d'', Inl e) \<Rightarrow> (d'', Inl (StoreFailed e)) | (d'', Inr _) \<Rightarrow> (d'', Inr receipt)))"

subsection \<open>Every file operation, file by file\<close>

definition file_of :: "rstr \<Rightarrow> thread_disk \<Rightarrow> thread option" where
  "file_of i d = (case map_of (thread_files d) i of Some f \<Rightarrow> f | None \<Rightarrow> None)"

definition named_files :: "thread_disk \<Rightarrow> bool" where
  "named_files d \<longleftrightarrow> (\<forall>i t. file_of i d = Some t \<longrightarrow> thread_id t = i)"

lemma map_of_put_file [simp]: "map_of (put_file i t fs) = (map_of fs)(i \<mapsto> Some t)"
  by (induction i t fs rule: put_file.induct) auto

lemma map_of_without [simp]: "map_of (filter (\<lambda>(j, _). j \<noteq> i) fs) j = (if j = i then None else map_of fs j)"
  by (induction fs) auto

lemma save_index_files [simp]:
  "thread_files (fst (save_index v rows d)) = thread_files d" "can_write (fst (save_index v rows d)) = can_write d"
  by (simp_all add: save_index_def)

lemma load_or_create_files [simp]:
  "thread_files (fst (load_or_create d)) = thread_files d" "can_write (fst (load_or_create d)) = can_write d"
proof -
  have "thread_files (fst (load_or_create d)) = thread_files d \<and> can_write (fst (load_or_create d)) = can_write d"
    by (auto simp: load_or_create_def save_index_def Let_def split: index_file.split prod.split sum.split)
  then show "thread_files (fst (load_or_create d)) = thread_files d" "can_write (fst (load_or_create d)) = can_write d" by simp_all
qed

lemma index_ops_files [simp]:
  "thread_files (fst (index_add t v rows d)) = thread_files d" "thread_files (fst (index_remove i v rows d)) = thread_files d"
  "thread_files (fst (index_set_favorite i b v rows d)) = thread_files d"
  by (auto simp: index_add_def index_remove_def index_set_favorite_def split: option.split prod.split sum.split)
     (metis fst_conv save_index_files(1))+

lemma normalize_id [simp]: "thread_id (fst (normalize_heuristic_title u t)) = thread_id t"
  by (simp add: normalize_heuristic_title_def)

lemma save_thread_files:
  "thread_files (fst (save_thread u t d)) = thread_files d
    \<or> thread_files (fst (save_thread u t d)) = put_file (thread_id t) (fst (normalize_heuristic_title u t)) (thread_files d)"
proof (cases "validate_thread_id (thread_id t) = Inr () \<and> can_write d")
  case True
  obtain d' r where "load_or_create (d\<lparr>thread_files := put_file (thread_id t) (fst (normalize_heuristic_title u t)) (thread_files d)\<rparr>)
      = (d', r)" by fastforce
  with load_or_create_files(1) [of "d\<lparr>thread_files := put_file (thread_id t) (fst (normalize_heuristic_title u t)) (thread_files d)\<rparr>"]
    True show ?thesis by (cases r) (auto simp: save_thread_def Let_def)
qed (auto simp: save_thread_def Let_def split: sum.split)

lemma save_thread_file:
  "file_of i (fst (save_thread u t d)) = file_of i d
    \<or> i = thread_id t \<and> file_of i (fst (save_thread u t d)) = Some (fst (normalize_heuristic_title u t))"
  using save_thread_files [of u t d] by (auto simp: file_of_def split: if_split_asm)

lemma saved_file:
  assumes "save_thread u t d = (d', Inr r)"
  shows "file_of (thread_id t) d' = Some (fst (normalize_heuristic_title u t))"
proof -
  have g: "validate_thread_id (thread_id t) = Inr ()" "can_write d"
    using assms by (auto simp: save_thread_def Let_def split: sum.splits if_splits)
  obtain d1 r1 where l: "load_or_create (d\<lparr>thread_files := put_file (thread_id t) (fst (normalize_heuristic_title u t)) (thread_files d)\<rparr>)
      = (d1, r1)" by fastforce
  then obtain v rows where "r1 = Inr (v, rows)" "index_add (fst (normalize_heuristic_title u t)) v rows d1 = (d', Inr r)"
    using assms g by (auto simp: save_thread_def Let_def split: sum.splits prod.splits)
  then have "thread_files d' = put_file (thread_id t) (fst (normalize_heuristic_title u t)) (thread_files d)"
    using l load_or_create_files(1) [of "d\<lparr>thread_files := put_file (thread_id t) (fst (normalize_heuristic_title u t)) (thread_files d)\<rparr>"]
      index_ops_files(1) [of "fst (normalize_heuristic_title u t)" v rows d1] by simp
  then show ?thesis by (simp add: file_of_def)
qed

lemma load_thread_raw_file: "load_thread_raw i d = Inr t \<Longrightarrow> file_of i d = Some t"
  by (auto simp: load_thread_raw_def file_of_def split: sum.splits option.splits)

text \<open>The snapshots: where a read step takes the thread it hands on.\<close>

lemma loaded_thread:
  "load_thread u i d = (d', Inr t) \<Longrightarrow> \<exists>t0. file_of i d = Some t0 \<and> t = fst (normalize_heuristic_title u t0)"
  using load_thread_raw_file by (fastforce simp: load_thread_def split: sum.splits prod.splits bool.splits)

lemma existing_thread:
  "find_existing u i d = (d', Inr (Some t)) \<Longrightarrow> \<exists>t0. file_of i d = Some t0 \<and> t = fst (normalize_heuristic_title u t0)"
  "find_existing u i d = (d', Inr None) \<Longrightarrow> file_of i d = None"
  by (auto simp: find_existing_def file_of_def [of _ d] dest!: loaded_thread split: sum.splits prod.splits if_splits)

lemma rename_snapshot:
  "rename_read u i wanted d = (d', Inr (Some t)) \<Longrightarrow> \<exists>t0. file_of i d = Some t0 \<and> title_is_meaningful u (trim wanted)
     \<and> t = (fst (normalize_heuristic_title u t0))\<lparr>title := trim wanted, title_is_custom := True, title_is_generated := False\<rparr>"
  by (fastforce simp: rename_read_def dest!: loaded_thread split: sum.splits prod.splits if_splits)

lemma generated_snapshot:
  "generated_read u i wanted d = (d', Inr (Some t)) \<Longrightarrow> \<exists>t0. file_of i d = Some t0 \<and> title_is_meaningful u (trim wanted)
     \<and> \<not> title_is_custom (fst (normalize_heuristic_title u t0))
     \<and> t = (fst (normalize_heuristic_title u t0))\<lparr>title := trim wanted, title_is_custom := False, title_is_generated := True\<rparr>"
  by (fastforce simp: generated_read_def dest!: loaded_thread split: sum.splits prod.splits if_splits)

lemma deliver_snapshot:
  "deliver_read u print input d = (d', Inr (t, receipt)) \<Longrightarrow>
     \<exists>existing. find_existing u (di_backend_id input) d = (d', Inr existing)
       \<and> (case existing of None \<Rightarrow> True | Some t0 \<Rightarrow> thread_mode t0 = MAX_CONSULTATION_MODE \<longrightarrow> di_mode input = MAX_CONSULTATION_MODE)
       \<and> t = updated_thread u print input existing \<and> receipt = delivery_receipt_for input existing"
  by (auto simp: deliver_read_def split: sum.splits prod.splits if_splits option.splits)

end
