(* ===== verification/Thread_Runs.thy ===== *)
theory Thread_Runs
  imports Thread_Delivery
begin

section \<open>Interleaved use of the thread store\<close>

text \<open>
  The store is used by the rail, by the title generator and by every lane that delivers a turn. An event is a complete
  operation, the read step of one whose snapshot is saved later, that save, or a change of what the disk accepts.
  The snapshots that wait for the lock of \<open>save_thread\<close> are the second component of the state. Deleting and starring
  are single events.
\<close>

datatype store_op =
    OpRename rstr rstr
  | OpGenerate rstr rstr
  | OpDeliver delivery_input
  | OpHeal
  | OpLoad rstr
  | OpFavorite rstr bool
  | OpDelete rstr

datatype store_event = ReadFor store_op | SaveSnapshot nat | Complete store_op | DiskAccepts bool bool

fun snapshot_read :: "letters \<Rightarrow> (json \<Rightarrow> rstr) \<Rightarrow> store_op \<Rightarrow> thread_disk \<Rightarrow> thread_disk \<times> thread list" where
  "snapshot_read u print (OpRename i wanted) d =
     (case rename_read u i wanted d of (d', Inr (Some t)) \<Rightarrow> (d', [t]) | (d', _) \<Rightarrow> (d', []))"
| "snapshot_read u print (OpGenerate i wanted) d =
     (case generated_read u i wanted d of (d', Inr (Some t)) \<Rightarrow> (d', [t]) | (d', _) \<Rightarrow> (d', []))"
| "snapshot_read u print (OpDeliver input) d =
     (case deliver_read u print input d of (d', Inr (t, _)) \<Rightarrow> (d', [t]) | (d', _) \<Rightarrow> (d', []))"
| "snapshot_read u print op d = (d, [])"

fun run_op :: "letters \<Rightarrow> (json \<Rightarrow> rstr) \<Rightarrow> store_op \<Rightarrow> thread_disk \<Rightarrow> thread_disk" where
  "run_op u print (OpRename i wanted) d = fst (set_thread_title u i wanted d)"
| "run_op u print (OpGenerate i wanted) d = fst (set_generated_title u i wanted d)"
| "run_op u print (OpDeliver input) d = fst (deliver u print input d)"
| "run_op u print OpHeal d = fst (heal_degenerate_titles u d)"
| "run_op u print (OpLoad i) d = fst (load_thread u i d)"
| "run_op u print (OpFavorite i b) d = fst (set_thread_favorite i b d)"
| "run_op u print (OpDelete i) d = fst (delete_thread i d)"

fun store_step :: "letters \<Rightarrow> (json \<Rightarrow> rstr) \<Rightarrow> store_event \<Rightarrow> thread_disk \<times> thread list \<Rightarrow> thread_disk \<times> thread list" where
  "store_step u print (ReadFor op) (d, ts) = (case snapshot_read u print op d of (d', ts') \<Rightarrow> (d', ts @ ts'))"
| "store_step u print (SaveSnapshot n) (d, ts) =
     (if n < length ts then (fst (save_thread u (ts ! n) d), take n ts @ drop (Suc n) ts) else (d, ts))"
| "store_step u print (Complete op) (d, ts) = (run_op u print op d, ts)"
| "store_step u print (DiskAccepts files index) (d, ts) = (d\<lparr>can_write := files, can_index := index\<rparr>, ts)"

definition store_run :: "letters \<Rightarrow> (json \<Rightarrow> rstr) \<Rightarrow> store_event list \<Rightarrow> thread_disk \<times> thread list \<Rightarrow> thread_disk \<times> thread list" where
  "store_run u print events s = fold (store_step u print) events s"

definition disk_after :: "letters \<Rightarrow> (json \<Rightarrow> rstr) \<Rightarrow> store_event list \<Rightarrow> thread_disk \<Rightarrow> thread_disk" where
  "disk_after u print events d = fst (store_run u print events (d, []))"

subsection \<open>The contract of an invariant of the disk\<close>

lemma snapshot_read_disk [simp]:
  "fst (snapshot_read u print (OpRename i wanted) d) = fst (rename_read u i wanted d)"
  "fst (snapshot_read u print (OpGenerate i wanted) d) = fst (generated_read u i wanted d)"
  "fst (snapshot_read u print (OpDeliver input) d) = fst (deliver_read u print input d)"
  by (auto split: prod.split sum.split option.split)

text \<open>A complete operation is its read step and the save of its snapshot.\<close>

lemma run_op_splits:
  assumes "op = OpRename i wanted \<or> op = OpGenerate i wanted \<or> op = OpDeliver input"
  shows "run_op u print op d =
    (case snapshot_read u print op d of (d', []) \<Rightarrow> d' | (d', t # _) \<Rightarrow> fst (save_thread u t d'))"
  using assms
  by (auto simp: set_thread_title_def set_generated_title_def write_back_def deliver_def
      split: prod.split sum.split option.split list.split if_splits)

text \<open>
  \<open>holds\<close> is the property of the disk, \<open>snap\<close> what makes a snapshot safe to be saved at any later time, \<open>allowed\<close> the
  events of the run. The laws speak of the primitives of the store only; the operations built on them follow.
\<close>

locale disk_invariant =
  fixes u :: letters and print :: "json \<Rightarrow> rstr" and holds :: "thread_disk \<Rightarrow> bool" and snap :: "thread \<Rightarrow> bool"
    and allowed :: "store_event \<Rightarrow> bool"
  assumes created: "holds d \<Longrightarrow> holds (fst (load_or_create d))"
    and starred: "holds d \<Longrightarrow> holds (fst (set_thread_favorite i b d))"
    and saves: "holds d \<Longrightarrow> snap t \<Longrightarrow> holds (fst (save_thread u t d))"
    and stored: "holds d \<Longrightarrow> file_of i d = Some t \<Longrightarrow> snap (fst (normalize_heuristic_title u t))"
    and taken: "holds d \<Longrightarrow> allowed (ReadFor op) \<or> allowed (Complete op) \<Longrightarrow> snapshot_read u print op d = (d', ts) \<Longrightarrow> list_all snap ts"
    and deleted: "holds d \<Longrightarrow> allowed (Complete (OpDelete i)) \<Longrightarrow> holds (fst (delete_thread i d))"
    and accepts: "holds d \<Longrightarrow> allowed (DiskAccepts a b) \<Longrightarrow> holds (d\<lparr>can_write := a, can_index := b\<rparr>)"
begin

lemma heal_keeps: "holds d \<Longrightarrow> holds (fst (heal_thread u i d))"
proof (cases "load_thread_raw i d")
  case (Inr t)
  assume d: "holds d"
  have "holds (fst (save_thread u (fst (normalize_heuristic_title u t)) d))"
    using saves [OF d] stored [OF d load_thread_raw_file [OF Inr]] by blast
  then show ?thesis using Inr d
    by (cases "normalize_heuristic_title u t") (auto simp: heal_thread_def split: prod.split bool.split sum.split)
qed (simp add: heal_thread_def)

lemma heal_threads_keeps: "holds d \<Longrightarrow> holds (fst (heal_threads u is d))"
proof (induction "is" arbitrary: d)
  case (Cons i "is")
  have "fst (heal_threads u (i # is) d) = fst (heal_threads u is (fst (heal_thread u i d)))" by (simp add: split_beta)
  then show ?case using Cons.IH [OF heal_keeps [OF Cons.prems]] by simp
qed simp

lemma heal_degenerate_keeps: "holds d \<Longrightarrow> holds (fst (heal_degenerate_titles u d))"
  using created [of d] heal_threads_keeps [of "fst (load_or_create d)"]
  by (cases "load_or_create d") (simp add: heal_degenerate_titles_def split_beta split: sum.split)

lemma load_keeps: "holds d \<Longrightarrow> holds (fst (load_thread u i d))"
  using heal_keeps [of d i] by (auto simp: load_thread_def split: sum.split prod.split bool.split)

lemma existing_keeps: "holds d \<Longrightarrow> holds (fst (find_existing u i d))"
  using load_keeps [of d i] by (auto simp: find_existing_def split: sum.splits prod.splits if_splits)

lemma reads_keep:
  assumes "holds d"
  shows "holds (fst (rename_read u i wanted d))" "holds (fst (generated_read u i wanted d))"
    "holds (fst (deliver_read u print input d))"
  using load_keeps [OF assms, of i] existing_keeps [OF assms, of "di_backend_id input"] assms
  by (auto simp: rename_read_def generated_read_def deliver_read_def split: sum.split prod.split option.split if_splits)

lemma snapshot_read_keeps: "holds d \<Longrightarrow> holds (fst (snapshot_read u print op d))"
  using reads_keep [of d] by (cases op) (simp_all del: snapshot_read.simps(1,2,3))

lemma run_op_keeps:
  assumes "holds d" and "allowed (Complete op)"
  shows "holds (run_op u print op d)"
proof -
  obtain d' ts where s: "snapshot_read u print op d = (d', ts)" by fastforce
  have d': "holds d'" and ts: "list_all snap ts"
    using snapshot_read_keeps [OF assms(1), of op] taken [OF assms(1) _ s] assms(2) s by auto
  have "holds (case ts of [] \<Rightarrow> d' | t # _ \<Rightarrow> fst (save_thread u t d'))"
    using d' ts saves by (cases ts) auto
  then show ?thesis
    using run_op_splits [of op] s heal_degenerate_keeps [OF assms(1)] load_keeps [OF assms(1)] starred [OF assms(1)]
      deleted [OF assms(1)] assms(2)
    by (cases op) (force split: list.splits)+
qed

lemma step_keeps:
  assumes "holds d" and "list_all snap ts" and "allowed event"
  shows "holds (fst (store_step u print event (d, ts))) \<and> list_all snap (snd (store_step u print event (d, ts)))"
proof (cases event)
  case (ReadFor op)
  obtain d' ts' where s: "snapshot_read u print op d = (d', ts')" by fastforce
  then show ?thesis using ReadFor snapshot_read_keeps [OF assms(1), of op] taken [OF assms(1) _ s] assms by auto
next
  case (SaveSnapshot n)
  then show ?thesis using saves [OF assms(1)] assms
    by (auto simp: list_all_iff dest: in_set_takeD in_set_dropD)
next
  case (Complete op)
  then show ?thesis using run_op_keeps assms by simp
next
  case (DiskAccepts a b)
  then show ?thesis using accepts assms by simp
qed

lemma run_keeps: "holds d \<Longrightarrow> list_all snap ts \<Longrightarrow> list_all allowed events
  \<Longrightarrow> holds (fst (store_run u print events (d, ts))) \<and> list_all snap (snd (store_run u print events (d, ts)))"
proof (induction events arbitrary: d ts)
  case (Cons event events)
  then show ?case using step_keeps [of d ts event]
    by (cases "store_step u print event (d, ts)") (simp add: store_run_def)
qed (simp add: store_run_def)

lemma disk_keeps: "holds d \<Longrightarrow> list_all allowed events \<Longrightarrow> holds (disk_after u print events d)"
  using run_keeps [of d "[]" events] by (simp add: disk_after_def)

end

subsection \<open>Invariants of the files\<close>

text \<open>An invariant that looks at the files one by one, \<open>None\<close> where no thread can be read.\<close>

definition every_file :: "(rstr \<Rightarrow> thread option \<Rightarrow> bool) \<Rightarrow> thread_disk \<Rightarrow> bool" where
  "every_file P d \<longleftrightarrow> (\<forall>i. P i (file_of i d))"

lemma every_fileD: "every_file P d \<Longrightarrow> file_of i d = f \<Longrightarrow> P i f"
  by (auto simp: every_file_def)

lemma every_file_cong: "thread_files d = thread_files d' \<Longrightarrow> every_file P d = every_file P d'"
  by (simp add: every_file_def file_of_def)

lemma every_file_frame [simp]:
  "every_file P (fst (index_add t v rows d)) = every_file P d" "every_file P (fst (index_remove i v rows d)) = every_file P d"
  "every_file P (fst (index_set_favorite i b v rows d)) = every_file P d" "every_file P (fst (load_or_create d)) = every_file P d"
  "every_file P (d\<lparr>can_write := a, can_index := b\<rparr>) = every_file P d"
  by (rule every_file_cong, simp)+

lemma every_file_without:
  "every_file P d \<Longrightarrow> P i None \<Longrightarrow> every_file P (d\<lparr>thread_files := filter (\<lambda>(j, _). j \<noteq> i) (thread_files d)\<rparr>)"
  by (simp add: every_file_def file_of_def)

locale kept_files =
  fixes u :: letters and print :: "json \<Rightarrow> rstr" and kept :: "rstr \<Rightarrow> thread option \<Rightarrow> bool" and snap :: "thread \<Rightarrow> bool"
    and allowed :: "store_event \<Rightarrow> bool"
  assumes kept_stored: "kept i (Some t) \<Longrightarrow> snap (fst (normalize_heuristic_title u t))"
    and kept_saved: "snap t \<Longrightarrow> kept (thread_id t) (Some (fst (normalize_heuristic_title u t)))"
    and kept_taken: "every_file kept d \<Longrightarrow> allowed (ReadFor op) \<or> allowed (Complete op) \<Longrightarrow> snapshot_read u print op d = (d', ts) \<Longrightarrow> list_all snap ts"
    and kept_deleted: "allowed (Complete (OpDelete i)) \<Longrightarrow> kept i None"

sublocale kept_files \<subseteq> disk_invariant u print "every_file kept" snap allowed
proof unfold_locales
  fix d i b
  assume "every_file kept d"
  then show "every_file kept (fst (set_thread_favorite i b d))"
    using every_file_frame(4) [of kept d]
    by (cases "load_or_create d") (simp add: set_thread_favorite_def split_beta split: sum.split)
next
  fix d t
  assume "every_file kept d" "snap t"
  then show "every_file kept (fst (save_thread u t d))"
    using save_thread_file [of _ u t d] kept_saved unfolding every_file_def by metis
next
  fix d i
  assume d: "every_file kept d" and del: "allowed (Complete (OpDelete i))"
  have n: "kept i None" using del by (rule kept_deleted)
  show "every_file kept (fst (delete_thread i d))"
    using d every_file_without [OF d n] every_file_frame(4) [of kept "d\<lparr>thread_files := filter (\<lambda>(j, _). j \<noteq> i) (thread_files d)\<rparr>"]
    by (cases "load_or_create (d\<lparr>thread_files := filter (\<lambda>(j, _). j \<noteq> i) (thread_files d)\<rparr>)")
      (simp add: delete_thread_def split_beta split: sum.split)
qed (auto dest: every_fileD intro: kept_stored kept_taken)

subsection \<open>Readable titles\<close>

definition readable_file :: "letters \<Rightarrow> rstr \<Rightarrow> thread option \<Rightarrow> bool" where
  "readable_file u i f \<longleftrightarrow> (letters_ok u \<longrightarrow> (case f of None \<Rightarrow> True | Some t \<Rightarrow> title_is_meaningful u (title t)))"

definition titled_snapshot :: "letters \<Rightarrow> thread \<Rightarrow> bool" where
  "titled_snapshot u t \<longleftrightarrow> (letters_ok u \<longrightarrow> title_is_heuristic t \<or> title_is_meaningful u (title t))"

lemma titled_snapshot_saved: "titled_snapshot u t \<Longrightarrow> readable_file u i (Some (fst (normalize_heuristic_title u t)))"
  using normalized_title(1,2,3) [of u t] by (auto simp: titled_snapshot_def readable_file_def)

lemma readable_file_read: "readable_file u i (Some t) \<Longrightarrow> titled_snapshot u (fst (normalize_heuristic_title u t))"
  using normalized_title(1,2,3) [of u t] by (auto simp: titled_snapshot_def readable_file_def normalize_heuristic_title_def)

lemma updated_heuristic: "title_is_heuristic (updated_thread u print input existing) = title_is_heuristic (unwrap_or (new_thread input) existing)"
  by (simp add: updated_thread_def Let_def title_is_heuristic_def)

lemma updated_kept_title:
  "\<not> title_is_heuristic t \<Longrightarrow> title (updated_thread u print input (Some t)) = title t
     \<and> title_is_custom (updated_thread u print input (Some t)) = title_is_custom t"
  by (simp add: updated_thread_def Let_def unwrap_or_def)

lemma delivered_titled:
  assumes "every_file (readable_file u) d" and "deliver_read u print input d = (d', Inr (t, receipt))"
  shows "titled_snapshot u t"
proof -
  obtain existing where e: "find_existing u (di_backend_id input) d = (d', Inr existing)" "t = updated_thread u print input existing"
    using deliver_snapshot [OF assms(2)] by blast
  show ?thesis
  proof (cases existing)
    case None
    then show ?thesis using e(2) updated_heuristic [of u print input None]
      by (simp add: titled_snapshot_def title_is_heuristic_def new_thread_def unwrap_or_def)
  next
    case (Some t0)
    then obtain t1 where "file_of (di_backend_id input) d = Some t1" "t0 = fst (normalize_heuristic_title u t1)"
      using existing_thread(1) e(1) by blast
    then have "titled_snapshot u t0" using every_fileD [OF assms(1)] readable_file_read by blast
    then show ?thesis using e(2) Some updated_heuristic [of u print input existing] updated_kept_title [of t0 u print input]
      by (auto simp: titled_snapshot_def unwrap_or_def)
  qed
qed

lemma taken_titled:
  assumes "every_file (readable_file u) d" and "snapshot_read u print op d = (d', ts)"
  shows "list_all (titled_snapshot u) ts"
  using assms(2) delivered_titled [OF assms(1)]
  by (cases op) (auto simp: titled_snapshot_def dest!: rename_snapshot generated_snapshot split: prod.splits sum.splits option.splits)

interpretation titled: kept_files u print "readable_file u" "titled_snapshot u" "\<lambda>_. True" for u print
  by unfold_locales (auto simp: titled_snapshot_saved readable_file_read intro: taken_titled, simp add: readable_file_def)

text \<open>C24. However the store is used - renames, generated titles, deliveries of any lane, repairs, loads, stars and
  deletions, complete or with any other event between their read and their save, and with a disk that refuses
  writes at any time - every stored thread keeps a readable title: no marker of a delegated prompt and at least one
  alphanumeric character.
\<close>

theorem stored_titles_stay_readable:
  assumes "letters_ok u"
    and "\<And>i t. file_of i d = Some t \<Longrightarrow> title_is_meaningful u (title t)"
  shows "file_of i (disk_after u print events d) = Some t \<Longrightarrow> title_is_meaningful u (title t)"
proof -
  assume t: "file_of i (disk_after u print events d) = Some t"
  have "every_file (readable_file u) d" using assms(2) by (simp add: every_file_def readable_file_def split: option.split)
  then have "every_file (readable_file u) (disk_after u print events d)" by (rule titled.disk_keeps) (simp add: list_all_iff)
  from every_fileD [OF this t] show ?thesis using assms(1) by (simp add: readable_file_def)
qed

subsection \<open>What a thread keeps for life\<close>

fun operation_of :: "store_event \<Rightarrow> store_op option" where
  "operation_of (ReadFor op) = Some op"
| "operation_of (Complete op) = Some op"
| "operation_of _ = None"

definition never_deletes :: "rstr \<Rightarrow> store_event \<Rightarrow> bool" where
  "never_deletes i event \<longleftrightarrow> (case operation_of event of Some (OpDelete j) \<Rightarrow> j \<noteq> i | _ \<Rightarrow> True)"

definition never_renames :: "rstr \<Rightarrow> store_event \<Rightarrow> bool" where
  "never_renames i event \<longleftrightarrow> (case operation_of event of Some (OpRename j _) \<Rightarrow> j \<noteq> i | _ \<Rightarrow> True)"

text \<open>A property \<open>Q\<close> of one thread, kept by every way the store rewrites a thread.\<close>

definition pinned :: "rstr \<Rightarrow> (thread \<Rightarrow> bool) \<Rightarrow> rstr \<Rightarrow> thread option \<Rightarrow> bool" where
  "pinned i0 Q i f \<longleftrightarrow> (case f of None \<Rightarrow> i \<noteq> i0 | Some t \<Rightarrow> thread_id t = i \<and> (i = i0 \<longrightarrow> Q t))"

lemma pinnedD: "every_file (pinned i0 Q) d \<Longrightarrow> \<exists>t. file_of i0 d = Some t \<and> Q t"
  by (cases "file_of i0 d") (auto simp: pinned_def dest: every_fileD)

locale pinned_thread =
  fixes u :: letters and print :: "json \<Rightarrow> rstr" and i0 :: rstr and Q :: "thread \<Rightarrow> bool" and allowed :: "store_event \<Rightarrow> bool"
  assumes Q_repaired: "Q t \<Longrightarrow> Q (fst (normalize_heuristic_title u t))"
    and Q_renamed: "Q t \<Longrightarrow> allowed (ReadFor (OpRename i0 wanted)) \<or> allowed (Complete (OpRename i0 wanted))
      \<Longrightarrow> Q (t\<lparr>title := trim wanted, title_is_custom := True, title_is_generated := False\<rparr>)"
    and Q_generated: "Q t \<Longrightarrow> \<not> title_is_custom t \<Longrightarrow> Q (t\<lparr>title := trim wanted, title_is_custom := False, title_is_generated := True\<rparr>)"
    and Q_delivered: "Q t \<Longrightarrow> thread_mode t = MAX_CONSULTATION_MODE \<longrightarrow> di_mode input = MAX_CONSULTATION_MODE
      \<Longrightarrow> Q (updated_thread u print input (Some t))"
    and Q_deleted: "allowed event \<Longrightarrow> never_deletes i0 event"
begin

lemma pinned_read:
  assumes "every_file (pinned i0 Q) d" and "file_of i d = Some t"
  shows "thread_id t = i" and "i = i0 \<longrightarrow> Q (fst (normalize_heuristic_title u t))"
  using every_fileD [OF assms] Q_repaired by (auto simp: pinned_def)

lemma delivered_pinned:
  assumes "every_file (pinned i0 Q) d" and "deliver_read u print input d = (d', Inr (t, receipt))"
  shows "thread_id t = i0 \<longrightarrow> Q t"
proof -
  obtain existing where e: "find_existing u (di_backend_id input) d = (d', Inr existing)" "t = updated_thread u print input existing"
    "case existing of None \<Rightarrow> True | Some t0 \<Rightarrow> thread_mode t0 = MAX_CONSULTATION_MODE \<longrightarrow> di_mode input = MAX_CONSULTATION_MODE"
    using deliver_snapshot [OF assms(2)] by blast
  show ?thesis
  proof (cases existing)
    case None
    then have "file_of (di_backend_id input) d = None" using e(1) existing_thread(2) by blast
    then have "di_backend_id input \<noteq> i0" using pinnedD [OF assms(1)] by auto
    then show ?thesis using e(2) None by (simp add: updated_thread_def Let_def new_thread_def unwrap_or_def)
  next
    case (Some t0)
    then obtain t1 where t1: "file_of (di_backend_id input) d = Some t1" "t0 = fst (normalize_heuristic_title u t1)"
      using existing_thread(1) e(1) by blast
    have "thread_id t = di_backend_id input"
      using pinned_read(1) [OF assms(1) t1(1)] t1(2) e(2) Some by (simp add: updated_thread_def Let_def unwrap_or_def)
    then show ?thesis using pinned_read(2) [OF assms(1) t1(1)] t1(2) e(2,3) Some Q_delivered by auto
  qed
qed

lemma taken_pinned:
  assumes "every_file (pinned i0 Q) d" and "allowed (ReadFor op) \<or> allowed (Complete op)" and "snapshot_read u print op d = (d', ts)"
  shows "list_all (\<lambda>t. thread_id t = i0 \<longrightarrow> Q t) ts"
proof (cases op)
  case (OpRename i wanted)
  then show ?thesis using assms pinned_read [OF assms(1), of i] Q_renamed
    by (force dest!: rename_snapshot split: prod.splits sum.splits option.splits)
next
  case (OpGenerate i wanted)
  then show ?thesis using assms pinned_read [OF assms(1), of i] Q_generated
    by (force dest!: generated_snapshot split: prod.splits sum.splits option.splits)
next
  case (OpDeliver input)
  then show ?thesis using assms(3) delivered_pinned [OF assms(1), of input] by (auto split: prod.splits sum.splits)
qed (use assms(3) in simp_all)

end

sublocale pinned_thread \<subseteq> kept_files u print "pinned i0 Q" "\<lambda>t. thread_id t = i0 \<longrightarrow> Q t" allowed
proof unfold_locales
  fix op d d' ts
  assume "every_file (pinned i0 Q) d" "allowed (ReadFor op) \<or> allowed (Complete op)" "snapshot_read u print op d = (d', ts)"
  then show "list_all (\<lambda>t. thread_id t = i0 \<longrightarrow> Q t) ts" by (rule taken_pinned)
qed (auto simp: pinned_def never_deletes_def intro: Q_repaired dest: Q_deleted)

interpretation owned: pinned_thread u print i0 "\<lambda>t. title_is_custom t \<and> title t = wanted_title"
    "\<lambda>event. never_deletes i0 event \<and> never_renames i0 event" for u print i0 wanted_title
  by unfold_locales
    (auto simp: never_renames_def normalize_heuristic_title_def title_is_heuristic_def updated_thread_def Let_def unwrap_or_def)

interpretation consultation: pinned_thread u print i0 "\<lambda>t. thread_mode t = MAX_CONSULTATION_MODE" "never_deletes i0" for u print i0
  by unfold_locales (auto simp: normalize_heuristic_title_def updated_thread_def Let_def unwrap_or_def)

lemma pinned_start:
  "named_files d \<Longrightarrow> file_of i0 d = Some t \<Longrightarrow> Q t \<Longrightarrow> every_file (pinned i0 Q) d"
  by (auto simp: every_file_def pinned_def named_files_def split: option.split)

text \<open>A title the operator chose stays: after any interleaving of deliveries, generated titles, repairs, loads, stars,
  and renames and deletions of other threads, the thread is still stored under that very title and still owned.
\<close>

theorem chosen_title_stays:
  assumes "named_files d" and "file_of i d = Some t" and "title_is_custom t"
    and "\<forall>event \<in> set events. never_deletes i event \<and> never_renames i event"
  shows "\<exists>t'. file_of i (disk_after u print events d) = Some t' \<and> title_is_custom t' \<and> title t' = title t"
proof -
  have "every_file (pinned i (\<lambda>t'. title_is_custom t' \<and> title t' = title t)) (disk_after u print events d)"
    using assms by (intro owned.disk_keeps pinned_start) (auto simp: list_all_iff)
  then show ?thesis by (rule pinnedD)
qed

text \<open>A Max consultation keeps its mode for life: no interleaving of store operations that does not delete the thread
  leaves it in another mode, whichever lanes deliver to it.
\<close>

theorem consultation_stays_consultation:
  assumes "named_files d" and "file_of i d = Some t" and "thread_mode t = MAX_CONSULTATION_MODE"
    and "\<forall>event \<in> set events. never_deletes i event"
  shows "\<exists>t'. file_of i (disk_after u print events d) = Some t' \<and> thread_mode t' = MAX_CONSULTATION_MODE"
proof -
  have "every_file (pinned i (\<lambda>t'. thread_mode t' = MAX_CONSULTATION_MODE)) (disk_after u print events d)"
    using assms by (intro consultation.disk_keeps pinned_start) (auto simp: list_all_iff)
  then show ?thesis by (rule pinnedD)
qed

subsection \<open>Concrete stores\<close>

text \<open>A save on a disk that accepts files, whatever becomes of the index.\<close>

lemma save_stores:
  assumes "validate_thread_id (thread_id t) = Inr ()" and "can_write d"
  shows "file_of j (fst (save_thread u t d)) = (if j = thread_id t then Some (fst (normalize_heuristic_title u t)) else file_of j d)"
proof -
  obtain d1 r1 where l: "load_or_create (d\<lparr>thread_files := put_file (thread_id t) (fst (normalize_heuristic_title u t)) (thread_files d)\<rparr>)
      = (d1, r1)" by fastforce
  then have "thread_files d1 = put_file (thread_id t) (fst (normalize_heuristic_title u t)) (thread_files d)"
    using load_or_create_files(1) [of "d\<lparr>thread_files := put_file (thread_id t) (fst (normalize_heuristic_title u t)) (thread_files d)\<rparr>"] by simp
  then have "thread_files (fst (save_thread u t d)) = put_file (thread_id t) (fst (normalize_heuristic_title u t)) (thread_files d)"
    using assms l by (cases r1) (auto simp: save_thread_def Let_def)
  then show ?thesis by (simp add: file_of_def)
qed

lemma save_keeps_write [simp]: "can_write (fst (save_thread u t d)) = can_write d"
proof (cases "validate_thread_id (thread_id t) = Inr () \<and> can_write d")
  case True
  obtain d1 r1 where l: "load_or_create (d\<lparr>thread_files := put_file (thread_id t) (fst (normalize_heuristic_title u t)) (thread_files d)\<rparr>)
      = (d1, r1)" by fastforce
  then have "can_write d1 = can_write d"
    using load_or_create_files(2) [of "d\<lparr>thread_files := put_file (thread_id t) (fst (normalize_heuristic_title u t)) (thread_files d)\<rparr>"] by simp
  then show ?thesis using True l by (cases r1) (auto simp: save_thread_def Let_def index_add_def)
qed (auto simp: save_thread_def Let_def split: sum.split)

definition ascii_letters :: letters where
  "ascii_letters = \<lparr>is_alphanumeric = is_ascii_alphanumeric, to_lowercase = to_ascii_lowercase,
     is_alphabetic = (\<lambda>c. is_ascii_alphanumeric c \<and> 65 \<le> c), is_lowercase = (\<lambda>c. 97 \<le> c \<and> c \<le> 122)\<rparr>"

definition sample_turn :: "thread_message list \<Rightarrow> delivery_input" where
  "sample_turn ms = \<lparr>di_backend_id = lit ''t_1'', di_messages = ms, di_provider = lit ''openai'', di_model = lit ''gpt'',
     di_source = Composer, di_mode = lit ''assistive'', di_tags = [], di_timestamp = 7\<rparr>"

definition reply :: thread_message where
  "reply = \<lparr>tm_role = lit ''assistant'', tm_content = [], tm_timestamp = 0, tm_metadata = None\<rparr>"

definition short_thread :: thread where
  "short_thread = (new_thread (sample_turn [reply]))\<lparr>thread_messages := [reply]\<rparr>"

definition small_store :: thread_disk where
  "small_store = \<lparr>thread_files = [(lit ''t_1'', Some short_thread)], index_file = IndexAbsent, can_write = True, can_index = True\<rparr>"

lemma ascii_letters_ok: "letters_ok ascii_letters"
  by (simp add: letters_ok_def ascii_letters_def is_ascii_alphanumeric_def)

lemma small_names: "validate_thread_id (lit ''t_1'') = Inr ()" "trim (lit ''Mine'') = lit ''Mine''" "title_is_meaningful ascii_letters (lit ''Mine'')"
  by (simp_all add: validate_thread_id_def title_is_meaningful_def ascii_letters_def trim_def lit_def is_whitespace_def
      starts_with_def is_ascii_alphanumeric_def)

lemma to_reply: "to_message print reply = \<lparr>msg_role = Assistant, content = []\<rparr>"
  by (simp add: to_message_def reply_def role_from_string_def to_ascii_lowercase_def ascii_lower_def lit_def)

lemma trim_default: "trim DEFAULT_THREAD_TITLE = DEFAULT_THREAD_TITLE"
  by (simp add: DEFAULT_THREAD_TITLE_def lit_def trim_def is_whitespace_def)

lemma replies_untitled:
  "derive_thread_title u [to_message print reply] = DEFAULT_THREAD_TITLE"
  "derive_thread_title u [to_message print reply, to_message print reply] = DEFAULT_THREAD_TITLE"
proof -
  have "take 72 DEFAULT_THREAD_TITLE = DEFAULT_THREAD_TITLE" "DEFAULT_THREAD_TITLE \<noteq> []"
    by (simp_all add: DEFAULT_THREAD_TITLE_def lit_def)
  then show "derive_thread_title u [to_message print reply] = DEFAULT_THREAD_TITLE"
    "derive_thread_title u [to_message print reply, to_message print reply] = DEFAULT_THREAD_TITLE"
    by (simp_all add: derive_thread_title_def to_reply trim_default unwrap_or_def Let_def)
qed

lemma normal_default:
  "title t = DEFAULT_THREAD_TITLE \<or> \<not> title_is_heuristic t \<Longrightarrow> normalize_heuristic_title ascii_letters t = (t, False)"
  using default_title_meaningful [OF ascii_letters_ok] by (auto simp: normalize_heuristic_title_def)

definition renamed :: "thread \<Rightarrow> thread" where
  "renamed t = t\<lparr>title := lit ''Mine'', title_is_custom := True, title_is_generated := False\<rparr>"

definition second_turn :: "(json \<Rightarrow> rstr) \<Rightarrow> thread" where
  "second_turn print = updated_thread ascii_letters print (sample_turn [reply, reply]) (Some short_thread)"

lemma short_thread_fields [simp]:
  "thread_id short_thread = lit ''t_1''" "title short_thread = DEFAULT_THREAD_TITLE" "thread_messages short_thread = [reply]"
  "title_is_heuristic short_thread" "thread_mode short_thread = lit ''assistive''"
  by (simp_all add: short_thread_def new_thread_def sample_turn_def title_is_heuristic_def)

lemma second_turn_fields [simp]:
  "thread_id (second_turn print) = lit ''t_1''" "title (second_turn print) = DEFAULT_THREAD_TITLE"
  "thread_messages (second_turn print) = [reply, reply]" "title_is_custom (second_turn print) = False"
proof -
  have "\<not> title_is_custom short_thread" using short_thread_fields(4) by (simp add: title_is_heuristic_def del: short_thread_fields)
  then show "thread_id (second_turn print) = lit ''t_1''" "title (second_turn print) = DEFAULT_THREAD_TITLE"
    "thread_messages (second_turn print) = [reply, reply]" "title_is_custom (second_turn print) = False"
    by (simp_all add: second_turn_def updated_thread_def Let_def unwrap_or_def) (simp_all add: sample_turn_def replies_untitled)
qed

lemma renamed_fields [simp]:
  "thread_id (renamed t) = thread_id t" "title (renamed t) = lit ''Mine''" "thread_messages (renamed t) = thread_messages t"
  "title_is_custom (renamed t)" "\<not> title_is_heuristic (renamed t)"
  by (simp_all add: renamed_def title_is_heuristic_def)

lemma small_reads:
  "rename_read ascii_letters (lit ''t_1'') (lit ''Mine'') small_store = (small_store, Inr (Some (renamed short_thread)))"
  "\<exists>r. deliver_read ascii_letters print (sample_turn [reply, reply]) small_store = (small_store, Inr (second_turn print, r))"
proof -
  have l: "load_thread ascii_letters (lit ''t_1'') small_store = (small_store, Inr short_thread)"
    by (simp add: load_thread_def load_thread_raw_def small_names small_store_def normal_default)
  have p: "map_of (thread_files small_store) (lit ''t_1'') \<noteq> None" by (simp add: small_store_def)
  show "rename_read ascii_letters (lit ''t_1'') (lit ''Mine'') small_store = (small_store, Inr (Some (renamed short_thread)))"
    using p by (simp add: rename_read_def small_names l renamed_def)
  have "find_existing ascii_letters (lit ''t_1'') small_store = (small_store, Inr (Some short_thread))"
    using p by (simp add: find_existing_def small_names l)
  then show "\<exists>r. deliver_read ascii_letters print (sample_turn [reply, reply]) small_store = (small_store, Inr (second_turn print, r))"
    by (simp add: deliver_read_def second_turn_def MAX_CONSULTATION_MODE_def lit_def) (simp add: sample_turn_def lit_def)
qed

lemma small_saves:
  assumes "thread_id t = lit ''t_1''" "title t = DEFAULT_THREAD_TITLE \<or> \<not> title_is_heuristic t" "can_write d"
  shows "file_of (lit ''t_1'') (fst (save_thread ascii_letters t d)) = Some t"
  using save_stores [of t d] assms small_names(1) normal_default [OF assms(2)] by simp

lemma small_runs:
  "file_of (lit ''t_1'') (disk_after ascii_letters print
     [ReadFor (OpRename (lit ''t_1'') (lit ''Mine'')), Complete (OpDeliver (sample_turn [reply, reply])), SaveSnapshot 0] small_store)
     = Some (renamed short_thread)"
  "file_of (lit ''t_1'') (disk_after ascii_letters print
     [ReadFor (OpDeliver (sample_turn [reply, reply])), Complete (OpRename (lit ''t_1'') (lit ''Mine'')), SaveSnapshot 0] small_store)
     = Some (second_turn print)"
proof -
  obtain r where d: "deliver_read ascii_letters print (sample_turn [reply, reply]) small_store = (small_store, Inr (second_turn print, r))"
    using small_reads(2) by blast
  have w: "can_write small_store" by (simp add: small_store_def)
  have ops: "run_op ascii_letters print (OpDeliver (sample_turn [reply, reply])) small_store = fst (save_thread ascii_letters (second_turn print) small_store)"
    "run_op ascii_letters print (OpRename (lit ''t_1'') (lit ''Mine'')) small_store = fst (save_thread ascii_letters (renamed short_thread) small_store)"
    by (simp_all add: run_op_splits small_reads(1) d del: run_op.simps)
  show "file_of (lit ''t_1'') (disk_after ascii_letters print
     [ReadFor (OpRename (lit ''t_1'') (lit ''Mine'')), Complete (OpDeliver (sample_turn [reply, reply])), SaveSnapshot 0] small_store)
     = Some (renamed short_thread)"
    using w by (simp add: disk_after_def store_run_def small_reads(1) ops small_saves del: run_op.simps)
  show "file_of (lit ''t_1'') (disk_after ascii_letters print
     [ReadFor (OpDeliver (sample_turn [reply, reply])), Complete (OpRename (lit ''t_1'') (lit ''Mine'')), SaveSnapshot 0] small_store)
     = Some (second_turn print)"
    using w by (simp add: disk_after_def store_run_def d ops small_saves del: run_op.simps)
qed

lemma one_file: "file_of i (small_store\<lparr>thread_files := [(lit ''t_1'', Some t)]\<rparr>) = (if i = lit ''t_1'' then Some t else None)"
  by (auto simp: file_of_def)

lemma small_file: "file_of i small_store = (if i = lit ''t_1'' then Some short_thread else None)"
  by (simp add: file_of_def small_store_def)

theorem stored_titles_stay_readable_witness:
  "title_is_meaningful ascii_letters (title (renamed short_thread))"
  by (rule stored_titles_stay_readable [OF ascii_letters_ok _ small_runs(1)])
    (simp add: small_file default_title_meaningful ascii_letters_ok split: if_splits)

theorem chosen_title_stays_witness:
  "\<exists>t'. file_of (lit ''t_1'') (disk_after ascii_letters (\<lambda>_. []) [ReadFor (OpDeliver (sample_turn [reply, reply])), Complete OpHeal, SaveSnapshot 0]
      (small_store\<lparr>thread_files := [(lit ''t_1'', Some (renamed short_thread))]\<rparr>)) = Some t' \<and> title_is_custom t' \<and> title t' = lit ''Mine''"
  using chosen_title_stays [of "small_store\<lparr>thread_files := [(lit ''t_1'', Some (renamed short_thread))]\<rparr>" "lit ''t_1''" "renamed short_thread"
      "[ReadFor (OpDeliver (sample_turn [reply, reply])), Complete OpHeal, SaveSnapshot 0]" ascii_letters "\<lambda>_. []"]
  by (simp add: named_files_def one_file never_deletes_def never_renames_def)

theorem consultation_stays_consultation_witness:
  "\<exists>t'. file_of (lit ''t_1'') (disk_after ascii_letters (\<lambda>_. []) [Complete (OpDeliver (sample_turn [reply, reply])), Complete (OpRename (lit ''t_1'') (lit ''Mine''))]
      (small_store\<lparr>thread_files := [(lit ''t_1'', Some (short_thread\<lparr>thread_mode := MAX_CONSULTATION_MODE\<rparr>))]\<rparr>)) = Some t'
    \<and> thread_mode t' = MAX_CONSULTATION_MODE"
  using consultation_stays_consultation [of "small_store\<lparr>thread_files := [(lit ''t_1'', Some (short_thread\<lparr>thread_mode := MAX_CONSULTATION_MODE\<rparr>))]\<rparr>"
      "lit ''t_1''" "short_thread\<lparr>thread_mode := MAX_CONSULTATION_MODE\<rparr>"
      "[Complete (OpDeliver (sample_turn [reply, reply])), Complete (OpRename (lit ''t_1'') (lit ''Mine''))]" ascii_letters "\<lambda>_. []"]
  by (simp add: named_files_def one_file never_deletes_def)

text \<open>The read and the save of a rename or of a delivery are not under one lock. A turn that is delivered between the
  read and the save of a rename is lost, and a rename that completes between the read and the save of a delivery is
  lost, with the ownership of the title.
\<close>

theorem stale_snapshot_loses_updates:
  "map_option thread_messages (file_of (lit ''t_1'') (disk_after ascii_letters print
     [ReadFor (OpRename (lit ''t_1'') (lit ''Mine'')), Complete (OpDeliver (sample_turn [reply, reply])), SaveSnapshot 0] small_store))
     = Some [reply]
   \<and> map_option title_is_custom (file_of (lit ''t_1'') (disk_after ascii_letters print
     [ReadFor (OpDeliver (sample_turn [reply, reply])), Complete (OpRename (lit ''t_1'') (lit ''Mine'')), SaveSnapshot 0] small_store))
     = Some False"
  by (simp add: small_runs)

end
