(* ===== verification/Thread_Rail.thy ===== *)
theory Thread_Rail
  imports Thread_Runs
begin

section \<open>The rail and the files\<close>

text \<open>
  The index file is what the rail shows. On a disk that accepts writes every operation of the store keeps it in step
  with the thread files: one row per thread, built from what is stored, newest first. This is the third instance of
  the contract \<open>disk_invariant\<close>, of the whole disk this time.
\<close>

definition rows_of :: "thread_disk \<Rightarrow> thread_summary list" where
  "rows_of d = (case index_file d of IndexFile v rows \<Rightarrow> rows | _ \<Rightarrow> [])"

definition index_current :: "thread_disk \<Rightarrow> bool" where
  "index_current d \<longleftrightarrow> (case index_file d of IndexFile v rows \<Rightarrow> INDEX_VERSION \<le> v | IndexAbsent \<Rightarrow> True | IndexUnreadable \<Rightarrow> False)"

definition rows_mirror :: "thread_summary list \<Rightarrow> (rstr \<Rightarrow> thread option) \<Rightarrow> bool" where
  "rows_mirror rows f \<longleftrightarrow> distinct (map row_id rows) \<and> sorted (map (\<lambda>r. - row_updated_at r) rows)
     \<and> (\<forall>r \<in> set rows. \<exists>t. f (row_id r) = Some t \<and> r = from_thread t (row_is_favorite r))
     \<and> (\<forall>i t. f i = Some t \<longrightarrow> i \<in> row_id ` set rows)"

definition rail_mirrors :: "thread_disk \<Rightarrow> bool" where
  "rail_mirrors d \<longleftrightarrow> can_write d \<and> can_index d \<and> index_current d \<and> named_files d \<and> rows_mirror (rows_of d) (\<lambda>i. file_of i d)"

subsection \<open>Rows\<close>

lemma from_thread_fields [simp]:
  "row_id (from_thread t b) = thread_id t" "row_updated_at (from_thread t b) = updated_at t"
  "(from_thread t b)\<lparr>row_is_favorite := c\<rparr> = from_thread t c" "row_is_favorite (from_thread t b) = b"
  by (simp_all add: from_thread_def)

lemma upsert_ids: "row_id ` set (upsert_row t rows) = insert (thread_id t) (row_id ` set rows)"
  by (induction t rows rule: upsert_row.induct) auto

lemma upsert_distinct: "distinct (map row_id rows) \<Longrightarrow> distinct (map row_id (upsert_row t rows))"
proof (induction t rows rule: upsert_row.induct)
  case (2 t r rs)
  then show ?case using upsert_ids [of t rs] by (auto simp: image_iff)
qed simp

lemma upsert_rows:
  "distinct (map row_id rows) \<Longrightarrow> r \<in> set (upsert_row t rows) \<Longrightarrow> (\<exists>b. r = from_thread t b) \<or> r \<in> set rows \<and> row_id r \<noteq> thread_id t"
  by (induction t rows rule: upsert_row.induct) (auto split: if_splits, metis image_eqI)

lemma favorite_rows: "row_id ` set (favorite_row i b rows) = row_id ` set rows" "map row_id (favorite_row i b rows) = map row_id rows"
  "map row_updated_at (favorite_row i b rows) = map row_updated_at rows"
  "r \<in> set (favorite_row i b rows) \<Longrightarrow> \<exists>r0 \<in> set rows. r = r0 \<or> r = r0\<lparr>row_is_favorite := b\<rparr>"
  by (induction i b rows rule: favorite_row.induct) (auto split: if_splits)

lemma sorted_rows: "sorted (map (\<lambda>r. - row_updated_at r) rows) = sorted (map uminus (map row_updated_at rows))"
  by (simp add: comp_def)

lemma mirror_upsert:
  assumes "rows_mirror rows f"
  shows "rows_mirror (sort_by_updated_desc (upsert_row t rows)) (f(thread_id t \<mapsto> t))"
  unfolding rows_mirror_def
proof (intro conjI ballI allI impI)
  have d: "distinct (map row_id rows)" using assms by (simp add: rows_mirror_def)
  have p: "set (sort_by_updated_desc (upsert_row t rows)) = set (upsert_row t rows)" by (simp add: sort_by_updated_desc_def)
  show "distinct (map row_id (sort_by_updated_desc (upsert_row t rows)))"
    using upsert_distinct [OF d, of t] by (simp add: sort_by_updated_desc_def distinct_map)
  show "sorted (map (\<lambda>r. - row_updated_at r) (sort_by_updated_desc (upsert_row t rows)))"
    by (simp add: sort_by_updated_desc_def)
  show "\<exists>t'. (f(thread_id t \<mapsto> t)) (row_id r) = Some t' \<and> r = from_thread t' (row_is_favorite r)"
    if r: "r \<in> set (sort_by_updated_desc (upsert_row t rows))" for r
  proof -
    have "(\<exists>b. r = from_thread t b) \<or> r \<in> set rows \<and> row_id r \<noteq> thread_id t" using r p upsert_rows [OF d] by simp
    then show ?thesis using assms by (auto simp: rows_mirror_def)
  qed
  show "i \<in> row_id ` set (sort_by_updated_desc (upsert_row t rows))" if "(f(thread_id t \<mapsto> t)) i = Some t'" for i t'
    using that assms upsert_ids [of t rows] p by (auto simp: rows_mirror_def split: if_splits)
qed

lemma mirror_favorite: "rows_mirror rows f \<Longrightarrow> rows_mirror (favorite_row i b rows) f"
  unfolding rows_mirror_def sorted_rows
  by (auto simp: favorite_rows(1-3) dest!: favorite_rows(4)) (metis from_thread_fields(1,3,4))+

lemma mirror_delete: "rows_mirror rows f \<Longrightarrow> rows_mirror (filter (\<lambda>r. row_id r \<noteq> i) rows) (f(i := None))"
  by (auto simp: rows_mirror_def distinct_map_filter sorted_filter image_iff)

subsection \<open>Operations\<close>

lemma load_or_create_current:
  assumes "index_current d" and "can_index d"
  shows "\<exists>v. INDEX_VERSION \<le> v \<and> load_or_create d = (d\<lparr>index_file := IndexFile v (rows_of d)\<rparr>, Inr (v, rows_of d))"
proof (cases "index_file d")
  case (IndexFile v rows)
  then have "d\<lparr>index_file := IndexFile v rows\<rparr> = d" by simp
  then show ?thesis using IndexFile assms by (auto simp: load_or_create_def rows_of_def index_current_def)
qed (use assms in \<open>auto simp: load_or_create_def rows_of_def index_current_def save_index_def\<close>)

lemma written_index: "save_index v rows d = (if can_index d then (d\<lparr>index_file := IndexFile v rows\<rparr>, Inr ()) else (d, Inl IndexFailed))"
  by (simp add: save_index_def)

lemma rail_mirrors_indexed:
  "INDEX_VERSION \<le> v \<Longrightarrow> can_write d \<Longrightarrow> can_index d \<Longrightarrow> named_files d \<Longrightarrow> rows_mirror rows (\<lambda>i. file_of i d)
    \<Longrightarrow> rail_mirrors (d\<lparr>index_file := IndexFile v rows\<rparr>)"
  by (simp add: rail_mirrors_def index_current_def rows_of_def named_files_def file_of_def)

lemma rail_create: "rail_mirrors d \<Longrightarrow> rail_mirrors (fst (load_or_create d))"
  using load_or_create_current [of d] rail_mirrors_indexed by (fastforce simp: rail_mirrors_def)

lemma rail_save:
  assumes "rail_mirrors d"
  shows "rail_mirrors (fst (save_thread u t d))"
proof (cases "validate_thread_id (thread_id t)")
  case (Inr x)
  define t' where "t' = fst (normalize_heuristic_title u t)"
  define d0 where "d0 = d\<lparr>thread_files := put_file (thread_id t) t' (thread_files d)\<rparr>"
  have id: "thread_id t' = thread_id t" by (simp add: t'_def)
  have "index_current d0" "can_index d0" "can_write d0" "rows_of d0 = rows_of d"
    using assms by (simp_all add: d0_def rail_mirrors_def index_current_def rows_of_def)
  moreover from this obtain v where v: "INDEX_VERSION \<le> v" "load_or_create d0 = (d0\<lparr>index_file := IndexFile v (rows_of d)\<rparr>, Inr (v, rows_of d))"
    using load_or_create_current [of d0] by auto
  ultimately have s: "fst (save_thread u t d) = d0\<lparr>index_file := IndexFile v (sort_by_updated_desc (upsert_row t' (rows_of d)))\<rparr>"
    using Inr assms by (simp add: save_thread_def Let_def index_add_def save_index_def id rail_mirrors_def
        flip: t'_def d0_def)
  have f: "(\<lambda>i. file_of i d0) = (\<lambda>i. file_of i d)(thread_id t' \<mapsto> t')" by (auto simp: d0_def file_of_def id)
  have "rows_mirror (sort_by_updated_desc (upsert_row t' (rows_of d))) (\<lambda>i. file_of i d0)"
    using mirror_upsert [of "rows_of d" "\<lambda>i. file_of i d" t'] assms unfolding f by (simp add: rail_mirrors_def)
  moreover have "named_files d0" using assms fun_cong [OF f] by (auto simp: named_files_def rail_mirrors_def split: if_splits)
  ultimately show ?thesis
    unfolding s using v(1) assms by (intro rail_mirrors_indexed) (auto simp: d0_def rail_mirrors_def)
qed (use assms in \<open>simp add: save_thread_def Let_def\<close>)

lemma rail_favorite:
  assumes "rail_mirrors d"
  shows "rail_mirrors (fst (set_thread_favorite i b d))"
proof -
  obtain v where v: "INDEX_VERSION \<le> v" "load_or_create d = (d\<lparr>index_file := IndexFile v (rows_of d)\<rparr>, Inr (v, rows_of d))"
    using load_or_create_current [of d] assms by (auto simp: rail_mirrors_def)
  have "rail_mirrors (d\<lparr>index_file := IndexFile v (rows_of d)\<rparr>)" using rail_create [OF assms] v(2) by simp
  moreover have "rail_mirrors (d\<lparr>index_file := IndexFile v (favorite_row i b (rows_of d))\<rparr>)"
    using assms v(1) by (intro rail_mirrors_indexed) (auto simp: rail_mirrors_def mirror_favorite)
  ultimately show ?thesis using assms
    by (auto simp: set_thread_favorite_def v(2) index_set_favorite_def save_index_def rail_mirrors_def split: sum.split option.split)
qed

lemma rail_delete:
  assumes "rail_mirrors d"
  shows "rail_mirrors (fst (delete_thread i d))"
proof (cases "validate_thread_id i")
  case (Inr x)
  define d0 where "d0 = d\<lparr>thread_files := filter (\<lambda>(j, _). j \<noteq> i) (thread_files d)\<rparr>"
  have "index_current d0" "can_index d0" "rows_of d0 = rows_of d"
    using assms by (simp_all add: d0_def rail_mirrors_def index_current_def rows_of_def)
  moreover from this obtain v where v: "INDEX_VERSION \<le> v" "load_or_create d0 = (d0\<lparr>index_file := IndexFile v (rows_of d)\<rparr>, Inr (v, rows_of d))"
    using load_or_create_current [of d0] by auto
  ultimately have s: "fst (delete_thread i d) = d0\<lparr>index_file := IndexFile v (filter (\<lambda>r. row_id r \<noteq> i) (rows_of d))\<rparr>"
    using Inr assms by (simp add: delete_thread_def index_remove_def save_index_def rail_mirrors_def flip: d0_def)
  have f: "(\<lambda>i. file_of i d0) = (\<lambda>i. file_of i d)(i := None)" by (auto simp: d0_def file_of_def)
  have "rows_mirror (filter (\<lambda>r. row_id r \<noteq> i) (rows_of d)) (\<lambda>i. file_of i d0)"
    using mirror_delete [of "rows_of d" "\<lambda>i. file_of i d" i] assms unfolding f by (simp add: rail_mirrors_def)
  moreover have "named_files d0" using assms fun_cong [OF f] by (auto simp: named_files_def rail_mirrors_def split: if_splits)
  ultimately show ?thesis
    unfolding s using v(1) assms by (intro rail_mirrors_indexed) (auto simp: d0_def rail_mirrors_def)
qed (use assms in \<open>simp add: delete_thread_def\<close>)

fun disk_stays_healthy :: "store_event \<Rightarrow> bool" where
  "disk_stays_healthy (DiskAccepts a b) = False"
| "disk_stays_healthy event = True"

interpretation rail: disk_invariant u print rail_mirrors "\<lambda>_. True" disk_stays_healthy for u print
  by unfold_locales (auto simp: rail_create rail_save rail_favorite rail_delete list_all_iff)


lemma empty_rail: "rail_mirrors \<lparr>thread_files = [], index_file = IndexAbsent, can_write = True, can_index = True\<rparr>"
  by (simp add: rail_mirrors_def index_current_def named_files_def rows_mirror_def rows_of_def file_of_def)


end
