(* ===== verification/Run_Monitor.thy ===== *)
theory Run_Monitor
  imports Thread_Delivery File_Paths Machines
begin

section \<open>Resident run monitors\<close>

text \<open>
  \<open>core/agent/run_monitor.rs\<close> and \<open>app/agent/monitor.rs\<close>: the durable list of monitors, the observation of a run, the
  decision whether its state is worth a heartbeat, and the tick of the resident loop, which delivers heartbeats through
  the delivery gateway of the thread store. What the file system answers is the record \<open>run_files\<close>; a fresh monitor id
  is an argument. Times are nanoseconds.
\<close>

definition DEFAULT_POLL_INTERVAL_SECS :: u64 where "DEFAULT_POLL_INTERVAL_SECS = 15"
definition DEFAULT_STALE_AFTER_SECS :: u64 where "DEFAULT_STALE_AFTER_SECS = 300"
definition MAX_READ_FAILURES_BEFORE_BLOCKED :: u32 where "MAX_READ_FAILURES_BEFORE_BLOCKED = 5"
definition MAX_BACKOFF_SECS :: u64 where "MAX_BACKOFF_SECS = 300"

datatype run_state = RunStarted | RunRunning | RunStale | RunBlocked | RunCompleted | RunFailed | RunNeedsRerun

fun run_state_as_str :: "run_state \<Rightarrow> rstr" where
  "run_state_as_str RunStarted = lit ''started''"
| "run_state_as_str RunRunning = lit ''running''"
| "run_state_as_str RunStale = lit ''stale''"
| "run_state_as_str RunBlocked = lit ''blocked''"
| "run_state_as_str RunCompleted = lit ''completed''"
| "run_state_as_str RunFailed = lit ''failed''"
| "run_state_as_str RunNeedsRerun = lit ''needs-rerun''"

definition is_terminal_run :: "run_state \<Rightarrow> bool" where
  "is_terminal_run s \<longleftrightarrow> s = RunCompleted \<or> s = RunFailed \<or> s = RunNeedsRerun"

record run_monitor =
  monitor_id :: rstr
  mon_run_id :: rstr
  mon_thread :: rstr
  mon_meta_path :: rstr
  mon_transcript_path :: "rstr option"
  mon_report_path :: "rstr option"
  mon_state :: run_state
  mon_created_at :: int
  mon_updated_at :: int
  last_notified_state :: "run_state option"
  mon_done :: bool
  mon_cancelled :: bool
  poll_interval_secs :: u64
  stale_after_secs :: u64
  consecutive_read_failures :: u32
  next_poll_at :: int
  mon_meta_len :: u64
  mon_transcript_len :: u64

definition monitor_is_active :: "run_monitor \<Rightarrow> bool" where
  "monitor_is_active r \<longleftrightarrow> \<not> mon_done r \<and> \<not> mon_cancelled r"

subsection \<open>The durable list\<close>

record monitor_registration =
  reg_run_id :: rstr
  reg_thread :: rstr
  reg_meta_path :: rstr
  reg_transcript_path :: "rstr option"
  reg_report_path :: "rstr option"
  reg_poll_interval :: u64
  reg_stale_after :: u64

datatype monitor_file = NoMonitorFile | BrokenMonitorFile | MonitorFile "run_monitor list"

record monitor_world =
  monitor_file :: monitor_file
  can_write_monitors :: bool
  agent_threads :: thread_disk

datatype monitor_error = MonitorsUnreadable | MonitorsUnwritable | MonitorNotRegistered | InvalidRunId | NoDurableThread | NoRunMeta
  | HeartbeatUndelivered delivery_error

definition load_monitors :: "monitor_world \<Rightarrow> monitor_error + run_monitor list" where
  "load_monitors w = (case monitor_file w of NoMonitorFile \<Rightarrow> Inr [] | BrokenMonitorFile \<Rightarrow> Inl MonitorsUnreadable | MonitorFile rs \<Rightarrow> Inr rs)"

definition save_monitors :: "run_monitor list \<Rightarrow> monitor_world \<Rightarrow> monitor_world \<times> (monitor_error + unit)" where
  "save_monitors rs w =
     (if can_write_monitors w then (w\<lparr>monitor_file := MonitorFile rs\<rparr>, Inr ()) else (w, Inl MonitorsUnwritable))"

definition new_monitor :: "monitor_registration \<Rightarrow> rstr \<Rightarrow> int \<Rightarrow> run_monitor" where
  "new_monitor g uid now = \<lparr>monitor_id = lit ''mon-'' @ uid, mon_run_id = reg_run_id g, mon_thread = reg_thread g,
     mon_meta_path = reg_meta_path g, mon_transcript_path = reg_transcript_path g, mon_report_path = reg_report_path g,
     mon_state = RunStarted, mon_created_at = now, mon_updated_at = now, last_notified_state = None, mon_done = False,
     mon_cancelled = False, poll_interval_secs = max (reg_poll_interval g) 1, stale_after_secs = max (reg_stale_after g) 1,
     consecutive_read_failures = 0, next_poll_at = now, mon_meta_len = 0, mon_transcript_len = 0\<rparr>"

definition watches :: "rstr \<Rightarrow> rstr \<Rightarrow> run_monitor \<Rightarrow> bool" where
  "watches run thread r \<longleftrightarrow> monitor_is_active r \<and> mon_run_id r = run \<and> mon_thread r = thread"

definition register_monitor ::
  "monitor_registration \<Rightarrow> rstr \<Rightarrow> int \<Rightarrow> monitor_world \<Rightarrow> monitor_world \<times> (monitor_error + run_monitor)" where
  "register_monitor g uid now w =
     (case load_monitors w of
        Inl e \<Rightarrow> (w, Inl e)
      | Inr rs \<Rightarrow>
          (case find (watches (reg_run_id g) (reg_thread g)) rs of
             Some existing \<Rightarrow> (w, Inr existing)
           | None \<Rightarrow>
               (case save_monitors (rs @ [new_monitor g uid now]) w of
                  (w', Inl e) \<Rightarrow> (w', Inl e)
                | (w', Inr _) \<Rightarrow> (w', Inr (new_monitor g uid now)))))"

definition active_monitors :: "monitor_world \<Rightarrow> monitor_error + run_monitor list" where
  "active_monitors w = (case load_monitors w of Inl e \<Rightarrow> Inl e | Inr rs \<Rightarrow> Inr (filter monitor_is_active rs))"

definition get_monitor :: "rstr \<Rightarrow> monitor_world \<Rightarrow> monitor_error + run_monitor option" where
  "get_monitor i w = (case load_monitors w of Inl e \<Rightarrow> Inl e | Inr rs \<Rightarrow> Inr (find (\<lambda>r. monitor_id r = i) rs))"

text \<open>The first record of an id, rewritten; \<open>None\<close> when there is none.\<close>

fun rewrite_monitor :: "rstr \<Rightarrow> (run_monitor \<Rightarrow> run_monitor) \<Rightarrow> run_monitor list \<Rightarrow> run_monitor list option" where
  "rewrite_monitor i f [] = None"
| "rewrite_monitor i f (r # rs) = (if monitor_id r = i then Some (f r # rs) else map_option (Cons r) (rewrite_monitor i f rs))"

definition update_monitor :: "run_monitor \<Rightarrow> monitor_world \<Rightarrow> monitor_world \<times> (monitor_error + unit)" where
  "update_monitor r w =
     (case load_monitors w of
        Inl e \<Rightarrow> (w, Inl e)
      | Inr rs \<Rightarrow>
          (case rewrite_monitor (monitor_id r) (\<lambda>_. r) rs of
             None \<Rightarrow> (w, Inl MonitorNotRegistered)
           | Some rs' \<Rightarrow> save_monitors rs' w))"

definition cancel_record :: "int \<Rightarrow> run_monitor \<Rightarrow> run_monitor" where
  "cancel_record now r = r\<lparr>mon_cancelled := True, mon_done := True, mon_updated_at := now\<rparr>"

definition cancel_monitor :: "rstr \<Rightarrow> int \<Rightarrow> monitor_world \<Rightarrow> monitor_world \<times> (monitor_error + bool)" where
  "cancel_monitor i now w =
     (case load_monitors w of
        Inl e \<Rightarrow> (w, Inl e)
      | Inr rs \<Rightarrow>
          (case rewrite_monitor i (cancel_record now) rs of
             None \<Rightarrow> (w, Inr False)
           | Some rs' \<Rightarrow> (case save_monitors rs' w of (w', Inl e) \<Rightarrow> (w', Inl e) | (w', Inr _) \<Rightarrow> (w', Inr True))))"

subsection \<open>Observing a run\<close>

record run_meta =
  meta_status :: "rstr option"
  meta_exit_code :: "int option"
  meta_completed_at :: "rstr option"
  meta_report :: "rstr option"
  meta_transcript :: "rstr option"

text \<open>What the file system answers: \<open>read_meta\<close> is a guarded read that parses, \<open>transcript_tail\<close> the bounded tail.\<close>

record run_files =
  safe_canonicalize :: "rstr \<Rightarrow> rstr option"
  path_len :: "rstr \<Rightarrow> u64 option"
  path_modified :: "rstr \<Rightarrow> int option"
  path_is_file :: "rstr \<Rightarrow> bool"
  path_exists :: "rstr \<Rightarrow> bool"
  read_meta :: "rstr \<Rightarrow> run_meta option"
  transcript_tail :: "rstr \<Rightarrow> rstr option"

record run_observation =
  ob_state :: run_state
  ob_exit_code :: "int option"
  ob_meta_status :: "rstr option"
  ob_report_present :: bool
  ob_report_path :: "rstr option"
  ob_meta_len :: u64
  ob_transcript_len :: u64

definition classify_run_state :: "rstr option \<Rightarrow> int option \<Rightarrow> bool \<Rightarrow> bool \<Rightarrow> int \<Rightarrow> u64 \<Rightarrow> bool \<Rightarrow> run_state" where
  "classify_run_state status exit completed_at_present report_present age_secs stale progressed =
     (let terminal_meta = (status = Some (lit ''completed'') \<or> status = Some (lit ''failed'')) \<or> completed_at_present \<or> exit \<noteq> None
      in if terminal_meta
         then let failed = (status = Some (lit ''failed'') \<or> unwrap_or 0 exit \<noteq> 0)
              in if failed then RunFailed else if report_present then RunCompleted else RunNeedsRerun
         else if status = Some (lit ''blocked'') then RunBlocked
         else if progressed then RunRunning
         else if age_secs \<ge> sint (of_nat stale :: 64 word) then (if report_present then RunCompleted else RunStale)
         else RunStarted)"

definition NANOS_PER_SEC :: int where "NANOS_PER_SEC = 1000000000"

text \<open>\<open>TimeDelta::num_seconds\<close> rounds towards zero.\<close>

definition num_seconds :: "int \<Rightarrow> int" where
  "num_seconds ns = (if 0 \<le> ns then ns div NANOS_PER_SEC else - (- ns div NANOS_PER_SEC))"

definition observe_record :: "run_files \<Rightarrow> int \<Rightarrow> run_monitor \<Rightarrow> run_observation option" where
  "observe_record fs now r =
     (case safe_canonicalize fs (mon_meta_path r) of
        None \<Rightarrow> None
      | Some meta_path \<Rightarrow>
          (case path_len fs meta_path of
             None \<Rightarrow> None
           | Some meta_len \<Rightarrow>
               (case read_meta fs meta_path of
                  None \<Rightarrow> None
                | Some snapshot \<Rightarrow>
                    (let age_secs = (case path_modified fs meta_path of Some m \<Rightarrow> num_seconds (now - m) | None \<Rightarrow> 0);
                         report_path = Option.bind (option_or (mon_report_path r) (meta_report snapshot)) (safe_canonicalize fs);
                         report_present = (case report_path of Some p \<Rightarrow> path_is_file fs p | None \<Rightarrow> False);
                         transcript_len = unwrap_or 0 (Option.bind (Option.bind
                           (option_or (mon_transcript_path r) (meta_transcript snapshot)) (safe_canonicalize fs)) (path_len fs));
                         progressed = (mon_meta_len r = 0 \<or> meta_len \<noteq> mon_meta_len r \<or> transcript_len \<noteq> mon_transcript_len r)
                     in Some \<lparr>ob_state = classify_run_state (meta_status snapshot) (meta_exit_code snapshot)
                                (meta_completed_at snapshot \<noteq> None) report_present age_secs (stale_after_secs r) progressed,
                              ob_exit_code = meta_exit_code snapshot, ob_meta_status = meta_status snapshot,
                              ob_report_present = report_present, ob_report_path = report_path, ob_meta_len = meta_len,
                              ob_transcript_len = transcript_len\<rparr>))))"

subsection \<open>Heartbeats\<close>

datatype heartbeat_kind = BeatRecovered | BeatStalled | BeatBlocked | BeatCompleted | BeatFailed | BeatNeedsRerun

definition decide_heartbeat :: "run_monitor \<Rightarrow> run_state \<Rightarrow> heartbeat_kind option" where
  "decide_heartbeat r new_state =
     (if mon_done r \<or> mon_cancelled r then None
      else if last_notified_state r = Some new_state then None
      else case new_state of
             RunStarted \<Rightarrow> None
           | RunRunning \<Rightarrow> if last_notified_state r = Some RunStale \<or> last_notified_state r = Some RunBlocked then Some BeatRecovered else None
           | RunStale \<Rightarrow> Some BeatStalled
           | RunBlocked \<Rightarrow> Some BeatBlocked
           | RunCompleted \<Rightarrow> Some BeatCompleted
           | RunFailed \<Rightarrow> Some BeatFailed
           | RunNeedsRerun \<Rightarrow> Some BeatNeedsRerun)"

definition next_poll_delay_secs :: "u64 \<Rightarrow> u32 \<Rightarrow> u64" where
  "next_poll_delay_secs base failures =
     (let shift = min failures 8 in max 1 (min MAX_BACKOFF_SECS (min u64_max (base * 2 ^ unat shift))))"

definition show_i64 :: "int \<Rightarrow> rstr" where
  "show_i64 n = (if n < 0 then 45 # show_nat (nat (- n)) else show_nat (nat n))"

definition heartbeat_text :: "heartbeat_kind \<Rightarrow> run_monitor \<Rightarrow> run_observation \<Rightarrow> rstr option \<Rightarrow> rstr" where
  "heartbeat_text kind r ob excerpt =
     (let run = lit ''Run `'' @ mon_run_id r @ lit ''`'';
          line = (case kind of
              BeatRecovered \<Rightarrow> run @ lit '' recovered and is progressing again.''
            | BeatStalled \<Rightarrow> run @ lit '' looks stalled: no control-plane progress for over '' @ show_nat (stale_after_secs r) @ lit ''s.''
            | BeatBlocked \<Rightarrow> run @ lit '' is blocked: its control-plane meta is unreadable or reports a block.''
            | BeatCompleted \<Rightarrow> (case ob_report_path ob of Some p \<Rightarrow> run @ lit '' completed. Report: '' @ p | None \<Rightarrow> run @ lit '' completed.'')
            | BeatFailed \<Rightarrow> (case ob_exit_code ob of Some c \<Rightarrow> run @ lit '' failed (exit code '' @ show_i64 c @ lit '').'' | None \<Rightarrow> run @ lit '' failed.'')
            | BeatNeedsRerun \<Rightarrow> run @ lit '' claims success but its promised report artifact is missing '' @ [8212] @ lit '' needs rerun.'')
      in case excerpt of None \<Rightarrow> line
         | Some e \<Rightarrow> line @ [10, 10] @ lit ''Last output:'' @ [10] @ lit ''```'' @ [10] @ e @ [10] @ lit ''```'')"

definition is_valid_run_id :: "rstr \<Rightarrow> bool" where
  "is_valid_run_id run \<longleftrightarrow> run \<noteq> [] \<and> utf8_len run \<le> 128
     \<and> list_all (\<lambda>ch. is_ascii_alphanumeric ch \<or> ch = 45 \<or> ch = 95 \<or> ch = 46) run \<and> \<not> starts_with [46] run"

definition terminal_excerpt :: "run_files \<Rightarrow> heartbeat_kind \<Rightarrow> run_monitor \<Rightarrow> rstr option" where
  "terminal_excerpt fs kind r =
     (if kind = BeatCompleted \<or> kind = BeatFailed \<or> kind = BeatNeedsRerun
      then Option.bind (mon_transcript_path r) (transcript_tail fs) else None)"

definition seconds :: "u64 \<Rightarrow> int" where "seconds n = int n * NANOS_PER_SEC"

text \<open>One poll: the record behind it, and the heartbeat that has to be delivered before the record is kept.\<close>

definition observed_poll :: "run_files \<Rightarrow> int \<Rightarrow> run_monitor \<Rightarrow> run_observation \<Rightarrow> run_monitor \<times> (rstr \<times> run_state) option" where
  "observed_poll fs now r ob =
     (let r1 = r\<lparr>consecutive_read_failures := 0, mon_state := ob_state ob, mon_meta_len := ob_meta_len ob,
                 mon_transcript_len := ob_transcript_len ob\<rparr>;
          r2 = r1\<lparr>next_poll_at := now + seconds (poll_interval_secs r1)\<rparr>
      in case decide_heartbeat r1 (ob_state ob) of
           None \<Rightarrow> (r2, None)
         | Some kind \<Rightarrow>
             (r2\<lparr>last_notified_state := Some (ob_state ob), mon_done := (mon_done r2 \<or> is_terminal_run (ob_state ob))\<rparr>,
              Some (heartbeat_text kind r1 ob (terminal_excerpt fs kind r1), ob_state ob)))"

definition failed_poll :: "int \<Rightarrow> run_monitor \<Rightarrow> run_monitor \<times> (rstr \<times> run_state) option" where
  "failed_poll now r =
     (let r1 = r\<lparr>consecutive_read_failures := consecutive_read_failures r + 1\<rparr>;
          later = (\<lambda>r. r\<lparr>next_poll_at := now + seconds (next_poll_delay_secs (poll_interval_secs r) (consecutive_read_failures r))\<rparr>)
      in if consecutive_read_failures r1 \<ge> MAX_READ_FAILURES_BEFORE_BLOCKED
         then let r2 = r1\<lparr>mon_state := RunBlocked\<rparr>
              in if decide_heartbeat r2 RunBlocked \<noteq> None
                 then (later (r2\<lparr>last_notified_state := Some RunBlocked\<rparr>),
                       Some (lit ''Run `'' @ mon_run_id r2 @ lit ''` monitor is blocked: '' @ show_nat (unat (consecutive_read_failures r2))
                         @ lit '' consecutive failures reading '' @ mon_meta_path r2 @ lit ''.'', RunBlocked))
                 else (later r2, None)
         else (later r1, None))"

definition poll_record :: "run_files \<Rightarrow> int \<Rightarrow> run_monitor \<Rightarrow> run_monitor \<times> (rstr \<times> run_state) option" where
  "poll_record fs now r =
     (case (case observe_record fs now r of Some ob \<Rightarrow> observed_poll fs now r ob | None \<Rightarrow> failed_poll now r) of
        (r', beat) \<Rightarrow> (r'\<lparr>mon_updated_at := now\<rparr>, beat))"

subsection \<open>Delivering a heartbeat\<close>

definition heartbeat_message :: "run_monitor \<Rightarrow> rstr \<Rightarrow> run_state \<Rightarrow> int \<Rightarrow> thread_message" where
  "heartbeat_message r body s now =
     \<lparr>tm_role = lit ''assistant'',
      tm_content = [JObject [(lit ''type'', JString (lit ''text'')), (lit ''text'', JString body)]],
      tm_timestamp = now,
      tm_metadata = Some (JObject [(lit ''kind'', JString (lit ''run-monitor-heartbeat'')), (lit ''monitor_id'', JString (monitor_id r)),
        (lit ''run_id'', JString (mon_run_id r)), (lit ''state'', JString (run_state_as_str s))])\<rparr>"

definition heartbeat_delivery :: "run_monitor \<Rightarrow> thread option \<Rightarrow> rstr \<Rightarrow> run_state \<Rightarrow> int \<Rightarrow> delivery_input" where
  "heartbeat_delivery r existing body s now =
     \<lparr>di_backend_id = mon_thread r,
      di_messages = (case existing of Some t \<Rightarrow> thread_messages t | None \<Rightarrow> []) @ [heartbeat_message r body s now],
      di_provider = (case existing of Some t \<Rightarrow> thread_provider t | None \<Rightarrow> lit ''run-monitor''),
      di_model = (case existing of Some t \<Rightarrow> thread_model t | None \<Rightarrow> lit ''run-monitor''),
      di_source = Monitor,
      di_mode = (case existing of Some t \<Rightarrow> thread_mode t | None \<Rightarrow> lit ''assistive''),
      di_tags = (case existing of Some t \<Rightarrow> thread_tags t | None \<Rightarrow> [lit ''agent'']),
      di_timestamp = now\<rparr>"

definition deliver_heartbeat ::
  "letters \<Rightarrow> (json \<Rightarrow> rstr) \<Rightarrow> run_monitor \<Rightarrow> rstr \<Rightarrow> run_state \<Rightarrow> int \<Rightarrow> thread_disk \<Rightarrow> thread_disk \<times> (delivery_error + unit)" where
  "deliver_heartbeat u print r body s now d =
     (case find_existing u (mon_thread r) d of
        (d', Inl e) \<Rightarrow> (d', Inl (StoreFailed e))
      | (d', Inr existing) \<Rightarrow>
          (case deliver u print (heartbeat_delivery r existing body s now) d' of
             (d'', Inl e) \<Rightarrow> (d'', Inl e) | (d'', Inr _) \<Rightarrow> (d'', Inr ())))"

subsection \<open>The tick\<close>

record tick_summary =
  ticked_polled :: nat
  ticked_heartbeats :: nat
  ticked_finished :: nat

definition tick_record ::
  "letters \<Rightarrow> (json \<Rightarrow> rstr) \<Rightarrow> run_files \<Rightarrow> int \<Rightarrow> run_monitor \<Rightarrow> tick_summary \<Rightarrow> monitor_world \<Rightarrow> monitor_world \<times> (monitor_error + tick_summary)" where
  "tick_record u print fs now r k w =
     (case poll_record fs now r of
        (r', beat) \<Rightarrow>
          (case (case beat of None \<Rightarrow> (agent_threads w, Inr ()) | Some (body, s) \<Rightarrow> deliver_heartbeat u print r body s now (agent_threads w)) of
             (d, Inl e) \<Rightarrow> (w\<lparr>agent_threads := d\<rparr>, Inl (HeartbeatUndelivered e))
           | (d, Inr _) \<Rightarrow>
               (case update_monitor r' (w\<lparr>agent_threads := d\<rparr>) of
                  (w', Inl e) \<Rightarrow> (w', Inl e)
                | (w', Inr _) \<Rightarrow>
                    (w', Inr \<lparr>ticked_polled = ticked_polled k + 1,
                              ticked_heartbeats = ticked_heartbeats k + (if beat = None then 0 else 1),
                              ticked_finished = ticked_finished k + (case beat of Some (_, s) \<Rightarrow> if is_terminal_run s then 1 else 0 | None \<Rightarrow> 0)\<rparr>))))"

fun tick_records ::
  "letters \<Rightarrow> (json \<Rightarrow> rstr) \<Rightarrow> run_files \<Rightarrow> int \<Rightarrow> run_monitor list \<Rightarrow> tick_summary \<Rightarrow> monitor_world \<Rightarrow> monitor_world \<times> (monitor_error + tick_summary)" where
  "tick_records u print fs now [] k w = (w, Inr k)"
| "tick_records u print fs now (r # rs) k w =
     (if next_poll_at r > now then tick_records u print fs now rs k w
      else case tick_record u print fs now r k w of
             (w', Inl e) \<Rightarrow> (w', Inl e)
           | (w', Inr k') \<Rightarrow> tick_records u print fs now rs k' w')"

definition tick_all :: "letters \<Rightarrow> (json \<Rightarrow> rstr) \<Rightarrow> run_files \<Rightarrow> int \<Rightarrow> monitor_world \<Rightarrow> monitor_world \<times> (monitor_error + tick_summary)" where
  "tick_all u print fs now w =
     (case active_monitors w of
        Inl e \<Rightarrow> (w, Inl e)
      | Inr rs \<Rightarrow> tick_records u print fs now rs \<lparr>ticked_polled = 0, ticked_heartbeats = 0, ticked_finished = 0\<rparr> w)"

subsection \<open>Registering\<close>

definition validate_registration :: "rstr \<Rightarrow> rstr \<Rightarrow> monitor_error + unit" where
  "validate_registration run thread =
     (if \<not> is_valid_run_id run then Inl InvalidRunId
      else if trim thread = [] \<or> thread = lit ''unbound'' then Inl NoDurableThread
      else Inr ())"

definition no_meta :: run_meta where
  "no_meta = \<lparr>meta_status = None, meta_exit_code = None, meta_completed_at = None, meta_report = None, meta_transcript = None\<rparr>"

definition run_dir_of :: "rstr \<Rightarrow> rstr \<Rightarrow> rstr" where
  "run_dir_of control_plane_root run = path_push (path_push control_plane_root (lit ''runtime_runs'')) run"

definition register_run_monitor_in ::
  "run_files \<Rightarrow> rstr \<Rightarrow> rstr \<Rightarrow> rstr \<Rightarrow> rstr \<Rightarrow> int \<Rightarrow> monitor_world \<Rightarrow> monitor_world \<times> (monitor_error + run_monitor)" where
  "register_run_monitor_in fs control_plane_root run thread uid now w =
     (case validate_registration run thread of
        Inl e \<Rightarrow> (w, Inl e)
      | Inr _ \<Rightarrow>
          (let run_dir = run_dir_of control_plane_root run;
               meta_path = path_push run_dir (lit ''meta.json'')
           in if \<not> path_exists fs meta_path then (w, Inl NoRunMeta)
              else let snapshot = unwrap_or no_meta (read_meta fs meta_path)
                   in register_monitor
                        \<lparr>reg_run_id = run, reg_thread = thread, reg_meta_path = meta_path,
                         reg_transcript_path = option_or (meta_transcript snapshot) (Some (path_push run_dir (lit ''transcript.log''))),
                         reg_report_path = meta_report snapshot, reg_poll_interval = DEFAULT_POLL_INTERVAL_SECS,
                         reg_stale_after = DEFAULT_STALE_AFTER_SECS\<rparr> uid now w))"

end
