(* ===== verification/Monitor_Runs.thy ===== *)
theory Monitor_Runs
  imports Run_Monitor Thread_Runs
begin

section \<open>What a monitor tells its thread\<close>

text \<open>
  The life of one monitor: polls at any times against any file systems, and cancellations. The heartbeats it sends are
  those of a small protocol automaton. Then the list of monitors under registrations, cancellations and ticks.
\<close>

lemma events_of_append: "events_of step s (is @ js) = events_of step s is @ events_of step (final_state step s is) js"
  by (induction "is" arbitrary: s) simp_all

subsection \<open>One monitor\<close>

datatype monitor_call = PollAt run_files int | CancelAt int

fun monitor_step :: "monitor_call \<Rightarrow> run_monitor \<Rightarrow> run_monitor \<times> run_state option" where
  "monitor_step (PollAt fs now) r =
     (if monitor_is_active r \<and> next_poll_at r \<le> now
      then case poll_record fs now r of (r', beat) \<Rightarrow> (r', map_option snd beat)
      else (r, None))"
| "monitor_step (CancelAt now) r = (cancel_record now r, None)"

text \<open>The protocol: the last state told, and whether the story is over.\<close>

fun beat_protocol :: "run_state option \<times> bool \<Rightarrow> run_state \<Rightarrow> (run_state option \<times> bool) option" where
  "beat_protocol (told, over) s =
     (if over \<or> told = Some s \<or> s = RunStarted \<or> s = RunRunning \<and> told \<noteq> Some RunStale \<and> told \<noteq> Some RunBlocked then None
      else Some (Some s, is_terminal_run s))"

definition monitor_sim :: "run_monitor \<Rightarrow> run_state option \<times> bool \<Rightarrow> bool" where
  "monitor_sim r m \<longleftrightarrow> last_notified_state r = fst m
     \<and> (monitor_is_active r \<longrightarrow> \<not> snd m) \<and> (snd m = (case fst m of Some s \<Rightarrow> is_terminal_run s | None \<Rightarrow> False))"

lemma decide_heartbeat_SomeD:
  "decide_heartbeat r s = Some kind \<Longrightarrow> monitor_is_active r \<and> last_notified_state r \<noteq> Some s \<and> s \<noteq> RunStarted
     \<and> (s = RunRunning \<longrightarrow> last_notified_state r = Some RunStale \<or> last_notified_state r = Some RunBlocked)"
  by (auto simp: decide_heartbeat_def monitor_is_active_def split: if_splits run_state.splits)

lemma decide_heartbeat_terminal:
  "monitor_is_active r \<Longrightarrow> last_notified_state r \<noteq> Some s \<Longrightarrow> is_terminal_run s \<Longrightarrow> decide_heartbeat r s \<noteq> None"
  by (auto simp: decide_heartbeat_def monitor_is_active_def is_terminal_run_def)

lemma decide_heartbeat_frame [simp]:
  "decide_heartbeat (r\<lparr>mon_state := a\<rparr>) s = decide_heartbeat r s" "decide_heartbeat (r\<lparr>consecutive_read_failures := b\<rparr>) s = decide_heartbeat r s"
  "decide_heartbeat (r\<lparr>mon_meta_len := c\<rparr>) s = decide_heartbeat r s" "decide_heartbeat (r\<lparr>mon_transcript_len := d\<rparr>) s = decide_heartbeat r s"
  by (simp_all add: decide_heartbeat_def)

text \<open>A poll, by what it says: silent polls leave the ledger alone, a heartbeat writes it.\<close>

lemma observed_poll_cases:
  "observed_poll fs now r ob = (r', beat) \<Longrightarrow>
     (beat = None \<and> decide_heartbeat r (ob_state ob) = None \<and> last_notified_state r' = last_notified_state r \<and> mon_done r' = mon_done r
      \<or> (\<exists>kind body. beat = Some (body, ob_state ob) \<and> decide_heartbeat r (ob_state ob) = Some kind
          \<and> last_notified_state r' = Some (ob_state ob) \<and> mon_done r' = (mon_done r \<or> is_terminal_run (ob_state ob))))
     \<and> mon_cancelled r' = mon_cancelled r"
  by (auto simp: observed_poll_def Let_def split: option.splits)

lemma failed_poll_cases:
  "failed_poll now r = (r', beat) \<Longrightarrow>
     (beat = None \<and> last_notified_state r' = last_notified_state r
      \<or> (\<exists>kind body. beat = Some (body, RunBlocked) \<and> decide_heartbeat r RunBlocked = Some kind \<and> last_notified_state r' = Some RunBlocked))
     \<and> mon_done r' = mon_done r \<and> mon_cancelled r' = mon_cancelled r"
  by (auto simp: failed_poll_def Let_def split: if_splits)

lemma poll_record_cases:
  assumes "poll_record fs now r = (r', beat)"
  obtains "beat = None" "last_notified_state r' = last_notified_state r" "mon_done r' = mon_done r" "mon_cancelled r' = mon_cancelled r"
  | body s kind where "beat = Some (body, s)" "decide_heartbeat r s = Some kind" "last_notified_state r' = Some s"
      "mon_done r' = (mon_done r \<or> is_terminal_run s)" "mon_cancelled r' = mon_cancelled r"
proof -
  have "\<not> is_terminal_run RunBlocked" by (simp add: is_terminal_run_def)
  then show thesis
    using assms that observed_poll_cases [of fs now r] failed_poll_cases [of now r]
    by (cases "observe_record fs now r") (fastforce simp: poll_record_def split: prod.splits)+
qed

lemma monitor_step_sim:
  assumes "monitor_sim r m" and "monitor_step call r = (r', out)"
  shows "case out of None \<Rightarrow> monitor_sim r' m | Some s \<Rightarrow> \<exists>m'. beat_protocol m s = Some m' \<and> monitor_sim r' m'"
proof (cases call)
  case (PollAt fs now)
  show ?thesis
  proof (cases "monitor_is_active r \<and> next_poll_at r \<le> now")
    case True
    obtain r1 beat where p: "poll_record fs now r = (r1, beat)" by fastforce
    then have o: "r' = r1" "out = map_option snd beat" using assms(2) PollAt True by auto
    obtain told over where m: "m = (told, over)" by fastforce
    from p show ?thesis
    proof (cases rule: poll_record_cases)
      case 1
      then show ?thesis using assms(1) o True by (auto simp: monitor_sim_def monitor_is_active_def)
    next
      case (2 body s kind)
      then show ?thesis using assms(1) o True m decide_heartbeat_SomeD [OF 2(2)]
        by (auto simp: monitor_sim_def monitor_is_active_def)
    qed
  qed (use assms PollAt in \<open>auto split: if_splits\<close>)
next
  case (CancelAt now)
  then show ?thesis using assms by (auto simp: monitor_sim_def cancel_record_def monitor_is_active_def)
qed

interpretation beats: monitored_machine monitor_step "\<lambda>_. True" monitor_sim beat_protocol
proof unfold_locales
  fix i s m s'
  assume "monitor_sim s m" "monitor_step i s = (s', None)"
  from monitor_step_sim [OF this] show "monitor_sim s' m" by (simp only: option.case)
next
  fix i s m s' e
  assume "monitor_sim s m" "monitor_step i s = (s', Some e)"
  from monitor_step_sim [OF this] show "\<exists>m'. beat_protocol m e = Some m' \<and> monitor_sim s' m'" by (simp only: option.case)
qed

lemma fresh_monitor_sim: "monitor_sim (new_monitor g uid t0) (None, False)"
  by (simp add: monitor_sim_def new_monitor_def)

lemma fresh_run:
  "\<exists>m. accept beat_protocol (None, False) (events_of monitor_step (new_monitor g uid t0) calls) = Some m
     \<and> monitor_sim (final_state monitor_step (new_monitor g uid t0) calls) m"
  by (rule beats.events_accepted [OF _ fresh_monitor_sim]) (simp add: list_all_iff)

lemma accepted_beats:
  "accept beat_protocol (told, over) ss = Some m \<Longrightarrow>
     distinct_adj (case told of Some s \<Rightarrow> s # ss | None \<Rightarrow> ss) \<and> (over \<longrightarrow> ss = []) \<and> list_all (\<lambda>s. \<not> is_terminal_run s) (butlast ss)"
proof (induction ss arbitrary: told over)
  case (Cons s ss)
  then have b: "\<not> over" "told \<noteq> Some s" "accept beat_protocol (Some s, is_terminal_run s) ss = Some m"
    by (auto split: if_splits)
  then show ?case using Cons.IH [OF b(3)] by (cases ss; cases told) auto
qed (auto split: option.split)

text \<open>Whatever a run does and whenever it is polled, the heartbeats of a monitor follow the protocol: never the same state twice in a
  row, a recovery only behind a stall or a block, never quiet progress, and nothing behind a terminal state.
\<close>

theorem heartbeats_follow_protocol:
  "\<exists>m. accept beat_protocol (None, False) (events_of monitor_step (new_monitor g uid t0) calls) = Some m
     \<and> (let ss = events_of monitor_step (new_monitor g uid t0) calls
        in distinct_adj ss \<and> list_all (\<lambda>s. \<not> is_terminal_run s) (butlast ss))"
proof -
  obtain m where "accept beat_protocol (None, False) (events_of monitor_step (new_monitor g uid t0) calls) = Some m"
    using fresh_run by blast
  with accepted_beats [OF this] show ?thesis by (simp add: Let_def)
qed

subsection \<open>Cancelled and finished monitors\<close>

lemma inactive_stays: "\<not> monitor_is_active r \<Longrightarrow> snd (monitor_step call r) = None \<and> \<not> monitor_is_active (fst (monitor_step call r))"
  by (cases call) (auto simp: cancel_record_def monitor_is_active_def)

lemmas inactive_step [simp] = inactive_stays [THEN conjunct1] inactive_stays [THEN conjunct2]

lemma inactive_is_silent: "\<not> monitor_is_active r \<Longrightarrow> events_of monitor_step r calls = []"
  by (induction calls arbitrary: r) simp_all

text \<open>A cancelled monitor never speaks again.\<close>

theorem cancelled_monitor_is_silent:
  "events_of monitor_step (final_state monitor_step r (calls @ [CancelAt t])) later = []"
  by (rule inactive_is_silent) (simp add: final_state_append cancel_record_def monitor_is_active_def)

text \<open>The first due poll that finds a run over - in whatever way - tells so and ends the monitor.
\<close>

theorem finished_run_is_reported:
  assumes "monitor_is_active (final_state monitor_step (new_monitor g uid t0) calls)"
    and "next_poll_at (final_state monitor_step (new_monitor g uid t0) calls) \<le> now"
    and "observe_record fs now (final_state monitor_step (new_monitor g uid t0) calls) = Some ob"
    and "is_terminal_run (ob_state ob)"
  shows "events_of monitor_step (new_monitor g uid t0) (calls @ [PollAt fs now])
           = events_of monitor_step (new_monitor g uid t0) calls @ [ob_state ob]
         \<and> \<not> monitor_is_active (final_state monitor_step (new_monitor g uid t0) (calls @ [PollAt fs now]))"
proof -
  define r where "r = final_state monitor_step (new_monitor g uid t0) calls"
  obtain m where "monitor_sim r m"
    using fresh_run r_def by blast
  then have "last_notified_state r \<noteq> Some (ob_state ob)"
    using assms(1,4) by (auto simp: monitor_sim_def simp flip: r_def)
  then have k: "decide_heartbeat r (ob_state ob) \<noteq> None"
    using assms(1,4) decide_heartbeat_terminal by (simp flip: r_def)
  obtain r' beat where p: "observed_poll fs now r ob = (r', beat)" by fastforce
  then have b: "\<exists>body. beat = Some (body, ob_state ob)" "mon_done r'" using observed_poll_cases [OF p] k assms(4) by auto
  have "poll_record fs now r = (r'\<lparr>mon_updated_at := now\<rparr>, beat)" using assms(3) p by (simp add: poll_record_def flip: r_def)
  then have s: "monitor_step (PollAt fs now) r = (r'\<lparr>mon_updated_at := now\<rparr>, Some (ob_state ob))"
    using b(1) assms(1,2) by (auto simp flip: r_def)
  have e: "events_of monitor_step (new_monitor g uid t0) (calls @ [PollAt fs now])
      = events_of monitor_step (new_monitor g uid t0) calls @ events_of monitor_step r [PollAt fs now]"
    by (simp only: events_of_append r_def)
  show ?thesis using s b(2) by (simp add: e final_state_append monitor_is_active_def flip: r_def)
qed

subsection \<open>When the next poll is\<close>

lemma delay_bounds: "1 \<le> next_poll_delay_secs b k \<and> next_poll_delay_secs b k \<le> 300"
  by (simp add: next_poll_delay_secs_def MAX_BACKOFF_SECS_def Let_def)

lemma seconds_mono: "m \<le> n \<Longrightarrow> seconds m \<le> seconds n"
  by (simp add: seconds_def NANOS_PER_SEC_def)

lemma poll_record_next:
  "next_poll_at (fst (poll_record fs now r)) = now + seconds (poll_interval_secs r)
   \<or> (\<exists>k. next_poll_at (fst (poll_record fs now r)) = now + seconds (next_poll_delay_secs (poll_interval_secs r) k))"
  "poll_interval_secs (fst (poll_record fs now r)) = poll_interval_secs r"
proof -
  have "next_poll_at (fst (observed_poll fs now r ob)) = now + seconds (poll_interval_secs r)"
    "poll_interval_secs (fst (observed_poll fs now r ob)) = poll_interval_secs r" for ob
    by (auto simp: observed_poll_def Let_def split: option.split)
  moreover have "\<exists>k. next_poll_at (fst (failed_poll now r)) = now + seconds (next_poll_delay_secs (poll_interval_secs r) k)"
    "poll_interval_secs (fst (failed_poll now r)) = poll_interval_secs r"
    by (auto simp: failed_poll_def Let_def)
  ultimately show "next_poll_at (fst (poll_record fs now r)) = now + seconds (poll_interval_secs r)
      \<or> (\<exists>k. next_poll_at (fst (poll_record fs now r)) = now + seconds (next_poll_delay_secs (poll_interval_secs r) k))"
    "poll_interval_secs (fst (poll_record fs now r)) = poll_interval_secs r"
    by (auto simp: poll_record_def split: option.split prod.split) (metis fst_conv)+
qed

text \<open>A monitor registered as the product registers it is never forgotten and never spins: behind a poll, whatever the
  file system answered and however many polls failed before, the next one is due after at least one second and at most
  \<open>MAX_BACKOFF_SECS\<close>.
\<close>

theorem next_poll_is_bounded:
  assumes "reg_poll_interval g = DEFAULT_POLL_INTERVAL_SECS"
  shows "let r = final_state monitor_step (new_monitor g uid t0) calls; r' = fst (poll_record fs now r)
    in now + seconds 1 \<le> next_poll_at r' \<and> next_poll_at r' \<le> now + seconds MAX_BACKOFF_SECS"
proof -
  have i: "poll_interval_secs (final_state monitor_step r calls) = poll_interval_secs r" for r
  proof (induction calls arbitrary: r)
    case (Cons call calls)
    have "poll_interval_secs (fst (monitor_step call r)) = poll_interval_secs r"
      using poll_record_next(2) by (cases call) (auto simp: cancel_record_def split_beta)
    then show ?case using Cons by simp
  qed simp
  define r where "r = final_state monitor_step (new_monitor g uid t0) calls"
  have "poll_interval_secs r = 15" using i assms by (simp add: r_def new_monitor_def DEFAULT_POLL_INTERVAL_SECS_def)
  then obtain n where n: "next_poll_at (fst (poll_record fs now r)) = now + seconds n" "1 \<le> n" "n \<le> 300"
    using poll_record_next(1) [of fs now r] delay_bounds [of 15] by force
  then show ?thesis
    using seconds_mono [OF n(2)] seconds_mono [OF n(3)] by (simp add: Let_def MAX_BACKOFF_SECS_def flip: r_def)
qed

subsection \<open>What a completion stands for\<close>

lemma completed_has_report: "observe_record fs now r = Some ob \<Longrightarrow> ob_state ob = RunCompleted
  \<Longrightarrow> \<exists>p. ob_report_path ob = Some p \<and> path_is_file fs p"
  by (auto simp: observe_record_def Let_def classify_run_state_def split: option.splits if_splits)

text \<open>A thread is told of a completion only when the promised report is a file at that moment, and the message names it.
\<close>

theorem completion_has_its_report:
  assumes "snd (poll_record fs now r) = Some (body, RunCompleted)"
  shows "\<exists>p. path_is_file fs p \<and> starts_with (lit ''Run `'' @ mon_run_id r @ lit ''` completed. Report: '' @ p) body"
proof (cases "observe_record fs now r")
  case (Some ob)
  obtain r' where o: "observed_poll fs now r ob = (r', Some (body, RunCompleted))"
    using assms Some by (auto simp: poll_record_def split: prod.splits)
  then have c: "ob_state ob = RunCompleted" "decide_heartbeat r (ob_state ob) = Some BeatCompleted"
    by (auto simp: observed_poll_def Let_def decide_heartbeat_def split: option.splits if_splits)
  then obtain p where p: "ob_report_path ob = Some p" "path_is_file fs p" using completed_has_report [OF Some] by blast
  have "body = heartbeat_text BeatCompleted (r\<lparr>consecutive_read_failures := 0, mon_state := RunCompleted, mon_meta_len := ob_meta_len ob,
        mon_transcript_len := ob_transcript_len ob\<rparr>) ob (terminal_excerpt fs BeatCompleted (r\<lparr>consecutive_read_failures := 0,
        mon_state := RunCompleted, mon_meta_len := ob_meta_len ob, mon_transcript_len := ob_transcript_len ob\<rparr>))"
    using o c by (simp add: observed_poll_def Let_def)
  then have "starts_with (lit ''Run `'' @ mon_run_id r @ lit ''` completed. Report: '' @ p) body"
    using p(1) by (auto simp: heartbeat_text_def Let_def starts_with_iff lit_def split: option.split)
  then show ?thesis using p(2) by blast
next
  case None
  then show ?thesis using assms by (auto simp: poll_record_def failed_poll_def Let_def split: prod.splits if_splits)
qed

subsection \<open>A concrete run\<close>

definition small_registration :: monitor_registration where
  "small_registration = \<lparr>reg_run_id = lit ''work-1'', reg_thread = lit ''t_1'', reg_meta_path = lit ''/cp/meta.json'',
     reg_transcript_path = None, reg_report_path = Some (lit ''/cp/report.md''), reg_poll_interval = DEFAULT_POLL_INTERVAL_SECS,
     reg_stale_after = DEFAULT_STALE_AFTER_SECS\<rparr>"

definition completed_files :: run_files where
  "completed_files = \<lparr>safe_canonicalize = Some, path_len = (\<lambda>_. Some 10), path_modified = (\<lambda>_. Some 0), path_is_file = (\<lambda>_. True),
     path_exists = (\<lambda>_. True), read_meta = (\<lambda>_. Some (no_meta\<lparr>meta_status := Some (lit ''completed''), meta_exit_code := Some 0\<rparr>)),
     transcript_tail = (\<lambda>_. None)\<rparr>"

lemmas concrete_run = small_registration_def completed_files_def no_meta_def

lemma small_observation:
  "observe_record completed_files now (new_monitor small_registration uid t0) = Some \<lparr>ob_state = RunCompleted, ob_exit_code = Some 0,
     ob_meta_status = Some (lit ''completed''), ob_report_present = True, ob_report_path = Some (lit ''/cp/report.md''), ob_meta_len = 10,
     ob_transcript_len = 0\<rparr>"
  by (simp add: observe_record_def Let_def concrete_run new_monitor_def option_or_def classify_run_state_def lit_def)

lemma small_poll:
  "\<exists>body. snd (poll_record completed_files now (new_monitor small_registration uid t0)) = Some (body, RunCompleted)"
  by (simp add: poll_record_def small_observation observed_poll_def Let_def)
    (simp add: decide_heartbeat_def new_monitor_def)

theorem finished_run_is_reported_witness:
  "events_of monitor_step (new_monitor small_registration (lit ''1'') 0) [PollAt completed_files 5] = [RunCompleted]"
  using finished_run_is_reported [of small_registration "lit ''1''" 0 "[]" 5 completed_files] small_observation [of 5 "lit ''1''" 0]
  by (simp add: monitor_is_active_def is_terminal_run_def new_monitor_def)

theorem next_poll_is_bounded_witness:
  "next_poll_at (fst (poll_record completed_files 5 (new_monitor small_registration (lit ''1'') 0))) \<le> 5 + seconds 300"
  using next_poll_is_bounded [of small_registration "lit ''1''" 0 "[]" completed_files 5]
  by (simp add: Let_def small_registration_def MAX_BACKOFF_SECS_def)

theorem completion_has_its_report_witness:
  "\<exists>body p. snd (poll_record completed_files 5 (new_monitor small_registration (lit ''1'') 0)) = Some (body, RunCompleted)
     \<and> starts_with (lit ''Run `work-1` completed. Report: '' @ p) body"
proof -
  obtain body where b: "snd (poll_record completed_files 5 (new_monitor small_registration (lit ''1'') 0)) = Some (body, RunCompleted)"
    using small_poll by blast
  from completion_has_its_report [OF this] b show ?thesis
    by (fastforce simp: new_monitor_def small_registration_def lit_def)
qed

end
