(* ===== verification/Monitor_Ticks.thy ===== *)
theory Monitor_Ticks
  imports Monitor_Runs Thread_Rail
begin

section \<open>Ticks of the resident loop\<close>

subsection \<open>A heartbeat joins the history\<close>

text \<open>Finding a thread may repair its title and changes nothing else of any file.\<close>

definition untitled :: "thread option \<Rightarrow> thread option" where
  "untitled f = map_option (\<lambda>t. t\<lparr>title := []\<rparr>) f"

lemma untitled_normal [simp]: "untitled (Some (fst (normalize_heuristic_title u t))) = untitled (Some t)"
  by (simp add: untitled_def normalize_heuristic_title_def)

lemma heal_thread_untitled:
  assumes "named_files d"
  shows "untitled (file_of j (fst (heal_thread u i d))) = untitled (file_of j d)"
proof (cases "load_thread_raw i d")
  case (Inr t)
  have f: "file_of i d = Some t" and id: "thread_id t = i"
    using load_thread_raw_file [OF Inr] assms by (auto simp: named_files_def)
  have "untitled (file_of j (fst (save_thread u (fst (normalize_heuristic_title u t)) d))) = untitled (file_of j d)"
    using save_thread_file [of j u "fst (normalize_heuristic_title u t)" d] f id by auto
  then show ?thesis using Inr
    by (cases "normalize_heuristic_title u t") (auto simp: heal_thread_def split: bool.split prod.split sum.split)
qed (simp add: heal_thread_def)

lemma find_existing_untitled:
  "named_files d \<Longrightarrow> untitled (file_of j (fst (find_existing u i d))) = untitled (file_of j d)"
  using heal_thread_untitled [of d j u i]
  by (auto simp: find_existing_def load_thread_def split: sum.split prod.split bool.split)

lemma find_existing_named: "named_files d \<Longrightarrow> named_files (fst (find_existing u i d))"
proof -
  have id: "thread_id t = thread_id t'" if "untitled (Some t) = untitled (Some t')" for t t'
    using that by (simp add: untitled_def) (metis thread.select_convs(1) thread.surjective thread.update_convs(4))
  show "named_files d \<Longrightarrow> named_files (fst (find_existing u i d))"
    using find_existing_untitled [of d _ u i] id unfolding named_files_def untitled_def
    by (metis map_option_eq_Some option.simps(9))
qed

definition messages_of :: "thread option \<Rightarrow> thread_message list" where
  "messages_of f = (case f of Some t \<Rightarrow> thread_messages t | None \<Rightarrow> [])"

lemma messages_of_untitled: "untitled f = untitled g \<Longrightarrow> messages_of f = messages_of g"
  by (cases f; cases g) (auto simp: untitled_def messages_of_def dest: arg_cong [where f = thread_messages])

lemma find_existing_result:
  assumes "named_files d" and "find_existing u i d = (d', Inr existing)"
  shows "untitled existing = untitled (file_of i d)"
proof (cases existing)
  case (Some t)
  then show ?thesis using existing_thread(1) assms(2) untitled_normal by metis
qed (use existing_thread(2) assms(2) in \<open>simp add: untitled_def\<close>)

text \<open>A heartbeat that was delivered is the last message of its thread, behind the whole history the thread had, and it
  is stamped with the monitor, the run and the state.
\<close>

theorem heartbeat_is_appended:
  assumes "named_files d" and "deliver_heartbeat u print r body s now d = (d', Inr ())"
  shows "messages_of (file_of (mon_thread r) d') = messages_of (file_of (mon_thread r) d) @ [heartbeat_message r body s now]"
proof -
  obtain d1 existing where e: "find_existing u (mon_thread r) d = (d1, Inr existing)"
    using assms(2) by (auto simp: deliver_heartbeat_def split: sum.splits prod.splits)
  define input where "input = heartbeat_delivery r existing body s now"
  obtain receipt where "deliver u print input d1 = (d', Inr receipt)"
    using assms(2) e by (auto simp: deliver_heartbeat_def input_def split: sum.splits prod.splits)
  then obtain d2 t where t: "deliver_read u print input d1 = (d2, Inr (t, receipt))" "save_thread u t d2 = (d', Inr ())"
    by (auto simp: deliver_def split: sum.splits prod.splits)
  obtain existing' where e': "find_existing u (di_backend_id input) d1 = (d2, Inr existing')" "t = updated_thread u print input existing'"
    using deliver_snapshot [OF t(1)] by blast
  have id: "di_backend_id input = mon_thread r" by (simp add: input_def heartbeat_delivery_def)
  have n1: "named_files d1" using find_existing_named [OF assms(1), of u "mon_thread r"] e by simp
  have "thread_id t = mon_thread r"
    using find_existing_result [OF n1 e'(1)] n1 e'(2) existing_thread(1) [of u "di_backend_id input" d1 d2] e'(1)
    by (cases existing') (auto simp: updated_thread_def Let_def new_thread_def id named_files_def)
  moreover have "thread_messages t = di_messages input" by (simp add: e'(2) updated_thread_def Let_def)
  ultimately have "messages_of (file_of (mon_thread r) d') = di_messages input"
    using saved_file [OF t(2)] messages_of_untitled [OF untitled_normal, of u t] by (simp add: messages_of_def)
  moreover have "messages_of existing = messages_of (file_of (mon_thread r) d)"
    by (rule messages_of_untitled) (rule find_existing_result [OF assms(1) e])
  ultimately show ?thesis by (simp add: input_def heartbeat_delivery_def messages_of_def)
qed

lemma save_succeeds:
  assumes "validate_thread_id (thread_id t) = Inr ()" "can_write d" "can_index d" "index_current d"
  shows "snd (save_thread u t d) = Inr ()"
proof -
  have "index_current (d\<lparr>thread_files := fs\<rparr>)" for fs using assms(4) by (simp add: index_current_def)
  then show ?thesis using assms load_or_create_current [of "d\<lparr>thread_files := put_file (thread_id t) (fst (normalize_heuristic_title u t)) (thread_files d)\<rparr>"]
    by (auto simp: save_thread_def Let_def index_add_def save_index_def)
qed

lemma short_thread_found: "find_existing ascii_letters (lit ''t_1'') small_store = (small_store, Inr (Some short_thread))"
  by (simp add: find_existing_def load_thread_def load_thread_raw_def small_names small_store_def normal_default)

lemma ordinary_mode: "lit ''assistive'' \<noteq> MAX_CONSULTATION_MODE"
  by (simp add: MAX_CONSULTATION_MODE_def lit_def)

lemma small_heartbeat:
  "\<exists>d'. deliver_heartbeat ascii_letters print (new_monitor small_registration (lit ''1'') 0) body s now small_store = (d', Inr ())"
proof -
  define input where "input = heartbeat_delivery (new_monitor small_registration (lit ''1'') 0) (Some short_thread) body s now"
  have f: "di_backend_id input = lit ''t_1''" "di_mode input = lit ''assistive''"
    by (simp_all add: input_def heartbeat_delivery_def new_monitor_def small_registration_def)
  have "deliver_read ascii_letters print input small_store
      = (small_store, Inr (updated_thread ascii_letters print input (Some short_thread), delivery_receipt_for input (Some short_thread)))"
    by (simp add: deliver_read_def f short_thread_found ordinary_mode)
  moreover have "snd (save_thread ascii_letters (updated_thread ascii_letters print input (Some short_thread)) small_store) = Inr ()"
    by (rule save_succeeds)
      (simp_all add: updated_thread_def Let_def small_names(1) [unfolded lit_def] small_names small_store_def index_current_def)
  ultimately have "\<exists>d'. deliver ascii_letters print input small_store = (d', Inr (delivery_receipt_for input (Some short_thread)))"
    by (cases "save_thread ascii_letters (updated_thread ascii_letters print input (Some short_thread)) small_store") (simp add: deliver_def)
  then show ?thesis
    by (auto simp: deliver_heartbeat_def short_thread_found new_monitor_def small_registration_def input_def)
qed

lemma small_named: "named_files small_store"
  by (simp add: named_files_def small_file)

theorem heartbeat_is_appended_witness:
  "\<exists>d'. messages_of (file_of (lit ''t_1'') d')
     = [reply, heartbeat_message (new_monitor small_registration (lit ''1'') 0) body RunCompleted 5]"
proof -
  obtain d' where "deliver_heartbeat ascii_letters (\<lambda>_. []) (new_monitor small_registration (lit ''1'') 0) body RunCompleted 5 small_store = (d', Inr ())"
    using small_heartbeat by blast
  from heartbeat_is_appended [OF small_named this] show ?thesis
    by (auto simp: new_monitor_def small_registration_def small_file messages_of_def)
qed

subsection \<open>The list of monitors\<close>

text \<open>
  Registrations, cancellations and whole ticks, one behind the other, while the threads and the disk change in any way.
\<close>

datatype list_call =
    RegisterCall monitor_registration rstr int
  | CancelCall rstr int
  | TickCall run_files int
  | WorldCall bool thread_disk

fun list_step :: "letters \<Rightarrow> (json \<Rightarrow> rstr) \<Rightarrow> list_call \<Rightarrow> monitor_world \<Rightarrow> monitor_world" where
  "list_step u print (RegisterCall g uid now) w = fst (register_monitor g uid now w)"
| "list_step u print (CancelCall i now) w = fst (cancel_monitor i now w)"
| "list_step u print (TickCall fs now) w = fst (tick_all u print fs now w)"
| "list_step u print (WorldCall writable d) w = w\<lparr>can_write_monitors := writable, agent_threads := d\<rparr>"

fun fresh_id :: "list_call \<Rightarrow> rstr list" where
  "fresh_id (RegisterCall g uid now) = [lit ''mon-'' @ uid]"
| "fresh_id call = []"

definition monitors_of :: "monitor_world \<Rightarrow> run_monitor list" where
  "monitors_of w = (case monitor_file w of MonitorFile rs \<Rightarrow> rs | _ \<Rightarrow> [])"

definition unique_watches :: "run_monitor list \<Rightarrow> bool" where
  "unique_watches rs \<longleftrightarrow> distinct (map monitor_id rs)
     \<and> (\<forall>r \<in> set rs. \<forall>r' \<in> set rs. monitor_is_active r \<and> watches (mon_run_id r) (mon_thread r) r' \<longrightarrow> r = r')"

lemma load_monitors_of: "load_monitors w = Inr rs \<Longrightarrow> rs = monitors_of w"
  by (auto simp: load_monitors_def monitors_of_def split: monitor_file.splits)

lemma save_monitors_of: "monitors_of (fst (save_monitors rs w)) = rs \<or> fst (save_monitors rs w) = w"
  by (simp add: save_monitors_def monitors_of_def)

lemma rewritten_monitor:
  "rewrite_monitor i f rs = Some rs' \<Longrightarrow> distinct (map monitor_id rs) \<Longrightarrow>
     \<exists>r \<in> set rs. monitor_id r = i \<and> rs' = map (\<lambda>x. if x = r then f r else x) rs"
proof (induction rs arbitrary: rs')
  case (Cons r rs)
  show ?case
  proof (cases "monitor_id r = i")
    case True
    then have "r \<notin> set rs" using Cons.prems(2) by auto
    then have "map (\<lambda>x. if x = r then f r else x) rs = rs" by (intro map_idI) auto
    then show ?thesis using Cons.prems True by auto
  next
    case False
    then obtain rs1 where "rewrite_monitor i f rs = Some rs1" "rs' = r # rs1" using Cons.prems(1) by auto
    then obtain r1 where r1: "r1 \<in> set rs" "monitor_id r1 = i" "rs1 = map (\<lambda>x. if x = r1 then f r1 else x) rs"
      using Cons.IH Cons.prems(2) by auto
    then show ?thesis using \<open>rs' = r # rs1\<close> False by auto
  qed
qed simp

text \<open>A record may be rewritten to one of the same identity that is active only if it was.\<close>

definition same_watch :: "run_monitor \<Rightarrow> run_monitor \<Rightarrow> bool" where
  "same_watch r r' \<longleftrightarrow> monitor_id r' = monitor_id r \<and> mon_run_id r' = mon_run_id r \<and> mon_thread r' = mon_thread r
     \<and> (monitor_is_active r' \<longrightarrow> monitor_is_active r)"

lemma unique_rewrite:
  assumes "unique_watches rs" and "r \<in> set rs" and "same_watch r r1"
  shows "unique_watches (map (\<lambda>x. if x = r then r1 else x) rs)"
proof -
  have "map monitor_id (map (\<lambda>x. if x = r then r1 else x) rs) = map monitor_id rs"
    using assms(3) by (auto simp: same_watch_def)
  then have d: "distinct (map monitor_id (map (\<lambda>x. if x = r then r1 else x) rs))" using assms(1) unfolding unique_watches_def by metis
  have "g = h" if "g \<in> set (map (\<lambda>x. if x = r then r1 else x) rs)" "h \<in> set (map (\<lambda>x. if x = r then r1 else x) rs)"
    "monitor_is_active g" "watches (mon_run_id g) (mon_thread g) h" for g h
  proof -
    note watched = that
    obtain a b where ab: "a \<in> set rs" "b \<in> set rs" "g = (if a = r then r1 else a)" "h = (if b = r then r1 else b)"
      using watched(1,2) by fastforce
    then have "monitor_is_active a \<and> watches (mon_run_id a) (mon_thread a) b"
      using watched(3,4) assms(3) by (auto simp: same_watch_def watches_def split: if_splits)
    then have "a = b" using assms(1) ab(1,2) unfolding unique_watches_def by blast
    then show ?thesis using ab(3,4) by simp
  qed
  then show ?thesis using d unfolding unique_watches_def by blast
qed

lemma cancel_same_watch: "same_watch r (cancel_record now r)"
  by (simp add: same_watch_def cancel_record_def monitor_is_active_def)

lemma poll_same_watch: "same_watch r (fst (poll_record fs now r))"
  by (auto simp: same_watch_def monitor_is_active_def poll_record_def observed_poll_def failed_poll_def Let_def
      split: option.splits prod.splits if_splits)

lemma tick_record_monitors:
  assumes "unique_watches (monitors_of w)" and "r \<in> set (monitors_of w)"
  shows "monitors_of (fst (tick_record u print fs now r k w)) = monitors_of w
    \<or> monitors_of (fst (tick_record u print fs now r k w)) = map (\<lambda>x. if x = r then fst (poll_record fs now r) else x) (monitors_of w)"
proof -
  obtain r' beat where p: "poll_record fs now r = (r', beat)" by fastforce
  have id: "monitor_id r' = monitor_id r" using poll_same_watch [of r fs now] p by (simp add: same_watch_def)
  have "monitors_of (fst (update_monitor r' w')) = monitors_of w
      \<or> monitors_of (fst (update_monitor r' w')) = map (\<lambda>x. if x = r then r' else x) (monitors_of w)"
    if w': "monitors_of w' = monitors_of w" for w'
  proof (cases "load_monitors w'")
    case (Inr rs)
    then have rs: "rs = monitors_of w" using load_monitors_of w' by simp
    show ?thesis
    proof (cases "rewrite_monitor (monitor_id r') (\<lambda>_. r') rs")
      case (Some rs')
      then obtain r1 where r1: "r1 \<in> set (monitors_of w)" "monitor_id r1 = monitor_id r" "rs' = map (\<lambda>x. if x = r1 then r' else x) (monitors_of w)"
        using rewritten_monitor [OF Some] assms(1) rs id by (auto simp: unique_watches_def)
      then have "r1 = r" using assms by (auto simp: unique_watches_def distinct_map dest: inj_onD)
      then show ?thesis using Inr Some r1(3) w' save_monitors_of [of rs' w'] by (auto simp: update_monitor_def)
    qed (use Inr w' in \<open>simp add: update_monitor_def\<close>)
  qed (use w' in \<open>simp add: update_monitor_def\<close>)
  moreover obtain d res where "(case beat of None \<Rightarrow> (agent_threads w, Inr ()) | Some (body, s) \<Rightarrow> deliver_heartbeat u print r body s now (agent_threads w))
      = (d, res)" by fastforce
  moreover have "monitors_of (w\<lparr>agent_threads := d\<rparr>) = monitors_of w" by (simp add: monitors_of_def)
  ultimately show ?thesis using p
    by (cases res; cases "update_monitor r' (w\<lparr>agent_threads := d\<rparr>)")
      (fastforce simp: tick_record_def split: sum.split)+
qed

lemma tick_records_unique:
  assumes "unique_watches (monitors_of w)" and "set rs \<subseteq> set (monitors_of w)" and "distinct (map monitor_id rs)"
  shows "unique_watches (monitors_of (fst (tick_records u print fs now rs k w)))
    \<and> map monitor_id (monitors_of (fst (tick_records u print fs now rs k w))) = map monitor_id (monitors_of w)"
  using assms
proof (induction rs arbitrary: k w)
  case (Cons r rs)
  show ?case
  proof (cases "next_poll_at r > now")
    case True
    then show ?thesis using Cons by simp
  next
    case False
    obtain w' res where t: "tick_record u print fs now r k w = (w', res)" by fastforce
    define r' where "r' = fst (poll_record fs now r)"
    have r: "r \<in> set (monitors_of w)" using Cons.prems(2) by simp
    have sw: "same_watch r r'" using poll_same_watch by (simp add: r'_def)
    have w': "monitors_of w' = monitors_of w \<or> monitors_of w' = map (\<lambda>x. if x = r then r' else x) (monitors_of w)"
      using tick_record_monitors [OF Cons.prems(1) r, of u print fs now k] unfolding t fst_conv r'_def .
    then have u: "unique_watches (monitors_of w')" using Cons.prems(1) unique_rewrite [OF Cons.prems(1) r sw] by metis
    have ids: "map monitor_id (monitors_of w') = map monitor_id (monitors_of w)" using w' sw by (auto simp: same_watch_def)
    have "r \<notin> set rs" using Cons.prems(3) by auto
    then have s: "set rs \<subseteq> set (monitors_of w')" using w' Cons.prems(2) by force
    show ?thesis
    proof (cases res)
      case (Inl e)
      then show ?thesis using False t u ids by simp
    next
      case (Inr k')
      then show ?thesis using False t Cons.IH [OF u s, of k'] Cons.prems(3) ids by simp
    qed
  qed
qed simp

lemma save_monitors_unique:
  "unique_watches rs \<Longrightarrow> unique_watches (monitors_of w) \<Longrightarrow> unique_watches (monitors_of (fst (save_monitors rs w)))"
  using save_monitors_of [of rs w] by auto

lemma register_unique:
  assumes "unique_watches (monitors_of w)" and "lit ''mon-'' @ uid \<notin> monitor_id ` set (monitors_of w)"
  shows "unique_watches (monitors_of (fst (register_monitor g uid now w)))"
proof (cases "load_monitors w")
  case (Inr rs)
  then have rs: "rs = monitors_of w" by (rule load_monitors_of)
  show ?thesis
  proof (cases "find (watches (reg_run_id g) (reg_thread g)) rs")
    case None
    then have n: "\<forall>r \<in> set rs. \<not> watches (reg_run_id g) (reg_thread g) r" by (simp add: find_None_iff)
    have f: "monitor_id (new_monitor g uid now) = lit ''mon-'' @ uid" "mon_run_id (new_monitor g uid now) = reg_run_id g"
      "mon_thread (new_monitor g uid now) = reg_thread g" by (simp_all add: new_monitor_def)
    have "distinct (map monitor_id (rs @ [new_monitor g uid now]))" using assms rs f(1) by (auto simp: unique_watches_def)
    moreover have "r = r'" if "r \<in> set (rs @ [new_monitor g uid now])" "r' \<in> set (rs @ [new_monitor g uid now])"
      "monitor_is_active r" "watches (mon_run_id r) (mon_thread r) r'" for r r'
    proof (cases "r \<in> set rs")
      case True
      then have "\<not> (monitor_is_active r \<and> mon_run_id r = reg_run_id g \<and> mon_thread r = reg_thread g)" using n by (simp add: watches_def)
      then have "r' \<in> set rs" using that(2-4) f by (auto simp: watches_def)
      then show ?thesis using True that(3,4) assms(1) rs unfolding unique_watches_def by blast
    next
      case False
      then have "r = new_monitor g uid now" using that(1) by simp
      then show ?thesis using that(2,4) n f by auto
    qed
    ultimately have "unique_watches (rs @ [new_monitor g uid now])" unfolding unique_watches_def by blast
    then have "unique_watches (monitors_of (fst (save_monitors (rs @ [new_monitor g uid now]) w)))"
      using assms(1) by (rule save_monitors_unique)
    then show ?thesis using Inr None by (auto simp: register_monitor_def split: prod.split sum.split)
  qed (use Inr assms in \<open>simp add: register_monitor_def\<close>)
qed (use assms in \<open>simp add: register_monitor_def\<close>)

lemma cancel_unique: "unique_watches (monitors_of w) \<Longrightarrow> unique_watches (monitors_of (fst (cancel_monitor i now w)))"
proof (cases "load_monitors w")
  case (Inr rs)
  assume u: "unique_watches (monitors_of w)"
  have rs: "rs = monitors_of w" using Inr by (rule load_monitors_of)
  show ?thesis
  proof (cases "rewrite_monitor i (cancel_record now) rs")
    case (Some rs')
    then obtain r where "r \<in> set rs" "rs' = map (\<lambda>x. if x = r then cancel_record now r else x) rs"
      using rewritten_monitor [OF Some] u rs by (auto simp: unique_watches_def)
    then have "unique_watches rs'" using unique_rewrite [OF u _ cancel_same_watch, of r now] rs by simp
    then have "unique_watches (monitors_of (fst (save_monitors rs' w)))" using u by (rule save_monitors_unique)
    then show ?thesis using Inr Some by (auto simp: cancel_monitor_def split: prod.split sum.split)
  qed (use Inr u in \<open>simp add: cancel_monitor_def\<close>)
qed (simp add: cancel_monitor_def)

lemma register_ids:
  "monitor_id ` set (monitors_of (fst (register_monitor g uid now w))) \<subseteq> insert (lit ''mon-'' @ uid) (monitor_id ` set (monitors_of w))"
proof (cases "load_monitors w")
  case (Inr rs)
  then have "rs = monitors_of w" by (rule load_monitors_of)
  then show ?thesis using Inr save_monitors_of [of "rs @ [new_monitor g uid now]" w]
    by (auto simp: register_monitor_def new_monitor_def split: option.split prod.split sum.split)
qed (auto simp: register_monitor_def)

lemma cancel_ids: "unique_watches (monitors_of w) \<Longrightarrow>
    monitor_id ` set (monitors_of (fst (cancel_monitor i now w))) \<subseteq> monitor_id ` set (monitors_of w)"
proof (cases "load_monitors w")
  case (Inr rs)
  assume u: "unique_watches (monitors_of w)"
  have rs: "rs = monitors_of w" using Inr by (rule load_monitors_of)
  show ?thesis
  proof (cases "rewrite_monitor i (cancel_record now) rs")
    case (Some rs')
    then obtain r where "r \<in> set rs" "rs' = map (\<lambda>x. if x = r then cancel_record now r else x) rs"
      using rewritten_monitor [OF Some] u rs by (auto simp: unique_watches_def)
    then have "monitor_id ` set rs' \<subseteq> monitor_id ` set (monitors_of w)" using rs by (auto simp: cancel_record_def)
    then have "monitor_id ` set (monitors_of (fst (save_monitors rs' w))) \<subseteq> monitor_id ` set (monitors_of w)"
      using save_monitors_of [of rs' w] by auto
    then show ?thesis using Inr Some by (simp add: cancel_monitor_def split_beta split: sum.split)
  qed (use Inr in \<open>simp add: cancel_monitor_def\<close>)
qed (simp add: cancel_monitor_def)

lemma tick_all_unique:
  assumes "unique_watches (monitors_of w)"
  shows "unique_watches (monitors_of (fst (tick_all u print fs now w)))
    \<and> map monitor_id (monitors_of (fst (tick_all u print fs now w))) = map monitor_id (monitors_of w)"
proof (cases "load_monitors w")
  case (Inr rs)
  then have rs: "rs = monitors_of w" by (rule load_monitors_of)
  have "distinct (map monitor_id (filter monitor_is_active rs))" using assms rs by (simp add: unique_watches_def distinct_map_filter)
  then show ?thesis using tick_records_unique [OF assms, of "filter monitor_is_active rs"] Inr rs
    by (auto simp: tick_all_def active_monitors_def)
qed (use assms in \<open>simp add: tick_all_def active_monitors_def\<close>)

lemma list_step_unique:
  assumes "unique_watches (monitors_of w)" and "set (fresh_id call) \<inter> monitor_id ` set (monitors_of w) = {}"
  shows "unique_watches (monitors_of (list_step u print call w))
    \<and> monitor_id ` set (monitors_of (list_step u print call w)) \<subseteq> set (fresh_id call) \<union> monitor_id ` set (monitors_of w)"
proof (cases call)
  case (RegisterCall g uid now)
  then show ?thesis using assms register_unique [of w uid g now] register_ids [of g uid now w] by auto
next
  case (CancelCall i now)
  then show ?thesis using assms cancel_unique [of w i now] cancel_ids [of w i now] by auto
next
  case (TickCall fs now)
  note t = tick_all_unique [OF assms(1), of u print fs now]
  have "set (map monitor_id (monitors_of (fst (tick_all u print fs now w)))) = set (map monitor_id (monitors_of w))"
    by (rule arg_cong [OF t [THEN conjunct2]])
  then have "monitor_id ` set (monitors_of (fst (tick_all u print fs now w))) = monitor_id ` set (monitors_of w)" by (simp only: list.set_map)
  then show ?thesis using t [THEN conjunct1] unfolding TickCall by (simp only: list_step.simps fresh_id.simps list.set Un_empty_left subset_refl simp_thms)
qed (use assms in \<open>simp add: monitors_of_def\<close>)

text \<open>However often a run is registered, cancelled and ticked, with a list file that fails at any time, no run has two active
  monitors that speak into one thread, and no two monitors share an id, as long as the ids are fresh.
\<close>

theorem one_monitor_per_run_and_thread:
  assumes "distinct (concat (map fresh_id calls))" and "monitors_of w = []"
  shows "unique_watches (monitors_of (fold (list_step u print) calls w))"
proof -
  have "unique_watches (monitors_of (fold (list_step u print) calls w))"
    if "unique_watches (monitors_of w)" "distinct (concat (map fresh_id calls))"
      "set (concat (map fresh_id calls)) \<inter> monitor_id ` set (monitors_of w) = {}" for w
    using that
  proof (induction calls arbitrary: w)
    case (Cons call calls)
    have "set (fresh_id call) \<inter> monitor_id ` set (monitors_of w) = {}" using Cons.prems(3) by auto
    note s = list_step_unique [OF Cons.prems(1) this, of u print]
    have "set (concat (map fresh_id calls)) \<inter> monitor_id ` set (monitors_of (list_step u print call w)) = {}"
    proof -
      have "set (fresh_id call) \<inter> set (concat (map fresh_id calls)) = {}" "set (concat (map fresh_id calls)) \<inter> monitor_id ` set (monitors_of w) = {}"
        using Cons.prems(2,3) by auto
      then show ?thesis using s by blast
    qed
    then show ?case using Cons.IH s Cons.prems(2) by auto
  qed simp
  moreover have "unique_watches (monitors_of w)" using assms(2) by (simp add: unique_watches_def)
  ultimately show ?thesis using assms by simp
qed

theorem one_monitor_per_run_and_thread_witness:
  "unique_watches (monitors_of (fold (list_step ascii_letters (\<lambda>_. []))
     [RegisterCall small_registration (lit ''1'') 0, RegisterCall small_registration (lit ''2'') 1, CancelCall (lit ''mon-1'') 2,
      RegisterCall small_registration (lit ''3'') 3, TickCall completed_files 4]
     \<lparr>monitor_file = NoMonitorFile, can_write_monitors = True, agent_threads = small_store\<rparr>))"
  by (rule one_monitor_per_run_and_thread) (simp_all add: lit_def monitors_of_def)

subsection \<open>Two ways a tick goes wrong\<close>

definition first_monitor :: run_monitor where "first_monitor = new_monitor small_registration (lit ''1'') 0"

definition running_files :: run_files where "running_files = completed_files\<lparr>read_meta := \<lambda>_. Some no_meta\<rparr>"

definition watched_world :: monitor_world where
  "watched_world = \<lparr>monitor_file = MonitorFile [first_monitor], can_write_monitors = True, agent_threads = small_store\<rparr>"

definition no_ticks :: tick_summary where "no_ticks = \<lparr>ticked_polled = 0, ticked_heartbeats = 0, ticked_finished = 0\<rparr>"

lemma first_monitor_fields [simp]:
  "monitor_id first_monitor = lit ''mon-1''" "monitor_is_active first_monitor" "next_poll_at first_monitor = 0"
  "mon_thread first_monitor = lit ''t_1''"
  by (simp_all add: first_monitor_def new_monitor_def small_registration_def monitor_is_active_def lit_def)

lemma running_poll:
  "\<exists>r'. poll_record running_files now first_monitor = (r', None) \<and> monitor_id r' = lit ''mon-1'' \<and> monitor_is_active r'"
proof -
  obtain ob where o: "observe_record running_files now first_monitor = Some ob" "ob_state ob = RunRunning"
    by (simp add: observe_record_def Let_def running_files_def completed_files_def no_meta_def classify_run_state_def first_monitor_def
        new_monitor_def small_registration_def option_or_def)
  have "decide_heartbeat first_monitor RunRunning = None" by (simp add: decide_heartbeat_def first_monitor_def new_monitor_def)
  then show ?thesis using o first_monitor_fields(2)
    by (simp add: poll_record_def observed_poll_def Let_def monitor_is_active_def del: first_monitor_fields(2))
qed

text \<open>A cancellation that lands between the reading of the active monitors and the checkpoint of the tick is lost: the record
  that the tick writes back is the one it read, and the cancelled monitor is active again.
\<close>

theorem cancellation_lost_in_tick:
  "\<exists>rs cancelled. active_monitors watched_world = Inr rs
     \<and> cancel_monitor (lit ''mon-1'') 1 watched_world = (cancelled, Inr True)
     \<and> map monitor_is_active (monitors_of cancelled) = [False]
     \<and> map monitor_is_active (monitors_of (fst (tick_records u print running_files 2 rs no_ticks cancelled))) = [True]"
proof -
  define cancelled where "cancelled = watched_world\<lparr>monitor_file := MonitorFile [cancel_record 1 first_monitor]\<rparr>"
  have a: "active_monitors watched_world = Inr [first_monitor]"
    by (simp add: active_monitors_def load_monitors_def watched_world_def)
  have c: "cancel_monitor (lit ''mon-1'') 1 watched_world = (cancelled, Inr True)"
    by (simp add: cancel_monitor_def load_monitors_def watched_world_def save_monitors_def cancelled_def)
  obtain r' where r': "poll_record running_files 2 first_monitor = (r', None)" "monitor_id r' = lit ''mon-1''" "monitor_is_active r'"
    using running_poll by blast
  have "monitor_id (cancel_record 1 first_monitor) = lit ''mon-1''" by (simp add: cancel_record_def)
  then have "update_monitor r' cancelled = (cancelled\<lparr>monitor_file := MonitorFile [r']\<rparr>, Inr ())"
    using r'(2) by (simp add: update_monitor_def load_monitors_def cancelled_def watched_world_def save_monitors_def)
  then have t: "monitors_of (fst (tick_records u print running_files 2 [first_monitor] no_ticks cancelled)) = [r']"
    using r'(1) by (simp add: tick_record_def monitors_of_def)
  have "monitors_of cancelled = [cancel_record 1 first_monitor]" by (simp add: cancelled_def monitors_of_def)
  then show ?thesis using a c t r'(3) by (simp add: cancel_record_def monitor_is_active_def)
qed

definition second_monitor :: run_monitor where
  "second_monitor = new_monitor (small_registration\<lparr>reg_run_id := lit ''work-2'', reg_thread := lit ''t_2''\<rparr>) (lit ''2'') 0"

definition stuck_world :: monitor_world where
  "stuck_world = \<lparr>monitor_file = MonitorFile [first_monitor, second_monitor], can_write_monitors = True,
     agent_threads = small_store\<lparr>thread_files := [(lit ''t_1'', None)]\<rparr>\<rparr>"

text \<open>A heartbeat that cannot be delivered ends the tick: with one unreadable thread file every tick, at any time, fails before
  it looks at the later monitors and leaves the world as it was, so their runs are never reported.
\<close>

theorem undeliverable_heartbeat_starves_the_rest:
  "tick_all u print completed_files (int n) stuck_world = (stuck_world, Inl (HeartbeatUndelivered (StoreFailed ThreadUnreadable)))
     \<and> (\<exists>body. snd (poll_record completed_files (int n) second_monitor) = Some (body, RunCompleted))"
proof -
  have a: "active_monitors stuck_world = Inr [first_monitor, second_monitor]"
    by (simp add: active_monitors_def load_monitors_def stuck_world_def) (simp add: second_monitor_def new_monitor_def monitor_is_active_def)
  obtain body r' where p: "poll_record completed_files (int n) first_monitor = (r', Some (body, RunCompleted))"
    using small_poll [of "int n" "lit ''1''" 0] by (cases "poll_record completed_files (int n) first_monitor") (auto simp: first_monitor_def)
  have "find_existing u (lit ''t_1'') (agent_threads stuck_world) = (agent_threads stuck_world, Inl ThreadUnreadable)"
    by (simp add: find_existing_def small_names stuck_world_def load_thread_def load_thread_raw_def)
  then have "deliver_heartbeat u print first_monitor body RunCompleted (int n) (agent_threads stuck_world)
      = (agent_threads stuck_world, Inl (StoreFailed ThreadUnreadable))"
    by (simp add: deliver_heartbeat_def)
  then have "tick_record u print completed_files (int n) first_monitor k stuck_world
      = (stuck_world, Inl (HeartbeatUndelivered (StoreFailed ThreadUnreadable)))" for k
    using p by (simp add: tick_record_def)
  then have t: "tick_all u print completed_files (int n) stuck_world = (stuck_world, Inl (HeartbeatUndelivered (StoreFailed ThreadUnreadable)))"
    using a by (simp add: tick_all_def)
  have "observe_record completed_files (int n) second_monitor = Some \<lparr>ob_state = RunCompleted, ob_exit_code = Some 0,
     ob_meta_status = Some (lit ''completed''), ob_report_present = True, ob_report_path = Some (lit ''/cp/report.md''), ob_meta_len = 10,
     ob_transcript_len = 0\<rparr>"
    by (simp add: observe_record_def Let_def concrete_run second_monitor_def new_monitor_def option_or_def classify_run_state_def lit_def)
  then have "\<exists>body. snd (poll_record completed_files (int n) second_monitor) = Some (body, RunCompleted)"
    by (simp add: poll_record_def observed_poll_def Let_def) (simp add: decide_heartbeat_def second_monitor_def new_monitor_def)
  with t show ?thesis by blast
qed

end
