(* ===== verification/Consult_Journal.thy ===== *)
theory Consult_Journal
  imports Thread_Delivery Machines "HOL-Library.Sublist"
begin

section \<open>The journal of a Max consultation\<close>

text \<open>
  \<open>core/agent/thread_store/consultation.rs\<close>: what makes the execution of consultation turns safe against crashes. The
  journal keeps one admission state per consultation, which every operation rewrites through a temporary file, a rename and
  a sync of the directory. A write may therefore land, be refused, or land without the sync, which the operation reports
  as an error although the file has changed; a loss of power brings back what was synced last. The lock of the owner is the
  presence of a held journal. Identities are sets where the code has \<open>BTreeSet\<close>.
\<close>

subsection \<open>State\<close>

record queued_instruction =
  q_turn_id :: rstr
  q_input :: message
  q_provider_name :: rstr
  q_options :: json
  q_group :: "json option"

record admission_state =
  completed :: "rstr set"
  pending_turn :: "rstr option"
  queued :: "queued_instruction list"
  abandoned :: "rstr set"

definition no_admissions :: admission_state where
  "no_admissions = \<lparr>completed = {}, pending_turn = None, queued = [], abandoned = {}\<rparr>"

record dropped_input =
  dropped_turn_id :: rstr
  text_preview :: rstr

record consultation_recovery =
  abandoned_turn_id :: "rstr option"
  dropped_inputs :: "dropped_input list"
  recovery_cause :: rstr

definition DROPPED_PREVIEW_CHARS :: nat where "DROPPED_PREVIEW_CHARS = 120"

fun text_block :: "content_block \<Rightarrow> rstr option" where
  "text_block (BText s) = Some s"
| "text_block b = None"

definition to_dropped_input :: "queued_instruction \<Rightarrow> dropped_input" where
  "to_dropped_input q =
     \<lparr>dropped_turn_id = q_turn_id q,
      text_preview =
        (if msg_role (q_input q) = User
         then let words = join_with [32] (List.map_filter text_block (content (q_input q)))
              in trim_end (take DROPPED_PREVIEW_CHARS (join_with [32] (split_whitespace words)))
         else [])\<rparr>"

record journal =
  admissions :: admission_state
  recovery_reason :: "rstr option"
  journal_recovery :: "consultation_recovery option"

datatype journal_file = JournalAbsent | JournalCorrupt | JournalFile admission_state

record journal_disk =
  journal_now :: journal_file
  journal_synced :: journal_file

datatype write_outcome = WriteDone | WriteRefused | WriteUnsynced

datatype journal_error =
    RecoveryRequired
  | TurnIdentityRequired
  | AlreadyAdmitted
  | PotentiallyExecuted
  | DiscardOutOfOrder
  | AlreadyExecuting
  | AlreadyResolved
  | NotAdmittedFront
  | CompletionMismatch
  | JournalWriteFailed
  | JournalUnreadable
  | AlreadyOwned
  | BadJournalId store_error

subsection \<open>Operations\<close>

definition require_recovery :: "rstr \<Rightarrow> journal \<Rightarrow> journal" where
  "require_recovery reason j = j\<lparr>recovery_reason := Some (unwrap_or reason (recovery_reason j))\<rparr>"

definition persist_json :: "write_outcome \<Rightarrow> admission_state \<Rightarrow> journal_disk \<Rightarrow> journal_disk \<times> bool" where
  "persist_json out st d =
     (case out of
        WriteDone \<Rightarrow> (\<lparr>journal_now = JournalFile st, journal_synced = JournalFile st\<rparr>, True)
      | WriteRefused \<Rightarrow> (d, False)
      | WriteUnsynced \<Rightarrow> (d\<lparr>journal_now := JournalFile st\<rparr>, False))"

definition persist :: "write_outcome \<Rightarrow> journal \<Rightarrow> journal_disk \<Rightarrow> journal \<times> journal_disk \<times> (journal_error + unit)" where
  "persist out j d =
     (case persist_json out (admissions j) d of
        (d', True) \<Rightarrow> (j, d', Inr ())
      | (d', False) \<Rightarrow> (require_recovery (lit ''consultation journal write uncertain'') j, d', Inl JournalWriteFailed))"

definition has_completed_turns :: "journal \<Rightarrow> bool" where
  "has_completed_turns j \<longleftrightarrow> completed (admissions j) \<noteq> {}"

definition take_recovery :: "journal \<Rightarrow> journal \<times> consultation_recovery option" where
  "take_recovery j = (j\<lparr>journal_recovery := None\<rparr>, journal_recovery j)"

definition abandon_unfinished ::
  "rstr \<Rightarrow> write_outcome \<Rightarrow> journal \<Rightarrow> journal_disk \<Rightarrow> journal \<times> journal_disk \<times> (journal_error + consultation_recovery option)" where
  "abandon_unfinished reason out j d =
     (let st = admissions j
      in if pending_turn st = None \<and> queued st = [] then (j, d, Inr None)
         else let retired = (case pending_turn st of Some turn \<Rightarrow> insert turn (abandoned st) | None \<Rightarrow> abandoned st);
                  st' = st\<lparr>pending_turn := None, queued := [], abandoned := retired\<rparr>
              in case persist out (j\<lparr>admissions := st'\<rparr>) d of
                   (j', d', Inl e) \<Rightarrow>
                     (j'\<lparr>admissions := st'\<lparr>abandoned := (case pending_turn st of Some turn \<Rightarrow> retired - {turn} | None \<Rightarrow> retired),
                                           queued := queued st, pending_turn := pending_turn st\<rparr>\<rparr>, d', Inl e)
                 | (j', d', Inr _) \<Rightarrow>
                     (j', d', Inr (Some \<lparr>abandoned_turn_id = pending_turn st, dropped_inputs = map to_dropped_input (queued st),
                                         recovery_cause = reason\<rparr>)))"

definition open_journal :: "rstr \<Rightarrow> write_outcome \<Rightarrow> journal_disk \<Rightarrow> journal_disk \<times> (journal_error + journal)" where
  "open_journal i out d =
     (case validate_thread_id i of
        Inl e \<Rightarrow> (d, Inl (BadJournalId e))
      | Inr _ \<Rightarrow>
          (case (case journal_now d of JournalFile st \<Rightarrow> Some st | JournalAbsent \<Rightarrow> Some no_admissions | JournalCorrupt \<Rightarrow> None) of
             None \<Rightarrow> (d, Inl JournalUnreadable)
           | Some st \<Rightarrow>
               (case abandon_unfinished (lit ''owner restarted before the turn finished'') out
                       \<lparr>admissions = st, recovery_reason = None, journal_recovery = None\<rparr> d of
                  (j, d', Inl e) \<Rightarrow> (d', Inl e)
                | (j, d', Inr recovery) \<Rightarrow> (d', Inr (j\<lparr>journal_recovery := recovery\<rparr>)))))"

definition is_front :: "rstr \<Rightarrow> admission_state \<Rightarrow> bool" where
  "is_front turn st \<longleftrightarrow> (case queued st of entry # _ \<Rightarrow> q_turn_id entry = turn | [] \<Rightarrow> False)"

definition accept_input ::
  "queued_instruction \<Rightarrow> write_outcome \<Rightarrow> journal \<Rightarrow> journal_disk \<Rightarrow> journal \<times> journal_disk \<times> (journal_error + unit)" where
  "accept_input q out j d =
     (let st = admissions j
      in if recovery_reason j \<noteq> None then (j, d, Inl RecoveryRequired)
         else if trim (q_turn_id q) = [] then (j, d, Inl TurnIdentityRequired)
         else if \<not> (q_turn_id q \<notin> completed st \<and> q_turn_id q \<notin> abandoned st \<and> \<not> list_ex (\<lambda>entry. q_turn_id entry = q_turn_id q) (queued st))
         then (j, d, Inl AlreadyAdmitted)
         else persist out (j\<lparr>admissions := st\<lparr>queued := queued st @ [q]\<rparr>\<rparr>) d)"

definition discard_unstarted ::
  "rstr \<Rightarrow> write_outcome \<Rightarrow> journal \<Rightarrow> journal_disk \<Rightarrow> journal \<times> journal_disk \<times> (journal_error + unit)" where
  "discard_unstarted turn out j d =
     (let st = admissions j
      in if recovery_reason j \<noteq> None then (j, d, Inl RecoveryRequired)
         else if pending_turn st \<noteq> None then (j, d, Inl PotentiallyExecuted)
         else if \<not> is_front turn st then (j, d, Inl DiscardOutOfOrder)
         else case persist out (j\<lparr>admissions := st\<lparr>queued := tl (queued st)\<rparr>\<rparr>) d of
                (j', d', Inl e) \<Rightarrow> (j'\<lparr>admissions := st\<rparr>, d', Inl e)
              | (j', d', Inr _) \<Rightarrow> (j', d', Inr ()))"

definition begin_turn ::
  "rstr \<Rightarrow> write_outcome \<Rightarrow> journal \<Rightarrow> journal_disk \<Rightarrow> journal \<times> journal_disk \<times> (journal_error + unit)" where
  "begin_turn turn out j d =
     (let st = admissions j
      in if recovery_reason j \<noteq> None then (j, d, Inl RecoveryRequired)
         else if pending_turn st \<noteq> None then (j, d, Inl AlreadyExecuting)
         else if \<not> (turn \<notin> completed st \<and> turn \<notin> abandoned st) then (j, d, Inl AlreadyResolved)
         else if \<not> is_front turn st then (j, d, Inl NotAdmittedFront)
         else persist out (j\<lparr>admissions := st\<lparr>pending_turn := Some turn\<rparr>\<rparr>) d)"

definition complete_turn ::
  "rstr \<Rightarrow> write_outcome \<Rightarrow> journal \<Rightarrow> journal_disk \<Rightarrow> journal \<times> journal_disk \<times> (journal_error + unit)" where
  "complete_turn turn out j d =
     (let st = admissions j
      in if recovery_reason j \<noteq> None then (j, d, Inl RecoveryRequired)
         else if pending_turn st \<noteq> Some turn then (j, d, Inl CompletionMismatch)
         else if \<not> is_front turn st then (j, d, Inl NotAdmittedFront)
         else let st' = st\<lparr>queued := tl (queued st), completed := insert turn (completed st), pending_turn := None\<rparr>
              in case persist out (j\<lparr>admissions := st'\<rparr>) d of
                   (j', d', Inl e) \<Rightarrow> (j'\<lparr>admissions := st'\<lparr>pending_turn := Some turn, queued := queued st\<rparr>\<rparr>, d', Inl e)
                 | (j', d', Inr _) \<Rightarrow> (j', d', Inr ()))"

subsection \<open>The life of a consultation\<close>

text \<open>
  Owners come and go: a drop is the end of an owner, by a close or by a crash of its process, a loss of power also takes back
  what was not synced. A second owner is refused as long as one holds the journal.
\<close>

datatype journal_call =
    OpenJournal rstr write_outcome
  | AcceptInput queued_instruction write_outcome
  | DiscardUnstarted rstr write_outcome
  | BeginTurn rstr write_outcome
  | CompleteTurn rstr write_outcome
  | AbandonUnfinished rstr write_outcome
  | RequireRecovery rstr
  | TakeRecovery
  | DropOwner
  | PowerLoss

datatype journal_event = JOpened | JAccepted rstr | JDiscarded rstr | JBegan rstr | JCompleted rstr | JAbandoned

type_synonym consultation = "journal option \<times> journal_disk"

definition told :: "journal_event \<Rightarrow> journal \<times> journal_disk \<times> (journal_error + 'a) \<Rightarrow> consultation \<times> journal_event option" where
  "told e r = (case r of (j, d, Inl _) \<Rightarrow> ((Some j, d), None) | (j, d, Inr _) \<Rightarrow> ((Some j, d), Some e))"

fun journal_step :: "journal_call \<Rightarrow> consultation \<Rightarrow> consultation \<times> journal_event option" where
  "journal_step (OpenJournal i out) (None, d) =
     (case open_journal i out d of (d', Inl _) \<Rightarrow> ((None, d'), None) | (d', Inr j) \<Rightarrow> ((Some j, d'), Some JOpened))"
| "journal_step (AcceptInput q out) (Some j, d) = told (JAccepted (q_turn_id q)) (accept_input q out j d)"
| "journal_step (DiscardUnstarted turn out) (Some j, d) = told (JDiscarded turn) (discard_unstarted turn out j d)"
| "journal_step (BeginTurn turn out) (Some j, d) = told (JBegan turn) (begin_turn turn out j d)"
| "journal_step (CompleteTurn turn out) (Some j, d) = told (JCompleted turn) (complete_turn turn out j d)"
| "journal_step (AbandonUnfinished reason out) (Some j, d) =
     (case abandon_unfinished reason out j d of
        (j', d', Inr None) \<Rightarrow> ((Some j', d'), None) | r \<Rightarrow> told JAbandoned r)"
| "journal_step (RequireRecovery reason) (Some j, d) = ((Some (require_recovery reason j), d), None)"
| "journal_step TakeRecovery (Some j, d) = ((Some (fst (take_recovery j)), d), None)"
| "journal_step DropOwner (held, d) = ((None, d), None)"
| "journal_step PowerLoss (held, d) = ((None, d\<lparr>journal_now := journal_synced d\<rparr>), None)"
| "journal_step call s = (s, None)"

end
