(* ===== verification/Consult_Protocol.thy ===== *)
theory Consult_Protocol
  imports Consult_Journal
begin

section \<open>At most once, in order\<close>

text \<open>
  The abstract consultation: who waits, who executes, who is over. It knows nothing of files, writes and owners. The journal
  refines it, whatever its writes do and whenever its owner dies, and the guarantees of the abstract protocol are guarantees
  of the journal.
\<close>

record consult_spec =
  waiting :: "rstr list"
  executing :: "rstr option"
  settled :: "rstr set"

definition fresh_spec :: consult_spec where
  "fresh_spec = \<lparr>waiting = [], executing = None, settled = {}\<rparr>"

definition executing_set :: "consult_spec \<Rightarrow> rstr set" where
  "executing_set m = set_option (executing m)"

definition settle :: "consult_spec \<Rightarrow> consult_spec" where
  "settle m = \<lparr>waiting = [], executing = None, settled = settled m \<union> executing_set m\<rparr>"

fun consult_protocol :: "consult_spec \<Rightarrow> journal_event \<Rightarrow> consult_spec option" where
  "consult_protocol m JOpened = Some (settle m)"
| "consult_protocol m JAbandoned = Some (settle m)"
| "consult_protocol m (JAccepted turn) =
     (if turn \<in> set (waiting m) \<union> executing_set m \<union> settled m then None else Some (m\<lparr>waiting := waiting m @ [turn]\<rparr>))"
| "consult_protocol m (JDiscarded turn) =
     (if executing m = None \<and> waiting m \<noteq> [] \<and> hd (waiting m) = turn then Some (m\<lparr>waiting := tl (waiting m)\<rparr>) else None)"
| "consult_protocol m (JBegan turn) =
     (if executing m = None \<and> waiting m \<noteq> [] \<and> hd (waiting m) = turn \<and> turn \<notin> settled m
      then Some (m\<lparr>waiting := tl (waiting m), executing := Some turn\<rparr>) else None)"
| "consult_protocol m (JCompleted turn) =
     (if executing m = Some turn then Some (m\<lparr>executing := None, settled := insert turn (settled m)\<rparr>) else None)"

subsection \<open>The journal refines the protocol\<close>

definition state_knows :: "admission_state \<Rightarrow> rstr set" where
  "state_knows st = completed st \<union> abandoned st \<union> set_option (pending_turn st)"

definition file_knows :: "journal_file \<Rightarrow> rstr set" where
  "file_knows f = (case f of JournalAbsent \<Rightarrow> {} | JournalCorrupt \<Rightarrow> UNIV | JournalFile st \<Rightarrow> state_knows st)"

definition disk_knows :: "journal_disk \<Rightarrow> rstr set" where
  "disk_knows d = file_knows (journal_now d) \<inter> file_knows (journal_synced d)"

definition in_step :: "journal \<Rightarrow> consult_spec \<Rightarrow> bool" where
  "in_step j m \<longleftrightarrow> pending_turn (admissions j) = executing m
     \<and> map q_turn_id (queued (admissions j)) = (case executing m of Some turn \<Rightarrow> turn # waiting m | None \<Rightarrow> waiting m)"

definition spent :: "consult_spec \<Rightarrow> rstr set" where
  "spent m = settled m \<union> executing_set m"

definition consult_sim :: "consultation \<Rightarrow> consult_spec \<Rightarrow> bool" where
  "consult_sim s m \<longleftrightarrow> spent m \<subseteq> disk_knows (snd s)
     \<and> (case fst s of None \<Rightarrow> True | Some j \<Rightarrow> spent m \<subseteq> state_knows (admissions j) \<and> (recovery_reason j = None \<longrightarrow> in_step j m))"

lemma spent_simps [simp]: "spent (settle m) = spent m" "spent fresh_spec = {}" "spent (m\<lparr>waiting := w\<rparr>) = spent m"
  by (auto simp: spent_def settle_def fresh_spec_def executing_set_def)

lemma front_waiting:
  "is_front turn st \<Longrightarrow> \<exists>q qs. queued st = q # qs \<and> q_turn_id q = turn"
  by (auto simp: is_front_def split: list.splits)

text \<open>A write keeps what the files know, when the new state knows it.\<close>

lemma persist_knows:
  assumes "persist out j d = (j', d', r)" and "X \<subseteq> disk_knows d" and "X \<subseteq> state_knows (admissions j)"
  shows "X \<subseteq> disk_knows d'" and "admissions j' = admissions j" and "r \<noteq> Inr () \<Longrightarrow> recovery_reason j' \<noteq> None"
    and "r = Inr () \<Longrightarrow> j' = j \<and> journal_now d' = JournalFile (admissions j) \<and> journal_synced d' = JournalFile (admissions j)"
  using assms by (auto simp: persist_def persist_json_def disk_knows_def file_knows_def require_recovery_def split: write_outcome.splits)

lemma abandon_sim:
  assumes "abandon_unfinished reason out j d = (j', d', r)" and "X \<subseteq> disk_knows d" and "X \<subseteq> state_knows (admissions j)"
  shows "X \<subseteq> disk_knows d'" and "X \<subseteq> state_knows (admissions j')"
    and "r = Inr recovery \<Longrightarrow> pending_turn (admissions j') = None \<and> queued (admissions j') = [] \<and> recovery_reason j' = recovery_reason j"
    and "r = Inl e \<Longrightarrow> recovery_reason j' \<noteq> None"
    and "r = Inr None \<Longrightarrow> j' = j \<and> d' = d"
proof -
  define st where "st = admissions j"
  define retired where "retired = (case pending_turn st of Some turn \<Rightarrow> insert turn (abandoned st) | None \<Rightarrow> abandoned st)"
  define st' where "st' = st\<lparr>pending_turn := None, queued := [], abandoned := retired\<rparr>"
  have "X \<subseteq> disk_knows d' \<and> X \<subseteq> state_knows (admissions j')
    \<and> (\<forall>recovery. r = Inr recovery \<longrightarrow> pending_turn (admissions j') = None \<and> queued (admissions j') = [] \<and> recovery_reason j' = recovery_reason j)
    \<and> (\<forall>e. r = Inl e \<longrightarrow> recovery_reason j' \<noteq> None) \<and> (r = Inr None \<longrightarrow> j' = j \<and> d' = d)"
  proof (cases "pending_turn st = None \<and> queued st = []")
    case True
    then show ?thesis using assms by (auto simp: abandon_unfinished_def st_def Let_def)
  next
    case False
    obtain j1 d1 r1 where p: "persist out (j\<lparr>admissions := st'\<rparr>) d = (j1, d1, r1)" by (metis prod_cases3)
    have X: "X \<subseteq> state_knows st'"
      using assms(3) by (auto simp: state_knows_def st'_def retired_def st_def split: option.splits)
    note k = persist_knows [OF p assms(2), simplified, OF X]
    show ?thesis
    proof (cases r1)
      case (Inl e)
      then have res: "d' = d1" "r = Inl e" "j' = j1\<lparr>admissions := st\<lparr>abandoned := (case pending_turn st of Some turn \<Rightarrow> retired - {turn} | None \<Rightarrow> retired)\<rparr>\<rparr>"
        using assms(1) False p by (auto simp: abandon_unfinished_def Let_def simp flip: st_def retired_def st'_def)
      have "X \<subseteq> state_knows (admissions j')"
        using assms(3) by (auto simp: state_knows_def res retired_def st_def split: option.splits)
      then show ?thesis using k res Inl by simp
    next
      case (Inr x)
      then have res: "d' = d1" "j' = j1" "\<exists>rec. r = Inr (Some rec)"
        using assms(1) False p by (auto simp: abandon_unfinished_def Let_def simp flip: st_def retired_def st'_def)
      then show ?thesis using k X Inr by (auto simp: st'_def)
    qed
  qed
  then show "X \<subseteq> disk_knows d'" "X \<subseteq> state_knows (admissions j')"
    "r = Inr recovery \<Longrightarrow> pending_turn (admissions j') = None \<and> queued (admissions j') = [] \<and> recovery_reason j' = recovery_reason j"
    "r = Inl e \<Longrightarrow> recovery_reason j' \<noteq> None" "r = Inr None \<Longrightarrow> j' = j \<and> d' = d" by simp_all
qed

text \<open>A successful write: the files and the journal know the same, and nothing else of the journal changed.\<close>

lemma written_sim:
  assumes "persist out (j\<lparr>admissions := st'\<rparr>) d = (j', d', Inr ())" and "spent m' \<subseteq> state_knows st'"
    and "in_step (j\<lparr>admissions := st'\<rparr>) m'"
  shows "consult_sim (Some j', d') m'"
  using persist_knows(4) [OF assms(1), of "{}"] assms(2,3)
  by (simp add: consult_sim_def disk_knows_def file_knows_def)

text \<open>A failed one: the files may be either, and no operation but an abandonment follows.\<close>

lemma unwritten_sim:
  assumes "persist out (j\<lparr>admissions := st'\<rparr>) d = (j', d', Inl e)" and "spent m \<subseteq> disk_knows d" and "spent m \<subseteq> state_knows st'"
    and "spent m \<subseteq> state_knows st''"
  shows "consult_sim (Some (j'\<lparr>admissions := st''\<rparr>), d') m" and "consult_sim (Some j', d') m"
  using persist_knows [OF assms(1), of "spent m"] assms by (auto simp: consult_sim_def)

lemma open_sim:
  assumes "open_journal i out d = (d', r)" and "consult_sim (None, d) m"
  shows "case r of Inl _ \<Rightarrow> consult_sim (None, d') m | Inr j \<Rightarrow> consult_sim (Some j, d') (settle m)"
proof (cases "validate_thread_id i")
  case (Inr x)
  have X: "spent m \<subseteq> disk_knows d" using assms(2) by (simp add: consult_sim_def)
  show ?thesis
  proof (cases "journal_now d = JournalCorrupt")
    case True
    then show ?thesis using assms Inr by (auto simp: open_journal_def)
  next
    case False
    define st where "st = (case journal_now d of JournalFile st \<Rightarrow> st | _ \<Rightarrow> no_admissions)"
    define j0 where "j0 = \<lparr>admissions = st, recovery_reason = None, journal_recovery = None\<rparr>"
    have k: "spent m \<subseteq> state_knows (admissions j0)"
      using X False by (auto simp: j0_def st_def disk_knows_def file_knows_def split: journal_file.splits)
    obtain j1 d1 r1 where a: "abandon_unfinished (lit ''owner restarted before the turn finished'') out j0 d = (j1, d1, r1)"
      by (metis prod_cases3)
    note s = abandon_sim [OF a X k]
    show ?thesis
    proof (cases r1)
      case (Inl e)
      then have "d' = d1" "r = Inl e" using assms(1) Inr a False
        by (auto simp: open_journal_def j0_def st_def split: journal_file.splits)
      then show ?thesis using s(1) by (simp add: consult_sim_def)
    next
      case (Inr recovery)
      then have r: "d' = d1" "r = Inr (j1\<lparr>journal_recovery := recovery\<rparr>)" using assms(1) \<open>validate_thread_id i = Inr x\<close> a False
        by (auto simp: open_journal_def j0_def st_def split: journal_file.splits)
      then show ?thesis using s(1,2) s(3) [OF Inr] by (simp add: consult_sim_def in_step_def settle_def spent_def executing_set_def)
    qed
  qed
qed (use assms in \<open>auto simp: open_journal_def\<close>)

lemma spent_known_queue:
  assumes "in_step j m" and "spent m \<subseteq> state_knows (admissions j)" and "turn \<notin> completed (admissions j)" "turn \<notin> abandoned (admissions j)"
    and "\<not> list_ex (\<lambda>entry. q_turn_id entry = turn) (queued (admissions j))"
  shows "turn \<notin> set (waiting m) \<union> executing_set m \<union> settled m"
proof -
  have ids: "turn \<notin> set (map q_turn_id (queued (admissions j)))" using assms(5) by (auto simp: list_ex_iff)
  moreover have "set (waiting m) \<union> executing_set m \<subseteq> set (map q_turn_id (queued (admissions j)))"
    using assms(1) by (auto simp: in_step_def executing_set_def simp del: set_map list.set_map split: option.splits)
  ultimately have "turn \<notin> set (waiting m)" "turn \<notin> executing_set m" by blast+
  moreover have "turn \<notin> settled m"
    using assms(1-4) calculation(2) by (auto simp: spent_def state_knows_def in_step_def executing_set_def)
  ultimately show ?thesis by blast
qed

lemma accept_sim:
  assumes "accept_input q out j d = (j', d', r)" and "consult_sim (Some j, d) m"
  shows "case r of Inl _ \<Rightarrow> consult_sim (Some j', d') m
    | Inr _ \<Rightarrow> \<exists>m'. consult_protocol m (JAccepted (q_turn_id q)) = Some m' \<and> consult_sim (Some j', d') m'"
proof (cases "recovery_reason j = None \<and> trim (q_turn_id q) \<noteq> [] \<and> q_turn_id q \<notin> completed (admissions j)
    \<and> q_turn_id q \<notin> abandoned (admissions j) \<and> \<not> list_ex (\<lambda>entry. q_turn_id entry = q_turn_id q) (queued (admissions j))")
  case True
  define st' where "st' = (admissions j)\<lparr>queued := queued (admissions j) @ [q]\<rparr>"
  have p: "persist out (j\<lparr>admissions := st'\<rparr>) d = (j', d', r)" using assms(1) True by (simp add: accept_input_def Let_def st'_def)
  have i: "in_step j m" "spent m \<subseteq> state_knows (admissions j)" "spent m \<subseteq> disk_knows d" using assms(2) True by (auto simp: consult_sim_def)
  have k: "state_knows st' = state_knows (admissions j)" by (simp add: st'_def state_knows_def)
  show ?thesis
  proof (cases r)
    case (Inl e)
    then show ?thesis using unwritten_sim(2) [OF p [unfolded Inl] i(3)] i(2) k by simp
  next
    case (Inr x)
    let ?m = "m\<lparr>waiting := waiting m @ [q_turn_id q]\<rparr>"
    have "consult_protocol m (JAccepted (q_turn_id q)) = Some ?m" using spent_known_queue [OF i(1,2)] True by auto
    moreover have "consult_sim (Some j', d') ?m"
      using p Inr i k by (intro written_sim [where out = out and j = j and st' = st' and d = d]) (auto simp: in_step_def st'_def split: option.splits)
    ultimately show ?thesis using Inr by auto
  qed
next
  case False
  then have "j' = j \<and> d' = d \<and> (\<exists>e. r = Inl e)" using assms(1) by (auto simp: accept_input_def Let_def split: if_splits)
  then show ?thesis using assms(2) by auto
qed

lemma in_step_front:
  assumes "in_step j m" and "pending_turn (admissions j) = None" and "is_front turn (admissions j)"
  shows "executing m = None \<and> waiting m = turn # map q_turn_id (tl (queued (admissions j)))"
  using assms front_waiting [OF assms(3)] by (auto simp: in_step_def)

lemma discard_sim:
  assumes "discard_unstarted turn out j d = (j', d', r)" and "consult_sim (Some j, d) m"
  shows "case r of Inl _ \<Rightarrow> consult_sim (Some j', d') m
    | Inr _ \<Rightarrow> \<exists>m'. consult_protocol m (JDiscarded turn) = Some m' \<and> consult_sim (Some j', d') m'"
proof (cases "recovery_reason j = None \<and> pending_turn (admissions j) = None \<and> is_front turn (admissions j)")
  case True
  define st' where "st' = (admissions j)\<lparr>queued := tl (queued (admissions j))\<rparr>"
  obtain j1 d1 r1 where p: "persist out (j\<lparr>admissions := st'\<rparr>) d = (j1, d1, r1)" by (metis prod_cases3)
  have i: "in_step j m" "spent m \<subseteq> state_knows (admissions j)" "spent m \<subseteq> disk_knows d" using assms(2) True by (auto simp: consult_sim_def)
  have k: "state_knows st' = state_knows (admissions j)" by (simp add: st'_def state_knows_def)
  have w: "executing m = None" "waiting m = turn # map q_turn_id (queued st')" using in_step_front [OF i(1)] True by (auto simp: st'_def)
  show ?thesis
  proof (cases r1)
    case (Inl e)
    then have "j' = j1\<lparr>admissions := admissions j\<rparr> \<and> d' = d1 \<and> r = Inl e" using assms(1) True p
      by (auto simp: discard_unstarted_def Let_def simp flip: st'_def)
    then show ?thesis using unwritten_sim(1) [OF p [unfolded Inl] i(3) _ i(2)] i(2) k by simp
  next
    case (Inr x)
    then have res: "j' = j1" "d' = d1" "r = Inr ()" using assms(1) True p by (auto simp: discard_unstarted_def Let_def simp flip: st'_def)
    have "consult_sim (Some j1, d1) (m\<lparr>waiting := tl (waiting m)\<rparr>)"
      using p Inr i k w True by (intro written_sim [where out = out and j = j and st' = st' and d = d]) (auto simp: in_step_def st'_def)
    then show ?thesis using res w by simp
  qed
next
  case False
  then have "j' = j \<and> d' = d \<and> (\<exists>e. r = Inl e)" using assms(1) by (auto simp: discard_unstarted_def Let_def split: if_splits)
  then show ?thesis using assms(2) by auto
qed

lemma begin_sim:
  assumes "begin_turn turn out j d = (j', d', r)" and "consult_sim (Some j, d) m"
  shows "case r of Inl _ \<Rightarrow> consult_sim (Some j', d') m
    | Inr _ \<Rightarrow> \<exists>m'. consult_protocol m (JBegan turn) = Some m' \<and> consult_sim (Some j', d') m'"
proof (cases "recovery_reason j = None \<and> pending_turn (admissions j) = None \<and> turn \<notin> completed (admissions j)
    \<and> turn \<notin> abandoned (admissions j) \<and> is_front turn (admissions j)")
  case True
  define st' where "st' = (admissions j)\<lparr>pending_turn := Some turn\<rparr>"
  have p: "persist out (j\<lparr>admissions := st'\<rparr>) d = (j', d', r)" using assms(1) True by (simp add: begin_turn_def Let_def st'_def)
  have i: "in_step j m" "spent m \<subseteq> state_knows (admissions j)" "spent m \<subseteq> disk_knows d" using assms(2) True by (auto simp: consult_sim_def)
  have k: "state_knows st' = insert turn (state_knows (admissions j))" using True by (simp add: st'_def state_knows_def)
  have w: "executing m = None" "waiting m = turn # map q_turn_id (tl (queued (admissions j)))" using in_step_front [OF i(1)] True by auto
  have q: "map q_turn_id (queued (admissions j)) = waiting m" using i(1) w(1) by (simp add: in_step_def)
  show ?thesis
  proof (cases r)
    case (Inl e)
    then show ?thesis using unwritten_sim(2) [OF p [unfolded Inl] i(3)] i(2) k by auto
  next
    case (Inr x)
    let ?m = "m\<lparr>waiting := tl (waiting m), executing := Some turn\<rparr>"
    have "turn \<notin> settled m" using i(2) True by (auto simp: spent_def state_knows_def)
    then have "consult_protocol m (JBegan turn) = Some ?m" using w by simp
    moreover have "consult_sim (Some j', d') ?m"
      using p Inr i k w q by (intro written_sim [where out = out and j = j and st' = st' and d = d]) (auto simp: in_step_def st'_def spent_def executing_set_def)
    ultimately show ?thesis using Inr by auto
  qed
next
  case False
  then have "j' = j \<and> d' = d \<and> (\<exists>e. r = Inl e)" using assms(1) by (auto simp: begin_turn_def Let_def split: if_splits)
  then show ?thesis using assms(2) by auto
qed

lemma complete_sim:
  assumes "complete_turn turn out j d = (j', d', r)" and "consult_sim (Some j, d) m"
  shows "case r of Inl _ \<Rightarrow> consult_sim (Some j', d') m
    | Inr _ \<Rightarrow> \<exists>m'. consult_protocol m (JCompleted turn) = Some m' \<and> consult_sim (Some j', d') m'"
proof (cases "recovery_reason j = None \<and> pending_turn (admissions j) = Some turn \<and> is_front turn (admissions j)")
  case True
  define st' where "st' = (admissions j)\<lparr>queued := tl (queued (admissions j)), completed := insert turn (completed (admissions j)), pending_turn := None\<rparr>"
  obtain j1 d1 r1 where p: "persist out (j\<lparr>admissions := st'\<rparr>) d = (j1, d1, r1)" by (metis prod_cases3)
  have i: "in_step j m" "spent m \<subseteq> state_knows (admissions j)" "spent m \<subseteq> disk_knows d" using assms(2) True by (auto simp: consult_sim_def)
  have k: "state_knows st' = state_knows (admissions j)" using True by (auto simp: st'_def state_knows_def)
  have w: "executing m = Some turn" using i(1) True by (simp add: in_step_def)
  show ?thesis
  proof (cases r1)
    case (Inl e)
    then have res: "j' = j1\<lparr>admissions := (admissions j)\<lparr>completed := insert turn (completed (admissions j))\<rparr>\<rparr>" "d' = d1" "r = Inl e"
      using assms(1) True p by (auto simp: complete_turn_def Let_def simp flip: st'_def) (simp add: st'_def)
    have "spent m \<subseteq> state_knows ((admissions j)\<lparr>completed := insert turn (completed (admissions j))\<rparr>)"
      using i(2) by (auto simp: state_knows_def)
    then show ?thesis using unwritten_sim(1) [OF p [unfolded Inl] i(3)] i(2) k res by simp
  next
    case (Inr x)
    then have res: "j' = j1" "d' = d1" "r = Inr ()" using assms(1) True p by (auto simp: complete_turn_def Let_def simp flip: st'_def)
    have "consult_sim (Some j1, d1) (m\<lparr>executing := None, settled := insert turn (settled m)\<rparr>)"
      using p Inr i k w front_waiting [of turn "admissions j"] True
      by (intro written_sim [where out = out and j = j and st' = st' and d = d]) (auto simp: in_step_def st'_def spent_def executing_set_def)
    then show ?thesis using res w by simp
  qed
next
  case False
  then have "j' = j \<and> d' = d \<and> (\<exists>e. r = Inl e)" using assms(1) by (auto simp: complete_turn_def Let_def split: if_splits)
  then show ?thesis using assms(2) by auto
qed

lemma abandon_step_sim:
  assumes "abandon_unfinished reason out j d = (j', d', r)" and "consult_sim (Some j, d) m"
  shows "case r of Inl _ \<Rightarrow> consult_sim (Some j', d') m | Inr None \<Rightarrow> consult_sim (Some j', d') m
    | Inr (Some _) \<Rightarrow> consult_sim (Some j', d') (settle m)"
proof -
  have k: "spent m \<subseteq> disk_knows d" "spent m \<subseteq> state_knows (admissions j)" using assms(2) by (auto simp: consult_sim_def)
  note s = abandon_sim [OF assms(1) k]
  show ?thesis
  proof (cases r)
    case (Inl e)
    then show ?thesis using s(1,2) s(4) [OF Inl] by (auto simp: consult_sim_def)
  next
    case (Inr recovery)
    show ?thesis
    proof (cases recovery)
      case None
      then have "j' = j \<and> d' = d" using s(5) Inr by blast
      then show ?thesis using assms(2) Inr None by simp
    next
      case (Some c)
      have "in_step j' (settle m)" using s(3) [OF Inr] by (simp add: in_step_def settle_def)
      then show ?thesis using s(1,2) Inr Some by (simp add: consult_sim_def)
    qed
  qed
qed

lemma journal_step_sim:
  assumes "journal_step call s = (s', out)" and "consult_sim s m"
  shows "case out of None \<Rightarrow> consult_sim s' m | Some e \<Rightarrow> \<exists>m'. consult_protocol m e = Some m' \<and> consult_sim s' m'"
proof (cases "(call, s)" rule: journal_step.cases)
  case (1 i w d)
  obtain d' r where o: "open_journal i w d = (d', r)" by fastforce
  from open_sim [OF o] 1 assms o show ?thesis by (auto split: sum.splits)
next
  case (2 q w j d)
  obtain j' d' r where a: "accept_input q w j d = (j', d', r)" by (metis prod_cases3)
  have "consult_sim (Some j, d) m" using 2 assms(2) by simp
  from accept_sim [OF a this] show ?thesis using 2 assms(1) a by (cases r) (auto simp: told_def)
next
  case (3 turn w j d)
  obtain j' d' r where a: "discard_unstarted turn w j d = (j', d', r)" by (metis prod_cases3)
  have "consult_sim (Some j, d) m" using 3 assms(2) by simp
  from discard_sim [OF a this] show ?thesis using 3 assms(1) a by (cases r) (auto simp: told_def)
next
  case (4 turn w j d)
  obtain j' d' r where a: "begin_turn turn w j d = (j', d', r)" by (metis prod_cases3)
  have "consult_sim (Some j, d) m" using 4 assms(2) by simp
  from begin_sim [OF a this] show ?thesis using 4 assms(1) a by (cases r) (auto simp: told_def)
next
  case (5 turn w j d)
  obtain j' d' r where a: "complete_turn turn w j d = (j', d', r)" by (metis prod_cases3)
  have "consult_sim (Some j, d) m" using 5 assms(2) by simp
  from complete_sim [OF a this] show ?thesis using 5 assms(1) a by (cases r) (auto simp: told_def)
next
  case (6 reason w j d)
  obtain j' d' r where a: "abandon_unfinished reason w j d = (j', d', r)" by (metis prod_cases3)
  from abandon_step_sim [OF a] 6 assms a show ?thesis by (auto simp: told_def split: sum.splits option.splits)
next
  case (7 reason j d)
  then show ?thesis using assms by (auto simp: consult_sim_def require_recovery_def)
next
  case (8 j d)
  then show ?thesis using assms by (auto simp: consult_sim_def take_recovery_def in_step_def)
next
  case (9 held d)
  then show ?thesis using assms by (auto simp: consult_sim_def)
next
  case (10 held d)
  then show ?thesis using assms by (auto simp: consult_sim_def disk_knows_def)
qed (use assms in auto)

interpretation consultation_journal: monitored_machine journal_step "\<lambda>_. True" consult_sim consult_protocol
proof unfold_locales
  fix i s m s'
  assume "consult_sim s m" "journal_step i s = (s', None)"
  from journal_step_sim [OF this(2,1)] show "consult_sim s' m" by (simp only: option.case)
next
  fix i s m s' e
  assume "consult_sim s m" "journal_step i s = (s', Some e)"
  from journal_step_sim [OF this(2,1)] show "\<exists>m'. consult_protocol m e = Some m' \<and> consult_sim s' m'" by (simp only: option.case)
qed

subsection \<open>What the protocol guarantees\<close>

fun begun_turn :: "journal_event \<Rightarrow> rstr option" where
  "begun_turn (JBegan turn) = Some turn"
| "begun_turn e = None"

fun accepted_turn :: "journal_event \<Rightarrow> rstr option" where
  "accepted_turn (JAccepted turn) = Some turn"
| "accepted_turn e = None"

fun completed_turn :: "journal_event \<Rightarrow> rstr option" where
  "completed_turn (JCompleted turn) = Some turn"
| "completed_turn e = None"

definition begun :: "journal_event list \<Rightarrow> rstr list" where "begun es = List.map_filter begun_turn es"
definition accepted :: "journal_event list \<Rightarrow> rstr list" where "accepted es = List.map_filter accepted_turn es"
definition finished :: "journal_event list \<Rightarrow> rstr list" where "finished es = List.map_filter completed_turn es"

lemma turn_lists [simp]:
  "begun [] = []" "accepted [] = []" "finished [] = []"
  "begun (e # es) = (case begun_turn e of Some t \<Rightarrow> t # begun es | None \<Rightarrow> begun es)"
  "accepted (e # es) = (case accepted_turn e of Some t \<Rightarrow> t # accepted es | None \<Rightarrow> accepted es)"
  "finished (e # es) = (case completed_turn e of Some t \<Rightarrow> t # finished es | None \<Rightarrow> finished es)"
  by (simp_all add: begun_def accepted_def finished_def List.map_filter_def split: option.split)

lemma protocol_begun:
  "accept consult_protocol m es = Some m' \<Longrightarrow> distinct (begun es) \<and> set (begun es) \<inter> spent m = {}"
proof (induction es arbitrary: m)
  case (Cons e es)
  obtain m1 where m1: "consult_protocol m e = Some m1" "accept consult_protocol m1 es = Some m'"
    using Cons.prems by (auto split: option.splits)
  then have ih: "distinct (begun es) \<and> set (begun es) \<inter> spent m1 = {}" using Cons.IH by blast
  show ?case
  proof (cases "\<exists>turn. e = JBegan turn")
    case True
    then obtain turn where e: "e = JBegan turn" by blast
    then have "executing m = None" "turn \<notin> settled m" "spent m1 = insert turn (spent m)"
      using m1(1) by (auto simp: spent_def executing_set_def split: if_splits)
    then show ?thesis using ih e by (auto simp: spent_def executing_set_def)
  next
    case False
    then have "spent m \<subseteq> spent m1" "begun (e # es) = begun es"
      using m1(1) by (cases e; auto simp: spent_def executing_set_def settle_def split: if_splits)+
    then show ?thesis using ih by auto
  qed
qed simp

lemma protocol_order:
  "accept consult_protocol m es = Some m' \<Longrightarrow> subseq (begun es) (waiting m @ accepted es)"
proof (induction es arbitrary: m)
  case (Cons e es)
  obtain m1 where m1: "consult_protocol m e = Some m1" "accept consult_protocol m1 es = Some m'"
    using Cons.prems by (auto split: option.splits)
  have ih: "subseq (begun es) (waiting m1 @ accepted es)" using Cons.IH m1(2) by blast
  show ?case
  proof (cases e)
    case (JBegan turn)
    then have "waiting m = turn # waiting m1" using m1(1) by (cases "waiting m") (auto split: if_splits)
    then show ?thesis using ih JBegan by simp
  next
    case (JDiscarded turn)
    then have "waiting m = turn # waiting m1" using m1(1) by (cases "waiting m") (auto split: if_splits)
    then show ?thesis using ih JDiscarded by (auto intro: list_emb_Cons)
  next
    case (JAccepted turn)
    then show ?thesis using ih m1(1) by (auto split: if_splits)
  next
    case (JCompleted turn)
    then show ?thesis using ih m1(1) by (auto split: if_splits)
  qed (use ih m1(1) in \<open>auto simp: settle_def intro: subseq_order.trans [OF _ list_emb_append2]\<close>)
qed simp

lemma protocol_finished:
  "accept consult_protocol m es = Some m' \<Longrightarrow> subseq (finished es) (case executing m of Some t \<Rightarrow> t # begun es | None \<Rightarrow> begun es)"
proof (induction es arbitrary: m)
  case (Cons e es)
  obtain m1 where m1: "consult_protocol m e = Some m1" "accept consult_protocol m1 es = Some m'"
    using Cons.prems by (auto split: option.splits)
  have ih: "subseq (finished es) (case executing m1 of Some t \<Rightarrow> t # begun es | None \<Rightarrow> begun es)" using Cons.IH m1(2) by blast
  then show ?case using m1(1)
    by (cases e) (auto simp: settle_def split: if_splits option.splits intro: subseq_Cons')
qed (simp split: option.split)

lemma fresh_consultation: "consult_sim (None, d) fresh_spec"
  by (simp add: consult_sim_def)

text \<open>From any file, with writes that are refused or land unsynced, owners that crash and power that fails at any point,
  no turn ever begins twice, the turns that begin do so in the order in which they were accepted, and only turns that began
  complete, in that order.
\<close>

theorem turns_begin_at_most_once_in_order:
  "let es = events_of journal_step (None, d) calls
   in distinct (begun es) \<and> subseq (begun es) (accepted es) \<and> subseq (finished es) (begun es)"
proof -
  obtain m where m: "accept consult_protocol fresh_spec (events_of journal_step (None, d) calls) = Some m"
    using consultation_journal.events_accepted [OF _ fresh_consultation, of calls d] by (auto simp: list_all_iff)
  from protocol_begun [OF m] protocol_order [OF m] protocol_finished [OF m] show ?thesis
    by (simp add: Let_def fresh_spec_def)
qed

text \<open>A turn the files hold as completed, abandoned or pending is refused for life: whatever happens to the journal
  afterwards, it does not begin again.
\<close>

theorem known_turns_never_begin:
  assumes "turn \<in> disk_knows d"
  shows "turn \<notin> set (begun (events_of journal_step (None, d) calls))"
proof -
  let ?m = "\<lparr>waiting = [], executing = None, settled = {turn}\<rparr>"
  have "consult_sim (None, d) ?m" using assms by (simp add: consult_sim_def spent_def executing_set_def)
  then obtain m where "accept consult_protocol ?m (events_of journal_step (None, d) calls) = Some m"
    using consultation_journal.events_accepted [of calls "(None, d)" ?m] by (auto simp: list_all_iff)
  from protocol_begun [OF this] show ?thesis by (auto simp: spent_def executing_set_def)
qed

theorem known_turns_never_begin_witness:
  "lit ''turn'' \<notin> set (begun (events_of journal_step
     (None, \<lparr>journal_now = JournalFile (no_admissions\<lparr>abandoned := {lit ''turn''}\<rparr>), journal_synced = JournalFile (no_admissions\<lparr>abandoned := {lit ''turn''}\<rparr>)\<rparr>)
     [OpenJournal (lit ''t_1'') WriteDone,
      AcceptInput \<lparr>q_turn_id = lit ''turn'', q_input = \<lparr>msg_role = User, content = []\<rparr>, q_provider_name = [], q_options = JNull, q_group = None\<rparr> WriteDone,
      BeginTurn (lit ''turn'') WriteDone]))"
  by (rule known_turns_never_begin) (simp add: disk_knows_def file_knows_def state_knows_def)

end
