(* ===== verification/Consult_Sample.thy ===== *)
theory Consult_Sample
  imports Consult_Owner Thread_Runs
begin

section \<open>Concrete consultations\<close>

text \<open>
  Small hosts and runs on which the properties of the owner are exercised: one whose provider is down, one whose provider
  answers. Every journal write lands.
\<close>

definition down_provider :: "rstr agent_provider" where
  "down_provider = demo_provider\<lparr>stream := \<lambda>_ _ _ w. (w, Inl (lit ''down''))\<rparr>"

definition down_env :: "rstr session_env" where
  "down_env = demo_env\<lparr>provider := down_provider\<rparr>"

definition sample_host :: "rstr owner_host" where
  "sample_host = \<lparr>host_letters = ascii_letters, host_print = (\<lambda>_. []), host_save = (\<lambda>_ _. None), host_options = (\<lambda>_. JNull),
     host_explain = (\<lambda>_. lit ''failed''), host_chain = (\<lambda>_. None), host_note_id = (\<lambda>_. lit ''n'')\<rparr>"

definition go :: choice where
  "go = \<lparr>authorized = False, lease_free = True, timed_out = False, outcome = WriteDone, clock = 0\<rparr>"

definition asked :: "rstr \<Rightarrow> rstr admitted_provider option \<Rightarrow> rstr consultation_turn" where
  "asked i p = \<lparr>turn_id = i, turn_policy = PolicyMax, turn_text = lit ''please'', turn_attachments = [],
     turn_options = demo_options, turn_provider_name = lit ''p'', replacement_provider = p\<rparr>"

definition empty_world :: "rstr consultation_world" where
  "empty_world = \<lparr>live = None, journal_files = \<lparr>journal_now = JournalAbsent, journal_synced = JournalAbsent\<rparr>,
     threads = \<lparr>thread_files = [], index_file = IndexAbsent, can_write = True, can_index = True\<rparr>\<rparr>"

abbreviation t1 :: "rstr consultation_turn" where "t1 \<equiv> asked (lit ''one'') None"
abbreviation t2 :: "rstr consultation_turn" where
  "t2 \<equiv> asked (lit ''two'') (Some \<lparr>provider_seal = lit ''s'', admitted = down_provider\<rparr>)"
abbreviation t3 :: "rstr consultation_turn" where "t3 \<equiv> asked (lit ''three'') None"

definition failing_start :: "rstr owner_input list" where
  "failing_start = [StartOwner (lit ''c'') down_env demo_session (Inl ()) go, Enqueue t1 None False WriteDone]"


lemma sample_texts:
  "trim (lit ''one'') = lit ''one''" "trim (lit ''two'') = lit ''two''" "trim (lit ''three'') = lit ''three''"
  "trim (lit ''please'') = lit ''please''" "trim (lit ''c'') = lit ''c''" "validate_thread_id (lit ''c'') = Inr ()"
  by (simp_all add: trim_def lit_def is_whitespace_def validate_thread_id_def starts_with_def)

lemma down_not_transient: "is_transient_stream_start_error (lit ''down'') = False"
  by code_simp

lemma sample_names [simp]:
  "lit ''one'' \<noteq> []" "lit ''two'' \<noteq> []" "lit ''three'' \<noteq> []" "lit ''please'' \<noteq> []" "lit ''c'' \<noteq> []"
  "lit ''one'' \<noteq> lit ''two''" "lit ''two'' \<noteq> lit ''one''" "lit ''one'' \<noteq> lit ''three''" "lit ''three'' \<noteq> lit ''one''"
  "lit ''two'' \<noteq> lit ''three''" "lit ''three'' \<noteq> lit ''two''"
  by (simp_all add: lit_def)

lemma down_send:
  assumes "provider env = down_provider" and "max_iterations env = 1"
  shows "send env said [] opts s = (push_message \<lparr>msg_role = User, content = [BText said]\<rparr> s, Inl (StreamStartFailed (lit ''down'')))"
  using assms by (simp add: send_def run_round_def stream_with_retry_def down_not_transient down_provider_def push_message_def)

lemma down_prepare:
  assumes "provider env = down_provider"
  shows "prepare_provider_context sample_host False env opts s = (s, Inl (BootstrapStream (lit ''down'')))"
  using assms by (simp add: prepare_provider_context_def down_provider_def demo_provider_def)

lemma start_opened:
  "consultation_step sample_host (StartOwner (lit ''c'') down_env demo_session (Inl ()) go) empty_world
     = (\<lparr>live = Some \<lparr>owner_id = lit ''c'', owner_session = demo_session, owner_env = bind_execution_thread (lit ''c'') down_env,
          owner_journal = \<lparr>admissions = no_admissions, recovery_reason = None, journal_recovery = None\<rparr>,
          commands = [], phase = Waiting, installed_seal = None, prepared = None, closed = False, pending_work = 0\<rparr>,
        journal_files = journal_files empty_world, threads = threads empty_world\<rparr>, Some OStarted)"
  by (simp add: start_owner_def empty_world_def sample_texts open_journal_def abandon_unfinished_def no_admissions_def
      take_recovery_def restore_consultation_def find_existing_def has_completed_turns_def restore_messages_def demo_session_def)

lemmas step_defs = put_world_def run_owner_def receive_command_def stay_def begin_phase_def send_phase_def discard_phase_def
  abandon_after_failure_def enqueue_recorded_def enqueue_admitted_def queued_form_def accept_input_def begin_turn_def
  discard_unstarted_def abandon_unfinished_def persist_def persist_json_def require_recovery_def is_front_def Let_def
  no_admissions_def OWNER_CAPACITY_def

lemma down_chain [simp]: "restore_response_chain down_provider c w = w"
  by (simp add: down_provider_def demo_provider_def)

lemma down_env_parts [simp]:
  "provider (bind_execution_thread i down_env) = down_provider" "max_iterations (bind_execution_thread i down_env) = 1"
  by (simp_all add: bind_execution_thread_def down_env_def demo_env_def)

lemma down_prepare_owner:
  assumes "recovery_reason (owner_journal ow) = None" and "prepared ow = None" and "installed_seal ow = None"
  shows "prepare_owner_provider sample_host True False \<lparr>provider_seal = lit ''s'', admitted = down_provider\<rparr> opts ow
    = (ow\<lparr>owner_env := (owner_env ow)\<lparr>provider := down_provider\<rparr>, owner_session := (owner_session ow)\<lparr>chain_id := None\<rparr>,
           prepared := None, installed_seal := None\<rparr>, Inl (PreparationFailed (BootstrapStream (lit ''down''))))"
  using assms by (simp add: prepare_owner_provider_def replace_provider_def down_prepare)

lemma record_nothing [simp]: "fst (record_consultation_recovery sample_host now (lit ''c'') r (threads empty_world)) = threads empty_world"
  by (simp add: record_consultation_recovery_def find_existing_def sample_texts empty_world_def sample_host_def)

lemma empty_journal [simp]: "journal_files empty_world = \<lparr>journal_now = JournalAbsent, journal_synced = JournalAbsent\<rparr>"
  by (simp add: empty_world_def)

lemmas run_defs = step_defs asked_def sample_texts go_def down_send down_prepare_owner numeral_nat

definition dropping_run :: "rstr owner_input list" where
  "dropping_run = failing_start @ [Enqueue (asked (lit ''two'') None) None True WriteDone] @ replicate 10 (OwnerStep go)
     @ [Enqueue t3 None False WriteDone] @ replicate 11 (OwnerStep go)"

lemma dropping_events:
  "events_of (consultation_step sample_host) empty_world dropping_run
     = [OStarted, OJournal (JAccepted (lit ''one'')), OJournal (JAccepted (lit ''two'')), OJournal (JBegan (lit ''one'')),
        OExecuting (lit ''one''), OJournal JAbandoned, OReplied (lit ''one'') (Inl (SendFailed (StreamStartFailed (lit ''down'')))),
        OJournal (JAccepted (lit ''three'')), OJournal JAbandoned,
        OReplied (lit ''two'') (Inl (JournalFailed DiscardOutOfOrder)),
        OReplied (lit ''three'') (Inl (JournalFailed NotAdmittedFront))]"
  unfolding dropping_run_def failing_start_def append.simps events_of_def run_machine.simps(2) [of _ empty_world] start_opened
  by (simp add: run_defs)


subsection \<open>A provider that answers\<close>

definition up_provider :: "rstr agent_provider" where
  "up_provider = demo_provider\<lparr>stream := \<lambda>_ _ _ w. (w, Inr [TextDone (lit ''done''), ResponseDone None True])\<rparr>"

definition up_env :: "rstr session_env" where
  "up_env = demo_env\<lparr>provider := up_provider\<rparr>"

definition answered_run :: "rstr owner_input list" where
  "answered_run = [StartOwner (lit ''c'') up_env demo_session (Inl ()) go, Enqueue t1 None False WriteDone] @ replicate 8 (OwnerStep go)"

lemma up_env_parts [simp]:
  "provider (bind_execution_thread i up_env) = up_provider" "max_iterations (bind_execution_thread i up_env) = 1"
  by (simp_all add: bind_execution_thread_def up_env_def demo_env_def)

lemma up_send:
  "\<exists>s. send (bind_execution_thread i up_env) said [] opts demo_session = (s, Inr ())"
  by (simp add: send_def run_round_def stream_with_retry_def up_provider_def push_message_def demo_session_def on_event_def
      empty_round_def finish_round_def finish_text_def Let_def send_ui_def)

lemma sample_delivers:
  "\<exists>disk. \<forall>input. di_backend_id input = lit ''c''
     \<longrightarrow> deliver (host_letters sample_host) print input (threads empty_world) = (disk input, Inr (delivery_receipt_for input None))"
  by (intro choice allI)
    (simp add: deliver_def deliver_read_def find_existing_def sample_texts empty_world_def save_thread_def Let_def
      load_or_create_def save_index_def index_add_def updated_thread_def new_thread_def unwrap_or_def)

lemma turn_delivery_id [simp]: "di_backend_id (turn_delivery h now t ow) = owner_id ow"
  by (simp add: turn_delivery_def)

lemma up_opened:
  "consultation_step sample_host (StartOwner (lit ''c'') up_env demo_session (Inl ()) go) empty_world
     = (\<lparr>live = Some \<lparr>owner_id = lit ''c'', owner_session = demo_session, owner_env = bind_execution_thread (lit ''c'') up_env,
          owner_journal = \<lparr>admissions = no_admissions, recovery_reason = None, journal_recovery = None\<rparr>,
          commands = [], phase = Waiting, installed_seal = None, prepared = None, closed = False, pending_work = 0\<rparr>,
        journal_files = journal_files empty_world, threads = threads empty_world\<rparr>, Some OStarted)"
  by (simp add: start_owner_def empty_world_def sample_texts open_journal_def abandon_unfinished_def no_admissions_def
      take_recovery_def restore_consultation_def find_existing_def has_completed_turns_def restore_messages_def demo_session_def)

lemma answered_state:
  "\<exists>wd ow answer. final_state (consultation_step sample_host) empty_world answered_run = wd \<and> live wd = Some ow
     \<and> phase ow = Answering t1 (Inr answer)"
proof -
  obtain s where s: "send (bind_execution_thread (lit ''c'') up_env) (lit ''please'') [] demo_options demo_session = (s, Inr ())"
    using up_send by blast
  obtain disk where d: "\<And>input. di_backend_id input = lit ''c''
      \<Longrightarrow> deliver (host_letters sample_host) (host_print sample_host) input (threads empty_world) = (disk input, Inr (delivery_receipt_for input None))"
    using sample_delivers [of "host_print sample_host"] by blast
  show ?thesis
    unfolding answered_run_def append.simps events_of_Cons(2) up_opened fst_conv
    by (simp add: step_defs asked_def sample_texts go_def numeral_nat s d deliver_phase_def complete_phase_def complete_turn_def)
qed

end
