(* ===== verification/Consult_Life.thy ===== *)
theory Consult_Life
  imports Consult_Sample
begin

section \<open>What an owner does with a turn\<close>

text \<open>
  The owner refines a protocol of its own, which extends the one of the journal by the progress of the turn at hand: begun,
  executed, finished, answered, each once and in this order.
\<close>

subsection \<open>The protocol\<close>

datatype progress = Idle | Begun rstr | Executed rstr | Finished rstr

definition not_finished :: "progress \<Rightarrow> bool" where
  "not_finished p \<longleftrightarrow> (\<forall>turn. p \<noteq> Finished turn)"

lemma not_finished_simps [simp]:
  "not_finished Idle" "not_finished (Begun t)" "not_finished (Executed t)" "\<not> not_finished (Finished t)"
  by (simp_all add: not_finished_def)

fun journal_progress :: "journal_event \<Rightarrow> progress \<Rightarrow> progress option" where
  "journal_progress (JBegan turn) p = (if not_finished p then Some (Begun turn) else None)"
| "journal_progress (JCompleted turn) p = (if p = Executed turn then Some (Finished turn) else None)"
| "journal_progress JAbandoned p = (if not_finished p then Some Idle else None)"
| "journal_progress e p = Some p"

fun owner_protocol :: "consult_spec \<times> progress \<Rightarrow> owner_event \<Rightarrow> (consult_spec \<times> progress) option" where
  "owner_protocol (m, p) OStarted = Some (settle m, Idle)"
| "owner_protocol (m, p) (OJournal e) =
     (case consult_protocol m e of
        None \<Rightarrow> None | Some m' \<Rightarrow> (case journal_progress e p of None \<Rightarrow> None | Some p' \<Rightarrow> Some (m', p')))"
| "owner_protocol (m, p) (OExecuting turn) = (if p = Begun turn then Some (m, Executed turn) else None)"
| "owner_protocol (m, p) (OReplied turn (Inr answer)) =
     (if p = Finished turn \<and> answer_turn_id answer = turn then Some (m, Idle) else None)"
| "owner_protocol (m, p) (OReplied turn (Inl err)) = (if not_finished p then Some (m, Idle) else None)"
| "owner_protocol (m, p) e = Some (m, p)"

fun phase_progress :: "'w owner_phase \<Rightarrow> progress \<Rightarrow> bool" where
  "phase_progress (Sending t) p = (p = Begun (turn_id t))"
| "phase_progress (Delivering t text) p = (p = Executed (turn_id t))"
| "phase_progress (Completing t answer) p = (p = Executed (turn_id t) \<and> answer_turn_id answer = turn_id t)"
| "phase_progress (Answering t (Inr answer)) p = (p = Finished (turn_id t) \<and> answer_turn_id answer = turn_id t)"
| "phase_progress ph p = not_finished p"

definition owner_sim :: "'w consultation_world \<Rightarrow> consult_spec \<times> progress \<Rightarrow> bool" where
  "owner_sim wd mp \<longleftrightarrow> consult_sim (map_option owner_journal (live wd), journal_files wd) (fst mp)
     \<and> (case live wd of Some ow \<Rightarrow> phase_progress (phase ow) (snd mp) | None \<Rightarrow> True)"

definition advance_sim :: "consult_spec \<times> progress \<Rightarrow> 'w advance \<Rightarrow> bool" where
  "advance_sim mp r \<longleftrightarrow> (case put_world r of
     (wd, None) \<Rightarrow> owner_sim wd mp | (wd, Some e) \<Rightarrow> \<exists>mp'. owner_protocol mp e = Some mp' \<and> owner_sim wd mp')"

lemma advance_stay:
  "advance_sim (m, p) (stay ow d td ph) \<longleftrightarrow> consult_sim (Some (owner_journal ow), d) m \<and> phase_progress ph p"
  by (simp add: advance_sim_def stay_def put_world_def owner_sim_def)

lemma advance_silent:
  "advance_sim (m, p) (Some ow, d, td, None) \<longleftrightarrow> consult_sim (Some (owner_journal ow), d) m \<and> phase_progress (phase ow) p"
  by (simp add: advance_sim_def put_world_def owner_sim_def)

lemma advance_event:
  "advance_sim (m, p) (Some ow, d, td, Some e) \<longleftrightarrow>
     (\<exists>m' p'. owner_protocol (m, p) e = Some (m', p') \<and> consult_sim (Some (owner_journal ow), d) m' \<and> phase_progress (phase ow) p')"
  by (auto simp: advance_sim_def put_world_def owner_sim_def)

lemmas advance_simps = advance_stay advance_silent advance_event

subsection \<open>One step of the owner\<close>

lemma prepare_frame:
  assumes "prepare_owner_provider h lease to p opts ow = (ow', r)"
  shows "owner_journal ow' = owner_journal ow" and "phase ow' = phase ow" and "commands ow' = commands ow"
    and "closed ow' = closed ow" and "pending_work ow' = pending_work ow" and "owner_id ow' = owner_id ow"
  using assms by (auto simp: prepare_owner_provider_def Let_def split: if_splits option.splits prod.splits sum.splits)

lemma begin_phase_sim:
  assumes "consult_sim (Some (owner_journal ow), d) m" and "not_finished p"
  shows "advance_sim (m, p) (begin_phase h c t ow d td)"
proof -
  obtain j d' r where a: "begin_turn (turn_id t) (outcome c) (owner_journal ow) d = (j, d', r)" by (metis prod_cases3)
  from begin_sim [OF a assms(1)] show ?thesis
    using assms(2) by (cases r) (auto simp: begin_phase_def a advance_simps simp del: consult_protocol.simps)
qed

lemma complete_phase_sim:
  assumes "consult_sim (Some (owner_journal ow), d) m" and "p = Executed (turn_id t)" and "answer_turn_id answer = turn_id t"
  shows "advance_sim (m, p) (complete_phase h c t answer ow d td)"
proof -
  obtain j d' r where a: "complete_turn (turn_id t) (outcome c) (owner_journal ow) d = (j, d', r)" by (metis prod_cases3)
  from complete_sim [OF a assms(1)] show ?thesis
    using assms(2,3) by (cases r) (auto simp: complete_phase_def a advance_simps simp del: consult_protocol.simps)
qed

lemma discard_phase_sim:
  assumes "consult_sim (Some (owner_journal ow), d) m" and "not_finished p"
  shows "advance_sim (m, p) (discard_phase h c t err blocks ow d td)"
proof -
  obtain j d' r where a: "discard_unstarted (turn_id t) (outcome c) (owner_journal ow) d = (j, d', r)" by (metis prod_cases3)
  from discard_sim [OF a assms(1)] show ?thesis
    using assms(2) by (cases r) (auto simp: discard_phase_def a advance_simps simp del: consult_protocol.simps)
qed

lemma abandon_phase_sim:
  assumes "consult_sim (Some (owner_journal ow), d) m" and "not_finished p"
  shows "advance_sim (m, p) (abandon_after_failure h c t reason err ow d td)"
proof -
  obtain j d' r where a: "abandon_unfinished reason (outcome c) (owner_journal ow) d = (j, d', r)" by (metis prod_cases3)
  from abandon_step_sim [OF a assms(1)] show ?thesis
    using assms(2) by (cases r) (auto simp: abandon_after_failure_def a advance_simps split: option.splits)
qed

lemma receive_sim:
  assumes "consult_sim (Some (owner_journal ow), d) m" and "phase ow = Waiting" and "not_finished p"
  shows "advance_sim (m, p) (receive_command h c ow d td)"
proof (cases "commands ow")
  case Nil
  then show ?thesis using assms by (simp add: receive_command_def advance_simps)
next
  case (Cons cmd cs)
  show ?thesis
  proof (cases cmd)
    case (PrepareCommand q opts)
    obtain ow' r where a: "prepare_owner_provider h (lease_free c) (timed_out c) q opts (ow\<lparr>commands := cs\<rparr>) = (ow', r)" by fastforce
    from prepare_frame [OF a] assms Cons PrepareCommand show ?thesis by (simp add: receive_command_def a advance_simps)
  next
    case CloseCommand
    then show ?thesis using assms(1) Cons
      by (simp add: receive_command_def advance_sim_def put_world_def owner_sim_def consult_sim_def)
  qed (use assms Cons in \<open>simp add: receive_command_def advance_simps\<close>)
qed

lemma run_owner_sim:
  assumes s: "consult_sim (Some (owner_journal ow), d) m" and p: "phase_progress (phase ow) p"
  shows "advance_sim (m, p) (run_owner h c ow d td)"
proof (cases "phase ow")
  case Waiting
  then show ?thesis using receive_sim [OF s] p by (simp add: run_owner_def)
next
  case (Preparing t)
  then show ?thesis
  proof (cases "replacement_provider t")
    case (Some q)
    obtain ow' r where a: "prepare_owner_provider h (lease_free c) (timed_out c) q (turn_options t) ow = (ow', r)" by fastforce
    from prepare_frame [OF a] show ?thesis using Preparing Some s p by (cases r) (auto simp: run_owner_def a advance_simps)
  qed (use s p in \<open>simp add: run_owner_def advance_simps\<close>)
next
  case (Sending t)
  then show ?thesis using s p by (auto simp: run_owner_def send_phase_def advance_simps split: prod.split sum.split)
next
  case (Delivering t said)
  then show ?thesis using s p by (auto simp: run_owner_def deliver_phase_def advance_simps split: prod.split sum.split)
next
  case (Beginning t)
  then show ?thesis using begin_phase_sim [OF s] p by (simp add: run_owner_def)
next
  case (Completing t answer)
  then show ?thesis using complete_phase_sim [OF s] p by (simp add: run_owner_def)
next
  case (Discarding t err blocks)
  then show ?thesis using discard_phase_sim [OF s] p by (simp add: run_owner_def)
next
  case (Abandoning t reason err)
  then show ?thesis using abandon_phase_sim [OF s] p by (simp add: run_owner_def)
next
  case (Blocking t reason err)
  then show ?thesis using s p by (auto simp: run_owner_def advance_simps consult_sim_def require_recovery_def)
next
  case (Answering t res)
  then show ?thesis using s p by (cases res) (auto simp: run_owner_def advance_simps)
qed (use s p in \<open>auto simp: run_owner_def advance_simps split: option.split\<close>)

lemma start_sim:
  assumes "start_owner h i env s retrieved c d td = (ow, d', td')" and "consult_sim (None, d) m"
  shows "case ow of None \<Rightarrow> consult_sim (None, d') m
    | Some ow \<Rightarrow> consult_sim (Some (owner_journal ow), d') (settle m) \<and> phase ow = Waiting"
proof (cases "trim i = [] \<or> messages s \<noteq> []")
  case False
  obtain d1 r1 where o: "open_journal i (outcome c) d = (d1, r1)" by fastforce
  show ?thesis
  proof (cases r1)
    case (Inl e)
    then show ?thesis using assms(1) False open_sim [OF o assms(2)] by (auto simp: start_owner_def o)
  next
    case (Inr j)
    have sim: "consult_sim (Some (j\<lparr>journal_recovery := None\<rparr>), d1) (settle m)" "consult_sim (None, d1) m"
      using open_sim [OF o assms(2)] Inr by (auto simp: consult_sim_def in_step_def)
    show ?thesis using assms(1) False o Inr sim
      by (auto simp: start_owner_def take_recovery_def Let_def split: prod.splits sum.splits)
  qed
qed (use assms in \<open>auto simp: start_owner_def\<close>)

lemma enqueue_sim:
  assumes "enqueue_recorded h t evidence auth out ow d = (ow', d', ok)" and "consult_sim (Some (owner_journal ow), d) m"
  shows "phase ow' = phase ow \<and> (if ok then \<exists>m'. consult_protocol m (JAccepted (turn_id t)) = Some m' \<and> consult_sim (Some (owner_journal ow'), d') m'
    else consult_sim (Some (owner_journal ow'), d') m)"
proof -
  obtain j d1 r where a: "accept_input (queued_form h t evidence) out (owner_journal ow) d = (j, d1, r)" by (metis prod_cases3)
  have q: "q_turn_id (queued_form h t evidence) = turn_id t" by (simp add: queued_form_def)
  from accept_sim [OF a assms(2)] show ?thesis
    using assms a by (cases r) (auto simp: enqueue_recorded_def q split: if_splits)
qed

lemma consultation_step_sim:
  assumes "consultation_step h i wd = (wd', out)" and "owner_sim wd (m, p)"
  shows "case out of None \<Rightarrow> owner_sim wd' (m, p) | Some e \<Rightarrow> \<exists>mp'. owner_protocol (m, p) e = Some mp' \<and> owner_sim wd' mp'"
proof (cases i)
  case (StartOwner k env s retrieved c)
  show ?thesis
  proof (cases "live wd")
    case None
    obtain ow d td where st: "start_owner h k env s retrieved c (journal_files wd) (threads wd) = (ow, d, td)" by (metis prod_cases3)
    have "consult_sim (None, journal_files wd) m" using assms(2) None by (simp add: owner_sim_def)
    from start_sim [OF st this] show ?thesis using assms(1) StartOwner None st
      by (cases ow) (auto simp: owner_sim_def)
  qed (use assms StartOwner in auto)
next
  case (Enqueue t evidence auth w)
  show ?thesis
  proof (cases "live wd")
    case (Some ow)
    obtain ow' d ok where a: "enqueue_recorded h t evidence auth w ow (journal_files wd) = (ow', d, ok)" by (metis prod_cases3)
    have "consult_sim (Some (owner_journal ow), journal_files wd) m" using assms(2) Some by (simp add: owner_sim_def)
    from enqueue_sim [OF a this] show ?thesis using assms Enqueue Some a
      by (cases ok) (auto simp: owner_sim_def)
  qed (use assms Enqueue in auto)
next
  case (OwnerStep c)
  show ?thesis
  proof (cases "live wd")
    case (Some ow)
    have "advance_sim (m, p) (run_owner h c ow (journal_files wd) (threads wd))"
      using run_owner_sim assms(2) Some by (fastforce simp: owner_sim_def)
    then show ?thesis using assms(1) OwnerStep Some by (auto simp: advance_sim_def split: option.splits)
  qed (use assms OwnerStep in auto)
next
  case CloseIfIdle
  then show ?thesis using assms by (auto simp: owner_sim_def close_if_idle_def split: option.splits)
next
  case (RequestPreparation q opts)
  then show ?thesis using assms by (auto simp: owner_sim_def request_preparation_def split: option.splits)
next
  case OwnerCrash
  then show ?thesis using assms by (auto simp: owner_sim_def consult_sim_def)
next
  case PowerFailure
  then show ?thesis using assms by (auto simp: owner_sim_def consult_sim_def disk_knows_def)
qed

interpretation owner_life: monitored_machine "consultation_step h" "\<lambda>_. True" owner_sim owner_protocol
proof unfold_locales
  fix i wd mp wd'
  assume "owner_sim wd mp" "consultation_step h i wd = (wd', None)"
  then show "owner_sim wd' mp" using consultation_step_sim [of h i wd wd' None "fst mp" "snd mp"] by simp
next
  fix i wd mp wd' e
  assume "owner_sim wd mp" "consultation_step h i wd = (wd', Some e)"
  then show "\<exists>mp'. owner_protocol mp e = Some mp' \<and> owner_sim wd' mp'"
    using consultation_step_sim [of h i wd wd' "Some e" "fst mp" "snd mp"] by simp
qed

subsection \<open>The traces of an owner\<close>

fun journal_part :: "owner_event \<Rightarrow> journal_event option" where
  "journal_part OStarted = Some JOpened"
| "journal_part (OJournal e) = Some e"
| "journal_part e = None"

fun executed_turn :: "owner_event \<Rightarrow> rstr option" where
  "executed_turn (OExecuting turn) = Some turn"
| "executed_turn e = None"

fun answered_turn :: "owner_event \<Rightarrow> rstr option" where
  "answered_turn (OReplied turn (Inr answer)) = Some turn"
| "answered_turn e = None"

definition journal_trace :: "owner_event list \<Rightarrow> journal_event list" where "journal_trace es = List.map_filter journal_part es"
definition executed :: "owner_event list \<Rightarrow> rstr list" where "executed es = List.map_filter executed_turn es"
definition answered :: "owner_event list \<Rightarrow> rstr list" where "answered es = List.map_filter answered_turn es"

lemma trace_lists [simp]:
  "journal_trace [] = []" "executed [] = []" "answered [] = []"
  "journal_trace (e # es) = (case journal_part e of Some j \<Rightarrow> j # journal_trace es | None \<Rightarrow> journal_trace es)"
  "executed (e # es) = (case executed_turn e of Some t \<Rightarrow> t # executed es | None \<Rightarrow> executed es)"
  "answered (e # es) = (case answered_turn e of Some t \<Rightarrow> t # answered es | None \<Rightarrow> answered es)"
  by (simp_all add: journal_trace_def executed_def answered_def List.map_filter_def split: option.split)

fun only_begun :: "progress \<Rightarrow> rstr list" where "only_begun (Begun t) = [t]" | "only_begun p = []"
fun only_executed :: "progress \<Rightarrow> rstr list" where "only_executed (Executed t) = [t]" | "only_executed p = []"
fun only_finished :: "progress \<Rightarrow> rstr list" where "only_finished (Finished t) = [t]" | "only_finished p = []"

lemma owner_journal_trace:
  "accept owner_protocol (m, p) es = Some (m', p') \<Longrightarrow> accept consult_protocol m (journal_trace es) = Some m'"
proof (induction es arbitrary: m p)
  case (Cons e es)
  obtain m1 p1 where s: "owner_protocol (m, p) e = Some (m1, p1)" "accept owner_protocol (m1, p1) es = Some (m', p')"
    using Cons.prems by (auto split: option.splits)
  show ?case using s(1) Cons.IH [OF s(2)] by (cases "((m, p), e)" rule: owner_protocol.cases) (auto split: option.splits if_splits)
qed simp

lemma subseq_distinct: "subseq xs ys \<Longrightarrow> distinct ys \<Longrightarrow> distinct xs"
  by (induction rule: list_emb.induct) (auto elim: list_emb_set)

lemma subseq_skip: "subseq xs ys \<Longrightarrow> subseq xs (y # ys)" "subseq xs ys \<Longrightarrow> subseq xs (zs @ ys)"
  by (auto intro: list_emb_Cons list_emb_append2)

lemma journal_event_order:
  assumes "journal_progress j p = Some p1" and "subseq ex (only_begun p1 @ begun js)"
    and "subseq (finished js) (only_executed p1 @ ex)" and "subseq an (only_finished p1 @ finished js)"
  shows "subseq ex (only_begun p @ begun (j # js)) \<and> subseq (finished (j # js)) (only_executed p @ ex)
    \<and> subseq an (only_finished p @ finished (j # js))"
proof (cases j)
  case (JBegan turn)
  then have "p1 = Begun turn" "not_finished p" using assms(1) by (auto split: if_splits)
  then show ?thesis using assms(2-) JBegan by (simp add: subseq_skip)
next
  case (JCompleted turn)
  then have "p1 = Finished turn" "p = Executed turn" using assms(1) by (auto split: if_splits)
  then show ?thesis using assms(2-) JCompleted by simp
next
  case JAbandoned
  then have "p1 = Idle" using assms(1) by (auto split: if_splits)
  then show ?thesis using assms(2-) JAbandoned by (simp add: subseq_skip)
qed (use assms in simp_all)

lemma progress_order:
  "accept owner_protocol (m, p) es = Some mp' \<Longrightarrow>
     subseq (executed es) (only_begun p @ begun (journal_trace es))
   \<and> subseq (finished (journal_trace es)) (only_executed p @ executed es)
   \<and> subseq (answered es) (only_finished p @ finished (journal_trace es))"
proof (induction es arbitrary: m p)
  case (Cons e es)
  obtain m1 p1 where s: "owner_protocol (m, p) e = Some (m1, p1)" "accept owner_protocol (m1, p1) es = Some mp'"
    using Cons.prems by (auto split: option.splits)
  note ih = Cons.IH [OF s(2)]
  show ?case
  proof (cases e)
    case (OJournal j)
    then have "journal_progress j p = Some p1" using s(1) by (auto split: option.splits)
    from journal_event_order [OF this, of "executed es" "journal_trace es" "answered es"] ih OJournal show ?thesis by simp
  next
    case (OReplied t r)
    then show ?thesis using ih s(1) by (cases r) (auto split: if_splits intro: subseq_skip)
  next
    case OStarted
    then show ?thesis using ih s(1) by (auto intro: subseq_skip)
  next
    case (OExecuting turn)
    then show ?thesis using ih s(1) by (auto split: if_splits)
  qed (use ih s(1) in auto)
qed simp

lemma fresh_owner: "live wd = None \<Longrightarrow> owner_sim wd (fresh_spec, Idle)"
  by (simp add: owner_sim_def fresh_consultation)

text \<open>C13. Each accepted instruction is executed at most once, over all lives of the consultation: whatever owners start, crash and
  lose power, however callers enqueue in between, whichever candidates are rejected, preparations fail and writes go wrong,
  the session is sent the turns that began, each once and in the order of their acceptance, only executed turns complete,
  and an answer is given only to a completed turn, once.
\<close>

theorem turns_execute_at_most_once:
  assumes "live wd = None"
  shows "let es = events_of (consultation_step h) wd inputs; js = journal_trace es
         in distinct (executed es) \<and> subseq (executed es) (begun js) \<and> subseq (begun js) (accepted js)
           \<and> subseq (finished js) (executed es) \<and> subseq (answered es) (finished js)"
proof -
  let ?es = "events_of (consultation_step h) wd inputs"
  obtain m p where a: "accept owner_protocol (fresh_spec, Idle) ?es = Some (m, p)"
    using owner_life.events_accepted [OF _ fresh_owner [OF assms], of inputs h] by (auto simp: list_all_iff)
  have j: "accept consult_protocol fresh_spec (journal_trace ?es) = Some m" by (rule owner_journal_trace [OF a])
  have order: "subseq (executed ?es) (begun (journal_trace ?es))" using progress_order [OF a] by simp
  moreover have "distinct (executed ?es)" by (rule subseq_distinct [OF order]) (simp add: protocol_begun [OF j])
  ultimately show ?thesis using progress_order [OF a] protocol_order [OF j] by (simp add: Let_def fresh_spec_def)
qed

theorem turns_execute_at_most_once_witness:
  "let es = events_of (consultation_step sample_host) empty_world dropping_run; js = journal_trace es
   in executed es = [lit ''one''] \<and> distinct (executed es) \<and> subseq (executed es) (begun js) \<and> subseq (begun js) (accepted js)
     \<and> subseq (finished js) (executed es) \<and> subseq (answered es) (finished js)"
  using turns_execute_at_most_once [of empty_world sample_host dropping_run]
  by (simp add: Let_def empty_world_def [THEN arg_cong [of _ _ live]]) (simp add: dropping_events)

end
