(* ===== verification/Consult_Durable.thy ===== *)
theory Consult_Durable
  imports Consult_Life
begin

section \<open>Accepted work is reachable, answers are durable\<close>

text \<open>
  Two promises of the owner of \<open>Consult_Owner\<close> over whole lives: what the journal holds as unfinished is served by the
  turn at hand and the waiting commands, and a turn is answered only when its history is in the thread file and its
  completion in the synced journal.
\<close>

subsection \<open>The queue and the journal\<close>

fun command_turn :: "'w owner_command \<Rightarrow> rstr option" where
  "command_turn (TurnCommand t auth) = Some (turn_id t)"
| "command_turn cmd = None"

fun is_work :: "'w owner_command \<Rightarrow> bool" where
  "is_work CloseCommand = False"
| "is_work cmd = True"

fun phase_turn :: "'w owner_phase \<Rightarrow> rstr list" where
  "phase_turn Waiting = []"
| "phase_turn (Answering t r) = []"
| "phase_turn (Received t auth) = [turn_id t]"
| "phase_turn (Authorizing t) = [turn_id t]"
| "phase_turn (Preparing t) = [turn_id t]"
| "phase_turn (Leasing t) = [turn_id t]"
| "phase_turn (Beginning t) = [turn_id t]"
| "phase_turn (Sending t) = [turn_id t]"
| "phase_turn (Delivering t text) = [turn_id t]"
| "phase_turn (Completing t answer) = [turn_id t]"
| "phase_turn (Discarding t err blocks) = [turn_id t]"
| "phase_turn (Abandoning t reason err) = [turn_id t]"
| "phase_turn (Blocking t reason err) = [turn_id t]"

fun busy :: "'w owner_phase \<Rightarrow> nat" where
  "busy Waiting = 0"
| "busy ph = 1"

definition waiting_turns :: "'w owner \<Rightarrow> rstr list" where
  "waiting_turns ow = phase_turn (phase ow) @ List.map_filter command_turn (commands ow)"

definition journal_turns :: "'w owner \<Rightarrow> rstr list" where
  "journal_turns ow = map q_turn_id (queued (admissions (owner_journal ow)))"

definition serviceable :: "'w owner \<Rightarrow> bool" where
  "serviceable ow \<longleftrightarrow> (recovery_reason (owner_journal ow) = None \<longrightarrow> subseq (journal_turns ow) (waiting_turns ow))"

definition counted :: "'w owner \<Rightarrow> bool" where
  "counted ow \<longleftrightarrow> length (commands ow) \<le> OWNER_CAPACITY
     \<and> pending_work ow = busy (phase ow) + length (filter is_work (commands ow))
     \<and> (if closed ow then phase ow = Waiting \<and> filter is_work (commands ow) = [] else CloseCommand \<notin> set (commands ow))"

lemma is_work_iff: "is_work cmd \<longleftrightarrow> cmd \<noteq> CloseCommand"
  by (cases cmd) auto

lemma map_filter_simps' [simp]:
  "List.map_filter f (x # xs) = (case f x of Some y \<Rightarrow> y # List.map_filter f xs | None \<Rightarrow> List.map_filter f xs)"
  "List.map_filter f (xs @ ys) = List.map_filter f xs @ List.map_filter f ys"
  by (simp_all add: List.map_filter_def split: option.split)

text \<open>What a journal operation does to the queue, when the journal can still be written.\<close>

lemma persist_queue:
  "persist out j d = (j', d', r) \<Longrightarrow> queued (admissions j') = queued (admissions j)
    \<and> (recovery_reason j' = None \<longrightarrow> recovery_reason j = None \<and> (\<exists>u. r = Inr u))"
  by (auto simp: persist_def persist_json_def require_recovery_def split: write_outcome.splits)

lemma accept_queue:
  assumes "accept_input q out j d = (j', d', r)" and "recovery_reason j' = None"
  shows "recovery_reason j = None" and "queued (admissions j') = queued (admissions j) @ (case r of Inr _ \<Rightarrow> [q] | Inl _ \<Rightarrow> [])"
  using assms by (auto simp: accept_input_def Let_def split: if_splits dest!: persist_queue)

lemma front_drop: "is_front tid st \<Longrightarrow> subseq (map q_turn_id (queued st)) (tid # ts) \<Longrightarrow> subseq (map q_turn_id (tl (queued st))) ts"
  by (auto simp: is_front_def split: list.splits)

lemma begin_queue:
  assumes "begin_turn tid out j d = (j', d', r)" and "recovery_reason j' = None"
  shows "recovery_reason j = None" and "queued (admissions j') = queued (admissions j)"
  using assms by (auto simp: begin_turn_def Let_def split: if_splits dest!: persist_queue)

lemma discard_queue:
  assumes "discard_unstarted tid out j d = (j', d', r)" and "recovery_reason j' = None"
  shows "recovery_reason j = None"
    and "(case r of Inr _ \<Rightarrow> is_front tid (admissions j) \<and> queued (admissions j') = tl (queued (admissions j))
                  | Inl _ \<Rightarrow> queued (admissions j') = queued (admissions j))"
  using assms by (auto simp: discard_unstarted_def Let_def split: if_splits prod.splits sum.splits dest!: persist_queue)

lemma complete_queue:
  assumes "complete_turn tid out j d = (j', d', r)" and "recovery_reason j' = None"
  shows "recovery_reason j = None"
    and "(case r of Inr _ \<Rightarrow> is_front tid (admissions j) \<and> queued (admissions j') = tl (queued (admissions j))
                  | Inl _ \<Rightarrow> queued (admissions j') = queued (admissions j))"
  using assms by (auto simp: complete_turn_def Let_def split: if_splits prod.splits sum.splits dest!: persist_queue)

lemma abandon_queue:
  assumes "abandon_unfinished reason out j d = (j', d', r)" and "recovery_reason j' = None"
  shows "(\<exists>recovery. r = Inr recovery) \<and> queued (admissions j') = []"
  using assms by (auto simp: abandon_unfinished_def Let_def split: if_splits prod.splits sum.splits dest!: persist_queue)

subsection \<open>Every step keeps the queue in order\<close>

definition kept :: "'w advance \<Rightarrow> bool" where
  "kept r \<longleftrightarrow> (case fst r of Some ow \<Rightarrow> serviceable ow \<and> counted ow | None \<Rightarrow> True)"

lemma kept_simps [simp]:
  "kept (Some ow, d, td, e) \<longleftrightarrow> serviceable ow \<and> counted ow" "kept (None, d, td, e)"
  "kept (stay ow d td ph) \<longleftrightarrow> serviceable (ow\<lparr>phase := ph\<rparr>) \<and> counted (ow\<lparr>phase := ph\<rparr>)"
  by (simp_all add: kept_def stay_def)

lemmas queue_defs = serviceable_def counted_def journal_turns_def waiting_turns_def

lemma begin_kept:
  assumes "serviceable ow" and "counted ow" and "phase ow = Beginning t"
  shows "kept (begin_phase h c t ow d td)"
proof -
  obtain j d' r where a: "begin_turn (turn_id t) (outcome c) (owner_journal ow) d = (j, d', r)" by (metis prod_cases3)
  show ?thesis using assms begin_queue [OF a] by (cases r) (auto simp: begin_phase_def a queue_defs)
qed

lemma discard_kept:
  assumes "serviceable ow" and "counted ow" and "phase ow = Discarding t err blocks"
  shows "kept (discard_phase h c t err blocks ow d td)"
proof -
  obtain j d' r where a: "discard_unstarted (turn_id t) (outcome c) (owner_journal ow) d = (j, d', r)" by (metis prod_cases3)
  show ?thesis using assms discard_queue [OF a] by (cases r) (auto simp: discard_phase_def a queue_defs intro: front_drop)
qed

lemma complete_kept:
  assumes "serviceable ow" and "counted ow" and "phase ow = Completing t answer"
  shows "kept (complete_phase h c t answer ow d td)"
proof -
  obtain j d' r where a: "complete_turn (turn_id t) (outcome c) (owner_journal ow) d = (j, d', r)" by (metis prod_cases3)
  show ?thesis using assms complete_queue [OF a] by (cases r) (auto simp: complete_phase_def a queue_defs intro: front_drop)
qed

lemma abandon_kept:
  assumes "serviceable ow" and "counted ow" and "phase ow = Abandoning t reason err"
  shows "kept (abandon_after_failure h c t reason err ow d td)"
proof -
  obtain j d' r where a: "abandon_unfinished reason (outcome c) (owner_journal ow) d = (j, d', r)" by (metis prod_cases3)
  show ?thesis using assms abandon_queue [OF a] by (cases r) (auto simp: abandon_after_failure_def a queue_defs split: option.split)
qed

lemma receive_kept:
  assumes "serviceable ow" and "counted ow" and "phase ow = Waiting"
  shows "kept (receive_command h c ow d td)"
proof (cases "commands ow")
  case (Cons cmd cs)
  show ?thesis
  proof (cases cmd)
    case (PrepareCommand q opts)
    obtain ow' r where a: "prepare_owner_provider h (lease_free c) (timed_out c) q opts (ow\<lparr>commands := cs\<rparr>) = (ow', r)" by fastforce
    from prepare_frame [OF a] assms Cons PrepareCommand show ?thesis
      by (auto simp: receive_command_def a queue_defs split: if_splits)
  qed (use assms Cons in \<open>auto simp: receive_command_def queue_defs split: if_splits\<close>)
qed (use assms in \<open>simp add: receive_command_def\<close>)

lemma run_owner_kept:
  assumes "serviceable ow" and "counted ow"
  shows "kept (run_owner h c ow d td)"
proof (cases "phase ow")
  case Waiting
  then show ?thesis using receive_kept [OF assms] by (simp add: run_owner_def)
next
  case (Preparing t)
  then show ?thesis
  proof (cases "replacement_provider t")
    case (Some q)
    obtain ow' r where a: "prepare_owner_provider h (lease_free c) (timed_out c) q (turn_options t) ow = (ow', r)" by fastforce
    from prepare_frame [OF a] show ?thesis using Preparing Some assms
      by (cases r) (auto simp: run_owner_def a queue_defs split: if_splits)
  qed (use assms in \<open>auto simp: run_owner_def queue_defs split: if_splits\<close>)
next
  case (Sending t)
  then show ?thesis using assms by (auto simp: run_owner_def send_phase_def queue_defs split: prod.split sum.split if_splits)
next
  case (Delivering t said)
  then show ?thesis using assms by (auto simp: run_owner_def deliver_phase_def queue_defs split: prod.split sum.split if_splits)
next
  case (Beginning t)
  then show ?thesis using begin_kept [OF assms] by (simp add: run_owner_def)
next
  case (Completing t answer)
  then show ?thesis using complete_kept [OF assms] by (simp add: run_owner_def)
next
  case (Discarding t err blocks)
  then show ?thesis using discard_kept [OF assms] by (simp add: run_owner_def)
next
  case (Abandoning t reason err)
  then show ?thesis using abandon_kept [OF assms] by (simp add: run_owner_def)
next
  case (Blocking t reason err)
  then show ?thesis using assms by (auto simp: run_owner_def queue_defs require_recovery_def split: if_splits)
next
  case (Answering t res)
  then show ?thesis using assms by (auto simp: run_owner_def queue_defs split: if_splits)
qed (use assms in \<open>auto simp: run_owner_def queue_defs split: option.split if_splits\<close>)

lemma enqueue_kept:
  assumes "enqueue_recorded h t evidence auth out ow d = (ow', d', ok)" and "serviceable ow" and "counted ow"
  shows "serviceable ow' \<and> counted ow'"
proof (cases "enqueue_admitted t ow")
  case True
  obtain j d1 r where a: "accept_input (queued_form h t evidence) out (owner_journal ow) d = (j, d1, r)" by (metis prod_cases3)
  have q: "q_turn_id (queued_form h t evidence) = turn_id t" by (simp add: queued_form_def)
  show ?thesis using assms True accept_queue [OF a]
    by (cases r) (auto simp: enqueue_recorded_def a queue_defs q enqueue_admitted_def simp flip: append_assoc)
qed (use assms in \<open>simp add: enqueue_recorded_def\<close>)

lemma open_queue:
  assumes "open_journal i out d = (d', Inr j)"
  shows "queued (admissions j) = [] \<or> recovery_reason j \<noteq> None"
proof -
  obtain j0 recovery st where a: "abandon_unfinished (lit ''owner restarted before the turn finished'') out
      \<lparr>admissions = st, recovery_reason = None, journal_recovery = None\<rparr> d = (j0, d', Inr recovery)" "j = j0\<lparr>journal_recovery := recovery\<rparr>"
    using assms by (auto simp: open_journal_def split: sum.splits option.splits prod.splits)
  then show ?thesis using abandon_queue [OF a(1)] by auto
qed

lemma started_owner:
  assumes "start_owner h i env s retrieved c d td = (Some ow, d', td')"
  shows "\<exists>j. open_journal i (outcome c) d = (d', Inr j) \<and> owner_journal ow = j\<lparr>journal_recovery := None\<rparr>"
    and "commands ow = [] \<and> phase ow = Waiting \<and> \<not> closed ow \<and> pending_work ow = 0 \<and> owner_id ow = i"
  using assms by (auto simp: start_owner_def take_recovery_def Let_def split: if_splits prod.splits sum.splits)

lemma started_kept:
  assumes "start_owner h i env s retrieved c d td = (Some ow, d', td')"
  shows "serviceable ow \<and> counted ow"
proof -
  obtain j where j: "open_journal i (outcome c) d = (d', Inr j)" "owner_journal ow = j\<lparr>journal_recovery := None\<rparr>"
    using started_owner(1) [OF assms] by blast
  from open_queue [OF j(1)] started_owner(2) [OF assms] show ?thesis by (auto simp: queue_defs j(2))
qed

definition in_service :: "'w consultation_world \<Rightarrow> bool" where
  "in_service wd \<longleftrightarrow> (case live wd of Some ow \<Rightarrow> serviceable ow \<and> counted ow | None \<Rightarrow> True)"

lemma calls_kept:
  "serviceable ow \<and> counted ow \<Longrightarrow> serviceable (request_preparation p opts ow) \<and> counted (request_preparation p opts ow)"
  "serviceable ow \<and> counted ow \<Longrightarrow> serviceable (close_if_idle ow) \<and> counted (close_if_idle ow)"
proof -
  show "serviceable ow \<and> counted ow \<Longrightarrow> serviceable (request_preparation p opts ow) \<and> counted (request_preparation p opts ow)"
    by (auto simp: request_preparation_def queue_defs)
  show "serviceable ow \<and> counted ow \<Longrightarrow> serviceable (close_if_idle ow) \<and> counted (close_if_idle ow)"
    by (cases "phase ow") (auto simp: close_if_idle_def queue_defs)
qed

lemma consultation_step_kept:
  assumes "in_service wd"
  shows "in_service (fst (consultation_step h i wd))"
proof (cases i)
  case (StartOwner k env s retrieved c)
  obtain ow d td where st: "start_owner h k env s retrieved c (journal_files wd) (threads wd) = (ow, d, td)" by (metis prod_cases3)
  show ?thesis using assms StartOwner st started_kept [of h k env s retrieved c "journal_files wd" "threads wd"]
    by (cases ow) (auto simp: in_service_def)
next
  case (Enqueue t evidence auth w)
  show ?thesis
  proof (cases "live wd")
    case (Some ow)
    obtain ow' d ok where a: "enqueue_recorded h t evidence auth w ow (journal_files wd) = (ow', d, ok)" by (metis prod_cases3)
    from enqueue_kept [OF a] show ?thesis using assms Some Enqueue a by (auto simp: in_service_def)
  qed (use assms Enqueue in auto)
next
  case (OwnerStep c)
  show ?thesis
  proof (cases "live wd")
    case (Some ow)
    have "kept (run_owner h c ow (journal_files wd) (threads wd))" using run_owner_kept assms Some by (auto simp: in_service_def)
    then show ?thesis using OwnerStep Some by (auto simp: in_service_def kept_def put_world_def split: prod.splits)
  qed (use assms OwnerStep in auto)
qed (use assms calls_kept in \<open>auto simp: in_service_def split: option.splits\<close>)

interpretation service: invariant_machine "consultation_step h" "\<lambda>_. True" in_service "\<lambda>_. True" for h
  by unfold_locales (simp, metis consultation_step_kept fst_conv, simp)



subsection \<open>Answers are on disk\<close>

definition named_file :: "rstr \<Rightarrow> thread option \<Rightarrow> bool" where
  "named_file i f \<longleftrightarrow> (case f of None \<Rightarrow> True | Some t \<Rightarrow> thread_id t = i)"

interpretation named: kept_files u print named_file "\<lambda>_. True" "\<lambda>_. True" for u print
  by unfold_locales (auto simp: named_file_def list_all_iff)

lemma normalized_parts:
  "thread_messages (fst (normalize_heuristic_title u t)) = thread_messages t"
  "thread_mode (fst (normalize_heuristic_title u t)) = thread_mode t"
  by (simp_all add: normalize_heuristic_title_def)

lemma delivered_file:
  assumes "deliver u print input d = (d', Inr receipt)" and "every_file named_file d"
  shows "every_file named_file d'"
    and "\<exists>t. file_of (di_backend_id input) d' = Some t \<and> thread_messages t = di_messages input \<and> thread_mode t = di_mode input"
    and "dr_backend_id receipt = di_backend_id input \<and> dr_message_count receipt = length (di_messages input)"
proof -
  obtain d1 t where r: "deliver_read u print input d = (d1, Inr (t, receipt))" "save_thread u t d1 = (d', Inr ())"
    using assms(1) by (auto simp: deliver_def split: prod.splits sum.splits)
  obtain existing where e: "find_existing u (di_backend_id input) d = (d1, Inr existing)" "t = updated_thread u print input existing"
    "receipt = delivery_receipt_for input existing"
    using deliver_snapshot [OF r(1)] by blast
  have "every_file named_file d1" using named.existing_keeps [OF assms(2), where u = u and i = "di_backend_id input"] e(1) by simp
  then show "every_file named_file d'" using named.saves [where d = d1 and t = t and u = u] r(2) by simp
  have "thread_id t = di_backend_id input"
  proof (cases existing)
    case None
    then show ?thesis by (simp add: e(2) updated_thread_def new_thread_def Let_def unwrap_or_def)
  next
    case (Some t0)
    then obtain t1 where "file_of (di_backend_id input) d = Some t1" "t0 = fst (normalize_heuristic_title u t1)"
      using existing_thread(1) e(1) by blast
    then show ?thesis using every_fileD [OF assms(2), of "di_backend_id input"] Some
      by (simp add: e(2) updated_thread_def Let_def unwrap_or_def named_file_def)
  qed
  then show "\<exists>t. file_of (di_backend_id input) d' = Some t \<and> thread_messages t = di_messages input \<and> thread_mode t = di_mode input"
    using saved_file [OF r(2)] by (auto simp: normalized_parts e(2) updated_thread_def Let_def)
  show "dr_backend_id receipt = di_backend_id input \<and> dr_message_count receipt = length (di_messages input)"
    by (simp add: e(3) delivery_receipt_for_def Let_def)
qed

definition file_completed :: "journal_file \<Rightarrow> rstr set" where
  "file_completed f = (case f of JournalFile st \<Rightarrow> completed st | _ \<Rightarrow> {})"

definition history_stored :: "'w owner_host \<Rightarrow> 'w owner \<Rightarrow> thread_disk \<Rightarrow> bool" where
  "history_stored h ow td \<longleftrightarrow> (\<exists>t at. file_of (owner_id ow) td = Some t \<and> thread_mode t = MAX_CONSULTATION_MODE
     \<and> thread_messages t = map (from_message (host_save h) at) (messages (owner_session ow)))"

definition receipt_matches :: "'w owner \<Rightarrow> consultation_answer \<Rightarrow> bool" where
  "receipt_matches ow answer \<longleftrightarrow> dr_backend_id (answer_delivery answer) = owner_id ow
     \<and> dr_message_count (answer_delivery answer) = length (messages (owner_session ow))"

definition completed_everywhere :: "rstr \<Rightarrow> 'w owner \<Rightarrow> journal_disk \<Rightarrow> bool" where
  "completed_everywhere i ow d \<longleftrightarrow> i \<in> completed (admissions (owner_journal ow))
     \<and> i \<in> file_completed (journal_now d) \<and> i \<in> file_completed (journal_synced d)"

fun settled_phase :: "'w owner_host \<Rightarrow> 'w owner \<Rightarrow> journal_disk \<Rightarrow> thread_disk \<Rightarrow> 'w owner_phase \<Rightarrow> bool" where
  "settled_phase h ow d td (Completing t answer) = (history_stored h ow td \<and> receipt_matches ow answer)"
| "settled_phase h ow d td (Answering t (Inr answer)) =
     (history_stored h ow td \<and> receipt_matches ow answer \<and> completed_everywhere (turn_id t) ow d)"
| "settled_phase h ow d td ph = True"

definition durable :: "'w owner_host \<Rightarrow> 'w consultation_world \<Rightarrow> bool" where
  "durable h wd \<longleftrightarrow> every_file named_file (threads wd)
     \<and> (case live wd of Some ow \<Rightarrow> settled_phase h ow (journal_files wd) (threads wd) (phase ow) | None \<Rightarrow> True)"

definition durable_advance :: "'w owner_host \<Rightarrow> 'w advance \<Rightarrow> bool" where
  "durable_advance h r \<longleftrightarrow> durable h (fst (put_world r))"

lemma durable_simps:
  "durable_advance h (Some ow, d, td, e) \<longleftrightarrow> every_file named_file td \<and> settled_phase h ow d td (phase ow)"
  "durable_advance h (None, d, td, e) \<longleftrightarrow> every_file named_file td"
  "durable_advance h (stay ow d td ph) \<longleftrightarrow> every_file named_file td \<and> settled_phase h (ow\<lparr>phase := ph\<rparr>) d td ph"
  by (simp_all add: durable_advance_def durable_def put_world_def stay_def)

lemma recovery_named: "every_file named_file td \<Longrightarrow> every_file named_file (fst (record_consultation_recovery h now i r td))"
proof -
  assume td: "every_file named_file td"
  obtain td' res where e: "find_existing (host_letters h) i td = (td', res)" by fastforce
  have "every_file named_file td'"
    using named.existing_keeps [OF td, where u = "host_letters h" and i = i] e by simp
  then show ?thesis using e named.saves [where d = td' and u = "host_letters h"]
    by (auto simp: record_consultation_recovery_def split: sum.split option.split)
qed

lemma deliver_named: "every_file named_file d \<Longrightarrow> every_file named_file (fst (deliver u print input d))"
  using named.run_op_keeps [where d = d and u = u and print = print and op = "OpDeliver input"] by simp

lemma deliver_durable:
  assumes "every_file named_file td"
  shows "durable_advance h (deliver_phase h c t said ow d td)"
proof -
  obtain td' r where a: "deliver (host_letters h) (host_print h) (turn_delivery h (clock c) t ow) td = (td', r)" by fastforce
  have n: "every_file named_file td'"
    using deliver_named [OF assms, of "host_letters h" "host_print h" "turn_delivery h (clock c) t ow"] a by simp
  show ?thesis
  proof (cases r)
    case (Inr receipt)
    have "deliver_phase h c t said ow d td
        = stay ow d td' (Completing t \<lparr>answer_turn_id = turn_id t, answer_text = said, answer_delivery = receipt\<rparr>)"
      by (simp add: deliver_phase_def a Inr)
    moreover from delivered_file [OF a [unfolded Inr] assms] have "history_stored h ow td'"
      "dr_backend_id receipt = owner_id ow \<and> dr_message_count receipt = length (messages (owner_session ow))"
      by (auto simp: history_stored_def turn_delivery_def)
    ultimately show ?thesis using n by (simp add: durable_simps history_stored_def receipt_matches_def)
  qed (use n in \<open>simp add: deliver_phase_def a durable_simps\<close>)
qed

lemma complete_written:
  "complete_turn tid out j d = (j', d', Inr u) \<Longrightarrow> tid \<in> completed (admissions j')
     \<and> journal_now d' = JournalFile (admissions j') \<and> journal_synced d' = JournalFile (admissions j')"
  by (auto simp: complete_turn_def Let_def persist_def persist_json_def split: if_splits prod.splits sum.splits bool.splits write_outcome.splits)

lemma complete_durable:
  assumes "every_file named_file td" and "settled_phase h ow d td (Completing t answer)"
  shows "durable_advance h (complete_phase h c t answer ow d td)"
proof -
  obtain j d' r where a: "complete_turn (turn_id t) (outcome c) (owner_journal ow) d = (j, d', r)" by (metis prod_cases3)
  show ?thesis
  proof (cases r)
    case (Inr x)
    with complete_written [OF a [unfolded Inr]] assms show ?thesis
      by (auto simp: complete_phase_def a durable_simps history_stored_def receipt_matches_def completed_everywhere_def file_completed_def)
  qed (use assms in \<open>simp add: complete_phase_def a durable_simps\<close>)
qed

lemma run_owner_durable:
  assumes n: "every_file named_file td" and p: "settled_phase h ow d td (phase ow)"
  shows "durable_advance h (run_owner h c ow d td)"
proof (cases "phase ow")
  case Waiting
  then show ?thesis using n p
    by (auto simp: run_owner_def receive_command_def durable_simps prepare_frame split: list.split owner_command.split prod.split)
next
  case (Preparing t)
  then show ?thesis using n by (auto simp: run_owner_def durable_simps split: option.split prod.split sum.split)
next
  case (Sending t)
  then show ?thesis using n by (auto simp: run_owner_def send_phase_def durable_simps split: prod.split sum.split)
next
  case (Delivering t said)
  then show ?thesis using deliver_durable [OF n] by (simp add: run_owner_def)
next
  case (Beginning t)
  then show ?thesis using n by (auto simp: run_owner_def begin_phase_def durable_simps split: prod.split sum.split)
next
  case (Completing t answer)
  then show ?thesis using complete_durable [OF n] p by (simp add: run_owner_def)
next
  case (Discarding t err blocks)
  then show ?thesis using n by (auto simp: run_owner_def discard_phase_def durable_simps split: prod.split sum.split)
next
  case (Abandoning t reason err)
  then show ?thesis using n recovery_named [OF n]
    by (auto simp: run_owner_def abandon_after_failure_def durable_simps split: prod.split sum.split option.split)
next
  case (Answering t res)
  then show ?thesis using n by (simp add: run_owner_def durable_simps)
qed (use n in \<open>auto simp: run_owner_def durable_simps split: option.split\<close>)

lemma restore_named: "every_file named_file td \<Longrightarrow> every_file named_file (fst (restore_consultation u print i required td))"
  using named.existing_keeps [where d = td and u = u and i = i]
  by (auto simp: restore_consultation_def split: prod.splits sum.splits option.splits)

lemma started_named:
  assumes "start_owner h i env s retrieved c d td = (ow, d', td')" and "every_file named_file td"
  shows "every_file named_file td'"
proof -
  define told where "told = (\<lambda>recovery. case recovery of Some r \<Rightarrow> fst (record_consultation_recovery h (clock c) i r td) | None \<Rightarrow> td)"
  have n: "every_file named_file (told recovery)" for recovery
    using assms(2) by (auto simp: told_def intro: recovery_named split: option.split)
  have "td' = td \<or> (\<exists>recovery required. td' = fst (restore_consultation (host_letters h) (host_print h) i required (told recovery)))"
  proof (cases "trim i = [] \<or> messages s \<noteq> []")
    case False
    obtain d1 r1 where o: "open_journal i (outcome c) d = (d1, r1)" by fastforce
    show ?thesis
    proof (cases r1)
      case (Inr j)
      obtain td2 r2 where r: "restore_consultation (host_letters h) (host_print h) i (has_completed_turns (fst (take_recovery j)))
          (told (snd (take_recovery j))) = (td2, r2)" by fastforce
      then have "td' = td2" using assms(1) False
        by (cases r2) (auto simp: start_owner_def o Inr told_def Let_def take_recovery_def split: option.splits)
      then show ?thesis using r by (metis fst_conv)
    qed (use assms(1) False in \<open>simp add: start_owner_def o\<close>)
  qed (use assms(1) in \<open>auto simp: start_owner_def\<close>)
  then show ?thesis using restore_named [OF n] assms(2) by auto
qed

lemma settled_frame:
  assumes "owner_id ow' = owner_id ow" and "owner_session ow' = owner_session ow"
    and "\<And>i. completed_everywhere i ow d \<Longrightarrow> completed_everywhere i ow' d'" and "settled_phase h ow d td ph"
  shows "settled_phase h ow' d' td ph"
  using assms by (cases "(h, ow, d, td, ph)" rule: settled_phase.cases) (auto simp: history_stored_def receipt_matches_def)

lemma accept_completed:
  "accept_input q out j d = (j', d', r) \<Longrightarrow> completed (admissions j') = completed (admissions j)
     \<and> (i \<in> completed (admissions j) \<and> i \<in> file_completed (journal_now d) \<and> i \<in> file_completed (journal_synced d)
          \<longrightarrow> i \<in> file_completed (journal_now d') \<and> i \<in> file_completed (journal_synced d'))"
  by (auto simp: accept_input_def Let_def persist_def persist_json_def require_recovery_def file_completed_def
      split: if_splits write_outcome.splits)

lemma enqueue_durable:
  assumes "enqueue_recorded h t evidence auth out ow d = (ow', d', ok)" and "settled_phase h ow d td (phase ow)"
  shows "settled_phase h ow' d' td (phase ow')"
proof (cases "enqueue_admitted t ow")
  case True
  obtain j d1 r where a: "accept_input (queued_form h t evidence) out (owner_journal ow) d = (j, d1, r)" by (metis prod_cases3)
  have ow': "owner_id ow' = owner_id ow" "owner_session ow' = owner_session ow" "phase ow' = phase ow" "owner_journal ow' = j" "d' = d1"
    using assms(1) True by (auto simp: enqueue_recorded_def a split: sum.splits)
  show ?thesis unfolding ow'(3)
    by (rule settled_frame [OF ow'(1,2) _ assms(2)]) (use accept_completed [OF a] in \<open>auto simp: completed_everywhere_def ow'(4,5)\<close>)
qed (use assms in \<open>simp add: enqueue_recorded_def\<close>)

lemma calls_durable:
  "settled_phase h ow d td (phase ow) \<Longrightarrow> settled_phase h (request_preparation p opts ow) d td (phase (request_preparation p opts ow))"
  "settled_phase h ow d td (phase ow) \<Longrightarrow> settled_phase h (close_if_idle ow) d td (phase (close_if_idle ow))"
  by (auto simp: request_preparation_def close_if_idle_def completed_everywhere_def elim!: settled_frame [rotated 3])

lemma consultation_step_durable:
  assumes "durable h wd"
  shows "durable h (fst (consultation_step h i wd))"
proof (cases i)
  case (StartOwner k env s retrieved c)
  obtain ow d td where st: "start_owner h k env s retrieved c (journal_files wd) (threads wd) = (ow, d, td)" by (metis prod_cases3)
  show ?thesis using assms StartOwner st started_named [OF st] started_owner(2) [of h k env s retrieved c "journal_files wd" "threads wd"]
    by (cases ow) (auto simp: durable_def)
next
  case (Enqueue t evidence auth w)
  show ?thesis
  proof (cases "live wd")
    case (Some ow)
    obtain ow' d ok where a: "enqueue_recorded h t evidence auth w ow (journal_files wd) = (ow', d, ok)" by (metis prod_cases3)
    from enqueue_durable [OF a] show ?thesis using assms Some Enqueue a by (auto simp: durable_def)
  qed (use assms Enqueue in auto)
next
  case (OwnerStep c)
  show ?thesis
  proof (cases "live wd")
    case (Some ow)
    have "durable_advance h (run_owner h c ow (journal_files wd) (threads wd))"
      using run_owner_durable assms Some by (auto simp: durable_def)
    then show ?thesis using OwnerStep Some by (simp add: durable_advance_def)
  qed (use assms OwnerStep in auto)
qed (use assms calls_durable in \<open>auto simp: durable_def split: option.splits\<close>)

interpretation durability: invariant_machine "consultation_step h" "\<lambda>_. True" "durable h" "\<lambda>_. True" for h
  by unfold_locales (simp, metis consultation_step_durable fst_conv, simp)

lemma named_files_every: "named_files d \<longleftrightarrow> every_file named_file d"
  by (auto simp: named_files_def every_file_def named_file_def split: option.split)

lemma restored_messages:
  assumes "store_ok save" and "\<And>m. m \<in> set ms \<Longrightarrow> list_all sized_block (content m) \<and> list_all (restorable 0) (content (stored_message save m))"
  shows "try_messages print (map (from_message save at) ms) = Inr (map (stored_message save) ms)"
  using assms(2) by (induction ms) (simp_all add: stored_message_back [OF assms(1)])

text \<open>C14. An answer is given only for what is durable: when the owner is about to answer a turn, the thread file holds the whole
  history of the session as a Max consultation, the receipt counts it, and the journal has the turn as completed, also in
  the copy that survives a loss of power. A later owner restores that history exactly, images as their assets, when the
  asset store keeps what it is given, the consultation id is a valid thread id, no image lost its bytes, every block can
  be restored and the tool calls are in order.
\<close>

theorem answered_turns_are_durable:
  assumes "live wd = None" and "named_files (threads wd)"
    and "final_state (consultation_step h) wd inputs = wd'" and "live wd' = Some ow" and "phase ow = Answering t (Inr answer)"
  shows "history_stored h ow (threads wd') \<and> receipt_matches ow answer
    \<and> turn_id t \<in> file_completed (journal_now (journal_files wd')) \<and> turn_id t \<in> file_completed (journal_synced (journal_files wd'))
    \<and> (store_ok (host_save h) \<and> validate_thread_id (owner_id ow) = Inr ()
         \<and> (\<forall>m \<in> set (messages (owner_session ow)). list_all sized_block (content m)
              \<and> list_all (restorable 0) (content (stored_message (host_save h) m)))
         \<and> validate_consultation_tool_history (map (stored_message (host_save h)) (messages (owner_session ow))) = Inr ()
       \<longrightarrow> snd (restore_consultation (host_letters h) (host_print h) (owner_id ow) True (threads wd'))
             = Inr (map (stored_message (host_save h)) (messages (owner_session ow))))"
proof -
  have "durable h wd'"
    using durability.invariant_run [of inputs h wd] assms(1,2,3) by (simp add: durable_def list_all_iff named_files_every)
  then have d: "history_stored h ow (threads wd')" "receipt_matches ow answer" "completed_everywhere (turn_id t) ow (journal_files wd')"
    "every_file named_file (threads wd')"
    using assms(4,5) by (simp_all add: durable_def)
  obtain th at where th: "file_of (owner_id ow) (threads wd') = Some th" "thread_mode th = MAX_CONSULTATION_MODE"
    "thread_messages th = map (from_message (host_save h) at) (messages (owner_session ow))"
    using d(1) by (auto simp: history_stored_def)
  have tid: "thread_id th = owner_id ow" using every_fileD [OF d(4) th(1)] by (simp add: named_file_def)
  have "\<exists>td'. find_existing (host_letters h) (owner_id ow) (threads wd') = (td', Inr (Some (fst (normalize_heuristic_title (host_letters h) th))))"
    if "validate_thread_id (owner_id ow) = Inr ()"
    using that th(1)
    by (cases "normalize_heuristic_title (host_letters h) th")
      (auto simp: find_existing_def file_of_def load_thread_def load_thread_raw_def split: option.splits bool.splits)
  then show ?thesis
    using d(1-3) restored_messages [of "host_save h" "messages (owner_session ow)" "host_print h" at]
    by (auto simp: completed_everywhere_def restore_consultation_def th(2,3) tid normalized_parts)
qed

theorem answered_turns_are_durable_witness:
  "\<exists>wd ow. final_state (consultation_step sample_host) empty_world answered_run = wd \<and> live wd = Some ow
     \<and> history_stored sample_host ow (threads wd) \<and> lit ''one'' \<in> file_completed (journal_synced (journal_files wd))"
proof -
  obtain wd ow answer where wd: "final_state (consultation_step sample_host) empty_world answered_run = wd" "live wd = Some ow"
    "phase ow = Answering t1 (Inr answer)"
    using answered_state by blast
  have "named_files (threads empty_world)" by (simp add: empty_world_def named_files_def file_of_def)
  from answered_turns_are_durable [OF _ this wd] wd show ?thesis by (auto simp: empty_world_def asked_def)
qed

end
