(* ===== verification/Consult_Findings.thy ===== *)
theory Consult_Findings
  imports Consult_Durable
begin

section \<open>What happens to commands behind a failed turn\<close>

text \<open>
  A failed turn takes the inputs behind it out of the journal, but their commands stay in the channel. Two concrete runs show
  what such a stale command does when it is reached. Every journal write lands in both.
\<close>

text \<open>A stale command can block the consultation. The first turn fails, which drops the second from the journal; the second
  command is still in the channel, its own provider cannot be prepared, and as its input is no longer the front of the
  journal the owner demands recovery. Every journal write landed, the journal holds nothing unfinished, and yet no
  instruction is accepted any more.
\<close>

theorem stale_preparation_blocks_consultation:
  "let wd = final_state (consultation_step sample_host) empty_world
              (failing_start @ [Enqueue t2 None False WriteDone] @ replicate 14 (OwnerStep go))
   in (\<exists>ow. live wd = Some ow \<and> phase ow = Waiting \<and> commands ow = [] \<and> recovery_reason (owner_journal ow) \<noteq> None
         \<and> queued (admissions (owner_journal ow)) = [] \<and> pending_turn (admissions (owner_journal ow)) = None
         \<and> journal_now (journal_files wd) = JournalFile (admissions (owner_journal ow)))
      \<and> snd (consultation_step sample_host (Enqueue t3 None False WriteDone) wd) = None"
  unfolding failing_start_def append.simps events_of_Cons(2) start_opened fst_conv
  by (simp add: run_defs)

text \<open>A stale command can drop a later instruction. The second candidate waits for its authorization when the first turn has
  failed; a third instruction is accepted meanwhile. The rejection of the second cannot be discarded, so the owner abandons
  what is unfinished, which is the third: it is answered with an error and was never executed.
\<close>

theorem stale_rejection_drops_later_turn:
  "let es = events_of (consultation_step sample_host) empty_world dropping_run
   in accepted (journal_trace es) = [lit ''one'', lit ''two'', lit ''three''] \<and> executed es = [lit ''one'']
      \<and> OReplied (lit ''three'') (Inl (JournalFailed NotAdmittedFront)) \<in> set es"
  by (simp add: dropping_events)

end
