(* ===== verification/Consult_Input.thy ===== *)
theory Consult_Input
  imports Consult_Owner Ledger_Theorems
begin

section \<open>From the ledger to a consultation turn\<close>

text \<open>
  The capture side of \<open>core/agent/consultation.rs\<close>: the sealed reading of one capture interval
  (\<open>SealedConsultationInput\<close>), the queue of group boundaries (\<open>ConsultationInputQueue\<close>) and the handles that carry a
  group to the owner and its answer back. The ledger is read, never changed.
\<close>

subsection \<open>The sealed input\<close>

record sealed_input =
  in_session :: rstr
  in_epoch :: nat
  in_start :: nat
  in_end :: nat
  in_members :: "presentation_member list"
  in_text :: rstr

datatype input_error = BadCaptureInterval | CrossingOccurrence

fun collect_members :: "('c, 'w, 'f) ledger \<Rightarrow> nat \<Rightarrow> nat \<Rightarrow> occurrence list \<Rightarrow> input_error + presentation_member list option" where
  "collect_members L previous_end hi [] = Inr (Some [])"
| "collect_members L previous_end hi (x # xs) =
     (if \<not> (previous_end \<le> sample_start x \<and> sample_end x \<le> hi) then Inl CrossingOccurrence
      else if \<not> is_qualified L x \<or> text_recovery_pending L x
             \<or> \<not> (case map_of (frontiers L) x of None \<Rightarrow> False | Some f \<Rightarrow> is_closed f) then Inr None
      else case map_of (seals L) x of
             None \<Rightarrow> Inr None
           | Some receipt \<Rightarrow>
               (case text_of L x of
                  None \<Rightarrow> Inr None
                | Some label \<Rightarrow>
                    if trim label = [] then Inr None
                    else (case collect_members L (sample_end x) hi xs of
                            Inr (Some ms) \<Rightarrow> Inr (Some (\<lparr>pm_occurrence = x, pm_label = label, pm_seal = lr_receipt_id receipt\<rparr> # ms))
                          | r \<Rightarrow> r)))"

definition from_ledger ::
  "('c, 'w, 'f) ledger \<Rightarrow> rstr \<Rightarrow> nat \<Rightarrow> nat \<Rightarrow> nat \<Rightarrow> speech_evidence \<Rightarrow> input_error + sealed_input option" where
  "from_ledger L s epoch a b speech =
     (if s = [] \<or> epoch = 0 \<or> b \<le> a then Inl BadCaptureInterval
      else let coverage = assess_seal_coverage L s epoch speech 0
           in if unavailable_reason (sc_status coverage) \<noteq> None
                \<or> (case sc_observed coverage of None \<Rightarrow> True | Some n \<Rightarrow> n < b)
                \<or> list_ex (\<lambda>gap. sample_start gap < b \<and> a < sample_end gap) (sc_uncovered coverage) then Inr None
              else let occurrences = known_between L s epoch a b
                   in if occurrences = [] then Inr None
                      else case collect_members L a b occurrences of
                             Inl e \<Rightarrow> Inl e
                           | Inr None \<Rightarrow> Inr None
                           | Inr (Some ms) \<Rightarrow>
                               Inr (Some \<lparr>in_session = s, in_epoch = epoch, in_start = a, in_end = b, in_members = ms,
                                          in_text = join_with [32] (map pm_label ms)\<rparr>))"

definition turn_id_for_group :: "sealed_input \<Rightarrow> rstr" where
  "turn_id_for_group i =
     lit ''capture-group:'' @ show_nat (utf8_len (in_session i)) @ [58] @ in_session i @ [58] @ show_nat (in_epoch i)
       @ [58] @ show_nat (in_start i) @ [58] @ show_nat (in_end i)"

subsection \<open>The queue of boundaries\<close>

record input_queue =
  iq_session :: rstr
  iq_epoch :: nat
  accepted_end :: nat
  last_boundary_end :: nat
  boundaries :: "nat list"

datatype queue_error =
    CaptureIdentityRequired
  | BoundaryBackwards
  | InputQueueFull
  | InputRefused input_error
  | SourceChanged
  | OwnerStopped
  | NothingToJoin
  | OtherCapture
  | StaleAcknowledgement

definition new_input_queue :: "rstr \<Rightarrow> nat \<Rightarrow> queue_error + input_queue" where
  "new_input_queue s epoch =
     (if trim s = [] \<or> epoch = 0 then Inl CaptureIdentityRequired
      else Inr \<lparr>iq_session = s, iq_epoch = epoch, accepted_end = 0, last_boundary_end = 0, boundaries = []\<rparr>)"

definition INPUT_QUEUE_LIMIT :: nat where "INPUT_QUEUE_LIMIT = 16"

definition append_boundary :: "nat \<Rightarrow> input_queue \<Rightarrow> input_queue \<times> (queue_error + bool)" where
  "append_boundary e q =
     (if e < last_boundary_end q then (q, Inl BoundaryBackwards)
      else if e = last_boundary_end q then (q, Inr False)
      else if INPUT_QUEUE_LIMIT \<le> length (boundaries q) then (q, Inl InputQueueFull)
      else (q\<lparr>boundaries := boundaries q @ [e], last_boundary_end := e\<rparr>, Inr True))"

definition resume_speech :: "input_queue \<Rightarrow> input_queue" where
  "resume_speech q = q\<lparr>boundaries := []\<rparr>"

definition ready :: "('c, 'w, 'f) ledger \<Rightarrow> speech_evidence \<Rightarrow> input_queue \<Rightarrow> input_error + sealed_input option" where
  "ready L speech q =
     (case boundaries q of
        [] \<Rightarrow> Inr None
      | e # _ \<Rightarrow> from_ledger L (iq_session q) (iq_epoch q) (accepted_end q) e speech)"

definition authorize_prepared ::
  "('c, 'w, 'f) ledger \<Rightarrow> speech_evidence \<Rightarrow> bool \<Rightarrow> sealed_input \<Rightarrow> input_queue \<Rightarrow> queue_error + sealed_input" where
  "authorize_prepared L speech owner_listens prepared_input q =
     (case ready L speech q of
        Inl e \<Rightarrow> Inl (InputRefused e)
      | Inr current \<Rightarrow>
          if current \<noteq> Some prepared_input then Inl SourceChanged
          else if \<not> owner_listens then Inl OwnerStopped else Inr prepared_input)"

definition skip_measured_silence :: "('c, 'w, 'f) ledger \<Rightarrow> speech_evidence \<Rightarrow> input_queue \<Rightarrow> input_queue \<times> bool" where
  "skip_measured_silence L speech q =
     (case boundaries q of
        [] \<Rightarrow> (q, False)
      | e # rest \<Rightarrow>
          let coverage = assess_seal_coverage L (iq_session q) (iq_epoch q) speech 0
          in if unavailable_reason (sc_status coverage) \<noteq> None
               \<or> (case sc_observed coverage of None \<Rightarrow> True | Some n \<Rightarrow> n < e)
               \<or> list_ex (\<lambda>r. sample_start r < e \<and> accepted_end q < sample_end r) (se_ranges speech)
               \<or> list_ex (\<lambda>x. in_capture (iq_session q) (iq_epoch q) x \<and> sample_start x < e \<and> accepted_end q < sample_end x)
                   (om_keys (evidence L) @ om_keys (committed L))
             then (q, False)
             else (q\<lparr>accepted_end := e, boundaries := rest\<rparr>, True))"

definition join_front :: "input_queue \<Rightarrow> input_queue \<times> (queue_error + unit)" where
  "join_front q = (if length (boundaries q) < 2 then (q, Inl NothingToJoin) else (q\<lparr>boundaries := tl (boundaries q)\<rparr>, Inr ()))"

definition acknowledge :: "sealed_input \<Rightarrow> input_queue \<Rightarrow> input_queue \<times> (queue_error + unit)" where
  "acknowledge i q =
     (if \<not> (in_session i = iq_session q \<and> in_epoch i = iq_epoch q) then (q, Inl OtherCapture)
      else if \<not> (in_start i = accepted_end q \<and> (case boundaries q of e # _ \<Rightarrow> e = in_end i | [] \<Rightarrow> False))
      then (q, Inl StaleAcknowledgement)
      else (q\<lparr>accepted_end := in_end i, boundaries := tl (boundaries q)\<rparr>, Inr ()))"

subsection \<open>Handing a group to the owner\<close>

definition member_value :: "presentation_member \<Rightarrow> json" where
  "member_value m = JObject
     [(lit ''capture_epoch'', JNumber (show_nat (capture_epoch (pm_occurrence m)))),
      (lit ''sample_end'', JNumber (show_nat (sample_end (pm_occurrence m)))),
      (lit ''sample_start'', JNumber (show_nat (sample_start (pm_occurrence m)))),
      (lit ''seal_receipt'', JString (pm_seal m)),
      (lit ''session_id'', JString (session (pm_occurrence m))),
      (lit ''source_label'', JString (pm_label m))]"

definition group_value :: "sealed_input \<Rightarrow> json" where
  "group_value i = JObject
     [(lit ''capture_epoch'', JNumber (show_nat (in_epoch i))),
      (lit ''members'', JArray (map member_value (in_members i))),
      (lit ''sample_end'', JNumber (show_nat (in_end i))),
      (lit ''sample_start'', JNumber (show_nat (in_start i))),
      (lit ''session_id'', JString (in_session i))]"

definition prepare_group ::
  "'w owner_host \<Rightarrow> sealed_input \<Rightarrow> 'w consultation_turn \<Rightarrow> write_outcome \<Rightarrow> 'w owner \<Rightarrow> journal_disk \<Rightarrow> 'w owner \<times> journal_disk \<times> bool" where
  "prepare_group h i t out ow d =
     (if turn_id t \<noteq> turn_id_for_group i \<or> turn_text t \<noteq> in_text i then (ow, d, False)
      else enqueue_recorded h t (Some (group_value i)) True out ow d)"

datatype finish_error = OwnerGone | TurnFailed owner_error | GroupTurnMismatch | GroupHistoryMismatch

definition finish_group ::
  "rstr \<Rightarrow> sealed_input \<Rightarrow> (owner_error + consultation_answer) option \<Rightarrow> finish_error + sealed_input \<times> consultation_answer" where
  "finish_group consultation i reply =
     (case reply of
        None \<Rightarrow> Inl OwnerGone
      | Some (Inl e) \<Rightarrow> Inl (TurnFailed e)
      | Some (Inr answer) \<Rightarrow>
          if answer_turn_id answer \<noteq> turn_id_for_group i then Inl GroupTurnMismatch
          else if dr_backend_id (answer_delivery answer) \<noteq> consultation then Inl GroupHistoryMismatch
          else Inr (i, answer))"

subsection \<open>Groups tile the capture\<close>

datatype 'a capture_call =
    Boundary nat
  | ResumeSpeech
  | SkipSilence 'a speech_evidence
  | JoinFront
  | Acknowledge sealed_input

text \<open>The audio that leaves the queue, as a group or as measured silence.\<close>

datatype capture_event = Grouped nat nat | Silent nat nat

fun capture_step :: "('c, 'w, 'f) ledger capture_call \<Rightarrow> input_queue \<Rightarrow> input_queue \<times> capture_event option" where
  "capture_step (Boundary e) q = (fst (append_boundary e q), None)"
| "capture_step ResumeSpeech q = (resume_speech q, None)"
| "capture_step (SkipSilence L speech) q =
     (case skip_measured_silence L speech q of
        (q', True) \<Rightarrow> (q', Some (Silent (accepted_end q) (accepted_end q'))) | (q', False) \<Rightarrow> (q', None))"
| "capture_step JoinFront q = (fst (join_front q), None)"
| "capture_step (Acknowledge i) q =
     (case acknowledge i q of (q', Inr _) \<Rightarrow> (q', Some (Grouped (in_start i) (in_end i))) | (q', Inl _) \<Rightarrow> (q', None))"

fun event_span :: "capture_event \<Rightarrow> nat list" where
  "event_span (Grouped a b) = [a..<b]"
| "event_span (Silent a b) = [a..<b]"

fun tiling :: "nat \<Rightarrow> capture_event \<Rightarrow> nat option" where
  "tiling p (Grouped a b) = (if a = p \<and> a < b then Some b else None)"
| "tiling p (Silent a b) = (if a = p \<and> a < b then Some b else None)"

definition queue_ok :: "input_queue \<Rightarrow> bool" where
  "queue_ok q \<longleftrightarrow> sorted_wrt (<) (accepted_end q # boundaries q) \<and> accepted_end q \<le> last_boundary_end q
     \<and> (\<forall>e \<in> set (boundaries q). e \<le> last_boundary_end q) \<and> length (boundaries q) \<le> INPUT_QUEUE_LIMIT"

definition queue_sim :: "input_queue \<Rightarrow> nat \<Rightarrow> bool" where
  "queue_sim q p \<longleftrightarrow> queue_ok q \<and> accepted_end q = p"

lemma append_ok: "queue_ok q \<Longrightarrow> queue_ok (fst (append_boundary e q)) \<and> accepted_end (fst (append_boundary e q)) = accepted_end q"
  by (auto simp: queue_ok_def append_boundary_def sorted_wrt_append)

lemma join_ok: "queue_ok q \<Longrightarrow> queue_ok (q\<lparr>boundaries := tl (boundaries q)\<rparr>)"
  by (cases "boundaries q") (auto simp: queue_ok_def)

lemma shorter_ok:
  "queue_ok q \<Longrightarrow> boundaries q = e # rest \<Longrightarrow> queue_ok (q\<lparr>accepted_end := e, boundaries := rest\<rparr>)"
  "queue_ok q \<Longrightarrow> boundaries q = e # rest \<Longrightarrow> queue_ok (q\<lparr>boundaries := rest\<rparr>)"
  "queue_ok q \<Longrightarrow> boundaries q = e # rest \<Longrightarrow> accepted_end q < e"
  "queue_ok q \<Longrightarrow> queue_ok (q\<lparr>boundaries := []\<rparr>)"
  by (auto simp: queue_ok_def)

interpretation groups: monitored_machine capture_step "\<lambda>_. True" queue_sim tiling
proof unfold_locales
  fix i q p q'
  assume q: "queue_sim q p" and s: "capture_step i q = (q', None)"
  then show "queue_sim q' p"
    by (cases i) (auto simp: queue_sim_def resume_speech_def join_front_def skip_measured_silence_def acknowledge_def Let_def
        shorter_ok append_ok join_ok
        split: list.splits if_splits prod.splits sum.splits bool.splits)
next
  fix i q p q' e
  assume q: "queue_sim q p" and s: "capture_step i q = (q', Some e)"
  then show "\<exists>p'. tiling p e = Some p' \<and> queue_sim q' p'"
    by (cases i) (auto simp: queue_sim_def skip_measured_silence_def acknowledge_def Let_def shorter_ok
        split: list.splits if_splits prod.splits sum.splits bool.splits)
qed

lemma upt_join: "i \<le> j \<Longrightarrow> j \<le> k \<Longrightarrow> [i..<j] @ [j..<k] = [i..<k]"
  by (metis le_iff_add upt_add_eq_append)

lemma tiling_span: "accept tiling p es = Some p' \<Longrightarrow> p \<le> p' \<and> concat (map event_span es) = [p..<p']"
proof (induction es arbitrary: p)
  case (Cons e es)
  obtain p1 where p1: "tiling p e = Some p1" "accept tiling p1 es = Some p'" using Cons.prems by (auto split: option.splits)
  then have "event_span e = [p..<p1]" "p < p1" by (cases e; auto split: if_splits)+
  then show ?case using Cons.IH [OF p1(2)] by (simp add: upt_join)
qed simp

text \<open>C22. The groups of a capture tile it: whatever boundaries come, speech resumes, silences are skipped, candidates joined and
  groups acknowledged, in any order and against any ledger, the groups and the silences that left the queue are adjacent
  and in order from the first sample, so no sample is handed over twice or lost between two groups; and the queue holds
  at most 16 boundaries, ascending and behind what was accepted.
\<close>

theorem groups_tile_the_capture:
  assumes "new_input_queue s epoch = Inr q0"
  shows "let q = final_state capture_step q0 calls
         in concat (map event_span (events_of capture_step q0 calls)) = [0..<accepted_end q]
            \<and> length (boundaries q) \<le> 16 \<and> sorted_wrt (<) (accepted_end q # boundaries q)"
proof -
  have "queue_sim q0 0" using assms by (auto simp: new_input_queue_def queue_sim_def queue_ok_def split: if_splits)
  from groups.events_accepted [OF _ this, of calls] obtain p
    where p: "accept tiling 0 (events_of capture_step q0 calls) = Some p" "queue_sim (final_state capture_step q0 calls) p"
    by (auto simp: list_all_iff)
  then show ?thesis using tiling_span [OF p(1)] by (auto simp: queue_sim_def queue_ok_def Let_def INPUT_QUEUE_LIMIT_def)
qed

subsection \<open>What a sealed input says\<close>

lemma collected_step:
  assumes "collect_members L reach hi (x # xs) = Inr (Some ms)"
  shows "ms = hd ms # tl ms \<and> pm_occurrence (hd ms) = x \<and> member_settled L (hd ms) \<and> is_qualified L x
    \<and> reach \<le> sample_start x \<and> sample_end x \<le> hi \<and> collect_members L (sample_end x) hi xs = Inr (Some (tl ms))"
  using assms by (auto simp: member_settled_def Let_def split: if_splits option.splits sum.splits)

lemma collected:
  assumes "collect_members L reach hi xs = Inr (Some ms)" and "\<forall>x \<in> set xs. in_capture s epoch x"
    and "\<And>x. is_qualified L x \<Longrightarrow> is_anchored x"
  shows "map pm_occurrence ms = xs \<and> list_all (member_settled L) ms
    \<and> list_all (\<lambda>x. reach \<le> sample_start x \<and> sample_end x \<le> hi \<and> is_anchored x) xs
    \<and> sorted_wrt (\<lambda>x y. sample_end x \<le> sample_start y) xs
    \<and> check_members L s epoch reach ms = Inr (if xs = [] then reach else sample_end (last xs))"
  using assms(1,2)
proof (induction xs arbitrary: reach ms)
  case (Cons x xs)
  obtain m rest where m: "ms = m # rest" "pm_occurrence m = x" "member_settled L m" "is_qualified L x" "reach \<le> sample_start x"
    "sample_end x \<le> hi" "collect_members L (sample_end x) hi xs = Inr (Some rest)"
    using collected_step [OF Cons.prems(1)] by blast
  note ih = Cons.IH [OF m(7)]
  have "sample_start x < sample_end x" using assms(3) [OF m(4)] by (simp add: is_anchored_def)
  then show ?case using ih m Cons.prems(2) assms(3) [OF m(4)]
    by (auto simp: list_all_iff Let_def split: if_splits)
qed simp

lemma known_between_set:
  "set (known_between L s epoch a b) = {x. in_capture s epoch x \<and> sample_start x < b \<and> a < sample_end x
     \<and> x \<in> set (om_keys (evidence L)) \<union> set (om_keys (committed L))}"
  "sorted (known_between L s epoch a b)" "distinct (known_between L s epoch a b)"
  by (auto simp: known_between_def)

lemma sealed_shape:
  assumes "from_ledger L s epoch a b speech = Inr (Some i)"
  shows "collect_members L a b (known_between L s epoch a b) = Inr (Some (in_members i))" and "known_between L s epoch a b \<noteq> []"
    and "in_text i = join_with [32] (map pm_label (in_members i))" and "in_session i = s \<and> in_epoch i = epoch \<and> in_start i = a \<and> in_end i = b"
    and "unavailable_reason (sc_status (assess_seal_coverage L s epoch speech 0)) = None"
    and "\<forall>gap \<in> set (sc_uncovered (assess_seal_coverage L s epoch speech 0)). \<not> (sample_start gap < b \<and> a < sample_end gap)"
    and "s \<noteq> [] \<and> epoch \<noteq> 0 \<and> a < b"
  using assms by (auto simp: from_ledger_def Let_def list_ex_iff split: if_splits option.splits sum.splits)

lemma ledger_anchored: "ledger_ok L \<Longrightarrow> is_qualified L x \<Longrightarrow> is_anchored x"
  by (auto simp: ledger_ok_def physical_ok_def is_qualified_def)

lemma speech_is_read:
  assumes ok: "ledger_ok L" and i: "from_ledger L s epoch a b speech = Inr (Some i)"
  shows "{a..<b} \<inter> span_samples (se_ranges speech) \<subseteq> span_samples (known_between L s epoch a b)"
proof
  fix n assume n: "n \<in> {a..<b} \<inter> span_samples (se_ranges speech)"
  let ?c = "assess_seal_coverage L s epoch speech 0"
  have gap: "evidence_gap L s epoch speech = None"
    using sealed_shape(5) [OF i]
    by (cases "evidence_gap L s epoch speech") (simp_all add: assess_seal_coverage_def refused_coverage_def unavailable_reason_def)
  have "n \<notin> span_samples (sc_uncovered ?c)"
    using sealed_shape(6) [OF i] n by (fastforce simp: span_samples_def samples_def occ_span_def)
  then have "n \<in> span_samples (filter (in_capture s epoch) (om_keys (committed L)))"
    using assess_measured(1) [OF ok gap, of 0] n by auto
  then obtain x where "x \<in> set (om_keys (committed L))" "in_capture s epoch x" "sample_start x \<le> n" "n < sample_end x"
    by (auto simp: span_samples_def samples_def occ_span_def)
  then have "x \<in> set (known_between L s epoch a b)" using n by (auto simp: known_between_set)
  then show "n \<in> span_samples (known_between L s epoch a b)"
    using \<open>sample_start x \<le> n\<close> \<open>n < sample_end x\<close> by (force simp: span_samples_def samples_def occ_span_def)
qed

text \<open>When an input is ready.\<close>

definition occurrence_settled :: "('c, 'w, 'f) ledger \<Rightarrow> occurrence \<Rightarrow> bool" where
  "occurrence_settled L x \<longleftrightarrow> is_qualified L x \<and> \<not> text_recovery_pending L x \<and> is_sealed L x
     \<and> (case map_of (frontiers L) x of None \<Rightarrow> False | Some f \<Rightarrow> is_closed f)
     \<and> (case text_of L x of None \<Rightarrow> False | Some label \<Rightarrow> trim label \<noteq> [])"

definition counted_samples :: "('c, 'w, 'f) ledger \<Rightarrow> rstr \<Rightarrow> nat \<Rightarrow> nat set" where
  "counted_samples L s epoch =
     span_samples (filter (in_capture s epoch) (om_keys (committed L))) - span_samples (pending_text_recoveries L s epoch)"

lemma collect_complete:
  assumes "list_all (occurrence_settled L) xs" and "list_all (\<lambda>x. reach \<le> sample_start x \<and> sample_end x \<le> hi) xs"
    and "sorted_wrt (\<lambda>x y. sample_end x \<le> sample_start y) xs"
  shows "\<exists>ms. collect_members L reach hi xs = Inr (Some ms)"
  using assms
proof (induction xs arbitrary: reach)
  case (Cons x xs)
  then obtain ms where "collect_members L (sample_end x) hi xs = Inr (Some ms)" by (fastforce simp: list_all_iff)
  then show ?case using Cons.prems by (auto simp: occurrence_settled_def is_sealed_def split: option.splits)
qed simp

lemma settled_members: "list_all (member_settled L) ms \<Longrightarrow> list_all (occurrence_settled L) (map pm_occurrence ms)"
  by (auto simp: list_all_iff member_settled_def occurrence_settled_def is_sealed_def Let_def split: option.splits)

lemma span_samples_iff: "n \<in> span_samples xs \<longleftrightarrow> (\<exists>x \<in> set xs. sample_start x \<le> n \<and> n < sample_end x)"
  by (auto simp: span_samples_def samples_def occ_span_def)

lemma gap_iff:
  assumes ok: "ledger_ok L" and gap: "evidence_gap L s epoch speech = None" and "a < b"
  shows "list_ex (\<lambda>gap. sample_start gap < b \<and> a < sample_end gap) (sc_uncovered (assess_seal_coverage L s epoch speech 0))
    \<longleftrightarrow> \<not> {a..<b} \<inter> span_samples (se_ranges speech) \<subseteq> counted_samples L s epoch"
proof -
  let ?u = "sc_uncovered (assess_seal_coverage L s epoch speech 0)"
  have u: "span_samples ?u = span_samples (se_ranges speech) - counted_samples L s epoch" "in_order (map occ_span ?u)"
    using assess_measured(1,2) [OF ok gap, of 0] by (simp_all add: counted_samples_def)
  have len: "sample_start g < sample_end g" if "g \<in> set ?u" for g
    using in_order_bounds [OF u(2), of "occ_span g"] that by (simp add: occ_span_def)
  have "(\<exists>g \<in> set ?u. sample_start g < b \<and> a < sample_end g) \<longleftrightarrow> (\<exists>n \<in> {a..<b}. n \<in> span_samples ?u)"
  proof
    assume "\<exists>g \<in> set ?u. sample_start g < b \<and> a < sample_end g"
    then obtain g where "g \<in> set ?u" "sample_start g < b" "a < sample_end g" by blast
    then show "\<exists>n \<in> {a..<b}. n \<in> span_samples ?u"
      using len [of g] assms(3) by (intro bexI [of _ "max a (sample_start g)"]) (auto simp: span_samples_iff intro!: bexI [of _ g])
  next
    assume "\<exists>n \<in> {a..<b}. n \<in> span_samples ?u"
    then obtain n g where "n \<in> {a..<b}" "g \<in> set ?u" "sample_start g \<le> n" "n < sample_end g" by (auto simp: span_samples_iff)
    then show "\<exists>g \<in> set ?u. sample_start g < b \<and> a < sample_end g" by (intro bexI [of _ g]) auto
  qed
  then show ?thesis unfolding list_ex_iff u(1) by blast
qed

definition input_ready :: "('c, 'w, 'f) ledger \<Rightarrow> rstr \<Rightarrow> nat \<Rightarrow> nat \<Rightarrow> nat \<Rightarrow> speech_evidence \<Rightarrow> bool" where
  "input_ready L s epoch a b speech \<longleftrightarrow> s \<noteq> [] \<and> epoch \<noteq> 0 \<and> a < b \<and> evidence_gap L s epoch speech = None
     \<and> (\<exists>n. observed_samples (se_availability speech) = Some n \<and> b \<le> n)
     \<and> {a..<b} \<inter> span_samples (se_ranges speech) \<subseteq> counted_samples L s epoch
     \<and> known_between L s epoch a b \<noteq> [] \<and> list_all (occurrence_settled L) (known_between L s epoch a b)
     \<and> list_all (\<lambda>x. a \<le> sample_start x \<and> sample_end x \<le> b) (known_between L s epoch a b)
     \<and> sorted_wrt (\<lambda>x y. sample_end x \<le> sample_start y) (known_between L s epoch a b)"

lemma evidence_available:
  "unavailable_reason (sc_status (assess_seal_coverage L s epoch speech 0)) = None \<longleftrightarrow> evidence_gap L s epoch speech = None"
  by (cases "evidence_gap L s epoch speech") (simp_all add: assess_seal_coverage_def refused_coverage_def unavailable_reason_def Let_def)

lemma evidence_observed:
  "evidence_gap L s epoch speech = None \<Longrightarrow> sc_observed (assess_seal_coverage L s epoch speech 0) = observed_samples (se_availability speech)"
  by (simp add: assess_seal_coverage_def Let_def)

lemma sealed_members:
  assumes ok: "ledger_ok L" and i: "from_ledger L s epoch a b speech = Inr (Some i)"
  shows "input_ready L s epoch a b speech" and "map pm_occurrence (in_members i) = known_between L s epoch a b"
    and "list_all (member_settled L) (in_members i)"
    and "check_members L s epoch a (in_members i) = Inr (sample_end (last (known_between L s epoch a b)))"
proof -
  note sh = sealed_shape [OF i]
  have "\<forall>x \<in> set (known_between L s epoch a b). in_capture s epoch x" by (simp add: known_between_set)
  note c = collected [OF sh(1) this ledger_anchored [OF ok]]
  show "map pm_occurrence (in_members i) = known_between L s epoch a b" "list_all (member_settled L) (in_members i)"
    "check_members L s epoch a (in_members i) = Inr (sample_end (last (known_between L s epoch a b)))"
    using c sh(2) by simp_all
  have gap: "evidence_gap L s epoch speech = None" using sh(5) by (simp add: evidence_available)
  have "\<exists>n. observed_samples (se_availability speech) = Some n \<and> b \<le> n"
    using i sh(7) by (auto simp: from_ledger_def Let_def evidence_observed [OF gap] not_less split: if_splits option.splits)
  moreover have "list_all (occurrence_settled L) (known_between L s epoch a b)"
    using settled_members c by metis
  moreover have "{a..<b} \<inter> span_samples (se_ranges speech) \<subseteq> counted_samples L s epoch"
    using gap_iff [OF ok gap, of a b] sh(6,7) by (auto simp: list_ex_iff)
  ultimately show "input_ready L s epoch a b speech"
    using sh(2,7) c gap by (simp add: input_ready_def list_all_iff)
qed

lemma ready_sealed:
  assumes ok: "ledger_ok L" and r: "input_ready L s epoch a b speech"
  shows "\<exists>i. from_ledger L s epoch a b speech = Inr (Some i)"
proof -
  have gap: "evidence_gap L s epoch speech = None" using r by (simp add: input_ready_def)
  obtain ms where ms: "collect_members L a b (known_between L s epoch a b) = Inr (Some ms)"
    using collect_complete r unfolding input_ready_def by blast
  have nogap: "\<not> list_ex (\<lambda>gap. sample_start gap < b \<and> a < sample_end gap) (sc_uncovered (assess_seal_coverage L s epoch speech 0))"
    using gap_iff [OF ok gap, of a b] r by (simp add: input_ready_def)
  have "unavailable_reason (sc_status (assess_seal_coverage L s epoch speech 0)) = None" using gap by (simp add: evidence_available)
  then show ?thesis using r ms nogap
    by (auto simp: from_ledger_def input_ready_def Let_def evidence_observed [OF gap])
qed

text \<open>C21. A sealed input is ready exactly when the interval is fully heard and settled. In every run of the ledger this is so if
  and only if the evidence is valid and reaches past the interval, every sample measured as speech there is accounted for
  by committed occurrences without open recovery, and the known occurrences of the interval lie inside it one behind the
  other, each qualified, closed, sealed and labelled. The input then cites exactly those occurrences with the labels and
  seals the ledger holds, and its text is those labels.
\<close>

theorem input_ready_exactly_when_settled:
  "let L = ledger_after W w ops
   in case from_ledger L s epoch a b speech of
        Inr (Some i) \<Rightarrow> input_ready L s epoch a b speech \<and> map pm_occurrence (in_members i) = known_between L s epoch a b
          \<and> list_all (member_settled L) (in_members i) \<and> in_text i = join_with [32] (map pm_label (in_members i))
      | _ \<Rightarrow> \<not> input_ready L s epoch a b speech"
proof -
  let ?L = "ledger_after W w ops"
  have ok: "ledger_ok ?L" by (rule ledger_ok_after)
  show ?thesis
  proof (cases "\<exists>i. from_ledger ?L s epoch a b speech = Inr (Some i)")
    case True
    then obtain i where i: "from_ledger ?L s epoch a b speech = Inr (Some i)" by blast
    from sealed_members [OF ok i] sealed_shape(3) [OF i] show ?thesis by (simp add: Let_def i)
  next
    case False
    then have "\<not> input_ready ?L s epoch a b speech" using ready_sealed [OF ok] by blast
    then show ?thesis using False by (auto simp: Let_def split: sum.split option.split)
  qed
qed

text \<open>What is ready can be presented: the ledger never refuses the group for its members.\<close>

lemma check_first: "check_members L s epoch a (m # ms) = Inr reach \<Longrightarrow> check_members L s epoch (sample_start (pm_occurrence m)) (m # ms) = Inr reach"
  by (auto simp: Let_def split: if_splits)

lemma known_between_members:
  assumes xs: "known_between L s epoch a b = xs" "xs \<noteq> []" and inside: "list_all (\<lambda>x. a \<le> sample_start x \<and> sample_end x \<le> b \<and> is_anchored x) xs"
    and apart: "sorted_wrt (\<lambda>x y. sample_end x \<le> sample_start y) xs"
  shows "known_between L s epoch (sample_start (hd xs)) (sample_end (last xs)) = xs"
proof (rule sorted_distinct_set_unique)
  have ends: "sample_start (hd xs) \<le> sample_start x \<and> sample_end x \<le> sample_end (last xs)" if "x \<in> set xs" for x
  proof
    have "x = hd xs \<or> x \<in> set (tl xs)" using that by (cases xs) auto
    then show "sample_start (hd xs) \<le> sample_start x"
      using apart inside xs(2) by (cases xs) (fastforce simp: is_anchored_def)+
    have split: "xs = butlast xs @ [last xs]" using xs(2) by simp
    have "sorted_wrt (\<lambda>x y. sample_end x \<le> sample_start y) (butlast xs @ [last xs])" using apart split by simp
    moreover have "x = last xs \<or> x \<in> set (butlast xs)" using that split by (metis Un_iff empty_iff empty_set insert_iff list.simps(15) set_append)
    moreover have "sample_start (last xs) < sample_end (last xs)" using inside xs(2) by (simp add: list_all_iff is_anchored_def)
    ultimately show "sample_end x \<le> sample_end (last xs)" by (auto simp: sorted_wrt_append)
  qed
  have hl: "a \<le> sample_start (hd xs)" "sample_end (last xs) \<le> b" using inside xs(2) by (auto simp: list_all_iff)
  show "set (known_between L s epoch (sample_start (hd xs)) (sample_end (last xs))) = set xs"
  proof (rule set_eqI)
    fix x
    have "x \<in> set xs \<longleftrightarrow> in_capture s epoch x \<and> sample_start x < b \<and> a < sample_end x
        \<and> x \<in> set (om_keys (evidence L)) \<union> set (om_keys (committed L))"
      using known_between_set(1) [of L s epoch a b] xs(1) by auto
    moreover have "sample_start x < sample_end (last xs) \<and> sample_start (hd xs) < sample_end x" if "x \<in> set xs"
      using ends [OF that] inside that by (auto simp: list_all_iff is_anchored_def)
    ultimately show "x \<in> set (known_between L s epoch (sample_start (hd xs)) (sample_end (last xs))) \<longleftrightarrow> x \<in> set xs"
      using hl by (auto simp: known_between_set)
  qed
qed (use known_between_set(2,3) [of L s epoch] xs(1) in auto)

text \<open>What is ready can be presented. In every run of the ledger, the presentation of a ready input is recorded exactly
  when the identities and the text are not blank, the revision follows its source, the turn was not presented before and none
  of its occurrences belongs to an earlier group; it is never refused for its members, and what is recorded is the turn with
  exactly the members of the input.
\<close>

theorem ready_input_can_be_presented:
  "let L = ledger_after W w ops
   in case from_ledger L s epoch a b speech of
        Inr (Some i) \<Rightarrow>
          (let out = snd (record_consultation_presentation consultation turn source revision (in_members i) body L)
           in (\<exists>r. out = Inr r) = (trim consultation \<noteq> [] \<and> trim turn \<noteq> [] \<and> trim body \<noteq> []
                \<and> checked_add_u64 source 1 = Some revision
                \<and> \<not> list_ex (\<lambda>r. cp_consultation r = consultation \<and> cp_turn r = turn
                     \<or> list_ex (\<lambda>old. pm_occurrence old \<in> set (map pm_occurrence (in_members i))) (cp_members r))
                   (consultation_presentations L))
              \<and> list_all (\<lambda>r. cp_members r = in_members i \<and> cp_turn r = turn \<and> cp_consultation r = consultation
                    \<and> cp_text r = body) (case out of Inr r \<Rightarrow> [r] | Inl _ \<Rightarrow> []))
      | _ \<Rightarrow> True"
proof -
  let ?L = "ledger_after W w ops"
  have ok: "ledger_ok ?L" by (rule ledger_ok_after)
  show ?thesis
  proof (cases "\<exists>i. from_ledger ?L s epoch a b speech = Inr (Some i)")
    case True
    then obtain i where i: "from_ledger ?L s epoch a b speech = Inr (Some i)" by blast
    let ?xs = "known_between ?L s epoch a b"
    note sm = sealed_members [OF ok i] and sh = sealed_shape [OF i]
    obtain m ms where m: "in_members i = m # ms" using sm(2) sh(2) by (cases "in_members i") auto
    have hd: "hd ?xs = pm_occurrence m" using sm(2) m by (metis list.sel(1) list.simps(9))
    have cap: "in_capture s epoch (pm_occurrence m)" using sm(2) sh(2) m known_between_set(1) [of ?L s epoch a b]
      by (metis (mono_tags, lifting) hd list.set_sel(1) mem_Collect_eq)
    have "list_all (\<lambda>x. a \<le> sample_start x \<and> sample_end x \<le> b \<and> is_anchored x) ?xs"
      using sm(1) ledger_anchored [OF ok] by (auto simp: input_ready_def list_all_iff occurrence_settled_def)
    then have k: "known_between ?L s epoch (sample_start (pm_occurrence m)) (sample_end (last ?xs)) = map pm_occurrence (m # ms)"
      using known_between_members [OF refl sh(2)] sm(1,2) m hd by (simp add: input_ready_def)
    have c: "check_members ?L s epoch (sample_start (pm_occurrence m)) (m # ms) = Inr (sample_end (last ?xs))"
      using check_first sm(4) m by metis
    have "session (pm_occurrence m) = s" "capture_epoch (pm_occurrence m) = epoch" "s \<noteq> []" "epoch \<noteq> 0"
      using cap sh(7) by (simp_all add: in_capture_def)
    then show ?thesis using c k
      by (auto simp: Let_def i m record_consultation_presentation_def list_ex_iff simp del: check_members.simps)
  next
    case False
    then show ?thesis by (auto simp: Let_def split: sum.split option.split)
  qed
qed

subsection \<open>The identity of a group\<close>

lemma number_apart: "show_nat n @ 58 # s = show_nat n' @ 58 # s' \<longleftrightarrow> n = n' \<and> s = s'"
proof
  assume eq: "show_nat n @ 58 # s = show_nat n' @ 58 # s'"
  have d: "58 \<notin> set (show_nat k)" for k using show_nat_digits [of k] by auto
  have "takeWhile (\<lambda>c. c \<noteq> 58) (show_nat k @ 58 # r) = show_nat k" for k r
    using d [of k] by (metis (mono_tags, lifting) append_Nil2 takeWhile.simps(2) takeWhile_append2)
  then have "show_nat n = show_nat n'" using eq by metis
  then show "n = n' \<and> s = s'" using eq digits_value_show by (metis append_eq_append_conv list.inject option.inject)
qed simp

lemma show_nat_inject: "show_nat n = show_nat n' \<longleftrightarrow> n = n'"
  by (metis digits_value_show option.inject)

lemma same_length_apart: "utf8_len s = utf8_len s' \<Longrightarrow> s @ r = s' @ r' \<Longrightarrow> s = s' \<and> r = r'"
proof (induction s arbitrary: s')
  case Nil
  then show ?case using utf8_width_bounds(1) [of "hd s'"] by (cases s') auto
next
  case (Cons c s)
  then show ?case using utf8_width_bounds(1) [of c] by (cases s') auto
qed

text \<open>The identity of a group is injective: two inputs have the same turn identity exactly if they are the same interval of
  the same capture, whatever characters the session identity holds. With the at-most-once execution of turns, an interval of
  speech is never executed twice within a consultation.
\<close>

theorem group_identity_is_injective:
  "turn_id_for_group i = turn_id_for_group j \<longleftrightarrow>
     in_session i = in_session j \<and> in_epoch i = in_epoch j \<and> in_start i = in_start j \<and> in_end i = in_end j"
proof
  assume "turn_id_for_group i = turn_id_for_group j"
  then have "utf8_len (in_session i) = utf8_len (in_session j)"
    "in_session i @ 58 # show_nat (in_epoch i) @ 58 # show_nat (in_start i) @ 58 # show_nat (in_end i)
      = in_session j @ 58 # show_nat (in_epoch j) @ 58 # show_nat (in_start j) @ 58 # show_nat (in_end j)"
    by (simp_all add: turn_id_for_group_def number_apart)
  from same_length_apart [OF this] show "in_session i = in_session j \<and> in_epoch i = in_epoch j \<and> in_start i = in_start j \<and> in_end i = in_end j"
    by (simp add: number_apart show_nat_inject)
qed (simp add: turn_id_for_group_def)

theorem groups_tile_the_capture_witness:
  "let q = final_state capture_step \<lparr>iq_session = lit ''s'', iq_epoch = 1, accepted_end = 0, last_boundary_end = 0, boundaries = []\<rparr>
             ([Boundary 10, Boundary 20, Acknowledge \<lparr>in_session = lit ''s'', in_epoch = 1, in_start = 0, in_end = 10, in_members = [], in_text = []\<rparr>]
               :: (unit, unit, unit) ledger capture_call list)
   in accepted_end q = 10 \<and> boundaries q = [20] \<and> sorted_wrt (<) (accepted_end q # boundaries q)"
  using groups_tile_the_capture [of "lit ''s''" 1 _
      "[Boundary 10, Boundary 20, Acknowledge \<lparr>in_session = lit ''s'', in_epoch = 1, in_start = 0, in_end = 10, in_members = [], in_text = []\<rparr>]
        :: (unit, unit, unit) ledger capture_call list"]
  by (simp add: new_input_queue_def append_boundary_def acknowledge_def INPUT_QUEUE_LIMIT_def trim_def lit_def is_whitespace_def Let_def)

end
