(* ===== verification/Spec2Isabelle.thy ===== *)
theory Spec2Isabelle
  imports Hotkey_Gestures Agent_Session Ledger_Theorems Ledger_Receipts Process_Table Delivery_Text
    Lane_Events Local_Helper Layer1_Consent Window_Plan
    Thread_Rail Monitor_Ticks Consult_Findings Consult_Input
begin

text \<open>
  Codescribe is a dictation and voice-agent application: a hotkey starts a recording, recognisers observe the audio, a
  ledger decides what was said, and the text goes to the application in front or to an agent that may call tools. This
  development models the Rust core of it. Each theory translates the named source files definition by definition and
  proves what makes that part correct; paths are relative to \<open>src/\<close>.

  \<^bold>\<open>The parts and how they interact\<close>

  \<^item> Gestures. \<open>Hotkey_Types\<close> (\<open>core/config/types.rs\<close>), \<open>Hotkey_Config\<close> (\<open>app/os/hotkeys/config.rs\<close>: the packed atomics
    as machine words, the compare-exchange loop) and \<open>Hotkey_Detector\<close> (\<open>app/os/hotkeys/detector.rs\<close>: one definition per
    handler over the detector record); \<open>Hotkey_Gestures\<close> shows that the calls and events of every run follow the hold protocol exactly. The events start and
    stop recordings.
  \<^item> Recognition lane. \<open>Asr_Ingest\<close> (\<open>core/asr_session/events.rs\<close>, \<open>ingest.rs\<close>: the accepted log of one provider stream),
    \<open>Recorder_Lane\<close> (\<open>recorder.rs\<close>, \<open>provider.rs\<close>) with its theorems in \<open>Lane_Audio\<close> and \<open>Lane_Events\<close>, \<open>Local_Helper\<close>
    (\<open>local_helper.rs\<close>: the provider that owns a child process), \<open>Layer1_Consent\<close> (\<open>core/config/cloud_asr.rs\<close>,
    \<open>consent.rs\<close>: which provider may be called at all), \<open>Capture_Windows\<close> and \<open>Window_Plan\<close>
    (\<open>core/pipeline/streaming/live_audio_buffer.rs\<close>, \<open>layer1_window.rs\<close>: the bounded audio buffer and the grid of windows).
  \<^item> Acoustic ledger. \<open>Sample_Ranges\<close>, \<open>Occurrence\<close>, \<open>Ledger_State\<close>, \<open>Ledger_Records\<close>, \<open>Acoustic_Ledger\<close>, \<open>Group_Content\<close>,
    \<open>Ledger_Seal\<close>, \<open>Ledger_Coverage\<close>, \<open>Ledger_Documents\<close> and \<open>Ledger_Compose\<close> translate
    \<open>core/pipeline/acoustic_ledger.rs\<close> and its submodules: one record for the ledger, one definition per operation, every
    refusal a constructor. \<open>Ledger_Machine\<close> makes each operation an input of one machine; \<open>Ledger_Finality\<close>,
    \<open>Ledger_Receipts\<close> and \<open>Ledger_Theorems\<close> hold what is true in every run.
  \<^item> Delivery of text. \<open>Delivery_Route\<close> (\<open>app/controller/delivery_route.rs\<close>: where text goes and what may be pasted) and
    \<open>Delivery_Text\<close> (quotes, markers and the tag of a transcript).
  \<^item> Tools of the agent. \<open>Redaction\<close>, \<open>Tool_Permissions\<close>, \<open>Tool_Registry\<close> and \<open>Approval_Broker\<close> (\<open>core/agent/\<close>:
    \<open>redaction.rs\<close>, \<open>permissions.rs\<close>, \<open>tool_grants.rs\<close>, \<open>registry.rs\<close>, \<open>approval.rs\<close>) decide whether a call runs;
    \<open>File_Paths\<close>, \<open>Path_Policy\<close>, \<open>Containment\<close>, \<open>Terminal_Policy\<close>, \<open>Process_Tool\<close>, \<open>Process_Policy\<close> and \<open>Process_Table\<close>
    (\<open>app/agent/tools/path_policy.rs\<close>, \<open>process.rs\<close>) what a call may touch and spawn.
  \<^item> Agent turns. \<open>Agent_Session\<close> (\<open>core/agent/session.rs\<close>): the loop that streams, runs tools through the gate above and
    grows the history.
  \<^item> Agent threads. \<open>Thread_Content\<close>, \<open>Thread_Titles\<close>, \<open>Thread_Store\<close>, \<open>Thread_Delivery\<close> (\<open>core/agent/thread_store.rs\<close>,
    \<open>thread_index.rs\<close>, \<open>thread_delivery.rs\<close>): the stored form of a history, the files, the index, the gateway that writes
    turns. \<open>Thread_Runs\<close> interleaves the operations at the points where the code holds no lock, \<open>Thread_Rail\<close> relates
    the index to the files.
  \<^item> Run monitors. \<open>Run_Monitor\<close>, \<open>Monitor_Runs\<close>, \<open>Monitor_Ticks\<close> (\<open>core/agent/run_monitor.rs\<close>, \<open>app/agent/monitor.rs\<close>)
    deliver heartbeats of long runs into threads.
  \<^item> Consultations. \<open>Consult_Journal\<close> and \<open>Consult_Protocol\<close> (\<open>core/agent/thread_store/consultation.rs\<close>) are the crash
    boundary, \<open>Consult_Owner\<close>, \<open>Consult_Life\<close>, \<open>Consult_Durable\<close> and \<open>Consult_Findings\<close> (\<open>core/agent/consultation.rs\<close>) the
    owner that executes queued instructions with an \<open>Agent_Session\<close> and delivers them through the gateway; \<open>Consult_Input\<close>
    is the capture side: the sealed reading of an interval of the ledger and the queue of group boundaries.
  \<^item> Shared. \<open>CS_Prelude\<close> (Rust types and library calls), \<open>Rust_Text\<close>, \<open>Ordered_Maps\<close> (BTree maps and sets), and \<open>Machines\<close>:
    the contracts \<open>monitored_machine\<close> (the events of a machine are accepted by a protocol automaton, through a simulation)
    and \<open>invariant_machine\<close>, interpreted for the detector, the broker, the window plan, the process
    table, the monitors, the journal and the owner; the ledger, the lane and the ingest log have run relations of their own.

  \<^bold>\<open>How state and operations correspond to the code\<close>

  A struct is a record with its fields, an enum a datatype with its variants, a method a definition that returns the updated
  state; \<open>Result\<close> is a sum with the error on the left, and every early return and refusal is a branch. Where the code
  releases a lock or awaits, the operation is cut into steps and other steps may come between (the broker, the thread store,
  the monitors, the owner). Counters that the code bounds by checks are naturals; packed and masked integers are words.
  Strings are lists of Unicode scalars (\<open>rstr\<close>), so that the character walks of the source can be followed.

  \<^bold>\<open>What the lemma groups show\<close>

  \<^item> Protocols by simulation: holds of the detector, the lifecycle of a provider, heartbeats, children, and the turns of a
    consultation, which begin, execute and are answered at most once over crashes and loss of power.
  \<^item> Invariants of arbitrary runs: the ledger stays well formed and conserves its receipts, seals are final and exactly on
    finished occurrences, the log is sealed and ordered, titles stay readable, accepted work is served.
  \<^item> Guards: only permitted or confirmed calls run, only admitted programs spawn, new paths stay inside a workspace, no
    egress without consent, what the approval card names is what is spawned, secrets do not influence what is shown.
  \<^item> Exactness: the coverage verdict is set arithmetic on samples, the history check accepts precisely the answered
    histories, composition is the signed text, windows are slices of the capture.
  \<^item> Round trips, bounds and termination: stored messages restore, the next poll is bounded, marker removal and the stop
    deadline come to a halt. Closed counterexamples record where the code does not do what it means to.

  \<^bold>\<open>Arguments of the model\<close>

  Code outside the repository and answers of the outside world are arguments: Unicode tables (\<open>letters\<close>), the JSON reader
  and printer, hashes and fresh identities, clocks, the operating system (files, canonical paths, process status), providers
  and tool handlers as records of operations on an arbitrary world, the child process and its launcher, the factory that
  connects a gateway, the asset store, the outcome of each write (done, refused, or landed but not synced). The word layer of
  the ledger (component trials, anchors) is an arbitrary function. Properties that need documented behaviour of such code
  state it as a hypothesis, with a witness on a concrete instance.

  \<^bold>\<open>Bounds and fuel\<close>

  Loops over data are structural or have a measure on the remaining text, ranges or fields; nothing is cut off by fuel. Limits
  in definitions are those of the code: 32 levels of stored blocks, 16 waiting commands of an owner, the iteration limit of
  a turn (the loop reports it as an error), 300 seconds of backoff; buffer capacities are arguments. The compare-exchange loop is given the interfering stores as a finite list and returns after it.

  \<^bold>\<open>Assumptions\<close>

  Between the confirmation of a call's targets and the start of its handler the world of a turn does not change (the code
  awaits the delivery of an interface event there), and a path gate reads one state of the file system: changes between
  the check and the use of a path are outside the model. Working directories are valid UTF-8.
  A provider stream is the finite list of events received before it closes. Deleting and starring a thread are single steps.
  A rename is atomic and a synced file survives a loss of power, an unsynced one falls back. The poll interval of a monitor
  is representable. Journal and thread files are changed by the modelled operations only.

  \<^bold>\<open>Not modelled\<close>

  Audio capture, recognisers, language-model clients and the Swift bridge (hardware, inference and network); the threaded
  live session, the recording controller and the reply handles of consultations (asynchronous orchestration); merges,
  splits, dictionary rewrites and anchor words of the ledger's word layer; search texts, previews and blobs of threads; the
  settings file and the command line (serialisation and entry points); log lines and interface events.

  Next in the plan: the pure policies of the recording controller, the word layer of the ledger, and the take trail.
\<close>

end
